(* ===== verification/Prelude.thy ===== *)
theory Prelude
  imports Main "HOL-Library.Word" "HOL-Library.Multiset"
begin

text \<open>
  Shared vocabulary of the development: the machine types of the C++ code (\<open>std::size_t\<close>,
  \<open>std::byte\<close>, pointers) as words of their width, the exceptions the code throws as values of a
  sum type, the \<open>KVIKIO_EXPECT\<close> check, a byte-addressed memory with block copies, and the generic
  facts on words and lists that the component theories use. No theorem here is about one
  component; the lemma collections \<open>unat_no_wrap\<close> and \<open>res_simps\<close> carry the component proofs.
\<close>

unbundle bit_operations_syntax

named_theorems unat_no_wrap
  \<open>reading sums and differences of words as natural numbers when nothing wraps\<close>

named_theorems res_simps
  \<open>unfolding of checks and of the exception monad\<close>

text \<open>Quantifiers over keys that are pairs stay as they are.\<close>

declare split_paired_All [simp del] split_paired_Ex [simp del]

section \<open>Machine types\<close>

type_synonym size_t = "64 word"
type_synonym byte = "8 word"
type_synonym ptr = "64 word"

section \<open>Exceptions as values\<close>

text \<open>
  The exception types thrown in the modelled code (\<open>error.hpp\<close> and the standard library). A
  system error carries its \<open>errno\<close>. Message texts are not modelled.
\<close>

datatype exn =
    Invalid_Argument
  | Runtime_Error
  | Out_Of_Range
  | Overflow_Error
  | CUfile_Exception
  | Bad_Optional_Access
  | Generic_System_Error nat

type_synonym 'a res = "exn + 'a"

text \<open>\<open>KVIKIO_EXPECT(condition, msg, exception)\<close>: throws unless the condition holds.\<close>

definition kvikio_expect :: "bool \<Rightarrow> exn \<Rightarrow> unit res" where
  "kvikio_expect c e = (if c then Inr () else Inl e)"

definition bind_res :: "'a res \<Rightarrow> ('a \<Rightarrow> 'b res) \<Rightarrow> 'b res" where
  "bind_res r f = (case r of Inl e \<Rightarrow> Inl e | Inr x \<Rightarrow> f x)"

lemma kvikio_expect_simps [simp]:
  "kvikio_expect True e = Inr ()"
  "kvikio_expect False e = Inl e"
  by (simp_all add: kvikio_expect_def)

lemma kvikio_expect_Inr_iff [simp]: "kvikio_expect c e = Inr u \<longleftrightarrow> c"
  by (simp add: kvikio_expect_def)

lemma bind_res_simps [simp]:
  "bind_res (Inl e) f = Inl e"
  "bind_res (Inr x) f = f x"
  by (simp_all add: bind_res_def)

lemma bind_res_Inr_iff: "bind_res r f = Inr y \<longleftrightarrow> (\<exists>x. r = Inr x \<and> f x = Inr y)"
  by (cases r) simp_all

lemma bind_expect [res_simps]:
  "bind_res (kvikio_expect c e) f = (if c then f () else Inl e)"
  by simp

section \<open>Words\<close>

lemma size_t_range: "unat (x :: size_t) < 2 ^ 64"
  using unsigned_less [of x, where ?'a = nat] by simp

lemma unat_plus_no_wrap [unat_no_wrap]:
  fixes a b :: size_t
  assumes "unat a + unat b < 2 ^ 64"
  shows "unat (a + b) = unat a + unat b"
  using assms unat_add_lem [of a b] by simp

lemma unat_minus_no_wrap [unat_no_wrap]:
  fixes a b :: size_t
  assumes "b \<le> a"
  shows "unat (a - b) = unat a - unat b"
  using assms by (rule unat_sub)

lemma unat_min_size_t: "unat (min a b :: size_t) = min (unat a) (unat b)"
  by (simp add: min_def word_le_nat_alt)

lemma unat_max_size_t: "unat (max a b :: size_t) = max (unat a) (unat b)"
  by (simp add: max_def word_le_nat_alt)

lemma unat_of_nat_size_t [unat_no_wrap]: "n < 2 ^ 64 \<Longrightarrow> unat (of_nat n :: size_t) = n"
  by (simp add: unat_of_nat take_bit_nat_eq_self)

lemma unat_pos_iff: "0 < unat (x :: size_t) \<longleftrightarrow> x \<noteq> 0"
  by (simp add: unat_gt_0)

text \<open>A range of \<open>sz\<close> bytes from offset \<open>off\<close> that does not run past the top of the type.\<close>

definition fits :: "size_t \<Rightarrow> size_t \<Rightarrow> bool" where
  "fits off sz \<longleftrightarrow> unat off + unat sz < 2 ^ 64"

lemma unat_plus_fits [unat_no_wrap]: "fits a b \<Longrightarrow> unat (a + b) = unat a + unat b"
  by (simp add: fits_def unat_plus_no_wrap)

section \<open>Byte-addressed memory\<close>

text \<open>
  Memory maps every 64-bit address to a byte. \<open>write_bytes\<close> is \<open>memcpy\<close> into it and
  \<open>read_bytes\<close> reads a block; address arithmetic wraps as it does on the machine.
\<close>

type_synonym memory = "ptr \<Rightarrow> byte"

definition write_bytes :: "memory \<Rightarrow> ptr \<Rightarrow> byte list \<Rightarrow> memory" where
  "write_bytes m a bs = (\<lambda>x. if unat (x - a) < length bs then bs ! unat (x - a) else m x)"

definition read_bytes :: "memory \<Rightarrow> ptr \<Rightarrow> nat \<Rightarrow> byte list" where
  "read_bytes m a n = map (\<lambda>i. m (a + of_nat i)) [0..<n]"

lemma length_read_bytes [simp]: "length (read_bytes m a n) = n"
  by (simp add: read_bytes_def)

lemma nth_read_bytes [simp]: "i < n \<Longrightarrow> read_bytes m a n ! i = m (a + of_nat i)"
  by (simp add: read_bytes_def)

lemma write_bytes_Nil [simp]: "write_bytes m a [] = m"
  by (simp add: write_bytes_def)

lemma write_bytes_inside:
  "i < length bs \<Longrightarrow> length bs \<le> 2 ^ 64 \<Longrightarrow> write_bytes m a bs (a + of_nat i) = bs ! i"
  by (simp add: write_bytes_def unat_of_nat_size_t)

lemma read_write_bytes:
  "length bs \<le> 2 ^ 64 \<Longrightarrow> read_bytes (write_bytes m a bs) a (length bs) = bs"
  by (rule nth_equalityI) (simp_all add: write_bytes_inside)

text \<open>Writing two adjacent blocks is writing their concatenation.\<close>

lemma write_bytes_append:
  assumes "length xs + length ys \<le> 2 ^ 64"
  shows "write_bytes (write_bytes m a xs) (a + of_nat (length xs)) ys = write_bytes m a (xs @ ys)"
proof (cases "ys = []")
  case True
  then show ?thesis by simp
next
  case False
  with assms have len: "length xs < 2 ^ 64" by (cases ys) simp_all
  show ?thesis
  proof
    fix x :: ptr
    let ?d = "x - a"
    have sub: "x - (a + of_nat (length xs)) = ?d - of_nat (length xs)"
      by (simp add: algebra_simps)
    show "write_bytes (write_bytes m a xs) (a + of_nat (length xs)) ys x = write_bytes m a (xs @ ys) x"
    proof (cases "unat ?d < length xs")
      case True
      have "unat (?d - of_nat (length xs)) = 2 ^ 64 - (length xs - unat ?d)"
        using True len by (simp add: unat_sub_if' unat_of_nat_size_t)
      with True assms have "\<not> unat (?d - of_nat (length xs)) < length ys" by simp
      with True show ?thesis by (simp add: write_bytes_def sub nth_append)
    next
      case False
      then have "unat (?d - of_nat (length xs)) = unat ?d - length xs"
        using len by (simp add: unat_sub_if' unat_of_nat_size_t)
      with False show ?thesis by (auto simp: write_bytes_def sub nth_append)
    qed
  qed
qed

section \<open>Lists\<close>

lemma upt_split: "a \<le> b \<Longrightarrow> b \<le> c \<Longrightarrow> [a..<b] @ [b..<c] = [a..<c]"
  by (metis le_add_diff_inverse upt_add_eq_append)

lemma map_upt_shift: "map f [a..<a + n] = map (\<lambda>k. f (a + k)) [0..<n]"
  by (rule nth_equalityI) simp_all

lemma concat_map_concat: "concat (map f (concat xss)) = concat (map (\<lambda>xs. concat (map f xs)) xss)"
  by (induction xss) simp_all

lemma mset_concat_map_cong:
  "(\<And>x. x \<in> set xs \<Longrightarrow> mset (f x) = mset (g x)) \<Longrightarrow> mset (concat (map f xs)) = mset (concat (map g xs))"
  by (induction xs) simp_all

lemma mset_concat_map_mset:
  "mset xs = mset ys \<Longrightarrow> mset (concat (map f xs)) = mset (concat (map f ys))"
proof -
  assume "mset xs = mset ys"
  then have "\<Sum>\<^sub># (image_mset (mset \<circ> f) (mset xs)) = \<Sum>\<^sub># (image_mset (mset \<circ> f) (mset ys))" by simp
  moreover have "\<And>zs. mset (concat (map f zs)) = \<Sum>\<^sub># (image_mset (mset \<circ> f) (mset zs))"
    by (simp add: mset_concat comp_def sum_mset_sum_list flip: mset_map)
  ultimately show ?thesis by simp
qed

lemma sum_list_replicate_0 [simp]: "sum_list (replicate n (0::nat)) = 0"
  by (induction n) simp_all

end
