(* ===== verification/Range_Tiling.thy ===== *)
theory Range_Tiling
  imports Prelude
begin

text \<open>
  The contract shared by the three places where the library cuts a byte range into pieces: the
  transfer planner (\<open>split_request\<close>), the thread-pool tasks of \<open>parallel_io\<close> and the sub-ranges of
  a \<open>MULTI_POLL\<close> read. A cutter promises that its pieces tile the range: they are consecutive,
  start where the range starts, end where it ends, and none is larger than a bound. The locale
  \<open>range_splitter\<close> states the promise and derives what the clients use: no byte is missed, none
  is moved twice, the sizes add up, and moving the pieces in any order moves the whole range. The
  planner and \<open>parallel_io\<close> interpret it; the sub-ranges of a remote read use the lemmas on \<open>tiles\<close> directly.
\<close>

section \<open>Consecutive pieces\<close>

text \<open>A piece is a pair of its file offset and its size.\<close>

fun tiles :: "nat \<Rightarrow> nat \<Rightarrow> (size_t \<times> size_t) list \<Rightarrow> bool" where
  "tiles lo hi [] \<longleftrightarrow> lo = hi"
| "tiles lo hi ((off, sz) # cs) \<longleftrightarrow> unat off = lo \<and> tiles (lo + unat sz) hi cs"

definition piece_bytes :: "size_t \<times> size_t \<Rightarrow> nat list" where
  "piece_bytes c = [unat (fst c) ..< unat (fst c) + unat (snd c)]"

lemma tiles_le: "tiles lo hi cs \<Longrightarrow> lo \<le> hi"
  by (induction lo hi cs rule: tiles.induct) auto

lemma tiles_append:
  "tiles lo mid cs \<Longrightarrow> tiles mid hi ds \<Longrightarrow> tiles lo hi (cs @ ds)"
  by (induction lo mid cs rule: tiles.induct) auto

lemma tiles_bytes: "tiles lo hi cs \<Longrightarrow> concat (map piece_bytes cs) = [lo ..< hi]"
proof (induction lo hi cs rule: tiles.induct)
  case (1 lo hi)
  then show ?case by simp
next
  case (2 lo hi off sz cs)
  then have "lo + unat sz \<le> hi" by (auto dest: tiles_le)
  with 2 show ?case
    by (simp add: piece_bytes_def upt_split)
qed

lemma tiles_sum: "tiles lo hi cs \<Longrightarrow> lo + sum_list (map (unat \<circ> snd) cs) = hi"
  by (induction lo hi cs rule: tiles.induct) (auto simp: add.assoc)

lemma tiles_mem: "tiles lo hi cs \<Longrightarrow> (off, sz) \<in> set cs \<Longrightarrow> lo \<le> unat off \<and> unat off + unat sz \<le> hi"
proof (induction lo hi cs rule: tiles.induct)
  case (1 lo hi)
  then show ?case by simp
next
  case (2 lo hi off' sz' cs)
  then show ?case by (fastforce dest: tiles_le)
qed

section \<open>Moving pieces into memory\<close>

text \<open>
  The bytes of a file as a function of the position. \<open>copy_piece\<close> moves one piece of the range
  that starts at file offset \<open>off\<close> into the buffer at \<open>a\<close>: file position \<open>p\<close> goes to address
  \<open>a + (p - off)\<close>.
\<close>

type_synonym file_content = "nat \<Rightarrow> byte"

definition copy_piece ::
  "file_content \<Rightarrow> ptr \<Rightarrow> size_t \<Rightarrow> size_t \<times> size_t \<Rightarrow> memory \<Rightarrow> memory" where
  "copy_piece file a off c m = write_bytes m (a + (fst c - off)) (map file (piece_bytes c))"

lemma write_piece_at:
  fixes x a off :: "64 word"
  assumes "unat off \<le> unat (fst c)" "unat (fst c) + unat (snd c) \<le> unat off + 2 ^ 64"
  shows "copy_piece file a off c m x =
    (if unat off + unat (x - a) \<in> set (piece_bytes c) then file (unat off + unat (x - a)) else m x)"
proof -
  let ?d = "unat (x - a)" and ?k = "unat (fst c) - unat off"
  have k: "unat (fst c - off) = ?k" using assms(1) by (simp add: unat_minus_no_wrap word_le_nat_alt)
  have sub: "x - (a + (fst c - off)) = (x - a) - (fst c - off)" by (simp add: algebra_simps)
  have idx: "unat (x - (a + (fst c - off))) = (if ?k \<le> ?d then ?d - ?k else ?d + 2 ^ 64 - ?k)"
    unfolding sub using unat_sub_if' [of "x - a" "fst c - off"] by (simp only: k) simp
  have "unat (x - (a + (fst c - off))) < unat (snd c) \<longleftrightarrow> ?k \<le> ?d \<and> ?d < ?k + unat (snd c)"
    unfolding idx using assms by (cases "?k \<le> ?d") auto
  also have "\<dots> \<longleftrightarrow> unat off + ?d \<in> set (piece_bytes c)"
    using assms(1) by (auto simp: piece_bytes_def)
  finally have cov: "unat (x - (a + (fst c - off))) < unat (snd c) \<longleftrightarrow> unat off + ?d \<in> set (piece_bytes c)" .
  have "unat (fst c) + unat (x - (a + (fst c - off))) = unat off + ?d" if "unat off + ?d \<in> set (piece_bytes c)"
    using that assms(1) by (auto simp: idx piece_bytes_def)
  then show ?thesis
    using cov by (auto simp: copy_piece_def write_bytes_def piece_bytes_def)
qed

lemma fold_copy_piece:
  assumes "\<And>c. c \<in> set ds \<Longrightarrow> unat off \<le> unat (fst c) \<and> unat (fst c) + unat (snd c) \<le> unat off + 2 ^ 64"
  shows "fold (copy_piece file a off) ds m x =
    (if unat off + unat (x - a) \<in> set (concat (map piece_bytes ds))
     then file (unat off + unat (x - a)) else m x)"
  using assms
proof (induction ds arbitrary: m)
  case Nil
  then show ?case by simp
next
  case (Cons c ds)
  have "fold (copy_piece file a off) (c # ds) m x = fold (copy_piece file a off) ds (copy_piece file a off c m) x"
    by simp
  also have "\<dots> = (if unat off + unat (x - a) \<in> set (concat (map piece_bytes ds))
     then file (unat off + unat (x - a)) else copy_piece file a off c m x)"
    by (rule Cons.IH, rule Cons.prems) simp
  finally show ?case using write_piece_at [where off = off and c = c and x = x and a = a and m = m] Cons.prems by auto
qed

text \<open>
  Moving consecutive pieces in any order gives the memory that moving the whole range at once
  gives.
\<close>

lemma tiles_any_order_memory:
  assumes "tiles (unat off) (unat off + unat sz) cs" "fits off sz" "mset ds = mset cs"
  shows "fold (copy_piece file a off) ds m = copy_piece file a off (off, sz) m"
proof
  fix x
  have inside: "unat off \<le> unat (fst c) \<and> unat (fst c) + unat (snd c) \<le> unat off + 2 ^ 64" if "c \<in> set ds" for c
    using tiles_mem [OF assms(1), of "fst c" "snd c"] that mset_eq_setD [OF assms(3)] assms(2)
    by (simp add: fits_def)
  have "set (concat (map piece_bytes ds)) = set (concat (map piece_bytes cs))"
    using mset_eq_setD [OF assms(3)] by simp
  also have "\<dots> = set (piece_bytes (off, sz))"
    by (simp only: tiles_bytes [OF assms(1)]) (simp add: piece_bytes_def)
  finally have "fold (copy_piece file a off) ds m x =
      (if unat off + unat (x - a) \<in> set (piece_bytes (off, sz)) then file (unat off + unat (x - a)) else m x)"
    by (simp only: fold_copy_piece [OF inside])
  also have "\<dots> = copy_piece file a off (off, sz) m x"
    using assms(2) by (intro write_piece_at [symmetric]) (simp_all add: fits_def)
  finally show "fold (copy_piece file a off) ds m x = copy_piece file a off (off, sz) m x" .
qed

section \<open>The contract of a cutter\<close>

text \<open>
  \<open>split cfg file_offset size task_size\<close> is the list of pieces, or \<open>None\<close> if the cutting loop does
  not return or the call throws. \<open>cfg\<close> is what else the cutter depends on, and \<open>valid\<close> says which
  configurations it accepts. \<open>bound cfg task_size\<close> is the largest piece it may produce. The
  contract is for non-empty ranges that do not run past the top of the offset type.
\<close>

definition admissible :: "size_t \<Rightarrow> size_t \<Rightarrow> size_t \<Rightarrow> bool" where
  "admissible off sz task_size \<longleftrightarrow> 0 < task_size \<and> 0 < sz \<and> fits off sz"

locale range_splitter =
  fixes valid :: "'cfg \<Rightarrow> bool"
    and split :: "'cfg \<Rightarrow> size_t \<Rightarrow> size_t \<Rightarrow> size_t \<Rightarrow> (size_t \<times> size_t) list option"
    and bound :: "'cfg \<Rightarrow> size_t \<Rightarrow> nat"
  assumes split_tiles:
    "valid cfg \<Longrightarrow> admissible off sz ts \<Longrightarrow>
     \<exists>cs. split cfg off sz ts = Some cs \<and> tiles (unat off) (unat off + unat sz) cs"
    and bounded:
    "valid cfg \<Longrightarrow> admissible off sz ts \<Longrightarrow> split cfg off sz ts = Some cs \<Longrightarrow> c \<in> set cs \<Longrightarrow>
     unat (snd c) \<le> bound cfg ts"
begin

lemma tiled:
  "valid cfg \<Longrightarrow> admissible off sz ts \<Longrightarrow> split cfg off sz ts = Some cs \<Longrightarrow>
   tiles (unat off) (unat off + unat sz) cs"
  using split_tiles by fastforce

lemma covers_once:
  "valid cfg \<Longrightarrow> admissible off sz ts \<Longrightarrow> split cfg off sz ts = Some cs \<Longrightarrow>
   concat (map piece_bytes cs) = [unat off ..< unat off + unat sz]"
  by (rule tiles_bytes) (rule tiled)

lemma sizes_add_up:
  "valid cfg \<Longrightarrow> admissible off sz ts \<Longrightarrow> split cfg off sz ts = Some cs \<Longrightarrow>
   sum_list (map (unat \<circ> snd) cs) = unat sz"
  using tiles_sum [OF tiled] by fastforce

lemma any_order_covers_once:
  assumes "valid cfg" "admissible off sz ts" "split cfg off sz ts = Some cs" "mset ds = mset cs"
  shows "mset (concat (map piece_bytes ds)) = mset [unat off ..< unat off + unat sz]"
  using mset_concat_map_mset [OF assms(4), of piece_bytes] covers_once [OF assms(1-3)] by simp

lemma piece_inside:
  assumes "valid cfg" "admissible off sz ts" "split cfg off sz ts = Some cs" "(o', s') \<in> set cs"
  shows "unat off \<le> unat o' \<and> unat o' + unat s' \<le> unat off + unat sz"
  using tiles_mem [OF tiled [OF assms(1-3)] assms(4)] .

lemma any_order_same_memory:
  assumes "valid cfg" "admissible off sz ts" "split cfg off sz ts = Some cs" "mset ds = mset cs"
  shows "fold (copy_piece file a off) ds m = copy_piece file a off (off, sz) m"
  using tiled [OF assms(1-3)] assms(2,4) by (intro tiles_any_order_memory) (simp_all add: admissible_def)

text \<open>The sum of the piece sizes, in the arithmetic of the size type, is the size of the range.\<close>

lemma sizes_add_up_word:
  assumes "valid cfg" "admissible off sz ts" "split cfg off sz ts = Some cs"
  shows "sum_list (map snd cs) = sz"
proof -
  have "of_nat (sum_list (map (unat \<circ> snd) cs)) = sum_list (map snd cs)"
    by (induction cs) simp_all
  with sizes_add_up [OF assms] show ?thesis by simp
qed

end

end
