(* ===== verification/Transfer_Plan.thy ===== *)
theory Transfer_Plan
  imports Range_Tiling "HOL-Library.Product_Lexorder"
begin

text \<open>
  The transfer planner of \<open>cpp/src/detail/transfer_plan.cpp\<close>: it groups the read requests of a
  batch by remote handle and CUDA context, sorts each group by file offset, merges neighbouring
  requests whose gap is small, and splits requests larger than the task size. Offsets and sizes
  are 64-bit words with the arithmetic of \<open>std::size_t\<close>; positions in the vectors are naturals.
  The splitting loop is a partial function, since with a task size of zero it would not return;
  \<open>None\<close> is a call that never returns.

  The plan is related to an abstract view, the list of transfers each with the segments it owns,
  and the correctness theorems say that executing the plan delivers every requested byte to its
  place in the caller's buffer exactly once, from transfers within the task size.
\<close>

section \<open>Data\<close>

record TransferPlanRequest =
  rq_handle :: ptr
  rq_cuda_context :: ptr
  rq_buf :: ptr
  rq_file_offset :: size_t
  rq_size :: size_t

record TransferPlanOptions =
  opt_task_size :: size_t
  coalesce_max_gap :: "size_t option"

record TransferSegment =
  span_offset :: size_t
  sg_length :: size_t
  sg_buf :: ptr
  request_index :: nat

record PlannedTransfer =
  pt_handle :: ptr
  pt_cuda_context :: ptr
  pt_file_offset :: size_t
  pt_size :: size_t
  segment_begin :: nat
  segment_end :: nat

record TransferPlan =
  transfers :: "PlannedTransfer list"
  segments :: "TransferSegment list"
  transfers_per_request :: "nat list"
  overread_bytes :: size_t

type_synonym GroupKey = "ptr \<times> ptr"

section \<open>Merging and splitting\<close>

text \<open>\<open>++plan.transfers_per_request[request_index]\<close>.\<close>

definition count_transfer :: "nat \<Rightarrow> TransferPlan \<Rightarrow> TransferPlan" where
  "count_transfer i plan =
     plan\<lparr>transfers_per_request := (transfers_per_request plan)[i := Suc (transfers_per_request plan ! i)]\<rparr>"

text \<open>The body of the loop over the run in \<open>merge_requests\<close>, with its running byte count.\<close>

definition merge_step ::
  "TransferPlanRequest list \<Rightarrow> size_t \<Rightarrow> nat \<Rightarrow> TransferPlan \<times> size_t \<Rightarrow> TransferPlan \<times> size_t" where
  "merge_step requests span_begin request_idx st =
     (let (plan, wanted_bytes) = st;
          request = requests ! request_idx;
          segment = \<lparr>span_offset = rq_file_offset request - span_begin, sg_length = rq_size request,
                     sg_buf = rq_buf request, request_index = request_idx\<rparr>
      in (count_transfer request_idx (plan\<lparr>segments := segments plan @ [segment]\<rparr>),
          wanted_bytes + rq_size request))"

definition merge_requests ::
  "TransferPlanRequest list \<Rightarrow> nat list \<Rightarrow> TransferPlan \<Rightarrow> TransferPlan" where
  "merge_requests requests run_indices plan =
     (let first = requests ! hd run_indices;
          lst = requests ! last run_indices;
          span_begin = rq_file_offset first;
          span_end = rq_file_offset lst + rq_size lst;
          seg_begin = length (segments plan);
          (plan1, wanted_bytes) = fold (merge_step requests span_begin) run_indices (plan, 0);
          plan2 = plan1\<lparr>transfers := transfers plan1 @
            [\<lparr>pt_handle = rq_handle first, pt_cuda_context = rq_cuda_context first,
              pt_file_offset = span_begin, pt_size = span_end - span_begin,
              segment_begin = seg_begin, segment_end = length (segments plan1)\<rparr>]\<rparr>
      in plan2\<lparr>overread_bytes := overread_bytes plan2 + ((span_end - span_begin) - wanted_bytes)\<rparr>)"

text \<open>The body of the loop in \<open>split_request\<close> for the chunk at \<open>chunk_begin\<close>.\<close>

definition split_step ::
  "TransferPlanRequest \<Rightarrow> nat \<Rightarrow> size_t \<Rightarrow> size_t \<Rightarrow> TransferPlan \<Rightarrow> TransferPlan" where
  "split_step request request_idx chunk_begin chunk_size plan =
     (let seg_begin = length (segments plan);
          offset_in_request = chunk_begin - rq_file_offset request;
          plan1 = plan\<lparr>segments := segments plan @
            [\<lparr>span_offset = 0, sg_length = chunk_size, sg_buf = rq_buf request + offset_in_request,
              request_index = request_idx\<rparr>]\<rparr>;
          plan2 = plan1\<lparr>transfers := transfers plan1 @
            [\<lparr>pt_handle = rq_handle request, pt_cuda_context = rq_cuda_context request,
              pt_file_offset = chunk_begin, pt_size = chunk_size,
              segment_begin = seg_begin, segment_end = length (segments plan1)\<rparr>]\<rparr>
      in count_transfer request_idx plan2)"

partial_function (option) split_loop ::
  "TransferPlanRequest \<Rightarrow> nat \<Rightarrow> size_t \<Rightarrow> size_t \<Rightarrow> size_t \<Rightarrow> TransferPlan \<Rightarrow> TransferPlan option" where
  "split_loop request request_idx task_size file_end chunk_begin plan =
     (if chunk_begin < file_end then
        let chunk_size = min (file_end - chunk_begin) task_size
        in split_loop request request_idx task_size file_end (chunk_begin + chunk_size)
             (split_step request request_idx chunk_begin chunk_size plan)
      else Some plan)"

declare split_loop.simps [code]

definition split_request ::
  "TransferPlanRequest list \<Rightarrow> nat \<Rightarrow> size_t \<Rightarrow> TransferPlan \<Rightarrow> TransferPlan option" where
  "split_request requests request_idx task_size plan =
     (let request = requests ! request_idx;
          file_end = rq_file_offset request + rq_size request
      in split_loop request request_idx task_size file_end (rq_file_offset request) plan)"

section \<open>Planning one group\<close>

text \<open>
  The inner loop of \<open>plan_group\<close>: how far the run that started at \<open>span_begin\<close> and now ends at
  \<open>span_end\<close> extends into the remaining sorted indices. Returns the indices that join the run and
  the rest.
\<close>

fun extend_run ::
  "TransferPlanRequest list \<Rightarrow> TransferPlanOptions \<Rightarrow> size_t \<Rightarrow> size_t \<Rightarrow> nat list \<Rightarrow> nat list \<times> nat list" where
  "extend_run requests opts span_begin span_end [] = ([], [])"
| "extend_run requests opts span_begin span_end (j # js) =
     (case coalesce_max_gap opts of
        None \<Rightarrow> ([], j # js)
      | Some max_gap \<Rightarrow>
          let candidate = requests ! j in
          if rq_file_offset candidate < span_end then ([], j # js)
          else if rq_file_offset candidate - span_end > max_gap then ([], j # js)
          else if rq_file_offset candidate + rq_size candidate - span_begin > opt_task_size opts
          then ([], j # js)
          else
            let (run, rest) = extend_run requests opts span_begin
                                (rq_file_offset candidate + rq_size candidate) js
            in (j # run, rest))"

lemma extend_run_append:
  "extend_run requests opts sb se js = (run, rest) \<Longrightarrow> js = run @ rest"
  by (induction requests opts sb se js arbitrary: run rest rule: extend_run.induct)
    (auto simp: Let_def split: option.splits if_splits prod.splits)

function plan_group ::
  "TransferPlanRequest list \<Rightarrow> TransferPlanOptions \<Rightarrow> nat list \<Rightarrow> TransferPlan \<Rightarrow> TransferPlan option" where
  "plan_group requests opts [] plan = Some plan"
| "plan_group requests opts (i # is) plan =
     (let run_head = requests ! i;
          span_begin = rq_file_offset run_head;
          span_end = rq_file_offset run_head + rq_size run_head;
          ext = extend_run requests opts span_begin span_end is;
          run_indices = i # fst ext
      in case (if length run_indices > 1 then Some (merge_requests requests run_indices plan)
               else split_request requests (hd run_indices) (opt_task_size opts) plan) of
           None \<Rightarrow> None
         | Some plan' \<Rightarrow> plan_group requests opts (snd ext) plan')"
  by pat_completeness auto
termination
proof (relation "measure (\<lambda>(_, _, is, _). length is)", goal_cases)
  case 1
  show ?case by simp
next
  case (2 requests opts i "is" plan run_head span_begin span_end ext run_indices plan')
  then have "is = fst ext @ snd ext"
    by (metis extend_run_append prod.collapse)
  then have "length (snd ext) \<le> length is"
    by (metis le_add2 length_append)
  then show ?case by simp
qed

section \<open>Building the plan\<close>

text \<open>
  The grouping loop: \<open>group_slot\<close> maps a key to the position of its group, \<open>groups\<close> lists the
  request indices of each group in the order the keys were first met. Zero-size requests are
  skipped.
\<close>

definition group_step ::
  "TransferPlanRequest list \<Rightarrow> nat \<Rightarrow> (nat list list \<times> (GroupKey \<rightharpoonup> nat)) \<Rightarrow>
   nat list list \<times> (GroupKey \<rightharpoonup> nat)" where
  "group_step requests request_idx st =
     (let (groups, group_slot) = st;
          request = requests ! request_idx;
          key = (rq_handle request, rq_cuda_context request)
      in if rq_size request = 0 then (groups, group_slot)
         else case group_slot key of
                Some slot \<Rightarrow> (groups[slot := groups ! slot @ [request_idx]], group_slot)
              | None \<Rightarrow> (groups @ [[request_idx]], group_slot(key \<mapsto> length groups)))"

definition group_requests :: "TransferPlanRequest list \<Rightarrow> nat list list" where
  "group_requests requests = fst (fold (group_step requests) [0..<length requests] ([], Map.empty))"

definition by_file_offset :: "TransferPlanRequest list \<Rightarrow> nat \<Rightarrow> nat \<Rightarrow> bool" where
  "by_file_offset requests a b =
     (if rq_file_offset (requests ! a) \<noteq> rq_file_offset (requests ! b)
      then rq_file_offset (requests ! a) < rq_file_offset (requests ! b)
      else a < b)"

text \<open>
  \<open>std::sort\<close> under the strict total order \<open>by_file_offset\<close>: the unique ordered arrangement, here
  by insertion sort on the pair of offset and index.
\<close>

definition sort_group :: "TransferPlanRequest list \<Rightarrow> nat list \<Rightarrow> nat list" where
  "sort_group requests group_indices =
     (if sorted_wrt (by_file_offset requests) group_indices then group_indices
      else sort_key (\<lambda>i. (rq_file_offset (requests ! i), i)) group_indices)"

fun plan_groups ::
  "TransferPlanRequest list \<Rightarrow> TransferPlanOptions \<Rightarrow> nat list list \<Rightarrow> TransferPlan \<Rightarrow> TransferPlan option" where
  "plan_groups requests opts [] plan = Some plan"
| "plan_groups requests opts (g # gs) plan =
     (case plan_group requests opts (sort_group requests g) plan of
        None \<Rightarrow> None
      | Some plan' \<Rightarrow> plan_groups requests opts gs plan')"

definition empty_plan :: "nat \<Rightarrow> TransferPlan" where
  "empty_plan n = \<lparr>transfers = [], segments = [], transfers_per_request = replicate n 0, overread_bytes = 0\<rparr>"

definition build_transfer_plan ::
  "TransferPlanRequest list \<Rightarrow> TransferPlanOptions \<Rightarrow> TransferPlan option res" where
  "build_transfer_plan requests opts =
     bind_res (kvikio_expect (opt_task_size opts > 0) Invalid_Argument)
       (\<lambda>_. let plan = empty_plan (length requests)
            in if requests = [] then Inr (Some plan)
               else Inr (plan_groups requests opts (group_requests requests) plan))"

section \<open>The abstract view of a plan\<close>

text \<open>
  A transfer together with the segments it owns. The plan stores the segments of all transfers in
  one vector and the transfers carry index ranges into it; the view resolves the ranges.
\<close>

record transfer_view =
  tv_handle :: ptr
  tv_cuda_context :: ptr
  tv_file_offset :: size_t
  tv_size :: size_t
  tv_segments :: "TransferSegment list"

definition view_of :: "TransferPlan \<Rightarrow> PlannedTransfer \<Rightarrow> transfer_view" where
  "view_of plan t =
     \<lparr>tv_handle = pt_handle t, tv_cuda_context = pt_cuda_context t,
      tv_file_offset = pt_file_offset t, tv_size = pt_size t,
      tv_segments = take (segment_end t - segment_begin t) (drop (segment_begin t) (segments plan))\<rparr>"

definition plan_view :: "TransferPlan \<Rightarrow> transfer_view list" where
  "plan_view plan = map (view_of plan) (transfers plan)"

text \<open>The index ranges follow each other without a hole from \<open>n\<close> to \<open>m\<close>.\<close>

fun slices_from :: "nat \<Rightarrow> PlannedTransfer list \<Rightarrow> nat \<Rightarrow> bool" where
  "slices_from n [] m \<longleftrightarrow> n = m"
| "slices_from n (t # ts) m \<longleftrightarrow>
     segment_begin t = n \<and> n \<le> segment_end t \<and> slices_from (segment_end t) ts m"

definition slices_ok :: "TransferPlan \<Rightarrow> bool" where
  "slices_ok plan \<longleftrightarrow> slices_from 0 (transfers plan) (length (segments plan))"

lemma slices_from_le: "slices_from n ts m \<Longrightarrow> n \<le> m"
  by (induction n ts m rule: slices_from.induct) auto

lemma slices_from_mem: "slices_from n ts m \<Longrightarrow> t \<in> set ts \<Longrightarrow> segment_begin t \<le> segment_end t \<and> segment_end t \<le> m"
  by (induction n ts m rule: slices_from.induct) (auto dest: slices_from_le)

lemma slices_from_snoc:
  "slices_from n (ts @ [t]) m \<longleftrightarrow>
   slices_from n ts (segment_begin t) \<and> segment_begin t \<le> segment_end t \<and> segment_end t = m"
  by (induction n ts m rule: slices_from.induct) auto

text \<open>Appending a transfer with its segments appends its view and leaves the others alone.\<close>

lemma push_transfer:
  assumes "slices_ok p"
    and "segments p' = segments p @ ss" and "transfers p' = transfers p @ [t]"
    and "segment_begin t = length (segments p)" and "segment_end t = length (segments p) + length ss"
  shows "slices_ok p'"
    and "plan_view p' = plan_view p @ [view_of p' t]"
    and "tv_segments (view_of p' t) = ss"
proof -
  show "slices_ok p'"
    using assms by (simp add: slices_ok_def slices_from_snoc)
  have "view_of p' u = view_of p u" if "u \<in> set (transfers p)" for u
    using slices_from_mem [OF assms(1) [unfolded slices_ok_def] that] assms(2)
    by (simp add: view_of_def)
  then show "plan_view p' = plan_view p @ [view_of p' t]"
    by (simp add: plan_view_def assms(3))
  show "tv_segments (view_of p' t) = ss"
    using assms by (simp add: view_of_def)
qed

section \<open>What the planning steps add to the view\<close>

definition merge_segment :: "TransferPlanRequest list \<Rightarrow> size_t \<Rightarrow> nat \<Rightarrow> TransferSegment" where
  "merge_segment requests span_begin i =
     \<lparr>span_offset = rq_file_offset (requests ! i) - span_begin, sg_length = rq_size (requests ! i),
      sg_buf = rq_buf (requests ! i), request_index = i\<rparr>"

lemma merge_segment_sel [simp]:
  "span_offset (merge_segment requests sb i) = rq_file_offset (requests ! i) - sb"
  "sg_length (merge_segment requests sb i) = rq_size (requests ! i)"
  "sg_buf (merge_segment requests sb i) = rq_buf (requests ! i)"
  "request_index (merge_segment requests sb i) = i"
  by (simp_all add: merge_segment_def)

definition merged_view :: "TransferPlanRequest list \<Rightarrow> nat list \<Rightarrow> transfer_view" where
  "merged_view requests run =
     \<lparr>tv_handle = rq_handle (requests ! hd run), tv_cuda_context = rq_cuda_context (requests ! hd run),
      tv_file_offset = rq_file_offset (requests ! hd run),
      tv_size = rq_file_offset (requests ! last run) + rq_size (requests ! last run) -
                rq_file_offset (requests ! hd run),
      tv_segments = map (merge_segment requests (rq_file_offset (requests ! hd run))) run\<rparr>"

definition chunk_view :: "TransferPlanRequest \<Rightarrow> nat \<Rightarrow> size_t \<times> size_t \<Rightarrow> transfer_view" where
  "chunk_view r i c =
     \<lparr>tv_handle = rq_handle r, tv_cuda_context = rq_cuda_context r,
      tv_file_offset = fst c, tv_size = snd c,
      tv_segments = [\<lparr>span_offset = 0, sg_length = snd c,
                      sg_buf = rq_buf r + (fst c - rq_file_offset r), request_index = i\<rparr>]\<rparr>"

text \<open>
  The bookkeeping of a plan as a function of its view: the gap bytes, and how many segments each
  request has.
\<close>

definition view_gap :: "transfer_view \<Rightarrow> size_t" where
  "view_gap v = tv_size v - sum_list (map sg_length (tv_segments v))"

definition view_counts :: "nat \<Rightarrow> transfer_view list \<Rightarrow> nat list" where
  "view_counts n vs = map (\<lambda>i. count_list (map request_index (concat (map tv_segments vs))) i) [0..<n]"

definition plan_inv :: "nat \<Rightarrow> TransferPlan \<Rightarrow> transfer_view list \<Rightarrow> bool" where
  "plan_inv n plan vs \<longleftrightarrow>
     slices_ok plan \<and> plan_view plan = vs \<and>
     overread_bytes plan = sum_list (map view_gap vs) \<and>
     transfers_per_request plan = view_counts n vs"

lemma view_counts_snoc:
  "view_counts n (vs @ [v]) ! k = view_counts n vs ! k + count_list (map request_index (tv_segments v)) k"
  if "k < n"
  using that by (simp add: view_counts_def)

lemma length_view_counts [simp]: "length (view_counts n vs) = n"
  by (simp add: view_counts_def)

lemma fold_merge_step:
  "fold (merge_step requests sb) run (p, w) =
     (p\<lparr>segments := segments p @ map (merge_segment requests sb) run,
        transfers_per_request := fold (\<lambda>i xs. xs[i := Suc (xs ! i)]) run (transfers_per_request p)\<rparr>,
      w + sum_list (map (rq_size \<circ> (!) requests) run))"
  by (induction run arbitrary: p w)
    (simp_all add: merge_step_def merge_segment_def count_transfer_def Let_def add.assoc)

lemma fold_incr_nth:
  "(\<And>i. i \<in> set run \<Longrightarrow> i < length xs) \<Longrightarrow> k < length xs \<Longrightarrow>
   length (fold (\<lambda>i xs. xs[i := Suc (xs ! i)]) run xs) = length xs \<and>
   fold (\<lambda>i xs. xs[i := Suc (xs ! i)]) run xs ! k = (xs ! k :: nat) + count_list run k"
proof (induction run arbitrary: xs)
  case Nil
  then show ?case by simp
next
  case (Cons i run)
  from Cons.IH [of "xs[i := Suc (xs ! i)]"] Cons.prems show ?case
    by (auto simp: nth_list_update)
qed

lemma merge_requests_inv:
  assumes inv: "plan_inv n p vs" and run: "run \<noteq> []" "\<And>i. i \<in> set run \<Longrightarrow> i < n"
  shows "plan_inv n (merge_requests requests run p) (vs @ [merged_view requests run])"
proof -
  let ?p' = "merge_requests requests run p"
  let ?sb = "rq_file_offset (requests ! hd run)"
  let ?ss = "map (merge_segment requests ?sb) run"
  let ?t = "last (transfers ?p')"
  have p': "segments ?p' = segments p @ ?ss"
    "transfers ?p' = transfers p @ [?t]"
    "segment_begin ?t = length (segments p)" "segment_end ?t = length (segments p) + length ?ss"
    by (simp_all add: merge_requests_def fold_merge_step Let_def)
  note push = push_transfer [OF _ p']
  have ok: "slices_ok p" using inv by (simp add: plan_inv_def)
  have view: "view_of ?p' ?t = merged_view requests run"
  proof (rule transfer_view.equality)
    show "tv_segments (view_of ?p' ?t) = tv_segments (merged_view requests run)"
      using push(3) [OF ok] by (simp add: merged_view_def)
  qed (simp_all add: view_of_def merged_view_def merge_requests_def fold_merge_step Let_def)
  have gap: "overread_bytes ?p' = overread_bytes p + view_gap (merged_view requests run)"
    by (simp add: merge_requests_def fold_merge_step Let_def view_gap_def merged_view_def
        merge_segment_def comp_def)
  have counts: "transfers_per_request ?p' = view_counts n (vs @ [merged_view requests run])"
  proof (rule nth_equalityI)
    have tpr: "transfers_per_request ?p' =
      fold (\<lambda>i xs. xs[i := Suc (xs ! i)]) run (view_counts n vs)"
      using inv by (simp add: plan_inv_def merge_requests_def fold_merge_step Let_def)
    have len: "length (fold (\<lambda>i xs. xs[i := Suc (xs ! i)]) run (view_counts n vs)) = n"
      using fold_incr_nth [of run "view_counts n vs" "hd run"] run by simp
    show "length (transfers_per_request ?p') = length (view_counts n (vs @ [merged_view requests run]))"
      by (simp add: tpr len)
    fix k assume "k < length (transfers_per_request ?p')"
    then have k: "k < n" by (simp add: tpr len)
    then show "transfers_per_request ?p' ! k = view_counts n (vs @ [merged_view requests run]) ! k"
      using fold_incr_nth [of run "view_counts n vs" k] run
      by (simp add: tpr view_counts_snoc merged_view_def merge_segment_def comp_def)
  qed
  show ?thesis
    using inv push(1,2) [OF ok] view gap counts by (simp add: plan_inv_def)
qed

lemma split_step_inv:
  assumes inv: "plan_inv n p vs" and i: "i < n"
  shows "plan_inv n (split_step r i cb cs p) (vs @ [chunk_view r i (cb, cs)])"
proof -
  let ?p' = "split_step r i cb cs p"
  let ?ss = "[\<lparr>span_offset = 0, sg_length = cs, sg_buf = rq_buf r + (cb - rq_file_offset r), request_index = i\<rparr>]"
  let ?t = "last (transfers ?p')"
  have p': "segments ?p' = segments p @ ?ss"
    "transfers ?p' = transfers p @ [?t]"
    "segment_begin ?t = length (segments p)" "segment_end ?t = length (segments p) + length ?ss"
    by (simp_all add: split_step_def count_transfer_def Let_def)
  note push = push_transfer [OF _ p']
  have ok: "slices_ok p" using inv by (simp add: plan_inv_def)
  have view: "view_of ?p' ?t = chunk_view r i (cb, cs)"
  proof (rule transfer_view.equality)
    show "tv_segments (view_of ?p' ?t) = tv_segments (chunk_view r i (cb, cs))"
      using push(3) [OF ok] by (simp add: chunk_view_def)
  qed (simp_all add: view_of_def chunk_view_def split_step_def count_transfer_def Let_def)
  have "transfers_per_request ?p' = (view_counts n vs)[i := Suc (view_counts n vs ! i)]"
    using inv by (simp add: plan_inv_def split_step_def count_transfer_def Let_def)
  also have "\<dots> = view_counts n (vs @ [chunk_view r i (cb, cs)])"
    using i by (intro nth_equalityI) (auto simp: view_counts_snoc chunk_view_def nth_list_update)
  finally have counts: "transfers_per_request ?p' = view_counts n (vs @ [chunk_view r i (cb, cs)])" .
  have "overread_bytes ?p' = overread_bytes p + view_gap (chunk_view r i (cb, cs))"
    by (simp add: split_step_def count_transfer_def Let_def view_gap_def chunk_view_def)
  then show ?thesis
    using inv push(1,2) [OF ok] view counts by (simp add: plan_inv_def)
qed

section \<open>The chunks of a split request\<close>

function chunks :: "size_t \<Rightarrow> size_t \<Rightarrow> size_t \<Rightarrow> (size_t \<times> size_t) list" where
  "chunks ts cb fe =
     (if cb < fe \<and> 0 < ts
      then (cb, min (fe - cb) ts) # chunks ts (cb + min (fe - cb) ts) fe
      else [])"
  by pat_completeness auto
termination
proof (relation "measure (\<lambda>(ts, cb, fe). unat fe - unat cb)", goal_cases)
  case 1
  show ?case by simp
next
  case (2 ts cb fe)
  let ?c = "min (fe - cb) ts"
  from 2 have le: "unat ?c \<le> unat fe - unat cb" and pos: "0 < unat ?c"
    by (simp_all add: unat_min_size_t unat_minus_no_wrap less_imp_le word_less_nat_alt)
  then have "unat (cb + ?c) = unat cb + unat ?c"
    using 2 size_t_range [of fe] by (intro unat_plus_no_wrap) (simp add: word_less_nat_alt)
  moreover have "unat cb < unat fe" using 2 by (simp add: word_less_nat_alt)
  ultimately have "unat fe - unat (cb + ?c) < unat fe - unat cb" using pos by linarith
  then show ?case by (simp only: in_measure case_prod_conv)
qed

declare chunks.simps [simp del]

lemma chunk_step:
  fixes cb fe ts :: size_t
  assumes "cb < fe" "0 < ts"
  shows "unat (cb + min (fe - cb) ts) = unat cb + unat (min (fe - cb) ts)"
    and "cb + min (fe - cb) ts \<le> fe" and "0 < unat (min (fe - cb) ts)"
proof -
  have le: "unat (min (fe - cb) ts) \<le> unat fe - unat cb"
    using assms by (simp add: unat_min_size_t unat_minus_no_wrap less_imp_le)
  then show eq: "unat (cb + min (fe - cb) ts) = unat cb + unat (min (fe - cb) ts)"
    using assms size_t_range [of fe] by (intro unat_plus_no_wrap) (simp add: word_less_nat_alt)
  show "cb + min (fe - cb) ts \<le> fe"
    unfolding word_le_nat_alt eq using le assms by (simp add: word_less_nat_alt)
  show "0 < unat (min (fe - cb) ts)"
    using assms by (simp add: unat_min_size_t unat_minus_no_wrap less_imp_le word_less_nat_alt)
qed

lemma split_loop_chunks:
  "0 < ts \<Longrightarrow>
   split_loop r i ts fe cb p = Some (fold (\<lambda>c. split_step r i (fst c) (snd c)) (chunks ts cb fe) p)"
proof (induction ts cb fe arbitrary: p rule: chunks.induct)
  case (1 ts cb fe)
  show ?case
  proof (cases "cb < fe")
    case True
    with "1.prems" "1.IH" [of "split_step r i cb (min (fe - cb) ts) p"] show ?thesis
      by (simp add: split_loop.simps [of r i ts fe cb p] chunks.simps [of ts cb fe] Let_def)
  next
    case False
    then show ?thesis
      by (simp add: split_loop.simps [of r i ts fe cb p] chunks.simps [of ts cb fe])
  qed
qed

lemma chunks_tiles: "0 < ts \<Longrightarrow> cb \<le> fe \<Longrightarrow> tiles (unat cb) (unat fe) (chunks ts cb fe)"
proof (induction ts cb fe rule: chunks.induct)
  case (1 ts cb fe)
  show ?case
  proof (cases "cb < fe")
    case True
    with "1.prems" "1.IH" chunk_step(1,2) [OF True, of ts] show ?thesis
      by (simp add: chunks.simps [of ts cb fe])
  next
    case False
    with "1.prems" have "cb = fe" by simp
    then show ?thesis by (simp add: chunks.simps [of ts fe fe])
  qed
qed

lemma chunks_mem: "c \<in> set (chunks ts cb fe) \<Longrightarrow> 0 < snd c \<and> snd c \<le> ts"
proof (induction ts cb fe rule: chunks.induct)
  case (1 ts cb fe)
  then show ?case
    using chunk_step(3) [of cb fe ts]
    by (auto simp: chunks.simps [of ts cb fe] word_less_nat_alt split: if_splits)
qed

text \<open>The pieces that \<open>split_request\<close> puts into a plan meet the contract of a cutter.\<close>

definition planned_pieces :: "size_t \<Rightarrow> size_t \<Rightarrow> size_t \<Rightarrow> (size_t \<times> size_t) list option" where
  "planned_pieces off sz ts =
     map_option (\<lambda>plan. map (\<lambda>t. (pt_file_offset t, pt_size t)) (transfers plan))
       (split_request [\<lparr>rq_handle = 0, rq_cuda_context = 0, rq_buf = 0, rq_file_offset = off, rq_size = sz\<rparr>]
          0 ts (empty_plan 1))"

lemma transfers_fold_split_step:
  "map (\<lambda>t. (pt_file_offset t, pt_size t)) (transfers (fold (\<lambda>c. split_step r i (fst c) (snd c)) cs p)) =
   map (\<lambda>t. (pt_file_offset t, pt_size t)) (transfers p) @ cs"
  by (induction cs arbitrary: p) (simp_all add: split_step_def count_transfer_def Let_def)

lemma planned_pieces_chunks:
  "0 < ts \<Longrightarrow> planned_pieces off sz ts = Some (chunks ts off (off + sz))"
  by (simp add: planned_pieces_def split_request_def split_loop_chunks transfers_fold_split_step
      empty_plan_def)

lemma fits_le: "fits off sz \<Longrightarrow> off \<le> off + sz"
  by (simp add: word_le_nat_alt unat_no_wrap)

interpretation planner: range_splitter "\<lambda>_ :: unit. True" "\<lambda>_. planned_pieces" "\<lambda>_. unat"
proof
  fix off sz ts
  assume "admissible off sz ts"
  then show "\<exists>cs. planned_pieces off sz ts = Some cs \<and> tiles (unat off) (unat off + unat sz) cs"
    using chunks_tiles [of ts off "off + sz"]
    by (simp add: admissible_def planned_pieces_chunks unat_plus_fits fits_le)
next
  fix off sz ts cs c
  assume "admissible off sz ts" "planned_pieces off sz ts = Some cs" "c \<in> set cs"
  then show "unat (snd c) \<le> unat ts"
    using chunks_mem [of c ts off "off + sz"]
    by (simp add: admissible_def planned_pieces_chunks word_le_nat_alt)
qed

section \<open>The view of a planned group\<close>

function group_views :: "TransferPlanRequest list \<Rightarrow> TransferPlanOptions \<Rightarrow> nat list \<Rightarrow> transfer_view list" where
  "group_views requests opts [] = []"
| "group_views requests opts (i # is) =
     (let r = requests ! i;
          ext = extend_run requests opts (rq_file_offset r) (rq_file_offset r + rq_size r) is
      in (if fst ext = []
          then map (chunk_view r i) (chunks (opt_task_size opts) (rq_file_offset r) (rq_file_offset r + rq_size r))
          else [merged_view requests (i # fst ext)]) @
         group_views requests opts (snd ext))"
  by pat_completeness auto
termination
proof (relation "measure (\<lambda>(_, _, is). length is)", goal_cases)
  case 1
  show ?case by simp
next
  case (2 requests opts i "is" r ext)
  then have "is = fst ext @ snd ext"
    by (metis extend_run_append prod.collapse)
  then have "length (snd ext) \<le> length is"
    by (metis le_add2 length_append)
  then show ?case by simp
qed

lemma fold_split_step_inv:
  "plan_inv n p vs \<Longrightarrow> i < n \<Longrightarrow>
   plan_inv n (fold (\<lambda>c. split_step r i (fst c) (snd c)) cs p) (vs @ map (chunk_view r i) cs)"
proof (induction cs arbitrary: p vs)
  case Nil
  then show ?case by simp
next
  case (Cons c cs)
  from Cons.IH [OF split_step_inv [OF Cons.prems, of r "fst c" "snd c"] Cons.prems(2)] show ?case
    by simp
qed

lemma plan_group_inv:
  assumes "0 < opt_task_size opts" "plan_inv n p vs" "\<And>i. i \<in> set g \<Longrightarrow> i < n"
  shows "\<exists>p'. plan_group requests opts g p = Some p' \<and> plan_inv n p' (vs @ group_views requests opts g)"
  using assms
proof (induction requests opts g arbitrary: p vs rule: group_views.induct)
  case (1 requests opts)
  then show ?case by simp
next
  case (2 requests opts i "is")
  let ?r = "requests ! i"
  let ?ext = "extend_run requests opts (rq_file_offset ?r) (rq_file_offset ?r + rq_size ?r) is"
  have app: "is = fst ?ext @ snd ?ext"
    by (rule extend_run_append) (rule prod.collapse [symmetric])
  have rest: "j < n" if "j \<in> set (snd ?ext)" for j
    using 2(4) [of j] that app by (metis UnCI list.set_intros(2) set_append)
  have run: "j < n" if "j \<in> set (i # fst ?ext)" for j
    using 2(4) [of j] that app by (metis UnCI list.set_intros set_ConsD set_append)
  show ?case
  proof (cases "fst ?ext = []")
    case True
    let ?p1 = "fold (\<lambda>c. split_step ?r i (fst c) (snd c))
      (chunks (opt_task_size opts) (rq_file_offset ?r) (rq_file_offset ?r + rq_size ?r)) p"
    have "plan_inv n ?p1 (vs @ map (chunk_view ?r i)
      (chunks (opt_task_size opts) (rq_file_offset ?r) (rq_file_offset ?r + rq_size ?r)))"
      using 2(3) run by (intro fold_split_step_inv) simp_all
    from 2(1) [OF refl refl 2(2) this rest] True show ?thesis
      by (simp add: Let_def split_request_def split_loop_chunks 2(2))
  next
    case False
    have "plan_inv n (merge_requests requests (i # fst ?ext) p) (vs @ [merged_view requests (i # fst ?ext)])"
      using 2(3) run by (intro merge_requests_inv) simp_all
    from 2(1) [OF refl refl 2(2) this rest] False show ?thesis
      by (simp add: Let_def)
  qed
qed

section \<open>The bytes a plan delivers\<close>

text \<open>
  One delivered byte: the request it is for, the handle and CUDA context it is read through, its
  position in the file and the address it is stored at.
\<close>

type_synonym delivery = "nat \<times> ptr \<times> ptr \<times> size_t \<times> ptr"

definition segment_deliveries :: "transfer_view \<Rightarrow> TransferSegment \<Rightarrow> delivery list" where
  "segment_deliveries v s =
     map (\<lambda>k. (request_index s, tv_handle v, tv_cuda_context v,
               tv_file_offset v + span_offset s + of_nat k, sg_buf s + of_nat k))
       [0..<unat (sg_length s)]"

definition view_deliveries :: "transfer_view \<Rightarrow> delivery list" where
  "view_deliveries v = concat (map (segment_deliveries v) (tv_segments v))"

definition plan_deliveries :: "TransferPlan \<Rightarrow> delivery list" where
  "plan_deliveries plan = concat (map view_deliveries (plan_view plan))"

text \<open>What the caller asked for with the request at position \<open>i\<close>.\<close>

definition request_deliveries :: "TransferPlanRequest list \<Rightarrow> nat \<Rightarrow> delivery list" where
  "request_deliveries requests i =
     (let r = requests ! i
      in map (\<lambda>k. (i, rq_handle r, rq_cuda_context r, rq_file_offset r + of_nat k, rq_buf r + of_nat k))
           [0..<unat (rq_size r)])"

definition request_key :: "TransferPlanRequest list \<Rightarrow> nat \<Rightarrow> GroupKey" where
  "request_key requests i = (rq_handle (requests ! i), rq_cuda_context (requests ! i))"

lemma merged_view_deliveries:
  assumes "\<And>i. i \<in> set run \<Longrightarrow> request_key requests i = request_key requests (hd run)"
  shows "view_deliveries (merged_view requests run) = concat (map (request_deliveries requests) run)"
proof -
  have "segment_deliveries (merged_view requests run) (merge_segment requests (rq_file_offset (requests ! hd run)) i)
      = request_deliveries requests i" if "i \<in> set run" for i
    using assms [OF that]
    by (simp add: segment_deliveries_def request_deliveries_def merged_view_def merge_segment_def
        request_key_def Let_def)
  then show ?thesis
    by (simp add: view_deliveries_def merged_view_def comp_def cong: map_cong)
qed

lemma chunk_view_deliveries:
  "view_deliveries (chunk_view r i c) =
   map (\<lambda>x. (i, rq_handle r, rq_cuda_context r, of_nat x, rq_buf r + (of_nat x - rq_file_offset r)))
     (piece_bytes c)"
  by (simp add: view_deliveries_def segment_deliveries_def chunk_view_def piece_bytes_def
      map_upt_shift algebra_simps)

definition request_ok :: "TransferPlanRequest list \<Rightarrow> nat \<Rightarrow> bool" where
  "request_ok requests i \<longleftrightarrow>
     0 < rq_size (requests ! i) \<and> fits (rq_file_offset (requests ! i)) (rq_size (requests ! i))"

lemma chunk_views_deliveries:
  assumes "0 < ts" "request_ok requests i" "r = requests ! i"
  shows "concat (map view_deliveries (map (chunk_view r i)
           (chunks ts (rq_file_offset r) (rq_file_offset r + rq_size r)))) =
         request_deliveries requests i"
proof -
  let ?f = "\<lambda>x. (i, rq_handle r, rq_cuda_context r, of_nat x, rq_buf r + (of_nat x - rq_file_offset r))"
  let ?cs = "chunks ts (rq_file_offset r) (rq_file_offset r + rq_size r)"
  have "admissible (rq_file_offset r) (rq_size r) ts"
    using assms by (simp add: request_ok_def admissible_def)
  from planner.covers_once [OF TrueI this planned_pieces_chunks [OF assms(1)]]
  have "map ?f (concat (map piece_bytes ?cs)) =
        map ?f [unat (rq_file_offset r) ..< unat (rq_file_offset r) + unat (rq_size r)]"
    by simp
  then have "concat (map view_deliveries (map (chunk_view r i) ?cs)) =
        map ?f [unat (rq_file_offset r) ..< unat (rq_file_offset r) + unat (rq_size r)]"
    by (simp add: chunk_view_deliveries comp_def map_concat)
  also have "\<dots> = request_deliveries requests i"
    by (simp add: request_deliveries_def assms(3) Let_def map_upt_shift algebra_simps)
  finally show ?thesis .
qed

lemma extend_run_set:
  "set is = set (fst (extend_run requests opts sb se is)) \<union> set (snd (extend_run requests opts sb se is))"
  using extend_run_append [of requests opts sb se "is"] by (metis prod.collapse set_append)

lemma group_views_deliveries:
  assumes "0 < opt_task_size opts"
    and "\<And>i. i \<in> set g \<Longrightarrow> request_ok requests i"
    and "\<And>i. i \<in> set g \<Longrightarrow> request_key requests i = key"
  shows "concat (map view_deliveries (group_views requests opts g)) =
         concat (map (request_deliveries requests) g)"
  using assms
proof (induction requests opts g rule: group_views.induct)
  case (1 requests opts)
  then show ?case by simp
next
  case (2 requests opts i "is")
  let ?r = "requests ! i"
  let ?ext = "extend_run requests opts (rq_file_offset ?r) (rq_file_offset ?r + rq_size ?r) is"
  have app: "is = fst ?ext @ snd ?ext"
    by (rule extend_run_append) (rule prod.collapse [symmetric])
  note mem = extend_run_set [of "is" requests opts "rq_file_offset ?r" "rq_file_offset ?r + rq_size ?r"]
  have rest: "concat (map view_deliveries (group_views requests opts (snd ?ext))) =
      concat (map (request_deliveries requests) (snd ?ext))"
    by (rule 2(1) [OF refl refl 2(2)]) (use 2(3,4) mem in auto)
  have "concat (map view_deliveries
      (if fst ?ext = []
       then map (chunk_view ?r i) (chunks (opt_task_size opts) (rq_file_offset ?r) (rq_file_offset ?r + rq_size ?r))
       else [merged_view requests (i # fst ?ext)])) = concat (map (request_deliveries requests) (i # fst ?ext))"
  proof (cases "fst ?ext = []")
    case True
    with chunk_views_deliveries [OF 2(2) _ refl, of requests i] 2(3) show ?thesis by simp
  next
    case False
    have "view_deliveries (merged_view requests (i # fst ?ext)) =
        concat (map (request_deliveries requests) (i # fst ?ext))"
      by (rule merged_view_deliveries) (use 2(4) mem in auto)
    with False show ?thesis by simp
  qed
  with rest have "concat (map view_deliveries (group_views requests opts (i # is))) =
      concat (map (request_deliveries requests) (i # fst ?ext @ snd ?ext))"
    by (simp add: Let_def)
  with app show ?case by simp
qed

section \<open>The shape of each transfer\<close>

text \<open>
  The segments of a transfer lie in order inside its span from position \<open>pos\<close> on, no two
  overlap, at most \<open>gap\<close> bytes are skipped between neighbours, none is empty, and the last one
  ends the span.
\<close>

fun span_segments :: "nat \<Rightarrow> nat \<Rightarrow> nat \<Rightarrow> TransferSegment list \<Rightarrow> bool" where
  "span_segments gap pos hi [] \<longleftrightarrow> pos = hi"
| "span_segments gap pos hi (s # ss) \<longleftrightarrow>
     pos \<le> unat (span_offset s) \<and> unat (span_offset s) \<le> pos + gap \<and> 0 < sg_length s \<and>
     span_segments gap (unat (span_offset s) + unat (sg_length s)) hi ss"

definition allowed_gap :: "TransferPlanOptions \<Rightarrow> nat" where
  "allowed_gap opts = (case coalesce_max_gap opts of None \<Rightarrow> 0 | Some g \<Rightarrow> unat g)"

definition transfer_ok :: "TransferPlanOptions \<Rightarrow> transfer_view \<Rightarrow> bool" where
  "transfer_ok opts v \<longleftrightarrow>
     0 < tv_size v \<and> tv_size v \<le> opt_task_size opts \<and> fits (tv_file_offset v) (tv_size v) \<and>
     tv_segments v \<noteq> [] \<and> span_offset (hd (tv_segments v)) = 0 \<and>
     span_segments (allowed_gap opts) 0 (unat (tv_size v)) (tv_segments v)"

definition request_end :: "TransferPlanRequest list \<Rightarrow> nat \<Rightarrow> size_t" where
  "request_end requests i = rq_file_offset (requests ! i) + rq_size (requests ! i)"

text \<open>A run that \<open>extend_run\<close> collects continues the span it started from.\<close>

lemma extend_run_segments:
  assumes "extend_run requests opts sb se js = (run, rest)"
    and "sb \<le> se" "\<And>i. i \<in> set js \<Longrightarrow> request_ok requests i"
  shows "span_segments (allowed_gap opts) (unat (se - sb))
           (unat ((if run = [] then se else request_end requests (last run)) - sb))
           (map (merge_segment requests sb) run) \<and>
         (run \<noteq> [] \<longrightarrow> sb < request_end requests (last run) \<and>
                       request_end requests (last run) - sb \<le> opt_task_size opts)"
  using assms
proof (induction requests opts sb se js arbitrary: run rest rule: extend_run.induct)
  case (1 requests opts sb se)
  then show ?case by simp
next
  case (2 requests opts sb se j js)
  let ?o = "rq_file_offset (requests ! j)"
  let ?e = "?o + rq_size (requests ! j)"
  show ?case
  proof (cases "run = []")
    case True
    then show ?thesis by simp
  next
    case False
    with 2(2) obtain g run' where g: "coalesce_max_gap opts = Some g"
      and join: "\<not> ?o < se" "\<not> ?o - se > g" "\<not> ?e - sb > opt_task_size opts"
      and ext: "extend_run requests opts sb ?e js = (run', rest)" and run: "run = j # run'"
      by (auto simp: Let_def split: option.splits if_splits prod.splits)
    have j: "request_ok requests j" using 2(4) by simp
    then have oe: "?o < ?e"
      by (simp add: request_ok_def word_less_nat_alt unat_plus_fits)
    have so: "sb \<le> ?o" using join(1) 2(3) by simp
    then have se: "sb \<le> ?e" "sb < ?e" using oe by simp_all
    have IH: "span_segments (allowed_gap opts) (unat (?e - sb))
        (unat ((if run' = [] then ?e else request_end requests (last run')) - sb))
        (map (merge_segment requests sb) run') \<and>
      (run' \<noteq> [] \<longrightarrow> sb < request_end requests (last run') \<and>
          request_end requests (last run') - sb \<le> opt_task_size opts)"
      using 2(1) [OF g refl join ext se(1)] 2(4) by simp
    have "unat (se - sb) \<le> unat (?o - sb)" "unat (?o - sb) \<le> unat (se - sb) + unat g"
      "unat (?o - sb) + unat (rq_size (requests ! j)) = unat (?e - sb)"
      using so se 2(3) join(1,2) j
      by (auto simp: unat_minus_no_wrap word_less_nat_alt word_le_nat_alt request_ok_def unat_plus_fits)
    with IH run g join(3) j se show ?thesis
      by (auto simp: allowed_gap_def request_end_def request_ok_def)
  qed
qed

lemma merged_view_ok:
  assumes "extend_run requests opts (rq_file_offset (requests ! i)) (request_end requests i) js = (run, rest)"
    and "run \<noteq> []" and "\<And>j. j \<in> set (i # js) \<Longrightarrow> request_ok requests j"
  shows "transfer_ok opts (merged_view requests (i # run))"
proof -
  let ?sb = "rq_file_offset (requests ! i)" and ?e = "request_end requests (last run)"
  have i: "request_ok requests i" using assms(3) by simp
  then have le: "?sb \<le> request_end requests i" and ei: "unat (request_end requests i - ?sb) = unat (rq_size (requests ! i))"
    by (simp_all add: request_ok_def request_end_def fits_le)
  from extend_run_segments [OF assms(1) le] assms(2,3)
  have segs: "span_segments (allowed_gap opts) (unat (request_end requests i - ?sb)) (unat (?e - ?sb))
      (map (merge_segment requests ?sb) run)"
    and lt: "?sb < ?e" and ts: "?e - ?sb \<le> opt_task_size opts" by auto
  from lt have "unat (?e - ?sb) = unat ?e - unat ?sb" by (simp add: unat_minus_no_wrap less_imp_le)
  then have "fits ?sb (?e - ?sb)" "0 < ?e - ?sb"
    using lt size_t_range [of ?e] by (simp_all add: fits_def word_less_nat_alt)
  with segs ts ei i assms(2) show ?thesis
    by (simp add: transfer_ok_def merged_view_def request_end_def [symmetric] request_ok_def)
qed

lemma chunk_view_ok:
  assumes "tiles lo hi cs" "hi < 2 ^ 64" "c \<in> set cs" "0 < snd c" "snd c \<le> opt_task_size opts"
  shows "transfer_ok opts (chunk_view r i c)"
proof -
  have "unat (fst c) + unat (snd c) \<le> hi"
    using tiles_mem [OF assms(1), of "fst c" "snd c"] assms(3) by simp
  with assms show ?thesis
    by (simp add: transfer_ok_def chunk_view_def fits_def)
qed

lemma group_views_ok:
  assumes "0 < opt_task_size opts" and "\<And>i. i \<in> set g \<Longrightarrow> request_ok requests i"
    and "v \<in> set (group_views requests opts g)"
  shows "transfer_ok opts v"
  using assms
proof (induction requests opts g rule: group_views.induct)
  case (1 requests opts)
  then show ?case by simp
next
  case (2 requests opts i "is")
  let ?r = "requests ! i"
  let ?e = "rq_file_offset ?r + rq_size ?r"
  let ?ext = "extend_run requests opts (rq_file_offset ?r) ?e is"
  note mem = extend_run_set [of "is" requests opts "rq_file_offset ?r" ?e]
  have i: "fits (rq_file_offset ?r) (rq_size ?r)" using 2(3) by (simp add: request_ok_def)
  from 2(4) consider (rest) "v \<in> set (group_views requests opts (snd ?ext))"
    | (split) c where "c \<in> set (chunks (opt_task_size opts) (rq_file_offset ?r) ?e)" "v = chunk_view ?r i c"
    | (merge) "fst ?ext \<noteq> []" "v = merged_view requests (i # fst ?ext)"
    by (auto simp: Let_def split: if_splits)
  then show ?case
  proof cases
    case rest
    show ?thesis by (rule 2(1) [OF refl refl 2(2) _ rest]) (use 2(3) mem in auto)
  next
    case (split c)
    show ?thesis
      unfolding split(2) using chunks_tiles [OF 2(2) fits_le [OF i]] size_t_range
      by (rule chunk_view_ok) (use split(1) chunks_mem in auto)
  next
    case merge
    show ?thesis
      unfolding merge(2)
      by (rule merged_view_ok [where js = "is" and rest = "snd ?ext"])
        (use merge(1) 2(3) in \<open>auto simp: request_end_def\<close>)
  qed
qed

section \<open>Grouping and sorting\<close>

definition groups_inv :: "TransferPlanRequest list \<Rightarrow> nat list \<Rightarrow> nat list list \<times> (GroupKey \<rightharpoonup> nat) \<Rightarrow> bool" where
  "groups_inv requests seen st \<longleftrightarrow>
     mset (concat (fst st)) = mset (filter (\<lambda>i. rq_size (requests ! i) \<noteq> 0) seen) \<and>
     (\<forall>k s. snd st k = Some s \<longrightarrow> s < length (fst st)) \<and>
     (\<forall>k k' s. snd st k = Some s \<longrightarrow> snd st k' = Some s \<longrightarrow> k = k') \<and>
     (\<forall>s < length (fst st). \<forall>i \<in> set (fst st ! s). snd st (request_key requests i) = Some s)"

lemma mset_concat_update:
  "s < length gs \<Longrightarrow> mset (concat (gs[s := gs ! s @ [x]])) = add_mset x (mset (concat gs))"
proof (induction gs arbitrary: s)
  case Nil
  then show ?case by simp
next
  case (Cons g gs)
  then show ?case by (cases s) simp_all
qed

lemma group_step_inv:
  assumes "groups_inv requests seen st"
  shows "groups_inv requests (seen @ [i]) (group_step requests i st)"
proof -
  obtain gs slot where st: "st = (gs, slot)" by (cases st)
  let ?k = "request_key requests i"
  show ?thesis
  proof (cases "rq_size (requests ! i) = 0")
    case True
    with assms show ?thesis by (simp add: group_step_def groups_inv_def st Let_def)
  next
    case False
    show ?thesis
    proof (cases "slot ?k")
      case None
      with assms have "\<And>s j. s < length gs \<Longrightarrow> j \<in> set (gs ! s) \<Longrightarrow> request_key requests j \<noteq> ?k"
        by (force simp: groups_inv_def st)
      with None False assms show ?thesis
        by (fastforce simp: group_step_def groups_inv_def st Let_def nth_append less_Suc_eq
            request_key_def [symmetric] simp del: split_paired_All)
    next
      case (Some s)
      with assms have "s < length gs" unfolding groups_inv_def st snd_conv fst_conv by blast
      with Some False assms show ?thesis
        by (auto simp: group_step_def groups_inv_def st Let_def nth_list_update mset_concat_update
            request_key_def [symmetric] split: if_splits simp del: split_paired_All)
    qed
  qed
qed

lemma fold_group_step_inv:
  "groups_inv requests seen st \<Longrightarrow> groups_inv requests (seen @ xs) (fold (group_step requests) xs st)"
proof (induction xs arbitrary: seen st)
  case Nil
  then show ?case by simp
next
  case (Cons x xs)
  from Cons.IH [OF group_step_inv [OF Cons.prems, of x]] show ?case by simp
qed

lemma groups_inv_all:
  "groups_inv requests [0..<length requests] (fold (group_step requests) [0..<length requests] ([], Map.empty))"
  using fold_group_step_inv [of requests "[]" "([], Map.empty)" "[0..<length requests]"]
  by (simp add: groups_inv_def)

lemma group_requests_mset:
  "mset (concat (group_requests requests)) =
   mset (filter (\<lambda>i. rq_size (requests ! i) \<noteq> 0) [0..<length requests])"
  using groups_inv_all by (simp add: groups_inv_def group_requests_def)

lemma group_requests_key:
  assumes "g \<in> set (group_requests requests)" "i \<in> set g" "j \<in> set g"
  shows "request_key requests i = request_key requests j"
proof -
  obtain s where s: "s < length (group_requests requests)" "group_requests requests ! s = g"
    using assms(1) by (auto simp: in_set_conv_nth)
  let ?slot = "snd (fold (group_step requests) [0..<length requests] ([], Map.empty))"
  have "?slot (request_key requests l) = Some s" if "l \<in> set g" for l
    using groups_inv_all [of requests] s that unfolding groups_inv_def group_requests_def by blast
  then show ?thesis
    using assms(2,3) groups_inv_all [of requests] unfolding groups_inv_def by blast
qed

lemma mset_sort_group [simp]: "mset (sort_group requests g) = mset g"
  by (simp add: sort_group_def)

lemma set_sort_group [simp]: "set (sort_group requests g) = set g"
  by (simp add: sort_group_def)

text \<open>The sort really orders by file offset, with the index as the tie breaker.\<close>

lemma sorted_sort_group: "distinct g \<Longrightarrow> sorted_wrt (by_file_offset requests) (sort_group requests g)"
proof (cases "sorted_wrt (by_file_offset requests) g")
  case True
  then show ?thesis by (simp add: sort_group_def)
next
  case False
  assume d: "distinct g"
  let ?k = "\<lambda>i. (rq_file_offset (requests ! i), i)"
  have "sorted (map ?k (sort_key ?k g))" "distinct (map ?k (sort_key ?k g))"
    using d by (simp_all add: distinct_map inj_on_def)
  then have "sorted_wrt (<) (map ?k (sort_key ?k g))"
    by (simp add: strict_sorted_iff)
  then have "sorted_wrt (by_file_offset requests) (sort_key ?k g)"
    unfolding sorted_wrt_map by (rule sorted_wrt_mono_rel [rotated]) (auto simp: by_file_offset_def)
  with False show ?thesis by (simp add: sort_group_def)
qed

lemma plan_groups_inv:
  assumes "0 < opt_task_size opts" "plan_inv n p vs" "\<And>g i. g \<in> set gs \<Longrightarrow> i \<in> set g \<Longrightarrow> i < n"
  shows "\<exists>p'. plan_groups requests opts gs p = Some p' \<and>
           plan_inv n p' (vs @ concat (map (group_views requests opts \<circ> sort_group requests) gs))"
  using assms(2,3)
proof (induction gs arbitrary: p vs)
  case Nil
  then show ?case by simp
next
  case (Cons g gs)
  obtain p1 where p1: "plan_group requests opts (sort_group requests g) p = Some p1"
    "plan_inv n p1 (vs @ group_views requests opts (sort_group requests g))"
    using plan_group_inv [OF assms(1) Cons.prems(1), of "sort_group requests g" requests] Cons.prems(2)
    by auto
  have "\<And>g i. g \<in> set gs \<Longrightarrow> i \<in> set g \<Longrightarrow> i < n" using Cons.prems(2) by auto
  from Cons.IH [OF p1(2) this] p1(1) show ?case by (simp add: comp_def)
qed

text \<open>The transfers of the whole plan, group by group.\<close>

definition build_views :: "TransferPlanRequest list \<Rightarrow> TransferPlanOptions \<Rightarrow> transfer_view list" where
  "build_views requests opts =
     concat (map (group_views requests opts \<circ> sort_group requests) (group_requests requests))"

lemma group_index:
  "g \<in> set (group_requests requests) \<Longrightarrow> i \<in> set g \<Longrightarrow>
   i < length requests \<and> rq_size (requests ! i) \<noteq> 0"
proof -
  assume "g \<in> set (group_requests requests)" "i \<in> set g"
  then have "i \<in># mset (concat (group_requests requests))" by auto
  then show ?thesis by (simp add: group_requests_mset)
qed

lemma plan_inv_empty: "plan_inv n (empty_plan n) []"
  by (simp add: plan_inv_def empty_plan_def slices_ok_def plan_view_def view_counts_def map_replicate_const)

lemma build_transfer_plan_inv:
  assumes "0 < opt_task_size opts"
  shows "\<exists>p. build_transfer_plan requests opts = Inr (Some p) \<and>
           plan_inv (length requests) p (build_views requests opts)"
proof (cases "requests = []")
  case True
  then show ?thesis using assms plan_inv_empty [of 0]
    by (simp add: build_transfer_plan_def build_views_def group_requests_def)
next
  case False
  obtain p' where "plan_groups requests opts (group_requests requests) (empty_plan (length requests)) = Some p'"
    "plan_inv (length requests) p' (build_views requests opts)"
    using plan_groups_inv [OF assms plan_inv_empty, of "group_requests requests" "length requests" requests]
      group_index [of _ requests] by (auto simp: build_views_def)
  with False assms show ?thesis by (simp add: build_transfer_plan_def)
qed

section \<open>Deliveries, bookkeeping and counts of the whole plan\<close>

text \<open>The requests the planner can serve: none runs past the top of the offset type.\<close>

definition servable :: "TransferPlanRequest list \<Rightarrow> bool" where
  "servable requests \<longleftrightarrow> (\<forall>r \<in> set requests. fits (rq_file_offset r) (rq_size r))"

lemma servable_ok:
  "servable requests \<Longrightarrow> g \<in> set (group_requests requests) \<Longrightarrow> i \<in> set g \<Longrightarrow> request_ok requests i"
  using group_index [of g requests i] by (simp add: servable_def request_ok_def word_gt_0)

lemma build_views_deliveries:
  assumes "0 < opt_task_size opts" "servable requests"
  shows "mset (concat (map view_deliveries (build_views requests opts))) =
         mset (concat (map (request_deliveries requests) [0..<length requests]))"
proof -
  let ?gs = "group_requests requests"
  let ?req = "request_deliveries requests"
  have step: "mset (concat (map view_deliveries (group_views requests opts (sort_group requests g)))) =
      mset (concat (map ?req g))" if g: "g \<in> set ?gs" for g
  proof -
    have "concat (map view_deliveries (group_views requests opts (sort_group requests g))) =
        concat (map ?req (sort_group requests g))"
    proof (rule group_views_deliveries [OF assms(1)])
      fix i assume i: "i \<in> set (sort_group requests g)"
      then show "request_ok requests i"
        using servable_ok [OF assms(2) g, of i] by simp
      have "hd g \<in> set g" using i by (cases g) simp_all
      with i show "request_key requests i = request_key requests (hd g)"
        by (intro group_requests_key [OF g]) simp_all
    qed
    then show ?thesis by (simp only: mset_concat_map_mset [OF mset_sort_group])
  qed
  have "mset (concat (map view_deliveries (build_views requests opts))) =
      mset (concat (map (\<lambda>g. concat (map view_deliveries (group_views requests opts (sort_group requests g)))) ?gs))"
    by (simp add: build_views_def concat_map_concat comp_def)
  also have "\<dots> = mset (concat (map (\<lambda>g. concat (map ?req g)) ?gs))"
    by (rule mset_concat_map_cong) (rule step)
  also have "\<dots> = mset (concat (map ?req (concat ?gs)))"
    by (simp add: concat_map_concat comp_def)
  also have "\<dots> = mset (concat (map ?req (filter (\<lambda>i. rq_size (requests ! i) \<noteq> 0) [0..<length requests])))"
    by (rule mset_concat_map_mset) (rule group_requests_mset)
  also have "concat (map ?req (filter (\<lambda>i. rq_size (requests ! i) \<noteq> 0) xs)) = concat (map ?req xs)" for xs
    by (induction xs) (simp_all add: request_deliveries_def)
  finally show ?thesis .
qed

lemma build_views_ok:
  assumes "0 < opt_task_size opts" "servable requests" "v \<in> set (build_views requests opts)"
  shows "transfer_ok opts v"
proof -
  obtain g where g: "g \<in> set (group_requests requests)" "v \<in> set (group_views requests opts (sort_group requests g))"
    using assms(3) by (auto simp: build_views_def)
  show ?thesis
    by (rule group_views_ok [OF assms(1) _ g(2)]) (simp add: servable_ok [OF assms(2) g(1)])
qed

lemma group_views_distinct:
  "distinct g \<Longrightarrow> v \<in> set (group_views requests opts g) \<Longrightarrow> distinct (map request_index (tv_segments v))"
proof (induction requests opts g rule: group_views.induct)
  case (1 requests opts)
  then show ?case by simp
next
  case (2 requests opts i "is")
  let ?r = "requests ! i"
  let ?ext = "extend_run requests opts (rq_file_offset ?r) (rq_file_offset ?r + rq_size ?r) is"
  have app: "is = fst ?ext @ snd ?ext"
    by (rule extend_run_append) (rule prod.collapse [symmetric])
  with 2(2) have d: "distinct (i # fst ?ext @ snd ?ext)" by simp
  from 2(3) consider (rest) "v \<in> set (group_views requests opts (snd ?ext))"
    | (split) c where "v = chunk_view ?r i c" | (merge) "v = merged_view requests (i # fst ?ext)"
    by (auto simp: Let_def split: if_splits)
  then show ?case
  proof cases
    case rest
    with 2(1) [OF refl refl] d show ?thesis by simp
  next
    case split
    then show ?thesis by (simp add: chunk_view_def)
  next
    case merge
    with d show ?thesis by (simp add: merged_view_def comp_def)
  qed
qed

lemma distinct_groups: "g \<in> set (group_requests requests) \<Longrightarrow> distinct g"
proof -
  assume "g \<in> set (group_requests requests)"
  moreover have "distinct (concat (group_requests requests))"
    by (metis distinct_filter distinct_upt group_requests_mset mset_eq_imp_distinct_iff)
  ultimately show ?thesis by (simp add: distinct_concat_iff)
qed

lemma build_views_distinct:
  "v \<in> set (build_views requests opts) \<Longrightarrow> distinct (map request_index (tv_segments v))"
proof -
  assume "v \<in> set (build_views requests opts)"
  then obtain g where "g \<in> set (group_requests requests)" "v \<in> set (group_views requests opts (sort_group requests g))"
    by (auto simp: build_views_def)
  then show ?thesis
    using distinct_groups [of g requests] group_views_distinct mset_eq_imp_distinct_iff [OF mset_sort_group]
    by blast
qed

text \<open>Whether a transfer carries bytes of request \<open>i\<close>.\<close>

definition serves :: "nat \<Rightarrow> transfer_view \<Rightarrow> bool" where
  "serves i v \<longleftrightarrow> i \<in> set (map request_index (tv_segments v))"

lemma count_list_distinct: "distinct xs \<Longrightarrow> count_list xs x = (if x \<in> set xs then 1 else 0)"
  by (induction xs) auto

lemma count_serves:
  "(\<And>v. v \<in> set vs \<Longrightarrow> distinct (map request_index (tv_segments v))) \<Longrightarrow>
   count_list (map request_index (concat (map tv_segments vs))) i = length (filter (serves i) vs)"
proof (induction vs)
  case Nil
  then show ?case by simp
next
  case (Cons v vs)
  then show ?case by (auto simp: serves_def count_list_distinct)
qed

lemma build_plan_view:
  assumes "build_transfer_plan requests opts = Inr (Some p)" "0 < opt_task_size opts"
  shows "plan_inv (length requests) p (build_views requests opts)"
  using build_transfer_plan_inv [OF assms(2), of requests] assms(1) by simp

lemma length_view_deliveries:
  "length (view_deliveries v) = sum_list (map (unat \<circ> sg_length) (tv_segments v))"
  by (simp add: view_deliveries_def length_concat segment_deliveries_def comp_def)

lemma of_nat_sum_list_unat:
  "of_nat (sum_list (map (\<lambda>x. unat (f x :: size_t)) xs)) = sum_list (map f xs)"
  by (induction xs) simp_all

lemma sum_view_gap:
  "sum_list (map view_gap vs) =
   sum_list (map tv_size vs) - of_nat (length (concat (map view_deliveries vs)))"
proof (induction vs)
  case Nil
  then show ?case by simp
next
  case (Cons v vs)
  then show ?case
    by (simp add: view_gap_def length_view_deliveries comp_def of_nat_sum_list_unat algebra_simps)
qed

lemma length_request_deliveries:
  "of_nat (length (concat (map (request_deliveries requests) [0..<length requests]))) =
   sum_list (map rq_size requests)"
proof -
  have "length (concat (map (request_deliveries requests) [0..<length requests])) =
      sum_list (map (\<lambda>i. unat (rq_size (requests ! i))) [0..<length requests])"
    by (simp add: length_concat request_deliveries_def comp_def Let_def)
  moreover have "map (\<lambda>i. rq_size (requests ! i)) [0..<length requests] = map rq_size requests"
    by (rule nth_equalityI) simp_all
  ultimately show ?thesis by (simp add: of_nat_sum_list_unat)
qed

lemma span_segments_nonempty:
  "span_segments gap pos hi ss \<Longrightarrow> s \<in> set ss \<Longrightarrow> 0 < sg_length s"
  by (induction gap pos hi ss rule: span_segments.induct) auto

lemma serves_deliveries:
  assumes "transfer_ok opts v"
  shows "serves i v \<longleftrightarrow> i \<in> fst ` set (view_deliveries v)"
proof -
  have "fst ` set (segment_deliveries v s) = {request_index s}" if "s \<in> set (tv_segments v)" for s
    using span_segments_nonempty [OF _ that] assms
    by (auto simp: transfer_ok_def segment_deliveries_def word_less_nat_alt image_image image_constant_conv)
  then have "fst ` set (view_deliveries v) = request_index ` set (tv_segments v)"
    by (auto simp: view_deliveries_def image_UN)
  then show ?thesis by (simp add: serves_def)
qed

lemma serves_iff_nonempty:
  assumes "0 < opt_task_size opts" "servable requests" "i < length requests"
  shows "filter (serves i) (build_views requests opts) = [] \<longleftrightarrow> rq_size (requests ! i) = 0"
proof -
  have "filter (serves i) (build_views requests opts) = [] \<longleftrightarrow>
      i \<notin> fst ` set (concat (map view_deliveries (build_views requests opts)))"
    using serves_deliveries [OF build_views_ok [OF assms(1,2)]] by (auto simp: filter_empty_conv)
  also have "set (concat (map view_deliveries (build_views requests opts))) =
      set (concat (map (request_deliveries requests) [0..<length requests]))"
    by (rule mset_eq_setD) (rule build_views_deliveries [OF assms(1,2)])
  also have "i \<notin> fst ` \<dots> \<longleftrightarrow> rq_size (requests ! i) = 0"
    using assms(3) unat_pos_iff [of "rq_size (requests ! i)"]
    by (auto simp: request_deliveries_def Let_def image_UN image_image image_constant_conv split: if_splits)
  finally show ?thesis .
qed

section \<open>A concrete batch\<close>

text \<open>
  Four requests on one handle and an empty one on another, with a task size of 100 bytes and gaps
  of up to 10 bytes bridged: the first two are merged over a gap of 5 bytes, the third is split.
\<close>

definition example_requests :: "TransferPlanRequest list" where
  "example_requests =
     [\<lparr>rq_handle = 1, rq_cuda_context = 7, rq_buf = 5000, rq_file_offset = 25, rq_size = 30\<rparr>,
      \<lparr>rq_handle = 1, rq_cuda_context = 7, rq_buf = 1000, rq_file_offset = 0, rq_size = 20\<rparr>,
      \<lparr>rq_handle = 1, rq_cuda_context = 7, rq_buf = 9000, rq_file_offset = 500, rq_size = 150\<rparr>,
      \<lparr>rq_handle = 2, rq_cuda_context = 7, rq_buf = 0, rq_file_offset = 3, rq_size = 0\<rparr>]"

definition example_options :: TransferPlanOptions where
  "example_options = \<lparr>opt_task_size = 100, coalesce_max_gap = Some 10\<rparr>"

definition example_plan :: TransferPlan where
  "example_plan =
     \<lparr>transfers =
        [\<lparr>pt_handle = 1, pt_cuda_context = 7, pt_file_offset = 0, pt_size = 55, segment_begin = 0, segment_end = 2\<rparr>,
         \<lparr>pt_handle = 1, pt_cuda_context = 7, pt_file_offset = 500, pt_size = 100, segment_begin = 2, segment_end = 3\<rparr>,
         \<lparr>pt_handle = 1, pt_cuda_context = 7, pt_file_offset = 600, pt_size = 50, segment_begin = 3, segment_end = 4\<rparr>],
      segments =
        [\<lparr>span_offset = 0, sg_length = 20, sg_buf = 1000, request_index = 1\<rparr>,
         \<lparr>span_offset = 25, sg_length = 30, sg_buf = 5000, request_index = 0\<rparr>,
         \<lparr>span_offset = 0, sg_length = 100, sg_buf = 9000, request_index = 2\<rparr>,
         \<lparr>span_offset = 0, sg_length = 50, sg_buf = 9100, request_index = 2\<rparr>],
      transfers_per_request = [1, 1, 2, 0],
      overread_bytes = 5\<rparr>"

lemma example_build: "build_transfer_plan example_requests example_options = Inr (Some example_plan)"
  by code_simp

lemma example_length: "length example_requests = 4" "transfers_per_request example_plan = [1, 1, 2, 0]"
  by (simp_all add: example_requests_def example_plan_def)

lemma example_servable: "0 < opt_task_size example_options" "servable example_requests"
  by (simp_all add: example_options_def example_requests_def servable_def fits_def)

section \<open>Properties of the planner\<close>

text \<open>
  C1. For a positive task size and requests that do not run past the top of the offset type,
  \<open>build_transfer_plan\<close> returns, and executing its transfers delivers exactly the bytes the
  requests ask for, each once: for every request, through its own handle and CUDA context, byte
  \<open>k\<close> of its file range goes to address \<open>buf + k\<close>, however the requests were grouped, sorted,
  merged and split.
\<close>

theorem build_delivers_each_byte_once:
  assumes "0 < opt_task_size opts" "servable requests"
  shows "\<exists>p. build_transfer_plan requests opts = Inr (Some p) \<and>
           mset (plan_deliveries p) = mset (concat (map (request_deliveries requests) [0..<length requests]))"
  using build_transfer_plan_inv [OF assms(1), of requests] build_views_deliveries [OF assms]
  by (auto simp: plan_inv_def plan_deliveries_def)

theorem build_delivers_each_byte_once_witness:
  "\<exists>p. build_transfer_plan example_requests example_options = Inr (Some p) \<and>
       mset (plan_deliveries p) = mset (concat (map (request_deliveries example_requests) [0..<4]))"
  using build_delivers_each_byte_once [OF example_servable] by (simp only: example_length)

text \<open>
  C19. Every transfer of the plan is well formed: it is not empty, at most the task size, does not
  wrap, starts with its first segment and ends with its last; its segments lie in order inside
  the span without overlap, with at most the configured gap between neighbours; and the index
  ranges of the transfers partition the segment vector.
\<close>

theorem build_transfers_well_formed:
  assumes "0 < opt_task_size opts" "servable requests"
    and "build_transfer_plan requests opts = Inr (Some p)"
  shows "slices_ok p \<and> (\<forall>t \<in> set (transfers p). transfer_ok opts (view_of p t))"
proof -
  from build_plan_view [OF assms(3,1)] have "slices_ok p" "plan_view p = build_views requests opts"
    by (simp_all add: plan_inv_def)
  then show ?thesis
    using build_views_ok [OF assms(1,2)] by (metis imageI list.set_map plan_view_def)
qed

theorem build_transfers_well_formed_witness:
  "slices_ok example_plan \<and> transfer_ok example_options (view_of example_plan (transfers example_plan ! 0))"
  using build_transfers_well_formed [OF example_servable example_build] by (simp add: example_plan_def)

text \<open>
  C36. \<open>overread_bytes\<close> is what the transfers read beyond what was asked: the sum of the transfer
  sizes minus the sum of the request sizes, in the arithmetic of \<open>std::size_t\<close>.
\<close>

theorem build_overread_bytes:
  assumes "0 < opt_task_size opts" "servable requests"
    and "build_transfer_plan requests opts = Inr (Some p)"
  shows "overread_bytes p = sum_list (map pt_size (transfers p)) - sum_list (map rq_size requests)"
proof -
  from build_plan_view [OF assms(3,1)]
  have view: "plan_view p = build_views requests opts"
    and gap: "overread_bytes p = sum_list (map view_gap (build_views requests opts))"
    by (simp_all add: plan_inv_def)
  have "map tv_size (plan_view p) = map pt_size (transfers p)"
    by (simp add: plan_view_def view_of_def)
  moreover have "length (concat (map view_deliveries (build_views requests opts))) =
      length (concat (map (request_deliveries requests) [0..<length requests]))"
    using build_views_deliveries [OF assms(1,2)] by (metis size_mset)
  ultimately show ?thesis
    by (simp only: gap sum_view_gap length_request_deliveries flip: view)
qed

theorem build_overread_bytes_witness:
  "overread_bytes example_plan = 5 \<and>
   overread_bytes example_plan = sum_list (map pt_size (transfers example_plan)) - sum_list (map rq_size example_requests)"
  using build_overread_bytes [OF example_servable example_build] by (simp add: example_plan_def)

text \<open>
  \<open>transfers_per_request\<close> has one counter per request, and counter \<open>i\<close> is the number of
  transfers that carry bytes of request \<open>i\<close>; it is zero exactly for the empty requests.
\<close>

theorem build_transfers_per_request:
  assumes "0 < opt_task_size opts" "servable requests"
    and "build_transfer_plan requests opts = Inr (Some p)"
  shows "length (transfers_per_request p) = length requests \<and>
         (\<forall>i < length requests.
            transfers_per_request p ! i = length (filter (serves i \<circ> view_of p) (transfers p)) \<and>
            (transfers_per_request p ! i = 0 \<longleftrightarrow> rq_size (requests ! i) = 0))"
proof -
  let ?n = "length requests" and ?vs = "build_views requests opts"
  from build_plan_view [OF assms(3,1)]
  have view: "map (view_of p) (transfers p) = ?vs" and tpr: "transfers_per_request p = view_counts ?n ?vs"
    by (simp_all add: plan_inv_def plan_view_def)
  have count: "view_counts ?n ?vs ! i = length (filter (serves i) ?vs)" if "i < ?n" for i
    using that count_serves [of ?vs i] build_views_distinct by (simp add: view_counts_def)
  have "length (filter (serves i \<circ> view_of p) (transfers p)) = length (filter (serves i) ?vs)" for i
    by (simp add: filter_map flip: view)
  moreover have "filter (serves i) ?vs = [] \<longleftrightarrow> rq_size (requests ! i) = 0" if "i < ?n" for i
    using serves_iff_nonempty [OF assms(1,2) that] .
  ultimately show ?thesis using count by (simp add: tpr)
qed

theorem build_transfers_per_request_witness:
  "transfers_per_request example_plan ! 2 =
   length (filter (serves 2 \<circ> view_of example_plan) (transfers example_plan)) \<and>
   transfers_per_request example_plan ! 2 = 2 \<and> transfers_per_request example_plan ! 3 = 0"
  using build_transfers_per_request [OF example_servable example_build, THEN conjunct2, rule_format, of 2]
  by (simp add: example_length)

text \<open>
  C37. The planner refuses a task size of zero with \<open>std::invalid_argument\<close>; with any other task
  size it returns a plan, whatever the requests are (the splitting loop always ends).
\<close>

theorem build_total:
  "if opt_task_size opts = 0 then build_transfer_plan requests opts = Inl Invalid_Argument
   else \<exists>p. build_transfer_plan requests opts = Inr (Some p)"
proof (cases "opt_task_size opts = 0")
  case True
  then show ?thesis by (simp add: build_transfer_plan_def)
next
  case False
  with build_transfer_plan_inv [of opts requests] show ?thesis by (auto simp: word_gt_0)
qed

section \<open>Overlapping requests and the order of the transfers\<close>

text \<open>
  The header says that the transfers of a group are sorted by file offset. That is not so when a
  request that is split overlaps a later one: the chunks of the first are emitted before the
  second. Here \<open>[0,100)\<close> and \<open>[10,20)\<close> with a task size of 50 give transfers at 0, 50 and 10.
\<close>

lemma split_overlap_breaks_order:
  "\<exists>p. build_transfer_plan
       [\<lparr>rq_handle = 1, rq_cuda_context = 0, rq_buf = 1000, rq_file_offset = 0, rq_size = 100\<rparr>,
        \<lparr>rq_handle = 1, rq_cuda_context = 0, rq_buf = 5000, rq_file_offset = 10, rq_size = 10\<rparr>]
       \<lparr>opt_task_size = 50, coalesce_max_gap = None\<rparr> = Inr (Some p) \<and>
     map pt_file_offset (transfers p) = [0, 50, 10]"
proof -
  have "map_option (map pt_file_offset \<circ> transfers) (case build_transfer_plan
       [\<lparr>rq_handle = 1, rq_cuda_context = 0, rq_buf = 1000, rq_file_offset = 0, rq_size = 100\<rparr>,
        \<lparr>rq_handle = 1, rq_cuda_context = 0, rq_buf = 5000, rq_file_offset = 10, rq_size = 10\<rparr>]
       \<lparr>opt_task_size = 50, coalesce_max_gap = None\<rparr> of Inl _ \<Rightarrow> None | Inr p \<Rightarrow> p) = Some [0, 50, 10]"
    by code_simp
  then show ?thesis by (auto split: sum.splits)
qed

end
