(* ===== verification/Observation.thy ===== *)
theory Observation
  imports Prelude
begin

text \<open>
  Observations of I/O operations: \<open>cpp/include/kvikio/observation.hpp\<close>, \<open>cpp/src/observation.cpp\<close>
  and the recorders of \<open>cpp/src/detail/observation_recorder.cpp\<close>. The registry of monitors is a
  record with the published per-kind counts and the thread-local flag of the calling thread; a
  callback is an entry of the log of deliveries. A recorder is a record of its observation and
  its two flags; the atomic exchange on \<open>_emitted\<close> makes each call of \<open>finish\<close> one step, so the
  calls of several threads are a sequence of steps. Times are nanoseconds of the steady clock,
  read by the caller of the step.
\<close>

section \<open>Data\<close>

datatype IoBackend = POSIX | GDS | MMAP | REMOTE_HTTP | REMOTE_HDFS
datatype TransferDirection = READ | WRITE
datatype MemoryKind = HOST | DEVICE
datatype ObservationKind = LOGICAL | PHYSICAL

definition backend_to_string :: "IoBackend \<Rightarrow> string" where
  "backend_to_string b =
     (case b of POSIX \<Rightarrow> ''POSIX'' | GDS \<Rightarrow> ''GDS'' | MMAP \<Rightarrow> ''MMAP''
      | REMOTE_HTTP \<Rightarrow> ''REMOTE_HTTP'' | REMOTE_HDFS \<Rightarrow> ''REMOTE_HDFS'')"

definition direction_to_string :: "TransferDirection \<Rightarrow> string" where
  "direction_to_string d = (case d of READ \<Rightarrow> ''READ'' | WRITE \<Rightarrow> ''WRITE'')"

definition memory_kind_to_string :: "MemoryKind \<Rightarrow> string" where
  "memory_kind_to_string k = (case k of HOST \<Rightarrow> ''HOST'' | DEVICE \<Rightarrow> ''DEVICE'')"

definition kind_to_string :: "ObservationKind \<Rightarrow> string" where
  "kind_to_string k = (case k of LOGICAL \<Rightarrow> ''LOGICAL'' | PHYSICAL \<Rightarrow> ''PHYSICAL'')"

record Observation =
  ob_start :: int
  ob_end :: int
  ob_offset :: size_t
  ob_size :: size_t
  bytes_transferred :: size_t
  ob_id :: "64 word"
  parent_id :: "64 word option"
  http_method :: "string option"
  ob_source :: string
  ob_kind :: ObservationKind
  backend :: IoBackend
  direction :: TransferDirection
  memory_kind :: MemoryKind
  ok :: bool

definition blank_observation :: Observation where
  "blank_observation =
     \<lparr>ob_start = 0, ob_end = 0, ob_offset = 0, ob_size = 0, bytes_transferred = 0, ob_id = 0,
      parent_id = None, http_method = None, ob_source = [], ob_kind = LOGICAL, backend = POSIX,
      direction = READ, memory_kind = HOST, ok = True\<rparr>"

definition duration :: "Observation \<Rightarrow> int" where
  "duration ob = (if ob_end ob > ob_start ob then ob_end ob - ob_start ob else 0)"

section \<open>The registry of monitors\<close>

record Entry =
  en_id :: "64 word"
  en_kind :: ObservationKind
  en_monitor :: ptr

datatype Phase = Start | Finish

text \<open>A delivery: which monitor was called, in which phase, with which observation.\<close>

type_synonym delivered = "ptr \<times> Phase \<times> Observation"

record Registry =
  monitors :: "Entry list"
  next_id :: "64 word"
  monitor_counts :: "ObservationKind \<Rightarrow> 32 word"
  t_in_monitor :: bool
  delivered_log :: "delivered list"

definition empty_registry :: Registry where
  "empty_registry =
     \<lparr>monitors = [], next_id = 1, monitor_counts = (\<lambda>_. 0), t_in_monitor = False, delivered_log = []\<rparr>"

definition publish_count :: "Registry \<Rightarrow> Registry" where
  "publish_count reg =
     reg\<lparr>monitor_counts := (\<lambda>kind. of_nat (length (filter (\<lambda>e. en_kind e = kind) (monitors reg))))\<rparr>"

definition monitoring_enabled :: "ObservationKind \<Rightarrow> Registry \<Rightarrow> bool" where
  "monitoring_enabled kind reg \<longleftrightarrow> monitor_counts reg kind \<noteq> 0"

definition add_monitor :: "ptr \<Rightarrow> ObservationKind \<Rightarrow> Registry \<Rightarrow> (Registry \<times> 64 word) res" where
  "add_monitor monitor kind reg =
     bind_res (kvikio_expect (monitor \<noteq> 0) Invalid_Argument)
       (\<lambda>_. bind_res (kvikio_expect (\<not> t_in_monitor reg) Runtime_Error)
         (\<lambda>_. let mid = next_id reg;
                  reg1 = reg\<lparr>next_id := mid + 1\<rparr>;
                  reg2 = reg1\<lparr>monitors := monitors reg1 @ [\<lparr>en_id = mid, en_kind = kind, en_monitor = monitor\<rparr>]\<rparr>
              in Inr (publish_count reg2, mid)))"

text \<open>\<open>_monitors.erase(std::find_if(...))\<close>: the first entry with the id is erased.\<close>

fun erase_id :: "64 word \<Rightarrow> Entry list \<Rightarrow> Entry list" where
  "erase_id i [] = []"
| "erase_id i (e # es) = (if en_id e = i then es else e # erase_id i es)"

definition remove_monitor :: "64 word \<Rightarrow> Registry \<Rightarrow> Registry res" where
  "remove_monitor mid reg =
     bind_res (kvikio_expect (\<not> t_in_monitor reg) Runtime_Error)
       (\<lambda>_. if \<not> list_ex (\<lambda>e. en_id e = mid) (monitors reg) then Inr reg
            else Inr (publish_count (reg\<lparr>monitors := erase_id mid (monitors reg)\<rparr>)))"

text \<open>
  The callbacks run with the thread-local flag set and the guard clears it afterwards; a callback
  cannot change the registry, since registering and removing throw while the flag is set.
\<close>

definition notify :: "Phase \<Rightarrow> Observation \<Rightarrow> Registry \<Rightarrow> Registry" where
  "notify phase observation reg =
     (if \<not> monitoring_enabled (ob_kind observation) reg then reg
      else if t_in_monitor reg then reg
      else let guarded = reg\<lparr>t_in_monitor := True\<rparr>;
               called = fold (\<lambda>entry r. if en_kind entry \<noteq> ob_kind observation then r
                                 else r\<lparr>delivered_log := delivered_log r @ [(en_monitor entry, phase, observation)]\<rparr>)
                             (monitors reg) guarded
           in called\<lparr>t_in_monitor := False\<rparr>)"

definition expect_not_in_monitor :: "Registry \<Rightarrow> unit res" where
  "expect_not_in_monitor reg = kvikio_expect (\<not> t_in_monitor reg) Runtime_Error"

subsection \<open>The registry invariant\<close>

text \<open>
  The published count of each kind is the number of its monitors, and every id in use is below the
  next one; \<open>n\<close> bounds the registrations made so far, so that neither counter has wrapped.
\<close>

definition registry_inv :: "nat \<Rightarrow> Registry \<Rightarrow> bool" where
  "registry_inv n reg \<longleftrightarrow>
     unat (next_id reg) = Suc n \<and> length (monitors reg) \<le> n \<and>
     sorted_wrt (<) (map en_id (monitors reg)) \<and>
     (\<forall>e \<in> set (monitors reg). en_id e < next_id reg \<and> en_monitor e \<noteq> 0) \<and>
     (\<forall>kind. unat (monitor_counts reg kind) = length (filter (\<lambda>e. en_kind e = kind) (monitors reg)))"

definition subscribers :: "ObservationKind \<Rightarrow> Registry \<Rightarrow> ptr list" where
  "subscribers kind reg = map en_monitor (filter (\<lambda>e. en_kind e = kind) (monitors reg))"

lemma empty_registry_inv: "registry_inv 0 empty_registry"
  by (simp add: registry_inv_def empty_registry_def)

lemma unat_of_nat_count: "n < 2 ^ 32 \<Longrightarrow> unat (of_nat n :: 32 word) = n"
  by (simp add: unat_of_nat take_bit_nat_eq_self)

lemma publish_count_exact:
  assumes "length (monitors reg) < 2 ^ 32"
  shows "unat (monitor_counts (publish_count reg) kind) = length (filter (\<lambda>e. en_kind e = kind) (monitors reg))"
proof -
  have "length (filter (\<lambda>e. en_kind e = kind) (monitors reg)) < 2 ^ 32"
    using assms by (rule le_less_trans [OF length_filter_le])
  then show ?thesis by (simp add: publish_count_def unat_of_nat_count)
qed

lemma publish_count_sel [simp]:
  "monitors (publish_count reg) = monitors reg" "next_id (publish_count reg) = next_id reg"
  "t_in_monitor (publish_count reg) = t_in_monitor reg"
  "delivered_log (publish_count reg) = delivered_log reg"
  by (simp_all add: publish_count_def)

lemma add_monitor_inv:
  assumes "registry_inv n reg" "Suc n < 2 ^ 32" "add_monitor mon kind reg = Inr (reg', mid)"
  shows "registry_inv (Suc n) reg' \<and> mid \<notin> en_id ` set (monitors reg) \<and>
         monitors reg' = monitors reg @ [\<lparr>en_id = mid, en_kind = kind, en_monitor = mon\<rparr>]"
proof -
  from assms(3) have reg': "reg' = publish_count (reg\<lparr>next_id := mid + 1,
        monitors := monitors reg @ [\<lparr>en_id = mid, en_kind = kind, en_monitor = mon\<rparr>]\<rparr>)"
    and mid: "mid = next_id reg" and mon: "mon \<noteq> 0"
    by (auto simp: add_monitor_def res_simps Let_def split: if_splits)
  from assms(1) have n: "unat mid = Suc n" and len: "length (monitors reg) \<le> n"
    and lt: "\<And>e. e \<in> set (monitors reg) \<Longrightarrow> en_id e < mid"
    by (auto simp: registry_inv_def mid)
  have "unat (mid + 1) = Suc (Suc n)"
    using n assms(2) unat_plus_no_wrap [of mid 1] by simp
  moreover have "en_id e < mid + 1" if "e \<in> set (monitors reg)" for e
    using lt [OF that] n assms(2) unat_plus_no_wrap [of mid 1] by (simp add: word_less_nat_alt)
  moreover have "mid < mid + 1"
    using n assms(2) unat_plus_no_wrap [of mid 1] by (simp add: word_less_nat_alt)
  moreover have "length (monitors reg') < 2 ^ 32" using len assms(2) by (simp add: reg')
  ultimately show ?thesis
    using assms(1) lt mon len publish_count_exact [of "reg\<lparr>next_id := mid + 1,
        monitors := monitors reg @ [\<lparr>en_id = mid, en_kind = kind, en_monitor = mon\<rparr>]\<rparr>"]
    by (auto simp: registry_inv_def reg' sorted_wrt_append)
qed

lemma set_erase_id: "set (erase_id i es) \<subseteq> set es"
  by (induction es) auto

lemma length_erase_id: "length (erase_id i es) \<le> length es"
  by (induction es) auto

lemma sorted_erase_id: "sorted_wrt (<) (map en_id es) \<Longrightarrow> sorted_wrt (<) (map en_id (erase_id i es))"
  using set_erase_id by (induction es) fastforce+

lemma erase_id_distinct:
  "sorted_wrt (<) (map en_id es) \<Longrightarrow> erase_id i es = filter (\<lambda>e. en_id e \<noteq> i) es"
proof (induction es)
  case Nil
  then show ?case by simp
next
  case (Cons e es)
  then have "\<forall>x \<in> set es. en_id e < en_id x" by simp
  then have "en_id e = i \<Longrightarrow> filter (\<lambda>x. en_id x \<noteq> i) es = es" by (intro filter_True) fastforce
  with Cons show ?case by simp
qed

lemma remove_monitor_inv:
  assumes "registry_inv n reg" "n < 2 ^ 32" "remove_monitor mid reg = Inr reg'"
  shows "registry_inv n reg' \<and> monitors reg' = filter (\<lambda>e. en_id e \<noteq> mid) (monitors reg)"
proof (cases "list_ex (\<lambda>e. en_id e = mid) (monitors reg)")
  case False
  with assms(3) have "reg' = reg" by (auto simp: remove_monitor_def res_simps split: if_splits)
  moreover have "filter (\<lambda>e. en_id e \<noteq> mid) (monitors reg) = monitors reg"
    using False by (intro filter_True) (auto simp: list_ex_iff)
  ultimately show ?thesis using assms(1) by simp
next
  case True
  let ?r = "reg\<lparr>monitors := erase_id mid (monitors reg)\<rparr>"
  from True assms(3) have reg': "reg' = publish_count ?r"
    by (auto simp: remove_monitor_def res_simps split: if_splits)
  have sorted: "sorted_wrt (<) (map en_id (monitors reg))" using assms(1) by (simp add: registry_inv_def)
  have "length (monitors ?r) < 2 ^ 32"
    using assms(1,2) length_erase_id [of mid "monitors reg"] by (simp add: registry_inv_def)
  then have "\<forall>kind. unat (monitor_counts reg' kind) = length (filter (\<lambda>e. en_kind e = kind) (monitors reg'))"
    unfolding reg' by (simp add: publish_count_exact del: publish_count_sel(1)) simp
  then show ?thesis
    using assms(1) sorted_erase_id [OF sorted, of mid] length_filter_le [of "\<lambda>e. en_id e \<noteq> mid" "monitors reg"]
    unfolding registry_inv_def reg' publish_count_sel erase_id_distinct [OF sorted]
    by (auto simp: erase_id_distinct [OF sorted, of mid] intro: le_trans [OF length_filter_le])
qed

lemma monitoring_enabled_iff:
  "registry_inv n reg \<Longrightarrow> monitoring_enabled kind reg \<longleftrightarrow> subscribers kind reg \<noteq> []"
  by (auto simp: registry_inv_def monitoring_enabled_def subscribers_def filter_empty_conv
      dest!: spec [of _ kind] simp flip: unat_eq_0)

text \<open>The callbacks reach exactly the subscribers of the kind, in registration order.\<close>

lemma fold_deliver:
  "fold (\<lambda>entry r. if en_kind entry \<noteq> k then r
           else r\<lparr>delivered_log := delivered_log r @ [(en_monitor entry, phase, ob)]\<rparr>) es r =
   r\<lparr>delivered_log := delivered_log r @ map (\<lambda>e. (en_monitor e, phase, ob)) (filter (\<lambda>e. en_kind e = k) es)\<rparr>"
  by (induction es arbitrary: r) simp_all

lemma notify_delivers:
  assumes "registry_inv n reg" "\<not> t_in_monitor reg"
  shows "notify phase ob reg =
    reg\<lparr>delivered_log := delivered_log reg @ map (\<lambda>mon. (mon, phase, ob)) (subscribers (ob_kind ob) reg)\<rparr>"
proof (cases "subscribers (ob_kind ob) reg = []")
  case True
  then show ?thesis using monitoring_enabled_iff [OF assms(1), of "ob_kind ob"] by (simp add: notify_def)
next
  case False
  then have "monitoring_enabled (ob_kind ob) reg" using monitoring_enabled_iff [OF assms(1)] by simp
  then show ?thesis
    using assms(2) unfolding notify_def fold_deliver
    by (simp add: subscribers_def Let_def comp_def)
qed

section \<open>Recorders\<close>

text \<open>The registry together with the counter of observation ids.\<close>

record observer =
  ov_registry :: Registry
  id_counter :: "64 word"

definition next_observation_id :: "observer \<Rightarrow> 64 word \<times> observer" where
  "next_observation_id ov = (id_counter ov, ov\<lparr>id_counter := id_counter ov + 1\<rparr>)"

definition notify_started :: "Observation \<Rightarrow> observer \<Rightarrow> observer" where
  "notify_started ob ov = ov\<lparr>ov_registry := notify Start ob (ov_registry ov)\<rparr>"

definition notify_finished :: "Observation \<Rightarrow> observer \<Rightarrow> observer" where
  "notify_finished ob ov = ov\<lparr>ov_registry := notify Finish ob (ov_registry ov)\<rparr>"

record Recorder =
  rc_observation :: Observation
  rc_active :: bool
  rc_emitted :: bool

text \<open>What the physical observations of one call have in common.\<close>

record PhysicalObservationContext =
  cx_backend :: IoBackend
  cx_direction :: TransferDirection
  cx_memory_kind :: MemoryKind
  cx_parent_id :: "64 word option"
  cx_source :: string
  cx_http_method :: "string option"

definition logical_begin ::
  "IoBackend \<Rightarrow> TransferDirection \<Rightarrow> MemoryKind \<Rightarrow> size_t \<Rightarrow> size_t \<Rightarrow> string \<Rightarrow> string option \<Rightarrow> int \<Rightarrow>
   Recorder \<Rightarrow> observer \<Rightarrow> Recorder \<times> observer" where
  "logical_begin be dir mk offset sz src meth now r ov =
     (let (i, ov1) = next_observation_id ov;
          ob = (rc_observation r)\<lparr>backend := be, direction := dir, memory_kind := mk, ob_offset := offset,
                 ob_size := sz, http_method := meth, ob_source := src, ob_id := i, ob_start := now\<rparr>
      in (r\<lparr>rc_observation := ob\<rparr>, notify_started ob ov1))"

definition new_logical ::
  "IoBackend \<Rightarrow> TransferDirection \<Rightarrow> MemoryKind \<Rightarrow> size_t \<Rightarrow> size_t \<Rightarrow> string \<Rightarrow> string option \<Rightarrow> int \<Rightarrow>
   observer \<Rightarrow> Recorder \<times> observer" where
  "new_logical be dir mk offset sz src meth now ov =
     (let r = \<lparr>rc_observation = blank_observation,
               rc_active = monitoring_enabled LOGICAL (ov_registry ov), rc_emitted = False\<rparr>
      in if rc_active r then logical_begin be dir mk offset sz src meth now r ov else (r, ov))"

definition new_physical ::
  "PhysicalObservationContext \<Rightarrow> size_t \<Rightarrow> size_t \<Rightarrow> int \<Rightarrow> observer \<Rightarrow> Recorder \<times> observer" where
  "new_physical context offset sz now ov =
     (let r = \<lparr>rc_observation = blank_observation,
               rc_active = monitoring_enabled PHYSICAL (ov_registry ov), rc_emitted = False\<rparr>
      in if \<not> rc_active r then (r, ov)
         else let (i, ov1) = next_observation_id ov;
                  ob = blank_observation\<lparr>ob_kind := PHYSICAL, backend := cx_backend context,
                         direction := cx_direction context, memory_kind := cx_memory_kind context,
                         parent_id := cx_parent_id context, ob_source := cx_source context,
                         http_method := cx_http_method context, ob_offset := offset, ob_size := sz,
                         ob_id := i, ob_start := now\<rparr>
              in (r\<lparr>rc_observation := ob\<rparr>, notify_started ob ov1))"

text \<open>\<open>emit()\<close>: stamp the end and notify.\<close>

definition emit :: "int \<Rightarrow> Recorder \<Rightarrow> observer \<Rightarrow> Recorder \<times> observer" where
  "emit now r ov =
     (let ob = (rc_observation r)\<lparr>ob_end := now\<rparr>
      in (r\<lparr>rc_observation := ob\<rparr>, notify_finished ob ov))"

definition logical_finish :: "size_t \<Rightarrow> int \<Rightarrow> Recorder \<Rightarrow> observer \<Rightarrow> Recorder \<times> observer" where
  "logical_finish n now r ov =
     (if \<not> rc_active r then (r, ov)
      else if rc_emitted r then (r, ov)
      else emit now (r\<lparr>rc_emitted := True, rc_observation := (rc_observation r)\<lparr>bytes_transferred := n\<rparr>\<rparr>) ov)"

definition logical_finish_with_failure :: "int \<Rightarrow> Recorder \<Rightarrow> observer \<Rightarrow> Recorder \<times> observer" where
  "logical_finish_with_failure now r ov =
     (if \<not> rc_active r then (r, ov)
      else if rc_emitted r then (r, ov)
      else emit now (r\<lparr>rc_emitted := True,
                       rc_observation := (rc_observation r)\<lparr>ok := False, bytes_transferred := 0\<rparr>\<rparr>) ov)"

text \<open>The destructor of a logical recorder.\<close>

definition logical_destroy :: "int \<Rightarrow> Recorder \<Rightarrow> observer \<Rightarrow> Recorder \<times> observer" where
  "logical_destroy now r ov = logical_finish_with_failure now r ov"

definition physical_destroy :: "int \<Rightarrow> Recorder \<Rightarrow> observer \<Rightarrow> Recorder \<times> observer" where
  "physical_destroy now r ov =
     (if \<not> rc_active r \<or> rc_emitted r then (r, ov)
      else emit now (r\<lparr>rc_emitted := True,
                       rc_observation := (rc_observation r)\<lparr>ok := False, bytes_transferred := 0\<rparr>\<rparr>) ov)"

definition physical_finish :: "size_t \<Rightarrow> int \<Rightarrow> Recorder \<Rightarrow> observer \<Rightarrow> Recorder \<times> observer" where
  "physical_finish n now r ov =
     (if \<not> rc_active r \<or> rc_emitted r then (r, ov)
      else emit now (r\<lparr>rc_emitted := True, rc_observation := (rc_observation r)\<lparr>bytes_transferred := n\<rparr>\<rparr>) ov)"

definition recorder_id :: "Recorder \<Rightarrow> 64 word option" where
  "recorder_id r = (if \<not> rc_active r then None else Some (ob_id (rc_observation r)))"

section \<open>The contract of a recorder: one finish per start\<close>

text \<open>
  \<open>step\<close> performs one call on a recorder; \<open>final op now r\<close> is the observation that the call would
  report if it is the first to finish. The contract: a recorder that is still open reports it
  and closes, a closed one does nothing.
\<close>

definition recorder_open :: "Recorder \<Rightarrow> bool" where
  "recorder_open r \<longleftrightarrow> rc_active r \<and> \<not> rc_emitted r"

text \<open>A sequence of calls, each with the time it is made at.\<close>

primrec run_calls ::
  "('op \<Rightarrow> int \<Rightarrow> Recorder \<Rightarrow> observer \<Rightarrow> Recorder \<times> observer) \<Rightarrow>
   ('op \<times> int) list \<Rightarrow> Recorder \<Rightarrow> observer \<Rightarrow> Recorder \<times> observer" where
  "run_calls step [] r ov = (r, ov)"
| "run_calls step (c # cs) r ov = (let (r', ov') = step (fst c) (snd c) r ov in run_calls step cs r' ov')"

locale once_recorder =
  fixes step :: "'op \<Rightarrow> int \<Rightarrow> Recorder \<Rightarrow> observer \<Rightarrow> Recorder \<times> observer"
    and final :: "'op \<Rightarrow> int \<Rightarrow> Recorder \<Rightarrow> Observation"
  assumes open_reports: "recorder_open r \<Longrightarrow>
      snd (step op now r ov) = notify_finished (final op now r) ov \<and> \<not> recorder_open (fst (step op now r ov))"
    and closed_silent: "\<not> recorder_open r \<Longrightarrow> step op now r ov = (r, ov)"
begin

lemma closed_run: "\<not> recorder_open r \<Longrightarrow> run_calls step cs r ov = (r, ov)"
  by (induction cs) (simp_all add: closed_silent)

lemma exactly_once:
  assumes "recorder_open r" "cs \<noteq> []"
  shows "snd (run_calls step cs r ov) = notify_finished (final (fst (hd cs)) (snd (hd cs)) r) ov"
proof (cases cs)
  case (Cons c cs')
  obtain r' ov' where s: "step (fst c) (snd c) r ov = (r', ov')" by (cases "step (fst c) (snd c) r ov")
  with open_reports [OF assms(1), of "fst c" "snd c" ov] show ?thesis
    by (simp add: Cons s closed_run)
qed (use assms(2) in simp)

end

datatype logical_call = Finish_Bytes size_t | Finish_Failure | Destroy_Logical
datatype physical_call = Finish_Transfer size_t | Destroy_Physical

definition logical_step :: "logical_call \<Rightarrow> int \<Rightarrow> Recorder \<Rightarrow> observer \<Rightarrow> Recorder \<times> observer" where
  "logical_step c = (case c of Finish_Bytes n \<Rightarrow> logical_finish n
     | Finish_Failure \<Rightarrow> logical_finish_with_failure | Destroy_Logical \<Rightarrow> logical_destroy)"

definition physical_step :: "physical_call \<Rightarrow> int \<Rightarrow> Recorder \<Rightarrow> observer \<Rightarrow> Recorder \<times> observer" where
  "physical_step c = (case c of Finish_Transfer n \<Rightarrow> physical_finish n | Destroy_Physical \<Rightarrow> physical_destroy)"

definition succeeded :: "size_t \<Rightarrow> int \<Rightarrow> Recorder \<Rightarrow> Observation" where
  "succeeded n now r = (rc_observation r)\<lparr>bytes_transferred := n, ob_end := now\<rparr>"

definition failed :: "int \<Rightarrow> Recorder \<Rightarrow> Observation" where
  "failed now r = (rc_observation r)\<lparr>ok := False, bytes_transferred := 0, ob_end := now\<rparr>"

definition logical_final :: "logical_call \<Rightarrow> int \<Rightarrow> Recorder \<Rightarrow> Observation" where
  "logical_final c = (case c of Finish_Bytes n \<Rightarrow> succeeded n | _ \<Rightarrow> failed)"

definition physical_final :: "physical_call \<Rightarrow> int \<Rightarrow> Recorder \<Rightarrow> Observation" where
  "physical_final c = (case c of Finish_Transfer n \<Rightarrow> succeeded n | Destroy_Physical \<Rightarrow> failed)"

lemmas recorder_defs = logical_step_def physical_step_def logical_finish_def
  logical_finish_with_failure_def logical_destroy_def physical_finish_def physical_destroy_def
  emit_def recorder_open_def logical_final_def physical_final_def succeeded_def failed_def Let_def

interpretation logical_recorder: once_recorder logical_step logical_final
  by unfold_locales (auto simp: recorder_defs split: logical_call.splits)

interpretation physical_recorder: once_recorder physical_step physical_final
  by unfold_locales (auto simp: recorder_defs split: physical_call.splits)

section \<open>Properties\<close>

lemma new_logical_cases:
  assumes "registry_inv n (ov_registry ov)" "\<not> t_in_monitor (ov_registry ov)"
    and "new_logical be dir mk offset sz src meth now ov = (r, ov')"
  shows "recorder_open r \<longleftrightarrow> subscribers LOGICAL (ov_registry ov) \<noteq> []"
    and "ov_registry ov' = (ov_registry ov)\<lparr>delivered_log := delivered_log (ov_registry ov) @
           map (\<lambda>mon. (mon, Start, rc_observation r)) (subscribers LOGICAL (ov_registry ov))\<rparr>"
    and "ob_kind (rc_observation r) = LOGICAL"
  using assms(3) monitoring_enabled_iff [OF assms(1), of LOGICAL] notify_delivers [OF assms(1,2)]
  by (auto simp: new_logical_def logical_begin_def next_observation_id_def notify_started_def
      recorder_open_def blank_observation_def Let_def split: if_splits)

lemma new_physical_cases:
  assumes "registry_inv n (ov_registry ov)" "\<not> t_in_monitor (ov_registry ov)"
    and "new_physical cx offset sz now ov = (r, ov')"
  shows "recorder_open r \<longleftrightarrow> subscribers PHYSICAL (ov_registry ov) \<noteq> []"
    and "ov_registry ov' = (ov_registry ov)\<lparr>delivered_log := delivered_log (ov_registry ov) @
           map (\<lambda>mon. (mon, Start, rc_observation r)) (subscribers PHYSICAL (ov_registry ov))\<rparr>"
    and "subscribers PHYSICAL (ov_registry ov) \<noteq> [] \<Longrightarrow> ob_kind (rc_observation r) = PHYSICAL"
  using assms(3) monitoring_enabled_iff [OF assms(1), of PHYSICAL] notify_delivers [OF assms(1,2)]
  by (auto simp: new_physical_def next_observation_id_def notify_started_def
      recorder_open_def blank_observation_def Let_def split: if_splits)

lemma deliver_log_update:
  "registry_inv n (reg\<lparr>delivered_log := l\<rparr>) = registry_inv n reg"
  "subscribers k (reg\<lparr>delivered_log := l\<rparr>) = subscribers k reg"
  by (simp_all add: registry_inv_def subscribers_def)

lemma finish_delivers:
  assumes "registry_inv n (ov_registry ov)" "\<not> t_in_monitor (ov_registry ov)"
  shows "delivered_log (ov_registry (notify_finished ob ov)) = delivered_log (ov_registry ov) @
           map (\<lambda>mon. (mon, Finish, ob)) (subscribers (ob_kind ob) (ov_registry ov))"
  using notify_delivers [OF assms] by (simp add: notify_finished_def)

lemma final_kind [simp]:
  "ob_kind (logical_final c now r) = ob_kind (rc_observation r)"
  "ob_kind (physical_final d now r) = ob_kind (rc_observation r)"
  by (simp_all add: recorder_defs split: logical_call.splits physical_call.splits)

text \<open>
  C33. One logical recorder, whatever calls are made on it afterwards and in whatever order (the
  destructor included, so at least one): every monitor subscribed to logical observations gets
  one start and exactly one finish, for the same observation, and the first call decides whether
  it is reported as succeeded with its byte count or as failed with none. With no subscriber
  nothing is delivered.
\<close>

theorem logical_one_finish_per_start:
  assumes "registry_inv n (ov_registry ov)" "\<not> t_in_monitor (ov_registry ov)" "calls \<noteq> []"
    and "new_logical be dir mk offset sz src meth now ov = (r, ov1)"
  shows "delivered_log (ov_registry (snd (run_calls logical_step calls r ov1))) =
         delivered_log (ov_registry ov) @
         map (\<lambda>mon. (mon, Start, rc_observation r)) (subscribers LOGICAL (ov_registry ov)) @
         map (\<lambda>mon. (mon, Finish, logical_final (fst (hd calls)) (snd (hd calls)) r))
           (subscribers LOGICAL (ov_registry ov))"
proof (cases "recorder_open r")
  case True
  then show ?thesis
    using logical_recorder.exactly_once [OF True assms(3), of ov1] new_logical_cases [OF assms(1,2,4)] assms(1,2)
    by (simp add: finish_delivers [of n] deliver_log_update)
next
  case False
  then show ?thesis
    using logical_recorder.closed_run [OF False, of calls ov1] new_logical_cases [OF assms(1,2,4)] by simp
qed

definition example_observer :: observer where
  "example_observer =
     \<lparr>ov_registry = (case add_monitor 77 LOGICAL empty_registry of Inl _ \<Rightarrow> empty_registry | Inr (r, _) \<Rightarrow> r),
      id_counter = 1\<rparr>"

lemma example_observer_inv:
  "registry_inv 1 (ov_registry example_observer)" "\<not> t_in_monitor (ov_registry example_observer)"
  "subscribers LOGICAL (ov_registry example_observer) = [77]"
  using add_monitor_inv [OF empty_registry_inv, of 77 LOGICAL]
  by (simp_all add: example_observer_def add_monitor_def res_simps empty_registry_def subscribers_def Let_def)

theorem logical_one_finish_per_start_witness:
  "\<exists>r ov1. new_logical GDS READ DEVICE 0 4096 [] None 10 example_observer = (r, ov1) \<and>
     delivered_log (ov_registry (snd (run_calls logical_step
       [(Finish_Bytes 4096, 25), (Finish_Failure, 30), (Destroy_Logical, 40)] r ov1))) =
     delivered_log (ov_registry example_observer) @
     [(77, Start, rc_observation r), (77, Finish, succeeded 4096 25 r)]"
proof -
  obtain r ov1 where r: "new_logical GDS READ DEVICE 0 4096 [] None 10 example_observer = (r, ov1)"
    by (cases "new_logical GDS READ DEVICE 0 4096 [] None 10 example_observer")
  show ?thesis
    using logical_one_finish_per_start [OF example_observer_inv(1,2) _ r,
        of "[(Finish_Bytes 4096, 25), (Finish_Failure, 30), (Destroy_Logical, 40)]"] r
    by (simp only: example_observer_inv(3)) (simp add: logical_final_def)
qed

text \<open>
  The same for a physical recorder: a transfer that started is reported finished exactly once,
  also when its recorder is destroyed without a call of \<open>finish\<close>.
\<close>

theorem physical_one_finish_per_start:
  assumes "registry_inv n (ov_registry ov)" "\<not> t_in_monitor (ov_registry ov)" "calls \<noteq> []"
    and "new_physical cx offset sz now ov = (r, ov1)"
  shows "delivered_log (ov_registry (snd (run_calls physical_step calls r ov1))) =
         delivered_log (ov_registry ov) @
         map (\<lambda>mon. (mon, Start, rc_observation r)) (subscribers PHYSICAL (ov_registry ov)) @
         map (\<lambda>mon. (mon, Finish, physical_final (fst (hd calls)) (snd (hd calls)) r))
           (subscribers PHYSICAL (ov_registry ov))"
proof (cases "recorder_open r")
  case True
  then show ?thesis
    using physical_recorder.exactly_once [OF True assms(3), of ov1] new_physical_cases [OF assms(1,2,4)] assms(1,2)
    by (simp add: finish_delivers [of n] deliver_log_update)
next
  case False
  then show ?thesis
    using physical_recorder.closed_run [OF False, of calls ov1] new_physical_cases [OF assms(1,2,4)] by simp
qed

theorem physical_one_finish_per_start_witness:
  "\<exists>r ov1. new_physical \<lparr>cx_backend = POSIX, cx_direction = READ, cx_memory_kind = HOST,
       cx_parent_id = None, cx_source = [], cx_http_method = None\<rparr> 0 512 5 example_observer = (r, ov1) \<and>
     delivered_log (ov_registry (snd (run_calls physical_step [(Destroy_Physical, 9)] r ov1))) =
     delivered_log (ov_registry example_observer) @
     map (\<lambda>mon. (mon, Start, rc_observation r)) (subscribers PHYSICAL (ov_registry example_observer)) @
     map (\<lambda>mon. (mon, Finish, failed 9 r)) (subscribers PHYSICAL (ov_registry example_observer))"
proof -
  let ?cx = "\<lparr>cx_backend = POSIX, cx_direction = READ, cx_memory_kind = HOST,
       cx_parent_id = None, cx_source = [], cx_http_method = None\<rparr>"
  obtain r ov1 where r: "new_physical ?cx 0 512 5 example_observer = (r, ov1)"
    by (cases "new_physical ?cx 0 512 5 example_observer")
  show ?thesis
    using physical_one_finish_per_start [OF example_observer_inv(1,2) _ r, of "[(Destroy_Physical, 9)]"] r
    by (simp add: physical_final_def)
qed

text \<open>Registering and unregistering; a call that throws leaves the registry as it was.\<close>

datatype registry_call = Register ptr ObservationKind | Unregister "64 word"

definition registry_step :: "registry_call \<Rightarrow> Registry \<Rightarrow> Registry" where
  "registry_step c reg =
     (case c of
        Register mon kind \<Rightarrow> (case add_monitor mon kind reg of Inl _ \<Rightarrow> reg | Inr (r, _) \<Rightarrow> r)
      | Unregister i \<Rightarrow> (case remove_monitor i reg of Inl _ \<Rightarrow> reg | Inr r \<Rightarrow> r))"

lemma registry_step_inv:
  assumes "registry_inv n reg" "Suc n < 2 ^ 32"
  shows "\<exists>n' \<le> Suc n. registry_inv n' (registry_step c reg)"
proof (cases c)
  case (Register mon kind)
  then show ?thesis
    using assms add_monitor_inv [OF assms]
    by (cases "add_monitor mon kind reg") (auto simp: registry_step_def intro: le_SucI)
next
  case (Unregister i)
  then show ?thesis
    using assms remove_monitor_inv [OF assms(1)]
    by (cases "remove_monitor i reg") (auto simp: registry_step_def intro!: exI [of _ n])
qed

lemma registry_calls_inv:
  "registry_inv n reg \<Longrightarrow> n + length cs < 2 ^ 32 \<Longrightarrow>
   \<exists>n' \<le> n + length cs. registry_inv n' (fold registry_step cs reg)"
proof (induction cs arbitrary: n reg)
  case Nil
  then show ?case by auto
next
  case (Cons c cs)
  then obtain n1 where n1: "n1 \<le> Suc n" "registry_inv n1 (registry_step c reg)"
    using registry_step_inv [of n reg c] by fastforce
  with Cons.IH [of n1 "registry_step c reg"] Cons.prems(2) obtain n2
    where "n2 \<le> n1 + length cs" "registry_inv n2 (fold registry_step cs (registry_step c reg))" by auto
  with n1(1) show ?case by (intro exI [of _ n2]) simp
qed


definition example_registry :: Registry where
  "example_registry = fold registry_step
     [Register 5 LOGICAL, Register 6 PHYSICAL, Register 7 LOGICAL, Unregister 1] empty_registry"

lemma example_registry_facts:
  "t_in_monitor example_registry = False" "subscribers LOGICAL example_registry = [7]"
  by (simp_all add: example_registry_def registry_step_def add_monitor_def remove_monitor_def res_simps
      empty_registry_def subscribers_def publish_count_def Let_def)


end
