(* ===== verification/Parallel_IO.thy ===== *)
theory Parallel_IO
  imports Range_Tiling Observation
begin

text \<open>
  Parallel I/O on a thread pool: \<open>cpp/include/kvikio/detail/parallel_operation.hpp\<close>. A call is cut
  into tasks, each a size with its offsets in the file and in the buffer; all but the last are
  submitted as they are, and the last one performs its own part, waits for the others and reports
  the outcome to the observation recorder. The operation \<open>op\<close> and the page size are parameters.
  The pool runs the tasks in any order, so the results are stated for every order.
\<close>

section \<open>Tasks\<close>

record io_task =
  tk_size :: size_t
  tk_file_offset :: size_t
  tk_devPtr_offset :: size_t

record ParallelIoOptions =
  pio_thread_pool :: ptr
  pio_call_idx :: "64 word"
  pio_first_task_size :: "size_t option"
  pio_recorder :: bool

text \<open>What is handed to the pool: one task alone, or several and the one that waits for them.\<close>

datatype submission = Single_Task io_task | Split_Tasks "io_task list" io_task

text \<open>\<open>submit_task\<close> refuses to run inside a monitor callback.\<close>

definition submit_task :: "Registry \<Rightarrow> io_task \<Rightarrow> io_task res" where
  "submit_task reg task = bind_res (expect_not_in_monitor reg) (\<lambda>_. Inr task)"

text \<open>
  The middle loop: tasks of \<open>task_size\<close> bytes while more than that is left. It returns the tasks
  with the size and the offsets that remain; \<open>None\<close> is a loop that never ends.
\<close>

partial_function (option) submit_middle ::
  "size_t \<Rightarrow> size_t \<Rightarrow> size_t \<Rightarrow> size_t \<Rightarrow> io_task list \<Rightarrow> (io_task list \<times> size_t \<times> size_t \<times> size_t) option" where
  "submit_middle task_size sz file_offset devPtr_offset tasks =
     (if sz > task_size then
        submit_middle task_size (sz - task_size) (file_offset + task_size) (devPtr_offset + task_size)
          (tasks @ [\<lparr>tk_size = task_size, tk_file_offset = file_offset, tk_devPtr_offset = devPtr_offset\<rparr>])
      else Some (tasks, sz, file_offset, devPtr_offset))"

declare submit_middle.simps [code]

definition parallel_io ::
  "Registry \<Rightarrow> size_t \<Rightarrow> size_t \<Rightarrow> size_t \<Rightarrow> size_t \<Rightarrow> size_t \<Rightarrow> ParallelIoOptions \<Rightarrow> submission option res" where
  "parallel_io reg page_size sz file_offset task_size devPtr_offset opts =
     bind_res (kvikio_expect (task_size > 0) Invalid_Argument) (\<lambda>_.
     bind_res (kvikio_expect (pio_thread_pool opts \<noteq> 0) CUfile_Exception) (\<lambda>_.
       let whole = \<lparr>tk_size = sz, tk_file_offset = file_offset, tk_devPtr_offset = devPtr_offset\<rparr> in
       if task_size \<ge> sz \<or> page_size \<ge> sz then
         bind_res (submit_task reg whole) (\<lambda>t. Inr (Some (Single_Task t)))
       else
         let actual_first_task_size = (case pio_first_task_size opts of None \<Rightarrow> task_size | Some n \<Rightarrow> n);
             cur_size = min actual_first_task_size sz
         in bind_res (submit_task reg \<lparr>tk_size = cur_size, tk_file_offset = file_offset, tk_devPtr_offset = devPtr_offset\<rparr>)
              (\<lambda>first. Inr (map_option
                 (\<lambda>(tasks, rest, fo, dpo). Split_Tasks tasks \<lparr>tk_size = rest, tk_file_offset = fo, tk_devPtr_offset = dpo\<rparr>)
                 (submit_middle task_size (sz - cur_size) (file_offset + cur_size) (devPtr_offset + cur_size) [first])))))"

section \<open>Running the tasks\<close>

text \<open>
  The futures of the earlier tasks: \<open>get\<close> waits for the result, hands it out and leaves the future
  invalid.
\<close>

record task_future =
  fut_valid :: bool
  fut_result :: "size_t res"

definition consume :: "task_future \<Rightarrow> task_future" where
  "consume f = f\<lparr>fut_valid := False\<rparr>"

text \<open>\<open>for (auto& task : tasks) { ret += task.get(); }\<close>, stopping at the first one that throws.\<close>

fun sum_tasks :: "size_t \<Rightarrow> task_future list \<Rightarrow> size_t res \<times> task_future list" where
  "sum_tasks ret [] = (Inr ret, [])"
| "sum_tasks ret (t # ts) =
     (case fut_result t of
        Inl e \<Rightarrow> (Inl e, consume t # ts)
      | Inr n \<Rightarrow> let (r, ts') = sum_tasks (ret + n) ts in (r, consume t # ts'))"

text \<open>The handler waits for the futures that are still valid and swallows what they throw.\<close>

definition drain :: "task_future list \<Rightarrow> task_future list" where
  "drain ts = map (\<lambda>t. if fut_valid t then consume t else t) ts"

definition last_task ::
  "bool \<Rightarrow> size_t res \<Rightarrow> task_future list \<Rightarrow> size_t res \<times> task_future list \<times> logical_call list" where
  "last_task rec own tasks =
     (let (r, ts) = (case own of Inl e \<Rightarrow> (Inl e, tasks) | Inr ret \<Rightarrow> sum_tasks ret tasks)
      in case r of
           Inr ret \<Rightarrow> (Inr ret, ts, if rec then [Finish_Bytes ret] else [])
         | Inl e \<Rightarrow> (Inl e, drain ts, if rec then [Finish_Failure] else []))"

definition single_task :: "bool \<Rightarrow> size_t res \<Rightarrow> size_t res \<times> logical_call list" where
  "single_task rec own =
     (if \<not> rec then (own, [])
      else case own of Inr n \<Rightarrow> (Inr n, [Finish_Bytes n]) | Inl e \<Rightarrow> (Inl e, [Finish_Failure]))"

text \<open>The value of the future that \<open>parallel_io\<close> returns, and the calls made on the recorder.\<close>

definition complete :: "(io_task \<Rightarrow> size_t res) \<Rightarrow> bool \<Rightarrow> submission \<Rightarrow> size_t res \<times> logical_call list" where
  "complete op rec s =
     (case s of
        Single_Task t \<Rightarrow> single_task rec (op t)
      | Split_Tasks ts l \<Rightarrow>
          (let (r, _, calls) = last_task rec (op l) (map (\<lambda>t. \<lparr>fut_valid = True, fut_result = op t\<rparr>) ts)
           in (r, calls)))"

definition all_tasks :: "submission \<Rightarrow> io_task list" where
  "all_tasks s = (case s of Single_Task t \<Rightarrow> [t] | Split_Tasks ts l \<Rightarrow> ts @ [l])"

section \<open>The cutting\<close>

lemma submit_middle_tiles:
  assumes "0 < ts" "fits fo sz"
  shows "\<exists>mid rest fo' dpo'. submit_middle ts sz fo dpo tasks = Some (tasks @ mid, rest, fo', dpo') \<and>
     tiles (unat fo) (unat fo + unat sz)
       (map (\<lambda>t. (tk_file_offset t, tk_size t)) (mid @ [\<lparr>tk_size = rest, tk_file_offset = fo', tk_devPtr_offset = dpo'\<rparr>])) \<and>
     (\<forall>t \<in> set (mid @ [\<lparr>tk_size = rest, tk_file_offset = fo', tk_devPtr_offset = dpo'\<rparr>]).
        tk_size t \<le> ts \<and> tk_devPtr_offset t = dpo + (tk_file_offset t - fo))"
  using assms
proof (induction "unat sz" arbitrary: sz fo dpo tasks rule: less_induct)
  case less
  show ?case
  proof (cases "sz > ts")
    case False
    then show ?thesis
      by (intro exI [of _ "[]"] exI) (auto simp: submit_middle.simps [of ts sz])
  next
    case True
    then have u: "unat (sz - ts) = unat sz - unat ts" "unat ts < unat sz"
      by (simp_all add: unat_minus_no_wrap less_imp_le word_less_nat_alt)
    have fo: "unat (fo + ts) = unat fo + unat ts" "fits (fo + ts) (sz - ts)"
      using less.prems(2) u unat_plus_no_wrap [of fo ts] by (simp_all add: fits_def)
    let ?t = "\<lparr>tk_size = ts, tk_file_offset = fo, tk_devPtr_offset = dpo\<rparr>"
    have "unat (sz - ts) < unat sz" using u less.prems(1) by (simp add: word_less_nat_alt)
    from less.hyps [OF this less.prems(1) fo(2), of "dpo + ts" "tasks @ [?t]"] obtain mid rest fo' dpo' where
      IH: "submit_middle ts (sz - ts) (fo + ts) (dpo + ts) (tasks @ [?t]) = Some ((tasks @ [?t]) @ mid, rest, fo', dpo')"
      "tiles (unat (fo + ts)) (unat (fo + ts) + unat (sz - ts))
         (map (\<lambda>t. (tk_file_offset t, tk_size t)) (mid @ [\<lparr>tk_size = rest, tk_file_offset = fo', tk_devPtr_offset = dpo'\<rparr>]))"
      "\<forall>t \<in> set (mid @ [\<lparr>tk_size = rest, tk_file_offset = fo', tk_devPtr_offset = dpo'\<rparr>]).
        tk_size t \<le> ts \<and> tk_devPtr_offset t = dpo + ts + (tk_file_offset t - (fo + ts))"
      by blast
    from True u fo IH show ?thesis
      by (intro exI [of _ "?t # mid"] exI [of _ rest] exI [of _ fo'] exI [of _ dpo'])
        (simp add: submit_middle.simps [of ts sz] algebra_simps)
  qed
qed

text \<open>The pieces of a submission, and the largest task the options allow.\<close>

definition task_piece :: "io_task \<Rightarrow> size_t \<times> size_t" where
  "task_piece t = (tk_file_offset t, tk_size t)"

definition task_bound :: "size_t \<Rightarrow> ParallelIoOptions \<Rightarrow> size_t \<Rightarrow> nat" where
  "task_bound page_size opts task_size =
     max (unat task_size) (max (unat page_size) (case pio_first_task_size opts of None \<Rightarrow> 0 | Some n \<Rightarrow> unat n))"

definition ready :: "Registry \<Rightarrow> ParallelIoOptions \<Rightarrow> bool" where
  "ready reg opts \<longleftrightarrow> \<not> t_in_monitor reg \<and> pio_thread_pool opts \<noteq> 0"

definition well_cut ::
  "size_t \<Rightarrow> size_t \<Rightarrow> size_t \<Rightarrow> nat \<Rightarrow> io_task list \<Rightarrow> bool" where
  "well_cut fo sz dpo b ts \<longleftrightarrow>
     tiles (unat fo) (unat fo + unat sz) (map task_piece ts) \<and>
     (\<forall>t \<in> set ts. unat (tk_size t) \<le> b \<and> tk_devPtr_offset t = dpo + (tk_file_offset t - fo))"

lemma parallel_io_well_cut:
  assumes "0 < ts" "fits fo sz" "ready reg opts"
  shows "\<exists>s. parallel_io reg page sz fo ts dpo opts = Inr (Some s) \<and>
             well_cut fo sz dpo (task_bound page opts ts) (all_tasks s)"
proof (cases "ts \<ge> sz \<or> page \<ge> sz")
  case True
  then have "unat sz \<le> task_bound page opts ts"
    by (auto simp: task_bound_def word_le_nat_alt)
  with True assms show ?thesis
    by (auto simp: parallel_io_def ready_def res_simps submit_task_def expect_not_in_monitor_def
        all_tasks_def well_cut_def task_piece_def Let_def)
next
  case False
  let ?a = "case pio_first_task_size opts of None \<Rightarrow> ts | Some n \<Rightarrow> n"
  let ?c = "min ?a sz"
  let ?first = "\<lparr>tk_size = ?c, tk_file_offset = fo, tk_devPtr_offset = dpo\<rparr>"
  have c: "unat ?c \<le> unat sz" "unat (sz - ?c) = unat sz - unat ?c"
    by (simp_all add: unat_min_size_t unat_minus_no_wrap)
  have bound: "unat ?c \<le> task_bound page opts ts" "unat ts \<le> task_bound page opts ts"
    by (auto simp: task_bound_def unat_min_size_t split: option.splits)
  have fo': "unat (fo + ?c) = unat fo + unat ?c" "fits (fo + ?c) (sz - ?c)"
    using assms(2) c unat_plus_no_wrap [of fo ?c] by (simp_all add: fits_def)
  obtain mid rest f d where mid:
    "submit_middle ts (sz - ?c) (fo + ?c) (dpo + ?c) [?first] = Some ([?first] @ mid, rest, f, d)"
    "tiles (unat (fo + ?c)) (unat (fo + ?c) + unat (sz - ?c))
       (map (\<lambda>t. (tk_file_offset t, tk_size t)) (mid @ [\<lparr>tk_size = rest, tk_file_offset = f, tk_devPtr_offset = d\<rparr>]))"
    "\<forall>t \<in> set (mid @ [\<lparr>tk_size = rest, tk_file_offset = f, tk_devPtr_offset = d\<rparr>]).
        tk_size t \<le> ts \<and> tk_devPtr_offset t = dpo + ?c + (tk_file_offset t - (fo + ?c))"
    using submit_middle_tiles [OF assms(1) fo'(2)] by blast
  let ?l = "\<lparr>tk_size = rest, tk_file_offset = f, tk_devPtr_offset = d\<rparr>"
  have "parallel_io reg page sz fo ts dpo opts = Inr (Some (Split_Tasks (?first # mid) ?l))"
    using False assms mid(1)
    by (simp add: parallel_io_def ready_def res_simps submit_task_def expect_not_in_monitor_def Let_def)
  moreover have "tiles (unat fo) (unat fo + unat sz) (map task_piece (?first # mid @ [?l]))"
    using mid(2) c fo'(1) by (simp add: task_piece_def [abs_def])
  moreover have "unat (tk_size t) \<le> task_bound page opts ts \<and> tk_devPtr_offset t = dpo + (tk_file_offset t - fo)"
    if "t \<in> set (?first # mid @ [?l])" for t
    using that bound mid(3) by (auto simp: word_le_nat_alt algebra_simps intro: le_trans)
  ultimately show ?thesis by (auto simp: all_tasks_def well_cut_def)
qed

text \<open>
  The cutting of \<open>parallel_io\<close> meets the contract of a range splitter. Its configuration is the
  registry, the page size, the offset in the buffer and the options.
\<close>

type_synonym pio_config = "Registry \<times> size_t \<times> size_t \<times> ParallelIoOptions"

definition pio_valid :: "pio_config \<Rightarrow> bool" where
  "pio_valid = (\<lambda>(reg, page, dpo, opts). ready reg opts)"

definition pio_pieces :: "pio_config \<Rightarrow> size_t \<Rightarrow> size_t \<Rightarrow> size_t \<Rightarrow> (size_t \<times> size_t) list option" where
  "pio_pieces = (\<lambda>(reg, page, dpo, opts) off sz ts.
     case parallel_io reg page sz off ts dpo opts of
       Inr (Some s) \<Rightarrow> Some (map task_piece (all_tasks s)) | _ \<Rightarrow> None)"

definition pio_bound :: "pio_config \<Rightarrow> size_t \<Rightarrow> nat" where
  "pio_bound = (\<lambda>(reg, page, dpo, opts). task_bound page opts)"

interpretation pio: range_splitter pio_valid pio_pieces pio_bound
proof
  fix cfg off sz ts
  assume "pio_valid cfg" "admissible off sz ts"
  moreover obtain reg page dpo opts where cfg: "cfg = (reg, page, dpo, opts)" by (cases cfg)
  ultimately obtain s where s: "parallel_io reg page sz off ts dpo opts = Inr (Some s)"
    "well_cut off sz dpo (task_bound page opts ts) (all_tasks s)"
    using parallel_io_well_cut [of ts off sz reg opts page dpo]
    by (auto simp: admissible_def pio_valid_def)
  then show "\<exists>cs. pio_pieces cfg off sz ts = Some cs \<and> tiles (unat off) (unat off + unat sz) cs"
    by (simp add: cfg pio_pieces_def well_cut_def)
  show "unat (snd c) \<le> pio_bound cfg ts"
    if "pio_pieces cfg off sz ts = Some cs" "c \<in> set cs" for cs c
    using that s by (auto simp: cfg pio_pieces_def pio_bound_def well_cut_def task_piece_def)
qed

section \<open>The outcome\<close>

lemma sum_tasks_ok:
  "(\<And>t. t \<in> set ts \<Longrightarrow> fut_result t = Inr (n t)) \<Longrightarrow>
   sum_tasks ret ts = (Inr (ret + sum_list (map n ts)), map consume ts)"
  by (induction ts arbitrary: ret) (simp_all add: add.assoc)

text \<open>The first failure in a list of results, if any.\<close>

fun first_failure :: "size_t res list \<Rightarrow> exn option" where
  "first_failure [] = None"
| "first_failure (r # rs) = (case r of Inl e \<Rightarrow> Some e | Inr _ \<Rightarrow> first_failure rs)"

lemma sum_tasks_fail:
  "first_failure (map fut_result ts) = Some e \<Longrightarrow> fst (sum_tasks ret ts) = Inl e"
  by (induction ts arbitrary: ret) (simp_all add: case_prod_beta split: sum.splits)

lemma drain_invalid: "t \<in> set (drain ts) \<Longrightarrow> \<not> fut_valid t"
  by (auto simp: drain_def consume_def)

lemma sum_tasks_Inr:
  "fst (sum_tasks ret ts) = Inr r \<Longrightarrow> snd (sum_tasks ret ts) = map consume ts"
  by (induction ts arbitrary: ret) (simp_all add: case_prod_beta split: sum.splits)

lemma last_task_cases:
  "last_task rec own tasks =
     (case own of
        Inl e \<Rightarrow> (Inl e, drain tasks, if rec then [Finish_Failure] else [])
      | Inr ret \<Rightarrow>
         (case fst (sum_tasks ret tasks) of
            Inr r \<Rightarrow> (Inr r, map consume tasks, if rec then [Finish_Bytes r] else [])
          | Inl e \<Rightarrow> (Inl e, drain (snd (sum_tasks ret tasks)), if rec then [Finish_Failure] else [])))"
  using sum_tasks_Inr by (auto simp: last_task_def case_prod_beta split: sum.splits)

lemma complete_ok:
  assumes "\<And>t. t \<in> set (all_tasks s) \<Longrightarrow> op t = Inr (tk_size t)" "sum_list (map tk_size (all_tasks s)) = sz"
  shows "complete op rec s = (Inr sz, if rec then [Finish_Bytes sz] else [])"
proof (cases s)
  case (Single_Task t)
  with assms show ?thesis by (simp add: complete_def single_task_def all_tasks_def)
next
  case (Split_Tasks ts l)
  let ?f = "map (\<lambda>t. \<lparr>fut_valid = True, fut_result = op t\<rparr>) ts"
  have "sum_tasks (tk_size l) ?f = (Inr (tk_size l + sum_list (map (projr \<circ> fut_result) ?f)), map consume ?f)"
    by (rule sum_tasks_ok) (use assms(1) Split_Tasks in \<open>auto simp: all_tasks_def\<close>)
  moreover have "map (projr \<circ> fut_result) ?f = map tk_size ts"
    using assms(1) Split_Tasks by (simp add: all_tasks_def)
  ultimately have "fst (sum_tasks (tk_size l) ?f) = Inr sz"
    using assms(2) Split_Tasks by (simp only: fst_conv) (simp add: all_tasks_def add.commute)
  then show ?thesis
    using assms(1) Split_Tasks by (simp add: complete_def last_task_cases all_tasks_def)
qed

lemma complete_fail:
  assumes "first_failure (map op (last (all_tasks s) # butlast (all_tasks s))) = Some e"
  shows "complete op rec s = (Inl e, if rec then [Finish_Failure] else [])"
proof (cases s)
  case (Single_Task t)
  with assms show ?thesis
    by (auto simp: complete_def single_task_def all_tasks_def split: sum.splits)
next
  case (Split_Tasks ts l)
  let ?f = "map (\<lambda>t. \<lparr>fut_valid = True, fut_result = op t\<rparr>) ts"
  have "map fut_result ?f = map op ts" by simp
  then have "fst (sum_tasks ret ?f) = Inl e" if "first_failure (map op ts) = Some e" for ret
    using that by (metis sum_tasks_fail)
  with assms Split_Tasks show ?thesis
    by (auto simp: complete_def last_task_cases all_tasks_def split: sum.splits)
qed

section \<open>Properties\<close>

text \<open>One task of a read: its bytes of the file go to its part of the buffer.\<close>

definition read_task :: "file_content \<Rightarrow> ptr \<Rightarrow> io_task \<Rightarrow> memory \<Rightarrow> memory" where
  "read_task file buf t m = write_bytes m (buf + tk_devPtr_offset t) (map file (piece_bytes (task_piece t)))"

lemma read_task_copy_piece:
  assumes "well_cut fo sz dpo b ts" "t \<in> set ts"
  shows "read_task file buf t = copy_piece file (buf + dpo) fo (task_piece t)"
proof -
  have "buf + tk_devPtr_offset t = buf + dpo + (fst (task_piece t) - fo)"
    using assms by (simp add: well_cut_def task_piece_def)
  then show ?thesis by (intro ext) (simp only: read_task_def copy_piece_def)
qed

text \<open>
  C4. A parallel read of a non-empty range that does not wrap: the call succeeds, and whatever
  order the pool runs its tasks in, the buffer ends up as after one read of the whole range. If
  every task moves all of its bytes, the future yields the requested size and the recorder, when
  there is one, is finished once with that size.
\<close>

theorem parallel_io_any_order:
  assumes "admissible fo sz task_size" "ready reg opts"
  shows "\<exists>s. parallel_io reg page sz fo task_size dpo opts = Inr (Some s) \<and>
     (\<forall>order m. mset order = mset (all_tasks s) \<longrightarrow>
        fold (read_task file buf) order m =
        write_bytes m (buf + dpo) (map file [unat fo ..< unat fo + unat sz])) \<and>
     complete (\<lambda>t. Inr (tk_size t)) rec s = (Inr sz, if rec then [Finish_Bytes sz] else [])"
proof -
  let ?cfg = "(reg, page, dpo, opts)"
  obtain s where s: "parallel_io reg page sz fo task_size dpo opts = Inr (Some s)"
    "well_cut fo sz dpo (task_bound page opts task_size) (all_tasks s)"
    using parallel_io_well_cut [of task_size fo sz reg opts page dpo] assms by (auto simp: admissible_def)
  then have pieces: "pio_valid ?cfg" "pio_pieces ?cfg fo sz task_size = Some (map task_piece (all_tasks s))"
    using assms(2) by (simp_all add: pio_valid_def pio_pieces_def)
  have mem: "fold (read_task file buf) order m = write_bytes m (buf + dpo) (map file [unat fo ..< unat fo + unat sz])"
    if "mset order = mset (all_tasks s)" for order m
  proof -
    have "fold (read_task file buf) order m = fold (copy_piece file (buf + dpo) fo) (map task_piece order) m"
      unfolding fold_map by (rule fold_cong)
        (use read_task_copy_piece [OF s(2)] mset_eq_setD [OF that] in simp_all)
    also have "\<dots> = copy_piece file (buf + dpo) fo (fo, sz) m"
      using that by (intro pio.any_order_same_memory [OF pieces(1) assms(1) pieces(2)]) simp
    finally show ?thesis by (simp add: copy_piece_def piece_bytes_def)
  qed
  have "sum_list (map tk_size (all_tasks s)) = sz"
    using pio.sizes_add_up_word [OF pieces(1) assms(1) pieces(2)] by (simp add: task_piece_def comp_def)
  then have "complete (\<lambda>t. Inr (tk_size t)) rec s = (Inr sz, if rec then [Finish_Bytes sz] else [])"
    by (intro complete_ok) simp_all
  with s(1) mem show ?thesis by blast
qed

definition example_pio_options :: ParallelIoOptions where
  "example_pio_options = \<lparr>pio_thread_pool = 1, pio_call_idx = 0, pio_first_task_size = Some 96, pio_recorder = True\<rparr>"

theorem parallel_io_any_order_witness:
  "admissible 4000 10000 4096 \<and>
   (\<exists>s. parallel_io empty_registry 4096 10000 4000 4096 0 example_pio_options = Inr (Some s) \<and>
        map tk_size (all_tasks s) = [96, 4096, 4096, 1712] \<and>
        complete (\<lambda>t. Inr (tk_size t)) True s = (Inr 10000, [Finish_Bytes 10000]))"
proof -
  have adm: "admissible 4000 10000 4096" "ready empty_registry example_pio_options"
    by (simp_all add: admissible_def fits_def ready_def empty_registry_def example_pio_options_def)
  obtain s where s: "parallel_io empty_registry 4096 10000 4000 4096 0 example_pio_options = Inr (Some s)"
    "complete (\<lambda>t. Inr (tk_size t)) True s = (Inr 10000, [Finish_Bytes 10000])"
    using parallel_io_any_order [OF adm, of 4096 0 "\<lambda>_. 0" 0 True] unfolding if_True by blast
  have "map_option (map tk_size \<circ> all_tasks)
     (case parallel_io empty_registry 4096 10000 4000 4096 0 example_pio_options of Inl _ \<Rightarrow> None | Inr x \<Rightarrow> x) =
     Some [96, 4096, 4096, 1712]"
    by code_simp
  with s adm(1) show ?thesis by auto
qed

text \<open>
  C35. Failure of a part: if the operation throws in any task, the future throws the failure of the
  waiting task itself if it has one, otherwise the first one in submission order, and the recorder
  is told of a failure, once; with or without failures every earlier future has been waited for.
\<close>

theorem parallel_io_failure:
  assumes "first_failure (map op (last (all_tasks s) # butlast (all_tasks s))) = Some e"
  shows "complete op rec s = (Inl e, if rec then [Finish_Failure] else []) \<and>
         (\<forall>own tasks t. t \<in> set (fst (snd (last_task rec own tasks))) \<longrightarrow> \<not> fut_valid t)"
proof -
  have "\<not> fut_valid t" if "t \<in> set (fst (snd (last_task rec own tasks)))" for own tasks t
    using that by (auto simp: last_task_cases consume_def drain_invalid split: sum.splits)
  then show ?thesis using complete_fail [OF assms] by blast
qed

theorem parallel_io_failure_witness:
  "complete (\<lambda>t. if tk_file_offset t = 0 then Inr 4 else if tk_file_offset t = 4 then Inl Runtime_Error else Inr 2) True
     (Split_Tasks [\<lparr>tk_size = 4, tk_file_offset = 0, tk_devPtr_offset = 0\<rparr>,
                   \<lparr>tk_size = 4, tk_file_offset = 4, tk_devPtr_offset = 4\<rparr>]
                  \<lparr>tk_size = 2, tk_file_offset = 8, tk_devPtr_offset = 8\<rparr>) = (Inl Runtime_Error, [Finish_Failure])"
  using parallel_io_failure [of "\<lambda>t. if tk_file_offset t = 0 then Inr 4 else if tk_file_offset t = 4 then Inl Runtime_Error else Inr 2"
    "Split_Tasks [\<lparr>tk_size = 4, tk_file_offset = 0, tk_devPtr_offset = 0\<rparr>,
                   \<lparr>tk_size = 4, tk_file_offset = 4, tk_devPtr_offset = 4\<rparr>]
                  \<lparr>tk_size = 2, tk_file_offset = 8, tk_devPtr_offset = 8\<rparr>" Runtime_Error True]
  by (simp add: all_tasks_def)

end
