(* ===== verification/Align.thy ===== *)
theory Align
  imports Prelude
begin

text \<open>
  The alignment helpers of \<open>cpp/src/detail/utils.cpp\<close> on 64-bit words: rounding a size or an
  address up or down to a power of two, and the alignment test. Every helper first checks that the
  alignment is a power of two and throws \<open>CUfileException\<close> otherwise. The lemmas give each result
  as a quotient of natural numbers, characterise the results as the nearest aligned values, and say
  when rounding up wraps around to zero.
\<close>

unbundle bit_operations_syntax

section \<open>The helpers\<close>

definition is_power_of_2 :: "size_t \<Rightarrow> bool" where
  "is_power_of_2 alignment \<longleftrightarrow> alignment > 0 \<and> alignment AND (alignment - 1) = 0"

definition align_up :: "size_t \<Rightarrow> size_t \<Rightarrow> size_t res" where
  "align_up value alignment =
     bind_res (kvikio_expect (is_power_of_2 alignment) CUfile_Exception)
       (\<lambda>_. Inr ((value + alignment - 1) AND NOT (alignment - 1)))"

definition align_up_ptr :: "ptr \<Rightarrow> size_t \<Rightarrow> ptr res" where
  "align_up_ptr addr alignment =
     bind_res (kvikio_expect (is_power_of_2 alignment) CUfile_Exception)
       (\<lambda>_. Inr ((addr + alignment - 1) AND NOT (alignment - 1)))"

definition align_down :: "size_t \<Rightarrow> size_t \<Rightarrow> size_t res" where
  "align_down value alignment =
     bind_res (kvikio_expect (is_power_of_2 alignment) CUfile_Exception)
       (\<lambda>_. Inr (value AND NOT (alignment - 1)))"

definition align_down_ptr :: "ptr \<Rightarrow> size_t \<Rightarrow> ptr res" where
  "align_down_ptr addr alignment =
     bind_res (kvikio_expect (is_power_of_2 alignment) CUfile_Exception)
       (\<lambda>_. Inr (addr AND NOT (alignment - 1)))"

definition is_aligned :: "size_t \<Rightarrow> size_t \<Rightarrow> bool res" where
  "is_aligned value alignment =
     bind_res (kvikio_expect (is_power_of_2 alignment) CUfile_Exception)
       (\<lambda>_. Inr (value AND (alignment - 1) = 0))"

definition is_aligned_ptr :: "ptr \<Rightarrow> size_t \<Rightarrow> bool res" where
  "is_aligned_ptr addr alignment =
     bind_res (kvikio_expect (is_power_of_2 alignment) CUfile_Exception)
       (\<lambda>_. Inr (addr AND (alignment - 1) = 0))"

section \<open>Powers of two\<close>

lemma and_pred_0_power_of_2_nat:
  "0 < n \<Longrightarrow> n AND (n - 1) = (0::nat) \<Longrightarrow> \<exists>k. n = 2 ^ k"
proof (induction n rule: less_induct)
  case (less n)
  show ?case
  proof (cases "even n")
    case True
    then obtain m where m: "n = 2 * m" by (elim evenE)
    with less.prems have m0: "0 < m" by simp
    then have pred: "2 * m - 1 = 2 * (m - 1) + 1" by simp
    have "n AND (n - 1) = 2 * (m AND (m - 1))"
      unfolding m pred by (subst and_nat_rec) simp
    with less.prems m m0 less.IH [of m] obtain k where "m = 2 ^ k" by auto
    with m have "n = 2 ^ Suc k" by simp
    then show ?thesis by blast
  next
    case False
    then obtain m where m: "n = 2 * m + 1" by (elim oddE)
    have "n AND (n - 1) = 2 * m"
      unfolding m by (subst and_nat_rec) simp
    with less.prems m have "n = 2 ^ 0" by simp
    then show ?thesis by blast
  qed
qed

lemma is_power_of_2_D:
  assumes "is_power_of_2 a"
  obtains k where "k < 64" "a = 2 ^ k" "unat a = 2 ^ k" "a - 1 = mask k"
proof -
  from assms have pos: "0 < unat a" and z: "unat (a AND (a - 1)) = 0"
    by (simp_all add: is_power_of_2_def word_gt_0 unat_gt_0)
  have one: "(1::size_t) \<le> a" using pos by (simp add: word_le_nat_alt)
  have "unat a AND (unat a - 1) = 0"
    using z one by (simp add: unsigned_and_eq unat_sub)
  with pos obtain k where k: "unat a = 2 ^ k"
    using and_pred_0_power_of_2_nat by blast
  have "(2::nat) ^ k < 2 ^ 64" using k size_t_range [of a] by simp
  then have k64: "k < 64" by (rule power_less_imp_less_exp [rotated]) simp
  have a: "a = 2 ^ k"
    using arg_cong [OF k, of "of_nat :: nat \<Rightarrow> size_t"] by simp
  then have "a - 1 = mask k" by (simp add: mask_eq_exp_minus_1)
  with k64 a k show ?thesis by (rule that)
qed

lemma is_power_of_2_exp: "k < 64 \<Longrightarrow> is_power_of_2 (2 ^ k)"
proof -
  assume k: "k < 64"
  have "(2 ^ k :: size_t) AND (2 ^ k - 1) = take_bit k (2 ^ k)"
    by (simp add: take_bit_eq_mask mask_eq_exp_minus_1)
  also have "\<dots> = 0" by (simp add: take_bit_eq_0_iff)
  finally show ?thesis
    using k by (simp add: is_power_of_2_def word_gt_0)
qed

lemma unat_and_mask_64: "unat ((v::size_t) AND mask k) = unat v mod 2 ^ k"
  by (simp add: unsigned_take_bit_eq take_bit_nat_def flip: take_bit_eq_mask)

lemma unat_and_not_mask_64: "unat ((v::size_t) AND NOT (mask k)) = unat v - unat v mod 2 ^ k"
proof -
  have "v = (v AND mask k) + (v AND NOT (mask k))"
    using word_plus_and_or [of "v AND mask k" "v AND NOT (mask k)"]
    by (simp add: ac_simps bit.conj_disj_distrib flip: bit.conj_disj_distrib)
  then have "v AND NOT (mask k) = v - (v AND mask k)"
    by (metis add_diff_cancel_left')
  moreover have "v AND mask k \<le> v" by (rule word_and_le2)
  ultimately show ?thesis by (simp add: unat_sub unat_and_mask_64)
qed

section \<open>The helpers as natural-number rounding\<close>

lemma align_down_eq:
  assumes "is_power_of_2 a"
  obtains w where "align_down v a = Inr w" "unat w = unat v div unat a * unat a"
proof -
  from assms obtain k where k: "a - 1 = mask k" "unat a = 2 ^ k"
    by (rule is_power_of_2_D)
  have "align_down v a = Inr (v AND NOT (mask k))"
    using assms k by (simp add: align_down_def)
  moreover have "unat (v AND NOT (mask k)) = unat v div unat a * unat a"
    by (simp add: unat_and_not_mask_64 k minus_mod_eq_div_mult)
  ultimately show ?thesis by (rule that)
qed

lemma align_up_eq:
  assumes "is_power_of_2 a" and "unat v + unat a \<le> 2 ^ 64"
  obtains w where "align_up v a = Inr w" "unat w = (unat v + unat a - 1) div unat a * unat a"
proof -
  from assms(1) obtain k where k: "a - 1 = mask k" "unat a = 2 ^ k" "1 \<le> a"
    by (metis is_power_of_2_D is_power_of_2_def word_gt_0 word_less_1 linorder_not_less)
  have sum: "unat (v + (a - 1)) = unat v + unat a - 1"
    using assms(2) k(3) by (subst unat_plus_no_wrap) (simp_all add: unat_minus_no_wrap word_le_nat_alt)
  have "align_up v a = Inr ((v + (a - 1)) AND NOT (mask k))"
    using assms(1) by (simp only: align_up_def k(1) bind_expect if_True add_diff_eq [symmetric])
  moreover have "unat ((v + (a - 1)) AND NOT (mask k)) = (unat v + unat a - 1) div unat a * unat a"
    by (simp add: unat_and_not_mask_64 sum minus_mod_eq_div_mult k(2))
  ultimately show ?thesis by (rule that)
qed

lemma is_aligned_eq:
  "is_power_of_2 a \<Longrightarrow> is_aligned v a = Inr (unat a dvd unat v)"
proof -
  assume a: "is_power_of_2 a"
  then obtain k where k: "a - 1 = mask k" "unat a = 2 ^ k" by (rule is_power_of_2_D)
  with a show ?thesis
    by (simp add: is_aligned_def and_mask_dvd_nat)
qed

lemma align_ptr_eq:
  "align_up_ptr = align_up" "align_down_ptr = align_down" "is_aligned_ptr = is_aligned"
  by (simp_all add: fun_eq_iff align_up_ptr_def align_up_def align_down_ptr_def align_down_def
      is_aligned_ptr_def is_aligned_def)

lemma align_not_power_of_2:
  assumes "\<not> is_power_of_2 a"
  shows "align_up v a = Inl CUfile_Exception" "align_down v a = Inl CUfile_Exception"
    "is_aligned v a = Inl CUfile_Exception"
  using assms by (simp_all add: align_up_def align_down_def is_aligned_def)

text \<open>Near the top of the address space rounding up leaves the 64-bit range and yields zero.\<close>

lemma align_up_wraps:
  assumes "is_power_of_2 a" and "2 ^ 64 < unat v + unat a"
  shows "align_up v a = Inr 0"
proof -
  from assms(1) obtain k where k: "a - 1 = mask k" "unat a = 2 ^ k" "1 \<le> a"
    by (metis is_power_of_2_D is_power_of_2_def word_gt_0 word_less_1 linorder_not_less)
  let ?s = "v + (a - 1)"
  have "unat v + unat (a - 1) \<ge> 2 ^ 64"
    using assms(2) k(3) by (simp add: unat_minus_no_wrap word_le_nat_alt)
  then have "unat ?s = unat v + unat (a - 1) - 2 ^ 64"
    using size_t_range [of v] by (simp add: unat_plus_if')
  also have "\<dots> < 2 ^ k"
  proof -
    have "unat (a - 1) < 2 ^ k"
      using k(2,3) by (simp add: unat_minus_no_wrap word_le_nat_alt)
    then show ?thesis using size_t_range [of v] by linarith
  qed
  finally have "unat (?s AND NOT (mask k)) = 0"
    by (simp add: unat_and_not_mask_64)
  then have "?s AND NOT (mask k) = 0" by (simp add: unat_eq_0)
  moreover have "v + a - 1 = ?s" by simp
  ultimately show ?thesis
    using assms(1) by (simp only: align_up_def k(1) bind_expect if_True)
qed

lemma div_mult_least_multiple:
  fixes v a u :: nat
  assumes "0 < a" "a dvd u" "v \<le> u"
  shows "(v + a - 1) div a * a \<le> u"
proof -
  from assms(2) obtain q where q: "u = a * q" by (elim dvdE)
  have "(v + a - 1) div a < Suc q"
    using assms(1,3) by (simp add: q less_mult_imp_div_less div_less_iff_less_mult algebra_simps)
  then show ?thesis by (simp add: q mult.commute mult_le_mono2)
qed

lemma div_mult_upper:
  "0 < a \<Longrightarrow> v \<le> (v + a - 1) div a * (a::nat)"
  using div_mult_mod_eq [of "v + a - 1" a] mod_less_divisor [of a "v + a - 1"] by linarith

section \<open>Nearest aligned values\<close>

lemma align_up_least_aligned:
  assumes "is_power_of_2 a" and "unat v + unat a \<le> 2 ^ 64"
  shows "\<exists>w. align_up v a = Inr w \<and> is_aligned w a = Inr True \<and> v \<le> w \<and>
    (\<forall>u. is_aligned u a = Inr True \<and> v \<le> u \<longrightarrow> w \<le> u)"
proof -
  obtain w where w: "align_up v a = Inr w" "unat w = (unat v + unat a - 1) div unat a * unat a"
    using assms by (rule align_up_eq)
  have pos: "0 < unat a"
    using assms(1) by (simp add: is_power_of_2_def word_gt_0 unat_gt_0)
  have "w \<le> u" if "is_aligned u a = Inr True" "v \<le> u" for u
    using that pos assms(1) div_mult_least_multiple [of "unat a" "unat u" "unat v"]
    by (simp add: word_le_nat_alt w(2) is_aligned_eq)
  moreover have "v \<le> w"
    unfolding word_le_nat_alt w(2) using pos by (rule div_mult_upper)
  moreover have "is_aligned w a = Inr True"
    using assms(1) by (simp add: is_aligned_eq w(2))
  ultimately show ?thesis using w(1) by blast
qed

lemma align_down_greatest_aligned:
  assumes "is_power_of_2 a"
  shows "\<exists>w. align_down v a = Inr w \<and> is_aligned w a = Inr True \<and> w \<le> v \<and> unat v - unat w < unat a"
proof -
  obtain w where w: "align_down v a = Inr w" "unat w = unat v div unat a * unat a"
    using assms by (rule align_down_eq)
  have "0 < unat a"
    using assms by (simp add: is_power_of_2_def word_gt_0 unat_gt_0)
  then have "unat v - unat w < unat a"
    by (simp add: w(2) minus_div_mult_eq_mod)
  with w assms show ?thesis
    by (auto simp: is_aligned_eq word_le_nat_alt)
qed

lemma aligned_below_align_down:
  assumes "is_power_of_2 a" "is_aligned u a = Inr True" "u \<le> v" "align_down v a = Inr w"
  shows "u \<le> w"
proof -
  obtain w' where w': "align_down v a = Inr w'" "unat w' = unat v div unat a * unat a"
    using assms(1) by (rule align_down_eq)
  from assms(1,2) have "unat a dvd unat u" by (simp add: is_aligned_eq)
  then obtain q where q: "unat u = unat a * q" by (elim dvdE)
  have "0 < unat a"
    using assms(1) by (simp add: is_power_of_2_def word_gt_0 unat_gt_0)
  with assms(3) have "q \<le> unat v div unat a"
    by (simp add: word_le_nat_alt q less_eq_div_iff_mult_less_eq mult.commute)
  with w' assms(4) q show ?thesis by (simp add: word_le_nat_alt mult.commute)
qed

text \<open>
  For a power-of-two alignment, and a value that does not wrap when rounded up,
  \<open>align_down\<close> returns the greatest aligned value not above it and \<open>align_up\<close> the least aligned
  value not below it.
\<close>

theorem align_nearest:
  assumes "is_power_of_2 a" and "unat v + unat a \<le> 2 ^ 64"
  shows "\<exists>lo hi. align_down v a = Inr lo \<and> align_up v a = Inr hi \<and>
           is_aligned lo a = Inr True \<and> is_aligned hi a = Inr True \<and> lo \<le> v \<and> v \<le> hi \<and>
           (\<forall>u. is_aligned u a = Inr True \<longrightarrow> (u \<le> v \<longrightarrow> u \<le> lo) \<and> (v \<le> u \<longrightarrow> hi \<le> u))"
  using align_up_least_aligned [OF assms] align_down_greatest_aligned [OF assms(1), of v]
    aligned_below_align_down [OF assms(1)] by blast

lemma is_power_of_2_4096: "is_power_of_2 4096"
  by (simp add: is_power_of_2_def)

theorem align_nearest_witness:
  "is_power_of_2 4096 \<and> align_down 5000 4096 = Inr 4096 \<and> align_up 5000 4096 = Inr 8192 \<and>
   (\<exists>lo hi. align_down 5000 4096 = Inr lo \<and> align_up 5000 4096 = Inr hi \<and>
      is_aligned lo 4096 = Inr True \<and> is_aligned hi 4096 = Inr True \<and> lo \<le> 5000 \<and> 5000 \<le> hi)"
  using align_nearest [of 4096 5000] is_power_of_2_4096
  by (auto simp: align_down_def align_up_def)

end
