(* ===== verification/Bounce_Buffer.thy ===== *)
theory Bounce_Buffer
  imports Align
begin

text \<open>
  The pool of bounce buffers, \<open>cpp/include/kvikio/bounce_buffer.hpp\<close> and
  \<open>cpp/src/bounce_buffer.cpp\<close>: the three allocators, the pool with its stack of free buffers, and
  the owning \<open>Buffer\<close> handle. The C library and the CUDA driver are parameters that work on a heap
  of an arbitrary type; \<open>live\<close> reads off a heap which blocks are allocated and how large they are.
  The configured buffer size (\<open>defaults::bounce_buffer_size()\<close>) is an argument of each operation,
  since it may change between them.
\<close>

section \<open>Allocators\<close>

record 'h allocator =
  al_allocate :: "size_t \<Rightarrow> 'h \<Rightarrow> ptr res \<times> 'h"
  al_deallocate :: "ptr \<Rightarrow> size_t \<Rightarrow> 'h \<Rightarrow> unit res \<times> 'h"

text \<open>
  The functions of the C library and of the CUDA driver that the allocators call. A driver call
  returns whether it succeeded.
\<close>

record 'h host_api =
  aligned_alloc :: "size_t \<Rightarrow> size_t \<Rightarrow> 'h \<Rightarrow> ptr \<times> 'h"
  host_free :: "ptr \<Rightarrow> 'h \<Rightarrow> 'h"
  MemHostAlloc :: "size_t \<Rightarrow> 'h \<Rightarrow> (bool \<times> ptr) \<times> 'h"
  MemFreeHost :: "ptr \<Rightarrow> 'h \<Rightarrow> bool \<times> 'h"
  MemHostRegister :: "ptr \<Rightarrow> size_t \<Rightarrow> 'h \<Rightarrow> bool \<times> 'h"
  MemHostUnregister :: "ptr \<Rightarrow> 'h \<Rightarrow> bool \<times> 'h"

definition page_aligned_allocate :: "'h host_api \<Rightarrow> size_t \<Rightarrow> size_t \<Rightarrow> 'h \<Rightarrow> ptr res \<times> 'h" where
  "page_aligned_allocate api page_size sz h =
     (case align_up sz page_size of
        Inl e \<Rightarrow> (Inl e, h)
      | Inr aligned_size \<Rightarrow>
          (let (buffer, h1) = aligned_alloc api page_size aligned_size h
           in (bind_res (kvikio_expect (buffer \<noteq> 0) CUfile_Exception) (\<lambda>_. Inr buffer), h1)))"

definition page_aligned_deallocate :: "'h host_api \<Rightarrow> ptr \<Rightarrow> size_t \<Rightarrow> 'h \<Rightarrow> unit res \<times> 'h" where
  "page_aligned_deallocate api buffer sz h = (Inr (), host_free api buffer h)"

definition pinned_allocate :: "'h host_api \<Rightarrow> size_t \<Rightarrow> 'h \<Rightarrow> ptr res \<times> 'h" where
  "pinned_allocate api sz h =
     (let ((success, buffer), h1) = MemHostAlloc api sz h
      in (bind_res (kvikio_expect success CUfile_Exception) (\<lambda>_. Inr buffer), h1))"

definition pinned_deallocate :: "'h host_api \<Rightarrow> ptr \<Rightarrow> size_t \<Rightarrow> 'h \<Rightarrow> unit res \<times> 'h" where
  "pinned_deallocate api buffer sz h =
     (let (success, h1) = MemFreeHost api buffer h in (kvikio_expect success CUfile_Exception, h1))"

definition page_aligned_pinned_allocate :: "'h host_api \<Rightarrow> size_t \<Rightarrow> size_t \<Rightarrow> 'h \<Rightarrow> ptr res \<times> 'h" where
  "page_aligned_pinned_allocate api page_size sz h =
     (case align_up sz page_size of
        Inl e \<Rightarrow> (Inl e, h)
      | Inr aligned_size \<Rightarrow>
          (let (buffer, h1) = aligned_alloc api page_size aligned_size h
           in if buffer = 0 then (Inl CUfile_Exception, h1)
              else let (success, h2) = MemHostRegister api buffer aligned_size h1
                   in (bind_res (kvikio_expect success CUfile_Exception) (\<lambda>_. Inr buffer), h2)))"

definition page_aligned_pinned_deallocate :: "'h host_api \<Rightarrow> ptr \<Rightarrow> size_t \<Rightarrow> 'h \<Rightarrow> unit res \<times> 'h" where
  "page_aligned_pinned_deallocate api buffer sz h =
     (let (success, h1) = MemHostUnregister api buffer h
      in if \<not> success then (Inl CUfile_Exception, h1) else (Inr (), host_free api buffer h1))"

definition PageAlignedAllocator :: "'h host_api \<Rightarrow> size_t \<Rightarrow> 'h allocator" where
  "PageAlignedAllocator api page_size =
     \<lparr>al_allocate = page_aligned_allocate api page_size, al_deallocate = page_aligned_deallocate api\<rparr>"

definition CudaPinnedAllocator :: "'h host_api \<Rightarrow> 'h allocator" where
  "CudaPinnedAllocator api = \<lparr>al_allocate = pinned_allocate api, al_deallocate = pinned_deallocate api\<rparr>"

definition CudaPageAlignedPinnedAllocator :: "'h host_api \<Rightarrow> size_t \<Rightarrow> 'h allocator" where
  "CudaPageAlignedPinnedAllocator api page_size =
     \<lparr>al_allocate = page_aligned_pinned_allocate api page_size,
      al_deallocate = page_aligned_pinned_deallocate api\<rparr>"

section \<open>The pool\<close>

text \<open>The stack of free buffers has its top first.\<close>

record BounceBufferPool =
  free_buffers :: "ptr list"
  buffer_size :: size_t

record Buffer =
  bf_buffer :: ptr
  bf_size :: size_t

text \<open>
  \<open>_deallocate_buffers\<close>: from the top down. When a deallocation throws, the loop is left and what
  remains of the detached stack is lost.
\<close>

fun deallocate_buffers :: "'h allocator \<Rightarrow> ptr list \<Rightarrow> size_t \<Rightarrow> 'h \<Rightarrow> unit res \<times> 'h" where
  "deallocate_buffers al [] sz h = (Inr (), h)"
| "deallocate_buffers al (b # bs) sz h =
     (case al_deallocate al b sz h of
        (Inl e, h1) \<Rightarrow> (Inl e, h1)
      | (Inr _, h1) \<Rightarrow> deallocate_buffers al bs sz h1)"

definition detach_free_buffers :: "BounceBufferPool \<Rightarrow> (ptr list \<times> size_t) \<times> BounceBufferPool" where
  "detach_free_buffers pool = ((free_buffers pool, buffer_size pool), pool\<lparr>free_buffers := []\<rparr>)"

definition ensure_buffer_size :: "size_t \<Rightarrow> BounceBufferPool \<Rightarrow> (ptr list \<times> size_t) \<times> BounceBufferPool" where
  "ensure_buffer_size bounce_buffer_size pool =
     (if buffer_size pool = bounce_buffer_size then (([], 0), pool)
      else let (stale, pool1) = detach_free_buffers pool
           in (stale, pool1\<lparr>buffer_size := bounce_buffer_size\<rparr>))"

definition pool_get ::
  "'h allocator \<Rightarrow> size_t \<Rightarrow> BounceBufferPool \<Rightarrow> 'h \<Rightarrow> Buffer res \<times> BounceBufferPool \<times> 'h" where
  "pool_get al bounce_buffer_size pool h =
     (let ((stale_buffers, stale_size), pool1) = ensure_buffer_size bounce_buffer_size pool;
          sz = buffer_size pool1;
          (reused_buffer, pool2) =
            (case free_buffers pool1 of [] \<Rightarrow> (0, pool1) | b # bs \<Rightarrow> (b, pool1\<lparr>free_buffers := bs\<rparr>))
      in case deallocate_buffers al stale_buffers stale_size h of
           (Inl e, h1) \<Rightarrow> (Inl e, pool2, h1)
         | (Inr _, h1) \<Rightarrow>
             if reused_buffer \<noteq> 0 then (Inr \<lparr>bf_buffer = reused_buffer, bf_size = sz\<rparr>, pool2, h1)
             else (case al_allocate al sz h1 of
                     (Inl e, h2) \<Rightarrow> (Inl e, pool2, h2)
                   | (Inr buffer, h2) \<Rightarrow> (Inr \<lparr>bf_buffer = buffer, bf_size = sz\<rparr>, pool2, h2)))"

text \<open>\<open>put\<close> is \<open>noexcept\<close>: what a deallocation throws is logged and dropped.\<close>

definition pool_put ::
  "'h allocator \<Rightarrow> size_t \<Rightarrow> ptr \<Rightarrow> size_t \<Rightarrow> BounceBufferPool \<Rightarrow> 'h \<Rightarrow> BounceBufferPool \<times> 'h" where
  "pool_put al bounce_buffer_size buffer sz pool h =
     (let ((stale_buffers, stale_size), pool1) = ensure_buffer_size bounce_buffer_size pool;
          (is_incoming_stale, pool2) =
            (if sz = buffer_size pool1 then (False, pool1\<lparr>free_buffers := buffer # free_buffers pool1\<rparr>)
             else (True, pool1))
      in case deallocate_buffers al stale_buffers stale_size h of
           (Inl e, h1) \<Rightarrow> (pool2, h1)
         | (Inr _, h1) \<Rightarrow>
             if is_incoming_stale then (pool2, snd (al_deallocate al buffer sz h1)) else (pool2, h1))"

definition pool_clear ::
  "'h allocator \<Rightarrow> BounceBufferPool \<Rightarrow> 'h \<Rightarrow> size_t res \<times> BounceBufferPool \<times> 'h" where
  "pool_clear al pool h =
     (let ((stale_buffers, stale_size), pool1) = detach_free_buffers pool;
          total_stale_size = of_nat (length stale_buffers) * stale_size
      in case deallocate_buffers al stale_buffers stale_size h of
           (Inl e, h1) \<Rightarrow> (Inl e, pool1, h1)
         | (Inr _, h1) \<Rightarrow> (Inr total_stale_size, pool1, h1))"

definition num_free_buffers :: "BounceBufferPool \<Rightarrow> nat" where
  "num_free_buffers pool = length (free_buffers pool)"

subsection \<open>The owning handle\<close>

text \<open>The moved-from handle owns nothing.\<close>

definition moved_from :: Buffer where
  "moved_from = \<lparr>bf_buffer = 0, bf_size = 0\<rparr>"

definition buffer_move :: "Buffer \<Rightarrow> Buffer \<times> Buffer" where
  "buffer_move other = (other, moved_from)"

definition buffer_destroy ::
  "'h allocator \<Rightarrow> size_t \<Rightarrow> Buffer \<Rightarrow> BounceBufferPool \<Rightarrow> 'h \<Rightarrow> BounceBufferPool \<times> 'h" where
  "buffer_destroy al bounce_buffer_size b pool h =
     (if bf_buffer b \<noteq> 0 then pool_put al bounce_buffer_size (bf_buffer b) (bf_size b) pool h else (pool, h))"

text \<open>Move assignment between two different handles, returning the new target and source.\<close>

definition buffer_move_assign ::
  "'h allocator \<Rightarrow> size_t \<Rightarrow> Buffer \<Rightarrow> Buffer \<Rightarrow> BounceBufferPool \<Rightarrow> 'h \<Rightarrow>
   (Buffer \<times> Buffer) \<times> BounceBufferPool \<times> 'h" where
  "buffer_move_assign al bounce_buffer_size this other pool h =
     (let (pool1, h1) = (if bf_buffer this \<noteq> 0
                         then pool_put al bounce_buffer_size (bf_buffer this) (bf_size this) pool h
                         else (pool, h))
      in ((other, moved_from), pool1, h1))"

definition buffer_get_offset :: "Buffer \<Rightarrow> 64 word \<Rightarrow> ptr" where
  "buffer_get_offset b offset = bf_buffer b + offset"

section \<open>The pool neither leaks nor hands a buffer out twice\<close>

text \<open>
  What the pool relies on: allocation returns a fresh non-null block of the requested size or
  throws and allocates nothing, and deallocation of a live block succeeds and releases it.
\<close>

definition allocator_ok :: "'h allocator \<Rightarrow> ('h \<Rightarrow> ptr \<rightharpoonup> size_t) \<Rightarrow> bool" where
  "allocator_ok al live \<longleftrightarrow>
     (\<forall>sz h. case al_allocate al sz h of
        (Inr p, h') \<Rightarrow> p \<noteq> 0 \<and> live h p = None \<and> live h' = (live h)(p \<mapsto> sz)
      | (Inl _, h') \<Rightarrow> live h' = live h) \<and>
     (\<forall>p sz h. live h p = Some sz \<longrightarrow>
        (\<exists>h'. al_deallocate al p sz h = (Inr (), h') \<and> live h' = (live h)(p := None)))"

text \<open>
  \<open>handed\<close> maps the buffers that callers hold to their sizes. The live blocks are exactly those
  and the free ones, which have the pool's size; no block is both.
\<close>

definition pool_inv :: "('h \<Rightarrow> ptr \<rightharpoonup> size_t) \<Rightarrow> (ptr \<rightharpoonup> size_t) \<Rightarrow> BounceBufferPool \<Rightarrow> 'h \<Rightarrow> bool" where
  "pool_inv live handed pool h \<longleftrightarrow>
     distinct (free_buffers pool) \<and> 0 \<notin> set (free_buffers pool) \<and> handed 0 = None \<and>
     (\<forall>p \<in> set (free_buffers pool). handed p = None) \<and>
     live h = (\<lambda>p. if p \<in> set (free_buffers pool) then Some (buffer_size pool) else handed p)"

lemma allocator_okD:
  assumes "allocator_ok al live"
  shows allocate_Inr: "al_allocate al sz h = (Inr p, h') \<Longrightarrow>
          p \<noteq> 0 \<and> live h p = None \<and> live h' = (live h)(p \<mapsto> sz)"
    and allocate_Inl: "al_allocate al sz h = (Inl e, h') \<Longrightarrow> live h' = live h"
    and deallocate_live: "live h p = Some sz \<Longrightarrow>
          \<exists>h'. al_deallocate al p sz h = (Inr (), h') \<and> live h' = (live h)(p := None)"
proof -
  have "case al_allocate al sz h of
        (Inr p, h') \<Rightarrow> p \<noteq> 0 \<and> live h p = None \<and> live h' = (live h)(p \<mapsto> sz)
      | (Inl _, h') \<Rightarrow> live h' = live h"
    using assms unfolding allocator_ok_def by (elim conjE allE)
  then show "al_allocate al sz h = (Inr p, h') \<Longrightarrow> p \<noteq> 0 \<and> live h p = None \<and> live h' = (live h)(p \<mapsto> sz)"
    and "al_allocate al sz h = (Inl e, h') \<Longrightarrow> live h' = live h" by simp_all
  show "live h p = Some sz \<Longrightarrow> \<exists>h'. al_deallocate al p sz h = (Inr (), h') \<and> live h' = (live h)(p := None)"
    using assms unfolding allocator_ok_def by blast
qed

lemma deallocate_buffers_ok:
  assumes "allocator_ok al live" "distinct bs" "\<And>b. b \<in> set bs \<Longrightarrow> live h b = Some sz"
  shows "\<exists>h'. deallocate_buffers al bs sz h = (Inr (), h') \<and>
              live h' = (\<lambda>p. if p \<in> set bs then None else live h p)"
  using assms(2,3)
proof (induction bs arbitrary: h)
  case Nil
  then show ?case by simp
next
  case (Cons b bs)
  obtain h1 where h1: "al_deallocate al b sz h = (Inr (), h1)" "live h1 = (live h)(b := None)"
    using deallocate_live [OF assms(1)] Cons.prems(2) [of b] by (metis list.set_intros(1))
  have "live h1 b' = Some sz" if "b' \<in> set bs" for b'
    using Cons.prems that by (auto simp: h1(2))
  with Cons.IH [of h1] Cons.prems(1) obtain h2 where
    "deallocate_buffers al bs sz h1 = (Inr (), h2)" "live h2 = (\<lambda>p. if p \<in> set bs then None else live h1 p)"
    by auto
  with h1 show ?case by (auto simp: fun_eq_iff)
qed

text \<open>After the size check the pool has the configured size and the detached buffers are gone.\<close>

lemma ensure_buffer_size_ok:
  assumes "allocator_ok al live" "pool_inv live handed pool h"
    and "ensure_buffer_size cfg pool = ((stale, stale_size), pool1)"
  shows "buffer_size pool1 = cfg \<and>
    (\<exists>h1. deallocate_buffers al stale stale_size h = (Inr (), h1) \<and> pool_inv live handed pool1 h1)"
proof (cases "buffer_size pool = cfg")
  case True
  with assms show ?thesis by (auto simp: ensure_buffer_size_def)
next
  case False
  with assms(3) have p1: "stale = free_buffers pool" "stale_size = buffer_size pool"
    "pool1 = pool\<lparr>free_buffers := [], buffer_size := cfg\<rparr>"
    by (auto simp: ensure_buffer_size_def detach_free_buffers_def)
  obtain h1 where "deallocate_buffers al stale stale_size h = (Inr (), h1)"
    "live h1 = (\<lambda>p. if p \<in> set stale then None else live h p)"
    using deallocate_buffers_ok [OF assms(1), of stale h stale_size] assms(2)
    by (auto simp: pool_inv_def p1)
  with assms(2) show ?thesis by (auto simp: pool_inv_def p1 fun_eq_iff)
qed

lemma pool_get_ok:
  assumes al: "allocator_ok al live" and inv: "pool_inv live handed pool h"
    and get: "pool_get al cfg pool h = (r, pool', h')"
  shows "buffer_size pool' = cfg \<and>
    (case r of
       Inr b \<Rightarrow> bf_size b = cfg \<and> bf_buffer b \<noteq> 0 \<and> handed (bf_buffer b) = None \<and>
               pool_inv live (handed(bf_buffer b \<mapsto> cfg)) pool' h'
     | Inl _ \<Rightarrow> pool_inv live handed pool' h')"
proof -
  obtain stale ssz pool1 where e: "ensure_buffer_size cfg pool = ((stale, ssz), pool1)"
    by (metis prod.collapse)
  from ensure_buffer_size_ok [OF al inv e] obtain h1 where size: "buffer_size pool1 = cfg"
    and d: "deallocate_buffers al stale ssz h = (Inr (), h1)" and inv1: "pool_inv live handed pool1 h1"
    by blast
  show ?thesis
  proof (cases "free_buffers pool1")
    case (Cons b bs)
    with inv1 have "b \<noteq> 0" by (auto simp: pool_inv_def)
    with get Cons e d size inv1 show ?thesis
      by (auto simp: pool_get_def pool_inv_def fun_eq_iff)
  next
    case Nil
    show ?thesis
    proof (cases "al_allocate al cfg h1")
      case (Pair a h2)
      have "case a of Inr p \<Rightarrow> p \<noteq> 0 \<and> live h1 p = None \<and> live h2 = (live h1)(p \<mapsto> cfg) | Inl _ \<Rightarrow> live h2 = live h1"
        using allocate_Inr [OF al] allocate_Inl [OF al] Pair by (cases a) simp_all
      with Pair get Nil e d size inv1 show ?thesis
        by (auto simp: pool_get_def pool_inv_def split: sum.splits)
    qed
  qed
qed

lemma pool_put_ok:
  assumes al: "allocator_ok al live" and inv: "pool_inv live handed pool h"
    and held: "handed p = Some sz" and put: "pool_put al cfg p sz pool h = (pool', h')"
  shows "pool_inv live (handed(p := None)) pool' h' \<and> buffer_size pool' = cfg \<and>
         (p \<in> set (free_buffers pool') \<longleftrightarrow> sz = cfg)"
proof -
  obtain stale ssz pool1 where e: "ensure_buffer_size cfg pool = ((stale, ssz), pool1)"
    by (metis prod.collapse)
  from ensure_buffer_size_ok [OF al inv e] obtain h1 where size: "buffer_size pool1 = cfg"
    and d: "deallocate_buffers al stale ssz h = (Inr (), h1)" and inv1: "pool_inv live handed pool1 h1"
    by blast
  from held inv1 have p: "p \<noteq> 0" "p \<notin> set (free_buffers pool1)" "live h1 p = Some sz"
    by (auto simp: pool_inv_def)
  show ?thesis
  proof (cases "sz = cfg")
    case True
    with put e d size p inv1 held show ?thesis
      by (auto simp: pool_put_def pool_inv_def fun_eq_iff)
  next
    case False
    obtain h2 where "al_deallocate al p sz h1 = (Inr (), h2)" "live h2 = (live h1)(p := None)"
      using deallocate_live [OF al p(3)] by blast
    with False put e d size p inv1 held show ?thesis
      by (auto simp: pool_put_def pool_inv_def fun_eq_iff)
  qed
qed

lemma pool_clear_ok:
  assumes "allocator_ok al live" "pool_inv live handed pool h"
  shows "\<exists>h'. pool_clear al pool h = (Inr (of_nat (num_free_buffers pool) * buffer_size pool), pool\<lparr>free_buffers := []\<rparr>, h') \<and>
              pool_inv live handed (pool\<lparr>free_buffers := []\<rparr>) h'"
proof -
  obtain h1 where "deallocate_buffers al (free_buffers pool) (buffer_size pool) h = (Inr (), h1)"
    "live h1 = (\<lambda>p. if p \<in> set (free_buffers pool) then None else live h p)"
    using deallocate_buffers_ok [OF assms(1), of "free_buffers pool" h "buffer_size pool"] assms(2)
    by (auto simp: pool_inv_def)
  with assms(2) show ?thesis
    by (auto simp: pool_clear_def detach_free_buffers_def pool_inv_def num_free_buffers_def fun_eq_iff)
qed

section \<open>Sequences of operations\<close>

text \<open>
  A program using the pool: taking a buffer, giving back one it holds, clearing the pool, each at
  some configured size. The state has the pool, the heap and the buffers held.
\<close>

datatype pool_op = Get | Put ptr | Clear

type_synonym 'h pool_state = "(ptr \<rightharpoonup> size_t) \<times> BounceBufferPool \<times> 'h"

definition pool_step :: "'h allocator \<Rightarrow> pool_op \<times> size_t \<Rightarrow> 'h pool_state \<Rightarrow> 'h pool_state" where
  "pool_step al c st =
     (let (handed, pool, h) = st; (op, cfg) = c
      in case op of
           Get \<Rightarrow> (case pool_get al cfg pool h of
                     (Inr b, pool', h') \<Rightarrow> (handed(bf_buffer b \<mapsto> bf_size b), pool', h')
                   | (Inl _, pool', h') \<Rightarrow> (handed, pool', h'))
         | Put p \<Rightarrow> (case handed p of
                       None \<Rightarrow> st
                     | Some sz \<Rightarrow> let (pool', h') = pool_put al cfg p sz pool h in (handed(p := None), pool', h'))
         | Clear \<Rightarrow> (let (r, pool', h') = pool_clear al pool h in (handed, pool', h')))"

lemma pool_step_inv:
  assumes "allocator_ok al live" "pool_inv live handed pool h"
    and "pool_step al c (handed, pool, h) = (handed', pool', h')"
  shows "pool_inv live handed' pool' h'"
proof -
  obtain op cfg where c: "c = (op, cfg)" by (cases c)
  show ?thesis
  proof (cases op)
    case Get
    obtain r pool1 h1 where g: "pool_get al cfg pool h = (r, pool1, h1)" by (metis prod.collapse)
    from pool_get_ok [OF assms(1,2) g] g assms(3) show ?thesis
      by (auto simp: pool_step_def c Get split: sum.splits)
  next
    case (Put p)
    obtain pool1 h1 where g: "pool_put al cfg p (the (handed p)) pool h = (pool1, h1)" by (metis prod.collapse)
    with assms pool_put_ok [OF assms(1,2) _ g] show ?thesis
      by (auto simp: pool_step_def c Put split: option.splits)
  next
    case Clear
    with assms(3) pool_clear_ok [OF assms(1,2)] show ?thesis by (auto simp: pool_step_def c)
  qed
qed

lemma pool_run_inv:
  assumes "allocator_ok al live"
  shows "pool_inv live handed pool h \<Longrightarrow> fold (pool_step al) cs (handed, pool, h) = (handed', pool', h') \<Longrightarrow>
         pool_inv live handed' pool' h'"
proof (induction cs arbitrary: handed pool h)
  case Nil
  then show ?case by simp
next
  case (Cons c cs)
  obtain handed1 pool1 h1 where s: "pool_step al c (handed, pool, h) = (handed1, pool1, h1)"
    by (metis prod.collapse)
  from Cons.IH [OF pool_step_inv [OF assms Cons.prems(1) s]] Cons.prems(2) s show ?case by simp
qed

definition new_pool :: "size_t \<Rightarrow> BounceBufferPool" where
  "new_pool cfg = \<lparr>free_buffers = [], buffer_size = cfg\<rparr>"


text \<open>
  A host with three slots: the heap is the map of its blocks, allocation takes the first slot that
  is not in use and fails when there is none, and page-locking always fails.
\<close>

definition slots :: "ptr list" where
  "slots = [4096, 8192, 12288]"

definition slot_alloc :: "size_t \<Rightarrow> (ptr \<rightharpoonup> size_t) \<Rightarrow> (bool \<times> ptr) \<times> (ptr \<rightharpoonup> size_t)" where
  "slot_alloc sz m =
     (case find (\<lambda>p. m p = None) slots of
        None \<Rightarrow> ((False, 0), m) | Some p \<Rightarrow> ((True, p), m(p \<mapsto> sz)))"

definition slot_api :: "(ptr \<rightharpoonup> size_t) host_api" where
  "slot_api =
     \<lparr>aligned_alloc = (\<lambda>_ sz m. let ((_, p), m') = slot_alloc sz m in (p, m')),
      host_free = (\<lambda>p m. m(p := None)),
      MemHostAlloc = slot_alloc,
      MemFreeHost = (\<lambda>p m. (True, m(p := None))),
      MemHostRegister = (\<lambda>_ _ m. (False, m)),
      MemHostUnregister = (\<lambda>_ m. (True, m))\<rparr>"

lemma slot_allocator_ok: "allocator_ok (CudaPinnedAllocator slot_api) (\<lambda>m. m)"
  by (auto simp: allocator_ok_def CudaPinnedAllocator_def slot_api_def pinned_allocate_def
      pinned_deallocate_def slot_alloc_def slots_def res_simps find_Some_iff split: option.splits if_splits)


text \<open>
  What a single operation returns, under the pool invariant: \<open>get\<close> at the configured size
  returns a live buffer of exactly that size that nobody else holds, or throws and hands out
  nothing; \<open>put\<close> keeps the returned buffer for reuse exactly when it has the configured size and
  frees it otherwise; \<open>clear\<close> empties the stack and reports its bytes.
\<close>

theorem pool_operations:
  assumes "allocator_ok al live" "pool_inv live handed pool h"
  shows "(case pool_get al cfg pool h of
            (Inr b, pool', h') \<Rightarrow> bf_size b = cfg \<and> handed (bf_buffer b) = None \<and> live h' (bf_buffer b) = Some cfg \<and>
                                 bf_buffer b \<notin> set (free_buffers pool')
          | (Inl _, pool', h') \<Rightarrow> pool_inv live handed pool' h') \<and>
         (handed p = Some sz \<longrightarrow>
            (case pool_put al cfg p sz pool h of
               (pool', h') \<Rightarrow> (p \<in> set (free_buffers pool') \<longleftrightarrow> sz = cfg) \<and> (live h' p = (if sz = cfg then Some sz else None)))) \<and>
         (case pool_clear al pool h of
            (r, pool', h') \<Rightarrow> r = Inr (of_nat (num_free_buffers pool) * buffer_size pool) \<and>
                             num_free_buffers pool' = 0 \<and> dom (live h') = dom handed)"
proof (intro conjI impI, goal_cases)
  case 1
  obtain r pool' h' where g: "pool_get al cfg pool h = (r, pool', h')" by (metis prod.collapse)
  with pool_get_ok [OF assms g] show ?case
    by (auto simp: pool_inv_def split: sum.splits)
next
  case 2
  obtain pool' h' where g: "pool_put al cfg p sz pool h = (pool', h')" by (metis prod.collapse)
  with pool_put_ok [OF assms 2 g] show ?case by (auto simp: pool_inv_def)
next
  case 3
  from pool_clear_ok [OF assms] show ?case
    by (auto simp: pool_inv_def num_free_buffers_def dom_def)
qed

theorem pool_operations_witness:
  "case pool_clear (CudaPinnedAllocator slot_api) \<lparr>free_buffers = [4096, 8192], buffer_size = 64\<rparr> [4096 \<mapsto> 64, 8192 \<mapsto> 64] of
     (r, pool', h') \<Rightarrow> r = Inr 128 \<and> num_free_buffers pool' = 0"
proof -
  have "pool_inv (\<lambda>m. m) Map.empty \<lparr>free_buffers = [4096, 8192], buffer_size = 64\<rparr> [4096 \<mapsto> 64, 8192 \<mapsto> 64]"
    by (auto simp: pool_inv_def fun_eq_iff)
  from pool_operations [OF slot_allocator_ok this] show ?thesis
    by (auto simp: num_free_buffers_def)
qed

section \<open>A block lost when page-locking fails\<close>

text \<open>
  \<open>CudaPageAlignedPinnedAllocator::allocate\<close> does not free the block it got from
  \<open>aligned_alloc\<close> when registering it with the driver fails: the call throws and the block stays
  allocated, with no pointer to it left.
\<close>

lemma failed_registration_leaks:
  "al_allocate (CudaPageAlignedPinnedAllocator slot_api 4096) 4096 Map.empty =
   (Inl CUfile_Exception, [4096 \<mapsto> 4096])"
  by (simp add: CudaPageAlignedPinnedAllocator_def page_aligned_pinned_allocate_def align_up_def
      is_power_of_2_def slot_api_def slot_alloc_def slots_def)

end
