(* ===== verification/Bounce_Buffer_Cache.thy ===== *)
theory Bounce_Buffer_Cache
  imports Bounce_Buffer
begin

text \<open>
  The per-thread, per-context cache of bounce buffers of \<open>cpp/src/detail/bounce_buffer_cache.cpp\<close>.
  Each pair of a thread and a CUDA context has a shard with a free list and the counts of buffers
  checked out to callers and of recycle callbacks in flight; the header promises that the three
  together never exceed the cap. Each critical section is one step, and \<open>cache_step\<close> interleaves
  them: the section of \<open>try_get\<close> that reserves a buffer and what follows it outside the lock are
  separate steps, since the driver's recycle callbacks run on other threads in between.
\<close>

section \<open>Shards\<close>

text \<open>The free list has its back first.\<close>

record Shard =
  sh_free :: "Buffer list"
  checked_out :: size_t
  in_flight :: size_t

definition new_shard :: Shard where
  "new_shard = \<lparr>sh_free = [], checked_out = 0, in_flight = 0\<rparr>"

type_synonym cache_key = "nat \<times> ptr"

text \<open>What a callback enqueued on a stream will do: put the buffer back into its shard.\<close>

type_synonym RecycleCallbackData = "cache_key \<times> Buffer"

record BufferCache =
  cache_cap :: "size_t option"
  shards :: "cache_key \<rightharpoonup> Shard"
  pending :: "RecycleCallbackData list"

definition new_cache :: "size_t option \<Rightarrow> BufferCache" where
  "new_cache cap = \<lparr>cache_cap = cap, shards = Map.empty, pending = []\<rparr>"

definition get_shard :: "cache_key \<Rightarrow> BufferCache \<Rightarrow> Shard" where
  "get_shard key cache = (case shards cache key of None \<Rightarrow> new_shard | Some s \<Rightarrow> s)"

definition set_shard :: "cache_key \<Rightarrow> Shard \<Rightarrow> BufferCache \<Rightarrow> BufferCache" where
  "set_shard key s cache = cache\<lparr>shards := (shards cache)(key \<mapsto> s)\<rparr>"

section \<open>Taking a buffer\<close>

text \<open>The loop that discards free buffers of another size, from the back.\<close>

fun drop_stale :: "size_t \<Rightarrow> Buffer list \<Rightarrow> Buffer list \<times> Buffer list" where
  "drop_stale current_size [] = ([], [])"
| "drop_stale current_size (b # bs) =
     (if bf_size b \<noteq> current_size
      then let (stale, rest) = drop_stale current_size bs in (b # stale, rest)
      else ([], b # bs))"

datatype reservation = Reused Buffer | Cap_Reached | Fresh

text \<open>The critical section of \<open>try_get\<close>.\<close>

definition try_get_reserve :: "size_t option \<Rightarrow> size_t \<Rightarrow> Shard \<Rightarrow> (reservation \<times> Buffer list) \<times> Shard" where
  "try_get_reserve cap current_size shard =
     (let (stale_buffers, free1) = drop_stale current_size (sh_free shard);
          shard1 = shard\<lparr>sh_free := free1\<rparr>
      in case free1 of
           b # bs \<Rightarrow> ((Reused b, stale_buffers), shard1\<lparr>sh_free := bs, checked_out := checked_out shard1 + 1\<rparr>)
         | [] \<Rightarrow>
             (let total = of_nat (length free1) + checked_out shard1 + in_flight shard1
              in if (case cap of None \<Rightarrow> False | Some c \<Rightarrow> total \<ge> c)
                 then ((Cap_Reached, stale_buffers), shard1)
                 else ((Fresh, stale_buffers), shard1\<lparr>checked_out := checked_out shard1 + 1\<rparr>)))"

text \<open>The handler of \<open>try_get\<close>: the reservation is given back when the pool throws.\<close>

definition unreserve :: "Shard \<Rightarrow> Shard" where
  "unreserve shard = shard\<lparr>checked_out := checked_out shard - 1\<rparr>"

text \<open>Destroying the discarded buffers returns them to the pool, which frees them.\<close>

definition destroy_buffers ::
  "'h allocator \<Rightarrow> size_t \<Rightarrow> Buffer list \<Rightarrow> BounceBufferPool \<times> 'h \<Rightarrow> BounceBufferPool \<times> 'h" where
  "destroy_buffers al cfg bs st = fold (\<lambda>b (pool, h). buffer_destroy al cfg b pool h) bs st"

definition try_get ::
  "'h allocator \<Rightarrow> size_t \<Rightarrow> cache_key \<Rightarrow> BufferCache \<Rightarrow> BounceBufferPool \<times> 'h \<Rightarrow>
   Buffer option res \<times> BufferCache \<times> BounceBufferPool \<times> 'h" where
  "try_get al cfg key cache st =
     (let ((r, stale_buffers), shard1) = try_get_reserve (cache_cap cache) cfg (get_shard key cache);
          cache1 = set_shard key shard1 cache;
          (pool1, h1) = destroy_buffers al cfg stale_buffers st
      in case r of
           Reused b \<Rightarrow> (Inr (Some b), cache1, pool1, h1)
         | Cap_Reached \<Rightarrow> (Inr None, cache1, pool1, h1)
         | Fresh \<Rightarrow>
             (case pool_get al cfg pool1 h1 of
                (Inr b, pool2, h2) \<Rightarrow> (Inr (Some b), cache1, pool2, h2)
              | (Inl e, pool2, h2) \<Rightarrow> (Inl e, set_shard key (unreserve (get_shard key cache1)) cache1, pool2, h2)))"

section \<open>Giving a buffer back\<close>

definition recycle_now :: "cache_key \<Rightarrow> Buffer \<Rightarrow> BufferCache \<Rightarrow> BufferCache" where
  "recycle_now key buf cache =
     (let shard = get_shard key cache
      in set_shard key (shard\<lparr>checked_out := checked_out shard - 1, sh_free := buf # sh_free shard\<rparr>) cache)"

text \<open>The first critical section of \<open>recycle_after\<close>: checked out becomes in flight.\<close>

definition begin_flight :: "cache_key \<Rightarrow> BufferCache \<Rightarrow> BufferCache" where
  "begin_flight key cache =
     (let shard = get_shard key cache
      in set_shard key (shard\<lparr>checked_out := checked_out shard - 1, in_flight := in_flight shard + 1\<rparr>) cache)"

text \<open>What a successful launch leaves behind, and the second critical section after a failed one.\<close>

definition enqueue_callback :: "cache_key \<Rightarrow> Buffer \<Rightarrow> BufferCache \<Rightarrow> BufferCache" where
  "enqueue_callback key buf cache = cache\<lparr>pending := pending cache @ [(key, buf)]\<rparr>"

definition end_flight :: "cache_key \<Rightarrow> BufferCache \<Rightarrow> BufferCache" where
  "end_flight key cache =
     (let shard = get_shard key cache in set_shard key (shard\<lparr>in_flight := in_flight shard - 1\<rparr>) cache)"

text \<open>
  \<open>recycle_after\<close>: \<open>launched\<close> says whether \<open>cuLaunchHostFunc\<close> succeeded. If not, the buffer leaves
  the shard and its destructor returns it to the pool.
\<close>

definition recycle_after ::
  "'h allocator \<Rightarrow> size_t \<Rightarrow> cache_key \<Rightarrow> Buffer \<Rightarrow> bool \<Rightarrow> BufferCache \<Rightarrow> BounceBufferPool \<times> 'h \<Rightarrow>
   unit res \<times> BufferCache \<times> BounceBufferPool \<times> 'h" where
  "recycle_after al cfg key buf launched cache st =
     (let cache1 = begin_flight key cache
      in if launched then (Inr (), enqueue_callback key buf cache1, st)
         else (Inl CUfile_Exception, end_flight key cache1, buffer_destroy al cfg buf (fst st) (snd st)))"

text \<open>\<open>recycle_callback\<close> of the pending entry at position \<open>i\<close>.\<close>

definition recycle_callback :: "nat \<Rightarrow> BufferCache \<Rightarrow> BufferCache" where
  "recycle_callback i cache =
     (let (key, buf) = pending cache ! i;
          cache1 = cache\<lparr>pending := take i (pending cache) @ drop (Suc i) (pending cache)\<rparr>;
          shard = get_shard key cache1
      in set_shard key (shard\<lparr>in_flight := in_flight shard - 1, sh_free := buf # sh_free shard\<rparr>) cache1)"

text \<open>The cap of the singleton, from the remote I/O settings.\<close>

definition instance_cap :: "size_t \<Rightarrow> size_t \<Rightarrow> size_t option" where
  "instance_cap max_total n = (if max_total = 0 then None else Some (max (max_total div n) 1 * 2))"

section \<open>The cap invariant\<close>

text \<open>
  \<open>out key\<close> is the number of buffers callers hold or are about to hold for the key. The counters
  of the shard agree with it and with the callbacks pending, and with a cap the free list, the
  buffers out and those in flight stay within it.
\<close>

definition flights :: "cache_key \<Rightarrow> BufferCache \<Rightarrow> nat" where
  "flights key cache = length (filter (\<lambda>d. fst d = key) (pending cache))"

definition shard_inv :: "nat \<Rightarrow> cache_key \<Rightarrow> BufferCache \<Rightarrow> bool" where
  "shard_inv out key cache \<longleftrightarrow>
     (let s = get_shard key cache in
      checked_out s = of_nat out \<and> in_flight s = of_nat (flights key cache) \<and>
      (case cache_cap cache of None \<Rightarrow> True
       | Some c \<Rightarrow> length (sh_free s) + out + flights key cache \<le> unat c))"

text \<open>One interleaved step of the callers and of the driver's callback threads.\<close>

inductive cache_step :: "(cache_key \<Rightarrow> nat) \<times> BufferCache \<Rightarrow> (cache_key \<Rightarrow> nat) \<times> BufferCache \<Rightarrow> bool" where
  reserve: "try_get_reserve (cache_cap cache) cfg (get_shard key cache) = ((r, stale), shard) \<Longrightarrow>
     cache_step (out, cache)
       (if r = Cap_Reached then out else out(key := Suc (out key)), set_shard key shard cache)"
| alloc_failed: "0 < out key \<Longrightarrow>
     cache_step (out, cache) (out(key := out key - 1), set_shard key (unreserve (get_shard key cache)) cache)"
| now: "0 < out key \<Longrightarrow> cache_step (out, cache) (out(key := out key - 1), recycle_now key buf cache)"
| launched: "0 < out key \<Longrightarrow>
     cache_step (out, cache) (out(key := out key - 1), enqueue_callback key buf (begin_flight key cache))"
| launch_failed: "0 < out key \<Longrightarrow>
     cache_step (out, cache) (out(key := out key - 1), end_flight key (begin_flight key cache))"
| called_back: "i < length (pending cache) \<Longrightarrow> cache_step (out, cache) (out, recycle_callback i cache)"

inductive cache_reachable :: "size_t option \<Rightarrow> (cache_key \<Rightarrow> nat) \<times> BufferCache \<Rightarrow> bool" for cap where
  start: "cache_reachable cap (\<lambda>_. 0, new_cache cap)"
| step: "cache_reachable cap s \<Longrightarrow> cache_step s t \<Longrightarrow> cache_reachable cap t"

lemma get_shard_set_shard [simp]:
  "get_shard key (set_shard key' s cache) = (if key = key' then s else get_shard key cache)"
  by (simp add: get_shard_def set_shard_def)

lemma set_shard_sel [simp]:
  "cache_cap (set_shard key s cache) = cache_cap cache" "pending (set_shard key s cache) = pending cache"
  "flights k (set_shard key s cache) = flights k cache"
  by (simp_all add: set_shard_def flights_def)

lemma get_shard_pending [simp]: "get_shard key (cache\<lparr>pending := p\<rparr>) = get_shard key cache"
  by (simp add: get_shard_def)

lemma drop_stale_app: "drop_stale cfg bs = (stale, rest) \<Longrightarrow> bs = stale @ rest"
  by (induction cfg bs arbitrary: stale rest rule: drop_stale.induct) (auto split: if_splits prod.splits)

lemma drop_stale_hd: "drop_stale cfg bs = (stale, b # rest) \<Longrightarrow> bf_size b = cfg"
  by (induction cfg bs arbitrary: stale rule: drop_stale.induct) (auto split: if_splits prod.splits)

lemma try_get_reserve_cases:
  assumes "try_get_reserve cap cfg s = ((r, stale), s')"
  shows "in_flight s' = in_flight s \<and> length (sh_free s') \<le> length (sh_free s) \<and>
    (case r of
       Reused b \<Rightarrow> checked_out s' = checked_out s + 1 \<and> length (sh_free s') < length (sh_free s) \<and> bf_size b = cfg
     | Fresh \<Rightarrow> checked_out s' = checked_out s + 1 \<and> sh_free s' = [] \<and>
               (\<forall>c. cap = Some c \<longrightarrow> checked_out s + in_flight s < c)
     | Cap_Reached \<Rightarrow> checked_out s' = checked_out s \<and> sh_free s' = [] \<and>
               (\<exists>c. cap = Some c \<and> c \<le> checked_out s + in_flight s))"
proof -
  obtain st free1 where d: "drop_stale cfg (sh_free s) = (st, free1)" by (cases "drop_stale cfg (sh_free s)")
  show ?thesis
  proof (cases free1)
    case (Cons b bs)
    with d assms drop_stale_app [OF d] drop_stale_hd [of cfg "sh_free s" st b bs] show ?thesis
      by (auto simp: try_get_reserve_def)
  next
    case Nil
    with d assms show ?thesis
      by (auto simp: try_get_reserve_def Let_def not_le split: if_splits option.splits)
  qed
qed

lemma flights_take_drop:
  "i < length p \<Longrightarrow> length (filter (\<lambda>d. fst d = key) p) =
   length (filter (\<lambda>d. fst d = key) (take i p @ drop (Suc i) p)) + (if fst (p ! i) = key then 1 else 0)"
  by (subst id_take_nth_drop [of i p]) simp_all

lemma counters_no_wrap:
  "a + b \<le> unat (c :: size_t) \<Longrightarrow> unat (of_nat a + of_nat b :: size_t) = a + b"
  using size_t_range [of c] by (simp add: unat_of_nat_size_t flip: of_nat_add)

lemma reserve_inv:
  assumes "shard_inv n key cache" "try_get_reserve (cache_cap cache) cfg (get_shard key cache) = ((r, stale), s')"
  shows "shard_inv (if r = Cap_Reached then n else Suc n) key (set_shard key s' cache)"
proof -
  let ?s = "get_shard key cache"
  note c = try_get_reserve_cases [OF assms(2)]
  have cnt: "checked_out ?s = of_nat n" "in_flight ?s = of_nat (flights key cache)"
    using assms(1) by (simp_all add: shard_inv_def Let_def)
  have cap: "length (sh_free ?s) + n + flights key cache \<le> unat m" if "cache_cap cache = Some m" for m
    using assms(1) that by (simp add: shard_inv_def Let_def)
  show ?thesis
  proof (cases r)
    case (Reused b)
    with c cnt cap show ?thesis by (fastforce simp: shard_inv_def split: option.splits)
  next
    case Cap_Reached
    with c cnt cap show ?thesis by (fastforce simp: shard_inv_def split: option.splits)
  next
    case Fresh
    have "Suc n + flights key cache \<le> unat m" if m: "cache_cap cache = Some m" for m
    proof -
      have "checked_out ?s + in_flight ?s < m" using c Fresh m by simp
      then show ?thesis
        using cap [OF m] counters_no_wrap [of n "flights key cache" m] by (simp add: cnt word_less_nat_alt)
    qed
    with c cnt Fresh show ?thesis by (auto simp: shard_inv_def split: option.splits)
  qed
qed

text \<open>A step on one key leaves the other shards alone.\<close>

lemma other_shard:
  "key' \<noteq> key \<Longrightarrow> shard_inv n key' (set_shard key s cache) = shard_inv n key' cache"
  by (simp add: shard_inv_def Let_def cong: option.case_cong)

lemma enqueue_sel [simp]:
  "get_shard k (enqueue_callback key b cache) = get_shard k cache"
  "cache_cap (enqueue_callback key b cache) = cache_cap cache"
  "flights k (enqueue_callback key b cache) = flights k cache + (if k = key then 1 else 0)"
  by (auto simp: enqueue_callback_def flights_def)

lemma step_on_key:
  assumes "\<forall>k. shard_inv (out k) k cache" "shard_inv n key cache'"
    and "\<And>k. k \<noteq> key \<Longrightarrow> shard_inv (out k) k cache' = shard_inv (out k) k cache"
  shows "\<forall>k. shard_inv ((out(key := n)) k) k cache'"
  using assms by simp

lemma cache_step_inv:
  assumes "cache_step (out, cache) (out', cache')" "\<forall>key. shard_inv (out key) key cache"
  shows "\<forall>key. shard_inv (out' key) key cache'"
proof -
  from assms(1) show ?thesis
  proof (cases rule: cache_step.cases)
    case (reserve cfg key r stale shard)
    have "shard_inv (out' k) k cache'" for k
      using reserve_inv [of "out key" key cache cfg r stale shard] assms(2) reserve
      by (cases "k = key") (auto simp: other_shard)
    then show ?thesis by blast
  next
    case (alloc_failed key)
    have "shard_inv (out key - 1) key cache'"
      using spec [OF assms(2), of key] alloc_failed
      by (auto simp: shard_inv_def unreserve_def Let_def Suc_le_eq split: option.splits)
    then show ?thesis
      unfolding alloc_failed(1) by (rule step_on_key [OF assms(2)])
        (simp add: alloc_failed unreserve_def shard_inv_def Let_def cong: option.case_cong)
  next
    case (now key buf)
    have "shard_inv (out key - 1) key cache'"
      using spec [OF assms(2), of key] now
      by (auto simp: shard_inv_def recycle_now_def Let_def Suc_le_eq split: option.splits)
    then show ?thesis
      unfolding now(1) by (rule step_on_key [OF assms(2)])
        (simp add: now recycle_now_def shard_inv_def Let_def cong: option.case_cong)
  next
    case (launched key buf)
    have "shard_inv (out key - 1) key cache'"
      using spec [OF assms(2), of key] launched
      by (auto simp: shard_inv_def begin_flight_def Let_def Suc_le_eq split: option.splits)
    then show ?thesis
      unfolding launched(1) by (rule step_on_key [OF assms(2)])
        (simp add: launched begin_flight_def shard_inv_def Let_def cong: option.case_cong)
  next
    case (launch_failed key)
    have "shard_inv (out key - 1) key cache'"
      using spec [OF assms(2), of key] launch_failed
      by (auto simp: shard_inv_def begin_flight_def end_flight_def Let_def Suc_le_eq split: option.splits)
    then show ?thesis
      unfolding launch_failed(1) by (rule step_on_key [OF assms(2)])
        (simp add: launch_failed begin_flight_def end_flight_def shard_inv_def Let_def cong: option.case_cong)
  next
    case (called_back i)
    obtain key buf where p: "pending cache ! i = (key, buf)" by (cases "pending cache ! i")
    let ?c = "cache\<lparr>pending := take i (pending cache) @ drop (Suc i) (pending cache)\<rparr>"
    have fl: "flights k cache = flights k ?c + (if k = key then 1 else 0)" for k
      using flights_take_drop [OF called_back(3), of k] p by (auto simp: flights_def)
    have "shard_inv (out k) k cache'" for k
      using spec [OF assms(2), of k] called_back p fl [of k]
      by (cases "k = key") (auto simp: shard_inv_def recycle_callback_def Let_def split: option.splits)
    then show ?thesis using called_back by simp
  qed
qed

lemma cache_step_cap: "cache_step (out, cache) (out', cache') \<Longrightarrow> cache_cap cache' = cache_cap cache"
  by (erule cache_step.cases)
    (auto simp: recycle_now_def begin_flight_def end_flight_def recycle_callback_def Let_def split: prod.splits)

lemma cache_reachable_inv:
  "cache_reachable cap st \<Longrightarrow> (\<forall>key. shard_inv (fst st key) key (snd st)) \<and> cache_cap (snd st) = cap"
proof (induction rule: cache_reachable.induct)
  case start
  then show ?case
    by (auto simp: new_cache_def shard_inv_def get_shard_def new_shard_def flights_def split: option.splits)
next
  case (step s t)
  then show ?case
    using cache_step_inv [of "fst s" "snd s" "fst t" "snd t"] cache_step_cap [of "fst s" "snd s" "fst t" "snd t"]
    by simp
qed

section \<open>Properties\<close>

text \<open>
  C21. In every state that the callers and the callback threads can reach by any interleaving, for
  every pair of thread and context: the counters of the shard are the numbers of buffers out and
  of callbacks pending, and with a cap the free list, the buffers out and those in flight together
  do not exceed it.
\<close>

theorem cache_cap_invariant:
  assumes "cache_reachable cap (out, cache)"
  shows "checked_out (get_shard key cache) = of_nat (out key) \<and>
         in_flight (get_shard key cache) = of_nat (flights key cache) \<and>
         (\<forall>c. cap = Some c \<longrightarrow> length (sh_free (get_shard key cache)) + out key + flights key cache \<le> unat c)"
  using cache_reachable_inv [OF assms] by (auto simp: shard_inv_def Let_def)

text \<open>A run with a cap of two: both buffers are taken, one is recycled through a callback.\<close>

lemma example_reachable:
  "\<exists>out cache. cache_reachable (Some 2) (out, cache) \<and> out (0, 5) = 1 \<and> flights (0, 5) cache = 1"
proof -
  let ?k = "(0 :: nat, 5 :: ptr)"
  let ?s0 = "new_cache (Some 2)"
  let ?s1 = "set_shard ?k \<lparr>sh_free = [], checked_out = 1, in_flight = 0\<rparr> ?s0"
  let ?s2 = "set_shard ?k \<lparr>sh_free = [], checked_out = 2, in_flight = 0\<rparr> ?s1"
  have r1: "try_get_reserve (cache_cap ?s0) 64 (get_shard ?k ?s0) =
      ((Fresh, []), \<lparr>sh_free = [], checked_out = 1, in_flight = 0\<rparr>)"
    by (simp add: try_get_reserve_def new_cache_def get_shard_def new_shard_def Let_def)
  have r2: "try_get_reserve (cache_cap ?s1) 64 (get_shard ?k ?s1) =
      ((Fresh, []), \<lparr>sh_free = [], checked_out = 2, in_flight = 0\<rparr>)"
    by (simp add: try_get_reserve_def new_cache_def Let_def word_le_nat_alt)
  let ?o1 = "(\<lambda>_. 0)(?k := Suc 0)" and ?o2 = "(\<lambda>_. 0)(?k := Suc (Suc 0))"
  have "cache_step (\<lambda>_. 0, ?s0) (?o1, ?s1)" using cache_step.reserve [OF r1, of "\<lambda>_. 0"] by simp
  then have "cache_reachable (Some 2) (?o1, ?s1)" by (rule cache_reachable.step [OF cache_reachable.start])
  moreover have "cache_step (?o1, ?s1) (?o2, ?s2)" using cache_step.reserve [OF r2, of ?o1] by simp
  ultimately have "cache_reachable (Some 2) (?o2, ?s2)" by (rule cache_reachable.step)
  then have "cache_reachable (Some 2) (?o2(?k := ?o2 ?k - 1),
      enqueue_callback ?k \<lparr>bf_buffer = 4096, bf_size = 64\<rparr> (begin_flight ?k ?s2))"
    by (rule cache_reachable.step) (rule cache_step.launched, simp)
  then show ?thesis
    by (intro exI conjI, assumption) (simp_all add: begin_flight_def flights_def new_cache_def set_shard_def
        enqueue_callback_def Let_def)
qed

theorem cache_cap_invariant_witness:
  "\<exists>out cache. cache_reachable (Some 2) (out, cache) \<and>
     checked_out (get_shard (0, 5) cache) = 1 \<and> in_flight (get_shard (0, 5) cache) = 1 \<and>
     length (sh_free (get_shard (0, 5) cache)) + out (0, 5) + flights (0, 5) cache \<le> 2"
proof -
  obtain out cache where r: "cache_reachable (Some 2) (out, cache)" "out (0, 5) = 1" "flights (0, 5) cache = 1"
    using example_reachable by blast
  from cache_cap_invariant [OF r(1), of "(0, 5)"] r show ?thesis
    by (intro exI [of _ out] exI [of _ cache]) simp
qed

text \<open>The buffers of the free list are held by the cache, as far as the pool is concerned.\<close>

definition cache_holds :: "(ptr \<rightharpoonup> size_t) \<Rightarrow> Buffer list \<Rightarrow> bool" where
  "cache_holds handed bs \<longleftrightarrow>
     distinct (map bf_buffer bs) \<and> (\<forall>b \<in> set bs. handed (bf_buffer b) = Some (bf_size b))"

lemma destroy_buffers_ok:
  assumes "allocator_ok al live"
  shows "pool_inv live handed pool h \<Longrightarrow> cache_holds handed bs \<Longrightarrow>
    \<exists>handed' pool' h'. destroy_buffers al cfg bs (pool, h) = (pool', h') \<and> pool_inv live handed' pool' h'"
proof (induction bs arbitrary: handed pool h)
  case Nil
  then show ?case by (auto simp: destroy_buffers_def)
next
  case (Cons b bs)
  obtain pool1 h1 where g: "pool_put al cfg (bf_buffer b) (bf_size b) pool h = (pool1, h1)" by (metis prod.collapse)
  have held: "handed (bf_buffer b) = Some (bf_size b)" using Cons.prems(2) by (simp add: cache_holds_def)
  then have "bf_buffer b \<noteq> 0" using Cons.prems(1) by (auto simp: pool_inv_def)
  moreover have "pool_inv live (handed(bf_buffer b := None)) pool1 h1"
    using pool_put_ok [OF assms Cons.prems(1) held g] by blast
  moreover have "cache_holds (handed(bf_buffer b := None)) bs"
    using Cons.prems(2) by (auto simp: cache_holds_def) (metis image_eqI)
  ultimately show ?case
    using Cons.IH g by (fastforce simp: destroy_buffers_def buffer_destroy_def)
qed

lemma try_get_reserve_stale:
  assumes "try_get_reserve cap cfg s = ((r, stale), s')"
  shows "\<exists>rest. sh_free s = stale @ rest"
    and "r = Cap_Reached \<Longrightarrow> \<forall>b \<in> set (sh_free s). bf_size b \<noteq> cfg"
proof -
  have drop: "drop_stale cfg bs = (st, []) \<Longrightarrow> \<forall>b \<in> set bs. bf_size b \<noteq> cfg" for bs st
    by (induction cfg bs arbitrary: st rule: drop_stale.induct) (auto split: if_splits prod.splits)
  obtain st free1 where d: "drop_stale cfg (sh_free s) = (st, free1)" by (cases "drop_stale cfg (sh_free s)")
  show "\<exists>rest. sh_free s = stale @ rest"
    using assms d drop_stale_app [OF d]
    by (auto simp: try_get_reserve_def Let_def split: list.splits if_splits option.splits)
  show "\<forall>b \<in> set (sh_free s). bf_size b \<noteq> cfg" if "r = Cap_Reached"
    using assms d drop [of "sh_free s" st] that
    by (auto simp: try_get_reserve_def Let_def split: list.splits if_splits option.splits)
qed

text \<open>
  What \<open>try_get\<close> returns: a buffer of the currently configured size, or nothing exactly when no
  free buffer has that size and the buffers out and in flight have reached the cap; if the pool
  throws, the reservation is undone. Without a cap it never returns nothing.
\<close>

theorem try_get_outcome:
  assumes "allocator_ok al live" "pool_inv live handed pool h"
    and "cache_holds handed (sh_free (get_shard key cache))"
    and "try_get al cfg key cache (pool, h) = (r, cache', st')"
  shows "case r of
      Inr (Some b) \<Rightarrow> bf_size b = cfg \<and> checked_out (get_shard key cache') = checked_out (get_shard key cache) + 1
    | Inr None \<Rightarrow> (\<forall>b \<in> set (sh_free (get_shard key cache)). bf_size b \<noteq> cfg) \<and>
                  (\<exists>c. cache_cap cache = Some c \<and> c \<le> checked_out (get_shard key cache) + in_flight (get_shard key cache))
    | Inl _ \<Rightarrow> checked_out (get_shard key cache') = checked_out (get_shard key cache)"
proof -
  let ?s = "get_shard key cache"
  obtain q stale s1 where rs: "try_get_reserve (cache_cap cache) cfg ?s = ((q, stale), s1)"
    by (metis prod.collapse)
  note c = try_get_reserve_cases [OF rs]
  have "cache_holds handed stale"
    using try_get_reserve_stale(1) [OF rs] assms(3) by (auto simp: cache_holds_def)
  from destroy_buffers_ok [OF assms(1,2) this, of cfg] obtain handed1 pool1 h1 where
    d: "destroy_buffers al cfg stale (pool, h) = (pool1, h1)" "pool_inv live handed1 pool1 h1" by blast
  obtain g pool2 h2 where g: "pool_get al cfg pool1 h1 = (g, pool2, h2)" by (metis prod.collapse)
  note ok = pool_get_ok [OF assms(1) d(2) g]
  show ?thesis
  proof (cases q)
    case (Reused b)
    with assms(4) rs c d(1) show ?thesis by (auto simp: try_get_def)
  next
    case Cap_Reached
    with assms(4) rs c d(1) try_get_reserve_stale(2) [OF rs] show ?thesis by (auto simp: try_get_def)
  next
    case Fresh
    with assms(4) rs c d(1) g ok show ?thesis
      by (cases g) (auto simp: try_get_def unreserve_def)
  qed
qed

theorem try_get_outcome_witness:
  "\<exists>r cache' st'. try_get (CudaPinnedAllocator slot_api) 64 (0, 5) (new_cache (Some 2)) (new_pool 64, Map.empty) = (r, cache', st') \<and>
     r = Inr (Some \<lparr>bf_buffer = 4096, bf_size = 64\<rparr>) \<and> checked_out (get_shard (0, 5) cache') = 1"
proof -
  obtain r cache' st' where t: "try_get (CudaPinnedAllocator slot_api) 64 (0, 5) (new_cache (Some 2)) (new_pool 64, Map.empty) = (r, cache', st')"
    by (metis prod.collapse)
  then have r: "r = Inr (Some \<lparr>bf_buffer = 4096, bf_size = 64\<rparr>)"
    by (auto simp: try_get_def try_get_reserve_def new_cache_def get_shard_def new_shard_def new_pool_def
        destroy_buffers_def pool_get_def ensure_buffer_size_def CudaPinnedAllocator_def pinned_allocate_def
        slot_api_def slot_alloc_def slots_def Let_def)
  have "pool_inv (\<lambda>m. m) Map.empty (new_pool 64) Map.empty"
    by (simp add: pool_inv_def new_pool_def)
  from try_get_outcome [OF slot_allocator_ok this _ t] t r show ?thesis
    by (simp add: new_cache_def get_shard_def new_shard_def cache_holds_def)
qed

end
