(* ===== verification/Posix_IO.thy ===== *)
theory Posix_IO
  imports Bounce_Buffer
begin

text \<open>
  POSIX I/O with opportunistic Direct I/O: \<open>cpp/include/kvikio/detail/posix_io.hpp\<close> and
  \<open>cpp/src/detail/posix_io.cpp\<close>. Host memory and device memory are byte-addressed memories; the
  kernel's state, the allocator's heap and everything else the outside world keeps is one
  component of an arbitrary type, on which the system calls (parameters) act. A loop that never
  ends is \<open>None\<close>. The contents of a bounce buffer that \<open>posix_host_io\<close> takes for one transfer are
  a local value, since no other code has its address; the bounce buffer of the device functions
  lies in host memory.
\<close>

section \<open>The environment\<close>

datatype IOOperationType = IO_READ | IO_WRITE
datatype PartialIO = YES | NO

text \<open>
  \<open>pread\<close> gets the descriptor, the buffer address (Direct I/O constrains it), the count and the
  offset and returns an error number or the bytes read; \<open>pwrite\<close> gets the bytes and returns an
  error number or how many it wrote.
\<close>

record 'e posix_api =
  sys_pread :: "int \<Rightarrow> ptr \<Rightarrow> size_t \<Rightarrow> size_t \<Rightarrow> 'e \<Rightarrow> (nat + byte list) \<times> 'e"
  sys_pwrite :: "int \<Rightarrow> ptr \<Rightarrow> byte list \<Rightarrow> size_t \<Rightarrow> 'e \<Rightarrow> (nat + size_t) \<times> 'e"

text \<open>The singleton pools, one for each allocator.\<close>

datatype pool_kind = Page_Aligned | Cuda_Pinned | Cuda_Page_Aligned_Pinned

record 'e world =
  w_mem :: memory
  w_dev :: memory
  w_pool :: "pool_kind \<Rightarrow> BounceBufferPool"
  w_ext :: 'e

record 'e io_env =
  env_api :: "'e posix_api"
  env_alloc :: "pool_kind \<Rightarrow> 'e allocator"
  env_copy :: "'e \<Rightarrow> bool \<times> 'e"
  env_page_size :: size_t
  env_bounce_buffer_size :: size_t
  auto_direct_io_read :: bool
  auto_direct_io_write :: bool
  auto_direct_io_read_overread :: bool

definition int64_max :: size_t where
  "int64_max = 9223372036854775807"

definition convert_size2off :: "size_t \<Rightarrow> size_t res" where
  "convert_size2off x = bind_res (kvikio_expect (x < int64_max) CUfile_Exception) (\<lambda>_. Inr x)"

definition convert_size2ssize :: "size_t \<Rightarrow> size_t res" where
  "convert_size2ssize x = bind_res (kvikio_expect (x < int64_max) CUfile_Exception) (\<lambda>_. Inr x)"

text \<open>Taking a buffer from a pool and giving it back at the end of its scope.\<close>

definition get_bounce :: "'e io_env \<Rightarrow> pool_kind \<Rightarrow> 'e world \<Rightarrow> Buffer res \<times> 'e world" where
  "get_bounce env k w =
     (let (r, pool, e) = pool_get (env_alloc env k) (env_bounce_buffer_size env) (w_pool w k) (w_ext w)
      in (r, w\<lparr>w_pool := (w_pool w)(k := pool), w_ext := e\<rparr>))"

definition drop_bounce :: "'e io_env \<Rightarrow> pool_kind \<Rightarrow> Buffer \<Rightarrow> 'e world \<Rightarrow> 'e world" where
  "drop_bounce env k b w =
     (let (pool, e) = buffer_destroy (env_alloc env k) (env_bounce_buffer_size env) b (w_pool w k) (w_ext w)
      in w\<lparr>w_pool := (w_pool w)(k := pool), w_ext := e\<rparr>)"

section \<open>Host memory\<close>

text \<open>
  The lambda \<open>pread_or_write\<close>, split by operation: both branches of the error report throw
  \<open>CUfileException\<close>.
\<close>

definition do_pread :: "'e io_env \<Rightarrow> int \<Rightarrow> ptr \<Rightarrow> size_t \<Rightarrow> size_t \<Rightarrow> 'e \<Rightarrow> byte list res \<times> 'e" where
  "do_pread env fd buf cnt offset e =
     (case convert_size2off offset of
        Inl x \<Rightarrow> (Inl x, e)
      | Inr off \<Rightarrow>
          (case sys_pread (env_api env) fd buf cnt off e of
             (Inl _, e1) \<Rightarrow> (Inl CUfile_Exception, e1)
           | (Inr bs, e1) \<Rightarrow> (Inr bs, e1)))"

definition do_pwrite :: "'e io_env \<Rightarrow> int \<Rightarrow> ptr \<Rightarrow> byte list \<Rightarrow> size_t \<Rightarrow> 'e \<Rightarrow> size_t res \<times> 'e" where
  "do_pwrite env fd buf bytes offset e =
     (case convert_size2off offset of
        Inl x \<Rightarrow> (Inl x, e)
      | Inr off \<Rightarrow>
          (case sys_pwrite (env_api env) fd buf bytes off e of
             (Inl _, e1) \<Rightarrow> (Inl CUfile_Exception, e1)
           | (Inr n, e1) \<Rightarrow> (Inr n, e1)))"

definition pread_or_write ::
  "'e io_env \<Rightarrow> IOOperationType \<Rightarrow> int \<Rightarrow> ptr \<Rightarrow> size_t \<Rightarrow> size_t \<Rightarrow> 'e world \<Rightarrow> size_t res \<times> 'e world" where
  "pread_or_write env op fd buf cnt offset w =
     (case op of
        IO_READ \<Rightarrow>
          (case do_pread env fd buf cnt offset (w_ext w) of
             (Inl x, e) \<Rightarrow> (Inl x, w\<lparr>w_ext := e\<rparr>)
           | (Inr bs, e) \<Rightarrow> (Inr (of_nat (length bs)), w\<lparr>w_mem := write_bytes (w_mem w) buf bs, w_ext := e\<rparr>))
      | IO_WRITE \<Rightarrow>
          (let (r, e) = do_pwrite env fd buf (read_bytes (w_mem w) buf (unat cnt)) offset (w_ext w)
           in (r, w\<lparr>w_ext := e\<rparr>)))"

text \<open>
  One Direct I/O transfer through a page-aligned bounce buffer; the buffer goes back to the pool
  at the end of the scope, also when the transfer throws.
\<close>

definition bounce_io ::
  "'e io_env \<Rightarrow> IOOperationType \<Rightarrow> int \<Rightarrow> ptr \<Rightarrow> size_t \<Rightarrow> size_t \<Rightarrow> 'e world \<Rightarrow> size_t res \<times> 'e world" where
  "bounce_io env op fd_direct_on buffer bytes cur_offset w =
     (case get_bounce env Page_Aligned w of
        (Inl x, w1) \<Rightarrow> (Inl x, w1)
      | (Inr b, w1) \<Rightarrow>
          (let bytes_requested = min bytes (bf_size b);
               (r, w2) =
                 (case op of
                    IO_READ \<Rightarrow>
                      (case do_pread env fd_direct_on (bf_buffer b) bytes_requested cur_offset (w_ext w1) of
                         (Inl x, e) \<Rightarrow> (Inl x, w1\<lparr>w_ext := e\<rparr>)
                       | (Inr bs, e) \<Rightarrow>
                           (Inr (of_nat (length bs)), w1\<lparr>w_mem := write_bytes (w_mem w1) buffer bs, w_ext := e\<rparr>))
                  | IO_WRITE \<Rightarrow>
                      (let (r, e) = do_pwrite env fd_direct_on (bf_buffer b)
                                      (read_bytes (w_mem w1) buffer (unat bytes_requested)) cur_offset (w_ext w1)
                       in (r, w1\<lparr>w_ext := e\<rparr>)))
           in (r, drop_bounce env Page_Aligned b w2)))"

text \<open>The body of the loop of \<open>posix_host_io\<close>, up to the number of bytes processed.\<close>

definition host_io_step ::
  "'e io_env \<Rightarrow> IOOperationType \<Rightarrow> int \<Rightarrow> int \<Rightarrow> ptr \<Rightarrow> size_t \<Rightarrow> size_t \<Rightarrow> 'e world \<Rightarrow> size_t res \<times> 'e world" where
  "host_io_step env op fd_direct_off fd_direct_on buffer bytes_remaining cur_offset w =
     (let page_size = env_page_size env in
      if fd_direct_on = -1 then pread_or_write env op fd_direct_off buffer bytes_remaining cur_offset w
      else case is_aligned cur_offset page_size of
        Inl x \<Rightarrow> (Inl x, w)
      | Inr False \<Rightarrow>
          (case align_up cur_offset page_size of
             Inl x \<Rightarrow> (Inl x, w)
           | Inr aligned_cur_offset \<Rightarrow>
               pread_or_write env op fd_direct_off buffer
                 (min (aligned_cur_offset - cur_offset) bytes_remaining) cur_offset w)
      | Inr True \<Rightarrow>
          if bytes_remaining < page_size
          then pread_or_write env op fd_direct_off buffer bytes_remaining cur_offset w
          else case align_down bytes_remaining page_size of
            Inl x \<Rightarrow> (Inl x, w)
          | Inr aligned_bytes_remaining \<Rightarrow>
              (case is_aligned_ptr buffer page_size of
                 Inl x \<Rightarrow> (Inl x, w)
               | Inr False \<Rightarrow> bounce_io env op fd_direct_on buffer aligned_bytes_remaining cur_offset w
               | Inr True \<Rightarrow> pread_or_write env op fd_direct_on buffer aligned_bytes_remaining cur_offset w))"

partial_function (option) host_io_loop ::
  "'e io_env \<Rightarrow> IOOperationType \<Rightarrow> PartialIO \<Rightarrow> int \<Rightarrow> int \<Rightarrow> size_t \<Rightarrow> ptr \<Rightarrow> size_t \<Rightarrow> size_t \<Rightarrow> 'e world \<Rightarrow>
   (size_t res \<times> 'e world) option" where
  "host_io_loop env op status fd_direct_off fd_direct_on cnt buffer bytes_remaining cur_offset w =
     (if bytes_remaining > 0 then
        (case host_io_step env op fd_direct_off fd_direct_on buffer bytes_remaining cur_offset w of
           (Inl x, w1) \<Rightarrow> Some (Inl x, w1)
         | (Inr n, w1) \<Rightarrow>
             if op = IO_READ \<and> n = 0 then Some (Inl CUfile_Exception, w1)
             else if status = YES then Some (Inr n, w1)
             else host_io_loop env op status fd_direct_off fd_direct_on cnt
                    (buffer + n) (bytes_remaining - n) (cur_offset + n) w1)
      else Some (convert_size2ssize cnt, w))"

declare host_io_loop.simps [code]

definition posix_host_io ::
  "'e io_env \<Rightarrow> IOOperationType \<Rightarrow> PartialIO \<Rightarrow> int \<Rightarrow> ptr \<Rightarrow> size_t \<Rightarrow> size_t \<Rightarrow> int \<Rightarrow> 'e world \<Rightarrow>
   (size_t res \<times> 'e world) option" where
  "posix_host_io env op status fd_direct_off buf cnt offset fd_direct_on w =
     host_io_loop env op status fd_direct_off fd_direct_on cnt buf cnt offset w"

definition posix_host_read ::
  "'e io_env \<Rightarrow> PartialIO \<Rightarrow> int \<Rightarrow> ptr \<Rightarrow> size_t \<Rightarrow> size_t \<Rightarrow> int \<Rightarrow> 'e world \<Rightarrow> (size_t res \<times> 'e world) option" where
  "posix_host_read env status fd_direct_off buf sz file_offset fd_direct_on w =
     (let cur_fd_direct_on = (if fd_direct_on \<noteq> -1 \<and> auto_direct_io_read env then fd_direct_on else -1)
      in posix_host_io env IO_READ status fd_direct_off buf sz file_offset cur_fd_direct_on w)"

definition posix_host_write ::
  "'e io_env \<Rightarrow> PartialIO \<Rightarrow> int \<Rightarrow> ptr \<Rightarrow> size_t \<Rightarrow> size_t \<Rightarrow> int \<Rightarrow> 'e world \<Rightarrow> (size_t res \<times> 'e world) option" where
  "posix_host_write env status fd_direct_off buf sz file_offset fd_direct_on w =
     (let cur_fd_direct_on = (if fd_direct_on \<noteq> -1 \<and> auto_direct_io_write env then fd_direct_on else -1)
      in posix_host_io env IO_WRITE status fd_direct_off buf sz file_offset cur_fd_direct_on w)"

section \<open>Device memory\<close>

text \<open>
  A copy between a host bounce buffer and device memory, with the stream synchronised after it;
  \<open>env_copy\<close> says whether both driver calls succeed.
\<close>

definition copy_to_device :: "'e io_env \<Rightarrow> ptr \<Rightarrow> ptr \<Rightarrow> size_t \<Rightarrow> 'e world \<Rightarrow> unit res \<times> 'e world" where
  "copy_to_device env devPtr src n w =
     (case env_copy env (w_ext w) of
        (False, e) \<Rightarrow> (Inl CUfile_Exception, w\<lparr>w_ext := e\<rparr>)
      | (True, e) \<Rightarrow> (Inr (), w\<lparr>w_dev := write_bytes (w_dev w) devPtr (read_bytes (w_mem w) src (unat n)), w_ext := e\<rparr>))"

definition copy_from_device :: "'e io_env \<Rightarrow> ptr \<Rightarrow> ptr \<Rightarrow> size_t \<Rightarrow> 'e world \<Rightarrow> unit res \<times> 'e world" where
  "copy_from_device env dst devPtr n w =
     (case env_copy env (w_ext w) of
        (False, e) \<Rightarrow> (Inl CUfile_Exception, w\<lparr>w_ext := e\<rparr>)
      | (True, e) \<Rightarrow> (Inr (), w\<lparr>w_mem := write_bytes (w_mem w) dst (read_bytes (w_dev w) devPtr (unat n)), w_ext := e\<rparr>))"

text \<open>The body of the loop of \<open>posix_device_io\<close>: the bytes moved, or \<open>None\<close> if it does not return.\<close>

definition device_io_step ::
  "'e io_env \<Rightarrow> IOOperationType \<Rightarrow> int \<Rightarrow> int \<Rightarrow> Buffer \<Rightarrow> ptr \<Rightarrow> size_t \<Rightarrow> size_t \<Rightarrow> 'e world \<Rightarrow>
   (size_t res \<times> 'e world) option" where
  "device_io_step env op fd_direct_off fd_direct_on b devPtr bytes_remaining cur_file_offset w =
     (let nbytes_requested = min (bf_size b) bytes_remaining in
      case op of
        IO_READ \<Rightarrow>
          (case posix_host_io env IO_READ YES fd_direct_off (bf_buffer b) nbytes_requested cur_file_offset fd_direct_on w of
             None \<Rightarrow> None
           | Some (Inl x, w1) \<Rightarrow> Some (Inl x, w1)
           | Some (Inr nbytes_io, w1) \<Rightarrow>
               (case copy_to_device env devPtr (bf_buffer b) nbytes_io w1 of
                  (Inl x, w2) \<Rightarrow> Some (Inl x, w2) | (Inr _, w2) \<Rightarrow> Some (Inr nbytes_io, w2)))
      | IO_WRITE \<Rightarrow>
          (case copy_from_device env (bf_buffer b) devPtr nbytes_requested w of
             (Inl x, w1) \<Rightarrow> Some (Inl x, w1)
           | (Inr _, w1) \<Rightarrow>
               (case posix_host_io env IO_WRITE NO fd_direct_off (bf_buffer b) nbytes_requested cur_file_offset fd_direct_on w1 of
                  None \<Rightarrow> None
                | Some (Inl x, w2) \<Rightarrow> Some (Inl x, w2)
                | Some (Inr _, w2) \<Rightarrow> Some (Inr nbytes_requested, w2))))"

partial_function (option) device_io_loop ::
  "'e io_env \<Rightarrow> IOOperationType \<Rightarrow> int \<Rightarrow> int \<Rightarrow> Buffer \<Rightarrow> size_t \<Rightarrow> ptr \<Rightarrow> size_t \<Rightarrow> size_t \<Rightarrow> 'e world \<Rightarrow>
   (size_t res \<times> 'e world) option" where
  "device_io_loop env op fd_direct_off fd_direct_on b sz devPtr bytes_remaining cur_file_offset w =
     (if bytes_remaining > 0 then
        (case device_io_step env op fd_direct_off fd_direct_on b devPtr bytes_remaining cur_file_offset w of
           None \<Rightarrow> None
         | Some x \<Rightarrow>
             (case x of
                (Inl err, w1) \<Rightarrow> Some (Inl err, w1)
              | (Inr n, w1) \<Rightarrow>
                  device_io_loop env op fd_direct_off fd_direct_on b sz (devPtr + n) (bytes_remaining - n) (cur_file_offset + n) w1))
      else Some (Inr sz, w))"

declare device_io_loop.simps [code]

definition posix_device_io ::
  "'e io_env \<Rightarrow> IOOperationType \<Rightarrow> pool_kind \<Rightarrow> int \<Rightarrow> ptr \<Rightarrow> size_t \<Rightarrow> size_t \<Rightarrow> size_t \<Rightarrow> int \<Rightarrow> 'e world \<Rightarrow>
   (size_t res \<times> 'e world) option" where
  "posix_device_io env op k fd_direct_off devPtr_base sz file_offset devPtr_offset fd_direct_on w =
     (if k = Cuda_Pinned \<and> fd_direct_on \<noteq> -1 then Some (Inl CUfile_Exception, w)
      else case get_bounce env k w of
        (Inl x, w1) \<Rightarrow> Some (Inl x, w1)
      | (Inr b, w1) \<Rightarrow>
          map_option (\<lambda>(r, w2). (r, drop_bounce env k b w2))
            (device_io_loop env op fd_direct_off fd_direct_on b sz (devPtr_base + devPtr_offset) sz file_offset w1))"

text \<open>The body of the loop of \<open>posix_device_read_aligned\<close>.\<close>

definition read_aligned_step ::
  "'e io_env \<Rightarrow> int \<Rightarrow> int \<Rightarrow> Buffer \<Rightarrow> ptr \<Rightarrow> size_t \<Rightarrow> size_t \<Rightarrow> 'e world \<Rightarrow> (size_t res \<times> 'e world) option" where
  "read_aligned_step env fd_direct_off fd_direct_on b devPtr bytes_remaining cur_file_offset w =
     (case align_down cur_file_offset (env_page_size env) of
        Inl x \<Rightarrow> Some (Inl x, w)
      | Inr aligned_offset \<Rightarrow>
          (let prefix = cur_file_offset - aligned_offset;
               nbytes_expected = min bytes_remaining (bf_size b - prefix)
           in case align_up (prefix + nbytes_expected) (env_page_size env) of
                Inl x \<Rightarrow> Some (Inl x, w)
              | Inr aligned_size \<Rightarrow>
                  (case posix_host_io env IO_READ YES fd_direct_off (bf_buffer b) aligned_size aligned_offset fd_direct_on w of
                     None \<Rightarrow> None
                   | Some (Inl x, w1) \<Rightarrow> Some (Inl x, w1)
                   | Some (Inr nbytes_io, w1) \<Rightarrow>
                       if \<not> nbytes_io > prefix then Some (Inl CUfile_Exception, w1)
                       else let nbytes_processed = min nbytes_expected (nbytes_io - prefix)
                            in case copy_to_device env devPtr (bf_buffer b + prefix) nbytes_processed w1 of
                                 (Inl x, w2) \<Rightarrow> Some (Inl x, w2)
                               | (Inr _, w2) \<Rightarrow> Some (Inr nbytes_processed, w2))))"

partial_function (option) read_aligned_loop ::
  "'e io_env \<Rightarrow> int \<Rightarrow> int \<Rightarrow> Buffer \<Rightarrow> size_t \<Rightarrow> ptr \<Rightarrow> size_t \<Rightarrow> size_t \<Rightarrow> 'e world \<Rightarrow>
   (size_t res \<times> 'e world) option" where
  "read_aligned_loop env fd_direct_off fd_direct_on b sz devPtr bytes_remaining cur_file_offset w =
     (if bytes_remaining > 0 then
        (case read_aligned_step env fd_direct_off fd_direct_on b devPtr bytes_remaining cur_file_offset w of
           None \<Rightarrow> None
         | Some x \<Rightarrow>
             (case x of
                (Inl err, w1) \<Rightarrow> Some (Inl err, w1)
              | (Inr n, w1) \<Rightarrow>
                  read_aligned_loop env fd_direct_off fd_direct_on b sz (devPtr + n) (bytes_remaining - n) (cur_file_offset + n) w1))
      else Some (Inr sz, w))"

declare read_aligned_loop.simps [code]

definition posix_device_read_aligned ::
  "'e io_env \<Rightarrow> int \<Rightarrow> ptr \<Rightarrow> size_t \<Rightarrow> size_t \<Rightarrow> size_t \<Rightarrow> int \<Rightarrow> 'e world \<Rightarrow> (size_t res \<times> 'e world) option" where
  "posix_device_read_aligned env fd_direct_off devPtr_base sz file_offset devPtr_offset fd_direct_on w =
     (case get_bounce env Cuda_Page_Aligned_Pinned w of
        (Inl x, w1) \<Rightarrow> Some (Inl x, w1)
      | (Inr b, w1) \<Rightarrow>
          map_option (\<lambda>(r, w2). (r, drop_bounce env Cuda_Page_Aligned_Pinned b w2))
            (read_aligned_loop env fd_direct_off fd_direct_on b sz (devPtr_base + devPtr_offset) sz file_offset w1))"

definition posix_device_read ::
  "'e io_env \<Rightarrow> int \<Rightarrow> ptr \<Rightarrow> size_t \<Rightarrow> size_t \<Rightarrow> size_t \<Rightarrow> int \<Rightarrow> 'e world \<Rightarrow> (size_t res \<times> 'e world) option" where
  "posix_device_read env fd_direct_off devPtr_base sz file_offset devPtr_offset fd_direct_on w =
     (let lower_bound = 2 * env_page_size env in
      if fd_direct_on \<noteq> -1 \<and> auto_direct_io_read env \<and> env_bounce_buffer_size env \<ge> lower_bound then
        (if auto_direct_io_read_overread env
         then posix_device_read_aligned env fd_direct_off devPtr_base sz file_offset devPtr_offset fd_direct_on w
         else posix_device_io env IO_READ Cuda_Page_Aligned_Pinned fd_direct_off devPtr_base sz file_offset devPtr_offset fd_direct_on w)
      else posix_device_io env IO_READ Cuda_Pinned fd_direct_off devPtr_base sz file_offset devPtr_offset (-1) w)"

definition posix_device_write ::
  "'e io_env \<Rightarrow> int \<Rightarrow> ptr \<Rightarrow> size_t \<Rightarrow> size_t \<Rightarrow> size_t \<Rightarrow> int \<Rightarrow> 'e world \<Rightarrow> (size_t res \<times> 'e world) option" where
  "posix_device_write env fd_direct_off devPtr_base sz file_offset devPtr_offset fd_direct_on w =
     (if fd_direct_on \<noteq> -1 \<and> auto_direct_io_write env
      then posix_device_io env IO_WRITE Cuda_Page_Aligned_Pinned fd_direct_off devPtr_base sz file_offset devPtr_offset fd_direct_on w
      else posix_device_io env IO_WRITE Cuda_Pinned fd_direct_off devPtr_base sz file_offset devPtr_offset (-1) w)"

end
