(* ===== verification/Posix_Read.thy ===== *)
theory Posix_Read
  imports Posix_IO
begin

text \<open>
  Reading through POSIX is correct: the host and device read paths deliver exactly the bytes of
  the file, with short reads, Direct I/O, bounce buffers and over-reading in any combination. What
  is assumed of the outside world is stated by three predicates: the kernel returns a non-empty
  prefix of the bytes asked for before the end of the file, and for the Direct I/O descriptor only
  when offset, size and buffer are page aligned; the allocators do not run out of memory; and the
  driver's copies succeed. The proofs therefore show in particular that every Direct I/O request
  the code issues is aligned.
\<close>

section \<open>What is assumed of the outside world\<close>

definition env_sane :: "'e io_env \<Rightarrow> bool" where
  "env_sane env \<longleftrightarrow>
     is_power_of_2 (env_page_size env) \<and> unat (env_page_size env) \<le> 2 ^ 62 \<and>
     0 < env_bounce_buffer_size env \<and> unat (env_page_size env) dvd unat (env_bounce_buffer_size env)"

definition page_aligned :: "'e io_env \<Rightarrow> 64 word \<Rightarrow> bool" where
  "page_aligned env x \<longleftrightarrow> unat (env_page_size env) dvd unat x"

text \<open>\<open>K\<close> is an invariant of the outside state that all the calls keep.\<close>

definition memory_available :: "'e io_env \<Rightarrow> ('e \<Rightarrow> bool) \<Rightarrow> bool" where
  "memory_available env K \<longleftrightarrow>
     (\<forall>k e. K e \<longrightarrow>
        (\<forall>sz. \<exists>p e'. al_allocate (env_alloc env k) sz e = (Inr p, e') \<and> K e' \<and> p \<noteq> 0 \<and>
                     (k \<noteq> Cuda_Pinned \<longrightarrow> page_aligned env p)) \<and>
        (\<forall>p sz. \<exists>e'. al_deallocate (env_alloc env k) p sz e = (Inr (), e') \<and> K e'))"

definition file_readable :: "'e io_env \<Rightarrow> int \<Rightarrow> int \<Rightarrow> ('e \<Rightarrow> bool) \<Rightarrow> (nat \<Rightarrow> byte) \<Rightarrow> nat \<Rightarrow> bool" where
  "file_readable env fd_off fd_on K file fsize \<longleftrightarrow>
     fsize \<le> unat int64_max \<and>
     (\<forall>fd buf cnt off e.
        K e \<and> 0 < cnt \<and> unat off < fsize \<and>
        (fd = fd_off \<or> fd = fd_on \<and> fd \<noteq> -1 \<and> page_aligned env off \<and> page_aligned env cnt \<and> page_aligned env buf) \<longrightarrow>
        (\<exists>n e'. sys_pread (env_api env) fd buf cnt off e = (Inr (map file [unat off ..< unat off + n]), e') \<and>
                0 < n \<and> n \<le> unat cnt \<and> unat off + n \<le> fsize \<and> K e'))"

definition copies_succeed :: "'e io_env \<Rightarrow> ('e \<Rightarrow> bool) \<Rightarrow> bool" where
  "copies_succeed env K \<longleftrightarrow> (\<forall>e. K e \<longrightarrow> (\<exists>e'. env_copy env e = (True, e') \<and> K e'))"

definition world_ok :: "'e io_env \<Rightarrow> ('e \<Rightarrow> bool) \<Rightarrow> 'e world \<Rightarrow> bool" where
  "world_ok env K w \<longleftrightarrow>
     K (w_ext w) \<and>
     (\<forall>k. \<forall>p \<in> set (free_buffers (w_pool w k)). p \<noteq> 0 \<and> (k \<noteq> Cuda_Pinned \<longrightarrow> page_aligned env p))"

definition good_buffer :: "'e io_env \<Rightarrow> pool_kind \<Rightarrow> Buffer \<Rightarrow> bool" where
  "good_buffer env k b \<longleftrightarrow>
     bf_buffer b \<noteq> 0 \<and> bf_size b = env_bounce_buffer_size env \<and> (k \<noteq> Cuda_Pinned \<longrightarrow> page_aligned env (bf_buffer b))"

section \<open>Bounce buffers\<close>

lemma deallocate_buffers_available:
  assumes "memory_available env K"
  shows "K e \<Longrightarrow> \<exists>e'. deallocate_buffers (env_alloc env k) bs sz e = (Inr (), e') \<and> K e'"
proof (induction bs arbitrary: e)
  case Nil
  then show ?case by simp
next
  case (Cons b bs)
  obtain e1 where "al_deallocate (env_alloc env k) b sz e = (Inr (), e1)" "K e1"
    using assms Cons.prems unfolding memory_available_def by blast
  with Cons.IH [of e1] show ?case by simp
qed

lemma ensure_buffer_size_free:
  "ensure_buffer_size cfg pool = (st, pool') \<Longrightarrow>
   buffer_size pool' = cfg \<and> set (free_buffers pool') \<subseteq> set (free_buffers pool)"
  by (auto simp: ensure_buffer_size_def detach_free_buffers_def split: if_splits)

lemma get_bounce_ok:
  assumes "memory_available env K" "world_ok env K w"
  obtains b w1 where "get_bounce env k w = (Inr b, w1)" "good_buffer env k b" "world_ok env K w1"
    "w_mem w1 = w_mem w" "w_dev w1 = w_dev w"
proof -
  let ?al = "env_alloc env k" and ?cfg = "env_bounce_buffer_size env"
  obtain stale ssz pool1 where e: "ensure_buffer_size ?cfg (w_pool w k) = ((stale, ssz), pool1)"
    by (metis prod.collapse)
  note en = ensure_buffer_size_free [OF e]
  obtain e1 where d: "deallocate_buffers ?al stale ssz (w_ext w) = (Inr (), e1)" "K e1"
    using deallocate_buffers_available [OF assms(1)] assms(2) by (metis world_ok_def)
  have free: "p \<noteq> 0 \<and> (k \<noteq> Cuda_Pinned \<longrightarrow> page_aligned env p)" if "p \<in> set (free_buffers pool1)" for p
    using assms(2) en that by (auto simp: world_ok_def)
  show thesis
  proof (cases "free_buffers pool1")
    case (Cons b bs)
    with e d have g: "get_bounce env k w = (Inr \<lparr>bf_buffer = b, bf_size = ?cfg\<rparr>,
        w\<lparr>w_pool := (w_pool w)(k := pool1\<lparr>free_buffers := bs\<rparr>), w_ext := e1\<rparr>)"
      using free [of b] en by (simp add: get_bounce_def pool_get_def)
    show thesis
      by (rule that [OF g]) (use assms(2) free Cons d(2) in \<open>auto simp: good_buffer_def world_ok_def\<close>)
  next
    case Nil
    obtain p e2 where a: "al_allocate ?al ?cfg e1 = (Inr p, e2)" "K e2" "p \<noteq> 0"
      "k \<noteq> Cuda_Pinned \<longrightarrow> page_aligned env p"
      using assms(1) d(2) unfolding memory_available_def by metis
    with e d Nil en have g: "get_bounce env k w = (Inr \<lparr>bf_buffer = p, bf_size = ?cfg\<rparr>,
        w\<lparr>w_pool := (w_pool w)(k := pool1), w_ext := e2\<rparr>)"
      by (simp add: get_bounce_def pool_get_def)
    show thesis
      by (rule that [OF g]) (use assms(2) free Nil a in \<open>auto simp: good_buffer_def world_ok_def\<close>)
  qed
qed

lemma drop_bounce_ok:
  assumes "memory_available env K" "world_ok env K w" "good_buffer env k b"
  shows "world_ok env K (drop_bounce env k b w)"
    "w_mem (drop_bounce env k b w) = w_mem w" "w_dev (drop_bounce env k b w) = w_dev w"
proof -
  let ?al = "env_alloc env k" and ?cfg = "env_bounce_buffer_size env"
  obtain stale ssz pool1 where e: "ensure_buffer_size ?cfg (w_pool w k) = ((stale, ssz), pool1)"
    by (metis prod.collapse)
  note en = ensure_buffer_size_free [OF e]
  obtain e1 where d: "deallocate_buffers ?al stale ssz (w_ext w) = (Inr (), e1)" "K e1"
    using deallocate_buffers_available [OF assms(1)] assms(2) by (metis world_ok_def)
  have w1: "drop_bounce env k b w = w\<lparr>w_pool := (w_pool w)(k := pool1\<lparr>free_buffers := bf_buffer b # free_buffers pool1\<rparr>), w_ext := e1\<rparr>"
    using assms(3) e d en by (simp add: drop_bounce_def buffer_destroy_def pool_put_def good_buffer_def)
  show "world_ok env K (drop_bounce env k b w)"
    using assms(2,3) d(2) en unfolding w1 by (auto simp: world_ok_def good_buffer_def)
  show "w_mem (drop_bounce env k b w) = w_mem w" "w_dev (drop_bounce env k b w) = w_dev w"
    by (simp_all add: w1)
qed

section \<open>One transfer\<close>

definition moved :: "'e world \<Rightarrow> ptr \<Rightarrow> (nat \<Rightarrow> byte) \<Rightarrow> size_t \<Rightarrow> size_t \<Rightarrow> 'e world \<Rightarrow> bool" where
  "moved w buf file off n w' \<longleftrightarrow>
     w_mem w' = write_bytes (w_mem w) buf (map file [unat off ..< unat off + unat n]) \<and> w_dev w' = w_dev w"

definition read_done ::
  "'e io_env \<Rightarrow> ('e \<Rightarrow> bool) \<Rightarrow> (nat \<Rightarrow> byte) \<Rightarrow> nat \<Rightarrow> 'e world \<Rightarrow> ptr \<Rightarrow> size_t \<Rightarrow> size_t \<Rightarrow> size_t res \<times> 'e world \<Rightarrow> bool" where
  "read_done env K file fsize w buf cnt off r \<longleftrightarrow>
     (\<exists>n w'. r = (Inr n, w') \<and> 0 < n \<and> n \<le> cnt \<and> unat off + unat n \<le> fsize \<and>
             moved w buf file off n w' \<and> world_ok env K w')"

lemma do_pread_ok:
  assumes "file_readable env fd_off fd_on K file fsize" "K e" "0 < cnt" "unat off < fsize"
    and "fd = fd_off \<or> fd = fd_on \<and> fd \<noteq> -1 \<and> page_aligned env off \<and> page_aligned env cnt \<and> page_aligned env buf"
  obtains n e' where "do_pread env fd buf cnt off e = (Inr (map file [unat off ..< unat off + unat n]), e')"
    "0 < n" "n \<le> cnt" "unat off + unat n \<le> fsize" "K e'"
proof -
  obtain n e' where p: "sys_pread (env_api env) fd buf cnt off e = (Inr (map file [unat off ..< unat off + n]), e')"
    "0 < n" "n \<le> unat cnt" "unat off + n \<le> fsize" "K e'"
    using assms unfolding file_readable_def by blast
  have off: "off < int64_max"
    using assms(1,4) by (simp add: file_readable_def word_less_nat_alt)
  have n: "unat (of_nat n :: size_t) = n"
    using p(3) size_t_range [of cnt] by (intro unat_of_nat_size_t) simp
  show thesis
  proof (rule that [of "of_nat n" e'])
    show "do_pread env fd buf cnt off e = (Inr (map file [unat off ..< unat off + unat (of_nat n :: size_t)]), e')"
      using off p(1) by (simp add: do_pread_def convert_size2off_def n)
  qed (use p n in \<open>simp_all add: word_less_nat_alt word_le_nat_alt\<close>)
qed

lemma pread_or_write_read:
  assumes "file_readable env fd_off fd_on K file fsize" "world_ok env K w" "0 < cnt" "unat off < fsize"
    and "fd = fd_off \<or> fd = fd_on \<and> fd \<noteq> -1 \<and> page_aligned env off \<and> page_aligned env cnt \<and> page_aligned env buf"
  shows "read_done env K file fsize w buf cnt off (pread_or_write env IO_READ fd buf cnt off w)"
proof -
  have "K (w_ext w)" using assms(2) by (simp add: world_ok_def)
  with assms obtain n e' where "do_pread env fd buf cnt off (w_ext w) = (Inr (map file [unat off ..< unat off + unat n]), e')"
    "0 < n" "n \<le> cnt" "unat off + unat n \<le> fsize" "K e'"
    by (metis do_pread_ok)
  with assms(2) show ?thesis
    by (simp add: read_done_def pread_or_write_def moved_def world_ok_def)
qed

lemma read_done_mono: "read_done env K file fsize w buf cnt off r \<Longrightarrow> cnt \<le> cnt' \<Longrightarrow> read_done env K file fsize w buf cnt' off r"
  by (auto simp: read_done_def intro: order_trans)

lemma bounce_io_read:
  assumes "file_readable env fd_off fd_on K file fsize" "memory_available env K" "env_sane env"
    and "world_ok env K w" "0 < bytes" "unat off < fsize" "page_aligned env off" "page_aligned env bytes" "fd_on \<noteq> -1"
  shows "read_done env K file fsize w buf bytes off (bounce_io env IO_READ fd_on buf bytes off w)"
proof -
  obtain b w1 where g: "get_bounce env Page_Aligned w = (Inr b, w1)" "good_buffer env Page_Aligned b"
    "world_ok env K w1" "w_mem w1 = w_mem w" "w_dev w1 = w_dev w"
    using get_bounce_ok [OF assms(2,4)] by blast
  let ?n = "min bytes (bf_size b)"
  have al: "page_aligned env ?n" "page_aligned env (bf_buffer b)" "0 < ?n"
    using assms(3,5,8) g(2) by (simp_all add: min_def page_aligned_def good_buffer_def env_sane_def)
  have "K (w_ext w1)" using g(3) by (simp add: world_ok_def)
  then obtain n e' where p: "do_pread env fd_on (bf_buffer b) ?n off (w_ext w1) = (Inr (map file [unat off ..< unat off + unat n]), e')"
    "0 < n" "n \<le> ?n" "unat off + unat n \<le> fsize" "K e'"
    using do_pread_ok [OF assms(1) _ al(3) assms(6), of "w_ext w1" fd_on "bf_buffer b"] al(1,2) assms(7,9) by metis
  let ?w2 = "w1\<lparr>w_mem := write_bytes (w_mem w1) buf (map file [unat off ..< unat off + unat n]), w_ext := e'\<rparr>"
  have "world_ok env K ?w2" using g(3) p(5) by (simp add: world_ok_def)
  from drop_bounce_ok [OF assms(2) this g(2)] g p show ?thesis
    by (auto simp: read_done_def bounce_io_def moved_def Let_def)
qed

text \<open>
  What one iteration of \<open>posix_host_io\<close> does, for reads and writes alike: a buffered transfer of
  some of the remaining bytes, or a page-aligned transfer on the Direct I/O descriptor, straight
  from or to an aligned buffer or through a bounce buffer.
\<close>

lemma host_io_step_cases:
  assumes sane: "env_sane env" and rem: "0 < rem" and off: "off < int64_max"
  obtains (buffered) c where "0 < c" "c \<le> rem"
      "host_io_step env op fd_off fd_on buf rem off w = pread_or_write env op fd_off buf c off w"
    | (direct) c where "0 < c" "c \<le> rem" "fd_on \<noteq> -1" "page_aligned env off" "page_aligned env c" "page_aligned env buf"
      "host_io_step env op fd_off fd_on buf rem off w = pread_or_write env op fd_on buf c off w"
    | (bounce) c where "0 < c" "c \<le> rem" "fd_on \<noteq> -1" "page_aligned env off" "page_aligned env c"
      "host_io_step env op fd_off fd_on buf rem off w = bounce_io env op fd_on buf c off w"
proof -
  let ?ps = "env_page_size env"
  have ps: "is_power_of_2 ?ps" "0 < unat ?ps"
    using sane by (auto simp: env_sane_def is_power_of_2_def word_less_nat_alt)
  have aligned: "is_aligned off ?ps = Inr (page_aligned env off)" "is_aligned_ptr buf ?ps = Inr (page_aligned env buf)"
    using ps(1) by (simp_all add: align_ptr_eq is_aligned_eq page_aligned_def)
  have "unat off + unat ?ps \<le> 2 ^ 64"
    using off sane by (simp add: env_sane_def int64_max_def word_less_nat_alt)
  then obtain up where up: "align_up off ?ps = Inr up" "is_aligned up ?ps = Inr True" "off \<le> up"
    using align_up_least_aligned [OF ps(1)] by blast
  obtain down where down: "align_down rem ?ps = Inr down" "unat down = unat rem div unat ?ps * unat ?ps"
    using ps(1) by (rule align_down_eq)
  consider (plain) "fd_on = -1" | (prefix) "fd_on \<noteq> -1" "\<not> page_aligned env off"
    | (suffix) "fd_on \<noteq> -1" "page_aligned env off" "rem < ?ps"
    | (dir) "fd_on \<noteq> -1" "page_aligned env off" "?ps \<le> rem"
    using linorder_not_less by blast
  then show thesis
  proof cases
    case plain
    then show thesis using rem by (intro buffered [of rem]) (simp_all add: host_io_step_def)
  next
    case prefix
    have "off \<noteq> up" using prefix(2) up(2) ps(1) by (auto simp: is_aligned_eq page_aligned_def)
    with up(3) have "0 < min (up - off) rem" using rem by (simp add: min_def word_gt_0)
    with prefix show thesis
      by (intro buffered [of "min (up - off) rem"]) (simp_all add: host_io_step_def aligned up(1))
  next
    case suffix
    then show thesis using rem by (intro buffered [of rem]) (simp_all add: host_io_step_def aligned)
  next
    case dir
    have al: "page_aligned env down" by (simp add: page_aligned_def down(2))
    have "unat ?ps \<le> unat rem" using dir(3) by (simp add: word_le_nat_alt)
    then have "0 < unat down" using ps(2) by (simp add: down(2) div_greater_zero_iff)
    then have pos: "0 < down" by (simp add: word_less_nat_alt)
    have le: "down \<le> rem" by (simp add: word_le_nat_alt down(2))
    have nl: "\<not> rem < ?ps" using dir(3) by simp
    show thesis
    proof (cases "page_aligned env buf")
      case True
      with pos le dir al nl show thesis
        by (intro direct [of down]) (simp_all add: host_io_step_def aligned down(1) Let_def)
    next
      case False
      with pos le dir al nl show thesis
        by (intro bounce [of down]) (simp_all add: host_io_step_def aligned down(1) Let_def)
    qed
  qed
qed

lemma host_io_step_read:
  assumes readable: "file_readable env fd_off fd_on K file fsize" and avail: "memory_available env K"
    and sane: "env_sane env" and w: "world_ok env K w" and rem: "0 < rem" and off: "unat off < fsize"
  shows "read_done env K file fsize w buf rem off (host_io_step env IO_READ fd_off fd_on buf rem off w)"
proof -
  have "off < int64_max" using readable off by (simp add: file_readable_def word_less_nat_alt)
  with sane rem show ?thesis
  proof (cases rule: host_io_step_cases [of env rem off IO_READ fd_off fd_on buf w])
    case (buffered c)
    with read_done_mono [OF pread_or_write_read [OF readable w buffered(1) off, of fd_off buf]] show ?thesis by simp
  next
    case (direct c)
    with read_done_mono [OF pread_or_write_read [OF readable w direct(1) off, of fd_on buf]] show ?thesis by simp
  next
    case (bounce c)
    with read_done_mono [OF bounce_io_read [OF readable avail sane w bounce(1) off bounce(4,5,3)]] show ?thesis by simp
  qed
qed

section \<open>Reading into host memory\<close>

lemma moved_append:
  assumes "moved w buf file off n w1" "moved w1 (buf + n) file (off + n) k w2"
    and "fits off n" "unat n + unat k \<le> 2 ^ 64" "unat (n + k) = unat n + unat k"
  shows "moved w buf file off (n + k) w2"
proof -
  let ?xs = "map file [unat off ..< unat off + unat n]"
  let ?ys = "map file [unat off + unat n ..< unat off + unat n + unat k]"
  have "write_bytes (write_bytes (w_mem w) buf ?xs) (buf + of_nat (length ?xs)) ?ys = write_bytes (w_mem w) buf (?xs @ ?ys)"
    using assms(4) by (intro write_bytes_append) simp
  then show ?thesis
    using assms by (simp add: moved_def unat_plus_fits add.assoc upt_split flip: map_append)
qed

lemma host_io_loop_read:
  assumes readable: "file_readable env fd_off fd_on K file fsize" and avail: "memory_available env K"
    and sane: "env_sane env" and cnt: "cnt < int64_max"
  shows "world_ok env K w \<Longrightarrow> unat off + unat rem \<le> fsize \<Longrightarrow>
    \<exists>w'. host_io_loop env IO_READ NO fd_off fd_on cnt buf rem off w = Some (Inr cnt, w') \<and>
         moved w buf file off rem w' \<and> world_ok env K w'"
proof (induction "unat rem" arbitrary: w buf rem off rule: less_induct)
  case less
  show ?case
  proof (cases "rem = 0")
    case True
    with less.prems cnt show ?thesis
      by (simp add: host_io_loop.simps [of env IO_READ] convert_size2ssize_def moved_def)
  next
    case False
    then have rem: "0 < rem" "0 < unat rem" by (simp_all add: word_gt_0 unat_gt_0)
    with less.prems(2) have "unat off < fsize" by simp
    from host_io_step_read [OF readable avail sane less.prems(1) rem(1) this, of buf]
    obtain n w1 where s: "host_io_step env IO_READ fd_off fd_on buf rem off w = (Inr n, w1)"
      "0 < n" "n \<le> rem" "moved w buf file off n w1" "world_ok env K w1"
      by (auto simp: read_done_def)
    have fs: "fsize < 2 ^ 63" using readable by (simp add: file_readable_def int64_max_def)
    have n: "unat n \<le> unat rem" "0 < unat n" using s(2,3) by (simp_all add: word_le_nat_alt word_less_nat_alt)
    have sub: "unat (rem - n) = unat rem - unat n" using s(3) by (rule unat_minus_no_wrap)
    have add: "unat (off + n) = unat off + unat n" "fits off n"
      using less.prems(2) n fs unat_plus_no_wrap [of off n] by (simp_all add: fits_def)
    have "unat (rem - n) < unat rem" "unat (off + n) + unat (rem - n) \<le> fsize"
      using n sub add less.prems(2) by simp_all
    from less.hyps [OF this(1) s(5) this(2), of "buf + n"] obtain w2 where
      IH: "host_io_loop env IO_READ NO fd_off fd_on cnt (buf + n) (rem - n) (off + n) w1 = Some (Inr cnt, w2)"
      "moved w1 (buf + n) file (off + n) (rem - n) w2" "world_ok env K w2" by blast
    have "moved w buf file off (n + (rem - n)) w2"
      using s(4) IH(2) add(2) by (rule moved_append) (use n sub size_t_range [of rem] in simp_all)
    then have "moved w buf file off rem w2" by simp
    with rem s IH show ?thesis
      by (simp add: host_io_loop.simps [of env IO_READ _ _ _ _ buf])
  qed
qed

lemma posix_host_io_partial:
  assumes "file_readable env fd_off fd_on K file fsize" "memory_available env K" "env_sane env"
    and "world_ok env K w" "0 < cnt" "unat off < fsize"
  shows "\<exists>r. posix_host_io env IO_READ YES fd_off buf cnt off fd_on w = Some r \<and>
             read_done env K file fsize w buf cnt off r"
  using host_io_step_read [OF assms, of buf] assms(5)
  by (auto simp: posix_host_io_def host_io_loop.simps [of env IO_READ YES] read_done_def)

section \<open>Reading into device memory\<close>

text \<open>Progress of a device read: the device memory has the file's bytes, host memory is scratch.\<close>

definition dev_moved :: "'e world \<Rightarrow> ptr \<Rightarrow> (nat \<Rightarrow> byte) \<Rightarrow> size_t \<Rightarrow> size_t \<Rightarrow> 'e world \<Rightarrow> bool" where
  "dev_moved w devPtr file off n w' \<longleftrightarrow>
     w_dev w' = write_bytes (w_dev w) devPtr (map file [unat off ..< unat off + unat n])"

lemma dev_moved_append:
  assumes "dev_moved w buf file off n w1" "dev_moved w1 (buf + n) file (off + n) k w2"
    and "fits off n" "unat n + unat k \<le> 2 ^ 64" "unat (n + k) = unat n + unat k"
  shows "dev_moved w buf file off (n + k) w2"
proof -
  let ?xs = "map file [unat off ..< unat off + unat n]"
  let ?ys = "map file [unat off + unat n ..< unat off + unat n + unat k]"
  have "write_bytes (write_bytes (w_dev w) buf ?xs) (buf + of_nat (length ?xs)) ?ys = write_bytes (w_dev w) buf (?xs @ ?ys)"
    using assms(4) by (intro write_bytes_append) simp
  then show ?thesis
    using assms by (simp add: dev_moved_def unat_plus_fits add.assoc upt_split flip: map_append)
qed

text \<open>
  A loop that repeats a step moving some of the remaining bytes. Both device loops are instances:
  \<open>step devPtr rem off w\<close> is their body.
\<close>

definition dev_step_ok ::
  "'e io_env \<Rightarrow> ('e \<Rightarrow> bool) \<Rightarrow> (nat \<Rightarrow> byte) \<Rightarrow> nat \<Rightarrow>
   (ptr \<Rightarrow> size_t \<Rightarrow> size_t \<Rightarrow> 'e world \<Rightarrow> (size_t res \<times> 'e world) option) \<Rightarrow> bool" where
  "dev_step_ok env K file fsize step \<longleftrightarrow>
     (\<forall>devPtr rem off w. world_ok env K w \<and> 0 < rem \<and> unat off + unat rem \<le> fsize \<longrightarrow>
        (\<exists>n w'. step devPtr rem off w = Some (Inr n, w') \<and> 0 < n \<and> n \<le> rem \<and>
                dev_moved w devPtr file off n w' \<and> world_ok env K w'))"

lemma dev_loop:
  assumes unfold: "\<And>devPtr rem off w. loop devPtr rem off w =
      (if rem > 0 then (case step devPtr rem off w of None \<Rightarrow> None
         | Some x \<Rightarrow> (case x of (Inl err, w1) \<Rightarrow> Some (Inl err, w1)
                       | (Inr n, w1) \<Rightarrow> loop (devPtr + n) (rem - n) (off + n) w1))
       else Some (Inr sz, w))"
    and step: "dev_step_ok env K file fsize step" and fs: "fsize < 2 ^ 63"
  shows "world_ok env K w \<Longrightarrow> unat off + unat rem \<le> fsize \<Longrightarrow>
    \<exists>w'. loop devPtr rem off w = Some (Inr sz, w') \<and> dev_moved w devPtr file off rem w' \<and> world_ok env K w'"
proof (induction "unat rem" arbitrary: w devPtr rem off rule: less_induct)
  case less
  show ?case
  proof (cases "rem = 0")
    case True
    with less.prems show ?thesis by (subst unfold) (simp add: dev_moved_def)
  next
    case False
    then have rem: "0 < rem" by (simp add: word_gt_0)
    then obtain n w1 where s: "step devPtr rem off w = Some (Inr n, w1)"
      "0 < n" "n \<le> rem" "dev_moved w devPtr file off n w1" "world_ok env K w1"
      using step less.prems unfolding dev_step_ok_def by blast
    have n: "unat n \<le> unat rem" "0 < unat n" using s(2,3) by (simp_all add: word_le_nat_alt word_less_nat_alt)
    have sub: "unat (rem - n) = unat rem - unat n" using s(3) by (rule unat_minus_no_wrap)
    have add: "unat (off + n) = unat off + unat n" "fits off n"
      using less.prems(2) n fs unat_plus_no_wrap [of off n] by (simp_all add: fits_def)
    have "unat (rem - n) < unat rem" "unat (off + n) + unat (rem - n) \<le> fsize"
      using n sub add less.prems(2) by simp_all
    from less.hyps [OF this(1) s(5) this(2), of "devPtr + n"] obtain w2 where
      IH: "loop (devPtr + n) (rem - n) (off + n) w1 = Some (Inr sz, w2)"
      "dev_moved w1 (devPtr + n) file (off + n) (rem - n) w2" "world_ok env K w2" by blast
    have "dev_moved w devPtr file off (n + (rem - n)) w2"
      using s(4) IH(2) add(2) by (rule dev_moved_append) (use n sub size_t_range [of rem] in simp_all)
    then have "dev_moved w devPtr file off rem w2" by simp
    with rem s IH show ?thesis by (subst unfold) simp
  qed
qed

lemma copy_to_device_ok:
  assumes "copies_succeed env K" "world_ok env K w"
  obtains w' where "copy_to_device env devPtr src n w = (Inr (), w')" "world_ok env K w'"
    "w_dev w' = write_bytes (w_dev w) devPtr (read_bytes (w_mem w) src (unat n))"
proof -
  obtain e' where "env_copy env (w_ext w) = (True, e')" "K e'"
    using assms by (auto simp: copies_succeed_def world_ok_def)
  with assms(2) that show thesis by (simp add: copy_to_device_def world_ok_def)
qed

lemma device_io_step_read:
  assumes readable: "file_readable env fd_off fd_on K file fsize" and avail: "memory_available env K"
    and sane: "env_sane env" and copies: "copies_succeed env K" and b: "0 < bf_size b"
  shows "dev_step_ok env K file fsize
    (\<lambda>devPtr rem off w. device_io_step env IO_READ fd_off fd_on b devPtr rem off w)"
  unfolding dev_step_ok_def
proof (intro allI impI, elim conjE)
  fix devPtr :: ptr and rem off :: size_t and w
  assume w: "world_ok env K w" and rem: "0 < rem" and off: "unat off + unat rem \<le> fsize"
  let ?cnt = "min (bf_size b) rem"
  have cnt: "0 < ?cnt" "unat off < fsize" using rem b off by (simp_all add: word_less_nat_alt unat_min_size_t)
  obtain n w1 where p: "posix_host_io env IO_READ YES fd_off (bf_buffer b) ?cnt off fd_on w = Some (Inr n, w1)"
    "0 < n" "n \<le> ?cnt" "moved w (bf_buffer b) file off n w1" "world_ok env K w1"
    using posix_host_io_partial [OF readable avail sane w cnt, of "bf_buffer b"] unfolding read_done_def by blast
  obtain w2 where c: "copy_to_device env devPtr (bf_buffer b) n w1 = (Inr (), w2)" "world_ok env K w2"
    "w_dev w2 = write_bytes (w_dev w1) devPtr (read_bytes (w_mem w1) (bf_buffer b) (unat n))"
    using copy_to_device_ok [OF copies p(5)] by blast
  let ?bs = "map file [unat off ..< unat off + unat n]"
  have "read_bytes (w_mem w1) (bf_buffer b) (length ?bs) = ?bs"
    using p(4) read_write_bytes [of ?bs "w_mem w" "bf_buffer b"] size_t_range [of n] by (simp add: moved_def)
  then have "dev_moved w devPtr file off n w2"
    using p(4) c(3) by (simp add: dev_moved_def moved_def)
  with p c show "\<exists>n w'. device_io_step env IO_READ fd_off fd_on b devPtr rem off w = Some (Inr n, w') \<and> 0 < n \<and> n \<le> rem \<and>
      dev_moved w devPtr file off n w' \<and> world_ok env K w'"
    by (auto simp: device_io_step_def Let_def)
qed

lemma read_bytes_written:
  "k + j \<le> length bs \<Longrightarrow> length bs \<le> 2 ^ 64 \<Longrightarrow>
   read_bytes (write_bytes m a bs) (a + of_nat k) j = take j (drop k bs)"
  using write_bytes_inside [of _ bs m a] by (intro nth_equalityI) (simp_all add: add.assoc flip: of_nat_add)

text \<open>
  The over-reading path needs one thing more: a Direct I/O read returns at least its first page,
  unless it reaches the end of the file.
\<close>

definition direct_reads_pages :: "'e io_env \<Rightarrow> int \<Rightarrow> ('e \<Rightarrow> bool) \<Rightarrow> nat \<Rightarrow> bool" where
  "direct_reads_pages env fd_on K fsize \<longleftrightarrow>
     (\<forall>buf cnt off e bs e'. K e \<and> unat (env_page_size env) \<le> unat cnt \<and> unat off < fsize \<and>
        sys_pread (env_api env) fd_on buf cnt off e = (Inr bs, e') \<longrightarrow>
        unat (env_page_size env) \<le> length bs \<or> unat off + length bs = fsize)"

lemma host_io_step_direct:
  assumes "env_sane env" "fd_on \<noteq> -1" "page_aligned env off" "page_aligned env cnt" "page_aligned env buf" "0 < cnt"
  shows "host_io_step env IO_READ fd_off fd_on buf cnt off w = pread_or_write env IO_READ fd_on buf cnt off w"
    and "unat (env_page_size env) \<le> unat cnt"
proof -
  let ?ps = "env_page_size env"
  have ps: "is_power_of_2 ?ps" using assms(1) by (simp add: env_sane_def)
  show le: "unat ?ps \<le> unat cnt"
    using assms(4,6) by (simp add: page_aligned_def dvd_imp_le word_less_nat_alt)
  obtain d where d: "align_down cnt ?ps = Inr d" "unat d = unat cnt div unat ?ps * unat ?ps"
    using ps by (rule align_down_eq)
  have "d = cnt" using d(2) assms(4) by (simp add: page_aligned_def word_unat_eq_iff)
  with d(1) assms ps le show "host_io_step env IO_READ fd_off fd_on buf cnt off w = pread_or_write env IO_READ fd_on buf cnt off w"
    by (simp add: host_io_step_def is_aligned_eq align_ptr_eq page_aligned_def word_less_nat_alt)
qed

text \<open>The arithmetic of one over-reading step at offset \<open>off\<close> with \<open>rem\<close> bytes to go.\<close>

lemma overread_bounds:
  fixes rem off cfg ps :: size_t
  assumes "is_power_of_2 ps" "unat ps \<le> 2 ^ 62" "unat ps dvd unat cfg" "0 < cfg" "0 < rem"
    and "unat off + unat rem < 2 ^ 63"
  obtains a up where "align_down off ps = Inr a" "a \<le> off" "unat ps dvd unat a" "off - a < ps"
    "align_up (off - a + min rem (cfg - (off - a))) ps = Inr up" "unat ps dvd unat up"
    "unat (off - a) + unat (min rem (cfg - (off - a))) \<le> unat up" "0 < min rem (cfg - (off - a))"
proof -
  obtain a where a: "align_down off ps = Inr a" "is_aligned a ps = Inr True" "a \<le> off" "unat off - unat a < unat ps"
    using align_down_greatest_aligned [OF assms(1)] by blast
  let ?p = "off - a" and ?x = "min rem (cfg - (off - a))"
  have p: "unat ?p = unat off - unat a" using a(3) by (rule unat_minus_no_wrap)
  have "unat ps \<le> unat cfg" using assms(3,4) by (simp add: dvd_imp_le word_less_nat_alt)
  then have c: "unat (cfg - ?p) = unat cfg - unat ?p" "0 < unat (cfg - ?p)"
    using a(4) p by (simp_all add: unat_minus_no_wrap word_le_nat_alt)
  have x: "unat ?x \<le> unat rem" "0 < unat ?x"
    using c(2) assms(5) by (simp_all add: unat_min_size_t word_less_nat_alt)
  have s: "unat (?p + ?x) = unat ?p + unat ?x"
    using p x(1) a(4) assms(2,6) by (intro unat_plus_no_wrap) simp
  have "unat (?p + ?x) + unat ps \<le> 2 ^ 64" using s p x(1) a(4) assms(2,6) by simp
  then obtain up where up: "align_up (?p + ?x) ps = Inr up" "is_aligned up ps = Inr True" "?p + ?x \<le> up"
    using align_up_least_aligned [OF assms(1)] by blast
  show thesis
  proof (rule that [OF a(1,3) _ _ up(1)])
    show "unat ps dvd unat a" "unat ps dvd unat up" using a(2) up(2) assms(1) by (simp_all add: is_aligned_eq)
    show "off - a < ps" using p a(4) by (simp add: word_less_nat_alt)
    show "unat ?p + unat ?x \<le> unat up" using up(3) s by (simp add: word_le_nat_alt)
    show "0 < ?x" using x(2) by (simp add: word_less_nat_alt)
  qed
qed

lemma read_aligned_step_read:
  assumes readable: "file_readable env fd_off fd_on K file fsize" and avail: "memory_available env K"
    and sane: "env_sane env" and copies: "copies_succeed env K" and pages: "direct_reads_pages env fd_on K fsize"
    and b: "good_buffer env Cuda_Page_Aligned_Pinned b" and on: "fd_on \<noteq> -1"
  shows "dev_step_ok env K file fsize (\<lambda>devPtr rem off w. read_aligned_step env fd_off fd_on b devPtr rem off w)"
  unfolding dev_step_ok_def
proof (intro allI impI, elim conjE)
  fix devPtr :: ptr and rem off :: size_t and w
  assume w: "world_ok env K w" and rem: "0 < rem" and off: "unat off + unat rem \<le> fsize"
  let ?ps = "env_page_size env" and ?buf = "bf_buffer b"
  have fs: "fsize < 2 ^ 63" using readable by (simp add: file_readable_def int64_max_def)
  have ob: "is_power_of_2 ?ps" "unat ?ps \<le> 2 ^ 62" "unat ?ps dvd unat (bf_size b)" "0 < bf_size b" "unat off + unat rem < 2 ^ 63"
    using sane b off fs by (simp_all add: env_sane_def good_buffer_def)
  obtain a up where a: "align_down off ?ps = Inr a" "a \<le> off" "unat ?ps dvd unat a" "off - a < ?ps"
    and up: "align_up (off - a + min rem (bf_size b - (off - a))) ?ps = Inr up" "unat ?ps dvd unat up"
      "unat (off - a) + unat (min rem (bf_size b - (off - a))) \<le> unat up" "0 < min rem (bf_size b - (off - a))"
    using overread_bounds [OF ob(1-4) rem ob(5)] by blast
  let ?p = "off - a" and ?x = "min rem (bf_size b - (off - a))"
  have p: "unat ?p = unat off - unat a" "unat a \<le> unat off"
    using a(2) by (simp_all add: unat_minus_no_wrap word_le_nat_alt)
  have aligned: "page_aligned env a" "page_aligned env up" "page_aligned env ?buf" "0 < up" "unat a < fsize"
    using a(3) up b p rem off by (auto simp: page_aligned_def good_buffer_def word_less_nat_alt)
  note dir = host_io_step_direct [OF sane on aligned(1-4)]
  have K: "K (w_ext w)" using w by (simp add: world_ok_def)
  obtain n e1 where rd: "do_pread env fd_on ?buf up a (w_ext w) = (Inr (map file [unat a ..< unat a + unat n]), e1)"
    "0 < n" "n \<le> up" "unat a + unat n \<le> fsize" "K e1"
    using do_pread_ok [OF readable K aligned(4,5)] aligned(1-3) on by metis
  let ?bs = "map file [unat a ..< unat a + unat n]"
  have "a < int64_max" using aligned(5) readable by (simp add: file_readable_def word_less_nat_alt)
  with rd(1) have "sys_pread (env_api env) fd_on ?buf up a (w_ext w) = (Inr ?bs, e1)"
    by (auto simp: do_pread_def convert_size2off_def split: sum.splits prod.splits)
  with pages K dir(2) aligned(5) have "unat ?ps \<le> length ?bs \<or> unat a + length ?bs = fsize"
    unfolding direct_reads_pages_def by blast
  then have long: "unat ?p < unat n"
    using a(4) p off rem by (auto simp: word_less_nat_alt)
  let ?w1 = "w\<lparr>w_mem := write_bytes (w_mem w) ?buf ?bs, w_ext := e1\<rparr>"
  have io: "posix_host_io env IO_READ YES fd_off ?buf up a fd_on w = Some (Inr n, ?w1)"
    using rd(1,2) aligned(4) dir(1)
    by (simp add: posix_host_io_def host_io_loop.simps [of env IO_READ YES] pread_or_write_def)
  have w1: "world_ok env K ?w1" using w rd(5) by (simp add: world_ok_def)
  let ?m = "min ?x (n - ?p)"
  have sub: "unat (n - ?p) = unat n - unat ?p" using long by (intro unat_minus_no_wrap) (simp add: word_le_nat_alt)
  have m: "0 < ?m" "unat ?p + unat ?m \<le> unat n"
    using up(4) sub long by (auto simp: word_less_nat_alt unat_min_size_t)
  have le: "?m \<le> rem" by (simp add: min.coboundedI1)
  obtain w2 where c: "copy_to_device env devPtr (?buf + ?p) ?m ?w1 = (Inr (), w2)" "world_ok env K w2"
    "w_dev w2 = write_bytes (w_dev ?w1) devPtr (read_bytes (w_mem ?w1) (?buf + ?p) (unat ?m))"
    using copy_to_device_ok [OF copies w1] by blast
  have "read_bytes (w_mem ?w1) (?buf + ?p) (unat ?m) = take (unat ?m) (drop (unat ?p) ?bs)"
    using read_bytes_written [of "unat ?p" "unat ?m" ?bs "w_mem w" ?buf] m(2) size_t_range [of n] by simp
  also have "\<dots> = map file [unat off ..< unat off + unat ?m]"
    using m(2) p by (simp add: take_map drop_map)
  finally have "dev_moved w devPtr file off ?m w2" using c(3) by (simp add: dev_moved_def)
  moreover have "read_aligned_step env fd_off fd_on b devPtr rem off w = Some (Inr ?m, w2)"
    using long by (simp add: read_aligned_step_def a(1) up(1) io c(1) word_less_nat_alt Let_def)
  ultimately show "\<exists>n w'. read_aligned_step env fd_off fd_on b devPtr rem off w = Some (Inr n, w') \<and> 0 < n \<and> n \<le> rem \<and>
      dev_moved w devPtr file off n w' \<and> world_ok env K w'"
    using m(1) le c(2) by blast
qed

section \<open>Properties\<close>

lemma file_readable_buffered: "file_readable env fd_off fd_on K file fsize \<Longrightarrow> file_readable env fd_off (-1) K file fsize"
  by (auto simp: file_readable_def)

lemma posix_host_read_moves:
  assumes "file_readable env fd_off fd_on K file fsize" "memory_available env K" "env_sane env" "world_ok env K w"
    and "unat off + unat sz \<le> fsize" "sz < int64_max"
  shows "\<exists>w'. posix_host_read env NO fd_off buf sz off fd_on w = Some (Inr sz, w') \<and> moved w buf file off sz w' \<and> world_ok env K w'"
  using host_io_loop_read [OF assms(1-3,6,4,5), of buf]
    host_io_loop_read [OF file_readable_buffered [OF assms(1)] assms(2,3,6,4,5), of buf]
  by (auto simp: posix_host_read_def posix_host_io_def)


lemma posix_device_io_read:
  assumes "file_readable env fd_off fd_on K file fsize" "memory_available env K" "env_sane env" "copies_succeed env K"
    and "world_ok env K w" "unat off + unat sz \<le> fsize" "k = Cuda_Pinned \<longrightarrow> fd_on = -1"
  shows "\<exists>w'. posix_device_io env IO_READ k fd_off base sz off dpo fd_on w = Some (Inr sz, w') \<and>
              dev_moved w (base + dpo) file off sz w' \<and> world_ok env K w'"
proof -
  obtain b w1 where g: "get_bounce env k w = (Inr b, w1)" "good_buffer env k b" "world_ok env K w1" "w_dev w1 = w_dev w"
    using get_bounce_ok [OF assms(2,5)] by blast
  have b: "0 < bf_size b" using g(2) assms(3) by (simp add: good_buffer_def env_sane_def)
  have fs: "fsize < 2 ^ 63" using assms(1) by (simp add: file_readable_def int64_max_def)
  obtain w2 where l: "device_io_loop env IO_READ fd_off fd_on b sz (base + dpo) sz off w1 = Some (Inr sz, w2)"
    "dev_moved w1 (base + dpo) file off sz w2" "world_ok env K w2"
    using dev_loop [where sz = sz and loop = "device_io_loop env IO_READ fd_off fd_on b sz",
        OF device_io_loop.simps device_io_step_read [OF assms(1-4) b] fs g(3) assms(6)] by blast
  from drop_bounce_ok(1,3) [OF assms(2) l(3) g(2)] l g(1,4) assms(7) show ?thesis
    by (auto simp: posix_device_io_def dev_moved_def)
qed

lemma posix_device_read_aligned_read:
  assumes "file_readable env fd_off fd_on K file fsize" "memory_available env K" "env_sane env" "copies_succeed env K"
    and "direct_reads_pages env fd_on K fsize" "world_ok env K w" "unat off + unat sz \<le> fsize" "fd_on \<noteq> -1"
  shows "\<exists>w'. posix_device_read_aligned env fd_off base sz off dpo fd_on w = Some (Inr sz, w') \<and>
              dev_moved w (base + dpo) file off sz w' \<and> world_ok env K w'"
proof -
  let ?k = Cuda_Page_Aligned_Pinned
  obtain b w1 where g: "get_bounce env ?k w = (Inr b, w1)" "good_buffer env ?k b" "world_ok env K w1" "w_dev w1 = w_dev w"
    using get_bounce_ok [OF assms(2,6)] by blast
  have fs: "fsize < 2 ^ 63" using assms(1) by (simp add: file_readable_def int64_max_def)
  obtain w2 where l: "read_aligned_loop env fd_off fd_on b sz (base + dpo) sz off w1 = Some (Inr sz, w2)"
    "dev_moved w1 (base + dpo) file off sz w2" "world_ok env K w2"
    using dev_loop [where sz = sz and loop = "read_aligned_loop env fd_off fd_on b sz",
        OF read_aligned_loop.simps read_aligned_step_read [OF assms(1-5) g(2) assms(8)] fs g(3) assms(7)] by blast
  from drop_bounce_ok(1,3) [OF assms(2) l(3) g(2)] l g(1,4) show ?thesis
    by (auto simp: posix_device_read_aligned_def dev_moved_def)
qed

lemma posix_device_read_moves:
  assumes "file_readable env fd_off fd_on K file fsize" "memory_available env K" "env_sane env" "copies_succeed env K"
    and "direct_reads_pages env fd_on K fsize" "world_ok env K w" "unat off + unat sz \<le> fsize"
  shows "\<exists>w'. posix_device_read env fd_off base sz off dpo fd_on w = Some (Inr sz, w') \<and>
              dev_moved w (base + dpo) file off sz w' \<and> world_ok env K w'"
  using posix_device_io_read [OF assms(1-4,6,7), of Cuda_Page_Aligned_Pinned base dpo]
    posix_device_io_read [OF file_readable_buffered [OF assms(1)] assms(2-4,6,7), of Cuda_Pinned base dpo]
    posix_device_read_aligned_read [OF assms(1-7), of base dpo]
  by (auto simp: posix_device_read_def Let_def)


section \<open>A concrete environment\<close>

text \<open>
  A file of 32 bytes, pages of 4 bytes and bounce buffers of 8. The buffered descriptor 3 returns
  at most 5 bytes a call; the Direct I/O descriptor 4 refuses a request that is not page aligned.
  \<open>limit\<close> bounds what a direct read returns.
\<close>

definition example_file :: "nat \<Rightarrow> byte" where
  "example_file p = of_nat p"

definition example_pread :: "nat \<Rightarrow> int \<Rightarrow> ptr \<Rightarrow> size_t \<Rightarrow> size_t \<Rightarrow> unit \<Rightarrow> (nat + byte list) \<times> unit" where
  "example_pread limit fd buf cnt off e =
     (if fd = 3 then (Inr (map example_file [unat off ..< min (unat off + min (unat cnt) 5) 32]), ())
      else if unat cnt mod 4 = 0 \<and> unat off mod 4 = 0 \<and> unat buf mod 4 = 0
      then (Inr (map example_file [unat off ..< min (unat off + min (unat cnt) limit) 32]), ())
      else (Inl 22, ()))"

definition example_env :: "nat \<Rightarrow> size_t \<Rightarrow> unit io_env" where
  "example_env limit bounce =
     \<lparr>env_api = \<lparr>sys_pread = example_pread limit, sys_pwrite = (\<lambda>_ _ _ _ e. (Inl 9, e))\<rparr>,
      env_alloc = (\<lambda>_. \<lparr>al_allocate = (\<lambda>_ e. (Inr 4096, e)), al_deallocate = (\<lambda>_ _ e. (Inr (), e))\<rparr>),
      env_copy = (\<lambda>e. (True, e)), env_page_size = 4, env_bounce_buffer_size = bounce,
      auto_direct_io_read = True, auto_direct_io_write = True, auto_direct_io_read_overread = True\<rparr>"

definition example_world :: "unit world" where
  "example_world = \<lparr>w_mem = (\<lambda>_. 0), w_dev = (\<lambda>_. 0), w_pool = (\<lambda>_. new_pool 8), w_ext = ()\<rparr>"

lemma example_env_sane: "env_sane (example_env limit 8)"
  by (simp add: env_sane_def example_env_def is_power_of_2_def)

lemma example_memory: "memory_available (example_env limit 8) (\<lambda>_. True)"
  by (simp add: memory_available_def example_env_def page_aligned_def)

lemma example_copies: "copies_succeed (example_env limit 8) (\<lambda>_. True)"
  by (simp add: copies_succeed_def example_env_def)

lemma example_world_ok: "world_ok (example_env limit 8) (\<lambda>_. True) example_world"
  by (simp add: world_ok_def example_world_def new_pool_def)

lemma example_readable: "4 \<le> limit \<Longrightarrow> file_readable (example_env limit 8) 3 4 (\<lambda>_. True) example_file 32"
  unfolding file_readable_def
proof (intro conjI allI impI)
  show "32 \<le> unat int64_max" by (simp add: int64_max_def)
next
  fix fd :: int and buf :: ptr and cnt off :: size_t and e :: unit
  assume l: "4 \<le> limit" and h: "True \<and> 0 < cnt \<and> unat off < 32 \<and> (fd = 3 \<or> fd = 4 \<and> fd \<noteq> -1 \<and>
      page_aligned (example_env limit 8) off \<and> page_aligned (example_env limit 8) cnt \<and> page_aligned (example_env limit 8) buf)"
  then have pos: "0 < unat cnt" by (simp add: word_less_nat_alt)
  let ?m = "min (unat cnt) (if fd = 3 then 5 else limit)"
  let ?n = "min (unat off + ?m) 32 - unat off"
  have "sys_pread (env_api (example_env limit 8)) fd buf cnt off e = (Inr (map example_file [unat off ..< unat off + ?n]), ())"
    using h by (auto simp: example_env_def example_pread_def page_aligned_def dvd_eq_mod_eq_0)
  moreover have "0 < ?n" "?n \<le> unat cnt" "unat off + ?n \<le> 32" using h l pos by auto
  ultimately show "\<exists>n e'. sys_pread (env_api (example_env limit 8)) fd buf cnt off e =
      (Inr (map example_file [unat off ..< unat off + n]), e') \<and> 0 < n \<and> n \<le> unat cnt \<and> unat off + n \<le> 32 \<and> True"
    by blast
qed

lemma example_pages: "direct_reads_pages (example_env 100 8) 4 (\<lambda>_. True) 32"
  by (auto simp: direct_reads_pages_def example_env_def example_pread_def min_def split: if_splits)



section \<open>Two ways a Direct I/O read inside the file fails\<close>

text \<open>
  The bounce buffer size is any positive number. If it is not a multiple of the page size, the
  capped request of \<open>posix_host_io\<close> is not page aligned, and the Direct I/O read of a range inside
  the file fails: here with bounce buffers of 6 bytes.
\<close>

lemma unaligned_bounce_size_fails:
  "map_option fst (posix_host_read (example_env 100 6) NO 3 101 16 4 4 example_world) = Some (Inl CUfile_Exception)"
  by code_simp

text \<open>
  The over-reading path expects more bytes than the alignment prefix from every read. A short
  Direct I/O read of fewer bytes, which the comment in the loop allows for, is reported as an
  unexpected end of file: here a read at offset 3 of the 32-byte file with direct reads of 2 bytes.
\<close>

lemma short_direct_read_reported_as_eof:
  "map_option fst (posix_device_read (example_env 2 8) 3 7000 20 3 0 4 example_world) = Some (Inl CUfile_Exception)"
  by code_simp

end
