(* ===== verification/Posix_Write.thy ===== *)
theory Posix_Write
  imports Posix_Read
begin

text \<open>
  Writing through POSIX is correct: the host and device write paths store exactly the bytes of the
  buffer in the file range, with short writes, Direct I/O and bounce buffers in any combination.
  The invariant of the outside state is indexed by the content of the file, so that the
  assumptions say that a write changes the file as it should and that nothing else does.
\<close>

section \<open>File contents\<close>

definition overwrite :: "(nat \<Rightarrow> byte) \<Rightarrow> nat \<Rightarrow> byte list \<Rightarrow> nat \<Rightarrow> byte" where
  "overwrite f off bs = (\<lambda>p. if off \<le> p \<and> p < off + length bs then bs ! (p - off) else f p)"

lemma overwrite_append: "overwrite (overwrite f off xs) (off + length xs) ys = overwrite f off (xs @ ys)"
  by (auto simp: overwrite_def nth_append fun_eq_iff)

lemma overwrite_Nil [simp]: "overwrite f off [] = f"
  by (auto simp: overwrite_def fun_eq_iff)

text \<open>
  The kernel writes a non-empty prefix of the bytes, through the Direct I/O descriptor only when
  offset, size and buffer are page aligned.
\<close>

definition file_writable :: "'e io_env \<Rightarrow> int \<Rightarrow> int \<Rightarrow> ((nat \<Rightarrow> byte) \<Rightarrow> 'e \<Rightarrow> bool) \<Rightarrow> bool" where
  "file_writable env fd_off fd_on K \<longleftrightarrow>
     (\<forall>fd buf bs off e f.
        K f e \<and> bs \<noteq> [] \<and> off < int64_max \<and>
        (fd = fd_off \<or> fd = fd_on \<and> fd \<noteq> -1 \<and> page_aligned env off \<and>
           unat (env_page_size env) dvd length bs \<and> page_aligned env buf) \<longrightarrow>
        (\<exists>n e'. sys_pwrite (env_api env) fd buf bs off e = (Inr n, e') \<and> 0 < n \<and> unat n \<le> length bs \<and>
                K (overwrite f (unat off) (take (unat n) bs)) e'))"

definition write_done ::
  "'e io_env \<Rightarrow> ((nat \<Rightarrow> byte) \<Rightarrow> 'e \<Rightarrow> bool) \<Rightarrow> (nat \<Rightarrow> byte) \<Rightarrow> 'e world \<Rightarrow> ptr \<Rightarrow> size_t \<Rightarrow> size_t \<Rightarrow>
   size_t res \<times> 'e world \<Rightarrow> bool" where
  "write_done env K f w buf cnt off r \<longleftrightarrow>
     (\<exists>n w'. r = (Inr n, w') \<and> 0 < n \<and> n \<le> cnt \<and> w_mem w' = w_mem w \<and> w_dev w' = w_dev w \<and>
             world_ok env (K (overwrite f (unat off) (read_bytes (w_mem w) buf (unat n)))) w')"

lemma take_read_bytes: "n \<le> k \<Longrightarrow> take n (read_bytes m a k) = read_bytes m a n"
  by (rule nth_equalityI) simp_all

lemma read_bytes_append: "read_bytes m a (j + k) = read_bytes m a j @ read_bytes m (a + of_nat j) k"
  by (rule nth_equalityI) (auto simp: nth_append algebra_simps of_nat_diff not_less)

lemma do_pwrite_ok:
  assumes "file_writable env fd_off fd_on K" "K f e" "0 < cnt" "off < int64_max"
    and "fd = fd_off \<or> fd = fd_on \<and> fd \<noteq> -1 \<and> page_aligned env off \<and> page_aligned env cnt \<and> page_aligned env b"
  obtains n e' where "do_pwrite env fd b (read_bytes m buf (unat cnt)) off e = (Inr n, e')" "0 < n" "n \<le> cnt"
    "K (overwrite f (unat off) (read_bytes m buf (unat n))) e'"
proof -
  let ?bs = "read_bytes m buf (unat cnt)"
  have "length ?bs \<noteq> 0" using assms(3) by (simp add: word_less_nat_alt)
  then have "?bs \<noteq> []" by force
  then obtain n e' where p: "sys_pwrite (env_api env) fd b ?bs off e = (Inr n, e')" "0 < n" "unat n \<le> length ?bs"
    "K (overwrite f (unat off) (take (unat n) ?bs)) e'"
    using assms unfolding file_writable_def page_aligned_def by (metis length_read_bytes)
  then show thesis
    using that [of n e'] assms(4) by (simp add: do_pwrite_def convert_size2off_def word_le_nat_alt take_read_bytes)
qed

lemma pread_or_write_write:
  assumes "file_writable env fd_off fd_on K" "world_ok env (K f) w" "0 < cnt" "off < int64_max"
    and "fd = fd_off \<or> fd = fd_on \<and> fd \<noteq> -1 \<and> page_aligned env off \<and> page_aligned env cnt \<and> page_aligned env buf"
  shows "write_done env K f w buf cnt off (pread_or_write env IO_WRITE fd buf cnt off w)"
proof -
  have K: "K f (w_ext w)" using assms(2) by (simp add: world_ok_def)
  obtain n e' where p: "do_pwrite env fd buf (read_bytes (w_mem w) buf (unat cnt)) off (w_ext w) = (Inr n, e')" "0 < n" "n \<le> cnt"
    "K (overwrite f (unat off) (read_bytes (w_mem w) buf (unat n))) e'"
    using do_pwrite_ok [OF assms(1) K assms(3-5)] by metis
  with assms(2) show ?thesis
    by (simp add: write_done_def pread_or_write_def world_ok_def)
qed

lemma write_done_mono: "write_done env K f w buf cnt off r \<Longrightarrow> cnt \<le> cnt' \<Longrightarrow> write_done env K f w buf cnt' off r"
  by (auto simp: write_done_def intro: order_trans)

lemma bounce_io_write:
  assumes "file_writable env fd_off fd_on K" "\<And>f. memory_available env (K f)" "env_sane env"
    and "world_ok env (K f) w" "0 < bytes" "off < int64_max" "page_aligned env off" "page_aligned env bytes" "fd_on \<noteq> -1"
  shows "write_done env K f w buf bytes off (bounce_io env IO_WRITE fd_on buf bytes off w)"
proof -
  obtain b w1 where g: "get_bounce env Page_Aligned w = (Inr b, w1)" "good_buffer env Page_Aligned b"
    "world_ok env (K f) w1" "w_mem w1 = w_mem w" "w_dev w1 = w_dev w"
    using get_bounce_ok [OF assms(2,4)] by blast
  let ?n = "min bytes (bf_size b)"
  have al: "page_aligned env ?n" "page_aligned env (bf_buffer b)" "0 < ?n"
    using assms(3,5,8) g(2) by (simp_all add: min_def page_aligned_def good_buffer_def env_sane_def)
  have K: "K f (w_ext w1)" using g(3) by (simp add: world_ok_def)
  obtain n e' where p: "do_pwrite env fd_on (bf_buffer b) (read_bytes (w_mem w1) buf (unat ?n)) off (w_ext w1) = (Inr n, e')"
    "0 < n" "n \<le> ?n" "K (overwrite f (unat off) (read_bytes (w_mem w1) buf (unat n))) e'"
    using do_pwrite_ok [OF assms(1) K al(3) assms(6)] al(1,2) assms(7,9) by metis
  let ?w2 = "w1\<lparr>w_ext := e'\<rparr>"
  have "world_ok env (K (overwrite f (unat off) (read_bytes (w_mem w1) buf (unat n)))) ?w2"
    using g(3) p(4) by (simp add: world_ok_def)
  from drop_bounce_ok [OF assms(2) this g(2)] g p show ?thesis
    by (auto simp: write_done_def bounce_io_def Let_def)
qed

lemma host_io_step_write:
  assumes wr: "file_writable env fd_off fd_on K" and avail: "\<And>f. memory_available env (K f)"
    and sane: "env_sane env" and w: "world_ok env (K f) w" and rem: "0 < rem" and off: "off < int64_max"
  shows "write_done env K f w buf rem off (host_io_step env IO_WRITE fd_off fd_on buf rem off w)"
  using sane rem off
proof (cases rule: host_io_step_cases [of env rem off IO_WRITE fd_off fd_on buf w])
  case (buffered c)
  with write_done_mono [OF pread_or_write_write [OF wr w buffered(1) off, of fd_off buf]] show ?thesis by simp
next
  case (direct c)
  with write_done_mono [OF pread_or_write_write [OF wr w direct(1) off, of fd_on buf]] show ?thesis by simp
next
  case (bounce c)
  with write_done_mono [OF bounce_io_write [OF wr avail sane w bounce(1) off bounce(4,5,3)]] show ?thesis by simp
qed

section \<open>Writing host memory\<close>

lemma host_io_loop_write:
  assumes wr: "file_writable env fd_off fd_on K" and avail: "\<And>f. memory_available env (K f)"
    and sane: "env_sane env" and cnt: "cnt < int64_max"
  shows "world_ok env (K f) w \<Longrightarrow> unat off + unat rem \<le> unat int64_max \<Longrightarrow>
    \<exists>w'. host_io_loop env IO_WRITE NO fd_off fd_on cnt buf rem off w = Some (Inr cnt, w') \<and>
         w_mem w' = w_mem w \<and> w_dev w' = w_dev w \<and>
         world_ok env (K (overwrite f (unat off) (read_bytes (w_mem w) buf (unat rem)))) w'"
proof (induction "unat rem" arbitrary: w f buf rem off rule: less_induct)
  case less
  show ?case
  proof (cases "rem = 0")
    case True
    with less.prems cnt show ?thesis
      by (simp add: host_io_loop.simps [of env IO_WRITE] convert_size2ssize_def read_bytes_def)
  next
    case False
    then have rem: "0 < rem" "0 < unat rem" by (simp_all add: word_gt_0 unat_gt_0)
    with less.prems(2) have "off < int64_max" by (simp add: word_less_nat_alt)
    from host_io_step_write [OF wr avail sane less.prems(1) rem(1) this, of buf]
    obtain n w1 where s: "host_io_step env IO_WRITE fd_off fd_on buf rem off w = (Inr n, w1)"
      "0 < n" "n \<le> rem" "w_mem w1 = w_mem w" "w_dev w1 = w_dev w"
      "world_ok env (K (overwrite f (unat off) (read_bytes (w_mem w) buf (unat n)))) w1"
      by (auto simp: write_done_def)
    have n: "unat n \<le> unat rem" "0 < unat n" using s(2,3) by (simp_all add: word_le_nat_alt word_less_nat_alt)
    have sub: "unat (rem - n) = unat rem - unat n" using s(3) by (rule unat_minus_no_wrap)
    have add: "unat (off + n) = unat off + unat n"
      using less.prems(2) n unat_plus_no_wrap [of off n] by (simp add: int64_max_def)
    have "unat (rem - n) < unat rem" "unat (off + n) + unat (rem - n) \<le> unat int64_max"
      using n sub add less.prems(2) by simp_all
    from less.hyps [OF this(1) s(6) this(2), of "buf + n"] obtain w2 where
      IH: "host_io_loop env IO_WRITE NO fd_off fd_on cnt (buf + n) (rem - n) (off + n) w1 = Some (Inr cnt, w2)"
      "w_mem w2 = w_mem w1" "w_dev w2 = w_dev w1"
      "world_ok env (K (overwrite (overwrite f (unat off) (read_bytes (w_mem w) buf (unat n))) (unat (off + n))
         (read_bytes (w_mem w1) (buf + n) (unat (rem - n))))) w2" by blast
    have "read_bytes (w_mem w) buf (unat n) @ read_bytes (w_mem w) (buf + n) (unat (rem - n)) =
        read_bytes (w_mem w) buf (unat rem)"
      using read_bytes_append [of "w_mem w" buf "unat n" "unat (rem - n)"] n sub by simp
    with IH(4) s(4) add overwrite_append [of f "unat off" "read_bytes (w_mem w) buf (unat n)"]
    have "world_ok env (K (overwrite f (unat off) (read_bytes (w_mem w) buf (unat rem)))) w2" by simp
    with rem s IH show ?thesis
      by (simp add: host_io_loop.simps [of env IO_WRITE _ _ _ _ buf])
  qed
qed

section \<open>Writing device memory\<close>

lemma copy_from_device_ok:
  assumes "copies_succeed env K" "world_ok env K w"
  obtains w' where "copy_from_device env dst devPtr n w = (Inr (), w')" "world_ok env K w'"
    "w_mem w' = write_bytes (w_mem w) dst (read_bytes (w_dev w) devPtr (unat n))" "w_dev w' = w_dev w"
proof -
  obtain e' where "env_copy env (w_ext w) = (True, e')" "K e'"
    using assms by (auto simp: copies_succeed_def world_ok_def)
  with assms(2) that show thesis by (simp add: copy_from_device_def world_ok_def)
qed

lemma device_io_step_write:
  assumes wr: "file_writable env fd_off fd_on K" and avail: "\<And>f. memory_available env (K f)"
    and sane: "env_sane env" and copies: "\<And>f. copies_succeed env (K f)"
    and w: "world_ok env (K f) w" and rem: "0 < rem" and off: "unat off + unat rem \<le> unat int64_max"
    and b: "0 < bf_size b" "bf_size b < int64_max"
  obtains n w' where "device_io_step env IO_WRITE fd_off fd_on b devPtr rem off w = Some (Inr n, w')" "0 < n" "n \<le> rem"
    "w_dev w' = w_dev w" "world_ok env (K (overwrite f (unat off) (read_bytes (w_dev w) devPtr (unat n)))) w'"
proof -
  let ?n = "min (bf_size b) rem"
  have n: "0 < ?n" "?n \<le> rem" "?n < int64_max" "unat ?n \<le> unat rem"
    using rem b by (auto simp: word_less_nat_alt unat_min_size_t min.strict_coboundedI1)
  obtain w1 where c: "copy_from_device env (bf_buffer b) devPtr ?n w = (Inr (), w1)" "world_ok env (K f) w1"
    "w_mem w1 = write_bytes (w_mem w) (bf_buffer b) (read_bytes (w_dev w) devPtr (unat ?n))" "w_dev w1 = w_dev w"
    using copy_from_device_ok [OF copies w] by blast
  have "unat off + unat ?n \<le> unat int64_max" using n(4) off by simp
  then obtain w2 where l: "host_io_loop env IO_WRITE NO fd_off fd_on ?n (bf_buffer b) ?n off w1 = Some (Inr ?n, w2)"
    "w_dev w2 = w_dev w1"
    "world_ok env (K (overwrite f (unat off) (read_bytes (w_mem w1) (bf_buffer b) (unat ?n)))) w2"
    using host_io_loop_write [OF wr avail sane n(3) c(2)] by blast
  have "read_bytes (w_mem w1) (bf_buffer b) (unat ?n) = read_bytes (w_dev w) devPtr (unat ?n)"
    using c(3) read_write_bytes [of "read_bytes (w_dev w) devPtr (unat ?n)"] size_t_range [of ?n] by simp
  with that [of ?n w2] c l n show thesis
    by (simp add: device_io_step_def posix_host_io_def)
qed

lemma device_io_loop_write:
  assumes wr: "file_writable env fd_off fd_on K" and avail: "\<And>f. memory_available env (K f)"
    and sane: "env_sane env" and copies: "\<And>f. copies_succeed env (K f)"
    and b: "0 < bf_size b" "bf_size b < int64_max"
  shows "world_ok env (K f) w \<Longrightarrow> unat off + unat rem \<le> unat int64_max \<Longrightarrow>
    \<exists>w'. device_io_loop env IO_WRITE fd_off fd_on b sz devPtr rem off w = Some (Inr sz, w') \<and> w_dev w' = w_dev w \<and>
         world_ok env (K (overwrite f (unat off) (read_bytes (w_dev w) devPtr (unat rem)))) w'"
proof (induction "unat rem" arbitrary: w f devPtr rem off rule: less_induct)
  case less
  show ?case
  proof (cases "rem = 0")
    case True
    with less.prems show ?thesis by (simp add: device_io_loop.simps [of env IO_WRITE] read_bytes_def)
  next
    case False
    then have rem: "0 < rem" by (simp add: word_gt_0)
    obtain n w1 where s: "device_io_step env IO_WRITE fd_off fd_on b devPtr rem off w = Some (Inr n, w1)" "0 < n" "n \<le> rem"
      "w_dev w1 = w_dev w" "world_ok env (K (overwrite f (unat off) (read_bytes (w_dev w) devPtr (unat n)))) w1"
      using device_io_step_write [OF wr avail sane copies less.prems(1) rem less.prems(2) b] by blast
    have n: "unat n \<le> unat rem" "0 < unat n" using s(2,3) by (simp_all add: word_le_nat_alt word_less_nat_alt)
    have sub: "unat (rem - n) = unat rem - unat n" using s(3) by (rule unat_minus_no_wrap)
    have add: "unat (off + n) = unat off + unat n"
      using less.prems(2) n unat_plus_no_wrap [of off n] by (simp add: int64_max_def)
    have "unat (rem - n) < unat rem" "unat (off + n) + unat (rem - n) \<le> unat int64_max"
      using n sub add less.prems(2) by simp_all
    from less.hyps [OF this(1) s(5) this(2), of "devPtr + n"] obtain w2 where
      IH: "device_io_loop env IO_WRITE fd_off fd_on b sz (devPtr + n) (rem - n) (off + n) w1 = Some (Inr sz, w2)"
      "w_dev w2 = w_dev w1"
      "world_ok env (K (overwrite (overwrite f (unat off) (read_bytes (w_dev w) devPtr (unat n))) (unat (off + n))
         (read_bytes (w_dev w1) (devPtr + n) (unat (rem - n))))) w2" by blast
    have "read_bytes (w_dev w) devPtr (unat n) @ read_bytes (w_dev w) (devPtr + n) (unat (rem - n)) =
        read_bytes (w_dev w) devPtr (unat rem)"
      using read_bytes_append [of "w_dev w" devPtr "unat n" "unat (rem - n)"] n sub by simp
    with IH(3) s(4) add overwrite_append [of f "unat off" "read_bytes (w_dev w) devPtr (unat n)"]
    have "world_ok env (K (overwrite f (unat off) (read_bytes (w_dev w) devPtr (unat rem)))) w2" by simp
    with rem s IH show ?thesis
      by (simp add: device_io_loop.simps [of env IO_WRITE _ _ _ _ devPtr])
  qed
qed

lemma posix_device_io_write:
  assumes "file_writable env fd_off fd_on K" "\<And>f. memory_available env (K f)" "env_sane env" "\<And>f. copies_succeed env (K f)"
    and "world_ok env (K f) w" "unat off + unat sz \<le> unat int64_max" "env_bounce_buffer_size env < int64_max"
    and "k = Cuda_Pinned \<longrightarrow> fd_on = -1"
  shows "\<exists>w'. posix_device_io env IO_WRITE k fd_off base sz off dpo fd_on w = Some (Inr sz, w') \<and> w_dev w' = w_dev w \<and>
              world_ok env (K (overwrite f (unat off) (read_bytes (w_dev w) (base + dpo) (unat sz)))) w'"
proof -
  obtain b w1 where g: "get_bounce env k w = (Inr b, w1)" "good_buffer env k b" "world_ok env (K f) w1" "w_dev w1 = w_dev w"
    using get_bounce_ok [OF assms(2,5)] by blast
  have b: "0 < bf_size b" "bf_size b < int64_max" using g(2) assms(3,7) by (simp_all add: good_buffer_def env_sane_def)
  obtain w2 where l: "device_io_loop env IO_WRITE fd_off fd_on b sz (base + dpo) sz off w1 = Some (Inr sz, w2)" "w_dev w2 = w_dev w1"
    "world_ok env (K (overwrite f (unat off) (read_bytes (w_dev w1) (base + dpo) (unat sz)))) w2"
    using device_io_loop_write [OF assms(1-4) b g(3) assms(6)] by blast
  from drop_bounce_ok [OF assms(2) l(3) g(2)] l g(1,4) assms(8) show ?thesis
    by (auto simp: posix_device_io_def)
qed

section \<open>Properties\<close>

lemma file_writable_buffered: "file_writable env fd_off fd_on K \<Longrightarrow> file_writable env fd_off (-1) K"
  by (auto simp: file_writable_def)

lemma posix_host_write_moves:
  assumes "file_writable env fd_off fd_on K" "\<And>f. memory_available env (K f)" "env_sane env" "world_ok env (K f) w"
    and "unat off + unat sz \<le> unat int64_max" "sz < int64_max"
  shows "\<exists>w'. posix_host_write env NO fd_off buf sz off fd_on w = Some (Inr sz, w') \<and> w_mem w' = w_mem w \<and> w_dev w' = w_dev w \<and>
              world_ok env (K (overwrite f (unat off) (read_bytes (w_mem w) buf (unat sz)))) w'"
  using host_io_loop_write [OF assms(1-3,6,4,5), of buf]
    host_io_loop_write [OF file_writable_buffered [OF assms(1)] assms(2,3,6,4,5), of buf]
  by (auto simp: posix_host_write_def posix_host_io_def)

lemma posix_device_write_moves:
  assumes "file_writable env fd_off fd_on K" "\<And>f. memory_available env (K f)" "env_sane env" "\<And>f. copies_succeed env (K f)"
    and "world_ok env (K f) w" "unat off + unat sz \<le> unat int64_max" "env_bounce_buffer_size env < int64_max"
  shows "\<exists>w'. posix_device_write env fd_off base sz off dpo fd_on w = Some (Inr sz, w') \<and> w_dev w' = w_dev w \<and>
              world_ok env (K (overwrite f (unat off) (read_bytes (w_dev w) (base + dpo) (unat sz)))) w'"
  using posix_device_io_write [OF assms(1-7), of Cuda_Page_Aligned_Pinned base dpo]
    posix_device_io_write [OF file_writable_buffered [OF assms(1)] assms(2-7), of Cuda_Pinned base dpo]
  by (auto simp: posix_device_write_def)


text \<open>
  Writing device memory, buffered or with opportunistic Direct I/O: the call returns the
  requested size, the file changes exactly in the range written, to the bytes of device memory,
  and device memory does not change.
\<close>

theorem posix_device_write_correct:
  assumes "file_writable env fd_off fd_on K" "\<And>f. memory_available env (K f)" "env_sane env" "\<And>f. copies_succeed env (K f)"
    and "world_ok env (K f) w" "unat off + unat sz \<le> unat int64_max" "env_bounce_buffer_size env < int64_max"
  shows "\<exists>w'. posix_device_write env fd_off base sz off dpo fd_on w = Some (Inr sz, w') \<and> w_dev w' = w_dev w \<and>
              K (overwrite f (unat off) (read_bytes (w_dev w) (base + dpo) (unat sz))) (w_ext w')"
  using posix_device_write_moves [OF assms, of base dpo] by (auto simp: world_ok_def)

section \<open>A concrete environment\<close>

text \<open>The outside state is the content of the file; the kernel writes at most 5 bytes a call.\<close>

definition example_write_env :: "(nat \<Rightarrow> byte) io_env" where
  "example_write_env =
     \<lparr>env_api = \<lparr>sys_pread = (\<lambda>_ _ _ _ e. (Inl 9, e)),
                 sys_pwrite = (\<lambda>_ _ bs off e. (Inr (of_nat (min 5 (length bs))), overwrite e (unat off) (take 5 bs)))\<rparr>,
      env_alloc = (\<lambda>_. \<lparr>al_allocate = (\<lambda>_ e. (Inr 4096, e)), al_deallocate = (\<lambda>_ _ e. (Inr (), e))\<rparr>),
      env_copy = (\<lambda>e. (True, e)), env_page_size = 4, env_bounce_buffer_size = 8,
      auto_direct_io_read = True, auto_direct_io_write = True, auto_direct_io_read_overread = True\<rparr>"

definition example_write_world :: "(nat \<Rightarrow> byte) world" where
  "example_write_world =
     \<lparr>w_mem = (\<lambda>a. ucast a), w_dev = (\<lambda>a. ucast a + 1), w_pool = (\<lambda>_. new_pool 8), w_ext = (\<lambda>_. 0)\<rparr>"

lemma example_write_ok:
  "file_writable example_write_env 3 4 (\<lambda>f e. e = f)" "memory_available example_write_env (\<lambda>e. e = f)"
  "env_sane example_write_env" "copies_succeed example_write_env (\<lambda>e. e = f)"
  "world_ok example_write_env (\<lambda>e. e = (\<lambda>_. 0)) example_write_world"
proof -
  have "sys_pwrite (env_api example_write_env) fd buf bs off e =
      (Inr (of_nat (min 5 (length bs))), overwrite e (unat off) (take (unat (of_nat (min 5 (length bs)) :: size_t)) bs))"
    for fd buf bs off e
    by (simp add: example_write_env_def unat_of_nat_size_t min_def)
  moreover have "0 < (of_nat (min 5 (length bs)) :: size_t)" "unat (of_nat (min 5 (length bs)) :: size_t) \<le> length bs"
    if "bs \<noteq> []" for bs :: "byte list"
    using that by (simp_all add: word_less_nat_alt unat_of_nat_size_t min_def)
  ultimately show "file_writable example_write_env 3 4 (\<lambda>f e. e = f)" by (auto simp: file_writable_def)
  show "memory_available example_write_env (\<lambda>e. e = f)"
    by (simp add: memory_available_def example_write_env_def page_aligned_def)
  show "env_sane example_write_env" by (simp add: env_sane_def example_write_env_def is_power_of_2_def)
  show "copies_succeed example_write_env (\<lambda>e. e = f)" by (simp add: copies_succeed_def example_write_env_def)
  show "world_ok example_write_env (\<lambda>e. e = (\<lambda>_. 0)) example_write_world"
    by (simp add: world_ok_def example_write_world_def new_pool_def)
qed


theorem posix_device_write_correct_witness:
  "\<exists>w'. posix_device_write example_write_env 3 7000 20 6 3 4 example_write_world = Some (Inr 20, w') \<and>
        w_ext w' = overwrite (\<lambda>_. 0) 6 (read_bytes (w_dev example_write_world) 7003 20)"
  using posix_device_write_correct [OF example_write_ok, of 6 20 7000 3]
  by (auto simp: int64_max_def example_write_env_def)

end
