(* ===== verification/Text_Format.thy ===== *)
theory Text_Format
  imports Prelude
begin

text \<open>
  Integers as text: what \<open>std::to_string\<close> and \<open>operator<<\<close> print in the classic locale, and the
  reading of a decimal number back, which are used by the messages of the HTTP retry policy, by
  the JSON output of the statistics and by the \<open>Range\<close> header of a remote read. Printing is
  followed by reading, with any non-digit after it, as a lemma that the JSON and header round
  trips rest on.
\<close>

section \<open>Characters and the environment\<close>

text \<open>Environment variables, as \<open>std::getenv\<close> returns them.\<close>

type_synonym environment = "string \<Rightarrow> string option"

definition ascii_lower :: "char \<Rightarrow> char" where
  "ascii_lower c = (let n = of_char c :: nat in if 65 \<le> n \<and> n \<le> 90 then char_of (n + 32) else c)"

definition is_space :: "char \<Rightarrow> bool" where
  "is_space c \<longleftrightarrow> c = CHR '' '' \<or> (9 \<le> (of_char c :: nat) \<and> (of_char c :: nat) \<le> 13)"

section \<open>Printing\<close>

definition digit_char :: "nat \<Rightarrow> char" where
  "digit_char d = char_of (48 + d)"

fun show_nat :: "nat \<Rightarrow> string" where
  "show_nat n = (if n < 10 then [digit_char n] else show_nat (n div 10) @ [digit_char (n mod 10)])"

declare show_nat.simps [simp del]

definition show_int :: "int \<Rightarrow> string" where
  "show_int i = (if i < 0 then CHR ''-'' # show_nat (nat (- i)) else show_nat (nat i))"

section \<open>Reading\<close>

definition is_digit :: "char \<Rightarrow> bool" where
  "is_digit c \<longleftrightarrow> 48 \<le> (of_char c :: nat) \<and> (of_char c :: nat) \<le> 57"

definition digit_val :: "char \<Rightarrow> nat" where
  "digit_val c = of_char c - 48"

definition read_nat :: "string \<Rightarrow> nat" where
  "read_nat s = foldl (\<lambda>acc c. 10 * acc + digit_val c) 0 s"

text \<open>A number at the front of a text, and what follows it.\<close>

definition scan_nat :: "string \<Rightarrow> (nat \<times> string) option" where
  "scan_nat s = (let ds = takeWhile is_digit s
                 in if ds = [] then None else Some (read_nat ds, dropWhile is_digit s))"

definition scan_int :: "string \<Rightarrow> (int \<times> string) option" where
  "scan_int s =
     (case s of [] \<Rightarrow> None
      | c # cs \<Rightarrow> if c = CHR ''-'' then map_option (\<lambda>(n, rest). (- int n, rest)) (scan_nat cs)
                  else map_option (\<lambda>(n, rest). (int n, rest)) (scan_nat s))"

text \<open>A fixed text at the front.\<close>

fun scan_text :: "string \<Rightarrow> string \<Rightarrow> string option" where
  "scan_text [] s = Some s"
| "scan_text (c # cs) [] = None"
| "scan_text (c # cs) (d # ds) = (if c = d then scan_text cs ds else None)"

section \<open>Reading what was printed\<close>

lemma of_digit_char [simp]: "d < 10 \<Longrightarrow> (of_char (digit_char d) :: nat) = 48 + d"
  by (simp add: digit_char_def)

lemma is_digit_digit_char [simp]: "d < 10 \<Longrightarrow> is_digit (digit_char d)"
  by (simp add: is_digit_def)

lemma digit_val_digit_char [simp]: "d < 10 \<Longrightarrow> digit_val (digit_char d) = d"
  by (simp add: digit_val_def)

lemma show_nat_digits: "c \<in> set (show_nat n) \<Longrightarrow> is_digit c"
proof (induction n rule: show_nat.induct)
  case (1 n)
  then show ?case by (subst (asm) (2) show_nat.simps) (auto split: if_splits)
qed

lemma show_nat_not_Nil [simp]: "show_nat n \<noteq> []"
  by (subst show_nat.simps) simp

lemma read_nat_show_nat [simp]: "read_nat (show_nat n) = n"
proof (induction n rule: show_nat.induct)
  case (1 n)
  show ?case
  proof (cases "n < 10")
    case True
    then show ?thesis by (simp add: show_nat.simps [of n] read_nat_def)
  next
    case False
    with 1 have "read_nat (show_nat (n div 10)) = n div 10" by simp
    with False show ?thesis by (simp add: show_nat.simps [of n] read_nat_def)
  qed
qed

lemma takeWhile_show_nat:
  "rest = [] \<or> \<not> is_digit (hd rest) \<Longrightarrow> takeWhile is_digit (show_nat n @ rest) = show_nat n"
  using show_nat_digits [of _ n] by (cases rest) (simp_all add: takeWhile_append2)

lemma dropWhile_show_nat:
  "rest = [] \<or> \<not> is_digit (hd rest) \<Longrightarrow> dropWhile is_digit (show_nat n @ rest) = rest"
  using show_nat_digits [of _ n] by (cases rest) (simp_all add: dropWhile_append2)

lemma scan_nat_show_nat [simp]:
  "rest = [] \<or> \<not> is_digit (hd rest) \<Longrightarrow> scan_nat (show_nat n @ rest) = Some (n, rest)"
  by (simp add: scan_nat_def takeWhile_show_nat dropWhile_show_nat)

lemma hd_show_nat_digit: "is_digit (hd (show_nat n))"
  by (rule show_nat_digits [of _ n]) simp

lemma minus_not_digit: "\<not> is_digit (CHR ''-'')"
  by (simp add: is_digit_def)

lemma scan_int_show_int [simp]:
  assumes "rest = [] \<or> \<not> is_digit (hd rest)"
  shows "scan_int (show_int i @ rest) = Some (i, rest)"
proof (cases "i < 0")
  case True
  with assms show ?thesis by (simp add: show_int_def scan_int_def)
next
  case False
  obtain c cs where c: "show_nat (nat i) = c # cs" by (cases "show_nat (nat i)") simp_all
  then have "c \<noteq> CHR ''-''" using hd_show_nat_digit [of "nat i"] minus_not_digit by auto
  with False c have "scan_int (show_int i @ rest)
      = map_option (\<lambda>(n, r). (int n, r)) (scan_nat (show_nat (nat i) @ rest))"
    by (simp add: show_int_def scan_int_def)
  with assms False show ?thesis by simp
qed

lemma scan_text_append [simp]: "scan_text t (t @ s) = Some s"
  by (induction t) simp_all

lemma show_nat_inject: "show_nat a = show_nat b \<longleftrightarrow> a = b"
  by (metis read_nat_show_nat)

end
