(* ===== verification/Counters.thy ===== *)
theory Counters
  imports Text_Format
begin

text \<open>
  The process-wide counters: \<open>cpp/src/statistics/counters.cpp\<close> and its header. The atomics are
  the fields of one record; each \<open>fetch_add\<close> is an addition that wraps at the width of its type,
  so a sequence of additions is a sum whatever the order in which threads make them. A duration is
  a signed number of nanoseconds.
\<close>

section \<open>Data and operations\<close>

text \<open>\<open>std::int64_t\<close>: what an addition on an atomic of that type stores.\<close>

definition wrap64 :: "int \<Rightarrow> int" where
  "wrap64 i = sint (word_of_int i :: 64 word)"

definition int64_range :: "int \<Rightarrow> bool" where
  "int64_range i \<longleftrightarrow> - (2 ^ 63) \<le> i \<and> i < 2 ^ 63"

record Counters =
  remote_size_probes :: "64 word"
  remote_size_probing :: int
  http_connections :: "64 word"
  http_dns :: int
  http_tcp :: int
  http_tls :: int
  http_retries :: "64 word"
  http_retry_backoff :: int

definition zero_counters :: Counters where
  "zero_counters =
     \<lparr>remote_size_probes = 0, remote_size_probing = 0, http_connections = 0, http_dns = 0,
      http_tcp = 0, http_tls = 0, http_retries = 0, http_retry_backoff = 0\<rparr>"

definition count_remote_size_probe :: "int \<Rightarrow> Counters \<Rightarrow> Counters" where
  "count_remote_size_probe probing c =
     c\<lparr>remote_size_probes := remote_size_probes c + 1,
       remote_size_probing := wrap64 (remote_size_probing c + probing)\<rparr>"

definition count_http_connection :: "64 word \<Rightarrow> int \<Rightarrow> int \<Rightarrow> int \<Rightarrow> Counters \<Rightarrow> Counters" where
  "count_http_connection connections dns tcp tls c =
     c\<lparr>http_connections := http_connections c + connections,
       http_dns := wrap64 (http_dns c + dns),
       http_tcp := wrap64 (http_tcp c + tcp),
       http_tls := wrap64 (http_tls c + tls)\<rparr>"

definition count_http_retry :: "int \<Rightarrow> Counters \<Rightarrow> Counters" where
  "count_http_retry backoff c =
     c\<lparr>http_retries := http_retries c + 1,
       http_retry_backoff := wrap64 (http_retry_backoff c + backoff)\<rparr>"

text \<open>\<open>spent(mine, previous)\<close>, at the unsigned and at the duration type.\<close>

definition spent_u64 :: "64 word \<Rightarrow> 64 word \<Rightarrow> 64 word" where
  "spent_u64 mine previous = (if mine > previous then mine - previous else 0)"

definition spent_duration :: "int \<Rightarrow> int \<Rightarrow> int" where
  "spent_duration mine previous = (if mine > previous then mine - previous else 0)"

definition counters_since :: "Counters \<Rightarrow> Counters \<Rightarrow> Counters" where
  "counters_since c previous =
     \<lparr>remote_size_probes = spent_u64 (remote_size_probes c) (remote_size_probes previous),
      remote_size_probing = spent_duration (remote_size_probing c) (remote_size_probing previous),
      http_connections = spent_u64 (http_connections c) (http_connections previous),
      http_dns = spent_duration (http_dns c) (http_dns previous),
      http_tcp = spent_duration (http_tcp c) (http_tcp previous),
      http_tls = spent_duration (http_tls c) (http_tls previous),
      http_retries = spent_u64 (http_retries c) (http_retries previous),
      http_retry_backoff = spent_duration (http_retry_backoff c) (http_retry_backoff previous)\<rparr>"

definition counters_empty :: "Counters \<Rightarrow> bool" where
  "counters_empty c \<longleftrightarrow>
     remote_size_probes c = 0 \<and> remote_size_probing c = 0 \<and> http_connections c = 0 \<and>
     http_dns c = 0 \<and> http_tcp c = 0 \<and> http_tls c = 0 \<and> http_retries c = 0 \<and>
     http_retry_backoff c = 0"

definition counters_to_json :: "Counters \<Rightarrow> string" where
  "counters_to_json c =
     ''{\"remote_size_probes\": '' @ show_nat (unat (remote_size_probes c)) @
     '', \"remote_size_probing_ns\": '' @ show_int (remote_size_probing c) @
     '', \"http_connections\": '' @ show_nat (unat (http_connections c)) @
     '', \"http_dns_ns\": '' @ show_int (http_dns c) @
     '', \"http_tcp_ns\": '' @ show_int (http_tcp c) @
     '', \"http_tls_ns\": '' @ show_int (http_tls c) @
     '', \"http_retries\": '' @ show_nat (unat (http_retries c)) @
     '', \"http_retry_backoff_ns\": '' @ show_int (http_retry_backoff c) @ ''}''"

section \<open>Differences of readings\<close>

lemma wrap64_id [simp]: "int64_range i \<Longrightarrow> wrap64 i = i"
  by (simp add: wrap64_def int64_range_def signed_of_int signed_take_bit_int_eq_self)

lemma wrap64_wrap64 [simp]: "wrap64 (wrap64 i + j) = wrap64 (i + j)"
  by (simp add: wrap64_def)

lemma int64_range_wrap64 [simp]: "int64_range (wrap64 i)"
  using sint_greater_eq [of "word_of_int i :: 64 word"] sint_lt [of "word_of_int i :: 64 word"]
  by (simp add: wrap64_def int64_range_def)

lemma spent_u64_eq: "previous \<le> mine \<Longrightarrow> previous + spent_u64 mine previous = mine"
  by (auto simp: spent_u64_def)

lemma spent_u64_0 [simp]: "spent_u64 mine 0 = mine"
  by (simp add: spent_u64_def word_gt_0)

lemma spent_duration_eq: "spent_duration mine previous = max 0 (mine - previous)"
  by (auto simp: spent_duration_def)

lemmas counter_defs = count_remote_size_probe_def count_http_connection_def count_http_retry_def

lemmas since_defs = counters_since_def spent_u64_def spent_duration_def

text \<open>Reading the JSON object back.\<close>

definition expect_text :: "string \<Rightarrow> string option \<Rightarrow> string option" where
  "expect_text t s = Option.bind s (scan_text t)"

fun scan_fields :: "(string \<times> bool) list \<Rightarrow> string \<Rightarrow> (int list \<times> string) option" where
  "scan_fields [] s = Some ([], s)"
| "scan_fields ((label, neg) # fs) s =
     (case scan_text label s of None \<Rightarrow> None
      | Some s1 \<Rightarrow>
          (case (if neg then scan_int s1 else map_option (\<lambda>(n, r). (int n, r)) (scan_nat s1)) of
             None \<Rightarrow> None
           | Some (v, s2) \<Rightarrow> map_option (\<lambda>(vs, r). (v # vs, r)) (scan_fields fs s2)))"

definition counters_labels :: "(string \<times> bool) list" where
  "counters_labels =
     [(''{\"remote_size_probes\": '', False), ('', \"remote_size_probing_ns\": '', True),
      ('', \"http_connections\": '', False), ('', \"http_dns_ns\": '', True),
      ('', \"http_tcp_ns\": '', True), ('', \"http_tls_ns\": '', True),
      ('', \"http_retries\": '', False), ('', \"http_retry_backoff_ns\": '', True)]"

definition counters_from_json :: "string \<Rightarrow> Counters option" where
  "counters_from_json s =
     (case scan_fields counters_labels s of
        Some ([a, b, c, d, e, f, g, h], r) \<Rightarrow>
          if r = ''}'' then
            Some \<lparr>remote_size_probes = word_of_int a, remote_size_probing = b,
                  http_connections = word_of_int c, http_dns = d, http_tcp = e, http_tls = f,
                  http_retries = word_of_int g, http_retry_backoff = h\<rparr>
          else None
      | _ \<Rightarrow> None)"

text \<open>What the printer does for one labelled value, and that the scanner undoes it.\<close>

fun print_fields :: "(string \<times> bool) list \<Rightarrow> int list \<Rightarrow> string" where
  "print_fields ((label, neg) # fs) (v # vs) =
     label @ (if neg then show_int v else show_nat (nat v)) @ print_fields fs vs"
| "print_fields _ _ = []"

lemma scan_fields_print_fields:
  assumes "length fs = length vs"
    and "\<And>l s. (l, s) \<in> set fs \<Longrightarrow> l \<noteq> [] \<and> \<not> is_digit (hd l)"
    and "\<And>i. i < length fs \<Longrightarrow> snd (fs ! i) \<or> 0 \<le> vs ! i"
    and "rest = [] \<or> \<not> is_digit (hd rest)"
  shows "scan_fields fs (print_fields fs vs @ rest) = Some (vs, rest)"
  using assms
proof (induction fs vs rule: list_induct2)
  case Nil
  then show ?case by simp
next
  case (Cons f fs v vs)
  obtain l s where f: "f = (l, s)" by (cases f)
  have tail: "scan_fields fs (print_fields fs vs @ rest) = Some (vs, rest)"
    using Cons.prems(1) Cons.prems(2) [of "Suc _"] Cons.prems(3) by (intro Cons.IH) auto
  have stop: "print_fields fs vs @ rest = [] \<or> \<not> is_digit (hd (print_fields fs vs @ rest))"
  proof (cases fs)
    case Nil
    with Cons.prems(3) show ?thesis by simp
  next
    case (Cons g gs)
    moreover obtain l' s' where "g = (l', s')" by (cases g)
    moreover obtain w ws where "vs = w # ws" using Cons \<open>length fs = length vs\<close> by (cases vs) simp_all
    ultimately show ?thesis using Cons.prems(1) [of l' s'] by (cases l') auto
  qed
  have "s \<or> 0 \<le> v" using Cons.prems(2) [of 0] f by simp
  with stop tail f show ?case by (cases s) simp_all
qed

lemma counters_to_json_fields:
  "counters_to_json c = print_fields counters_labels
     [uint (remote_size_probes c), remote_size_probing c, uint (http_connections c), http_dns c,
      http_tcp c, http_tls c, uint (http_retries c), http_retry_backoff c] @ ''}''"
  by (simp add: counters_to_json_def counters_labels_def)

lemma counters_labels_stop: "(l, s) \<in> set counters_labels \<Longrightarrow> l \<noteq> [] \<and> \<not> is_digit (hd l)"
  by (auto simp: counters_labels_def is_digit_def)

text \<open>
  C40. The JSON object of a reading determines the reading: every counter, also a negative
  duration, is read back from it exactly.
\<close>

theorem counters_json_roundtrip: "counters_from_json (counters_to_json c) = Some c"
proof -
  have "scan_fields counters_labels (counters_to_json c)
      = Some ([uint (remote_size_probes c), remote_size_probing c, uint (http_connections c), http_dns c,
               http_tcp c, http_tls c, uint (http_retries c), http_retry_backoff c], ''}'')"
    unfolding counters_to_json_fields
  proof (rule scan_fields_print_fields)
    fix i assume "i < length counters_labels"
    then have "i \<in> {0..<8}" by (simp add: counters_labels_def)
    then show "snd (counters_labels ! i) \<or> 0 \<le> [uint (remote_size_probes c), remote_size_probing c,
        uint (http_connections c), http_dns c, http_tcp c, http_tls c, uint (http_retries c),
        http_retry_backoff c] ! i"
      by (auto simp: counters_labels_def atLeastLessThan_nat_numeral nth_Cons split: nat.splits)
  qed (simp_all add: counters_labels_stop, simp_all add: counters_labels_def is_digit_def)
  then show ?thesis by (simp add: counters_from_json_def)
qed

section \<open>Counting over an interval\<close>

datatype count_event =
    Size_Probe int
  | Http_Connection "64 word" int int int
  | Http_Retry int

fun count_step :: "count_event \<Rightarrow> Counters \<Rightarrow> Counters" where
  "count_step (Size_Probe d) c = count_remote_size_probe d c"
| "count_step (Http_Connection n dns tcp tls) c = count_http_connection n dns tcp tls c"
| "count_step (Http_Retry d) c = count_http_retry d c"

text \<open>No addition of the event leaves the range of its counter.\<close>

fun event_fits :: "count_event \<Rightarrow> Counters \<Rightarrow> bool" where
  "event_fits (Size_Probe d) c \<longleftrightarrow>
     unat (remote_size_probes c) + 1 < 2 ^ 64 \<and> 0 \<le> d \<and> remote_size_probing c + d < 2 ^ 63"
| "event_fits (Http_Connection n dns tcp tls) c \<longleftrightarrow>
     unat (http_connections c) + unat n < 2 ^ 64 \<and> 0 \<le> dns \<and> http_dns c + dns < 2 ^ 63 \<and>
     0 \<le> tcp \<and> http_tcp c + tcp < 2 ^ 63 \<and> 0 \<le> tls \<and> http_tls c + tls < 2 ^ 63"
| "event_fits (Http_Retry d) c \<longleftrightarrow>
     unat (http_retries c) + 1 < 2 ^ 64 \<and> 0 \<le> d \<and> http_retry_backoff c + d < 2 ^ 63"

fun events_fit :: "count_event list \<Rightarrow> Counters \<Rightarrow> bool" where
  "events_fit [] c \<longleftrightarrow> True"
| "events_fit (e # es) c \<longleftrightarrow> event_fits e c \<and> events_fit es (count_step e c)"

definition durations_nonneg :: "Counters \<Rightarrow> bool" where
  "durations_nonneg c \<longleftrightarrow>
     0 \<le> remote_size_probing c \<and> 0 \<le> http_dns c \<and> 0 \<le> http_tcp c \<and> 0 \<le> http_tls c \<and>
     0 \<le> http_retry_backoff c"

text \<open>\<open>s\<close> is \<open>c\<close> with the counts of \<open>d\<close> added, nothing wrapped.\<close>

definition counted_from :: "Counters \<Rightarrow> Counters \<Rightarrow> Counters \<Rightarrow> bool" where
  "counted_from c d s \<longleftrightarrow>
     unat (remote_size_probes s) = unat (remote_size_probes c) + unat (remote_size_probes d) \<and>
     unat (http_connections s) = unat (http_connections c) + unat (http_connections d) \<and>
     unat (http_retries s) = unat (http_retries c) + unat (http_retries d) \<and>
     remote_size_probing s = remote_size_probing c + remote_size_probing d \<and>
     http_dns s = http_dns c + http_dns d \<and> http_tcp s = http_tcp c + http_tcp d \<and>
     http_tls s = http_tls c + http_tls d \<and>
     http_retry_backoff s = http_retry_backoff c + http_retry_backoff d"

lemma wrap64_sum: "0 \<le> a \<Longrightarrow> a < 2 ^ 63 \<Longrightarrow> wrap64 a = a"
  by (rule wrap64_id) (simp add: int64_range_def)

lemma unat_add_u64:
  fixes a b c x :: "64 word"
  assumes "unat a = unat b + unat c" "unat a + unat x < 2 ^ 64"
  shows "unat (a + x) = unat b + unat (c + x)"
  using assms by (simp add: unat_plus_no_wrap)

lemma counted_from_step:
  assumes "counted_from c d s" "event_fits e s" "durations_nonneg c" "durations_nonneg d"
  shows "counted_from c (count_step e d) (count_step e s) \<and> durations_nonneg (count_step e d)"
proof (cases e)
  case (Size_Probe t)
  with assms show ?thesis
    using unat_add_u64 [of "remote_size_probes s" "remote_size_probes c" "remote_size_probes d" 1]
    by (simp add: counted_from_def durations_nonneg_def counter_defs wrap64_sum)
next
  case (Http_Connection n dns tcp tls)
  with assms show ?thesis
    using unat_add_u64 [of "http_connections s" "http_connections c" "http_connections d" n]
    by (simp add: counted_from_def durations_nonneg_def counter_defs wrap64_sum)
next
  case (Http_Retry t)
  with assms show ?thesis
    using unat_add_u64 [of "http_retries s" "http_retries c" "http_retries d" 1]
    by (simp add: counted_from_def durations_nonneg_def counter_defs wrap64_sum)
qed

lemma counted_from_fold:
  assumes "counted_from c d s" "events_fit es s" "durations_nonneg c" "durations_nonneg d"
  shows "counted_from c (fold count_step es d) (fold count_step es s)
       \<and> durations_nonneg (fold count_step es d)"
  using assms
proof (induction es arbitrary: d s)
  case (Cons e es)
  have "counted_from c (count_step e d) (count_step e s) \<and> durations_nonneg (count_step e d)"
    using Cons.prems by (intro counted_from_step) simp_all
  with Cons.prems Cons.IH [of "count_step e d" "count_step e s"] show ?case by simp
qed simp

lemma spent_u64_counted: "unat s = unat c + unat d \<Longrightarrow> spent_u64 s c = d"
proof -
  assume eq: "unat s = unat c + unat d"
  then have "unat c + unat d < 2 ^ 64" using size_t_range [of s] by simp
  then have "unat (c + d) = unat s" using eq by (simp only: unat_plus_no_wrap)
  then have s: "s = c + d" by (simp only: word_unat_eq_iff)
  show "spent_u64 s c = d"
  proof (cases "d = 0")
    case False
    then have "0 < unat d" by (simp add: unat_gt_0)
    then have "c < s" using eq by (simp add: word_less_nat_alt)
    then show ?thesis unfolding spent_u64_def using s by simp
  qed (simp add: s spent_u64_def)
qed

lemma spent_duration_counted: "s = c + d \<Longrightarrow> 0 \<le> d \<Longrightarrow> spent_duration s c = d"
  by (simp add: spent_duration_def)

lemma counters_since_counted:
  "counted_from c d s \<Longrightarrow> durations_nonneg d \<Longrightarrow> counters_since s c = d"
  by (simp add: counters_since_def counted_from_def durations_nonneg_def spent_u64_counted
      spent_duration_counted)

text \<open>
  The difference of two readings is what was counted between them: for any sequence of counted
  size probes, connections and retries that does not overflow a counter, the later reading since
  the earlier one is what the same events count from zero.
\<close>

theorem counters_since_counts_interval:
  assumes "durations_nonneg c" and "events_fit es c"
  shows "counters_since (fold count_step es c) c = fold count_step es zero_counters"
proof -
  have "counted_from c zero_counters c" "durations_nonneg zero_counters"
    by (simp_all add: counted_from_def zero_counters_def durations_nonneg_def)
  from counted_from_fold [OF this(1) assms(2,1) this(2)] show ?thesis
    by (simp add: counters_since_counted)
qed

theorem counters_since_counts_interval_witness:
  "counters_since (fold count_step [Http_Retry 500, Size_Probe 7, Http_Connection 2 1 2 3]
       (count_http_retry 9 zero_counters)) (count_http_retry 9 zero_counters)
     = fold count_step [Http_Retry 500, Size_Probe 7, Http_Connection 2 1 2 3] zero_counters"
  by (rule counters_since_counts_interval)
    (simp_all add: counter_defs zero_counters_def durations_nonneg_def wrap64_def)

end
