(* ===== verification/Http_Retry.thy ===== *)
theory Http_Retry
  imports Counters
begin

text \<open>
  HTTP attempts and their retries: \<open>cpp/src/detail/http_retry.cpp\<close> (the retry policy) and
  \<open>cpp/src/shim/libcurl.cpp\<close> (the pool of easy handles, the accounting of connections and the
  blocking transfer \<open>CurlHandle::perform\<close>). libcurl itself is a record of functions over a world
  of type \<open>'w\<close>, in which the attempts of a transfer run one after the other; waiting and logging
  are entries of a trace. Delays are milliseconds in the policy and nanoseconds in the counters.
\<close>

section \<open>Result codes\<close>

text \<open>The codes of libcurl that the code names; every other one is \<open>CURLE_OTHER\<close> of its number.\<close>

datatype CURLcode =
    CURLE_OK
  | CURLE_COULDNT_RESOLVE_HOST
  | CURLE_COULDNT_CONNECT
  | CURLE_PARTIAL_FILE
  | CURLE_HTTP_RETURNED_ERROR
  | CURLE_WRITE_ERROR
  | CURLE_OPERATION_TIMEDOUT
  | CURLE_GOT_NOTHING
  | CURLE_SEND_ERROR
  | CURLE_RECV_ERROR
  | CURLE_OTHER nat

record 'w curl_api =
  easy_perform :: "'w \<Rightarrow> CURLcode \<times> 'w"
  response_code :: "'w \<Rightarrow> CURLcode \<times> 64 word"
  num_connects :: "'w \<Rightarrow> CURLcode \<times> int"
  namelookup_time :: "'w \<Rightarrow> CURLcode \<times> int"
  connect_time :: "'w \<Rightarrow> CURLcode \<times> int"
  appconnect_time :: "'w \<Rightarrow> CURLcode \<times> int"
  errbuf :: "'w \<Rightarrow> string"
  clear_errbuf :: "'w \<Rightarrow> 'w"
  strerror :: "CURLcode \<Rightarrow> string"

section \<open>The retry policy\<close>

datatype RetryDecision = SUCCESS | RETRY | FATAL | EXHAUSTED

record RetryOutcome =
  decision :: RetryDecision
  delay_ms :: int
  message :: string

record HttpRetryPolicy =
  max_attempts :: size_t
  retryable_status_codes :: "32 word list"
  base_delay_ms :: int
  max_delay_ms :: int

definition HttpRetryPolicy :: "size_t \<Rightarrow> 32 word list \<Rightarrow> HttpRetryPolicy res" where
  "HttpRetryPolicy attempts codes =
     bind_res (kvikio_expect (attempts > 0) Invalid_Argument)
       (\<lambda>_. Inr \<lparr>max_attempts = attempts, retryable_status_codes = codes,
                 base_delay_ms = 500, max_delay_ms = 4000\<rparr>)"

definition is_retryable :: "HttpRetryPolicy \<Rightarrow> CURLcode \<Rightarrow> 64 word \<Rightarrow> bool" where
  "is_retryable p curl_code http_code =
     (case curl_code of
        CURLE_OPERATION_TIMEDOUT \<Rightarrow> True
      | CURLE_COULDNT_RESOLVE_HOST \<Rightarrow> True
      | CURLE_COULDNT_CONNECT \<Rightarrow> True
      | CURLE_RECV_ERROR \<Rightarrow> True
      | CURLE_SEND_ERROR \<Rightarrow> True
      | CURLE_PARTIAL_FILE \<Rightarrow> True
      | CURLE_GOT_NOTHING \<Rightarrow> True
      | _ \<Rightarrow> ucast http_code \<in> set (retryable_status_codes p))"

definition backoff_for :: "HttpRetryPolicy \<Rightarrow> size_t \<Rightarrow> int" where
  "backoff_for p attempt =
     (let shift = min (attempt - 1) 4
      in min (max_delay_ms p) (base_delay_ms p * 2 ^ unat shift))"

definition evaluate ::
  "(CURLcode \<Rightarrow> string) \<Rightarrow> HttpRetryPolicy \<Rightarrow> CURLcode \<Rightarrow> 64 word \<Rightarrow> size_t \<Rightarrow> string \<Rightarrow> string \<Rightarrow> RetryOutcome res"
where
  "evaluate strerr p curl_code http_code attempt curl_error_message error_prefix =
     bind_res (kvikio_expect (attempt > 0) Invalid_Argument)
       (\<lambda>_. if curl_code = CURLE_OK then Inr \<lparr>decision = SUCCESS, delay_ms = 0, message = []\<rparr>
            else if \<not> is_retryable p curl_code http_code then
              Inr \<lparr>decision = FATAL, delay_ms = 0,
                   message = error_prefix @ '' ('' @
                     (if curl_error_message = [] then strerr curl_code else curl_error_message) @ '')''\<rparr>
            else
              let reason = (if curl_code = CURLE_HTTP_RETURNED_ERROR
                            then ''Got HTTP code '' @ show_int (sint http_code) @ ''.''
                            else ''Transport error: '' @ strerr curl_code @ ''.'')
              in if attempt \<ge> max_attempts p then
                   Inr \<lparr>decision = EXHAUSTED, delay_ms = 0,
                        message = ''KvikIO: HTTP request reached maximum number of attempts ('' @
                          show_nat (unat (max_attempts p)) @ ''). Reason: '' @ reason\<rparr>
                 else
                   let delay = backoff_for p attempt
                   in Inr \<lparr>decision = RETRY, delay_ms = delay,
                           message = ''KvikIO: '' @ reason @ '' Retrying after '' @ show_int delay @
                             ''ms (attempt '' @ show_nat (unat attempt) @ '' of '' @
                             show_nat (unat (max_attempts p)) @ '').''\<rparr>)"

section \<open>Accounting of connections\<close>

definition timing_of :: "CURLcode \<times> int \<Rightarrow> int" where
  "timing_of info = (if fst info \<noteq> CURLE_OK then 0 else snd info)"

text \<open>libcurl's times are microseconds; the counters hold nanoseconds.\<close>

definition count_http_connection_of :: "'w curl_api \<Rightarrow> 'w \<Rightarrow> Counters \<Rightarrow> Counters" where
  "count_http_connection_of api w c =
     (if fst (num_connects api w) \<noteq> CURLE_OK then c
      else let connections = snd (num_connects api w)
      in if connections \<le> 0 then c
      else let namelookup = timing_of (namelookup_time api w);
               connect = timing_of (connect_time api w);
               appconnect = timing_of (appconnect_time api w);
               tcp = (if connect > namelookup then connect - namelookup else 0);
               tls = (if appconnect > connect then appconnect - connect else 0)
           in count_http_connection (word_of_int connections) (1000 * namelookup) (1000 * tcp)
                (1000 * tls) c)"

section \<open>The pool of easy handles\<close>

definition get_free_handle :: "ptr list \<Rightarrow> ptr option \<times> ptr list" where
  "get_free_handle free = (if free \<noteq> [] then (Some (last free), butlast free) else (None, free))"

text \<open>\<open>init\<close> is what \<open>curl_easy_init\<close> returns; resetting a reused handle changes only its options.\<close>

definition get_handle :: "ptr \<Rightarrow> ptr list \<Rightarrow> (ptr \<times> ptr list) res" where
  "get_handle init free =
     (case get_free_handle free of
        (Some h, free') \<Rightarrow> Inr (h, free')
      | (None, free') \<Rightarrow>
          bind_res (kvikio_expect (init \<noteq> 0) Runtime_Error) (\<lambda>_. Inr (init, free')))"

definition retain_handle :: "ptr \<Rightarrow> ptr list \<Rightarrow> ptr list" where
  "retain_handle h free = free @ [h]"

section \<open>The blocking transfer\<close>

datatype perform_event = Warned string | Slept int

record 'w perform_state =
  world :: 'w
  perf_counters :: Counters
  perf_trace :: "perform_event list"

text \<open>
  One round of the loop of \<open>CurlHandle::perform\<close>: \<open>None\<close> means that the loop goes on with the next
  attempt, \<open>Some r\<close> that the function returned or threw.
\<close>

definition perform_attempt ::
  "'w curl_api \<Rightarrow> HttpRetryPolicy \<Rightarrow> ('w \<Rightarrow> 'w) option \<Rightarrow> size_t \<Rightarrow> 'w perform_state
     \<Rightarrow> unit res option \<times> 'w perform_state"
where
  "perform_attempt api p on_retry attempt st =
     (let (curl_code, w1) = easy_perform api (clear_errbuf api (world st));
          st1 = st\<lparr>world := w1, perf_counters := count_http_connection_of api w1 (perf_counters st)\<rparr>
      in if curl_code \<noteq> CURLE_OK \<and> fst (response_code api w1) \<noteq> CURLE_OK
         then (Some (Inl Runtime_Error), st1)
         else let http_code = (if curl_code \<noteq> CURLE_OK then snd (response_code api w1) else 0)
         in case evaluate (strerror api) p curl_code http_code attempt (errbuf api w1)
                   ''curl_easy_perform() error'' of
              Inl e \<Rightarrow> (Some (Inl e), st1)
            | Inr outcome \<Rightarrow>
                (case decision outcome of
                   SUCCESS \<Rightarrow> (Some (Inr ()), st1)
                 | RETRY \<Rightarrow>
                     (None,
                      st1\<lparr>perf_counters := count_http_retry (1000000 * delay_ms outcome) (perf_counters st1),
                          world := (case on_retry of None \<Rightarrow> w1 | Some f \<Rightarrow> f w1),
                          perf_trace := perf_trace st1 @ [Warned (message outcome), Slept (delay_ms outcome)]\<rparr>)
                 | _ \<Rightarrow> (Some (Inl Runtime_Error), st1)))"

text \<open>A round that goes on has not used up the attempts of the policy, so the loop ends.\<close>

lemma perform_attempt_goes_on:
  "perform_attempt api p on_retry attempt st = (None, st') \<Longrightarrow> attempt < max_attempts p"
  by (auto simp: perform_attempt_def evaluate_def Let_def kvikio_expect_def bind_res_def
      split: prod.splits if_splits RetryDecision.splits sum.splits)

function perform_loop ::
  "'w curl_api \<Rightarrow> HttpRetryPolicy \<Rightarrow> ('w \<Rightarrow> 'w) option \<Rightarrow> size_t \<Rightarrow> 'w perform_state
     \<Rightarrow> unit res \<times> 'w perform_state"
where
  "perform_loop api p on_retry attempt st =
     (case perform_attempt api p on_retry attempt st of
        (Some r, st') \<Rightarrow> (r, st')
      | (None, st') \<Rightarrow> perform_loop api p on_retry (attempt + 1) st')"
  by pat_completeness auto

lemma next_attempt_measure: "a < (m :: size_t) \<Longrightarrow> unat (m - (a + 1)) < unat (m - a)"
proof -
  assume "a < m"
  then have lt: "unat a < unat m" by (simp add: word_less_nat_alt)
  then have "unat a + 1 < 2 ^ 64" using size_t_range [of m] by simp
  then have s: "unat (a + 1) = unat a + 1" using unat_plus_no_wrap [of a 1] by simp
  have "a + 1 \<le> m" using lt s by (simp add: word_le_nat_alt)
  with \<open>a < m\<close> show ?thesis using lt s by (simp add: unat_sub less_imp_le)
qed

termination perform_loop
  by (relation "measure (\<lambda>(api, p, on_retry, attempt, st). unat (max_attempts p - attempt))")
    (auto dest!: perform_attempt_goes_on [OF sym] next_attempt_measure)

declare perform_loop.simps [simp del]

definition perform ::
  "'w curl_api \<Rightarrow> size_t \<Rightarrow> 32 word list \<Rightarrow> ('w \<Rightarrow> 'w) option \<Rightarrow> 'w perform_state
     \<Rightarrow> unit res \<times> 'w perform_state"
where
  "perform api attempts codes on_retry st =
     (case HttpRetryPolicy attempts codes of
        Inl e \<Rightarrow> (Inl e, st)
      | Inr policy \<Rightarrow> perform_loop api policy on_retry 1 st)"

section \<open>The delays\<close>

text \<open>The capped shift does not show: the delay is the doubled base delay, capped at the maximum.\<close>

lemma backoff_for_default:
  assumes "base_delay_ms p = 500" "max_delay_ms p = 4000" "Suc n < 2 ^ 64"
  shows "backoff_for p (of_nat (Suc n)) = min 4000 (500 * 2 ^ n)"
proof -
  have "unat (min (of_nat n) 4 :: size_t) = min n 4"
    using assms(3) by (simp add: unat_min_size_t unat_of_nat_size_t)
  then have b: "backoff_for p (of_nat (Suc n)) = min 4000 (500 * 2 ^ min n 4)"
    using assms(1,2) by (simp add: backoff_for_def)
  show ?thesis
  proof (cases "n \<le> 4")
    case False
    then have "(2 :: int) ^ 4 \<le> 2 ^ n" by (intro power_increasing) simp_all
    with b False show ?thesis by simp
  next
    case True
    then have "min n 4 = n" by simp
    with b show ?thesis by (simp only:)
  qed
qed

lemma backoff_for_bounds:
  assumes "HttpRetryPolicy attempts codes = Inr p"
  shows "500 \<le> backoff_for p a" "backoff_for p a \<le> 4000"
proof -
  have "(500 :: int) * 1 \<le> 500 * 2 ^ unat (min (a - 1) 4)" by (rule mult_left_mono) simp_all
  with assms show "500 \<le> backoff_for p a" "backoff_for p a \<le> 4000"
    by (auto simp: HttpRetryPolicy_def backoff_for_def Let_def kvikio_expect_def split: if_splits)
qed

section \<open>The attempts of a transfer\<close>

text \<open>
  The specification of a transfer: the world before attempt \<open>n\<close> (counted from zero) when every
  earlier one was retried, what the attempt returned, and whether its failure was transient.
\<close>

definition run_hook :: "('w \<Rightarrow> 'w) option \<Rightarrow> 'w \<Rightarrow> 'w" where
  "run_hook on_retry w = (case on_retry of None \<Rightarrow> w | Some f \<Rightarrow> f w)"

primrec world_before :: "'w curl_api \<Rightarrow> ('w \<Rightarrow> 'w) option \<Rightarrow> 'w \<Rightarrow> nat \<Rightarrow> 'w" where
  "world_before api h w 0 = w"
| "world_before api h w (Suc n) =
     run_hook h (snd (easy_perform api (clear_errbuf api (world_before api h w n))))"

definition world_after :: "'w curl_api \<Rightarrow> ('w \<Rightarrow> 'w) option \<Rightarrow> 'w \<Rightarrow> nat \<Rightarrow> 'w" where
  "world_after api h w n = snd (easy_perform api (clear_errbuf api (world_before api h w n)))"

definition code_at :: "'w curl_api \<Rightarrow> ('w \<Rightarrow> 'w) option \<Rightarrow> 'w \<Rightarrow> nat \<Rightarrow> CURLcode" where
  "code_at api h w n = fst (easy_perform api (clear_errbuf api (world_before api h w n)))"

definition transient :: "'w curl_api \<Rightarrow> HttpRetryPolicy \<Rightarrow> CURLcode \<Rightarrow> 'w \<Rightarrow> bool" where
  "transient api p c w \<longleftrightarrow>
     c \<noteq> CURLE_OK \<and> fst (response_code api w) = CURLE_OK \<and> is_retryable p c (snd (response_code api w))"

fun sleeps :: "perform_event list \<Rightarrow> int list" where
  "sleeps [] = []"
| "sleeps (Slept d # es) = d # sleeps es"
| "sleeps (Warned m # es) = sleeps es"

lemma sleeps_append [simp]: "sleeps (xs @ ys) = sleeps xs @ sleeps ys"
  by (induction xs rule: sleeps.induct) simp_all

lemma http_retries_connection [simp]:
  "http_retries (count_http_connection_of api w c) = http_retries c"
  by (simp add: count_http_connection_of_def count_http_connection_def Let_def)

text \<open>One round, by whether it is retried.\<close>

lemma perform_attempt_retried:
  assumes "easy_perform api (clear_errbuf api (world st)) = (c, w1)"
    and "transient api p c w1" and "0 < a" "a < max_attempts p"
  obtains st' where "perform_attempt api p h a st = (None, st')"
    and "world st' = run_hook h w1"
    and "sleeps (perf_trace st') = sleeps (perf_trace st) @ [backoff_for p a]"
    and "http_retries (perf_counters st') = http_retries (perf_counters st) + 1"
proof -
  have "\<not> max_attempts p \<le> a" using assms(4) by simp
  then show thesis
    using assms that
    by (simp add: perform_attempt_def evaluate_def transient_def Let_def run_hook_def
        count_http_retry_def)
qed

lemma perform_attempt_last:
  assumes "easy_perform api (clear_errbuf api (world st)) = (c, w1)"
    and "\<not> transient api p c w1 \<or> max_attempts p \<le> a" and "0 < a"
  obtains r st' where "perform_attempt api p h a st = (Some r, st')"
    and "world st' = w1" and "sleeps (perf_trace st') = sleeps (perf_trace st)"
    and "http_retries (perf_counters st') = http_retries (perf_counters st)"
    and "r = (if c = CURLE_OK then Inr () else Inl Runtime_Error)"
proof (cases "c \<noteq> CURLE_OK \<and> fst (response_code api w1) = CURLE_OK")
  case True
  show thesis
  proof (cases "is_retryable p c (snd (response_code api w1))")
    case retryable: True
    with True assms(2) have "max_attempts p \<le> a" by (simp add: transient_def)
    with True retryable assms(1,3) that show thesis
      by (simp add: perform_attempt_def evaluate_def Let_def)
  next
    case False
    with True assms(1,3) that show thesis by (simp add: perform_attempt_def evaluate_def Let_def)
  qed
next
  case False
  with assms(1,3) that show thesis
    by (cases "c = CURLE_OK") (simp_all add: perform_attempt_def evaluate_def Let_def)
qed

lemma perform_loop_spec:
  assumes "world st = world_before api h w n" and "Suc n \<le> unat (max_attempts p)"
  obtains k r st' where "perform_loop api p h (of_nat (Suc n)) st = (r, st')"
    and "n \<le> k" "k < unat (max_attempts p)"
    and "\<And>j. n \<le> j \<Longrightarrow> j < k \<Longrightarrow> transient api p (code_at api h w j) (world_after api h w j)"
    and "transient api p (code_at api h w k) (world_after api h w k) \<Longrightarrow> Suc k = unat (max_attempts p)"
    and "r = (if code_at api h w k = CURLE_OK then Inr () else Inl Runtime_Error)"
    and "world st' = world_after api h w k"
    and "sleeps (perf_trace st') =
           sleeps (perf_trace st) @ map (\<lambda>j. backoff_for p (of_nat (Suc j))) [n..<k]"
    and "http_retries (perf_counters st') = http_retries (perf_counters st) + of_nat (k - n)"
  using assms
proof (induction "unat (max_attempts p) - n" arbitrary: n st thesis rule: less_induct)
  case less
  let ?c = "code_at api h w n" and ?w1 = "world_after api h w n" and ?a = "of_nat (Suc n) :: size_t"
  have lim: "Suc n < 2 ^ 64" using less.prems(3) size_t_range [of "max_attempts p"] by simp
  have a: "unat ?a = Suc n" using lim by (simp only: unat_of_nat_size_t)
  have pos: "0 < ?a" using a by (metis unat_gt_0 word_gt_0 zero_less_Suc)
  have ep: "easy_perform api (clear_errbuf api (world st)) = (?c, ?w1)"
    using less.prems(2) by (simp add: code_at_def world_after_def)
  show ?case
  proof (cases "transient api p ?c ?w1 \<and> ?a < max_attempts p")
    case True
    then obtain st1 where r1: "perform_attempt api p h ?a st = (None, st1)"
        and w1: "world st1 = run_hook h ?w1"
        and t1: "sleeps (perf_trace st1) = sleeps (perf_trace st) @ [backoff_for p ?a]"
        and c1: "http_retries (perf_counters st1) = http_retries (perf_counters st) + 1"
      using perform_attempt_retried [OF ep _ pos] by metis
    have room: "Suc (Suc n) \<le> unat (max_attempts p)" using True a by (simp add: word_less_nat_alt)
    have wb: "world st1 = world_before api h w (Suc n)" using w1 by (simp add: world_after_def)
    have "?a + 1 = of_nat (Suc (Suc n))" by simp
    then have step: "perform_loop api p h ?a st = perform_loop api p h (of_nat (Suc (Suc n))) st1"
      using r1 by (simp only: perform_loop.simps [of api p h ?a] prod.case option.case)
    have m: "unat (max_attempts p) - Suc n < unat (max_attempts p) - n" using room by simp
    show ?thesis
    proof (rule less.hyps [OF m _ wb room])
      fix k r st'
      assume pl: "perform_loop api p h (of_nat (Suc (Suc n))) st1 = (r, st')"
        and nk: "Suc n \<le> k" and km: "k < unat (max_attempts p)"
        and tr: "\<And>j. Suc n \<le> j \<Longrightarrow> j < k \<Longrightarrow> transient api p (code_at api h w j) (world_after api h w j)"
        and rest: "transient api p (code_at api h w k) (world_after api h w k) \<Longrightarrow> Suc k = unat (max_attempts p)"
          "r = (if code_at api h w k = CURLE_OK then Inr () else Inl Runtime_Error)"
          "world st' = world_after api h w k"
        and sl: "sleeps (perf_trace st') =
           sleeps (perf_trace st1) @ map (\<lambda>j. backoff_for p (of_nat (Suc j))) [Suc n..<k]"
        and co: "http_retries (perf_counters st') = http_retries (perf_counters st1) + of_nat (k - Suc n)"
      have all: "transient api p (code_at api h w j) (world_after api h w j)" if "n \<le> j" "j < k" for j
        using tr [of j] True that by (cases "j = n") simp_all
      have sl': "sleeps (perf_trace st') =
           sleeps (perf_trace st) @ map (\<lambda>j. backoff_for p (of_nat (Suc j))) [n..<k]"
        using sl t1 nk by (simp add: upt_conv_Cons [of n k])
      have "k - n = Suc (k - Suc n)" using nk by simp
      then have "(of_nat (k - n) :: 64 word) = 1 + of_nat (k - Suc n)" by (simp only: of_nat_Suc)
      with co c1 have co': "http_retries (perf_counters st') = http_retries (perf_counters st) + of_nat (k - n)"
        by simp
      show thesis by (rule less.prems(1) [OF _ _ km all rest sl' co']) (use pl step nk in simp_all)
    qed
  next
    case False
    then have "\<not> transient api p ?c ?w1 \<or> max_attempts p \<le> ?a" by auto
    then obtain r st1 where r1: "perform_attempt api p h ?a st = (Some r, st1)"
        and o1: "world st1 = ?w1" "sleeps (perf_trace st1) = sleeps (perf_trace st)"
          "http_retries (perf_counters st1) = http_retries (perf_counters st)"
          "r = (if ?c = CURLE_OK then Inr () else Inl Runtime_Error)"
      using perform_attempt_last [OF ep _ pos] by metis
    have "transient api p ?c ?w1 \<Longrightarrow> Suc n = unat (max_attempts p)"
      using False a less.prems(3) by (simp add: word_less_nat_alt)
    moreover have "perform_loop api p h ?a st = (r, st1)"
      using r1 by (simp only: perform_loop.simps [of api p h ?a] prod.case option.case)
    ultimately show ?thesis
      using less.prems(3) o1 by (intro less.prems(1) [of r st1 n]) simp_all
  qed
qed

text \<open>
  C28. A blocking transfer ends after at most the configured number of attempts. Every attempt but
  the last failed with a transient error; the transfer succeeds exactly if its last attempt did
  and throws otherwise, and it gives up a transient failure only on the last allowed attempt. It
  waits once between two attempts, for the doubled delay from half a second capped at four
  seconds, rolls the caller's state back before each further attempt, and counts each retry.
\<close>

theorem perform_attempts:
  assumes "0 < attempts" and "HttpRetryPolicy attempts codes = Inr p"
  shows "\<exists>k < unat attempts. \<exists>st'.
     perform api attempts codes h st =
       (if code_at api h (world st) k = CURLE_OK then Inr () else Inl Runtime_Error, st') \<and>
     (\<forall>j < k. transient api p (code_at api h (world st) j) (world_after api h (world st) j)) \<and>
     (transient api p (code_at api h (world st) k) (world_after api h (world st) k)
        \<longrightarrow> Suc k = unat attempts) \<and>
     world st' = world_after api h (world st) k \<and>
     sleeps (perf_trace st') = sleeps (perf_trace st) @ map (\<lambda>j. min 4000 (500 * 2 ^ j)) [0..<k] \<and>
     http_retries (perf_counters st') = http_retries (perf_counters st) + of_nat k"
proof -
  have p: "max_attempts p = attempts" "base_delay_ms p = 500" "max_delay_ms p = 4000"
    using assms by (auto simp: HttpRetryPolicy_def)
  have one: "Suc 0 \<le> unat (max_attempts p)"
    using assms(1) p by (simp add: Suc_le_eq unat_gt_0)
  obtain k r st' where res: "perform_loop api p h (of_nat (Suc 0)) st = (r, st')"
    and k: "k < unat (max_attempts p)"
    and tr: "\<And>j. 0 \<le> j \<Longrightarrow> j < k \<Longrightarrow>
      transient api p (code_at api h (world st) j) (world_after api h (world st) j)"
    and lst: "transient api p (code_at api h (world st) k) (world_after api h (world st) k)
      \<Longrightarrow> Suc k = unat (max_attempts p)"
    and r: "r = (if code_at api h (world st) k = CURLE_OK then Inr () else Inl Runtime_Error)"
    and w: "world st' = world_after api h (world st) k"
    and sl: "sleeps (perf_trace st') =
      sleeps (perf_trace st) @ map (\<lambda>j. backoff_for p (of_nat (Suc j))) [0..<k]"
    and co: "http_retries (perf_counters st') = http_retries (perf_counters st) + of_nat (k - 0)"
    by (rule perform_loop_spec [of st api h "world st" 0 p]) (use one in simp_all)
  have "map (\<lambda>j. backoff_for p (of_nat (Suc j))) [0..<k] = map (\<lambda>j. min 4000 (500 * 2 ^ j)) [0..<k]"
    using k p size_t_range [of attempts] by (intro map_cong refl backoff_for_default) simp_all
  with res k tr lst r w sl co p assms(2) show ?thesis
    by (intro exI [of _ k] exI [of _ st'] conjI) (auto simp: perform_def)
qed

text \<open>A server that times out twice and then answers.\<close>

definition flaky_api :: "nat curl_api" where
  "flaky_api =
     \<lparr>easy_perform = (\<lambda>n. (if n < 2 then CURLE_OPERATION_TIMEDOUT else CURLE_OK, Suc n)),
      response_code = (\<lambda>_. (CURLE_OK, 0)), num_connects = (\<lambda>_. (CURLE_OK, 1)),
      namelookup_time = (\<lambda>_. (CURLE_OK, 10)), connect_time = (\<lambda>_. (CURLE_OK, 30)),
      appconnect_time = (\<lambda>_. (CURLE_OK, 0)), errbuf = (\<lambda>_. []), clear_errbuf = id,
      strerror = (\<lambda>_. [])\<rparr>"

theorem perform_attempts_witness:
  "\<exists>st'. perform flaky_api 5 [503] None \<lparr>world = 0, perf_counters = zero_counters, perf_trace = []\<rparr> = (Inr (), st')
      \<and> sleeps (perf_trace st') = [500, 1000] \<and> http_retries (perf_counters st') = 2"
proof -
  let ?p = "\<lparr>max_attempts = 5, retryable_status_codes = [503], base_delay_ms = 500, max_delay_ms = 4000\<rparr>"
    and ?st = "\<lparr>world = 0, perf_counters = zero_counters, perf_trace = []\<rparr> :: nat perform_state"
  have wb: "world_before flaky_api None 0 n = n" for n
    by (induction n) (simp_all add: flaky_api_def run_hook_def)
  have c: "code_at flaky_api None 0 n = (if n < 2 then CURLE_OPERATION_TIMEDOUT else CURLE_OK)" for n
    unfolding code_at_def wb by (simp add: flaky_api_def)
  have t: "transient flaky_api ?p (code_at flaky_api None 0 n) w \<longleftrightarrow> n < 2" for n w
    unfolding transient_def c by (simp add: flaky_api_def is_retryable_def)
  have five: "unat (5 :: size_t) = 5" by simp
  obtain k st' where k: "perform flaky_api 5 [503] None ?st =
        (if code_at flaky_api None 0 k = CURLE_OK then Inr () else Inl Runtime_Error, st')"
      "\<forall>j < k. j < 2" "k < 2 \<longrightarrow> Suc k = 5"
      "sleeps (perf_trace st') = map (\<lambda>j. min 4000 (500 * 2 ^ j)) [0..<k]"
      "http_retries (perf_counters st') = of_nat k"
    using perform_attempts [of 5 "[503]" ?p flaky_api None ?st]
    by (auto simp: HttpRetryPolicy_def t zero_counters_def five)
  have "k = 2"
  proof (rule ccontr)
    assume "k \<noteq> 2"
    with k(3) have "2 < k" by linarith
    with k(2) show False by auto
  qed
  with k show ?thesis by (intro exI [of _ st']) (simp add: c upt_rec)
qed

section \<open>Handles have one owner\<close>

text \<open>
  The handles in the pool and the handles in use, as transfers take and give them back. The handle
  \<open>curl_easy_init\<close> returns is one that is not alive.
\<close>

inductive handles_reachable :: "ptr list \<Rightarrow> ptr list \<Rightarrow> bool" where
  start: "handles_reachable [] []"
| take_one: "handles_reachable free used \<Longrightarrow> init \<notin> set free \<Longrightarrow> init \<notin> set used \<Longrightarrow>
     get_handle init free = Inr (h, free') \<Longrightarrow> handles_reachable free' (h # used)"
| give_back: "handles_reachable free used \<Longrightarrow> h \<in> set used \<Longrightarrow>
     handles_reachable (retain_handle h free) (remove1 h used)"

lemma get_handle_cases:
  assumes "get_handle init free = Inr (h, free')"
  obtains "free = free' @ [h]" | "free = []" "h = init" "free' = []" "h \<noteq> 0"
  using assms append_butlast_last_id [of free]
  by (auto simp: get_handle_def get_free_handle_def kvikio_expect_def split: if_splits)

text \<open>
  C39. A curl handle has one owner: whatever transfers take from the pool and give back, no handle
  is handed out twice, none is free and in use at the same time, and none is null.
\<close>

theorem handles_have_one_owner:
  assumes "handles_reachable free used"
  shows "distinct (free @ used) \<and> 0 \<notin> set (free @ used)"
  using assms
proof (induction rule: handles_reachable.induct)
  case start
  show ?case by simp
next
  case (take_one free used init h free')
  from take_one.hyps(4) show ?case
    by (cases rule: get_handle_cases) (use take_one in \<open>auto\<close>)
next
  case (give_back free used h)
  then show ?case by (auto simp: retain_handle_def dest: notin_set_remove1)
qed

theorem handles_have_one_owner_witness:
  "distinct ([7 :: ptr] @ [9]) \<and> 0 \<notin> set ([7 :: ptr] @ [9])"
proof -
  have "handles_reachable [] [7]"
    using handles_reachable.take_one [OF handles_reachable.start, of 7]
    by (simp add: get_handle_def get_free_handle_def)
  then have "handles_reachable [] [9, 7]"
    using handles_reachable.take_one [of "[]" "[7]" 9 9 "[]"] by (simp add: get_handle_def get_free_handle_def)
  then have "handles_reachable [7] [9]"
    using handles_reachable.give_back [of "[]" "[9, 7]" 7] by (simp add: retain_handle_def)
  then show ?thesis by (rule handles_have_one_owner)
qed

end
