(* ===== verification/Limiter.thy ===== *)
theory Limiter
  imports Prelude
begin

text \<open>
  The admission limiter of the multi-poll backend:
  \<open>cpp/src/detail/concurrent_request_limiter.cpp\<close>. A limiter is a ceiling and an atomic count; a
  slot is a nullable pointer to the limiter that issued it. The store holds the limiters by
  address and the slots by index; \<open>try_acquire\<close> is split at its atomic accesses (load, check,
  compare-exchange, which may fail spuriously), so the calls of several threads interleave there.
  Moving, resetting and destroying slots are one step each.
\<close>

section \<open>Data and operations\<close>

record Limiter =
  max_concurrent_requests :: "size_t option"
  lim_count :: size_t

definition ConcurrentRequestLimiter :: "size_t option \<Rightarrow> Limiter" where
  "ConcurrentRequestLimiter maximum = \<lparr>max_concurrent_requests = maximum, lim_count = 0\<rparr>"

definition unlimited :: "Limiter \<Rightarrow> bool" where
  "unlimited l \<longleftrightarrow> max_concurrent_requests l = None"

text \<open>The flag says whether the underflow was noticed and logged.\<close>

definition limiter_release :: "Limiter \<Rightarrow> Limiter \<times> bool" where
  "limiter_release l = (l\<lparr>lim_count := lim_count l - 1\<rparr>, lim_count l = 0)"

record limiter_store =
  limiters :: "nat \<Rightarrow> Limiter"
  slots :: "nat option list"
  acquiring :: "nat \<Rightarrow> (nat \<times> size_t) option"
  underflow_logged :: bool

definition initial_store :: "(nat \<Rightarrow> size_t option) \<Rightarrow> limiter_store" where
  "initial_store ceilings =
     \<lparr>limiters = (\<lambda>a. ConcurrentRequestLimiter (ceilings a)), slots = [], acquiring = (\<lambda>_. None),
      underflow_logged = False\<rparr>"

definition set_count :: "nat \<Rightarrow> size_t \<Rightarrow> limiter_store \<Rightarrow> limiter_store" where
  "set_count a c st = st\<lparr>limiters := (limiters st)(a := (limiters st a)\<lparr>lim_count := c\<rparr>)\<rparr>"

definition slot_reset :: "nat \<Rightarrow> limiter_store \<Rightarrow> limiter_store" where
  "slot_reset i st =
     (case slots st ! i of
        None \<Rightarrow> st
      | Some a \<Rightarrow>
          let (l, logged) = limiter_release (limiters st a)
          in st\<lparr>limiters := (limiters st)(a := l), slots := (slots st)[i := None],
                underflow_logged := underflow_logged st \<or> logged\<rparr>)"

definition slot_move_construct :: "nat \<Rightarrow> limiter_store \<Rightarrow> limiter_store" where
  "slot_move_construct j st = st\<lparr>slots := (slots st)[j := None] @ [slots st ! j]\<rparr>"

definition slot_move_assign :: "nat \<Rightarrow> nat \<Rightarrow> limiter_store \<Rightarrow> limiter_store" where
  "slot_move_assign i j st =
     (if i = j then st
      else let st1 = slot_reset i st
           in st1\<lparr>slots := (slots st1)[i := slots st1 ! j, j := None]\<rparr>)"

definition slot_destroy :: "nat \<Rightarrow> limiter_store \<Rightarrow> limiter_store" where
  "slot_destroy i st = (let st1 = slot_reset i st
                        in st1\<lparr>slots := take i (slots st1) @ drop (Suc i) (slots st1)\<rparr>)"

text \<open>
  \<open>try_acquire\<close> on limiter \<open>a\<close> by thread \<open>t\<close>. Without a ceiling it is one \<open>fetch_add\<close>. With one it
  loads the count, and then each round of the loop either finds the ceiling reached and returns an
  empty slot, or tries the compare-exchange, which succeeds only if the count is still the value
  seen, and otherwise stores the current count in \<open>cur\<close>.
\<close>

definition acquire_begin :: "nat \<Rightarrow> nat \<Rightarrow> limiter_store \<Rightarrow> limiter_store" where
  "acquire_begin t a st =
     (if unlimited (limiters st a)
      then (set_count a (lim_count (limiters st a) + 1) st)\<lparr>slots := slots st @ [Some a]\<rparr>
      else st\<lparr>acquiring := (acquiring st)(t := Some (a, lim_count (limiters st a)))\<rparr>)"

definition acquire_round :: "bool \<Rightarrow> nat \<Rightarrow> limiter_store \<Rightarrow> limiter_store" where
  "acquire_round spurious t st =
     (case acquiring st t of
        None \<Rightarrow> st
      | Some (a, cur) \<Rightarrow>
          (case max_concurrent_requests (limiters st a) of
             None \<Rightarrow> st
           | Some ceiling \<Rightarrow>
               if cur \<ge> ceiling
               then st\<lparr>acquiring := (acquiring st)(t := None), slots := slots st @ [None]\<rparr>
               else if lim_count (limiters st a) = cur \<and> \<not> spurious
               then (set_count a (cur + 1) st)\<lparr>acquiring := (acquiring st)(t := None),
                                               slots := slots st @ [Some a]\<rparr>
               else st\<lparr>acquiring := (acquiring st)(t := Some (a, lim_count (limiters st a)))\<rparr>))"

inductive limiter_step :: "limiter_store \<Rightarrow> limiter_store \<Rightarrow> bool" where
  begin_acquire: "acquiring st t = None \<Longrightarrow> limiter_step st (acquire_begin t a st)"
| round: "limiter_step st (acquire_round spurious t st)"
| reset: "i < length (slots st) \<Longrightarrow> limiter_step st (slot_reset i st)"
| move_construct: "j < length (slots st) \<Longrightarrow> limiter_step st (slot_move_construct j st)"
| move_assign: "i < length (slots st) \<Longrightarrow> j < length (slots st) \<Longrightarrow> limiter_step st (slot_move_assign i j st)"
| destroy: "i < length (slots st) \<Longrightarrow> limiter_step st (slot_destroy i st)"

inductive limiter_reachable :: "(nat \<Rightarrow> size_t option) \<Rightarrow> limiter_store \<Rightarrow> bool" for ceilings where
  init: "limiter_reachable ceilings (initial_store ceilings)"
| step: "limiter_reachable ceilings st \<Longrightarrow> limiter_step st st' \<Longrightarrow> limiter_reachable ceilings st'"

section \<open>The count is the number of engaged slots\<close>

definition engaged :: "nat \<Rightarrow> nat option list \<Rightarrow> nat" where
  "engaged a ss = count_list ss (Some a)"

definition limiter_inv :: "(nat \<Rightarrow> size_t option) \<Rightarrow> limiter_store \<Rightarrow> bool" where
  "limiter_inv ceilings st \<longleftrightarrow>
     (\<forall>a. max_concurrent_requests (limiters st a) = ceilings a \<and>
          lim_count (limiters st a) = of_nat (engaged a (slots st)) \<and>
          (\<forall>m. ceilings a = Some m \<longrightarrow> engaged a (slots st) \<le> unat m))"

lemma engaged_simps [simp]:
  "engaged a [] = 0"
  "engaged a (ss @ ts) = engaged a ss + engaged a ts"
  "engaged a [s] = (if s = Some a then 1 else 0)"
  by (simp_all add: engaged_def)

lemma engaged_update:
  assumes "i < length ss"
  shows "engaged a ss + (if s = Some a then 1 else 0)
       = engaged a (ss[i := s]) + (if ss ! i = Some a then 1 else 0)"
proof -
  have "engaged a (take i ss @ ss ! i # drop (Suc i) ss) = engaged a ss"
    using assms by (simp flip: id_take_nth_drop)
  moreover have "engaged a (ss[i := s]) = engaged a (take i ss @ s # drop (Suc i) ss)"
    using assms by (simp add: upd_conv_take_nth_drop)
  ultimately show ?thesis by (simp add: engaged_def split: if_splits)
qed

lemma engaged_remove:
  assumes "i < length ss" "ss ! i = None"
  shows "engaged a (take i ss @ drop (Suc i) ss) = engaged a ss"
proof -
  have "engaged a (take i ss @ ss ! i # drop (Suc i) ss) = engaged a ss"
    using assms(1) by (simp flip: id_take_nth_drop)
  with assms(2) show ?thesis by (simp add: engaged_def)
qed

lemma engaged_clear:
  assumes "i < length ss" "ss ! i = Some b"
  shows "engaged a ss = engaged a (ss[i := None]) + (if a = b then 1 else 0)"
  using engaged_update [OF assms(1), of a None] assms(2) by simp

lemma slot_reset_length [simp]: "length (slots (slot_reset i st)) = length (slots st)"
  by (simp add: slot_reset_def limiter_release_def split: option.split)

lemma slot_reset_nth: "i < length (slots st) \<Longrightarrow> slots (slot_reset i st) ! i = None"
  by (simp add: slot_reset_def limiter_release_def split: option.split)

lemma slot_reset_nth_other: "i \<noteq> j \<Longrightarrow> slots (slot_reset i st) ! j = slots st ! j"
  by (simp add: slot_reset_def limiter_release_def split: option.split)

lemma limiter_inv_reset:
  assumes inv: "limiter_inv ceilings st" and i: "i < length (slots st)"
  shows "limiter_inv ceilings (slot_reset i st)"
proof (cases "slots st ! i")
  case None
  with inv show ?thesis by (simp add: slot_reset_def)
next
  case (Some b)
  show ?thesis unfolding limiter_inv_def
  proof
    fix a
    have e: "engaged a (slots st) = engaged a ((slots st)[i := None]) + (if a = b then 1 else 0)"
      by (rule engaged_clear [OF i Some])
    have le: "engaged a ((slots st)[i := None]) \<le> unat m" if "ceilings a = Some m" for m
      using inv e that by (fastforce simp: limiter_inv_def)
    from e le inv Some show "max_concurrent_requests (limiters (slot_reset i st) a) = ceilings a \<and>
        lim_count (limiters (slot_reset i st) a) = of_nat (engaged a (slots (slot_reset i st))) \<and>
        (\<forall>m. ceilings a = Some m \<longrightarrow> engaged a (slots (slot_reset i st)) \<le> unat m)"
      by (auto simp: limiter_inv_def slot_reset_def limiter_release_def)
  qed
qed

text \<open>Steps that only move slots around keep the number of engaged ones.\<close>

lemma limiter_inv_slots:
  assumes "limiter_inv ceilings st" and "\<And>a. engaged a ss = engaged a (slots st)"
  shows "limiter_inv ceilings (st\<lparr>slots := ss\<rparr>)"
  using assms by (simp add: limiter_inv_def)

lemma limiter_inv_acquiring [simp]:
  "limiter_inv ceilings (st\<lparr>acquiring := q\<rparr>) \<longleftrightarrow> limiter_inv ceilings st"
  by (simp add: limiter_inv_def)

lemma limiter_inv_move_assign:
  assumes "limiter_inv ceilings st" "i < length (slots st)" "j < length (slots st)"
  shows "limiter_inv ceilings (slot_move_assign i j st)"
proof (cases "i = j")
  case True
  with assms(1) show ?thesis by (simp add: slot_move_assign_def)
next
  case False
  let ?st = "slot_reset i st"
  have "engaged a ((slots ?st)[i := slots ?st ! j, j := None]) = engaged a (slots ?st)" for a
    using engaged_update [of i "slots ?st" a "slots ?st ! j"] False assms(2,3)
      engaged_update [of j "(slots ?st)[i := slots ?st ! j]" a None]
    by (simp add: slot_reset_nth)
  with limiter_inv_reset [OF assms(1,2)] False show ?thesis
    by (simp add: slot_move_assign_def Let_def limiter_inv_slots)
qed

lemma limiter_inv_acquired:
  assumes "limiter_inv ceilings st" "lim_count (limiters st a) = cur"
    and "\<And>m. ceilings a = Some m \<Longrightarrow> cur < m"
  shows "limiter_inv ceilings ((set_count a (cur + 1) st)\<lparr>slots := slots st @ [Some a]\<rparr>)"
  unfolding limiter_inv_def
proof
  fix b
  have "Suc (engaged a (slots st)) \<le> unat m" if m: "ceilings a = Some m" for m
  proof -
    have le: "engaged a (slots st) \<le> unat m" using assms(1) m by (simp add: limiter_inv_def)
    then have "unat (of_nat (engaged a (slots st)) :: size_t) = engaged a (slots st)"
      using size_t_range [of m] by (simp add: unat_of_nat_size_t)
    moreover have "(of_nat (engaged a (slots st)) :: size_t) < m"
      using assms m by (simp add: limiter_inv_def)
    ultimately show ?thesis by (simp add: word_less_nat_alt)
  qed
  with assms show "max_concurrent_requests (limiters ((set_count a (cur + 1) st)\<lparr>slots := slots st @ [Some a]\<rparr>) b)
        = ceilings b \<and>
      lim_count (limiters ((set_count a (cur + 1) st)\<lparr>slots := slots st @ [Some a]\<rparr>) b)
        = of_nat (engaged b (slots ((set_count a (cur + 1) st)\<lparr>slots := slots st @ [Some a]\<rparr>))) \<and>
      (\<forall>m. ceilings b = Some m \<longrightarrow>
        engaged b (slots ((set_count a (cur + 1) st)\<lparr>slots := slots st @ [Some a]\<rparr>)) \<le> unat m)"
    by (auto simp: limiter_inv_def set_count_def)
qed

lemma limiter_inv_round:
  assumes "limiter_inv ceilings st"
  shows "limiter_inv ceilings (acquire_round spurious t st)"
proof (cases "acquiring st t")
  case (Some q)
  obtain a cur where q: "q = (a, cur)" by (cases q)
  show ?thesis
  proof (cases "ceilings a")
    case None
    with assms Some q show ?thesis by (simp add: acquire_round_def limiter_inv_def)
  next
    case m: (Some m)
    with assms have m': "max_concurrent_requests (limiters st a) = Some m" by (simp add: limiter_inv_def)
    have acq: "limiter_inv ceilings ((set_count a (cur + 1) st)\<lparr>acquiring := r, slots := slots st @ [Some a]\<rparr>)"
      if "lim_count (limiters st a) = cur" "cur < m" for r
      using limiter_inv_acquired [OF assms that(1)] m that(2)
      by (simp add: limiter_inv_def)
    have refused: "limiter_inv ceilings (st\<lparr>acquiring := r, slots := slots st @ [None]\<rparr>)" for r
      using assms by (simp add: limiter_inv_def)
    show ?thesis using Some q m' acq refused assms by (auto simp: acquire_round_def)
  qed
qed (simp add: assms acquire_round_def)

lemma limiter_inv_step:
  assumes "limiter_step st st'" and inv: "limiter_inv ceilings st"
  shows "limiter_inv ceilings st'"
  using assms(1)
proof cases
  case (begin_acquire t a)
  then show ?thesis
    using limiter_inv_acquired [OF inv refl, of a] inv
    by (auto simp: acquire_begin_def unlimited_def limiter_inv_def)
next
  case (round spurious t)
  with inv show ?thesis by (simp add: limiter_inv_round)
next
  case (reset i)
  with inv show ?thesis by (simp add: limiter_inv_reset)
next
  case (move_construct j)
  then show ?thesis
    using engaged_update [of j "slots st" _ None] inv
    by (auto simp: slot_move_construct_def intro!: limiter_inv_slots)
next
  case (move_assign i j)
  with inv show ?thesis by (simp add: limiter_inv_move_assign)
next
  case (destroy i)
  then show ?thesis
    using limiter_inv_reset [OF inv, of i] engaged_remove [of i "slots (slot_reset i st)"]
    by (simp add: slot_destroy_def Let_def limiter_inv_slots slot_reset_nth)
qed

lemma limiter_inv_reachable: "limiter_reachable ceilings st \<Longrightarrow> limiter_inv ceilings st"
proof (induction rule: limiter_reachable.induct)
  case init
  show ?case by (simp add: initial_store_def ConcurrentRequestLimiter_def limiter_inv_def)
qed (rule limiter_inv_step)

lemma limiter_inv_count:
  assumes "limiter_inv ceilings st" and "ceilings a = Some m"
  shows "unat (lim_count (limiters st a)) = engaged a (slots st) \<and> engaged a (slots st) \<le> unat m"
proof -
  have "engaged a (slots st) \<le> unat m" "lim_count (limiters st a) = of_nat (engaged a (slots st))"
    using assms by (simp_all add: limiter_inv_def)
  then show ?thesis using size_t_range [of m] by (simp add: unat_of_nat_size_t)
qed

text \<open>
  C24. The ceiling of a limiter is a hard cap: however the threads interleave inside
  \<open>try_acquire\<close>, also when compare-exchanges fail, and however slots are moved, reset and
  destroyed, the count is at every moment the number of engaged slots of the limiter, and no more
  slots are engaged than its ceiling allows.
\<close>

theorem limiter_hard_cap:
  assumes "limiter_reachable ceilings st" and "ceilings a = Some m"
  shows "unat (lim_count (limiters st a)) = engaged a (slots st) \<and> engaged a (slots st) \<le> unat m"
  by (rule limiter_inv_count [OF limiter_inv_reachable [OF assms(1)] assms(2)])

text \<open>Two threads race for the only slot of a limiter: both load zero, one wins.\<close>

definition race_store :: limiter_store where
  "race_store = acquire_round False 1 (acquire_round False 2 (acquire_round False 1
     (acquire_begin 2 0 (acquire_begin 1 0 (initial_store (\<lambda>_. Some 1))))))"

lemma race_store_reachable: "limiter_reachable (\<lambda>_. Some 1) race_store"
  unfolding race_store_def
  by (intro limiter_reachable.step [OF _ limiter_step.round] limiter_reachable.step [OF _ limiter_step.begin_acquire]
      limiter_reachable.init)
    (simp_all add: initial_store_def acquire_begin_def unlimited_def ConcurrentRequestLimiter_def)

theorem limiter_hard_cap_witness:
  "engaged 0 (slots race_store) = 1 \<and> unat (lim_count (limiters race_store 0)) = 1 \<and>
   engaged 0 (slots race_store) \<le> unat (1 :: size_t)"
proof -
  have "slots race_store = [Some 0, None] \<or> slots race_store = [Some 0]"
    by (simp add: race_store_def acquire_round_def acquire_begin_def initial_store_def unlimited_def
        ConcurrentRequestLimiter_def set_count_def)
  then have "engaged 0 (slots race_store) = 1" by (auto simp: engaged_def)
  moreover have "unat (lim_count (limiters race_store 0)) = engaged 0 (slots race_store)
      \<and> engaged 0 (slots race_store) \<le> unat (1 :: size_t)"
    by (rule limiter_hard_cap [OF race_store_reachable refl])
  ultimately show ?thesis by simp
qed

text \<open>
  A slot pays back what it took, once: no release ever finds the count of a bounded limiter at
  zero, so the underflow the code guards against does not happen and the limiter cannot lock up.
\<close>

theorem limiter_release_never_underflows:
  assumes "limiter_reachable ceilings st" and "range ceilings \<subseteq> range Some"
  shows "\<not> underflow_logged st"
  using assms
proof (induction rule: limiter_reachable.induct)
  case init
  show ?case by (simp add: initial_store_def)
next
  case (step st st')
  have cap: "lim_count (limiters st a) \<noteq> 0" if "i < length (slots st)" "slots st ! i = Some a" for i a
  proof -
    obtain m where m: "ceilings a = Some m" using step.prems by (metis rangeE rangeI subsetD)
    have "engaged a (slots st) \<noteq> 0"
      using that by (metis count_list_0_iff engaged_def nth_mem)
    with limiter_inv_count [OF limiter_inv_reachable [OF step.hyps(1)] m] show ?thesis by auto
  qed
  have r: "\<not> underflow_logged (slot_reset i st)" if "i < length (slots st)" for i
    using cap [OF that] step.IH [OF step.prems]
    by (simp add: slot_reset_def limiter_release_def split: option.split)
  from step.hyps(2) show ?case
    by cases (use r step.IH [OF step.prems] in \<open>simp_all add: acquire_begin_def acquire_round_def set_count_def
        slot_move_construct_def slot_move_assign_def slot_destroy_def Let_def split: option.split prod.split\<close>)
qed

theorem limiter_release_never_underflows_witness:
  "\<not> underflow_logged (slot_reset 0 race_store)"
proof (rule limiter_release_never_underflows)
  have "0 < length (slots race_store)"
    by (simp add: race_store_def acquire_round_def acquire_begin_def initial_store_def unlimited_def
        ConcurrentRequestLimiter_def set_count_def)
  then show "limiter_reachable (\<lambda>_. Some 1) (slot_reset 0 race_store)"
    by (intro limiter_reachable.step [OF race_store_reachable] limiter_step.reset)
qed auto

section \<open>The limiter as its clients see it\<close>

text \<open>A call of \<open>try_acquire\<close> that no other thread interrupts; the flag tells whether the slot is engaged.\<close>

definition try_acquire :: "Limiter \<Rightarrow> bool \<times> Limiter" where
  "try_acquire l =
     (case max_concurrent_requests l of
        None \<Rightarrow> (True, l\<lparr>lim_count := lim_count l + 1\<rparr>)
      | Some ceiling \<Rightarrow>
          if lim_count l \<ge> ceiling then (False, l) else (True, l\<lparr>lim_count := lim_count l + 1\<rparr>))"

lemma try_acquire_uninterrupted:
  assumes "acquiring st t = None"
  shows "limiters (acquire_round False t (acquire_begin t a st)) a = snd (try_acquire (limiters st a))"
  using assms
  by (simp add: acquire_round_def acquire_begin_def try_acquire_def unlimited_def set_count_def
      split: option.split)

text \<open>
  What a client relies on: an engaged slot is one more in use, an empty one changes nothing, a
  refusal happens only at the ceiling, and a release gives one back.
\<close>

locale slot_limiter =
  fixes acquire :: "'l \<Rightarrow> bool \<times> 'l"
    and release :: "'l \<Rightarrow> 'l"
    and in_use :: "'l \<Rightarrow> nat"
    and ceiling :: "'l \<Rightarrow> nat option"
  assumes acquired: "acquire l = (True, l') \<Longrightarrow> in_use l < 2 ^ 64 - 1 \<Longrightarrow>
      in_use l' = Suc (in_use l) \<and> ceiling l' = ceiling l"
    and refused: "acquire l = (False, l') \<Longrightarrow> l' = l \<and> (\<exists>m. ceiling l = Some m \<and> m \<le> in_use l)"
    and within: "acquire l = (True, l') \<Longrightarrow> ceiling l = Some m \<Longrightarrow> in_use l < m"
    and released: "0 < in_use l \<Longrightarrow> in_use (release l) = in_use l - 1 \<and> ceiling (release l) = ceiling l"
begin

definition within_ceiling :: "'l \<Rightarrow> bool" where
  "within_ceiling l \<longleftrightarrow> (\<forall>m. ceiling l = Some m \<longrightarrow> in_use l \<le> m)"

lemma acquire_within:
  "acquire l = (b, l') \<Longrightarrow> in_use l < 2 ^ 64 - 1 \<Longrightarrow> within_ceiling l \<Longrightarrow> within_ceiling l'"
  using acquired [of l l'] refused [of l l'] within [of l l']
  by (cases b) (fastforce simp: within_ceiling_def)+

lemma release_within: "0 < in_use l \<Longrightarrow> within_ceiling l \<Longrightarrow> within_ceiling (release l)"
  using released [of l] by (fastforce simp: within_ceiling_def)

end

definition slots_in_use :: "Limiter \<Rightarrow> nat" where
  "slots_in_use l = unat (lim_count l)"

definition slot_ceiling :: "Limiter \<Rightarrow> nat option" where
  "slot_ceiling l = map_option unat (max_concurrent_requests l)"

interpretation reactor_limiter:
  slot_limiter try_acquire "\<lambda>l. fst (limiter_release l)" slots_in_use slot_ceiling
proof
  fix l l'
  assume a: "try_acquire l = (True, l')" and "slots_in_use l < 2 ^ 64 - 1"
  then have "unat (lim_count l + 1) = Suc (unat (lim_count l))"
    by (simp add: slots_in_use_def unat_plus_no_wrap)
  with a show "slots_in_use l' = Suc (slots_in_use l) \<and> slot_ceiling l' = slot_ceiling l"
    by (auto simp: try_acquire_def slots_in_use_def slot_ceiling_def split: option.splits if_splits)
next
  fix l l'
  assume "try_acquire l = (False, l')"
  then show "l' = l \<and> (\<exists>m. slot_ceiling l = Some m \<and> m \<le> slots_in_use l)"
    by (auto simp: try_acquire_def slots_in_use_def slot_ceiling_def word_le_nat_alt
        split: option.splits if_splits)
next
  fix l l' m
  assume "try_acquire l = (True, l')" "slot_ceiling l = Some m"
  then show "slots_in_use l < m"
    by (auto simp: try_acquire_def slots_in_use_def slot_ceiling_def word_less_nat_alt not_le
        split: option.splits if_splits)
next
  fix l
  assume "0 < slots_in_use l"
  then have "1 \<le> lim_count l" by (simp add: slots_in_use_def word_le_nat_alt)
  then have "unat (lim_count l - 1) = unat (lim_count l) - 1" by (simp add: unat_sub)
  then show "slots_in_use (fst (limiter_release l)) = slots_in_use l - 1
      \<and> slot_ceiling (fst (limiter_release l)) = slot_ceiling l"
    by (simp add: limiter_release_def slots_in_use_def slot_ceiling_def)
qed

end
