(* ===== verification/Remote_Callback.thy ===== *)
theory Remote_Callback
  imports Prelude
begin

text \<open>
  Received data on its way into memory: \<open>cpp/src/detail/remote_callback.cpp\<close> (the copy with
  non-temporal stores and the libcurl write callbacks for host memory, pinned buffers and strings)
  and the classes \<open>BounceBufferH2D\<close> and \<open>callback_device_memory\<close> of \<open>cpp/src/remote_handle.cpp\<close>. A
  non-temporal store to an address that is not 32-byte aligned faults, which is \<open>None\<close> in the copy
  functions and their callers. The data libcurl hands over lies in libcurl's own buffer, so it is
  a list of bytes; the context structure and the memories are passed and returned.
\<close>

section \<open>Copying\<close>

record copy_env =
  discard_data_enabled :: bool
  nontemporal_copy_enabled :: bool
  nontemporal_copy_threshold :: size_t
  cpu_supports_avx2 :: bool

text \<open>\<open>_mm256_stream_si256\<close>: 32 bytes to a 32-byte aligned address.\<close>

definition stream_store :: "ptr \<Rightarrow> byte list \<Rightarrow> memory \<Rightarrow> memory option" where
  "stream_store dst block m = (if dst mod 32 = 0 then Some (write_bytes m dst block) else None)"

fun stream_blocks :: "ptr \<Rightarrow> byte list \<Rightarrow> memory \<Rightarrow> (ptr \<times> byte list \<times> memory) option" where
  "stream_blocks dst src m =
     (if length src \<ge> 32 then
        (case stream_store dst (take 32 src) m of
           None \<Rightarrow> None
         | Some m' \<Rightarrow> stream_blocks (dst + 32) (drop 32 src) m')
      else Some (dst, src, m))"

declare stream_blocks.simps [simp del]

definition copy_nontemporal_impl :: "ptr \<Rightarrow> byte list \<Rightarrow> memory \<Rightarrow> memory option" where
  "copy_nontemporal_impl dst src m =
     (let misaligned = dst mod 32;
          (dst1, src1, m1) =
            (if misaligned \<noteq> 0 then
               let head = min (length src) (unat (32 - misaligned))
               in (dst + of_nat head, drop head src, write_bytes m dst (take head src))
             else (dst, src, m))
      in case stream_blocks dst1 src1 m1 of
           None \<Rightarrow> None
         | Some (dst2, src2, m2) \<Rightarrow>
             Some (if src2 \<noteq> [] then write_bytes m2 dst2 src2 else m2))"

definition copy_nontemporal :: "copy_env \<Rightarrow> ptr \<Rightarrow> byte list \<Rightarrow> memory \<Rightarrow> memory option" where
  "copy_nontemporal env dst src m =
     (if cpu_supports_avx2 env then copy_nontemporal_impl dst src m
      else Some (write_bytes m dst src))"

definition copy_received_data :: "copy_env \<Rightarrow> ptr \<Rightarrow> byte list \<Rightarrow> size_t \<Rightarrow> memory \<Rightarrow> memory option" where
  "copy_received_data env dst src range_size m =
     (if nontemporal_copy_enabled env \<and> range_size \<ge> nontemporal_copy_threshold env
      then copy_nontemporal env dst src m
      else Some (write_bytes m dst src))"

section \<open>The write callbacks\<close>

record CallbackContext =
  ctx_buf :: ptr
  ctx_size :: size_t
  ctx_offset :: "64 word"
  overflow_error :: bool
  pinned_buffer :: ptr

definition CallbackContext :: "ptr \<Rightarrow> size_t \<Rightarrow> CallbackContext" where
  "CallbackContext buf sz =
     \<lparr>ctx_buf = buf, ctx_size = sz, ctx_offset = 0, overflow_error = False, pinned_buffer = 0\<rparr>"

definition reset_for_retry :: "CallbackContext \<Rightarrow> CallbackContext" where
  "reset_for_retry ctx = ctx\<lparr>ctx_offset := 0, overflow_error := False\<rparr>"

definition CURL_WRITEFUNC_ERROR :: size_t where
  "CURL_WRITEFUNC_ERROR = 0xFFFFFFFF"

definition callback_host_memory ::
  "copy_env \<Rightarrow> byte list \<Rightarrow> size_t \<Rightarrow> size_t \<Rightarrow> CallbackContext \<Rightarrow> memory
     \<Rightarrow> (size_t \<times> CallbackContext \<times> memory) option"
where
  "callback_host_memory env data sz nmemb ctx m =
     (let nbytes = sz * nmemb
      in if ctx_size ctx < ctx_offset ctx + nbytes
         then Some (CURL_WRITEFUNC_ERROR, ctx\<lparr>overflow_error := True\<rparr>, m)
         else case (if discard_data_enabled env then Some m
                    else copy_received_data env (ctx_buf ctx + ctx_offset ctx) (take (unat nbytes) data)
                           (ctx_size ctx) m) of
                None \<Rightarrow> None
              | Some m' \<Rightarrow> Some (nbytes, ctx\<lparr>ctx_offset := ctx_offset ctx + nbytes\<rparr>, m'))"

definition callback_pinned_buffer ::
  "copy_env \<Rightarrow> byte list \<Rightarrow> size_t \<Rightarrow> size_t \<Rightarrow> CallbackContext \<Rightarrow> memory
     \<Rightarrow> (size_t \<times> CallbackContext \<times> memory) option"
where
  "callback_pinned_buffer env data sz nmemb ctx m =
     (let nbytes = sz * nmemb
      in if ctx_size ctx < ctx_offset ctx + nbytes
         then Some (CURL_WRITEFUNC_ERROR, ctx\<lparr>overflow_error := True\<rparr>, m)
         else case copy_received_data env (pinned_buffer ctx + ctx_offset ctx) (take (unat nbytes) data)
                     (ctx_size ctx) m of
                None \<Rightarrow> None
              | Some m' \<Rightarrow> Some (nbytes, ctx\<lparr>ctx_offset := ctx_offset ctx + nbytes\<rparr>, m'))"

definition callback_get_string_response ::
  "byte list \<Rightarrow> size_t \<Rightarrow> size_t \<Rightarrow> byte list \<Rightarrow> size_t \<times> byte list"
where
  "callback_get_string_response data sz num_bytes response =
     (let new_data_size = sz * num_bytes
      in (new_data_size, response @ take (unat new_data_size) data))"

section \<open>The bounce buffer to device memory\<close>

text \<open>
  A CUDA copy is a parameter: it returns whether it succeeded. The pinned buffer lies in host
  memory at \<open>host_buffer\<close>, of \<open>host_size\<close> bytes.
\<close>

record BounceBufferH2D =
  h2d_dev :: ptr
  host_buffer :: ptr
  host_size :: size_t
  dev_offset :: "64 word"
  host_offset :: "64 word"

record 'e h2d_world =
  h2d_mem :: memory
  h2d_device :: memory
  h2d_ext :: 'e

definition BounceBufferH2D :: "ptr \<Rightarrow> ptr \<Rightarrow> size_t \<Rightarrow> BounceBufferH2D" where
  "BounceBufferH2D device_buffer buffer bsize =
     \<lparr>h2d_dev = device_buffer, host_buffer = buffer, host_size = bsize, dev_offset = 0, host_offset = 0\<rparr>"

definition write_to_device ::
  "('e \<Rightarrow> bool \<times> 'e) \<Rightarrow> byte list \<Rightarrow> BounceBufferH2D \<Rightarrow> 'e h2d_world \<Rightarrow> unit res \<times> BounceBufferH2D \<times> 'e h2d_world"
where
  "write_to_device copy src b w =
     (if length src > 0 then
        let (ok, e) = copy (h2d_ext w) in
        if \<not> ok then (Inl CUfile_Exception, b, w\<lparr>h2d_ext := e\<rparr>)
        else (Inr (), b\<lparr>dev_offset := dev_offset b + of_nat (length src)\<rparr>,
              w\<lparr>h2d_device := write_bytes (h2d_device w) (h2d_dev b + dev_offset b) src, h2d_ext := e\<rparr>)
      else (Inr (), b, w))"

definition h2d_flush ::
  "('e \<Rightarrow> bool \<times> 'e) \<Rightarrow> BounceBufferH2D \<Rightarrow> 'e h2d_world \<Rightarrow> unit res \<times> BounceBufferH2D \<times> 'e h2d_world"
where
  "h2d_flush copy b w =
     (case write_to_device copy (read_bytes (h2d_mem w) (host_buffer b) (unat (host_offset b))) b w of
        (Inl x, b1, w1) \<Rightarrow> (Inl x, b1, w1)
      | (Inr _, b1, w1) \<Rightarrow> (Inr (), b1\<lparr>host_offset := 0\<rparr>, w1))"

definition h2d_write ::
  "copy_env \<Rightarrow> ('e \<Rightarrow> bool \<times> 'e) \<Rightarrow> byte list \<Rightarrow> size_t \<Rightarrow> BounceBufferH2D \<Rightarrow> 'e h2d_world
     \<Rightarrow> (unit res \<times> BounceBufferH2D \<times> 'e h2d_world) option"
where
  "h2d_write env copy data range_size b w =
     (let size = of_nat (length data)
      in case (if host_size b - host_offset b < size then h2d_flush copy b w else (Inr (), b, w)) of
           (Inl x, b1, w1) \<Rightarrow> Some (Inl x, b1, w1)
         | (Inr _, b1, w1) \<Rightarrow>
             if host_size b1 < size then Some (write_to_device copy data b1 w1)
             else if size > 0 then
               (case copy_received_data env (host_buffer b1 + host_offset b1) data range_size (h2d_mem w1) of
                  None \<Rightarrow> None
                | Some m' \<Rightarrow> Some (Inr (), b1\<lparr>host_offset := host_offset b1 + size\<rparr>, w1\<lparr>h2d_mem := m'\<rparr>))
             else Some (Inr (), b1, w1))"

text \<open>The destructor flushes; an error there is printed, not thrown.\<close>

definition h2d_destroy :: "('e \<Rightarrow> bool \<times> 'e) \<Rightarrow> BounceBufferH2D \<Rightarrow> 'e h2d_world \<Rightarrow> 'e h2d_world" where
  "h2d_destroy copy b w = (case h2d_flush copy b w of (_, _, w1) \<Rightarrow> w1)"

definition h2d_reset_for_retry :: "BounceBufferH2D \<Rightarrow> BounceBufferH2D" where
  "h2d_reset_for_retry b = b\<lparr>dev_offset := 0, host_offset := 0\<rparr>"

definition callback_device_memory ::
  "copy_env \<Rightarrow> ('e \<Rightarrow> bool \<times> 'e) \<Rightarrow> byte list \<Rightarrow> size_t \<Rightarrow> size_t \<Rightarrow> CallbackContext \<Rightarrow> BounceBufferH2D
     \<Rightarrow> 'e h2d_world \<Rightarrow> (size_t res \<times> CallbackContext \<times> BounceBufferH2D \<times> 'e h2d_world) option"
where
  "callback_device_memory env copy data sz nmemb ctx b w =
     (let nbytes = sz * nmemb
      in if ctx_size ctx < ctx_offset ctx + nbytes
         then Some (Inr CURL_WRITEFUNC_ERROR, ctx\<lparr>overflow_error := True\<rparr>, b, w)
         else case h2d_write env copy (take (unat nbytes) data) (ctx_size ctx) b w of
                None \<Rightarrow> None
              | Some (Inl x, b1, w1) \<Rightarrow> Some (Inl x, ctx, b1, w1)
              | Some (Inr _, b1, w1) \<Rightarrow> Some (Inr nbytes, ctx\<lparr>ctx_offset := ctx_offset ctx + nbytes\<rparr>, b1, w1))"

section \<open>The copy with non-temporal stores is a copy\<close>

lemma mod32_add: "unat ((a + b :: ptr) mod 32) = (unat a + unat b) mod 32"
  by (simp add: unat_mod unat_word_ariths mod_mod_cancel)

lemma stream_blocks_copies:
  assumes "dst mod 32 = 0" "length src \<le> 2 ^ 64"
  obtains dst' src' m' where "stream_blocks dst src m = Some (dst', src', m')"
    and "write_bytes m' dst' src' = write_bytes m dst src"
  using assms
proof (induction dst src m arbitrary: thesis rule: stream_blocks.induct)
  case (1 dst src m)
  show ?case
  proof (cases "length src \<ge> 32")
    case True
    let ?m = "write_bytes m dst (take 32 src)"
    have al: "(dst + 32) mod 32 = 0"
      using "1.prems"(2) mod32_add [of dst 32] by (simp add: word_unat_eq_iff unat_mod)
    have st: "stream_store dst (take 32 src) m = Some ?m" using "1.prems"(2) by (simp add: stream_store_def)
    have len: "length (drop 32 src) \<le> 2 ^ 64" using "1.prems"(3) by simp
    obtain dst' src' m' where r: "stream_blocks (dst + 32) (drop 32 src) ?m = Some (dst', src', m')"
        and w: "write_bytes m' dst' src' = write_bytes ?m (dst + 32) (drop 32 src)"
      using "1.IH" [OF True st _ al len] by metis
    have "write_bytes ?m (dst + of_nat (length (take 32 src))) (drop 32 src)
        = write_bytes m dst (take 32 src @ drop 32 src)"
      using "1.prems"(3) by (intro write_bytes_append) simp
    with True w have "write_bytes m' dst' src' = write_bytes m dst src" by (simp add: min_absorb2)
    with r st True show ?thesis
      by (intro "1.prems"(1) [of dst' src' m']) (simp_all add: stream_blocks.simps [of dst])
  next
    case False
    then show ?thesis by (intro "1.prems"(1) [of dst src m]) (simp_all add: stream_blocks.simps [of dst])
  qed
qed

lemma stream_blocks_short: "length src < 32 \<Longrightarrow> stream_blocks dst src m = Some (dst, src, m)"
  by (simp add: stream_blocks.simps)

lemma aligned_after_head: "(dst + (32 - dst mod 32) :: ptr) mod 32 = 0"
proof -
  let ?r = "unat (dst mod 32)"
  have r: "?r = unat dst mod 32" by (simp add: unat_mod)
  have "dst mod 32 \<le> 32" by (simp add: word_le_nat_alt r)
  then have h: "unat (32 - dst mod 32) = 32 - ?r" by (simp add: unat_sub)
  have le: "?r < 32" by (simp add: r)
  have "unat ((dst + (32 - dst mod 32)) mod 32) = (unat dst + (32 - ?r)) mod 32"
    unfolding mod32_add h ..
  also have "\<dots> = 0"
  proof -
    have "unat dst = 32 * (unat dst div 32) + ?r" by (simp add: r)
    then have "unat dst + (32 - ?r) = 32 * (unat dst div 32 + 1)" using le by simp
    then show ?thesis by simp
  qed
  finally show ?thesis by (simp only: word_unat_eq_iff unat_0)
qed

lemma copy_nontemporal_impl_eq:
  assumes "length src \<le> 2 ^ 64"
  shows "copy_nontemporal_impl dst src m = Some (write_bytes m dst src)"
proof (cases "dst mod 32 = 0")
  case True
  obtain dst' src' m' where r: "stream_blocks dst src m = Some (dst', src', m')"
      and "write_bytes m' dst' src' = write_bytes m dst src"
    by (rule stream_blocks_copies [OF True assms])
  with True show ?thesis by (auto simp: copy_nontemporal_impl_def)
next
  case False
  let ?h = "min (length src) (unat (32 - dst mod 32))"
  let ?m = "write_bytes m dst (take ?h src)" and ?d = "dst + of_nat ?h"
  have app: "write_bytes ?m ?d (drop ?h src) = write_bytes m dst src"
    using write_bytes_append [of "take ?h src" "drop ?h src" m dst] assms by simp
  have "\<exists>dst' src' m'. stream_blocks ?d (drop ?h src) ?m = Some (dst', src', m')
      \<and> write_bytes m' dst' src' = write_bytes m dst src"
  proof (cases "length src < unat (32 - dst mod 32)")
    case True
    then show ?thesis using app by (simp add: stream_blocks_short)
  next
    case False
    then have "?h = unat (32 - dst mod 32)" by simp
    then have "?d mod 32 = 0" using aligned_after_head [of dst] by simp
    moreover have "length (drop ?h src) \<le> 2 ^ 64" using assms by simp
    ultimately show ?thesis using stream_blocks_copies app by metis
  qed
  then obtain dst' src' m' where r: "stream_blocks ?d (drop ?h src) ?m = Some (dst', src', m')"
      and "write_bytes m' dst' src' = write_bytes m dst src"
    by blast
  with False show ?thesis by (auto simp: copy_nontemporal_impl_def Let_def)
qed

lemma copy_eq_write:
  "length src < 2 ^ 63 \<Longrightarrow> copy_received_data env dst src range_size m = Some (write_bytes m dst src)"
  by (simp add: copy_received_data_def copy_nontemporal_def copy_nontemporal_impl_eq)

text \<open>
  C38. Copying received data is copying it: with non-temporal stores or without, for every address,
  length and setting, the destination gets exactly the bytes of the source, nothing around it
  changes, and no streaming store goes to an address that is not 32-byte aligned.
\<close>

theorem copy_received_data_is_memcpy:
  assumes "length src \<le> 2 ^ 64"
  shows "copy_received_data env dst src range_size m = Some (write_bytes m dst src)"
  using assms by (simp add: copy_received_data_def copy_nontemporal_def copy_nontemporal_impl_eq)

theorem copy_received_data_is_memcpy_witness:
  "copy_received_data \<lparr>discard_data_enabled = False, nontemporal_copy_enabled = True,
       nontemporal_copy_threshold = 64, cpu_supports_avx2 = True\<rparr> 35 (replicate 100 7) 128 (\<lambda>_. 0)
     = Some (write_bytes (\<lambda>_. 0) 35 (replicate 100 7))"
  by (rule copy_received_data_is_memcpy) simp

section \<open>Delivering the chunks of a response\<close>

text \<open>
  What libcurl documents of \<open>CURLOPT_WRITEFUNCTION\<close>: the callback is called with the chunks of the
  body in order, and a return value other than the number of bytes stops the transfer.
\<close>

fun deliver ::
  "(byte list \<Rightarrow> CallbackContext \<Rightarrow> memory \<Rightarrow> (size_t \<times> CallbackContext \<times> memory) option)
     \<Rightarrow> byte list list \<Rightarrow> CallbackContext \<Rightarrow> memory \<Rightarrow> (bool \<times> CallbackContext \<times> memory) option"
where
  "deliver cb [] ctx m = Some (True, ctx, m)"
| "deliver cb (c # cs) ctx m =
     (case cb c ctx m of
        None \<Rightarrow> None
      | Some (n, ctx', m') \<Rightarrow>
          if n = of_nat (length c) then deliver cb cs ctx' m' else Some (False, ctx', m'))"

text \<open>The chunks that fit into \<open>n\<close> bytes, up to the first that does not.\<close>

fun accepted :: "nat \<Rightarrow> byte list list \<Rightarrow> byte list list" where
  "accepted n [] = []"
| "accepted n (c # cs) = (if length c \<le> n then c # accepted (n - length c) cs else [])"

lemma accepted_length: "length (concat (accepted n cs)) \<le> n"
  by (induction n cs rule: accepted.induct) auto

lemma accepted_all: "length (concat cs) \<le> n \<Longrightarrow> accepted n cs = cs"
  by (induction n cs rule: accepted.induct) auto

lemma accepted_all_iff: "accepted n cs = cs \<longleftrightarrow> length (concat cs) \<le> n"
  using accepted_all accepted_length by metis

definition sane :: "CallbackContext \<Rightarrow> bool" where
  "sane ctx \<longleftrightarrow> unat (ctx_size ctx) < 2 ^ 63 \<and> unat (ctx_offset ctx) \<le> unat (ctx_size ctx)"

text \<open>
  The contract of a write callback: a chunk that fits is appended behind what was received before,
  one that does not is refused and flagged, and nothing is written.
\<close>

locale write_callback =
  fixes cb :: "byte list \<Rightarrow> CallbackContext \<Rightarrow> memory \<Rightarrow> (size_t \<times> CallbackContext \<times> memory) option"
    and dest :: "CallbackContext \<Rightarrow> ptr"
  assumes takes: "\<lbrakk>sane ctx; unat (ctx_offset ctx) + length c \<le> unat (ctx_size ctx)\<rbrakk> \<Longrightarrow>
      cb c ctx m = Some (of_nat (length c), ctx\<lparr>ctx_offset := ctx_offset ctx + of_nat (length c)\<rparr>,
                         write_bytes m (dest ctx + ctx_offset ctx) c)"
    and refuses: "\<lbrakk>sane ctx; length c < 2 ^ 32; unat (ctx_size ctx) < unat (ctx_offset ctx) + length c\<rbrakk> \<Longrightarrow>
      cb c ctx m = Some (CURL_WRITEFUNC_ERROR, ctx\<lparr>overflow_error := True\<rparr>, m)"
    and dest_offset: "dest (ctx\<lparr>ctx_offset := x\<rparr>) = dest ctx"
begin

lemma deliver_spec:
  assumes "sane ctx" "\<And>c. c \<in> set cs \<Longrightarrow> length c < 2 ^ 32 - 1"
  shows "deliver cb cs ctx m =
     (let acc = accepted (unat (ctx_size ctx) - unat (ctx_offset ctx)) cs
      in Some (acc = cs,
               ctx\<lparr>ctx_offset := ctx_offset ctx + of_nat (length (concat acc)),
                   overflow_error := overflow_error ctx \<or> acc \<noteq> cs\<rparr>,
               write_bytes m (dest ctx + ctx_offset ctx) (concat acc)))"
  using assms
proof (induction cs arbitrary: ctx m)
  case Nil
  then show ?case by simp
next
  case (Cons c cs)
  let ?room = "unat (ctx_size ctx) - unat (ctx_offset ctx)"
  show ?case
  proof (cases "length c \<le> ?room")
    case True
    let ?ctx = "ctx\<lparr>ctx_offset := ctx_offset ctx + of_nat (length c)\<rparr>"
    let ?acc = "accepted (?room - length c) cs"
    have le: "unat (ctx_offset ctx) + length c \<le> unat (ctx_size ctx)"
      using True Cons.prems(1) unfolding sane_def by linarith
    have len: "length c < 2 ^ 64" using le size_t_range [of "ctx_size ctx"] by simp
    have off: "unat (ctx_offset ctx + of_nat (length c)) = unat (ctx_offset ctx) + length c"
      using le size_t_range [of "ctx_size ctx"] len by (simp add: unat_plus_no_wrap unat_of_nat_size_t)
    have sane': "sane ?ctx" using Cons.prems(1) le off by (simp add: sane_def)
    have room': "unat (ctx_size ?ctx) - unat (ctx_offset ?ctx) = ?room - length c" using off by simp
    have app: "write_bytes (write_bytes m (dest ctx + ctx_offset ctx) c)
        (dest ctx + ctx_offset ctx + of_nat (length c)) (concat ?acc)
        = write_bytes m (dest ctx + ctx_offset ctx) (c @ concat ?acc)"
      using accepted_length [of "?room - length c" cs] True size_t_range [of "ctx_size ctx"]
      by (intro write_bytes_append) linarith
    have "deliver cb cs ?ctx (write_bytes m (dest ctx + ctx_offset ctx) c) =
        Some (?acc = cs, ?ctx\<lparr>ctx_offset := ctx_offset ?ctx + of_nat (length (concat ?acc)),
            overflow_error := overflow_error ctx \<or> ?acc \<noteq> cs\<rparr>,
          write_bytes (write_bytes m (dest ctx + ctx_offset ctx) c)
            (dest ctx + ctx_offset ctx + of_nat (length c)) (concat ?acc))"
      using Cons.IH [OF sane'] Cons.prems(2) room' by (simp add: dest_offset add.assoc Let_def)
    with takes [OF Cons.prems(1) le, of m] app True show ?thesis
      by (simp add: Let_def add.assoc)
  next
    case False
    then have gt: "unat (ctx_size ctx) < unat (ctx_offset ctx) + length c" by simp
    have len: "length c < 2 ^ 32 - 1" using Cons.prems(2) by simp
    have "(of_nat (length c) :: size_t) \<noteq> CURL_WRITEFUNC_ERROR"
    proof
      assume "(of_nat (length c) :: size_t) = CURL_WRITEFUNC_ERROR"
      then have "unat (of_nat (length c) :: size_t) = unat CURL_WRITEFUNC_ERROR" by (simp only:)
      with len show False by (simp add: CURL_WRITEFUNC_ERROR_def unat_of_nat_size_t)
    qed
    then show ?thesis
      using refuses [OF Cons.prems(1) _ gt, of m] len False by (simp add: Let_def)
  qed
qed

end

text \<open>The check of the callbacks, \<open>size < offset + nbytes\<close> on \<open>size_t\<close>, read as natural numbers.\<close>

lemma overflow_check:
  assumes "sane ctx" "length c < 2 ^ 63"
  shows "ctx_size ctx < ctx_offset ctx + of_nat (length c)
     \<longleftrightarrow> unat (ctx_size ctx) < unat (ctx_offset ctx) + length c"
proof -
  have "unat (of_nat (length c) :: size_t) = length c" using assms(2) by (simp add: unat_of_nat_size_t)
  moreover have "unat (ctx_offset ctx) + length c < 2 ^ 64" using assms by (auto simp: sane_def)
  ultimately show ?thesis by (simp add: word_less_nat_alt unat_plus_no_wrap)
qed

lemma chunk_small:
  "sane ctx \<Longrightarrow> unat (ctx_offset ctx) + length c \<le> unat (ctx_size ctx) \<Longrightarrow> length c < 2 ^ 63"
  by (auto simp: sane_def)

lemma unat_chunk: "length c < 2 ^ 63 \<Longrightarrow> unat (of_nat (length c) :: size_t) = length c"
  by (simp add: unat_of_nat_size_t)

text \<open>The callbacks as libcurl calls them, with elements of size one.\<close>

definition host_cb ::
  "copy_env \<Rightarrow> byte list \<Rightarrow> CallbackContext \<Rightarrow> memory \<Rightarrow> (size_t \<times> CallbackContext \<times> memory) option"
where
  "host_cb env c = callback_host_memory env c 1 (of_nat (length c))"

definition pinned_cb ::
  "copy_env \<Rightarrow> byte list \<Rightarrow> CallbackContext \<Rightarrow> memory \<Rightarrow> (size_t \<times> CallbackContext \<times> memory) option"
where
  "pinned_cb env c = callback_pinned_buffer env c 1 (of_nat (length c))"

lemma write_callback_host:
  assumes "\<not> discard_data_enabled env"
  shows "write_callback (host_cb env) ctx_buf"
proof
  fix ctx m and c :: "byte list"
  assume s: "sane ctx" and le: "unat (ctx_offset ctx) + length c \<le> unat (ctx_size ctx)"
  with chunk_small [OF s le] show "host_cb env c ctx m =
      Some (of_nat (length c), ctx\<lparr>ctx_offset := ctx_offset ctx + of_nat (length c)\<rparr>,
            write_bytes m (ctx_buf ctx + ctx_offset ctx) c)"
    using assms overflow_check [OF s, of c]
    by (simp add: host_cb_def callback_host_memory_def unat_chunk copy_eq_write Let_def)
next
  fix ctx m and c :: "byte list"
  assume s: "sane ctx" and "length c < 2 ^ 32" "unat (ctx_size ctx) < unat (ctx_offset ctx) + length c"
  then show "host_cb env c ctx m = Some (CURL_WRITEFUNC_ERROR, ctx\<lparr>overflow_error := True\<rparr>, m)"
    using overflow_check [OF s, of c] by (simp add: host_cb_def callback_host_memory_def)
qed simp

interpretation pinned: write_callback "pinned_cb env" pinned_buffer for env
proof
  fix ctx m and c :: "byte list"
  assume s: "sane ctx" and le: "unat (ctx_offset ctx) + length c \<le> unat (ctx_size ctx)"
  with chunk_small [OF s le] show "pinned_cb env c ctx m =
      Some (of_nat (length c), ctx\<lparr>ctx_offset := ctx_offset ctx + of_nat (length c)\<rparr>,
            write_bytes m (pinned_buffer ctx + ctx_offset ctx) c)"
    using overflow_check [OF s, of c]
    by (simp add: pinned_cb_def callback_pinned_buffer_def unat_chunk copy_eq_write Let_def)
next
  fix ctx m and c :: "byte list"
  assume s: "sane ctx" and "length c < 2 ^ 32" "unat (ctx_size ctx) < unat (ctx_offset ctx) + length c"
  then show "pinned_cb env c ctx m = Some (CURL_WRITEFUNC_ERROR, ctx\<lparr>overflow_error := True\<rparr>, m)"
    using overflow_check [OF s, of c] by (simp add: pinned_cb_def callback_pinned_buffer_def)
qed simp

text \<open>An environment in which received data is kept, with its other settings arbitrary.\<close>

definition keeping :: "copy_env \<Rightarrow> copy_env" where
  "keeping env = env\<lparr>discard_data_enabled := False\<rparr>"

interpretation host: write_callback "host_cb (keeping env)" ctx_buf for env
  by (rule write_callback_host) (simp add: keeping_def)

text \<open>
  C29. The chunks of a response arrive in the host buffer in order and never past its end: the
  callback accepts the chunks that fit into the requested size, up to the first that does not,
  stores exactly their concatenation from the start of the buffer, and reports an overflow if the
  server sent more, after which nothing further is written.
\<close>

theorem host_chunks_delivered:
  assumes "\<not> discard_data_enabled env" and "unat sz < 2 ^ 63"
    and "\<And>c. c \<in> set cs \<Longrightarrow> length c < 2 ^ 32 - 1"
  shows "\<exists>ctx'. deliver (host_cb env) cs (CallbackContext buf sz) m =
       Some (length (concat cs) \<le> unat sz, ctx', write_bytes m buf (concat (accepted (unat sz) cs)))
     \<and> ctx_offset ctx' = of_nat (length (concat (accepted (unat sz) cs)))
     \<and> length (concat (accepted (unat sz) cs)) \<le> unat sz
     \<and> (overflow_error ctx' \<longleftrightarrow> unat sz < length (concat cs))"
proof -
  have "env = keeping env" using assms(1) by (simp add: keeping_def)
  moreover have "sane (CallbackContext buf sz)" using assms(2) by (simp add: sane_def CallbackContext_def)
  ultimately show ?thesis
    using host.deliver_spec [of "CallbackContext buf sz" cs env m] assms(3)
    by (auto simp: CallbackContext_def Let_def accepted_all_iff accepted_length not_le)
qed

theorem host_chunks_delivered_witness:
  "\<exists>ctx'. deliver (host_cb \<lparr>discard_data_enabled = False, nontemporal_copy_enabled = True,
             nontemporal_copy_threshold = 0, cpu_supports_avx2 = True\<rparr>)
           [[1, 2], [3], [4, 5]] (CallbackContext 100 4) (\<lambda>_. 0) =
         Some (False, ctx', write_bytes (\<lambda>_. 0) 100 [1, 2, 3]) \<and> overflow_error ctx'"
proof -
  let ?env = "\<lparr>discard_data_enabled = False, nontemporal_copy_enabled = True,
             nontemporal_copy_threshold = 0, cpu_supports_avx2 = True\<rparr>"
  have "length c < 2 ^ 32 - 1" if "c \<in> set [[1, 2], [3], [4, 5 :: byte]]" for c using that by auto
  then show ?thesis
    using host_chunks_delivered [of ?env 4 "[[1, 2], [3], [4, 5]]" 100 "\<lambda>_. 0"]
    by (auto simp del: deliver.simps)
qed

section \<open>Staging through the bounce buffer\<close>

text \<open>
  What the device will hold once the buffer is flushed: \<open>sent\<close> is everything written so far, of
  which a front part is on the device and the rest in the pinned buffer.
\<close>

definition h2d_inv :: "memory \<Rightarrow> byte list \<Rightarrow> BounceBufferH2D \<Rightarrow> 'e h2d_world \<Rightarrow> bool" where
  "h2d_inv dev0 sent b w \<longleftrightarrow>
     (\<exists>flushed. sent = flushed @ read_bytes (h2d_mem w) (host_buffer b) (unat (host_offset b)) \<and>
        h2d_device w = write_bytes dev0 (h2d_dev b) flushed \<and>
        dev_offset b = of_nat (length flushed)) \<and>
     unat (host_offset b) \<le> unat (host_size b) \<and> length sent < 2 ^ 63"

definition copies_succeed :: "('e \<Rightarrow> bool \<times> 'e) \<Rightarrow> bool" where
  "copies_succeed copy \<longleftrightarrow> (\<forall>e. fst (copy e))"

lemma write_to_device_ok:
  assumes "copies_succeed copy" "dev_offset b = of_nat (length flushed)"
    "h2d_device w = write_bytes dev0 (h2d_dev b) flushed" "length flushed + length src < 2 ^ 63"
  obtains b' w' where "write_to_device copy src b w = (Inr (), b', w')"
    and "h2d_device w' = write_bytes dev0 (h2d_dev b) (flushed @ src)"
    and "b' = b\<lparr>dev_offset := of_nat (length (flushed @ src))\<rparr>" and "h2d_mem w' = h2d_mem w"
proof (cases "src = []")
  case True
  then show ?thesis using that assms(2,3) by (simp add: write_to_device_def)
next
  case False
  have "write_bytes (write_bytes dev0 (h2d_dev b) flushed) (h2d_dev b + of_nat (length flushed)) src
      = write_bytes dev0 (h2d_dev b) (flushed @ src)"
    using assms(4) by (intro write_bytes_append) simp
  moreover obtain e where "copy (h2d_ext w) = (True, e)"
    using assms(1) by (metis copies_succeed_def prod.collapse)
  ultimately show ?thesis
    using that False assms(2,3) by (simp add: write_to_device_def)
qed

lemma h2d_flush_ok:
  assumes "copies_succeed copy" "h2d_inv dev0 sent b w"
  obtains b' w' where "h2d_flush copy b w = (Inr (), b', w')"
    and "h2d_device w' = write_bytes dev0 (h2d_dev b) sent"
    and "b' = b\<lparr>dev_offset := of_nat (length sent), host_offset := 0\<rparr>" and "h2d_mem w' = h2d_mem w"
proof -
  let ?src = "read_bytes (h2d_mem w) (host_buffer b) (unat (host_offset b))"
  obtain flushed where f: "sent = flushed @ ?src" "h2d_device w = write_bytes dev0 (h2d_dev b) flushed"
      "dev_offset b = of_nat (length flushed)" and len: "length sent < 2 ^ 63"
    using assms(2) by (auto simp: h2d_inv_def)
  have lim: "length flushed + length ?src < 2 ^ 63" using f(1) len by (metis length_append)
  obtain b' w' where r: "write_to_device copy ?src b w = (Inr (), b', w')"
      and d: "h2d_device w' = write_bytes dev0 (h2d_dev b) (flushed @ ?src)"
      and b: "b' = b\<lparr>dev_offset := of_nat (length (flushed @ ?src))\<rparr>" and m: "h2d_mem w' = h2d_mem w"
    by (rule write_to_device_ok [OF assms(1) f(3,2) lim])
  show ?thesis
  proof (rule that)
    show "h2d_flush copy b w = (Inr (), b'\<lparr>host_offset := 0\<rparr>, w')" by (simp add: h2d_flush_def r)
    show "h2d_device w' = write_bytes dev0 (h2d_dev b) sent" using d f(1) by simp
    show "b'\<lparr>host_offset := 0\<rparr> = b\<lparr>dev_offset := of_nat (length sent), host_offset := 0\<rparr>"
      using b f(1) by simp
    show "h2d_mem w' = h2d_mem w" by (rule m)
  qed
qed

lemma h2d_inv_flushed:
  assumes "h2d_device w = write_bytes dev0 (h2d_dev b) sent" "dev_offset b = of_nat (length sent)"
    "host_offset b = 0" "length sent < 2 ^ 63"
  shows "h2d_inv dev0 sent b w"
  using assms by (simp add: h2d_inv_def read_bytes_def)

text \<open>Appending behind the pending bytes of the pinned buffer.\<close>

lemma read_bytes_write_append:
  assumes "unat off + length c < 2 ^ 64"
  shows "read_bytes (write_bytes m (a + off) c) a (unat off + length c) = read_bytes m a (unat off) @ c"
proof -
  have r: "length (read_bytes m a (unat off)) = unat off" by simp
  have same: "write_bytes m a (read_bytes m a (unat off)) = m"
    by (rule ext) (simp add: write_bytes_def)
  have "write_bytes (write_bytes m a (read_bytes m a (unat off)))
      (a + of_nat (length (read_bytes m a (unat off)))) c
      = write_bytes m a (read_bytes m a (unat off) @ c)"
    using assms by (intro write_bytes_append) simp
  then have w: "write_bytes m (a + off) c = write_bytes m a (read_bytes m a (unat off) @ c)"
    by (simp add: same)
  have "read_bytes (write_bytes m a (read_bytes m a (unat off) @ c)) a
      (length (read_bytes m a (unat off) @ c)) = read_bytes m a (unat off) @ c"
    using assms by (intro read_write_bytes) simp
  with w show ?thesis by simp
qed

lemma h2d_write_ok:
  assumes "copies_succeed copy" "h2d_inv dev0 sent b w" "length sent + length c < 2 ^ 63"
  obtains b' w' where "h2d_write env copy c range_size b w = Some (Inr (), b', w')"
    and "h2d_inv dev0 (sent @ c) b' w'" and "h2d_dev b' = h2d_dev b"
proof -
  let ?n = "of_nat (length c) :: size_t"
  have n: "unat ?n = length c" using assms(3) by (simp add: unat_of_nat_size_t)
  obtain b1 w1 where r1: "(if host_size b - host_offset b < ?n then h2d_flush copy b w else (Inr (), b, w))
        = (Inr (), b1, w1)"
      and inv1: "h2d_inv dev0 sent b1 w1" and dev1: "h2d_dev b1 = h2d_dev b"
      and room: "length c \<le> unat (host_size b1) \<Longrightarrow> unat (host_offset b1) + length c \<le> unat (host_size b1)"
      and empty: "unat (host_size b1) < length c \<Longrightarrow> host_offset b1 = 0"
  proof (cases "host_size b - host_offset b < ?n")
    case True
    obtain b' w' where f: "h2d_flush copy b w = (Inr (), b', w')"
        "h2d_device w' = write_bytes dev0 (h2d_dev b) sent"
        "b' = b\<lparr>dev_offset := of_nat (length sent), host_offset := 0\<rparr>" "h2d_mem w' = h2d_mem w"
      by (rule h2d_flush_ok [OF assms(1,2)])
    have "h2d_inv dev0 sent b' w'" using f assms(3) by (intro h2d_inv_flushed) simp_all
    with f True that show ?thesis by simp
  next
    case False
    have le: "host_offset b \<le> host_size b" using assms(2) by (simp add: h2d_inv_def word_le_nat_alt)
    have "length c \<le> unat (host_size b) - unat (host_offset b)"
      using False n le by (simp add: not_less word_le_nat_alt unat_sub)
    moreover have "unat (host_offset b) \<le> unat (host_size b)" using le by (simp add: word_le_nat_alt)
    ultimately show ?thesis using False assms(2) that [of b w] by simp
  qed
  show ?thesis
  proof (cases "host_size b1 < ?n")
    case True
    then have e: "host_offset b1 = 0" using empty n by (simp add: word_less_nat_alt)
    then have f: "dev_offset b1 = of_nat (length sent)" "h2d_device w1 = write_bytes dev0 (h2d_dev b1) sent"
      using inv1 by (auto simp: h2d_inv_def read_bytes_def)
    obtain b' w' where d: "write_to_device copy c b1 w1 = (Inr (), b', w')"
        "h2d_device w' = write_bytes dev0 (h2d_dev b1) (sent @ c)"
        "b' = b1\<lparr>dev_offset := of_nat (length (sent @ c))\<rparr>" "h2d_mem w' = h2d_mem w1"
      by (rule write_to_device_ok [OF assms(1) f assms(3)])
    have "h2d_inv dev0 (sent @ c) b' w'" using d e assms(3) by (intro h2d_inv_flushed) simp_all
    with d True r1 dev1 that show ?thesis by (simp add: h2d_write_def)
  next
    case False
    then have fit: "unat (host_offset b1) + length c \<le> unat (host_size b1)"
      using room n by (simp add: word_less_nat_alt)
    show ?thesis
    proof (cases "c = []")
      case True
      with False r1 dev1 inv1 that show ?thesis by (simp add: h2d_write_def)
    next
      case ne: False
      let ?b = "b1\<lparr>host_offset := host_offset b1 + ?n\<rparr>"
        and ?w = "w1\<lparr>h2d_mem := write_bytes (h2d_mem w1) (host_buffer b1 + host_offset b1) c\<rparr>"
      have lim: "unat (host_offset b1) + length c < 2 ^ 64"
        using fit size_t_range [of "host_size b1"] by simp
      have off: "unat (host_offset b1 + ?n) = unat (host_offset b1) + length c"
        using lim n by (simp add: unat_plus_no_wrap)
      have "h2d_inv dev0 (sent @ c) ?b ?w"
        using inv1 fit off assms(3) read_bytes_write_append [OF lim, of "h2d_mem w1" "host_buffer b1"]
        by (auto simp: h2d_inv_def)
      moreover have "0 < ?n" using n ne by (metis length_greater_0_conv unat_gt_0 word_gt_0)
      moreover have "length c < 2 ^ 63" using assms(3) by simp
      ultimately show ?thesis
        using that False r1 dev1 by (simp add: h2d_write_def copy_eq_write)
    qed
  qed
qed

text \<open>The device callback as libcurl calls it for the chunks of a body.\<close>

fun deliver_device ::
  "copy_env \<Rightarrow> ('e \<Rightarrow> bool \<times> 'e) \<Rightarrow> byte list list \<Rightarrow> CallbackContext \<Rightarrow> BounceBufferH2D \<Rightarrow> 'e h2d_world
     \<Rightarrow> (bool res \<times> CallbackContext \<times> BounceBufferH2D \<times> 'e h2d_world) option"
where
  "deliver_device env copy [] ctx b w = Some (Inr True, ctx, b, w)"
| "deliver_device env copy (c # cs) ctx b w =
     (case callback_device_memory env copy c 1 (of_nat (length c)) ctx b w of
        None \<Rightarrow> None
      | Some (Inl x, ctx', b', w') \<Rightarrow> Some (Inl x, ctx', b', w')
      | Some (Inr n, ctx', b', w') \<Rightarrow>
          if n = of_nat (length c) then deliver_device env copy cs ctx' b' w'
          else Some (Inr False, ctx', b', w'))"

lemma deliver_device_spec:
  assumes "copies_succeed copy" "h2d_inv dev0 sent b w" "sane ctx"
    and "unat (ctx_offset ctx) = length sent" "unat (ctx_size ctx) = length sent + length (concat cs)"
  obtains ctx' b' w' where "deliver_device env copy cs ctx b w = Some (Inr True, ctx', b', w')"
    and "h2d_inv dev0 (sent @ concat cs) b' w'" and "h2d_dev b' = h2d_dev b"
  using assms
proof (induction cs arbitrary: sent ctx b w thesis)
  case Nil
  then show ?case by simp
next
  case (Cons c cs)
  have lim: "length sent + length c < 2 ^ 63" using Cons.prems(4,6) by (simp add: sane_def)
  have le: "unat (ctx_offset ctx) + length c \<le> unat (ctx_size ctx)" using Cons.prems(5,6) by simp
  have small: "length c < 2 ^ 63" using lim by simp
  obtain b1 w1 where w1: "h2d_write env copy c (ctx_size ctx) b w = Some (Inr (), b1, w1)"
      "h2d_inv dev0 (sent @ c) b1 w1" "h2d_dev b1 = h2d_dev b"
    by (rule h2d_write_ok [OF Cons.prems(2,3) lim])
  let ?ctx = "ctx\<lparr>ctx_offset := ctx_offset ctx + of_nat (length c)\<rparr>"
  have off: "unat (ctx_offset ctx + of_nat (length c)) = length (sent @ c)"
    using Cons.prems(5) lim small by (simp add: unat_plus_no_wrap unat_chunk)
  have cb: "callback_device_memory env copy c 1 (of_nat (length c)) ctx b w
      = Some (Inr (of_nat (length c)), ?ctx, b1, w1)"
    using overflow_check [OF Cons.prems(4) small] le w1(1) small
    by (simp add: callback_device_memory_def unat_chunk Let_def)
  have sane': "sane ?ctx" using Cons.prems(4) off Cons.prems(6) by (simp add: sane_def)
  obtain ctx' b' w' where "deliver_device env copy cs ?ctx b1 w1 = Some (Inr True, ctx', b', w')"
      "h2d_inv dev0 ((sent @ c) @ concat cs) b' w'" "h2d_dev b' = h2d_dev b1"
    by (rule Cons.IH [OF _ Cons.prems(2) w1(2) sane']) (use off Cons.prems(6) in simp_all)
  with cb w1(3) show ?case by (intro Cons.prems(1) [of ctx' b' w']) simp_all
qed

text \<open>
  C32. A response staged through the pinned bounce buffer arrives in device memory whole and in
  order, whatever the size of the bounce buffer and of the chunks, also when a chunk is larger
  than the whole buffer: after the final flush the device buffer holds exactly the body.
\<close>

theorem device_chunks_delivered:
  assumes "copies_succeed copy" and "unat sz < 2 ^ 63" and "length (concat cs) = unat sz"
  shows "\<exists>ctx' b' w'. deliver_device env copy cs (CallbackContext 0 sz) (BounceBufferH2D dst hbuf hsize) w
       = Some (Inr True, ctx', b', w')
     \<and> h2d_device (h2d_destroy copy b' w') = write_bytes (h2d_device w) dst (concat cs)"
proof -
  let ?b = "BounceBufferH2D dst hbuf hsize" and ?ctx = "CallbackContext 0 sz"
  have inv: "h2d_inv (h2d_device w) [] ?b w" by (simp add: h2d_inv_def BounceBufferH2D_def read_bytes_def)
  have sane: "sane ?ctx" using assms(2) by (simp add: sane_def CallbackContext_def)
  have e: "unat (ctx_offset ?ctx) = length ([] :: byte list)"
      "unat (ctx_size ?ctx) = length ([] :: byte list) + length (concat cs)"
    using assms(3) by (simp_all add: CallbackContext_def)
  obtain ctx' b' w' where r: "deliver_device env copy cs ?ctx ?b w = Some (Inr True, ctx', b', w')"
      and inv': "h2d_inv (h2d_device w) ([] @ concat cs) b' w'" and d: "h2d_dev b' = h2d_dev ?b"
    by (rule deliver_device_spec [OF assms(1) inv sane e])
  obtain b'' w'' where "h2d_flush copy b' w' = (Inr (), b'', w'')"
      "h2d_device w'' = write_bytes (h2d_device w) (h2d_dev b') ([] @ concat cs)"
    by (rule h2d_flush_ok [OF assms(1) inv'])
  with r d show ?thesis by (simp add: h2d_destroy_def BounceBufferH2D_def)
qed

theorem device_chunks_delivered_witness:
  "\<exists>ctx' b' w'. deliver_device \<lparr>discard_data_enabled = False, nontemporal_copy_enabled = False,
         nontemporal_copy_threshold = 0, cpu_supports_avx2 = False\<rparr> (\<lambda>e. (True, e))
       [[1], [2, 3, 4], [5]] (CallbackContext 0 5) (BounceBufferH2D 64 4096 2)
       \<lparr>h2d_mem = (\<lambda>_. 0), h2d_device = (\<lambda>_. 9), h2d_ext = ()\<rparr> = Some (Inr True, ctx', b', w')
     \<and> h2d_device (h2d_destroy (\<lambda>e. (True, e)) b' w') = write_bytes (\<lambda>_. 9) 64 [1, 2, 3, 4, 5]"
  using device_chunks_delivered [of "\<lambda>e. (True, e)" 5 "[[1], [2, 3, 4], [5]]"
      "\<lparr>discard_data_enabled = False, nontemporal_copy_enabled = False,
         nontemporal_copy_threshold = 0, cpu_supports_avx2 = False\<rparr>" 64 4096 2
      "\<lparr>h2d_mem = (\<lambda>_. 0), h2d_device = (\<lambda>_. 9), h2d_ext = ()\<rparr>"]
  by (simp add: copies_succeed_def del: deliver_device.simps)

text \<open>
  The destructor swallows a failing copy: the transfer has been reported as complete, the device
  buffer was never written.
\<close>

lemma final_flush_error_lost:
  "\<exists>ctx' b' w'. deliver_device env (\<lambda>e. (False, e)) [[7]] (CallbackContext 0 1) (BounceBufferH2D dst hbuf 16) w
       = Some (Inr True, ctx', b', w')
     \<and> h2d_device (h2d_destroy (\<lambda>e. (False, e)) b' w') = h2d_device w"
  by (simp add: callback_device_memory_def h2d_write_def CallbackContext_def BounceBufferH2D_def
      copy_eq_write h2d_destroy_def h2d_flush_def write_to_device_def read_bytes_def)

end
