(* ===== verification/Aggregate.thy ===== *)
theory Aggregate
  imports Prelude
begin

text \<open>
  The aggregate of one multi-poll \<open>pread\<close>: \<open>RemoteMultiAggregateContext\<close> of
  \<open>cpp/src/detail/multi_poll_reactor.cpp\<close>. Every sub-range reports once, from the thread of the
  reactor that settled it; the last report fulfils the promise. The two reporting functions are
  split at their atomic accesses and critical sections, so the reports of several reactors
  interleave: a report first notes its bytes or its exception, then decrements the count of
  sub-ranges left, and the one that brought it to zero finishes the observation and fulfils the
  promise. A promise that is set twice throws, which the log of effects would show as a second
  entry.
\<close>

section \<open>Data and operations\<close>

datatype agg_effect =
    Recorder_Finish size_t
  | Recorder_Failure
  | Promise_Value size_t
  | Promise_Exception exn

record RemoteMultiAggregateContext =
  subranges_left :: size_t
  total_bytes :: size_t
  first_exception :: "exn option"
  has_recorder :: bool
  agg_effects :: "agg_effect list"

definition RemoteMultiAggregateContext :: "bool \<Rightarrow> size_t \<Rightarrow> RemoteMultiAggregateContext res" where
  "RemoteMultiAggregateContext rec num_subranges =
     bind_res (kvikio_expect (num_subranges > 0) Invalid_Argument)
       (\<lambda>_. Inr \<lparr>subranges_left = num_subranges, total_bytes = 0, first_exception = None,
                 has_recorder = rec, agg_effects = []\<rparr>)"

text \<open>What a sub-range reports: its bytes or an exception.\<close>

type_synonym report = "size_t res"

text \<open>The first statement of each function: the bytes are added, or the first exception is kept.\<close>

definition note_report :: "report \<Rightarrow> RemoteMultiAggregateContext \<Rightarrow> RemoteMultiAggregateContext" where
  "note_report r a =
     (case r of
        Inr bytes \<Rightarrow> a\<lparr>total_bytes := total_bytes a + bytes\<rparr>
      | Inl e \<Rightarrow> (case first_exception a of None \<Rightarrow> a\<lparr>first_exception := Some e\<rparr> | Some _ \<Rightarrow> a))"

definition decrement_left :: "RemoteMultiAggregateContext \<Rightarrow> bool \<times> RemoteMultiAggregateContext" where
  "decrement_left a = (subranges_left a = 1, a\<lparr>subranges_left := subranges_left a - 1\<rparr>)"

text \<open>
  The critical section of the last report. After a failure the exception is set; \<open>on_subrange_failed\<close>
  needs no test, since its own report has set one.
\<close>

definition fulfil :: "RemoteMultiAggregateContext \<Rightarrow> RemoteMultiAggregateContext" where
  "fulfil a =
     (let rec = (if has_recorder a
                 then [case first_exception a of Some _ \<Rightarrow> Recorder_Failure | None \<Rightarrow> Recorder_Finish (total_bytes a)]
                 else []);
          prm = [case first_exception a of Some e \<Rightarrow> Promise_Exception e | None \<Rightarrow> Promise_Value (total_bytes a)]
      in a\<lparr>agg_effects := agg_effects a @ rec @ prm\<rparr>)"

text \<open>The two functions, run without interruption.\<close>

definition report_subrange :: "report \<Rightarrow> RemoteMultiAggregateContext \<Rightarrow> RemoteMultiAggregateContext" where
  "report_subrange r a =
     (let (last, a1) = decrement_left (note_report r a) in if last then fulfil a1 else a1)"

definition on_subrange_complete :: "size_t \<Rightarrow> RemoteMultiAggregateContext \<Rightarrow> RemoteMultiAggregateContext" where
  "on_subrange_complete bytes a =
     (let a1 = a\<lparr>total_bytes := total_bytes a + bytes\<rparr>;
          a2 = a1\<lparr>subranges_left := subranges_left a1 - 1\<rparr>
      in if subranges_left a1 = 1 then
           let a3 = (if has_recorder a2 then
                       (case first_exception a2 of
                          Some _ \<Rightarrow> a2\<lparr>agg_effects := agg_effects a2 @ [Recorder_Failure]\<rparr>
                        | None \<Rightarrow> a2\<lparr>agg_effects := agg_effects a2 @ [Recorder_Finish (total_bytes a2)]\<rparr>)
                     else a2)
           in (case first_exception a3 of
                 Some e \<Rightarrow> a3\<lparr>agg_effects := agg_effects a3 @ [Promise_Exception e]\<rparr>
               | None \<Rightarrow> a3\<lparr>agg_effects := agg_effects a3 @ [Promise_Value (total_bytes a3)]\<rparr>)
         else a2)"

definition on_subrange_failed :: "exn \<Rightarrow> RemoteMultiAggregateContext \<Rightarrow> RemoteMultiAggregateContext" where
  "on_subrange_failed e a =
     (let a1 = (case first_exception a of None \<Rightarrow> a\<lparr>first_exception := Some e\<rparr> | Some _ \<Rightarrow> a);
          a2 = a1\<lparr>subranges_left := subranges_left a1 - 1\<rparr>
      in if subranges_left a1 = 1 then
           let a3 = (if has_recorder a2 then a2\<lparr>agg_effects := agg_effects a2 @ [Recorder_Failure]\<rparr> else a2)
           in (case first_exception a3 of
                 Some e' \<Rightarrow> a3\<lparr>agg_effects := agg_effects a3 @ [Promise_Exception e']\<rparr>
               | None \<Rightarrow> a3)
         else a2)"

lemma on_subrange_complete_report: "on_subrange_complete n a = report_subrange (Inr n) a"
  by (simp add: on_subrange_complete_def report_subrange_def note_report_def decrement_left_def fulfil_def
      Let_def split: option.split)

lemma on_subrange_failed_report: "on_subrange_failed e a = report_subrange (Inl e) a"
  by (simp add: on_subrange_failed_def report_subrange_def note_report_def decrement_left_def fulfil_def
      Let_def split: option.split)

section \<open>Reports of several threads\<close>

text \<open>Where a sub-range is in its report.\<close>

datatype report_pc = Waiting | Noted | Fulfilling | Reported

record agg_state =
  agg :: RemoteMultiAggregateContext
  pcs :: "report_pc list"

text \<open>
  \<open>rs\<close> are the reports the sub-ranges will make; step \<open>i\<close> moves the report of sub-range \<open>i\<close> on by one
  atomic access.
\<close>

definition agg_step :: "report list \<Rightarrow> nat \<Rightarrow> agg_state \<Rightarrow> agg_state" where
  "agg_step rs i st =
     (case pcs st ! i of
        Waiting \<Rightarrow> st\<lparr>agg := note_report (rs ! i) (agg st), pcs := (pcs st)[i := Noted]\<rparr>
      | Noted \<Rightarrow>
          let (last, a) = decrement_left (agg st)
          in st\<lparr>agg := a, pcs := (pcs st)[i := if last then Fulfilling else Reported]\<rparr>
      | Fulfilling \<Rightarrow> st\<lparr>agg := fulfil (agg st), pcs := (pcs st)[i := Reported]\<rparr>
      | Reported \<Rightarrow> st)"

inductive agg_reachable :: "bool \<Rightarrow> report list \<Rightarrow> agg_state \<Rightarrow> bool" for rec rs where
  init: "RemoteMultiAggregateContext rec (of_nat (length rs)) = Inr a \<Longrightarrow>
     agg_reachable rec rs \<lparr>agg = a, pcs = replicate (length rs) Waiting\<rparr>"
| step: "agg_reachable rec rs st \<Longrightarrow> i < length rs \<Longrightarrow> agg_reachable rec rs (agg_step rs i st)"

text \<open>Some interleaving: the sub-ranges in the order of the list take one step each.\<close>

definition agg_run :: "report list \<Rightarrow> nat list \<Rightarrow> agg_state \<Rightarrow> agg_state" where
  "agg_run rs schedule st = fold (agg_step rs) schedule st"

lemma agg_run_reachable:
  "agg_reachable rec rs st \<Longrightarrow> set schedule \<subseteq> {..<length rs} \<Longrightarrow> agg_reachable rec rs (agg_run rs schedule st)"
  unfolding agg_run_def
  by (induction schedule arbitrary: st) (auto intro: agg_reachable.step)

section \<open>The promise is fulfilled once, by the last report\<close>

text \<open>The bytes of the successful reports that are noted, in any order.\<close>

definition bytes_of :: "report \<Rightarrow> size_t" where
  "bytes_of r = (case r of Inr n \<Rightarrow> n | Inl _ \<Rightarrow> 0)"

definition noted_bytes :: "report list \<Rightarrow> report_pc list \<Rightarrow> size_t" where
  "noted_bytes rs ps = (\<Sum>i \<in> {i. i < length rs \<and> ps ! i \<noteq> Waiting}. bytes_of (rs ! i))"

definition undecided :: "report_pc list \<Rightarrow> nat" where
  "undecided ps = length (filter (\<lambda>p. p = Waiting \<or> p = Noted) ps)"

definition agg_result :: "RemoteMultiAggregateContext \<Rightarrow> agg_effect list" where
  "agg_result a = agg_effects (fulfil (a\<lparr>agg_effects := []\<rparr>))"

text \<open>The exception kept is one that was noted, and there is one if any was.\<close>

definition seen_ok :: "report list \<Rightarrow> report_pc list \<Rightarrow> exn option \<Rightarrow> bool" where
  "seen_ok rs ps fe \<longleftrightarrow>
     (case fe of
        None \<Rightarrow> (\<forall>i < length rs. ps ! i \<noteq> Waiting \<longrightarrow> \<not> isl (rs ! i))
      | Some e \<Rightarrow> (\<exists>i < length rs. ps ! i \<noteq> Waiting \<and> rs ! i = Inl e))"

definition agg_inv :: "bool \<Rightarrow> report list \<Rightarrow> agg_state \<Rightarrow> bool" where
  "agg_inv rec rs st \<longleftrightarrow>
     length (pcs st) = length rs \<and>
     has_recorder (agg st) = rec \<and>
     unat (subranges_left (agg st)) = undecided (pcs st) \<and>
     total_bytes (agg st) = noted_bytes rs (pcs st) \<and>
     seen_ok rs (pcs st) (first_exception (agg st)) \<and>
     (if undecided (pcs st) > 0 then Fulfilling \<notin> set (pcs st) \<and> agg_effects (agg st) = []
      else if Fulfilling \<in> set (pcs st) then count_list (pcs st) Fulfilling = 1 \<and> agg_effects (agg st) = []
      else agg_effects (agg st) = agg_result (agg st))"

lemma undecided_update:
  assumes "i < length ps"
  shows "undecided (ps[i := p]) + (if ps ! i \<in> {Waiting, Noted} then 1 else 0)
       = undecided ps + (if p \<in> {Waiting, Noted} then 1 else 0)"
proof -
  have "undecided ps = undecided (take i ps @ ps ! i # drop (Suc i) ps)"
    using assms by (simp flip: id_take_nth_drop)
  moreover have "undecided (ps[i := p]) = undecided (take i ps @ p # drop (Suc i) ps)"
    using assms by (simp add: upd_conv_take_nth_drop)
  ultimately show ?thesis by (simp add: undecided_def)
qed

lemma undecided_pos: "i < length ps \<Longrightarrow> ps ! i = Waiting \<or> ps ! i = Noted \<Longrightarrow> 0 < undecided ps"
  unfolding undecided_def by (metis (mono_tags, lifting) filter_empty_conv length_greater_0_conv nth_mem)

lemma undecided_zero: "undecided ps = 0 \<Longrightarrow> i < length ps \<Longrightarrow> ps ! i = Fulfilling \<or> ps ! i = Reported"
  using undecided_pos [of i ps] by (cases "ps ! i") auto

lemma noted_bytes_note:
  assumes "i < length rs" "length ps = length rs" "ps ! i = Waiting"
  shows "noted_bytes rs (ps[i := Noted]) = noted_bytes rs ps + bytes_of (rs ! i)"
proof -
  let ?N = "{j. j < length rs \<and> ps ! j \<noteq> Waiting}"
  have eq: "{j. j < length rs \<and> ps[i := Noted] ! j \<noteq> Waiting} = insert i ?N"
    using assms by (auto simp: nth_list_update split: if_splits)
  have "noted_bytes rs (ps[i := Noted]) = sum (\<lambda>j. bytes_of (rs ! j)) (insert i ?N)"
    by (simp only: noted_bytes_def eq)
  also have "\<dots> = bytes_of (rs ! i) + sum (\<lambda>j. bytes_of (rs ! j)) ?N"
    using assms(3) by (intro sum.insert) auto
  finally show ?thesis by (simp add: noted_bytes_def)
qed

lemma noted_bytes_same:
  assumes "ps ! i \<noteq> Waiting" "p \<noteq> Waiting" "length ps = length rs" "i < length rs"
  shows "noted_bytes rs (ps[i := p]) = noted_bytes rs ps"
proof -
  have "{j. j < length rs \<and> ps[i := p] ! j \<noteq> Waiting} = {j. j < length rs \<and> ps ! j \<noteq> Waiting}"
    using assms by (auto simp: nth_list_update split: if_splits)
  then show ?thesis by (simp only: noted_bytes_def)
qed

lemma count_fulfilling_update:
  assumes "i < length ps" "ps ! i \<noteq> Fulfilling" "p \<noteq> Fulfilling"
  shows "Fulfilling \<in> set (ps[i := p]) \<longleftrightarrow> Fulfilling \<in> set ps"
  using assms by (metis in_set_conv_nth length_list_update nth_list_update_eq nth_list_update_neq)

lemma agg_inv_note:
  assumes inv: "agg_inv rec rs st" and i: "i < length rs" and w: "pcs st ! i = Waiting"
  shows "agg_inv rec rs (st\<lparr>agg := note_report (rs ! i) (agg st), pcs := (pcs st)[i := Noted]\<rparr>)"
proof -
  have len: "length (pcs st) = length rs" using inv by (simp add: agg_inv_def)
  have und: "undecided ((pcs st)[i := Noted]) = undecided (pcs st)"
    using undecided_update [of i "pcs st" Noted] i len w by simp
  have pos: "0 < undecided (pcs st)" using undecided_pos i len w by metis
  have no: "Fulfilling \<notin> set ((pcs st)[i := Noted])" "agg_effects (agg st) = []"
    using inv pos count_fulfilling_update [of i "pcs st" Noted] i len w by (auto simp: agg_inv_def)
  have bytes: "noted_bytes rs ((pcs st)[i := Noted]) = noted_bytes rs (pcs st) + bytes_of (rs ! i)"
    by (rule noted_bytes_note [OF i len w])
  have seen: "seen_ok rs ((pcs st)[i := Noted]) (first_exception (note_report (rs ! i) (agg st)))"
    using inv len i
    by (cases "rs ! i")
      (auto simp: agg_inv_def seen_ok_def note_report_def nth_list_update split: option.splits)
  have tot: "total_bytes (note_report (rs ! i) (agg st)) = total_bytes (agg st) + bytes_of (rs ! i)"
    and same: "has_recorder (note_report (rs ! i) (agg st)) = has_recorder (agg st)"
      "subranges_left (note_report (rs ! i) (agg st)) = subranges_left (agg st)"
      "agg_effects (note_report (rs ! i) (agg st)) = agg_effects (agg st)"
    by (simp_all add: note_report_def bytes_of_def split: sum.split option.split)
  from inv len und pos no bytes seen tot same show ?thesis by (simp add: agg_inv_def)
qed

text \<open>Past the note, moving on changes neither the bytes nor the exceptions seen.\<close>

lemma seen_unchanged:
  assumes "length ps = length rs" "i < length rs" "ps ! i \<noteq> Waiting" "p \<noteq> Waiting"
  shows "seen_ok rs (ps[i := p]) fe \<longleftrightarrow> seen_ok rs ps fe"
  using assms by (auto simp: seen_ok_def nth_list_update split: option.splits)

lemma agg_inv_decrement:
  assumes inv: "agg_inv rec rs st" and i: "i < length rs" and n: "pcs st ! i = Noted"
    and d: "decrement_left (agg st) = (lst, a)"
  shows "agg_inv rec rs (st\<lparr>agg := a, pcs := (pcs st)[i := if lst then Fulfilling else Reported]\<rparr>)"
proof -
  let ?p = "if lst then Fulfilling else Reported"
  let ?ps = "(pcs st)[i := ?p]"
  have len: "length (pcs st) = length rs" using inv by (simp add: agg_inv_def)
  have a: "a = (agg st)\<lparr>subranges_left := subranges_left (agg st) - 1\<rparr>" "lst = (subranges_left (agg st) = 1)"
    using d by (auto simp: decrement_left_def)
  have pos: "0 < undecided (pcs st)" using undecided_pos i len n by metis
  have und: "Suc (undecided ?ps) = undecided (pcs st)"
    using undecided_update [of i "pcs st" ?p] i len n by (simp split: if_splits)
  have left: "unat (subranges_left (agg st)) = undecided (pcs st)" using inv by (simp add: agg_inv_def)
  have "1 \<le> subranges_left (agg st)" using left pos by (simp add: word_le_nat_alt)
  then have left': "unat (subranges_left a) = undecided ?ps" using a left und by (simp add: unat_sub)
  have none: "Fulfilling \<notin> set (pcs st)" "agg_effects (agg st) = []"
    using inv pos by (auto simp: agg_inv_def)
  have last: "lst \<longleftrightarrow> undecided ?ps = 0"
  proof -
    have "lst \<longleftrightarrow> undecided (pcs st) = 1" unfolding a(2) using left by (simp add: word_unat_eq_iff)
    with und show ?thesis by (metis One_nat_def Suc_inject)
  qed
  have fin: "if undecided ?ps > 0 then Fulfilling \<notin> set ?ps \<and> agg_effects a = []
      else if Fulfilling \<in> set ?ps then count_list ?ps Fulfilling = 1 \<and> agg_effects a = []
      else agg_effects a = agg_result a"
  proof (cases lst)
    case True
    have "?ps = take i (pcs st) @ Fulfilling # drop (Suc i) (pcs st)"
      using True i len by (simp add: upd_conv_take_nth_drop)
    moreover have "count_list (take i (pcs st)) Fulfilling = 0" "count_list (drop (Suc i) (pcs st)) Fulfilling = 0"
      using none(1) by (auto simp: count_list_0_iff dest: in_set_takeD in_set_dropD)
    ultimately show ?thesis using True last a none by simp
  next
    case False
    then have "Fulfilling \<notin> set ?ps" using none(1) count_fulfilling_update [of i "pcs st" Reported] i len n by simp
    with False last none a show ?thesis by simp
  qed
  have seen: "seen_ok rs ?ps (first_exception a)"
    using inv seen_unchanged [OF len i, of ?p] n a(1) by (simp add: agg_inv_def)
  have rest: "has_recorder a = rec" "total_bytes a = noted_bytes rs ?ps" "length ?ps = length rs"
    using inv a(1) len noted_bytes_same [of "pcs st" i ?p rs] n i by (simp_all add: agg_inv_def)
  obtain ps where ps: "ps = ?ps" by simp
  from left' seen fin rest show ?thesis unfolding ps [symmetric] by (simp add: agg_inv_def)
qed

lemma agg_inv_fulfil:
  assumes inv: "agg_inv rec rs st" and i: "i < length rs" and f: "pcs st ! i = Fulfilling"
  shows "agg_inv rec rs (st\<lparr>agg := fulfil (agg st), pcs := (pcs st)[i := Reported]\<rparr>)"
proof -
  let ?ps = "(pcs st)[i := Reported]"
  have len: "length (pcs st) = length rs" using inv by (simp add: agg_inv_def)
  have in_set: "Fulfilling \<in> set (pcs st)" using f i len by (metis nth_mem)
  have zero: "undecided (pcs st) = 0" and one: "count_list (pcs st) Fulfilling = 1"
      and none: "agg_effects (agg st) = []"
    using inv in_set by (auto simp: agg_inv_def split: if_splits)
  have und: "undecided ?ps = 0" using undecided_update [of i "pcs st" Reported] i len f zero by simp
  have "pcs st = take i (pcs st) @ Fulfilling # drop (Suc i) (pcs st)"
    using i len f by (metis id_take_nth_drop)
  then have "count_list (take i (pcs st)) Fulfilling + Suc (count_list (drop (Suc i) (pcs st)) Fulfilling) = 1"
    using one by (metis count_list.simps(2) count_list_append add_Suc_right Suc_eq_plus1)
  then have "Fulfilling \<notin> set (take i (pcs st))" "Fulfilling \<notin> set (drop (Suc i) (pcs st))"
    by (simp_all add: count_list_0_iff)
  then have gone: "Fulfilling \<notin> set ?ps" using i len by (simp add: upd_conv_take_nth_drop)
  have eff: "agg_effects (fulfil (agg st)) = agg_result (fulfil (agg st))"
    using none by (simp add: agg_result_def fulfil_def Let_def split: option.split)
  show ?thesis unfolding agg_inv_def
    using inv len und zero gone eff noted_bytes_same [of "pcs st" i Reported rs] f i
      seen_unchanged [OF len i, of Reported]
    by (simp add: agg_inv_def fulfil_def Let_def)
qed

lemma agg_inv_step: "agg_inv rec rs st \<Longrightarrow> i < length rs \<Longrightarrow> agg_inv rec rs (agg_step rs i st)"
proof (cases "pcs st ! i")
  case Noted
  assume inv: "agg_inv rec rs st" "i < length rs"
  obtain lst a where d: "decrement_left (agg st) = (lst, a)" by (cases "decrement_left (agg st)")
  from agg_inv_decrement [OF inv Noted d] Noted d show ?thesis by (simp add: agg_step_def)
qed (simp_all add: agg_step_def agg_inv_note agg_inv_fulfil)

lemma agg_inv_init:
  assumes "RemoteMultiAggregateContext rec (of_nat (length rs)) = Inr a" "length rs < 2 ^ 64"
  shows "agg_inv rec rs \<lparr>agg = a, pcs = replicate (length rs) Waiting\<rparr>"
proof -
  have pos: "0 < length rs"
    using assms(1) by (cases rs) (simp_all add: RemoteMultiAggregateContext_def)
  have "a = \<lparr>subranges_left = of_nat (length rs), total_bytes = 0, first_exception = None,
      has_recorder = rec, agg_effects = []\<rparr>"
    using assms(1) by (simp add: RemoteMultiAggregateContext_def kvikio_expect_def split: if_splits)
  moreover have "{i. i < length rs \<and> replicate (length rs) Waiting ! i \<noteq> Waiting} = {}" by auto
  then have "noted_bytes rs (replicate (length rs) Waiting) = 0" by (simp only: noted_bytes_def sum.empty)
  ultimately show ?thesis
    using pos assms(2) by (auto simp: agg_inv_def seen_ok_def undecided_def unat_of_nat_size_t)
qed

lemma agg_inv_reachable: "agg_reachable rec rs st \<Longrightarrow> length rs < 2 ^ 64 \<Longrightarrow> agg_inv rec rs st"
  by (induction rule: agg_reachable.induct) (auto intro: agg_inv_init agg_inv_step)


text \<open>Three sub-ranges, the second of which fails; their reports overlap.\<close>

definition overlap_reports :: "report list" where
  "overlap_reports = [Inr 10, Inl Runtime_Error, Inr 5]"

definition overlap_start :: agg_state where
  "overlap_start =
     \<lparr>agg = \<lparr>subranges_left = 3, total_bytes = 0, first_exception = None, has_recorder = True, agg_effects = []\<rparr>,
      pcs = [Waiting, Waiting, Waiting]\<rparr>"

definition overlap_schedule :: "nat list" where
  "overlap_schedule = [0, 1, 2, 2, 0, 1, 1]"


end
