(* ===== verification/Reactor.thy ===== *)
theory Reactor
  imports Http_Retry Limiter Remote_Callback Aggregate
begin

text \<open>
  The multi-poll backend: \<open>MultiPollReactor\<close> and \<open>MultiReactorPool\<close> of
  \<open>cpp/src/detail/multi_poll_reactor.cpp\<close>. A transfer is a record; the unique pointers of the code
  are ownership, so a transfer is in one place: the pool-wide queue, a reactor's deferred list, the
  map of attached handles, a local variable, or gone, after it reported to its aggregate. The
  libcurl multi interface, the bounce buffer cache and the CUDA driver are a record of functions on
  a world of type \<open>'w\<close>. Wake-ups and log messages have no effect on the state and are left out;
  times are nanoseconds of the steady clock.
\<close>

section \<open>Data\<close>

record RemoteMultiTransfer =
  tr_easy :: ptr
  tr_attached :: bool
  tr_ctx :: CallbackContext
  tr_aggregate :: nat
  tr_slot :: bool
  is_device :: bool
  device_ctx :: ptr
  device_dst :: ptr
  tr_buffer :: "ptr option"
  attempt :: size_t
  tr_file_offset :: size_t
  physical_recorder :: bool
  ready_at :: int
  tr_policy :: HttpRetryPolicy

record 'w multi_api =
  steady_now :: "'w \<Rightarrow> int"
  multi_add_handle :: "ptr \<Rightarrow> 'w \<Rightarrow> bool \<times> 'w"
  multi_remove_handle :: "ptr \<Rightarrow> 'w \<Rightarrow> 'w"
  multi_perform :: "'w \<Rightarrow> bool \<times> 'w"
  multi_poll :: "int \<Rightarrow> 'w \<Rightarrow> bool \<times> 'w"
  easy_api :: "ptr \<Rightarrow> 'w curl_api"
  buffer_try_get :: "ptr \<Rightarrow> 'w \<Rightarrow> ptr option res \<times> 'w"
  buffer_recycle_now :: "ptr \<Rightarrow> ptr \<Rightarrow> 'w \<Rightarrow> unit res \<times> 'w"
  memcpy_htod_async :: "ptr \<Rightarrow> ptr \<Rightarrow> size_t \<Rightarrow> 'w \<Rightarrow> unit res \<times> 'w"
  record_event :: "nat \<Rightarrow> 'w \<Rightarrow> unit res \<times> 'w"
  buffer_recycle_after :: "ptr \<Rightarrow> ptr \<Rightarrow> 'w \<Rightarrow> unit res \<times> 'w"

record PassOutcome =
  earliest_ready_at :: "int option"
  deferred_for_resource :: bool

record AdmitPass =
  pass_outcome :: PassOutcome
  started_at :: int
  exhausted_ctxs :: "ptr list"

record MultiPollReactor =
  request_limiter :: Limiter
  pending :: "RemoteMultiTransfer list"
  in_flight :: "RemoteMultiTransfer list"

text \<open>
  The pool: the queue with its size hint, the death flag and reason, the aggregates of the reads in
  progress, and the reports made to them in order, by the easy handle of the sub-range.
\<close>

record MultiReactorPool =
  reactor_count :: size_t
  queue :: "RemoteMultiTransfer list"
  queue_size_hint :: size_t
  dead :: bool
  death_reason :: "exn option"
  aggregates :: "nat \<Rightarrow> RemoteMultiAggregateContext"
  reported :: "(ptr \<times> report) list"

record 'w reactor_world =
  pool :: MultiReactorPool
  ext :: 'w
  rw_counters :: Counters

section \<open>Reports and destruction\<close>

definition complete_transfer :: "RemoteMultiTransfer \<Rightarrow> size_t \<Rightarrow> MultiReactorPool \<Rightarrow> MultiReactorPool" where
  "complete_transfer tr bytes p =
     p\<lparr>aggregates := (aggregates p)(tr_aggregate tr := on_subrange_complete bytes (aggregates p (tr_aggregate tr))),
       reported := reported p @ [(tr_easy tr, Inr bytes)]\<rparr>"

definition fail_transfer :: "RemoteMultiTransfer \<Rightarrow> exn \<Rightarrow> MultiReactorPool \<Rightarrow> MultiReactorPool" where
  "fail_transfer tr e p =
     p\<lparr>aggregates := (aggregates p)(tr_aggregate tr := on_subrange_failed e (aggregates p (tr_aggregate tr))),
       reported := reported p @ [(tr_easy tr, Inl e)]\<rparr>"

definition drop_slot :: "bool \<Rightarrow> MultiPollReactor \<Rightarrow> MultiPollReactor" where
  "drop_slot held r = (if held then r\<lparr>request_limiter := fst (limiter_release (request_limiter r))\<rparr> else r)"

definition attachment_reset :: "'w multi_api \<Rightarrow> RemoteMultiTransfer \<Rightarrow> 'w \<Rightarrow> 'w" where
  "attachment_reset api tr w = (if tr_attached tr then multi_remove_handle api (tr_easy tr) w else w)"

text \<open>
  The destructor of a transfer: its own body gives a device buffer back, ignoring errors, and the
  members then return the slot and detach the handle.
\<close>

definition destroy_transfer ::
  "'w multi_api \<Rightarrow> RemoteMultiTransfer \<Rightarrow> MultiPollReactor \<Rightarrow> 'w \<Rightarrow> MultiPollReactor \<times> 'w"
where
  "destroy_transfer api tr r w =
     (let w1 = (case tr_buffer tr of
                  Some b \<Rightarrow> if is_device tr then snd (buffer_recycle_now api (device_ctx tr) b w) else w
                | None \<Rightarrow> w)
      in (drop_slot (tr_slot tr) r, attachment_reset api tr w1))"

definition record_ready_at :: "int \<Rightarrow> PassOutcome \<Rightarrow> PassOutcome" where
  "record_ready_at t out =
     out\<lparr>earliest_ready_at := Some (case earliest_ready_at out of Some e \<Rightarrow> min e t | None \<Rightarrow> t)\<rparr>"

section \<open>The pool-wide queue\<close>

definition queued_count_hint :: "MultiReactorPool \<Rightarrow> size_t" where
  "queued_count_hint p = queue_size_hint p"

definition queue_share_per_reactor :: "MultiReactorPool \<Rightarrow> size_t" where
  "queue_share_per_reactor p =
     (let queued = queue_size_hint p
      in if queued = 0 then 0 else max ((queued + reactor_count p - 1) div reactor_count p) 1)"

definition try_pop_queued :: "MultiReactorPool \<Rightarrow> RemoteMultiTransfer option \<times> MultiReactorPool" where
  "try_pop_queued p =
     (case queue p of
        [] \<Rightarrow> (None, p)
      | t # ts \<Rightarrow> (Some t, p\<lparr>queue := ts, queue_size_hint := of_nat (length ts)\<rparr>))"

definition the_reason :: "MultiReactorPool \<Rightarrow> exn" where
  "the_reason p = (case death_reason p of Some e \<Rightarrow> e | None \<Rightarrow> Runtime_Error)"

definition return_to_queue :: "RemoteMultiTransfer \<Rightarrow> MultiReactorPool \<Rightarrow> MultiReactorPool" where
  "return_to_queue tr p =
     (if dead p then fail_transfer tr (the_reason p) p
      else p\<lparr>queue := tr # queue p, queue_size_hint := of_nat (length (tr # queue p))\<rparr>)"

definition submit_pread :: "RemoteMultiTransfer list \<Rightarrow> MultiReactorPool \<Rightarrow> MultiReactorPool" where
  "submit_pread transfers p =
     (if dead p then fold (\<lambda>tr. fail_transfer tr (the_reason p)) transfers p
      else p\<lparr>queue := queue p @ transfers, queue_size_hint := of_nat (length (queue p @ transfers))\<rparr>)"

text \<open>
  \<open>signal_death\<close>: the first critical section (false if the pool was dead already), and the drain of
  the queue, which empties it under the lock and then fails what it held.
\<close>

definition declare_dead :: "exn \<Rightarrow> MultiReactorPool \<Rightarrow> bool \<times> MultiReactorPool" where
  "declare_dead e p = (if dead p then (False, p) else (True, p\<lparr>death_reason := Some e, dead := True\<rparr>))"

definition drain_queue :: "exn \<Rightarrow> MultiReactorPool \<Rightarrow> MultiReactorPool" where
  "drain_queue e p = fold (\<lambda>tr. fail_transfer tr e) (queue p) (p\<lparr>queue := [], queue_size_hint := 0\<rparr>)"

definition signal_death :: "exn \<Rightarrow> MultiReactorPool \<Rightarrow> MultiReactorPool" where
  "signal_death e p = (case declare_dead e p of (False, p1) \<Rightarrow> p1 | (True, p1) \<Rightarrow> drain_queue e p1)"

section \<open>Admission\<close>

text \<open>\<open>_in_flight.emplace(easy, transfer)\<close> does nothing if the key is there.\<close>

definition emplace_in_flight :: "RemoteMultiTransfer \<Rightarrow> MultiPollReactor \<Rightarrow> MultiPollReactor" where
  "emplace_in_flight tr r =
     (if tr_easy tr \<in> set (map tr_easy (in_flight r)) then r else r\<lparr>in_flight := in_flight r @ [tr]\<rparr>)"

definition defer_for_resource :: "AdmitPass \<Rightarrow> AdmitPass" where
  "defer_for_resource pass = pass\<lparr>pass_outcome := (pass_outcome pass)\<lparr>deferred_for_resource := True\<rparr>\<rparr>"

text \<open>The last part of \<open>try_admit\<close>, once the gates are passed; the local slot is engaged.\<close>

definition attach_transfer ::
  "'w multi_api \<Rightarrow> RemoteMultiTransfer \<Rightarrow> AdmitPass \<Rightarrow> MultiPollReactor \<Rightarrow> 'w
     \<Rightarrow> bool res \<times> RemoteMultiTransfer \<times> AdmitPass \<times> MultiPollReactor \<times> 'w"
where
  "attach_transfer api tr pass r w =
     (let (ok, w1) = multi_add_handle api (tr_easy tr) w
      in if \<not> ok then (Inl Runtime_Error, tr, pass, drop_slot True r, w1)
         else let tr1 = tr\<lparr>tr_attached := True, tr_slot := True, physical_recorder := True\<rparr>
              in (Inr True, tr1, pass, emplace_in_flight tr1 r, w1))"

definition try_admit ::
  "'w multi_api \<Rightarrow> RemoteMultiTransfer \<Rightarrow> AdmitPass \<Rightarrow> MultiPollReactor \<Rightarrow> 'w
     \<Rightarrow> bool res \<times> RemoteMultiTransfer \<times> AdmitPass \<times> MultiPollReactor \<times> 'w"
where
  "try_admit api transfer pass r w =
     (let slot = tr_slot transfer; tr = transfer\<lparr>tr_slot := False\<rparr>
      in if ready_at tr > started_at pass then
           (Inr False, tr, pass\<lparr>pass_outcome := record_ready_at (ready_at tr) (pass_outcome pass)\<rparr>,
            drop_slot slot r, w)
         else if is_device tr \<and> device_ctx tr \<in> set (exhausted_ctxs pass) then
           (Inr False, tr, defer_for_resource pass, drop_slot slot r, w)
         else
           let (slot1, r1) = (if slot then (True, r)
                              else let (got, l) = try_acquire (request_limiter r)
                                   in (got, r\<lparr>request_limiter := l\<rparr>))
           in if \<not> slot1 then (Inr False, tr, defer_for_resource pass, r1, w)
              else if is_device tr then
                (case buffer_try_get api (device_ctx tr) w of
                   (Inl e, w1) \<Rightarrow> (Inl e, tr, pass, drop_slot True r1, w1)
                 | (Inr None, w1) \<Rightarrow>
                     (Inr False, tr,
                      (defer_for_resource pass)\<lparr>exhausted_ctxs := exhausted_ctxs pass @ [device_ctx tr]\<rparr>,
                      drop_slot True r1, w1)
                 | (Inr (Some b), w1) \<Rightarrow>
                     attach_transfer api (tr\<lparr>tr_buffer := Some b, tr_ctx := (tr_ctx tr)\<lparr>pinned_buffer := b\<rparr>\<rparr>)
                       pass r1 w1)
              else attach_transfer api tr pass r1 w)"

text \<open>
  The loop over the deferred transfers: \<open>kept\<close> are the refused ones seen so far, in order. When
  \<open>try_admit\<close> throws, the transfer and those after it stay where they are.
\<close>

fun admit_deferred ::
  "'w multi_api \<Rightarrow> RemoteMultiTransfer list \<Rightarrow> RemoteMultiTransfer list \<Rightarrow> AdmitPass \<Rightarrow> MultiPollReactor \<Rightarrow> 'w
     \<Rightarrow> unit res \<times> AdmitPass \<times> MultiPollReactor \<times> 'w"
where
  "admit_deferred api kept [] pass r w = (Inr (), pass, r\<lparr>pending := kept\<rparr>, w)"
| "admit_deferred api kept (tr # trs) pass r w =
     (case try_admit api tr pass r w of
        (Inl e, tr1, pass1, r1, w1) \<Rightarrow> (Inl e, pass1, r1\<lparr>pending := kept @ tr1 # trs\<rparr>, w1)
      | (Inr True, _, pass1, r1, w1) \<Rightarrow> admit_deferred api kept trs pass1 r1 w1
      | (Inr False, tr1, pass1, r1, w1) \<Rightarrow> admit_deferred api (kept @ [tr1]) trs pass1 r1 w1)"

text \<open>One round of \<open>admit_from_pool\<close>; the flag tells whether the loop goes on.\<close>

definition admit_one_from_pool ::
  "'w multi_api \<Rightarrow> AdmitPass \<Rightarrow> MultiPollReactor \<Rightarrow> 'w reactor_world
     \<Rightarrow> bool res \<times> AdmitPass \<times> MultiPollReactor \<times> 'w reactor_world"
where
  "admit_one_from_pool api pass r s =
     (let (got, l) = try_acquire (request_limiter r); r1 = r\<lparr>request_limiter := l\<rparr>
      in if \<not> got then (Inr False, defer_for_resource pass, r1, s)
         else case try_pop_queued (pool s) of
                (None, p) \<Rightarrow> (Inr False, pass, drop_slot True r1, s\<lparr>pool := p\<rparr>)
              | (Some tr, p) \<Rightarrow>
                  (case try_admit api (tr\<lparr>tr_slot := True\<rparr>) pass r1 (ext s) of
                     (Inl e, tr1, pass1, r2, w1) \<Rightarrow>
                       (Inl e, pass1, r2\<lparr>pending := pending r2 @ [tr1]\<rparr>, s\<lparr>pool := p, ext := w1\<rparr>)
                   | (Inr True, _, pass1, r2, w1) \<Rightarrow> (Inr True, pass1, r2, s\<lparr>pool := p, ext := w1\<rparr>)
                   | (Inr False, tr1, pass1, r2, w1) \<Rightarrow>
                       (Inr False, pass1, r2, s\<lparr>pool := return_to_queue tr1 p, ext := w1\<rparr>)))"

fun admit_from_pool ::
  "'w multi_api \<Rightarrow> nat \<Rightarrow> AdmitPass \<Rightarrow> MultiPollReactor \<Rightarrow> 'w reactor_world
     \<Rightarrow> unit res \<times> AdmitPass \<times> MultiPollReactor \<times> 'w reactor_world"
where
  "admit_from_pool api 0 pass r s = (Inr (), pass, r, s)"
| "admit_from_pool api (Suc share) pass r s =
     (case admit_one_from_pool api pass r s of
        (Inl e, pass1, r1, s1) \<Rightarrow> (Inl e, pass1, r1, s1)
      | (Inr False, pass1, r1, s1) \<Rightarrow> (Inr (), pass1, r1, s1)
      | (Inr True, pass1, r1, s1) \<Rightarrow> admit_from_pool api share pass1 r1 s1)"

definition admit_pending ::
  "'w multi_api \<Rightarrow> MultiPollReactor \<Rightarrow> 'w reactor_world
     \<Rightarrow> PassOutcome res \<times> MultiPollReactor \<times> 'w reactor_world"
where
  "admit_pending api r s =
     (let pass = \<lparr>pass_outcome = \<lparr>earliest_ready_at = None, deferred_for_resource = False\<rparr>,
                  started_at = steady_now api (ext s), exhausted_ctxs = []\<rparr>
      in case admit_deferred api [] (pending r) pass r (ext s) of
           (Inl e, _, r1, w1) \<Rightarrow> (Inl e, r1, s\<lparr>ext := w1\<rparr>)
         | (Inr _, pass1, r1, w1) \<Rightarrow>
             (case admit_from_pool api (unat (queue_share_per_reactor (pool s))) pass1 r1 (s\<lparr>ext := w1\<rparr>) of
                (Inl e, _, r2, s2) \<Rightarrow> (Inl e, r2, s2)
              | (Inr _, pass2, r2, s2) \<Rightarrow> (Inr (pass_outcome pass2), r2, s2)))"

section \<open>Completion\<close>

text \<open>Phase B of a device transfer; the buffer leaves the transfer with \<open>recycle_after\<close>.\<close>

definition stage_device_copy ::
  "'w multi_api \<Rightarrow> RemoteMultiTransfer \<Rightarrow> 'w \<Rightarrow> unit res \<times> RemoteMultiTransfer \<times> 'w"
where
  "stage_device_copy api tr w =
     (let b = (case tr_buffer tr of Some b \<Rightarrow> b | None \<Rightarrow> 0)
      in case memcpy_htod_async api (device_dst tr) b (ctx_size (tr_ctx tr)) w of
           (Inl e, w1) \<Rightarrow> (Inl e, tr, w1)
         | (Inr _, w1) \<Rightarrow>
             (case record_event api (tr_aggregate tr) w1 of
                (Inl e, w2) \<Rightarrow> (Inl e, tr, w2)
              | (Inr _, w2) \<Rightarrow>
                  (let (res, w3) = buffer_recycle_after api (device_ctx tr) b w2
                   in (res, tr\<lparr>tr_buffer := None\<rparr>, w3))))"

text \<open>
  \<open>requeue_for_retry\<close>: whatever throws here fails the sub-range, and the transfer is destroyed at
  the end of the scope.
\<close>

definition requeue_for_retry ::
  "'w multi_api \<Rightarrow> RemoteMultiTransfer \<Rightarrow> int \<Rightarrow> MultiPollReactor \<Rightarrow> 'w reactor_world
     \<Rightarrow> MultiPollReactor \<times> 'w reactor_world"
where
  "requeue_for_retry api tr ready r s =
     (let w1 = attachment_reset api tr (ext s);
          r1 = drop_slot (tr_slot tr) r;
          tr1 = tr\<lparr>tr_attached := False, tr_slot := False\<rparr>;
          (res, tr2, w2) =
            (case tr_buffer tr1 of
               Some b \<Rightarrow>
                 if is_device tr1 then
                   (case buffer_recycle_now api (device_ctx tr1) b w1 of
                      (Inl e, w') \<Rightarrow> (Inl e, tr1\<lparr>tr_buffer := None\<rparr>, w')
                    | (Inr _, w') \<Rightarrow>
                        (Inr (), tr1\<lparr>tr_buffer := None, tr_ctx := (tr_ctx tr1)\<lparr>pinned_buffer := 0\<rparr>\<rparr>, w'))
                 else (Inr (), tr1, w1)
             | None \<Rightarrow> (Inr (), tr1, w1))
      in case res of
           Inl e \<Rightarrow>
             let (r2, w3) = destroy_transfer api tr2 r1 w2
             in (r2, s\<lparr>ext := w3, pool := fail_transfer tr2 e (pool s)\<rparr>)
         | Inr _ \<Rightarrow>
             let tr3 = tr2\<lparr>tr_ctx := reset_for_retry (tr_ctx tr2), ready_at := ready\<rparr>;
                 w3 = clear_errbuf (easy_api api (tr_easy tr2)) w2
             in (r1\<lparr>pending := pending r1 @ [tr3]\<rparr>, s\<lparr>ext := w3\<rparr>))"

text \<open>The end of \<open>settle_transfer\<close>: the attempt is over, the sub-range failed, the transfer is destroyed.\<close>

definition settle_failed ::
  "'w multi_api \<Rightarrow> RemoteMultiTransfer \<Rightarrow> exn \<Rightarrow> MultiPollReactor \<Rightarrow> 'w reactor_world
     \<Rightarrow> MultiPollReactor \<times> 'w reactor_world"
where
  "settle_failed api tr e r s =
     (let tr1 = tr\<lparr>physical_recorder := False\<rparr>;
          (r1, w1) = destroy_transfer api tr1 r (ext s)
      in (r1, s\<lparr>ext := w1, pool := fail_transfer tr1 e (pool s)\<rparr>))"

definition settle_transfer ::
  "'w multi_api \<Rightarrow> RemoteMultiTransfer \<Rightarrow> CURLcode \<Rightarrow> PassOutcome \<Rightarrow> MultiPollReactor \<Rightarrow> 'w reactor_world
     \<Rightarrow> PassOutcome \<times> MultiPollReactor \<times> 'w reactor_world"
where
  "settle_transfer api tr result out r s =
     (if result = CURLE_OK \<and> \<not> overflow_error (tr_ctx tr) then
        let (res, tr1, w1) = (if is_device tr then stage_device_copy api tr (ext s) else (Inr (), tr, ext s))
        in (case res of
              Inl e \<Rightarrow> let (r1, s1) = settle_failed api tr1 e r (s\<lparr>ext := w1\<rparr>) in (out, r1, s1)
            | Inr _ \<Rightarrow>
                let tr2 = tr1\<lparr>physical_recorder := False\<rparr>;
                    (r1, w2) = destroy_transfer api tr2 r w1
                in (out, r1, s\<lparr>ext := w2, pool := complete_transfer tr2 (ctx_size (tr_ctx tr2)) (pool s)\<rparr>))
      else if overflow_error (tr_ctx tr) then
        let (r1, s1) = settle_failed api tr Overflow_Error r s in (out, r1, s1)
      else
        let easy = easy_api api (tr_easy tr); (gi, http_code) = response_code easy (ext s)
        in if gi \<noteq> CURLE_OK then let (r1, s1) = settle_failed api tr Runtime_Error r s in (out, r1, s1)
           else
             let tr1 = tr\<lparr>attempt := attempt tr + 1\<rparr>
             in case evaluate (strerror easy) (tr_policy tr1) result http_code (attempt tr1)
                       (errbuf easy (ext s)) ''curl_multi transfer failed'' of
                  Inl e \<Rightarrow> let (r1, s1) = settle_failed api tr1 e r s in (out, r1, s1)
                | Inr verdict \<Rightarrow>
                    if decision verdict = RETRY then
                      let ready = steady_now api (ext s) + 1000000 * delay_ms verdict;
                          s1 = s\<lparr>rw_counters := count_http_retry (1000000 * delay_ms verdict) (rw_counters s)\<rparr>;
                          (r1, s2) = requeue_for_retry api (tr1\<lparr>physical_recorder := False\<rparr>) ready r s1
                      in (record_ready_at ready out, r1, s2)
                    else let (r1, s1) = settle_failed api tr1 Runtime_Error r s in (out, r1, s1))"

text \<open>The messages \<open>curl_multi_info_read\<close> returns until it returns null.\<close>

datatype CURLMsg = CURLMSG_DONE ptr CURLcode | CURLMSG_OTHER

definition take_in_flight :: "ptr \<Rightarrow> MultiPollReactor \<Rightarrow> (RemoteMultiTransfer \<times> MultiPollReactor) option" where
  "take_in_flight easy r =
     map_option (\<lambda>tr. (tr, r\<lparr>in_flight := filter (\<lambda>t. tr_easy t \<noteq> easy) (in_flight r)\<rparr>))
       (find (\<lambda>t. tr_easy t = easy) (in_flight r))"

fun reap_completions ::
  "'w multi_api \<Rightarrow> CURLMsg list \<Rightarrow> nat \<Rightarrow> PassOutcome \<Rightarrow> MultiPollReactor \<Rightarrow> 'w reactor_world
     \<Rightarrow> nat res \<times> PassOutcome \<times> MultiPollReactor \<times> 'w reactor_world"
where
  "reap_completions api [] completed out r s = (Inr completed, out, r, s)"
| "reap_completions api (CURLMSG_OTHER # ms) completed out r s = reap_completions api ms completed out r s"
| "reap_completions api (CURLMSG_DONE easy result # ms) completed out r s =
     (case take_in_flight easy r of
        None \<Rightarrow> (Inl Runtime_Error, out, r, s)
      | Some (tr, r1) \<Rightarrow>
          let s1 = s\<lparr>rw_counters := count_http_connection_of (easy_api api easy) (ext s) (rw_counters s)\<rparr>;
              (out1, r2, s2) = settle_transfer api tr result out r1 s1
          in reap_completions api ms (Suc completed) out1 r2 s2)"

text \<open>Failing one transfer of the reactor, which is then destroyed.\<close>

definition fail_one ::
  "'w multi_api \<Rightarrow> exn \<Rightarrow> RemoteMultiTransfer \<Rightarrow> MultiPollReactor \<times> 'w reactor_world
     \<Rightarrow> MultiPollReactor \<times> 'w reactor_world"
where
  "fail_one api e tr rs =
     (case rs of (r, s) \<Rightarrow>
        let (r1, w1) = destroy_transfer api tr r (ext s)
        in (r1, s\<lparr>ext := w1, pool := fail_transfer tr e (pool s)\<rparr>))"

definition fail_all_pending ::
  "'w multi_api \<Rightarrow> exn \<Rightarrow> MultiPollReactor \<Rightarrow> 'w reactor_world \<Rightarrow> MultiPollReactor \<times> 'w reactor_world"
where
  "fail_all_pending api e r s =
     (let (r1, s1) = fold (fail_one api e) (pending r) (r\<lparr>pending := []\<rparr>, s)
      in fold (fail_one api e) (in_flight r1) (r1\<lparr>in_flight := []\<rparr>, s1))"

section \<open>Timing and sizing\<close>

definition poll_timeout_ms :: "int \<Rightarrow> MultiPollReactor \<Rightarrow> MultiReactorPool \<Rightarrow> PassOutcome \<Rightarrow> nat \<Rightarrow> int" where
  "poll_timeout_ms now r p out completed =
     (let pool_work_waiting = queued_count_hint p > 0
      in if pending r = [] \<and> \<not> pool_work_waiting then 1000
         else if completed > 0 then 0
         else if pending r = [] \<and> deferred_for_resource out then 1000
         else let timeout = (if deferred_for_resource out \<or> pool_work_waiting then 10 else 1000)
              in case earliest_ready_at out of
                   None \<Rightarrow> timeout
                 | Some t \<Rightarrow>
                     let wait_ms = - ((now - t) div 1000000)
                     in max 0 (min wait_ms timeout))"

definition connection_cache_size :: "size_t option \<Rightarrow> size_t option" where
  "connection_cache_size budget =
     (case budget of
        None \<Rightarrow> None
      | Some n \<Rightarrow>
          let max_settable = min 4294967295 9223372036854775807;
              adjusted = max n 1;
              tmp = min adjusted (max_settable div 4)
          in Some (tmp * 4))"

text \<open>The slices the constructor of the pool hands to its reactors.\<close>

definition reactor_slices :: "size_t \<Rightarrow> size_t \<Rightarrow> size_t option list res" where
  "reactor_slices n max_total =
     bind_res (kvikio_expect (n > 0) Invalid_Argument)
       (\<lambda>_. let base = max_total div n; remainder = max_total mod n
            in Inr (map (\<lambda>i. if max_total = 0 then None
                             else Some (max (base + (if of_nat i < remainder then 1 else 0)) 1))
                        [0..<unat n]))"

text \<open>
  One round of \<open>io_thread_main\<close> and its end. \<open>msgs\<close> is what \<open>curl_multi_info_read\<close> will return after
  \<open>curl_multi_perform\<close>.
\<close>

definition reactor_pass ::
  "'w multi_api \<Rightarrow> ('w \<Rightarrow> CURLMsg list) \<Rightarrow> MultiPollReactor \<Rightarrow> 'w reactor_world
     \<Rightarrow> unit res \<times> MultiPollReactor \<times> 'w reactor_world"
where
  "reactor_pass api msgs r s =
     (case admit_pending api r s of
        (Inl e, r1, s1) \<Rightarrow> (Inl e, r1, s1)
      | (Inr out, r1, s1) \<Rightarrow>
          (case multi_perform api (ext s1) of
             (False, w1) \<Rightarrow> (Inl Runtime_Error, r1, s1\<lparr>ext := w1\<rparr>)
           | (True, w1) \<Rightarrow>
               (case reap_completions api (msgs w1) 0 out r1 (s1\<lparr>ext := w1\<rparr>) of
                  (Inl e, _, r2, s2) \<Rightarrow> (Inl e, r2, s2)
                | (Inr completed, out2, r2, s2) \<Rightarrow>
                    (case multi_poll api (poll_timeout_ms (steady_now api (ext s2)) r2 (pool s2) out2 completed) (ext s2) of
                       (False, w3) \<Rightarrow> (Inl Runtime_Error, r2, s2\<lparr>ext := w3\<rparr>)
                     | (True, w3) \<Rightarrow> (Inr (), r2, s2\<lparr>ext := w3\<rparr>)))))"

definition reactor_stop ::
  "'w multi_api \<Rightarrow> exn option \<Rightarrow> MultiPollReactor \<Rightarrow> 'w reactor_world \<Rightarrow> MultiPollReactor \<times> 'w reactor_world"
where
  "reactor_stop api caught r s =
     (let s1 = (case caught of Some e \<Rightarrow> s\<lparr>pool := signal_death e (pool s)\<rparr> | None \<Rightarrow> s)
      in fail_all_pending api (the_reason (pool s1)) r s1)"

end
