(* ===== verification/Reactor_Safety.thy ===== *)
theory Reactor_Safety
  imports Reactor
begin

text \<open>
  What the multi-poll backend guarantees. Sub-ranges are followed by their easy handles: at every
  moment a submitted sub-range is in exactly one place, and it reports to its aggregate once. The
  requests attached to a reactor's multi handle are exactly those holding a limiter slot, so the
  budget of the reactor is a hard cap. The step relation interleaves the reactors and the submitting
  threads at the critical sections of the pool; its theorems cover the death of the pool, after which
  every sub-range has reported.
\<close>

section \<open>Slots and attached requests\<close>

definition easy_ids :: "RemoteMultiTransfer list \<Rightarrow> ptr list" where
  "easy_ids ts = map tr_easy ts"

lemma easy_ids_simps [simp]:
  "easy_ids [] = []"
  "easy_ids (t # ts) = tr_easy t # easy_ids ts"
  "easy_ids (ts @ us) = easy_ids ts @ easy_ids us"
  "length (easy_ids ts) = length ts"
  by (simp_all add: easy_ids_def)

text \<open>\<open>c\<close> is the reactor's share of the budget, \<open>k\<close> the number of slots held by transfers that are in a
  local variable.\<close>

definition flight_inv :: "nat option \<Rightarrow> nat \<Rightarrow> MultiPollReactor \<Rightarrow> bool" where
  "flight_inv c k r \<longleftrightarrow>
     slot_ceiling (request_limiter r) = c \<and>
     slots_in_use (request_limiter r) = length (in_flight r) + k \<and>
     reactor_limiter.within_ceiling (request_limiter r) \<and>
     list_all tr_slot (in_flight r) \<and>
     distinct (easy_ids (in_flight r)) \<and> 0 \<notin> set (easy_ids (in_flight r))"

lemma distinct_nonnull_length:
  assumes "distinct (ps :: ptr list)" "0 \<notin> set ps"
  shows "length ps < 2 ^ 64"
proof -
  have "length ps = card (set ps)" using assms(1) by (simp add: distinct_card)
  also have "\<dots> < card (UNIV :: ptr set)"
    using assms(2) by (intro psubset_card_mono) auto
  finally show ?thesis by (simp add: card_word)
qed

lemma flight_room:
  assumes "flight_inv c 0 r" "p \<notin> set (easy_ids (in_flight r))" "p \<noteq> 0"
  shows "slots_in_use (request_limiter r) < 2 ^ 64 - 1"
proof -
  have "distinct (p # easy_ids (in_flight r))" "0 \<notin> set (p # easy_ids (in_flight r))"
    using assms by (auto simp: flight_inv_def)
  from distinct_nonnull_length [OF this] assms(1) show ?thesis by (simp add: flight_inv_def)
qed

lemma flight_inv_drop: "flight_inv c (if b then 1 else 0) r \<Longrightarrow> flight_inv c 0 (drop_slot b r)"
  using reactor_limiter.released [of "request_limiter r"] reactor_limiter.release_within [of "request_limiter r"]
  by (cases b) (simp_all add: flight_inv_def drop_slot_def)

lemma flight_inv_drop1: "flight_inv c 1 r \<Longrightarrow> flight_inv c 0 (drop_slot True r)"
  using flight_inv_drop [of c True r] by simp

lemma flight_inv_acquire:
  assumes "flight_inv c 0 r" "slots_in_use (request_limiter r) < 2 ^ 64 - 1"
    and "try_acquire (request_limiter r) = (got, l)"
  shows "flight_inv c (if got then 1 else 0) (r\<lparr>request_limiter := l\<rparr>)"
  using assms reactor_limiter.acquire_within [OF assms(3,2)]
    reactor_limiter.acquired [of "request_limiter r" l] reactor_limiter.refused [of "request_limiter r" l]
  by (cases got) (auto simp: flight_inv_def)

lemma drop_slot_fields [simp]:
  "pending (drop_slot b r) = pending r" "in_flight (drop_slot b r) = in_flight r"
  by (simp_all add: drop_slot_def)

lemma flight_inv_pending [simp]: "flight_inv c k (r\<lparr>pending := ts\<rparr>) = flight_inv c k r"
  by (simp add: flight_inv_def)

text \<open>Attaching a transfer whose handle is not attached yet.\<close>

lemma attach_transfer_spec:
  assumes "attach_transfer api tr pass r w = (res, tr', pass', r', w')"
    and "flight_inv c 1 r" "tr_easy tr \<notin> set (easy_ids (in_flight r))" "tr_easy tr \<noteq> 0" "\<not> tr_slot tr"
  shows "flight_inv c 0 r' \<and> tr_easy tr' = tr_easy tr \<and> pending r' = pending r \<and> (tr_slot tr' \<longleftrightarrow> res = Inr True) \<and>
    in_flight r' = in_flight r @ (if res = Inr True then [tr'] else [])"
proof -
  obtain ok w1 where a: "multi_add_handle api (tr_easy tr) w = (ok, w1)" by fastforce
  show ?thesis
  proof (cases ok)
    case False
    with assms(1) a have "res = Inl Runtime_Error" "tr' = tr" "r' = drop_slot True r"
      by (simp_all add: attach_transfer_def)
    with assms(5) flight_inv_drop1 [OF assms(2)] show ?thesis by simp
  next
    case True
    with assms(1) a have e: "res = Inr True" "tr' = tr\<lparr>tr_attached := True, tr_slot := True, physical_recorder := True\<rparr>"
        "r' = emplace_in_flight tr' r"
      by (auto simp: attach_transfer_def Let_def)
    have "r' = r\<lparr>in_flight := in_flight r @ [tr']\<rparr>"
      using e assms(3) by (simp add: emplace_in_flight_def easy_ids_def)
    with e(1,2) assms(2-4) show ?thesis by (simp add: flight_inv_def)
  qed
qed

text \<open>What \<open>try_admit\<close> does with the transfer and the reactor, on every branch.\<close>

lemma try_admit_spec:
  assumes "try_admit api tr pass r w = (res, tr', pass', r', w')"
    and inv: "flight_inv c (if tr_slot tr then 1 else 0) r"
    and fresh: "tr_easy tr \<notin> set (easy_ids (in_flight r))" "tr_easy tr \<noteq> 0"
  shows "flight_inv c 0 r' \<and> tr_easy tr' = tr_easy tr \<and> pending r' = pending r \<and> (tr_slot tr' \<longleftrightarrow> res = Inr True) \<and>
    in_flight r' = in_flight r @ (if res = Inr True then [tr'] else [])"
proof -
  let ?tr = "tr\<lparr>tr_slot := False\<rparr>"
  note adm = assms(1) [unfolded try_admit_def Let_def]
  consider (backoff) "ready_at tr > started_at pass"
    | (skip) "\<not> ready_at tr > started_at pass" "is_device tr \<and> device_ctx tr \<in> set (exhausted_ctxs pass)"
    | (gate) "\<not> ready_at tr > started_at pass" "\<not> (is_device tr \<and> device_ctx tr \<in> set (exhausted_ctxs pass))"
    by blast
  then show ?thesis
  proof cases
    case backoff
    with adm flight_inv_drop [OF inv] show ?thesis by auto
  next
    case skip
    with adm flight_inv_drop [OF inv] show ?thesis by auto
  next
    case gate
    obtain slot1 r1 where sl: "(if tr_slot tr then (True, r)
        else case try_acquire (request_limiter r) of (got, l) \<Rightarrow> (got, r\<lparr>request_limiter := l\<rparr>)) = (slot1, r1)"
      by fastforce
    have inv1: "flight_inv c (if slot1 then 1 else 0) r1" "pending r1 = pending r" "in_flight r1 = in_flight r"
      using sl inv flight_inv_acquire [of c r slot1] flight_room [of c r "tr_easy tr"] fresh
      by (auto split: if_splits prod.splits)
    show ?thesis
    proof (cases slot1)
      case False
      with adm gate sl inv1 show ?thesis by auto
    next
      case True
      with inv1 have inv2: "flight_inv c 1 r1" by simp
      have att: ?thesis if "attach_transfer api t pass r1 w2 = (res, tr', pass', r', w')"
          "tr_easy t = tr_easy tr" "\<not> tr_slot t" for t w2
        using attach_transfer_spec [OF that(1) inv2] that fresh inv1 by simp
      show ?thesis
      proof (cases "is_device tr")
        case False
        with adm gate sl True show ?thesis by (intro att [of ?tr w]) auto
      next
        case dev: True
        obtain g w1 where g: "buffer_try_get api (device_ctx tr) w = (g, w1)" by fastforce
        show ?thesis
        proof (cases g)
          case (Inl e)
          with adm gate sl True dev g flight_inv_drop1 [OF inv2] inv1 show ?thesis by auto
        next
          case (Inr bo)
          show ?thesis
          proof (cases bo)
            case None
            with adm gate sl True dev g Inr flight_inv_drop1 [OF inv2] inv1 show ?thesis by auto
          next
            case (Some b)
            with adm gate sl True dev g Inr show ?thesis
              by (intro att [of "?tr\<lparr>tr_buffer := Some b, tr_ctx := (tr_ctx ?tr)\<lparr>pinned_buffer := b\<rparr>\<rparr>" w1]) auto
          qed
        qed
      qed
    qed
  qed
qed

section \<open>Settling a finished request\<close>

lemma report_fields [simp]:
  "queue (fail_transfer tr e p) = queue p" "dead (fail_transfer tr e p) = dead p"
  "death_reason (fail_transfer tr e p) = death_reason p"
  "reported (fail_transfer tr e p) = reported p @ [(tr_easy tr, Inl e)]"
  "queue (complete_transfer tr n p) = queue p" "dead (complete_transfer tr n p) = dead p"
  "death_reason (complete_transfer tr n p) = death_reason p"
  "reported (complete_transfer tr n p) = reported p @ [(tr_easy tr, Inr n)]"
  by (simp_all add: fail_transfer_def complete_transfer_def)

text \<open>
  The sub-range of \<open>tr\<close> either reported once, or waits again without a slot; in both cases its slot
  is back at the limiter and nothing else changed.
\<close>

definition settled ::
  "nat option \<Rightarrow> RemoteMultiTransfer \<Rightarrow> MultiPollReactor \<Rightarrow> 'w reactor_world \<Rightarrow> MultiPollReactor \<Rightarrow> 'w reactor_world \<Rightarrow> bool"
where
  "settled c tr r s r' s' \<longleftrightarrow>
     flight_inv c 0 r' \<and> in_flight r' = in_flight r \<and>
     queue (pool s') = queue (pool s) \<and> dead (pool s') = dead (pool s) \<and>
     death_reason (pool s') = death_reason (pool s) \<and>
     ((\<exists>rep. pending r' = pending r \<and> reported (pool s') = reported (pool s) @ [(tr_easy tr, rep)]) \<or>
      (\<exists>tr'. pending r' = pending r @ [tr'] \<and> tr_easy tr' = tr_easy tr \<and> \<not> tr_slot tr' \<and>
             reported (pool s') = reported (pool s)))"

lemma destroy_transfer_spec:
  obtains w' where "destroy_transfer api tr r w = (drop_slot (tr_slot tr) r, w')"
  by (simp add: destroy_transfer_def Let_def)

lemma settle_failed_spec:
  assumes "settle_failed api tr e r s = (r', s')" "flight_inv c (if tr_slot tr then 1 else 0) r"
    and "pool s = pool s0" "tr_easy tr = tr_easy tr0"
  shows "settled c tr0 r s0 r' s'"
proof -
  obtain w1 where "destroy_transfer api (tr\<lparr>physical_recorder := False\<rparr>) r (ext s) = (drop_slot (tr_slot tr) r, w1)"
    using destroy_transfer_spec [of api "tr\<lparr>physical_recorder := False\<rparr>" r "ext s"] by auto
  with assms(1) have "r' = drop_slot (tr_slot tr) r"
      "s' = s\<lparr>ext := w1, pool := fail_transfer (tr\<lparr>physical_recorder := False\<rparr>) e (pool s)\<rparr>"
    by (auto simp: settle_failed_def)
  with assms(3,4) flight_inv_drop [OF assms(2)] show ?thesis by (simp add: settled_def)
qed

lemma requeue_for_retry_spec:
  assumes "requeue_for_retry api tr ready r s = (r', s')" "flight_inv c (if tr_slot tr then 1 else 0) r"
    and "pool s = pool s0" "tr_easy tr = tr_easy tr0"
  shows "settled c tr0 r s0 r' s'"
proof -
  let ?r = "drop_slot (tr_slot tr) r"
  have inv: "flight_inv c 0 ?r" by (rule flight_inv_drop [OF assms(2)])
  let ?w = "attachment_reset api tr (ext s)" and ?tr = "tr\<lparr>tr_attached := False, tr_slot := False\<rparr>"
  obtain res tr2 w2 where q: "(case tr_buffer ?tr of
               Some b \<Rightarrow>
                 if is_device ?tr then
                   (case buffer_recycle_now api (device_ctx ?tr) b ?w of
                      (Inl e, w') \<Rightarrow> (Inl e, ?tr\<lparr>tr_buffer := None\<rparr>, w')
                    | (Inr _, w') \<Rightarrow>
                        (Inr (), ?tr\<lparr>tr_buffer := None, tr_ctx := (tr_ctx ?tr)\<lparr>pinned_buffer := 0\<rparr>\<rparr>, w'))
                 else (Inr (), ?tr, ?w)
             | None \<Rightarrow> (Inr (), ?tr, ?w)) = (res, tr2, w2)"
    using prod_cases3 by blast
  then have t2: "tr_easy tr2 = tr_easy tr" "\<not> tr_slot tr2"
    by (auto split: option.splits if_splits prod.splits sum.splits)
  note def = assms(1) [unfolded requeue_for_retry_def Let_def q]
  show ?thesis
  proof (cases res)
    case (Inl e)
    obtain w3 where "destroy_transfer api tr2 ?r w2 = (?r, w3)"
      using destroy_transfer_spec [of api tr2 ?r w2] t2(2) by (auto simp: drop_slot_def)
    with def Inl have "r' = ?r" "s' = s\<lparr>ext := w3, pool := fail_transfer tr2 e (pool s)\<rparr>" by auto
    with inv t2 assms(3,4) show ?thesis by (simp add: settled_def)
  next
    case (Inr u)
    with def inv t2 assms(3,4) show ?thesis by (auto simp: settled_def)
  qed
qed

lemma settle_transfer_spec:
  assumes "settle_transfer api tr result out r s = (out', r', s')"
    and inv: "flight_inv c (if tr_slot tr then 1 else 0) r"
  shows "settled c tr r s r' s'"
proof -
  note def = assms(1) [unfolded settle_transfer_def Let_def]
  have failed: "settled c tr r s r' s'"
    if "(case settle_failed api t e r s1 of (r1, s2) \<Rightarrow> (out1, r1, s2)) = (out', r', s')" "pool s1 = pool s"
      "tr_easy t = tr_easy tr" "tr_slot t = tr_slot tr" for t e s1 out1
    using that settle_failed_spec [of api t e r s1 r' s' c s tr] inv by (auto split: prod.splits)
  consider (ok) "result = CURLE_OK" "\<not> overflow_error (tr_ctx tr)"
    | (overflow) "overflow_error (tr_ctx tr)"
    | (err) "result \<noteq> CURLE_OK" "\<not> overflow_error (tr_ctx tr)"
    by blast
  then show ?thesis
  proof cases
    case ok
    obtain res tr1 w1 where d: "(if is_device tr then stage_device_copy api tr (ext s) else (Inr (), tr, ext s))
        = (res, tr1, w1)"
      using prod_cases3 by blast
    have t1: "tr_easy tr1 = tr_easy tr" "tr_slot tr1 = tr_slot tr"
      using d by (auto simp: stage_device_copy_def Let_def split: if_splits prod.splits sum.splits option.splits)
    show ?thesis
    proof (cases res)
      case (Inl e)
      with def ok d t1 show ?thesis by (intro failed [where t = "tr1" and e = e and ?s1.0 = "s\<lparr>ext := w1\<rparr>" and ?out1.0 = out]) simp_all
    next
      case (Inr u)
      obtain w2 where "destroy_transfer api (tr1\<lparr>physical_recorder := False\<rparr>) r w1 = (drop_slot (tr_slot tr) r, w2)"
        using destroy_transfer_spec [of api "tr1\<lparr>physical_recorder := False\<rparr>" r w1] t1 by auto
      with def ok d Inr have "r' = drop_slot (tr_slot tr) r"
          "s' = s\<lparr>ext := w2, pool := complete_transfer (tr1\<lparr>physical_recorder := False\<rparr>) (ctx_size (tr_ctx tr1)) (pool s)\<rparr>"
        by auto
      with t1 flight_inv_drop [OF inv] show ?thesis by (simp add: settled_def)
    qed
  next
    case overflow
    with def show ?thesis by (intro failed [where t = "tr" and e = Overflow_Error and ?s1.0 = s and ?out1.0 = out]) simp_all
  next
    case err
    obtain gi hc where g: "response_code (easy_api api (tr_easy tr)) (ext s) = (gi, hc)" by fastforce
    let ?tr = "tr\<lparr>attempt := attempt tr + 1\<rparr>"
    show ?thesis
    proof (cases "gi = CURLE_OK")
      case False
      with def err g show ?thesis by (intro failed [where t = "tr" and e = Runtime_Error and ?s1.0 = s and ?out1.0 = out]) simp_all
    next
      case True
      obtain v where v: "evaluate (strerror (easy_api api (tr_easy tr))) (tr_policy ?tr) result hc (attempt ?tr)
          (errbuf (easy_api api (tr_easy tr)) (ext s)) ''curl_multi transfer failed'' = v" by simp
      note def' = def [unfolded g prod.case v] and cs = err True
      show ?thesis
      proof (cases v)
        case (Inl e)
        with def' cs show ?thesis by (intro failed [where t = "?tr" and e = e and ?s1.0 = s and ?out1.0 = out]) simp_all
      next
        case (Inr verdict)
        show ?thesis
        proof (cases "decision verdict = RETRY")
          case False
          with def' cs Inr show ?thesis by (intro failed [where t = "?tr" and e = Runtime_Error and ?s1.0 = s and ?out1.0 = out]) simp_all
        next
          case retry: True
          let ?s = "s\<lparr>rw_counters := count_http_retry (1000000 * delay_ms verdict) (rw_counters s)\<rparr>"
            and ?ready = "steady_now api (ext s) + 1000000 * delay_ms verdict"
          have "requeue_for_retry api (?tr\<lparr>physical_recorder := False\<rparr>) ?ready r ?s = (r', s')"
            using def' cs Inr retry by (auto split: prod.splits)
          then show ?thesis by (rule requeue_for_retry_spec) (use inv in simp_all)
        qed
      qed
    qed
  qed
qed

text \<open>Taking a finished request out of the map leaves its slot with the local variable.\<close>

lemma take_in_flight_spec:
  assumes "take_in_flight easy r = Some (tr, r1)" "flight_inv c 0 r"
  shows "tr_easy tr = easy" "tr_slot tr" "flight_inv c 1 r1" "pending r1 = pending r"
    "mset (easy_ids (in_flight r)) = add_mset (tr_easy tr) (mset (easy_ids (in_flight r1)))"
proof -
  have f: "find (\<lambda>t. tr_easy t = easy) (in_flight r) = Some tr"
      and r1: "r1 = r\<lparr>in_flight := filter (\<lambda>t. tr_easy t \<noteq> easy) (in_flight r)\<rparr>"
    using assms(1) by (auto simp: take_in_flight_def)
  obtain i where i: "i < length (in_flight r)" "in_flight r ! i = tr" "tr_easy tr = easy"
    using f by (auto simp: find_Some_iff)
  let ?xs = "take i (in_flight r)" and ?ys = "drop (Suc i) (in_flight r)"
  have split: "in_flight r = ?xs @ tr # ?ys" using i by (metis id_take_nth_drop)
  have d: "distinct (easy_ids (in_flight r))" "list_all tr_slot (in_flight r)"
    using assms(2) by (auto simp: flight_inv_def)
  have "easy \<notin> set (easy_ids ?xs)" and "easy \<notin> set (easy_ids ?ys)"
    using d(1) i(3) by (subst (asm) split, simp)+
  have keep: "filter (\<lambda>t. tr_easy t \<noteq> easy) (in_flight r) = ?xs @ ?ys"
  proof -
    have "filter (\<lambda>t. tr_easy t \<noteq> easy) ?xs = ?xs" "filter (\<lambda>t. tr_easy t \<noteq> easy) ?ys = ?ys"
      using \<open>easy \<notin> set (easy_ids ?xs)\<close> \<open>easy \<notin> set (easy_ids ?ys)\<close>
      by (auto simp: easy_ids_def intro!: filter_True)
    then show ?thesis using i(3) by (subst split) simp
  qed
  show "tr_easy tr = easy" by (rule i(3))
  show "tr_slot tr" using d(2) i by (metis list_all_length)
  show "pending r1 = pending r" by (simp add: r1)
  show "mset (easy_ids (in_flight r)) = add_mset (tr_easy tr) (mset (easy_ids (in_flight r1)))"
    by (subst split) (simp add: r1 keep)
  have "length (in_flight r) = Suc (length (?xs @ ?ys))" by (subst split) simp
  moreover have "distinct (easy_ids (?xs @ tr # ?ys)) \<and> list_all tr_slot (?xs @ tr # ?ys) \<and>
      0 \<notin> set (easy_ids (?xs @ tr # ?ys))"
    unfolding split [symmetric] using assms(2) by (simp add: flight_inv_def)
  ultimately show "flight_inv c 1 r1"
    using assms(2) keep by (simp add: flight_inv_def r1)
qed

section \<open>Interleaving reactors and callers\<close>

text \<open>
  Where the I/O thread of a reactor is: in its loop, holding a transfer it took from the queue, about
  to put one back, in the handler with a caught exception, in the middle of \<open>signal_death\<close>, about to
  drain its own state, or finished.
\<close>

datatype control =
    Running
  | Holding RemoteMultiTransfer
  | Returning RemoteMultiTransfer
  | Caught exn
  | Drain exn
  | Stopping
  | Stopped

record 'w msys =
  shared :: "'w reactor_world"
  reactors :: "MultiPollReactor list"
  controls :: "control list"
  submitted :: "ptr list"

definition set_reactor ::
  "nat \<Rightarrow> control \<Rightarrow> MultiPollReactor \<Rightarrow> 'w reactor_world \<Rightarrow> 'w msys \<Rightarrow> 'w msys"
where
  "set_reactor i c r s m = m\<lparr>shared := s, reactors := (reactors m)[i := r], controls := (controls m)[i := c]\<rparr>"

inductive multi_step :: "'w multi_api \<Rightarrow> 'w msys \<Rightarrow> 'w msys \<Rightarrow> bool" for api :: "'w multi_api" where
  submit: "\<lbrakk>distinct (easy_ids ts); set (easy_ids ts) \<inter> set (submitted m) = {}; 0 \<notin> set (easy_ids ts)\<rbrakk> \<Longrightarrow>
     multi_step api m (m\<lparr>shared := (shared m)\<lparr>pool := submit_pread ts (pool (shared m))\<rparr>,
                         submitted := submitted m @ easy_ids ts\<rparr>)"
| deferred: "\<lbrakk>i < length (reactors m); controls m ! i = Running;
     admit_deferred api [] (pending (reactors m ! i)) pass (reactors m ! i) (ext (shared m)) = (res, pass', r', w')\<rbrakk> \<Longrightarrow>
     multi_step api m (set_reactor i (case res of Inl e \<Rightarrow> Caught e | Inr _ \<Rightarrow> Running) r' ((shared m)\<lparr>ext := w'\<rparr>) m)"
| pop: "\<lbrakk>i < length (reactors m); controls m ! i = Running;
     try_acquire (request_limiter (reactors m ! i)) = (True, l);
     try_pop_queued (pool (shared m)) = (Some tr, p)\<rbrakk> \<Longrightarrow>
     multi_step api m (set_reactor i (Holding (tr\<lparr>tr_slot := True\<rparr>)) ((reactors m ! i)\<lparr>request_limiter := l\<rparr>)
       ((shared m)\<lparr>pool := p\<rparr>) m)"
| admit: "\<lbrakk>i < length (reactors m); controls m ! i = Holding tr;
     try_admit api tr pass (reactors m ! i) (ext (shared m)) = (Inr True, tr', pass', r', w')\<rbrakk> \<Longrightarrow>
     multi_step api m (set_reactor i Running r' ((shared m)\<lparr>ext := w'\<rparr>) m)"
| refuse: "\<lbrakk>i < length (reactors m); controls m ! i = Holding tr;
     try_admit api tr pass (reactors m ! i) (ext (shared m)) = (Inr False, tr', pass', r', w')\<rbrakk> \<Longrightarrow>
     multi_step api m (set_reactor i (Returning tr') r' ((shared m)\<lparr>ext := w'\<rparr>) m)"
| admit_throws: "\<lbrakk>i < length (reactors m); controls m ! i = Holding tr;
     try_admit api tr pass (reactors m ! i) (ext (shared m)) = (Inl e, tr', pass', r', w')\<rbrakk> \<Longrightarrow>
     multi_step api m (set_reactor i (Caught e) (r'\<lparr>pending := pending r' @ [tr']\<rparr>) ((shared m)\<lparr>ext := w'\<rparr>) m)"
| put_back: "\<lbrakk>i < length (reactors m); controls m ! i = Returning tr\<rbrakk> \<Longrightarrow>
     multi_step api m (set_reactor i Running (reactors m ! i)
       ((shared m)\<lparr>pool := return_to_queue tr (pool (shared m))\<rparr>) m)"
| completion: "\<lbrakk>i < length (reactors m); controls m ! i = Running;
     take_in_flight easy (reactors m ! i) = Some (tr, r1);
     settle_transfer api tr result out r1 s1 = (out', r', s'); pool s1 = pool (shared m)\<rbrakk> \<Longrightarrow>
     multi_step api m (set_reactor i Running r' s' m)"
| multi_error: "\<lbrakk>i < length (reactors m); controls m ! i = Running\<rbrakk> \<Longrightarrow>
     multi_step api m (set_reactor i (Caught e) (reactors m ! i) ((shared m)\<lparr>ext := w'\<rparr>) m)"
| die: "\<lbrakk>i < length (reactors m); controls m ! i = Caught e;
     declare_dead e (pool (shared m)) = (first, p)\<rbrakk> \<Longrightarrow>
     multi_step api m (set_reactor i (if first then Drain e else Stopping) (reactors m ! i) ((shared m)\<lparr>pool := p\<rparr>) m)"
| drain: "\<lbrakk>i < length (reactors m); controls m ! i = Drain e\<rbrakk> \<Longrightarrow>
     multi_step api m (set_reactor i Stopping (reactors m ! i)
       ((shared m)\<lparr>pool := drain_queue e (pool (shared m))\<rparr>) m)"
| notice: "\<lbrakk>i < length (reactors m); controls m ! i = Running; dead (pool (shared m))\<rbrakk> \<Longrightarrow>
     multi_step api m (set_reactor i Stopping (reactors m ! i) (shared m) m)"
| stop: "\<lbrakk>i < length (reactors m); controls m ! i = Stopping;
     fail_all_pending api (the_reason (pool (shared m))) (reactors m ! i) (shared m) = (r', s')\<rbrakk> \<Longrightarrow>
     multi_step api m (set_reactor i Stopped r' s' m)"

text \<open>The pool as its constructor leaves it, with one limiter for each slice of the budget.\<close>

definition initial_system :: "size_t option list \<Rightarrow> 'w \<Rightarrow> 'w msys" where
  "initial_system slices w =
     \<lparr>shared = \<lparr>pool = \<lparr>reactor_count = of_nat (length slices), queue = [], queue_size_hint = 0, dead = False,
                       death_reason = None,
                       aggregates = (\<lambda>_. \<lparr>subranges_left = 0, total_bytes = 0, first_exception = None,
                                         has_recorder = False, agg_effects = []\<rparr>),
                       reported = []\<rparr>, ext = w, rw_counters = zero_counters\<rparr>,
      reactors = map (\<lambda>s. \<lparr>request_limiter = ConcurrentRequestLimiter s, pending = [], in_flight = []\<rparr>) slices,
      controls = replicate (length slices) Running,
      submitted = []\<rparr>"

inductive multi_reachable :: "'w multi_api \<Rightarrow> size_t option list \<Rightarrow> 'w msys \<Rightarrow> bool"
  for api :: "'w multi_api" and slices where
  init: "multi_reachable api slices (initial_system slices w)"
| step: "multi_reachable api slices m \<Longrightarrow> multi_step api m m' \<Longrightarrow> multi_reachable api slices m'"

section \<open>Every sub-range is in one place\<close>

definition control_ids :: "control \<Rightarrow> ptr multiset" where
  "control_ids c = (case c of Holding tr \<Rightarrow> {#tr_easy tr#} | Returning tr \<Rightarrow> {#tr_easy tr#} | _ \<Rightarrow> {#})"

definition reactor_ids :: "MultiPollReactor \<Rightarrow> ptr multiset" where
  "reactor_ids r = mset (easy_ids (pending r)) + mset (easy_ids (in_flight r))"

definition pool_ids :: "MultiReactorPool \<Rightarrow> ptr multiset" where
  "pool_ids p = mset (easy_ids (queue p)) + mset (map fst (reported p))"

definition all_ids :: "'w msys \<Rightarrow> ptr multiset" where
  "all_ids m = pool_ids (pool (shared m)) +
     (\<Sum>i < length (reactors m). reactor_ids (reactors m ! i) + control_ids (controls m ! i))"

definition held_slots :: "control \<Rightarrow> nat" where
  "held_slots c = (case c of Holding tr \<Rightarrow> 1 | _ \<Rightarrow> 0)"

definition control_ok :: "control \<Rightarrow> MultiPollReactor \<Rightarrow> bool" where
  "control_ok c r \<longleftrightarrow>
     (case c of Holding tr \<Rightarrow> tr_slot tr | Returning tr \<Rightarrow> \<not> tr_slot tr
      | Stopped \<Rightarrow> pending r = [] \<and> in_flight r = [] | _ \<Rightarrow> True) \<and>
     list_all (\<lambda>t. \<not> tr_slot t) (pending r)"

definition death_ok :: "'w msys \<Rightarrow> bool" where
  "death_ok m \<longleftrightarrow>
     (if dead (pool (shared m))
      then queue (pool (shared m)) = [] \<or> (\<exists>i < length (controls m). \<exists>e. controls m ! i = Drain e)
      else (\<forall>c \<in> set (controls m). c \<noteq> Stopping \<and> c \<noteq> Stopped \<and> (\<forall>e. c \<noteq> Drain e)))"

definition multi_inv :: "size_t option list \<Rightarrow> 'w msys \<Rightarrow> bool" where
  "multi_inv slices m \<longleftrightarrow>
     length (reactors m) = length slices \<and> length (controls m) = length slices \<and>
     mset (submitted m) = all_ids m \<and> distinct (submitted m) \<and> 0 \<notin> set (submitted m) \<and>
     (\<forall>i < length slices. flight_inv (map_option unat (slices ! i)) (held_slots (controls m ! i)) (reactors m ! i)
        \<and> control_ok (controls m ! i) (reactors m ! i)) \<and>
     death_ok m"

subsection \<open>The operations, followed by handle\<close>

lemma distinct_submset: "mset xs \<subseteq># mset ys \<Longrightarrow> distinct ys \<Longrightarrow> distinct xs"
proof -
  assume sub: "mset xs \<subseteq># mset ys" and d: "distinct ys"
  have "count (mset ys) a \<le> 1" for a using d by (cases "a \<in> set ys") (auto simp: distinct_count_atmost_1)
  then have "count (mset xs) a \<le> 1" for a using mset_subset_eq_count [OF sub, of a] le_trans by blast
  moreover have "a \<in> set xs \<Longrightarrow> 1 \<le> count (mset xs) a" for a by (simp add: Suc_le_eq)
  ultimately show "distinct xs"
    unfolding distinct_count_atmost_1 by (metis count_mset_0_iff le_antisym)
qed

lemma flight_inv_drop_Suc: "flight_inv c (Suc k) r \<Longrightarrow> flight_inv c k (drop_slot True r)"
  using reactor_limiter.released [of "request_limiter r"] reactor_limiter.release_within [of "request_limiter r"]
  by (simp add: flight_inv_def drop_slot_def)

lemma admit_deferred_spec:
  assumes "admit_deferred api kept trs pass r w = (res, pass', r', w')" "flight_inv c 0 r"
    and "distinct (easy_ids (kept @ trs) @ easy_ids (in_flight r))"
    and "0 \<notin> set (easy_ids (kept @ trs))" "list_all (\<lambda>t. \<not> tr_slot t) (kept @ trs)"
  shows "flight_inv c 0 r' \<and> list_all (\<lambda>t. \<not> tr_slot t) (pending r') \<and>
     reactor_ids r' = mset (easy_ids (kept @ trs)) + mset (easy_ids (in_flight r))"
  using assms
proof (induction trs arbitrary: kept pass r w)
  case Nil
  then show ?case by (auto simp: reactor_ids_def)
next
  case (Cons tr trs)
  obtain q tr1 pass1 r1 w1 where t: "try_admit api tr pass r w = (q, tr1, pass1, r1, w1)"
    using prod_cases5 by blast
  have spec: "flight_inv c 0 r1 \<and> tr_easy tr1 = tr_easy tr \<and> pending r1 = pending r \<and> (tr_slot tr1 \<longleftrightarrow> q = Inr True) \<and>
      in_flight r1 = in_flight r @ (if q = Inr True then [tr1] else [])"
    by (rule try_admit_spec [OF t]) (use Cons.prems in auto)
  show ?case
  proof (cases q)
    case (Inl e)
    with Cons.prems t spec show ?thesis by (auto simp: reactor_ids_def)
  next
    case (Inr b)
    show ?thesis
    proof (cases b)
      case True
      with Cons.prems Inr t spec show ?thesis
        using Cons.IH [of kept pass1 r1 w1] by auto
    next
      case False
      with Cons.prems Inr t spec show ?thesis
        using Cons.IH [of "kept @ [tr1]" pass1 r1 w1] by auto
    qed
  qed
qed

lemma fold_fail_transfer [simp]:
  "reported (fold (\<lambda>tr. fail_transfer tr e) ts p) = reported p @ map (\<lambda>t. (tr_easy t, Inl e)) ts"
  "queue (fold (\<lambda>tr. fail_transfer tr e) ts p) = queue p"
  "dead (fold (\<lambda>tr. fail_transfer tr e) ts p) = dead p"
  by (induction ts arbitrary: p) simp_all

lemma pool_ids_fail [simp]: "pool_ids (fail_transfer tr e p) = add_mset (tr_easy tr) (pool_ids p)"
  by (simp add: pool_ids_def)

lemma fst_reports [simp]: "image_mset (fst \<circ> (\<lambda>t. (tr_easy t, f t))) (mset ts) = mset (easy_ids ts)"
  by (simp add: easy_ids_def comp_def)

lemma submit_pread_ids: "pool_ids (submit_pread ts p) = pool_ids p + mset (easy_ids ts)"
  by (simp add: submit_pread_def pool_ids_def multiset.map_comp)

lemma submit_pread_dead: "dead (submit_pread ts p) = dead p" "dead p \<Longrightarrow> queue (submit_pread ts p) = queue p"
  by (simp_all add: submit_pread_def)

lemma return_to_queue_ids: "pool_ids (return_to_queue tr p) = pool_ids p + {#tr_easy tr#}"
  by (simp add: return_to_queue_def pool_ids_def)

lemma return_to_queue_dead:
  "dead (return_to_queue tr p) = dead p" "dead p \<Longrightarrow> queue (return_to_queue tr p) = queue p"
  by (simp_all add: return_to_queue_def)

lemma try_pop_ids:
  assumes "try_pop_queued p = (Some tr, p')"
  shows "pool_ids p = pool_ids p' + {#tr_easy tr#}" "dead p' = dead p" "queue p \<noteq> []"
  using assms by (auto simp: try_pop_queued_def pool_ids_def split: list.splits)

lemma drain_queue_ids:
  "pool_ids (drain_queue e p) = pool_ids p" "queue (drain_queue e p) = []" "dead (drain_queue e p) = dead p"
  by (simp_all add: drain_queue_def pool_ids_def multiset.map_comp)

lemma fail_one_fold:
  assumes "fold (fail_one api e) ts (r, s) = (r', s')" "flight_inv c (length (filter tr_slot ts)) r"
  shows "flight_inv c 0 r' \<and> pending r' = pending r \<and> in_flight r' = in_flight r \<and>
     pool_ids (pool s') = pool_ids (pool s) + mset (easy_ids ts) \<and>
     queue (pool s') = queue (pool s) \<and> dead (pool s') = dead (pool s)"
  using assms
proof (induction ts arbitrary: r s)
  case (Cons t ts)
  obtain w1 where d: "destroy_transfer api t r (ext s) = (drop_slot (tr_slot t) r, w1)"
    by (rule destroy_transfer_spec)
  let ?s = "s\<lparr>ext := w1, pool := fail_transfer t e (pool s)\<rparr>"
  have "flight_inv c (length (filter tr_slot ts)) (drop_slot (tr_slot t) r)"
    using Cons.prems(2) flight_inv_drop_Suc [of c _ r] by (cases "tr_slot t") (simp_all add: drop_slot_def)
  from Cons.IH [OF _ this, of ?s] Cons.prems(1) d show ?case
    by (simp add: fail_one_def)
qed simp

lemma fail_all_pending_spec:
  assumes "fail_all_pending api e r s = (r', s')" "flight_inv c 0 r" "list_all (\<lambda>t. \<not> tr_slot t) (pending r)"
  shows "flight_inv c 0 r' \<and> pending r' = [] \<and> in_flight r' = [] \<and>
     pool_ids (pool s') = pool_ids (pool s) + reactor_ids r \<and>
     queue (pool s') = queue (pool s) \<and> dead (pool s') = dead (pool s)"
proof -
  obtain r1 s1 where f1: "fold (fail_one api e) (pending r) (r\<lparr>pending := []\<rparr>, s) = (r1, s1)" by fastforce
  have none: "filter tr_slot (pending r) = []" using assms(3) by (simp add: list_all_iff filter_empty_conv)
  have a: "flight_inv c 0 r1" "pending r1 = []" "in_flight r1 = in_flight r"
      "pool_ids (pool s1) = pool_ids (pool s) + mset (easy_ids (pending r))"
      "queue (pool s1) = queue (pool s)" "dead (pool s1) = dead (pool s)"
    using fail_one_fold [OF f1, of c] assms(2) none by simp_all
  have f2: "fold (fail_one api e) (in_flight r1) (r1\<lparr>in_flight := []\<rparr>, s1) = (r', s')"
    using assms(1) f1 by (simp add: fail_all_pending_def)
  have "filter tr_slot (in_flight r1) = in_flight r1"
    using a(1) by (simp add: flight_inv_def list_all_iff filter_True)
  then have "flight_inv c (length (filter tr_slot (in_flight r1))) (r1\<lparr>in_flight := []\<rparr>)"
    using a(1) by (simp add: flight_inv_def)
  from fail_one_fold [OF f2 this] a show ?thesis by (simp add: reactor_ids_def)
qed

subsection \<open>The invariant\<close>

lemma all_ids_set_reactor:
  assumes "i < length (reactors m)" "length (controls m) = length (reactors m)"
    and "pool_ids (pool s) + (reactor_ids r + control_ids c)
       = pool_ids (pool (shared m)) + (reactor_ids (reactors m ! i) + control_ids (controls m ! i))"
  shows "all_ids (set_reactor i c r s m) = all_ids m"
proof -
  let ?f = "\<lambda>j. reactor_ids (reactors m ! j) + control_ids (controls m ! j)"
    and ?n = "length (reactors m)"
  let ?g = "\<lambda>j. reactor_ids ((reactors m)[i := r] ! j) + control_ids ((controls m)[i := c] ! j)"
  have rest: "sum ?g ({..<?n} - {i}) = sum ?f ({..<?n} - {i})" by (intro sum.cong) auto
  have f: "sum ?f {..<?n} = ?f i + sum ?f ({..<?n} - {i})" using assms(1) by (intro sum.remove) simp_all
  have g: "sum ?g {..<?n} = ?g i + sum ?g ({..<?n} - {i})" using assms(1) by (intro sum.remove) simp_all
  have "all_ids (set_reactor i c r s m) = pool_ids (pool s) + sum ?g {..<?n}"
    by (simp add: all_ids_def set_reactor_def)
  also have "\<dots> = (pool_ids (pool s) + (reactor_ids r + control_ids c)) + sum ?f ({..<?n} - {i})"
    using g rest assms(1,2) by (simp add: ac_simps)
  also have "\<dots> = all_ids m" using assms(3) f by (simp add: all_ids_def ac_simps)
  finally show ?thesis .
qed

lemma multi_inv_set_reactor:
  assumes "multi_inv slices m" "i < length (reactors m)"
    and "pool_ids (pool s) + (reactor_ids r + control_ids c)
       = pool_ids (pool (shared m)) + (reactor_ids (reactors m ! i) + control_ids (controls m ! i))"
    and "flight_inv (map_option unat (slices ! i)) (held_slots c) r" "control_ok c r"
    and "death_ok (set_reactor i c r s m)"
  shows "multi_inv slices (set_reactor i c r s m)"
proof -
  have "all_ids (set_reactor i c r s m) = all_ids m"
    using assms(1-3) by (intro all_ids_set_reactor) (simp_all add: multi_inv_def)
  with assms show ?thesis by (auto simp: multi_inv_def set_reactor_def nth_list_update)
qed

text \<open>What one reactor and the pool hold is part of what was submitted, so it has no duplicates.\<close>

lemma local_ids:
  assumes "multi_inv slices m" "i < length (reactors m)"
    and "mset xs = pool_ids (pool (shared m)) + reactor_ids (reactors m ! i) + control_ids (controls m ! i)"
  shows "distinct xs" "0 \<notin> set xs"
proof -
  have "reactor_ids (reactors m ! i) + control_ids (controls m ! i)
      \<subseteq># (\<Sum>j < length (reactors m). reactor_ids (reactors m ! j) + control_ids (controls m ! j))"
  proof -
    let ?f = "\<lambda>j. reactor_ids (reactors m ! j) + control_ids (controls m ! j)"
    have "sum ?f {..<length (reactors m)} = ?f i + sum ?f ({..<length (reactors m)} - {i})"
      using assms(2) by (intro sum.remove) simp_all
    then show ?thesis by (simp add: mset_subset_eq_add_left)
  qed
  then have sub: "mset xs \<subseteq># mset (submitted m)"
    using assms(1,3) by (simp add: multi_inv_def all_ids_def ac_simps)
  show "distinct xs" using sub assms(1) distinct_submset by (metis multi_inv_def)
  show "0 \<notin> set xs" using sub assms(1) by (metis multi_inv_def mset_subset_eqD set_mset_mset)
qed

lemma death_ok_same:
  assumes "death_ok m"
    and "dead (pool s) = dead (pool (shared m))" "dead (pool s) \<Longrightarrow> queue (pool (shared m)) = [] \<Longrightarrow> queue (pool s) = []"
    and "\<And>e. controls m ! i \<noteq> Drain e"
    and "\<not> dead (pool s) \<Longrightarrow> c \<noteq> Stopping \<and> c \<noteq> Stopped \<and> (\<forall>e. c \<noteq> Drain e)"
  shows "death_ok (set_reactor i c r s m)"
proof (cases "dead (pool s)")
  case True
  with assms(1,2) consider "queue (pool (shared m)) = []" | j e where "j < length (controls m)" "controls m ! j = Drain e"
    by (auto simp: death_ok_def)
  then show ?thesis
  proof cases
    case 1
    with True assms(3) show ?thesis by (simp add: death_ok_def set_reactor_def)
  next
    case 2
    with assms(4) have "j \<noteq> i" by auto
    with 2 have "j < length ((controls m)[i := c]) \<and> (\<exists>e. (controls m)[i := c] ! j = Drain e)" by simp
    with True show ?thesis by (auto simp: death_ok_def set_reactor_def)
  qed
next
  case False
  with assms(1,2,5) show ?thesis
    by (auto simp: death_ok_def set_reactor_def dest!: set_update_subset_insert [THEN subsetD])
qed

lemma multi_inv_local:
  assumes "multi_inv slices m" "i < length (reactors m)"
  shows "flight_inv (map_option unat (slices ! i)) (held_slots (controls m ! i)) (reactors m ! i)"
    "control_ok (controls m ! i) (reactors m ! i)" "death_ok m" "length (controls m) = length (reactors m)"
  using assms by (auto simp: multi_inv_def)

text \<open>The handles of the pool, of the reactor and of its local variable, as a list.\<close>

lemma fresh_held:
  assumes "multi_inv slices m" "i < length (reactors m)" "controls m ! i = Holding tr"
  shows "tr_easy tr \<notin> set (easy_ids (in_flight (reactors m ! i)))" "tr_easy tr \<noteq> 0"
proof -
  let ?r = "reactors m ! i" and ?p = "pool (shared m)"
  let ?xs = "easy_ids (queue ?p) @ map fst (reported ?p) @ easy_ids (pending ?r) @ easy_ids (in_flight ?r) @ [tr_easy tr]"
  have "mset ?xs = pool_ids ?p + reactor_ids ?r + control_ids (controls m ! i)"
    using assms(3) by (simp add: pool_ids_def reactor_ids_def control_ids_def ac_simps)
  from local_ids [OF assms(1,2) this] show "tr_easy tr \<notin> set (easy_ids (in_flight ?r))" "tr_easy tr \<noteq> 0"
    by auto
qed

lemma fresh_pending:
  assumes "multi_inv slices m" "i < length (reactors m)"
  shows "distinct (easy_ids (pending (reactors m ! i)) @ easy_ids (in_flight (reactors m ! i)))"
    "0 \<notin> set (easy_ids (pending (reactors m ! i)))"
    "queue (pool (shared m)) = t # ts \<Longrightarrow> tr_easy t \<notin> set (easy_ids (in_flight (reactors m ! i)))"
    "queue (pool (shared m)) = t # ts \<Longrightarrow> tr_easy t \<noteq> 0"
proof -
  let ?r = "reactors m ! i" and ?p = "pool (shared m)"
  obtain ys where ys: "mset ys = control_ids (controls m ! i)" using ex_mset by blast
  let ?xs = "easy_ids (queue ?p) @ map fst (reported ?p) @ easy_ids (pending ?r) @ easy_ids (in_flight ?r) @ ys"
  have "mset ?xs = pool_ids ?p + reactor_ids ?r + control_ids (controls m ! i)"
    using ys by (simp add: pool_ids_def reactor_ids_def ac_simps)
  from local_ids [OF assms this] show "distinct (easy_ids (pending ?r) @ easy_ids (in_flight ?r))"
    "0 \<notin> set (easy_ids (pending ?r))"
    "queue ?p = t # ts \<Longrightarrow> tr_easy t \<notin> set (easy_ids (in_flight ?r))" "queue ?p = t # ts \<Longrightarrow> tr_easy t \<noteq> 0"
    by auto
qed

lemma multi_inv_admission:
  assumes inv: "multi_inv slices m" and i: "i < length (reactors m)" and h: "controls m ! i = Holding tr"
    and adm: "try_admit api tr pass (reactors m ! i) (ext (shared m)) = (res, tr', pass', r', w')"
  shows "flight_inv (map_option unat (slices ! i)) 0 r' \<and> tr_easy tr' = tr_easy tr \<and>
    pending r' = pending (reactors m ! i) \<and> (tr_slot tr' \<longleftrightarrow> res = Inr True) \<and>
    in_flight r' = in_flight (reactors m ! i) @ (if res = Inr True then [tr'] else [])"
proof -
  have "control_ok (controls m ! i) (reactors m ! i)" by (rule multi_inv_local [OF inv i])
  then have "tr_slot tr" using h by (simp add: control_ok_def)
  moreover have "flight_inv (map_option unat (slices ! i)) 1 (reactors m ! i)"
    using multi_inv_local(1) [OF inv i] h by (simp add: held_slots_def)
  ultimately show ?thesis
    using try_admit_spec [OF adm, of "map_option unat (slices ! i)"] fresh_held [OF inv i h] by simp
qed

lemmas place_defs = control_ids_def reactor_ids_def held_slots_def control_ok_def

lemma multi_inv_deferred:
  assumes inv: "multi_inv slices m" and deferred: "i < length (reactors m)"
    "controls m ! i = Running"
    "admit_deferred api [] (pending (reactors m ! i)) pass (reactors m ! i) (ext (shared m)) = (res, pass', r', w')"
  shows "multi_inv slices (set_reactor i (case res of Inl e \<Rightarrow> Caught e | Inr _ \<Rightarrow> Running) r' ((shared m)\<lparr>ext := w'\<rparr>) m)"
proof -
  note loc = multi_inv_local [OF inv deferred(1)] fresh_pending [OF inv deferred(1)]
  have spec: "flight_inv (map_option unat (slices ! i)) 0 r' \<and> list_all (\<lambda>t. \<not> tr_slot t) (pending r') \<and>
     reactor_ids r' = reactor_ids (reactors m ! i)"
    using admit_deferred_spec [OF deferred(3), of "map_option unat (slices ! i)"] loc deferred(2)
    by (simp add: place_defs)
  show ?thesis
    by (rule multi_inv_set_reactor [OF inv deferred(1)])
      (use spec loc deferred in \<open>auto simp: control_ids_def held_slots_def control_ok_def split: sum.split intro!: death_ok_same\<close>)
qed

lemma multi_inv_pop:
  assumes inv: "multi_inv slices m" and pop: "i < length (reactors m)"
    "controls m ! i = Running"
    "try_acquire (request_limiter (reactors m ! i)) = (True, l)"
    "try_pop_queued (pool (shared m)) = (Some tr, p)"
  shows "multi_inv slices (set_reactor i (Holding (tr\<lparr>tr_slot := True\<rparr>)) ((reactors m ! i)\<lparr>request_limiter := l\<rparr>) ((shared m)\<lparr>pool := p\<rparr>) m)"
proof -
  note loc = multi_inv_local [OF inv pop(1)]
  obtain ts where q: "queue (pool (shared m)) = tr # ts"
    using pop(4) by (auto simp: try_pop_queued_def split: list.splits)
  have inv0: "flight_inv (map_option unat (slices ! i)) 0 (reactors m ! i)" using loc(1) pop(2) by (simp add: held_slots_def)
  have fl: "flight_inv (map_option unat (slices ! i)) 1 ((reactors m ! i)\<lparr>request_limiter := l\<rparr>)"
    using flight_inv_acquire [OF inv0 _ pop(3)] flight_room [OF inv0, of "tr_easy tr"]
      fresh_pending(3,4) [OF inv pop(1) q] by simp
  show ?thesis
    by (rule multi_inv_set_reactor [OF inv pop(1)])
      (use fl loc pop try_pop_ids [OF pop(4)] q in \<open>auto simp: place_defs try_pop_queued_def intro!: death_ok_same\<close>)
qed

lemma multi_inv_completion:
  assumes inv: "multi_inv slices m" and completion: "i < length (reactors m)"
    "controls m ! i = Running"
    "take_in_flight easy (reactors m ! i) = Some (tr, r1)"
    "settle_transfer api tr result out r1 s1 = (out', r', s')"
    "pool s1 = pool (shared m)"
  shows "multi_inv slices (set_reactor i Running r' s' m)"
proof -
  note loc = multi_inv_local [OF inv completion(1)]
  have inv0: "flight_inv (map_option unat (slices ! i)) 0 (reactors m ! i)"
    using loc(1) completion(2) by (simp add: held_slots_def)
  note tk = take_in_flight_spec [OF completion(3) inv0]
  have st: "settled (map_option unat (slices ! i)) tr r1 s1 r' s'"
    by (rule settle_transfer_spec [OF completion(4)]) (use tk in simp)
  have ids: "pool_ids (pool s') + reactor_ids r' = pool_ids (pool (shared m)) + reactor_ids (reactors m ! i)"
    using st tk completion(5) by (auto simp: settled_def pool_ids_def reactor_ids_def)
  have ok: "control_ok Running r'" using st tk loc(2) completion(2) by (auto simp: settled_def control_ok_def)
  have fl: "flight_inv (map_option unat (slices ! i)) 0 r'" using st by (simp add: settled_def)
  show ?thesis
    by (rule multi_inv_set_reactor [OF inv completion(1)])
      (use ids ok fl loc completion st in \<open>auto simp: control_ids_def held_slots_def settled_def intro!: death_ok_same\<close>)
qed

lemma multi_inv_die:
  assumes inv: "multi_inv slices m" and die: "i < length (reactors m)"
    "controls m ! i = Caught e"
    "declare_dead e (pool (shared m)) = (first, p)"
  shows "multi_inv slices (set_reactor i (if first then Drain e else Stopping) (reactors m ! i) ((shared m)\<lparr>pool := p\<rparr>) m)"
proof -
  note loc = multi_inv_local [OF inv die(1)]
  have p: "pool_ids p = pool_ids (pool (shared m))" "dead p" "first \<longleftrightarrow> \<not> dead (pool (shared m))"
      "\<not> first \<Longrightarrow> p = pool (shared m)"
    using die(3) by (auto simp: declare_dead_def pool_ids_def split: if_splits)
  have "death_ok (set_reactor i (if first then Drain e else Stopping) (reactors m ! i) ((shared m)\<lparr>pool := p\<rparr>) m)"
  proof (cases first)
    case True
    with p loc die(1) show ?thesis
      by (auto simp: death_ok_def set_reactor_def intro!: exI [of _ i])
  next
    case False
    then show ?thesis using loc p die by (intro death_ok_same) auto
  qed
  then show ?thesis
    by (intro multi_inv_set_reactor [OF inv die(1)]) (use loc die p in \<open>auto simp: place_defs\<close>)
qed

lemma multi_inv_drain:
  assumes inv: "multi_inv slices m" and drain: "i < length (reactors m)"
    "controls m ! i = Drain e"
  shows "multi_inv slices (set_reactor i Stopping (reactors m ! i) ((shared m)\<lparr>pool := drain_queue e (pool (shared m))\<rparr>) m)"
proof -
  note loc = multi_inv_local [OF inv drain(1)]
  have "dead (pool (shared m))"
    using loc(3,4) drain(1,2) by (auto simp: death_ok_def split: if_splits)
  then have "death_ok (set_reactor i Stopping (reactors m ! i) ((shared m)\<lparr>pool := drain_queue e (pool (shared m))\<rparr>) m)" by (simp add: death_ok_def set_reactor_def drain_queue_ids)
  then show ?thesis
    by (intro multi_inv_set_reactor [OF inv drain(1)])
      (use loc drain in \<open>auto simp: place_defs drain_queue_ids\<close>)
qed

lemma multi_inv_stop:
  assumes inv: "multi_inv slices m" and stop: "i < length (reactors m)"
    "controls m ! i = Stopping"
    "fail_all_pending api (the_reason (pool (shared m))) (reactors m ! i) (shared m) = (r', s')"
  shows "multi_inv slices (set_reactor i Stopped r' s' m)"
proof -
  note loc = multi_inv_local [OF inv stop(1)]
  have "dead (pool (shared m))"
    using loc(3,4) stop(1,2) by (auto simp: death_ok_def split: if_splits)
  moreover have "flight_inv (map_option unat (slices ! i)) 0 r' \<and> pending r' = [] \<and> in_flight r' = [] \<and>
     pool_ids (pool s') = pool_ids (pool (shared m)) + reactor_ids (reactors m ! i) \<and>
     queue (pool s') = queue (pool (shared m)) \<and> dead (pool s') = dead (pool (shared m))"
    using fail_all_pending_spec [OF stop(3)] loc stop(2) by (simp add: held_slots_def control_ok_def)
  ultimately show ?thesis
    by (intro multi_inv_set_reactor [OF inv stop(1)])
      (use loc stop in \<open>auto simp: place_defs intro!: death_ok_same\<close>)
qed

lemma multi_inv_step:
  assumes "multi_step api m m'" "multi_inv slices m"
  shows "multi_inv slices m'"
  using assms(1)
proof cases
  case (submit ts)
  have ids: "mset (submitted m @ easy_ids ts) = all_ids m + mset (easy_ids ts)"
    using assms(2) by (simp add: multi_inv_def)
  have "death_ok m'"
    using assms(2) submit submit_pread_dead [where ts = ts and p = "pool (shared m)"]
    by (auto simp: multi_inv_def death_ok_def)
  with submit ids assms(2) show ?thesis
    by (auto simp: multi_inv_def all_ids_def submit_pread_ids ac_simps)
next
  case (deferred i pass res pass' r' w')
  then show ?thesis using assms(2) by (auto intro: multi_inv_deferred)
next
  case (pop i l tr p)
  then show ?thesis using assms(2) by (auto intro: multi_inv_pop)
next
  case (admit i tr pass tr' pass' r' w')
  note loc = multi_inv_local [OF assms(2) admit(2)] multi_inv_admission [OF assms(2) admit(2,3,4)]
  show ?thesis unfolding admit(1)
    by (rule multi_inv_set_reactor [OF assms(2) admit(2)])
      (use loc admit in \<open>auto simp: place_defs intro!: death_ok_same\<close>)
next
  case (refuse i tr pass tr' pass' r' w')
  note loc = multi_inv_local [OF assms(2) refuse(2)] multi_inv_admission [OF assms(2) refuse(2,3,4)]
  show ?thesis unfolding refuse(1)
    by (rule multi_inv_set_reactor [OF assms(2) refuse(2)])
      (use loc refuse in \<open>auto simp: place_defs intro!: death_ok_same\<close>)
next
  case (admit_throws i tr pass e tr' pass' r' w')
  note loc = multi_inv_local [OF assms(2) admit_throws(2)] multi_inv_admission [OF assms(2) admit_throws(2,3,4)]
  show ?thesis unfolding admit_throws(1)
    by (rule multi_inv_set_reactor [OF assms(2) admit_throws(2)])
      (use loc admit_throws in \<open>auto simp: place_defs intro!: death_ok_same\<close>)
next
  case (put_back i tr)
  note loc = multi_inv_local [OF assms(2) put_back(2)]
  show ?thesis unfolding put_back(1)
    by (rule multi_inv_set_reactor [OF assms(2) put_back(2)])
      (use loc put_back in \<open>auto simp: place_defs return_to_queue_ids return_to_queue_dead intro!: death_ok_same\<close>)
next
  case (completion i easy tr r1 result out s1 out' r' s')
  then show ?thesis using assms(2) by (auto intro: multi_inv_completion)
next
  case (multi_error i e w')
  note loc = multi_inv_local [OF assms(2) multi_error(2)]
  show ?thesis unfolding multi_error(1)
    by (rule multi_inv_set_reactor [OF assms(2) multi_error(2)])
      (use loc multi_error in \<open>auto simp: place_defs intro!: death_ok_same\<close>)
next
  case (die i e first p)
  show ?thesis unfolding die(1) by (rule multi_inv_die [OF assms(2) die(2-4)])
next
  case (drain i e)
  then show ?thesis using assms(2) by (auto intro: multi_inv_drain)
next
  case (notice i)
  note loc = multi_inv_local [OF assms(2) notice(2)]
  show ?thesis unfolding notice(1)
    by (rule multi_inv_set_reactor [OF assms(2) notice(2)])
      (use loc notice in \<open>auto simp: place_defs intro!: death_ok_same\<close>)
next
  case (stop i r' s')
  then show ?thesis using assms(2) by (auto intro: multi_inv_stop)
qed

lemma multi_inv_init: "multi_inv slices (initial_system slices w)"
proof -
  have "all_ids (initial_system slices w) = {#}"
    by (simp add: all_ids_def initial_system_def pool_ids_def reactor_ids_def control_ids_def)
  moreover have "flight_inv (map_option unat s) 0 \<lparr>request_limiter = ConcurrentRequestLimiter s, pending = [], in_flight = []\<rparr>" for s
    by (simp add: flight_inv_def ConcurrentRequestLimiter_def slots_in_use_def slot_ceiling_def
        reactor_limiter.within_ceiling_def)
  ultimately show ?thesis
    by (auto simp: multi_inv_def initial_system_def held_slots_def control_ok_def death_ok_def)
qed

lemma multi_inv_reachable: "multi_reachable api slices m \<Longrightarrow> multi_inv slices m"
  by (induction rule: multi_reachable.induct) (auto intro: multi_inv_init multi_inv_step)

section \<open>Guarantees\<close>

text \<open>
  C3. No sub-range is lost or reported twice: however submitting threads and reactors interleave, and
  whichever libcurl, CUDA or buffer call fails, every submitted sub-range is in exactly one of the
  queue, a reactor's deferred list, its multi handle or its hands, or it has reported to its
  aggregate exactly once.
\<close>

theorem subranges_conserved:
  assumes "multi_reachable api slices m"
  shows "mset (submitted m) = mset (easy_ids (queue (pool (shared m)))) + mset (map fst (reported (pool (shared m))))
       + (\<Sum>i < length (reactors m). mset (easy_ids (pending (reactors m ! i)))
           + mset (easy_ids (in_flight (reactors m ! i))) + control_ids (controls m ! i))
     \<and> distinct (submitted m) \<and> distinct (map fst (reported (pool (shared m))))"
proof -
  have inv: "multi_inv slices m" by (rule multi_inv_reachable [OF assms])
  then have eq: "mset (submitted m) = mset (easy_ids (queue (pool (shared m)))) + mset (map fst (reported (pool (shared m))))
       + (\<Sum>i < length (reactors m). mset (easy_ids (pending (reactors m ! i)))
           + mset (easy_ids (in_flight (reactors m ! i))) + control_ids (controls m ! i))"
    by (simp add: multi_inv_def all_ids_def pool_ids_def reactor_ids_def)
  then have "mset (map fst (reported (pool (shared m)))) \<subseteq># mset (submitted m)" by simp
  moreover have "distinct (submitted m)" using inv by (simp add: multi_inv_def)
  ultimately show ?thesis using eq distinct_submset by blast
qed

text \<open>
  C12. The death of the pool leaves no caller waiting: once every reactor has stopped, every sub-range
  that was ever submitted has reported to its aggregate, exactly once, also those submitted while
  the pool was dying and those a reactor was just putting back into the queue.
\<close>

theorem death_reports_every_subrange:
  assumes "multi_reachable api slices m" and "slices \<noteq> []" and "set (controls m) \<subseteq> {Stopped}"
  shows "mset (map fst (reported (pool (shared m)))) = mset (submitted m) \<and> distinct (map fst (reported (pool (shared m))))"
proof -
  have inv: "multi_inv slices m" by (rule multi_inv_reachable [OF assms(1)])
  have len: "length (controls m) = length slices" "length (reactors m) = length slices"
    using inv by (simp_all add: multi_inv_def)
  have st: "controls m ! i = Stopped" if "i < length slices" for i
    using assms(3) that len(1) by (metis nth_mem singletonD subsetD)
  have "0 < length slices" using assms(2) by simp
  then have "Stopped \<in> set (controls m)" using st [of 0] len(1) by (metis nth_mem)
  then have "dead (pool (shared m))" using inv by (auto simp: multi_inv_def death_ok_def split: if_splits)
  then have q: "queue (pool (shared m)) = []"
    using inv st len(1) by (auto simp: multi_inv_def death_ok_def)
  have none: "reactor_ids (reactors m ! i) + control_ids (controls m ! i) = {#}" if "i < length slices" for i
    using inv st [OF that] that by (auto simp: multi_inv_def control_ok_def control_ids_def reactor_ids_def)
  then have "(\<Sum>i < length (reactors m). reactor_ids (reactors m ! i) + control_ids (controls m ! i)) = {#}"
    using len by (simp add: sum.neutral)
  then have eq: "mset (map fst (reported (pool (shared m)))) = mset (submitted m)"
    using inv q by (simp add: multi_inv_def all_ids_def pool_ids_def)
  moreover have "distinct (submitted m)" using inv by (simp add: multi_inv_def)
  ultimately show ?thesis by (metis mset_eq_imp_distinct_iff)
qed

section \<open>The budget\<close>

lemma slices_total:
  assumes "reactor_slices n budget = Inr slices" "n \<le> budget"
  shows "length slices = unat n" "(\<Sum>i < unat n. unat (the (slices ! i))) = unat budget"
    "\<And>i. i < unat n \<Longrightarrow> \<exists>s. slices ! i = Some s"
proof -
  let ?b = "budget div n" and ?r = "budget mod n"
  let ?slice = "\<lambda>i. max (?b + (if of_nat i < ?r then 1 else 0)) 1"
  have n: "0 < n" using assms(1) by (cases "n = 0") (simp_all add: reactor_slices_def word_gt_0)
  then have budget: "budget \<noteq> 0" using assms(2) by auto
  have sl: "slices = map (\<lambda>i. Some (?slice i)) [0..<unat n]"
    using assms(1) n budget by (simp add: reactor_slices_def Let_def)
  show "length slices = unat n" by (simp add: sl)
  show "\<And>i. i < unat n \<Longrightarrow> \<exists>s. slices ! i = Some s" by (simp add: sl)
  have npos: "0 < unat n" using n by (simp add: unat_gt_0)
  have b: "unat ?b = unat budget div unat n" "unat ?r = unat budget mod unat n"
    by (simp_all add: unat_div unat_mod)
  have b1: "1 \<le> unat budget div unat n" using assms(2) npos by (simp add: word_le_nat_alt div_greater_zero_iff Suc_le_eq)
  have one: "unat (?slice i) = unat budget div unat n + (if i < unat budget mod unat n then 1 else 0)"
    if "i < unat n" for i
  proof -
    have i: "unat (of_nat i :: size_t) = i" using that size_t_range [of n] by (simp add: unat_of_nat_size_t)
    show ?thesis
    proof (cases "of_nat i < ?r")
      case True
      have "unat budget div unat n + 1 \<le> unat budget"
      proof -
        have "0 < unat budget mod unat n" using True i b by (simp add: word_less_nat_alt)
        moreover have "unat budget = unat n * (unat budget div unat n) + unat budget mod unat n" by simp
        moreover have "unat budget div unat n \<le> unat n * (unat budget div unat n)" using npos by simp
        ultimately show ?thesis by linarith
      qed
      then have "unat (?b + 1) = unat budget div unat n + 1"
        using size_t_range [of budget] b by (simp add: unat_plus_no_wrap)
      with True i b show ?thesis by (simp add: unat_max_size_t word_less_nat_alt)
    next
      case False
      with i b b1 show ?thesis by (simp add: unat_max_size_t word_less_nat_alt)
    qed
  qed
  have "(\<Sum>i < unat n. unat (the (slices ! i)))
      = (\<Sum>i < unat n. unat budget div unat n + (if i < unat budget mod unat n then 1 else 0))"
    using one by (intro sum.cong) (simp_all add: sl)
  also have "\<dots> = unat n * (unat budget div unat n) + card {i. i < unat n \<and> i < unat budget mod unat n}"
    by (simp add: sum.distrib sum.If_cases Int_def lessThan_def)
  also have "{i. i < unat n \<and> i < unat budget mod unat n} = {..<unat budget mod unat n}"
    using npos by (auto intro: less_trans [OF _ mod_less_divisor])
  finally show "(\<Sum>i < unat n. unat (the (slices ! i))) = unat budget" by simp
qed


section \<open>A run\<close>

text \<open>
  One reactor with one slot: a read of two sub-ranges is submitted, then libcurl fails, the pool dies
  and everything is drained.
\<close>

definition demo_api :: "unit multi_api" where
  "demo_api =
     \<lparr>steady_now = (\<lambda>_. 0), multi_add_handle = (\<lambda>_ w. (True, w)), multi_remove_handle = (\<lambda>_ w. w),
      multi_perform = (\<lambda>w. (False, w)), multi_poll = (\<lambda>_ w. (True, w)),
      easy_api = (\<lambda>_. \<lparr>easy_perform = (\<lambda>w. (CURLE_OK, w)), response_code = (\<lambda>_. (CURLE_OK, 0)),
                       num_connects = (\<lambda>_. (CURLE_OK, 0)), namelookup_time = (\<lambda>_. (CURLE_OK, 0)),
                       connect_time = (\<lambda>_. (CURLE_OK, 0)), appconnect_time = (\<lambda>_. (CURLE_OK, 0)),
                       errbuf = (\<lambda>_. []), clear_errbuf = (\<lambda>w. w), strerror = (\<lambda>_. [])\<rparr>),
      buffer_try_get = (\<lambda>_ w. (Inr None, w)), buffer_recycle_now = (\<lambda>_ _ w. (Inr (), w)),
      memcpy_htod_async = (\<lambda>_ _ _ w. (Inr (), w)), record_event = (\<lambda>_ w. (Inr (), w)),
      buffer_recycle_after = (\<lambda>_ _ w. (Inr (), w))\<rparr>"

definition demo_transfer :: "ptr \<Rightarrow> RemoteMultiTransfer" where
  "demo_transfer easy =
     \<lparr>tr_easy = easy, tr_attached = False, tr_ctx = CallbackContext 0 0, tr_aggregate = 0, tr_slot = False,
      is_device = False, device_ctx = 0, device_dst = 0, tr_buffer = None, attempt = 0, tr_file_offset = 0,
      physical_recorder = False, ready_at = 0,
      tr_policy = \<lparr>max_attempts = 3, retryable_status_codes = [], base_delay_ms = 500, max_delay_ms = 4000\<rparr>\<rparr>"

lemma demo_dies:
  obtains m where "multi_reachable demo_api [Some 1] m" "controls m = [Stopped]" "submitted m = [5, 6]"
proof -
  let ?m0 = "initial_system [Some 1] () :: unit msys"
  let ?m1 = "?m0\<lparr>shared := (shared ?m0)\<lparr>pool := submit_pread [demo_transfer 5, demo_transfer 6] (pool (shared ?m0))\<rparr>,
               submitted := submitted ?m0 @ easy_ids [demo_transfer 5, demo_transfer 6]\<rparr>"
  let ?e = Runtime_Error
  have r0: "multi_reachable demo_api [Some 1] ?m0" by (rule multi_reachable.init)
  have r1: "multi_reachable demo_api [Some 1] ?m1"
    by (rule multi_reachable.step [OF r0], rule multi_step.submit) (simp_all add: initial_system_def demo_transfer_def)
  have c1: "length (reactors ?m1) = 1" "controls ?m1 = [Running]" by (simp_all add: initial_system_def)
  define m2 where "m2 = set_reactor 0 (Caught ?e) (reactors ?m1 ! 0) ((shared ?m1)\<lparr>ext := ()\<rparr>) ?m1"
  have r2: "multi_reachable demo_api [Some 1] m2" unfolding m2_def
    by (rule multi_reachable.step [OF r1], rule multi_step.multi_error) (simp_all add: initial_system_def)
  have c2: "length (reactors m2) = 1" "controls m2 = [Caught ?e]" "submitted m2 = [5, 6]"
    by (simp_all add: m2_def set_reactor_def initial_system_def demo_transfer_def)
  obtain first p where d: "declare_dead ?e (pool (shared m2)) = (first, p)" by fastforce
  have first: "first" using d by (simp add: declare_dead_def m2_def set_reactor_def initial_system_def submit_pread_def split: if_splits)
  define m3 where "m3 = set_reactor 0 (if first then Drain ?e else Stopping) (reactors m2 ! 0) ((shared m2)\<lparr>pool := p\<rparr>) m2"
  have r3: "multi_reachable demo_api [Some 1] m3" unfolding m3_def
    by (rule multi_reachable.step [OF r2], rule multi_step.die) (use c2 d in simp_all)
  have c3: "length (reactors m3) = 1" "controls m3 = [Drain ?e]" "submitted m3 = [5, 6]"
    using c2 first by (simp_all add: m3_def set_reactor_def)
  define m4 where "m4 = set_reactor 0 Stopping (reactors m3 ! 0) ((shared m3)\<lparr>pool := drain_queue ?e (pool (shared m3))\<rparr>) m3"
  have r4: "multi_reachable demo_api [Some 1] m4" unfolding m4_def
    by (rule multi_reachable.step [OF r3], rule multi_step.drain) (use c3 in simp_all)
  have c4: "length (reactors m4) = 1" "controls m4 = [Stopping]" "submitted m4 = [5, 6]"
    using c3 by (simp_all add: m4_def set_reactor_def)
  obtain r' s' where f: "fail_all_pending demo_api (the_reason (pool (shared m4))) (reactors m4 ! 0) (shared m4) = (r', s')"
    by fastforce
  have "multi_reachable demo_api [Some 1] (set_reactor 0 Stopped r' s' m4)"
    by (rule multi_reachable.step [OF r4], rule multi_step.stop) (use c4 f in simp_all)
  then show ?thesis using that c4 by (simp add: set_reactor_def)
qed

theorem death_reports_every_subrange_witness:
  "\<exists>m :: unit msys. submitted m = [5, 6] \<and> mset (map fst (reported (pool (shared m)))) = {#5, 6#}"
proof -
  obtain m where m: "multi_reachable demo_api [Some 1] m" "controls m = [Stopped]" "submitted m = [5, 6]"
    by (rule demo_dies)
  with death_reports_every_subrange [OF m(1)] show ?thesis by (intro exI [of _ m]) simp
qed

theorem subranges_conserved_witness:
  "\<exists>m :: unit msys. submitted m = [5, 6] \<and> distinct (map fst (reported (pool (shared m))))"
proof -
  obtain m where m: "multi_reachable demo_api [Some 1] m" "controls m = [Stopped]" "submitted m = [5, 6]"
    by (rule demo_dies)
  with subranges_conserved [OF m(1)] show ?thesis by blast
qed


section \<open>Waiting\<close>

text \<open>
  A reactor never oversleeps: its poll timeout lies between zero and a second, it does not wait
  at all when completions have freed slots and work is queued, and when retries are waiting it
  wakes before the earliest backoff has been over for a millisecond.
\<close>

theorem poll_timeout_bounds:
  assumes "t = poll_timeout_ms now r p out completed"
  shows "0 \<le> t \<and> t \<le> 1000 \<and>
    (completed > 0 \<and> (pending r \<noteq> [] \<or> queued_count_hint p > 0) \<longrightarrow> t = 0) \<and>
    (\<forall>e. earliest_ready_at out = Some e \<and> pending r \<noteq> [] \<longrightarrow> t = 0 \<or> now + 1000000 * t < e + 1000000)"
proof -
  have ceil: "1000000 * - ((now - e) div 1000000) < e - now + 1000000" for e
    using minus_div_mult_eq_mod [of "now - e" 1000000] pos_mod_bound [of 1000000 "now - e"]
    by (simp add: algebra_simps)
  have "now + 1000000 * u < e + 1000000" if "u \<le> - ((now - e) div 1000000)" for u e
    using ceil [of e] that by linarith
  then show ?thesis
    unfolding assms poll_timeout_ms_def Let_def
    by (auto split: option.splits if_splits simp: max_def min_def)
qed

text \<open>An idle reactor whose only retry is due in 2.5 ms sleeps three.\<close>

theorem poll_timeout_bounds_witness:
  "poll_timeout_ms 0 \<lparr>request_limiter = ConcurrentRequestLimiter (Some 1), pending = [demo_transfer 5], in_flight = []\<rparr>
     \<lparr>reactor_count = 1, queue = [], queue_size_hint = 0, dead = False, death_reason = None,
      aggregates = (\<lambda>_. \<lparr>subranges_left = 0, total_bytes = 0, first_exception = None,
                         has_recorder = False, agg_effects = []\<rparr>), reported = []\<rparr>
     \<lparr>earliest_ready_at = Some 2500000, deferred_for_resource = False\<rparr> 0 = 3"
  (is "?t = 3")
proof -
  have "?t = 3 \<and> ?t \<le> 1000"
    using poll_timeout_bounds [of ?t 0 "\<lparr>request_limiter = ConcurrentRequestLimiter (Some 1), pending = [demo_transfer 5], in_flight = []\<rparr>"
        "\<lparr>reactor_count = 1, queue = [], queue_size_hint = 0, dead = False, death_reason = None,
          aggregates = (\<lambda>_. \<lparr>subranges_left = 0, total_bytes = 0, first_exception = None,
                             has_recorder = False, agg_effects = []\<rparr>), reported = []\<rparr>"
        "\<lparr>earliest_ready_at = Some 2500000, deferred_for_resource = False\<rparr>" 0]
    by (simp add: poll_timeout_ms_def queued_count_hint_def)
  then show ?thesis by (rule conjunct1)
qed

end
