(* ===== verification/Summary.thy ===== *)
theory Summary
  imports Counters Observation
begin

text \<open>
  The statistics a monitor hands out: \<open>Summary\<close> of \<open>cpp/src/statistics/summary.cpp\<close> and its header,
  with the derived quantities that are integers, the difference of two readings, and the exact
  serialization to bytes. The object representation has no padding (the code asserts it), so it is
  the concatenation of its fields; the byte order of the host is a parameter of the definitions.
  Points in time and durations are signed 64-bit counts of nanoseconds.
\<close>

section \<open>Data\<close>

record BackendTotals =
  be_num_ops :: "64 word"
  be_bytes_transferred :: "64 word"
  be_total_duration :: int
  be_num_errors :: "64 word"

record ClockAnchor =
  an_steady :: int
  an_wall :: int

text \<open>\<open>kind\<close> is kept as its underlying byte: a deserialized summary holds whatever byte was there.\<close>

record Summary =
  sm_start :: int
  sm_end :: int
  sm_anchor :: ClockAnchor
  sm_num_ops :: "64 word"
  sm_num_reads :: "64 word"
  sm_num_writes :: "64 word"
  sm_bytes_requested :: "64 word"
  sm_bytes_transferred :: "64 word"
  sm_bytes_read :: "64 word"
  sm_bytes_written :: "64 word"
  sm_num_errors :: "64 word"
  by_backend :: "IoBackend \<Rightarrow> BackendTotals"
  sm_counters :: Counters
  sm_total_duration :: int
  sm_busy :: int
  sm_kind :: byte
  sm_reserved :: "byte list"

definition all_backends :: "IoBackend list" where
  "all_backends = [POSIX, GDS, MMAP, REMOTE_HTTP, REMOTE_HDFS]"

definition backend_code :: "IoBackend \<Rightarrow> nat" where
  "backend_code b = (case b of POSIX \<Rightarrow> 0 | GDS \<Rightarrow> 1 | MMAP \<Rightarrow> 2 | REMOTE_HTTP \<Rightarrow> 3 | REMOTE_HDFS \<Rightarrow> 4)"

definition kind_code :: "ObservationKind \<Rightarrow> byte" where
  "kind_code k = (case k of LOGICAL \<Rightarrow> 0 | PHYSICAL \<Rightarrow> 1)"

definition zero_backend :: BackendTotals where
  "zero_backend = \<lparr>be_num_ops = 0, be_bytes_transferred = 0, be_total_duration = 0, be_num_errors = 0\<rparr>"

definition zero_summary :: Summary where
  "zero_summary =
     \<lparr>sm_start = 0, sm_end = 0, sm_anchor = \<lparr>an_steady = 0, an_wall = 0\<rparr>, sm_num_ops = 0, sm_num_reads = 0,
      sm_num_writes = 0, sm_bytes_requested = 0, sm_bytes_transferred = 0, sm_bytes_read = 0,
      sm_bytes_written = 0, sm_num_errors = 0, by_backend = (\<lambda>_. zero_backend), sm_counters = zero_counters,
      sm_total_duration = 0, sm_busy = 0, sm_kind = kind_code LOGICAL, sm_reserved = replicate 7 0\<rparr>"

definition to_wall_clock :: "ClockAnchor \<Rightarrow> int \<Rightarrow> int" where
  "to_wall_clock an time = an_wall an + (time - an_steady an)"

definition wall :: "Summary \<Rightarrow> int" where
  "wall s = (if sm_end s > sm_start s then sm_end s - sm_start s else 0)"

text \<open>The count of operations is converted to the signed representation of a duration, whose division truncates.\<close>

definition mean_duration :: "Summary \<Rightarrow> int" where
  "mean_duration s =
     (if sm_num_ops s = 0 then 0
      else let n = sint (sm_num_ops s)
           in sgn (sm_total_duration s) * sgn n * (\<bar>sm_total_duration s\<bar> div \<bar>n\<bar>))"

section \<open>Differences of readings\<close>

definition backend_since :: "BackendTotals \<Rightarrow> BackendTotals \<Rightarrow> BackendTotals" where
  "backend_since now was =
     \<lparr>be_num_ops = spent_u64 (be_num_ops now) (be_num_ops was),
      be_bytes_transferred = spent_u64 (be_bytes_transferred now) (be_bytes_transferred was),
      be_total_duration = spent_duration (be_total_duration now) (be_total_duration was),
      be_num_errors = spent_u64 (be_num_errors now) (be_num_errors was)\<rparr>"

definition summary_since :: "Summary \<Rightarrow> Summary \<Rightarrow> Summary res" where
  "summary_since s previous =
     bind_res (kvikio_expect (sm_start previous = sm_start s \<and> sm_end previous \<le> sm_end s) Invalid_Argument)
       (\<lambda>_. Inr
         \<lparr>sm_start = sm_end previous, sm_end = sm_end s, sm_anchor = sm_anchor s,
          sm_num_ops = spent_u64 (sm_num_ops s) (sm_num_ops previous),
          sm_num_reads = spent_u64 (sm_num_reads s) (sm_num_reads previous),
          sm_num_writes = spent_u64 (sm_num_writes s) (sm_num_writes previous),
          sm_bytes_requested = spent_u64 (sm_bytes_requested s) (sm_bytes_requested previous),
          sm_bytes_transferred = spent_u64 (sm_bytes_transferred s) (sm_bytes_transferred previous),
          sm_bytes_read = spent_u64 (sm_bytes_read s) (sm_bytes_read previous),
          sm_bytes_written = spent_u64 (sm_bytes_written s) (sm_bytes_written previous),
          sm_num_errors = spent_u64 (sm_num_errors s) (sm_num_errors previous),
          by_backend = (\<lambda>b. backend_since (by_backend s b) (by_backend previous b)),
          sm_counters = counters_since (sm_counters s) (sm_counters previous),
          sm_total_duration = spent_duration (sm_total_duration s) (sm_total_duration previous),
          sm_busy = spent_duration (sm_busy s) (sm_busy previous),
          sm_kind = sm_kind s, sm_reserved = replicate 7 0\<rparr>)"

text \<open>
  An interval is not a baseline: a summary that came out of \<open>since\<close> is refused as \<open>previous\<close>, unless
  the reading before it was taken at the very start of the span.
\<close>

lemma since_refuses_interval:
  assumes "summary_since s p = Inr d" "summary_since s' d = Inr d'" "sm_start s' = sm_start s"
  shows "sm_end p = sm_start p"
  using assms by (auto simp: summary_since_def res_simps split: if_splits)

lemma since_wall:
  "summary_since s p = Inr d \<Longrightarrow> sm_start p \<le> sm_end p \<Longrightarrow> wall s = wall p + wall d"
  by (auto simp: summary_since_def res_simps wall_def split: if_splits)

section \<open>Bytes\<close>

text \<open>\<open>put_u32\<close> and \<open>get_u32\<close>: the header fields, least significant byte first on every host.\<close>

definition put_u32 :: "32 word \<Rightarrow> byte list \<Rightarrow> byte list" where
  "put_u32 v out = fold (\<lambda>i o1. o1 @ [ucast (drop_bit (i * 8) v AND 0xFF)]) [0..<4] out"

definition get_u32 :: "byte list \<Rightarrow> nat \<Rightarrow> 32 word" where
  "get_u32 bs at = fold (\<lambda>i v. v OR push_bit (i * 8) (ucast (bs ! (at + i)))) [0..<4] 0"

text \<open>The object representation of an unsigned integer on a host whose byte order is big endian, or not.\<close>

definition le_bytes :: "'a :: len word \<Rightarrow> byte list" where
  "le_bytes w = map (\<lambda>i. ucast (drop_bit (i * 8) w)) [0..<LENGTH('a) div 8]"

fun le_word :: "byte list \<Rightarrow> 'a :: len word" where
  "le_word [] = 0"
| "le_word (b # bs) = ucast b OR push_bit 8 (le_word bs)"

definition native_bytes :: "bool \<Rightarrow> 'a :: len word \<Rightarrow> byte list" where
  "native_bytes big w = (if big then rev (le_bytes w) else le_bytes w)"

definition native_word :: "bool \<Rightarrow> byte list \<Rightarrow> 'a :: len word" where
  "native_word big bs = le_word (if big then rev bs else bs)"

definition serial_magic :: "byte list" where
  "serial_magic = [0x4B, 0x56, 0x53, 0x4D]"

definition serial_version :: "32 word" where
  "serial_version = 3"

definition serial_byte_order :: "32 word" where
  "serial_byte_order = 0x01020304"

definition serial_byte_order_offset :: nat where
  "serial_byte_order_offset = 12"

definition serial_header_size :: nat where
  "serial_header_size = 16"

text \<open>\<open>sizeof(Summary)\<close>: 42 fields of eight bytes, the kind and the reserved bytes.\<close>

definition sizeof_summary :: nat where
  "sizeof_summary = 344"

definition serialized_size :: nat where
  "serialized_size = serial_header_size + sizeof_summary"

definition backend_words :: "BackendTotals \<Rightarrow> 64 word list" where
  "backend_words t =
     [be_num_ops t, be_bytes_transferred t, word_of_int (be_total_duration t), be_num_errors t]"

definition counters_words :: "Counters \<Rightarrow> 64 word list" where
  "counters_words c =
     [remote_size_probes c, word_of_int (remote_size_probing c), http_connections c,
      word_of_int (http_dns c), word_of_int (http_tcp c), word_of_int (http_tls c), http_retries c,
      word_of_int (http_retry_backoff c)]"

definition summary_words :: "Summary \<Rightarrow> 64 word list" where
  "summary_words s =
     [word_of_int (sm_start s), word_of_int (sm_end s),
      word_of_int (an_steady (sm_anchor s)), word_of_int (an_wall (sm_anchor s)),
      sm_num_ops s, sm_num_reads s, sm_num_writes s, sm_bytes_requested s, sm_bytes_transferred s,
      sm_bytes_read s, sm_bytes_written s, sm_num_errors s] @
     concat (map (\<lambda>b. backend_words (by_backend s b)) all_backends) @
     counters_words (sm_counters s) @ [word_of_int (sm_total_duration s), word_of_int (sm_busy s)]"

definition object_bytes :: "bool \<Rightarrow> Summary \<Rightarrow> byte list" where
  "object_bytes big s = concat (map (native_bytes big) (summary_words s)) @ sm_kind s # sm_reserved s"

definition memcpy_at :: "nat \<Rightarrow> byte list \<Rightarrow> byte list \<Rightarrow> byte list" where
  "memcpy_at off src out = take off out @ src @ drop (off + length src) out"

definition serialize :: "bool \<Rightarrow> Summary \<Rightarrow> byte list" where
  "serialize big s =
     (let out = put_u32 (of_nat sizeof_summary) (put_u32 serial_version serial_magic);
          resized = out @ replicate (serialized_size - length out) 0
      in memcpy_at serial_header_size (object_bytes big s)
           (memcpy_at serial_byte_order_offset (native_bytes big serial_byte_order) resized))"

text \<open>The copy of the payload into a summary, field by field.\<close>

definition backend_of_words :: "64 word list \<Rightarrow> nat \<Rightarrow> BackendTotals" where
  "backend_of_words ws k =
     \<lparr>be_num_ops = ws ! k, be_bytes_transferred = ws ! (k + 1), be_total_duration = sint (ws ! (k + 2)),
      be_num_errors = ws ! (k + 3)\<rparr>"

definition counters_of_words :: "64 word list \<Rightarrow> nat \<Rightarrow> Counters" where
  "counters_of_words ws k =
     \<lparr>remote_size_probes = ws ! k, remote_size_probing = sint (ws ! (k + 1)), http_connections = ws ! (k + 2),
      http_dns = sint (ws ! (k + 3)), http_tcp = sint (ws ! (k + 4)), http_tls = sint (ws ! (k + 5)),
      http_retries = ws ! (k + 6), http_retry_backoff = sint (ws ! (k + 7))\<rparr>"

definition summary_of_words :: "64 word list \<Rightarrow> byte \<Rightarrow> byte list \<Rightarrow> Summary" where
  "summary_of_words ws kind reserved =
     \<lparr>sm_start = sint (ws ! 0), sm_end = sint (ws ! 1),
      sm_anchor = \<lparr>an_steady = sint (ws ! 2), an_wall = sint (ws ! 3)\<rparr>,
      sm_num_ops = ws ! 4, sm_num_reads = ws ! 5, sm_num_writes = ws ! 6, sm_bytes_requested = ws ! 7,
      sm_bytes_transferred = ws ! 8, sm_bytes_read = ws ! 9, sm_bytes_written = ws ! 10, sm_num_errors = ws ! 11,
      by_backend = (\<lambda>b. backend_of_words ws (12 + 4 * backend_code b)),
      sm_counters = counters_of_words ws 32, sm_total_duration = sint (ws ! 40), sm_busy = sint (ws ! 41),
      sm_kind = kind, sm_reserved = reserved\<rparr>"

definition payload_words :: "bool \<Rightarrow> byte list \<Rightarrow> 64 word list" where
  "payload_words big bs = map (\<lambda>i. native_word big (take 8 (drop (8 * i) bs))) [0..<42]"

definition deserialize :: "bool \<Rightarrow> byte list \<Rightarrow> Summary res" where
  "deserialize big bs =
     bind_res (kvikio_expect (length bs = serialized_size) Invalid_Argument) (\<lambda>_.
     bind_res (kvikio_expect (take 4 bs = serial_magic) Invalid_Argument) (\<lambda>_.
     let version = get_u32 bs 4; size_of = get_u32 bs 8
     in bind_res (kvikio_expect (version = serial_version \<and> size_of = of_nat sizeof_summary) Invalid_Argument) (\<lambda>_.
        let byte_order = native_word big (take 4 (drop serial_byte_order_offset bs)) :: 32 word
        in bind_res (kvikio_expect (byte_order = serial_byte_order) Invalid_Argument) (\<lambda>_.
           let payload = drop serial_header_size bs
           in Inr (summary_of_words (payload_words big payload) (payload ! 336) (drop 337 payload))))))"

section \<open>Reading bytes back\<close>

lemma length_le_bytes [simp]: "length (le_bytes (w :: 'a :: len word)) = LENGTH('a) div 8"
  by (simp add: le_bytes_def)

lemma length_native_bytes [simp]: "length (native_bytes big (w :: 'a :: len word)) = LENGTH('a) div 8"
  by (simp add: native_bytes_def)

lemma bit_le_bytes:
  "i < LENGTH('a) div 8 \<Longrightarrow> bit (le_bytes (w :: 'a :: len word) ! i) j \<longleftrightarrow> j < 8 \<and> bit w (i * 8 + j)"
  by (auto simp: le_bytes_def bit_simps)

lemma bit_le_word:
  "bit (le_word bs :: 'a :: len word) n \<longleftrightarrow> n < LENGTH('a) \<and> n div 8 < length bs \<and> bit (bs ! (n div 8)) (n mod 8)"
proof (induction bs arbitrary: n)
  case (Cons b bs)
  show ?case
  proof (cases "n < 8")
    case True
    then show ?thesis by (auto simp: bit_simps)
  next
    case False
    then have n: "n div 8 = Suc ((n - 8) div 8)" "n mod 8 = (n - 8) mod 8"
      by (simp_all add: le_div_geq le_mod_geq)
    have "\<not> bit b n" using False by (auto dest: bit_imp_le_length)
    with False n Cons [of "n - 8"] show ?thesis by (auto simp: bit_simps)
  qed
qed simp

lemma le_word_le_bytes:
  assumes "8 dvd LENGTH('a :: len)"
  shows "le_word (le_bytes (w :: 'a word)) = w"
proof (rule bit_word_eqI)
  fix n assume n: "n < LENGTH('a)"
  then have "n div 8 < LENGTH('a) div 8" using assms by (simp add: less_mult_imp_div_less dvd_div_mult_self)
  then show "bit (le_word (le_bytes w) :: 'a word) n = bit w n"
    using n by (simp add: bit_le_word bit_le_bytes)
qed

lemma le_bytes_le_word:
  assumes "8 dvd LENGTH('a :: len)" and "length bs = LENGTH('a) div 8"
  shows "le_bytes (le_word bs :: 'a word) = bs"
proof (rule nth_equalityI)
  fix i assume i: "i < length (le_bytes (le_word bs :: 'a word))"
  show "le_bytes (le_word bs :: 'a word) ! i = bs ! i"
  proof (rule bit_word_eqI)
    fix j assume j: "j < LENGTH(8)"
    have "i * 8 + j < LENGTH('a)"
      using i j assms(1) by (auto simp: dvd_def)
    then show "bit (le_bytes (le_word bs :: 'a word) ! i) j = bit (bs ! i) j"
      using i j assms(2) by (simp add: bit_le_bytes bit_le_word)
  qed
qed (simp add: assms(2))

lemma native_word_bytes [simp]:
  "native_word big (native_bytes big (w :: 64 word)) = w" "native_word big (native_bytes big (v :: 32 word)) = v"
  by (simp_all add: native_word_def native_bytes_def le_word_le_bytes)

lemma native_bytes_word:
  "length bs = 8 \<Longrightarrow> native_bytes big (native_word big bs :: 64 word) = bs"
  "length bs = 4 \<Longrightarrow> native_bytes big (native_word big bs :: 32 word) = bs"
  by (simp_all add: native_word_def native_bytes_def le_bytes_le_word rev_swap)

text \<open>The header fields are the little-endian representation of a 32-bit word.\<close>

lemma low_byte: "ucast (x AND 0xFF) = (ucast x :: byte)" for x :: "32 word"
proof (rule bit_word_eqI)
  have and_take: "x AND 0xFF = take_bit 8 x" by (simp add: take_bit_eq_mask mask_eq_exp_minus_1)
  fix n assume "n < LENGTH(8)"
  then show "bit (ucast (x AND 0xFF) :: byte) n = bit (ucast x :: byte) n"
    unfolding and_take by (simp add: bit_unsigned_iff bit_take_bit_iff)
qed

lemma upt_4: "[0..<4] = [0, 1, 2, 3]"
  by code_simp

lemma put_u32_le_bytes: "put_u32 v out = out @ le_bytes v"
  by (simp add: put_u32_def le_bytes_def low_byte upt_4)

lemma get_u32_le_word: "at + 4 \<le> length bs \<Longrightarrow> get_u32 bs at = le_word (take 4 (drop at bs))"
proof -
  assume len: "at + 4 \<le> length bs"
  have "take 4 (drop at bs) = map (\<lambda>i. bs ! (at + i)) [0..<4]"
    using len by (intro nth_equalityI) simp_all
  then have "take 4 (drop at bs) = [bs ! at, bs ! (at + 1), bs ! (at + 2), bs ! (at + 3)]"
    unfolding upt_4 by simp
  then show ?thesis
    by (simp add: get_u32_def upt_4 or.assoc push_bit_or)
qed

section \<open>The round trip\<close>

text \<open>What the types of the code guarantee of a summary.\<close>

definition backend_ok :: "BackendTotals \<Rightarrow> bool" where
  "backend_ok t \<longleftrightarrow> int64_range (be_total_duration t)"

definition counters_ok :: "Counters \<Rightarrow> bool" where
  "counters_ok c \<longleftrightarrow>
     int64_range (remote_size_probing c) \<and> int64_range (http_dns c) \<and> int64_range (http_tcp c) \<and>
     int64_range (http_tls c) \<and> int64_range (http_retry_backoff c)"

definition summary_ok :: "Summary \<Rightarrow> bool" where
  "summary_ok s \<longleftrightarrow>
     int64_range (sm_start s) \<and> int64_range (sm_end s) \<and> int64_range (an_steady (sm_anchor s)) \<and>
     int64_range (an_wall (sm_anchor s)) \<and> list_all (\<lambda>b. backend_ok (by_backend s b)) all_backends \<and>
     counters_ok (sm_counters s) \<and> int64_range (sm_total_duration s) \<and> int64_range (sm_busy s) \<and>
     length (sm_reserved s) = 7"

lemma sint_word_of_int [simp]: "int64_range i \<Longrightarrow> sint (word_of_int i :: 64 word) = i"
  using wrap64_id [of i] by (simp add: wrap64_def)

lemma int64_range_sint [simp]: "int64_range (sint (w :: 64 word))"
  using int64_range_wrap64 [of "sint w"] by (simp add: wrap64_def)

lemma length_summary_words [simp]: "length (summary_words s) = 42"
  by (simp add: summary_words_def backend_words_def counters_words_def all_backends_def)

lemma backend_round:
  assumes "backend_ok t" "length xs = k"
  shows "backend_of_words (xs @ backend_words t @ ys) k = t"
  using assms by (simp add: backend_of_words_def backend_words_def backend_ok_def nth_append)

lemma summary_of_words_words:
  assumes "summary_ok s"
  shows "summary_of_words (summary_words s) (sm_kind s) (sm_reserved s) = s"
proof -
  let ?ws = "summary_words s"
  have be: "backend_of_words ?ws (12 + 4 * backend_code b) = by_backend s b" for b
    using assms
    by (cases b) (simp_all add: summary_ok_def backend_ok_def all_backends_def backend_code_def
        backend_of_words_def summary_words_def backend_words_def)
  have cn: "counters_of_words ?ws 32 = sm_counters s"
    using assms by (simp add: summary_ok_def counters_ok_def counters_of_words_def counters_words_def
        summary_words_def backend_words_def all_backends_def)
  show ?thesis
    using assms unfolding summary_of_words_def be cn
    by (simp add: summary_ok_def summary_words_def backend_words_def counters_words_def all_backends_def)
qed

lemma words_42:
  assumes "length ws = 42"
  shows "ws = [ws!0, ws!1, ws!2, ws!3, ws!4, ws!5, ws!6, ws!7, ws!8, ws!9, ws!10, ws!11, ws!12, ws!13,
     ws!14, ws!15, ws!16, ws!17, ws!18, ws!19, ws!20, ws!21, ws!22, ws!23, ws!24, ws!25, ws!26, ws!27,
     ws!28, ws!29, ws!30, ws!31, ws!32, ws!33, ws!34, ws!35, ws!36, ws!37, ws!38, ws!39, ws!40, ws!41]"
proof -
  have upt: "[0..<42] = [0, 1, 2, 3, 4, 5, 6, 7, 8, 9, 10, 11, 12, 13, 14, 15, 16, 17, 18, 19, 20, 21,
      22, 23, 24, 25, 26, 27, 28, 29, 30, 31, 32, 33, 34, 35, 36, 37, 38, 39, 40, 41]" by code_simp
  have "ws = map ((!) ws) [0..<42]" using assms by (metis map_nth)
  then show ?thesis unfolding upt list.map .
qed

lemma summary_words_of_words:
  assumes "length ws = 42"
  shows "summary_words (summary_of_words ws k r) = ws"
  using words_42 [OF assms, symmetric]
  by (simp add: summary_words_def summary_of_words_def backend_words_def backend_of_words_def
      counters_words_def counters_of_words_def all_backends_def backend_code_def)

lemma concat_chunks: "concat (map (\<lambda>i. take 8 (drop (8 * i) p)) [0..<n]) = take (8 * n) p"
proof (induction n)
  case (Suc n)
  have "take (8 * Suc n) p = take (8 * n) p @ take 8 (drop (8 * n) p)"
    by (subst take_add [symmetric]) (simp add: add.commute)
  with Suc show ?case by simp
qed simp

lemma chunks_concat:
  assumes "\<And>w. length (g w) = 8" "\<And>w. f (g w) = w"
  shows "map (\<lambda>i. f (take 8 (drop (8 * i) (concat (map g ws) @ rest)))) [0..<length ws] = ws"
proof (induction ws)
  case (Cons w ws)
  have "[0..<length (w # ws)] = 0 # map Suc [0..<length ws]" by (simp add: upt_conv_Cons map_Suc_upt del: upt_Suc)
  moreover have "drop (8 * Suc i) (concat (map g (w # ws)) @ rest) = drop (8 * i) (concat (map g ws) @ rest)" for i
    using assms(1) [of w] by simp
  ultimately show ?case using Cons assms by (simp add: comp_def)
qed simp

lemma payload_words_object:
  "payload_words big (concat (map (native_bytes big) (summary_words s)) @ rest) = summary_words s"
  using chunks_concat [of "native_bytes big :: 64 word \<Rightarrow> byte list" "native_word big" "summary_words s" rest]
  by (simp add: payload_words_def)

lemma length_concat_native [simp]:
  "length (concat (map (native_bytes big) (ws :: 64 word list))) = 8 * length ws"
  by (induction ws) simp_all

lemma length_object_bytes: "summary_ok s \<Longrightarrow> length (object_bytes big s) = 344"
  by (simp add: object_bytes_def summary_ok_def)

lemmas serial_defs = serial_magic_def serial_byte_order_offset_def serial_header_size_def
  serialized_size_def sizeof_summary_def

lemma serialize_layout:
  assumes "summary_ok s"
  shows "serialize big s = serial_magic @ le_bytes serial_version @ le_bytes (of_nat sizeof_summary :: 32 word) @
           native_bytes big serial_byte_order @ object_bytes big s"
  using length_object_bytes [OF assms, of big]
  by (simp add: serialize_def put_u32_le_bytes memcpy_at_def serial_defs Let_def)

lemma deserialize_serialize:
  assumes "summary_ok s"
  shows "deserialize big (serialize big s) = Inr s"
proof -
  let ?o = "object_bytes big s"
  have o: "drop serial_header_size (serialize big s) = ?o"
    by (simp add: serialize_layout [OF assms] serial_defs)
  have len: "length (serialize big s) = serialized_size"
    using length_object_bytes [OF assms] by (simp add: serialize_layout [OF assms] serial_defs)
  have hdr: "take 4 (drop 4 (serialize big s)) = le_bytes serial_version"
    "take 4 (drop 8 (serialize big s)) = le_bytes (of_nat sizeof_summary :: 32 word)"
    "take 4 (drop serial_byte_order_offset (serialize big s)) = native_bytes big serial_byte_order"
    "take 4 (serialize big s) = serial_magic"
    by (simp_all add: serialize_layout [OF assms] serial_defs)
  have "get_u32 (serialize big s) 4 = serial_version" "get_u32 (serialize big s) 8 = of_nat sizeof_summary"
    using len by (simp_all add: get_u32_le_word hdr le_word_le_bytes serial_defs)
  moreover have "payload_words big ?o = summary_words s" unfolding object_bytes_def by (rule payload_words_object)
  moreover have "?o ! 336 = sm_kind s" "drop 337 ?o = sm_reserved s"
    by (simp_all add: object_bytes_def nth_append)
  ultimately show ?thesis
    using len summary_of_words_words [OF assms]
    by (simp add: deserialize_def o hdr Let_def)
qed

lemma summary_of_words_ok: "length r = 7 \<Longrightarrow> summary_ok (summary_of_words ws k r)"
  by (simp add: summary_ok_def summary_of_words_def backend_ok_def backend_of_words_def counters_ok_def
      counters_of_words_def all_backends_def)

lemma serialize_deserialize:
  assumes "deserialize big bs = Inr s"
  shows "summary_ok s \<and> bs = serialize big s"
proof -
  let ?p = "drop serial_header_size bs"
  from assms have len: "length bs = 360" and magic: "take 4 bs = serial_magic"
    and v: "get_u32 bs 4 = serial_version" and z: "get_u32 bs 8 = of_nat sizeof_summary"
    and bo: "native_word big (take 4 (drop 12 bs)) = serial_byte_order"
    and s: "s = summary_of_words (payload_words big ?p) (?p ! 336) (drop 337 ?p)"
    by (auto simp: deserialize_def res_simps serial_defs Let_def split: if_splits)
  have lp: "length ?p = 344" using len by (simp add: serial_defs)
  have ok: "summary_ok s" unfolding s using lp by (intro summary_of_words_ok) simp
  have "le_bytes (get_u32 bs 4) = take 4 (drop 4 bs)" "le_bytes (get_u32 bs 8) = take 4 (drop 8 bs)"
    using len by (simp_all add: get_u32_le_word le_bytes_le_word)
  then have h: "take 4 (drop 4 bs) = le_bytes serial_version"
      "take 4 (drop 8 bs) = le_bytes (of_nat sizeof_summary :: 32 word)"
    by (simp_all add: v z)
  have b: "take 4 (drop 12 bs) = native_bytes big serial_byte_order"
    using native_bytes_word(2) [of "take 4 (drop 12 bs)" big] len bo by simp
  have "summary_words s = payload_words big ?p"
    unfolding s by (rule summary_words_of_words) (simp add: payload_words_def)
  moreover have "concat (map (native_bytes big) (payload_words big ?p)) = take 336 ?p"
  proof -
    have "map (native_bytes big) (payload_words big ?p) = map (\<lambda>i. take 8 (drop (8 * i) ?p)) [0..<42]"
      using lp by (auto simp: payload_words_def native_bytes_word)
    then show ?thesis using concat_chunks [of ?p 42] by simp
  qed
  moreover have "sm_kind s = ?p ! 336" "sm_reserved s = drop 337 ?p" by (simp_all add: s summary_of_words_def)
  ultimately have o: "object_bytes big s = ?p"
    using id_take_nth_drop [of 336 ?p] lp by (simp add: object_bytes_def)
  have peel: "ys = take 4 ys @ drop 4 ys" for ys :: "byte list" by simp
  have "bs = take 4 bs @ take 4 (drop 4 bs) @ take 4 (drop 8 bs) @ take 4 (drop 12 bs) @ drop 16 bs"
    using peel [of bs] peel [of "drop 4 bs"] peel [of "drop 8 bs"] peel [of "drop 12 bs"] by simp
  then show ?thesis
    using ok magic h b o by (simp add: serialize_layout [OF ok] serial_header_size_def)
qed

lemma byte_order_mark:
  "native_word (\<not> big) (native_bytes big serial_byte_order) = (0x04030201 :: 32 word)"
  by (cases big) (simp_all add: native_word_def native_bytes_def le_bytes_def serial_byte_order_def upt_4)

lemma other_byte_order_refused:
  assumes "summary_ok s"
  shows "deserialize (\<not> big) (serialize big s) = Inl Invalid_Argument"
proof -
  have "take 4 (drop serial_byte_order_offset (serialize big s)) = native_bytes big serial_byte_order"
    by (simp add: serialize_layout [OF assms] serial_defs)
  then show ?thesis
    using byte_order_mark [of big] by (simp add: deserialize_def res_simps Let_def serial_byte_order_def)
qed

text \<open>
  C25. Serialization is exact: a byte string is accepted by \<open>deserialize\<close> precisely if it is what
  \<open>serialize\<close> makes of some summary on a host of the same byte order, and then that summary is what
  comes back, every field included; the bytes of a host of the other byte order are refused.
\<close>

theorem serialize_exact:
  "(deserialize big bs = Inr s \<longleftrightarrow> summary_ok s \<and> bs = serialize big s) \<and>
   (summary_ok s \<longrightarrow> length (serialize big s) = serialized_size \<and>
                    deserialize (\<not> big) (serialize big s) = Inl Invalid_Argument)"
proof -
  have "summary_ok s \<Longrightarrow> length (serialize big s) = serialized_size"
    using length_object_bytes [of s big] by (simp add: serialize_layout serial_defs)
  then show ?thesis using deserialize_serialize serialize_deserialize other_byte_order_refused by blast
qed

theorem serialize_exact_witness:
  "deserialize False (serialize False (zero_summary\<lparr>sm_busy := -7, sm_num_ops := 258\<rparr>))
     = Inr (zero_summary\<lparr>sm_busy := -7, sm_num_ops := 258\<rparr>) \<and>
   deserialize True (serialize False (zero_summary\<lparr>sm_busy := -7, sm_num_ops := 258\<rparr>)) = Inl Invalid_Argument"
proof -
  have "summary_ok (zero_summary\<lparr>sm_busy := -7, sm_num_ops := 258\<rparr>)"
    by (simp add: summary_ok_def zero_summary_def backend_ok_def zero_backend_def counters_ok_def
        zero_counters_def all_backends_def int64_range_def)
  then show ?thesis
    using serialize_exact [of False "serialize False (zero_summary\<lparr>sm_busy := -7, sm_num_ops := 258\<rparr>)"
        "zero_summary\<lparr>sm_busy := -7, sm_num_ops := 258\<rparr>"] by simp
qed

end
