(* ===== verification/Busy_Tracker.thy ===== *)
theory Busy_Tracker
  imports Prelude
begin

text \<open>
  The busy-time tracker of the statistics: \<open>SummaryMonitor::BusyTracker\<close> of
  \<open>cpp/src/statistics/summary.cpp\<close>. Times are nanoseconds of the steady clock, which counts up from
  its epoch, the value of \<open>TimePoint{}\<close>. The abstract specification is the one the documentation of
  \<open>Summary::busy\<close> states: the measure of the union of the operations' time spans. The tracker
  follows only the number of operations in flight; it refines the specification when the reports
  arrive in the order of their time stamps, and whatever the order it never claims more time than
  has passed, nor less than an earlier reading did.
\<close>

section \<open>The tracker\<close>

record BusyTracker =
  closed_busy :: int
  bt_in_flight :: "64 word"
  busy_since :: int
  pending_end :: int
  last_closed :: int
  emitted_busy :: int

definition new_tracker :: BusyTracker where
  "new_tracker = \<lparr>closed_busy = 0, bt_in_flight = 0, busy_since = 0, pending_end = 0, last_closed = 0,
                  emitted_busy = 0\<rparr>"

definition busy_reset :: "int \<Rightarrow> BusyTracker \<Rightarrow> BusyTracker" where
  "busy_reset start b =
     b\<lparr>closed_busy := 0, emitted_busy := 0, pending_end := 0, busy_since := start, last_closed := start\<rparr>"

definition busy_on_start :: "int \<Rightarrow> BusyTracker \<Rightarrow> BusyTracker" where
  "busy_on_start start b =
     (let from = max start (last_closed b)
      in b\<lparr>busy_since := if bt_in_flight b = 0 then from else min (busy_since b) from,
           bt_in_flight := bt_in_flight b + 1\<rparr>)"

definition busy_on_finish :: "int \<Rightarrow> BusyTracker \<Rightarrow> BusyTracker" where
  "busy_on_finish finish b =
     (if bt_in_flight b = 0 then b
      else let b1 = b\<lparr>pending_end := max (pending_end b) finish, bt_in_flight := bt_in_flight b - 1\<rparr>
           in if bt_in_flight b1 > 0 then b1
              else let b2 = (if pending_end b1 > busy_since b1
                             then b1\<lparr>closed_busy := closed_busy b1 + (pending_end b1 - busy_since b1)\<rparr> else b1)
                   in b2\<lparr>last_closed := max (last_closed b2) (pending_end b2), pending_end := 0\<rparr>)"

definition busy_read :: "int \<Rightarrow> BusyTracker \<Rightarrow> int \<times> BusyTracker" where
  "busy_read now b =
     (let open_busy = (if bt_in_flight b > 0 \<and> now > busy_since b then now - busy_since b else 0);
          e = max (emitted_busy b) (closed_busy b + open_busy)
      in (e, b\<lparr>emitted_busy := e\<rparr>))"

lemmas busy_defs = busy_reset_def busy_on_start_def busy_on_finish_def busy_read_def

section \<open>Never more than the span\<close>

text \<open>
  The span began at \<open>t0\<close> and the clock has reached \<open>now\<close>; every report so far carried a time stamp of
  at most \<open>now\<close>, in whatever order they came.
\<close>

definition busy_inv :: "int \<Rightarrow> int \<Rightarrow> BusyTracker \<Rightarrow> bool" where
  "busy_inv t0 now b \<longleftrightarrow>
     t0 \<le> last_closed b \<and> last_closed b \<le> now \<and> pending_end b \<le> now \<and> 0 \<le> closed_busy b \<and>
     closed_busy b \<le> last_closed b - t0 \<and> 0 \<le> emitted_busy b \<and> emitted_busy b \<le> now - t0 \<and>
     (bt_in_flight b > 0 \<longrightarrow> last_closed b \<le> busy_since b)"

lemma busy_inv_reset: "0 \<le> t0 \<Longrightarrow> busy_inv t0 t0 (busy_reset t0 b)"
  by (simp add: busy_inv_def busy_reset_def)

lemma busy_inv_later: "busy_inv t0 now b \<Longrightarrow> now \<le> now' \<Longrightarrow> busy_inv t0 now' b"
  by (auto simp: busy_inv_def)

lemma busy_inv_start: "busy_inv t0 now b \<Longrightarrow> busy_inv t0 now (busy_on_start s b)"
  by (auto simp: busy_inv_def busy_on_start_def Let_def word_gt_0)

lemma busy_inv_finish:
  assumes "busy_inv t0 now b" "e \<le> now" "0 \<le> now"
  shows "busy_inv t0 now (busy_on_finish e b)"
  using assms by (auto simp: busy_inv_def busy_on_finish_def Let_def word_gt_0 max_def)

lemma busy_inv_read:
  assumes "busy_inv t0 now b"
  shows "busy_inv t0 now (snd (busy_read now b))"
    and "0 \<le> fst (busy_read now b)" and "fst (busy_read now b) \<le> now - t0"
  using assms by (auto simp: busy_inv_def busy_read_def Let_def max_def)

text \<open>A reading is at least every earlier reading of the span.\<close>

lemma busy_on_start_emitted [simp]: "emitted_busy (busy_on_start s b) = emitted_busy b"
  by (simp add: busy_on_start_def Let_def)

lemma busy_on_finish_emitted [simp]: "emitted_busy (busy_on_finish e b) = emitted_busy b"
  by (simp add: busy_on_finish_def Let_def)

lemma busy_read_emitted: "emitted_busy b \<le> fst (busy_read now b)"
  by (simp add: busy_read_def Let_def)

lemma busy_read_emits [simp]: "emitted_busy (snd (busy_read now b)) = fst (busy_read now b)"
  by (simp add: busy_read_def Let_def)

section \<open>The specification: the union of the spans\<close>

text \<open>
  The operations of the span in the order they started, each with its end once it has one, and the
  clock. A nanosecond is the unit of time, so the measure of a union of spans is the number of
  instants in it.
\<close>

record busy_spec =
  op_spans :: "(int \<times> int option) list"
  spec_now :: int

definition span_at :: "int \<Rightarrow> int \<times> int option \<Rightarrow> int set" where
  "span_at now sp = {fst sp ..< (case snd sp of None \<Rightarrow> now | Some e \<Rightarrow> e)}"

definition busy_instants :: "busy_spec \<Rightarrow> int set" where
  "busy_instants a = (\<Union>sp \<in> set (op_spans a). span_at (spec_now a) sp)"

definition open_ops :: "busy_spec \<Rightarrow> nat" where
  "open_ops a = length (filter (\<lambda>sp. snd sp = None) (op_spans a))"

datatype busy_event =
    Op_Start int
  | Op_Finish nat int
  | Busy_Read int

text \<open>
  Reports in the order of their time stamps: the clock never goes back, and an operation finishes
  once, after it started.
\<close>

fun in_order :: "busy_event \<Rightarrow> busy_spec \<Rightarrow> bool" where
  "in_order (Op_Start s) a \<longleftrightarrow> spec_now a \<le> s \<and> length (op_spans a) + 1 < 2 ^ 64"
| "in_order (Op_Finish i e) a \<longleftrightarrow>
     spec_now a \<le> e \<and> i < length (op_spans a) \<and> snd (op_spans a ! i) = None"
| "in_order (Busy_Read t) a \<longleftrightarrow> spec_now a \<le> t"

fun spec_step :: "busy_event \<Rightarrow> busy_spec \<Rightarrow> busy_spec" where
  "spec_step (Op_Start s) a = \<lparr>op_spans = op_spans a @ [(s, None)], spec_now = s\<rparr>"
| "spec_step (Op_Finish i e) a =
     \<lparr>op_spans = (op_spans a)[i := (fst (op_spans a ! i), Some e)], spec_now = e\<rparr>"
| "spec_step (Busy_Read t) a = a\<lparr>spec_now := t\<rparr>"

fun tracker_step :: "busy_event \<Rightarrow> BusyTracker \<Rightarrow> BusyTracker" where
  "tracker_step (Op_Start s) b = busy_on_start s b"
| "tracker_step (Op_Finish i e) b = busy_on_finish e b"
| "tracker_step (Busy_Read t) b = snd (busy_read t b)"

fun all_in_order :: "busy_event list \<Rightarrow> busy_spec \<Rightarrow> bool" where
  "all_in_order [] a \<longleftrightarrow> True"
| "all_in_order (ev # evs) a \<longleftrightarrow> in_order ev a \<and> all_in_order evs (spec_step ev a)"

subsection \<open>Simulation\<close>

definition busy_refines :: "int \<Rightarrow> busy_spec \<Rightarrow> BusyTracker \<Rightarrow> bool" where
  "busy_refines t0 a b \<longleftrightarrow>
     0 \<le> spec_now a \<and> unat (bt_in_flight b) = open_ops a \<and> length (op_spans a) < 2 ^ 64 \<and>
     (\<forall>sp \<in> set (op_spans a). fst sp \<le> spec_now a \<and> t0 \<le> fst sp) \<and>
     (\<exists>V. busy_instants a = V \<union> (if bt_in_flight b = 0 then {} else {busy_since b ..< spec_now a}) \<and>
          finite V \<and> V \<subseteq> {..<last_closed b} \<and> int (card V) = closed_busy b) \<and>
     last_closed b \<le> spec_now a \<and> pending_end b \<le> spec_now a \<and>
     (bt_in_flight b \<noteq> 0 \<longrightarrow> last_closed b \<le> busy_since b \<and> busy_since b \<le> spec_now a) \<and>
     emitted_busy b \<le> int (card (busy_instants a))"

text \<open>Time passing extends the open spans, if there are any.\<close>

lemma open_ops_pos: "0 < open_ops a \<longleftrightarrow> (\<exists>sp \<in> set (op_spans a). snd sp = None)"
  by (auto simp: open_ops_def filter_empty_conv)

lemma open_ops_update [simp]: "open_ops (a\<lparr>spec_now := t\<rparr>) = open_ops a"
  by (simp add: open_ops_def)

lemma span_at_later:
  "now \<le> t \<Longrightarrow> fst sp \<le> now \<Longrightarrow> span_at t sp = span_at now sp \<union> (if snd sp = None then {now ..< t} else {})"
  by (auto simp: span_at_def split: option.split)

lemma busy_instants_later:
  assumes "spec_now a \<le> t" and "\<forall>sp \<in> set (op_spans a). fst sp \<le> spec_now a"
  shows "busy_instants (a\<lparr>spec_now := t\<rparr>) = busy_instants a \<union> (if 0 < open_ops a then {spec_now a ..< t} else {})"
proof -
  have "busy_instants (a\<lparr>spec_now := t\<rparr>)
      = (\<Union>sp \<in> set (op_spans a). span_at (spec_now a) sp \<union> (if snd sp = None then {spec_now a ..< t} else {}))"
    unfolding busy_instants_def using assms by (auto simp: span_at_later)
  also have "\<dots> = busy_instants a \<union> (if 0 < open_ops a then {spec_now a ..< t} else {})"
    unfolding busy_instants_def open_ops_pos by (auto split: if_splits)
  finally show ?thesis .
qed

lemma finite_busy_instants [simp]: "finite (busy_instants a)"
  by (simp add: busy_instants_def span_at_def)

lemma busy_refines_later:
  assumes R: "busy_refines t0 a b" and t: "spec_now a \<le> t"
  shows "busy_refines t0 (a\<lparr>spec_now := t\<rparr>) b"
proof -
  have later: "busy_instants (a\<lparr>spec_now := t\<rparr>)
      = busy_instants a \<union> (if bt_in_flight b = 0 then {} else {spec_now a ..< t})"
    using R t by (subst busy_instants_later) (auto simp: busy_refines_def simp flip: unat_gt_0)
  obtain V where V: "busy_instants a = V \<union> (if bt_in_flight b = 0 then {} else {busy_since b ..< spec_now a})"
      "finite V" "V \<subseteq> {..<last_closed b}" "int (card V) = closed_busy b"
    using R by (auto simp: busy_refines_def)
  have "busy_instants (a\<lparr>spec_now := t\<rparr>) = V \<union> (if bt_in_flight b = 0 then {} else {busy_since b ..< t})"
    using R t unfolding later V(1) by (auto simp: busy_refines_def)
  moreover have "card (busy_instants a) \<le> card (busy_instants (a\<lparr>spec_now := t\<rparr>))"
    unfolding later using finite_busy_instants [of a] by (intro card_mono) auto
  ultimately show ?thesis
    using R t V(2-4) unfolding busy_refines_def by (auto intro!: exI [of _ V] dest: order_trans)
qed

text \<open>Where the union has grown to, when a reading is taken.\<close>

lemma busy_refines_card:
  assumes "busy_refines t0 a b"
  shows "int (card (busy_instants a))
       = closed_busy b + (if bt_in_flight b = 0 then 0 else spec_now a - busy_since b)"
proof -
  obtain V where V: "busy_instants a = V \<union> (if bt_in_flight b = 0 then {} else {busy_since b ..< spec_now a})"
      "finite V" "V \<subseteq> {..<last_closed b}" "int (card V) = closed_busy b"
    using assms by (auto simp: busy_refines_def)
  show ?thesis
  proof (cases "bt_in_flight b = 0")
    case False
    then have "last_closed b \<le> busy_since b" "busy_since b \<le> spec_now a"
      using assms by (auto simp: busy_refines_def)
    moreover from this V(3) have "V \<inter> {busy_since b ..< spec_now a} = {}" by fastforce
    ultimately show ?thesis using False V by (simp add: card_Un_disjoint)
  qed (use V in simp)
qed

lemma busy_refines_start:
  assumes R: "busy_refines t0 a b" and len: "length (op_spans a) + 1 < 2 ^ 64" and t0: "t0 \<le> spec_now a"
  shows "busy_refines t0 (a\<lparr>op_spans := op_spans a @ [(spec_now a, None)]\<rparr>) (busy_on_start (spec_now a) b)"
proof -
  let ?a = "a\<lparr>op_spans := op_spans a @ [(spec_now a, None)]\<rparr>" and ?b = "busy_on_start (spec_now a) b"
  have same: "busy_instants ?a = busy_instants a" by (simp add: busy_instants_def span_at_def)
  have "open_ops a \<le> length (op_spans a)" by (simp add: open_ops_def)
  then have inc: "unat (bt_in_flight b + 1) = unat (bt_in_flight b) + 1"
    using R len unat_plus_no_wrap [of "bt_in_flight b" 1] by (simp add: busy_refines_def)
  then have pos: "bt_in_flight b + 1 \<noteq> 0" by (metis add_is_0 one_neq_zero unat_0)
  have count: "unat (bt_in_flight b + 1) = open_ops ?a"
    using R inc by (simp add: busy_refines_def open_ops_def)
  have since: "busy_since ?b = (if bt_in_flight b = 0 then spec_now a else busy_since b)"
    using R by (auto simp: busy_refines_def busy_on_start_def Let_def)
  show ?thesis
    using R len t0 pos count unfolding busy_refines_def same since
    by (auto simp: busy_on_start_def Let_def)
qed

lemma span_at_ended: "span_at now (s, Some now) = span_at now (s, None)"
  by (simp add: span_at_def)

lemma busy_instants_ended:
  assumes "i < length (op_spans a)" "snd (op_spans a ! i) = None"
  shows "busy_instants (a\<lparr>op_spans := (op_spans a)[i := (fst (op_spans a ! i), Some (spec_now a))]\<rparr>) = busy_instants a"
proof -
  have "map (span_at (spec_now a)) ((op_spans a)[i := (fst (op_spans a ! i), Some (spec_now a))])
      = map (span_at (spec_now a)) (op_spans a)"
    using assms by (intro nth_equalityI) (auto simp: nth_list_update span_at_def)
  then show ?thesis by (simp add: busy_instants_def flip: set_map)
qed

lemma open_ops_ended:
  assumes "i < length (op_spans a)" "snd (op_spans a ! i) = None"
  shows "open_ops a = Suc (open_ops (a\<lparr>op_spans := (op_spans a)[i := (s, Some e)]\<rparr>))"
proof -
  have split: "op_spans a = take i (op_spans a) @ op_spans a ! i # drop (Suc i) (op_spans a)"
    using assms(1) by (simp add: id_take_nth_drop)
  have "(op_spans a)[i := (s, Some e)] = take i (op_spans a) @ (s, Some e) # drop (Suc i) (op_spans a)"
    using assms(1) by (rule upd_conv_take_nth_drop)
  then show ?thesis using assms(2) unfolding open_ops_def by (subst split) simp
qed

lemma busy_refines_finish:
  assumes R: "busy_refines t0 a b" and i: "i < length (op_spans a)" "snd (op_spans a ! i) = None"
  shows "busy_refines t0 (a\<lparr>op_spans := (op_spans a)[i := (fst (op_spans a ! i), Some (spec_now a))]\<rparr>)
           (busy_on_finish (spec_now a) b)"
    (is "busy_refines t0 ?a ?b")
proof -
  have same: "busy_instants ?a = busy_instants a" by (rule busy_instants_ended [OF i])
  have count: "unat (bt_in_flight b) = Suc (open_ops ?a)"
    using R open_ops_ended [OF i, of "fst (op_spans a ! i)" "spec_now a"] by (simp add: busy_refines_def)
  then have pos: "bt_in_flight b \<noteq> 0" by (metis nat.simps(3) unat_0)
  have dec: "unat (bt_in_flight b - 1) = open_ops ?a"
    using count pos by (subst unat_minus_one) simp_all
  have spans: "\<forall>sp \<in> set (op_spans ?a). fst sp \<le> spec_now a \<and> t0 \<le> fst sp"
    using R i by (auto simp: busy_refines_def dest!: set_update_subset_insert [THEN subsetD])
  have pend: "max (pending_end b) (spec_now a) = spec_now a" using R by (simp add: busy_refines_def)
  obtain V where V: "busy_instants a = V \<union> {busy_since b ..< spec_now a}"
      "finite V" "V \<subseteq> {..<last_closed b}" "int (card V) = closed_busy b"
    using R pos by (auto simp: busy_refines_def)
  have bounds: "last_closed b \<le> busy_since b" "busy_since b \<le> spec_now a" "last_closed b \<le> spec_now a"
    using R pos by (auto simp: busy_refines_def)
  show ?thesis
  proof (cases "bt_in_flight b - 1 = 0")
    case True
    have closed: "int (card (busy_instants a)) = closed_busy b + (spec_now a - busy_since b)"
      using busy_refines_card [OF R] pos by simp
    have "?b = b\<lparr>pending_end := 0, bt_in_flight := 0, closed_busy := int (card (busy_instants a)),
                 last_closed := spec_now a\<rparr>"
      using pos True bounds closed by (simp add: busy_on_finish_def Let_def pend)
    moreover have "busy_instants a \<subseteq> {..<spec_now a}" using V bounds by auto
    ultimately show ?thesis
      using R spans dec True unfolding busy_refines_def same
      by (auto intro!: exI [of _ "busy_instants a"])
  next
    case False
    then have "?b = b\<lparr>pending_end := spec_now a, bt_in_flight := bt_in_flight b - 1\<rparr>"
      using pos by (simp add: busy_on_finish_def Let_def pend word_gt_0)
    with False show ?thesis
      using R pos spans dec unfolding busy_refines_def same by auto
  qed
qed

text \<open>A reading returns the measure of the union.\<close>

lemma busy_refines_read:
  assumes "busy_refines t0 a b"
  shows "fst (busy_read (spec_now a) b) = int (card (busy_instants a))"
    and "busy_refines t0 a (snd (busy_read (spec_now a) b))"
proof -
  show eq: "fst (busy_read (spec_now a) b) = int (card (busy_instants a))"
    using assms busy_refines_card [OF assms] by (auto simp: busy_read_def busy_refines_def Let_def word_gt_0)
  have "snd (busy_read (spec_now a) b) = b\<lparr>emitted_busy := int (card (busy_instants a))\<rparr>"
    using eq by (simp add: busy_read_def Let_def)
  with assms show "busy_refines t0 a (snd (busy_read (spec_now a) b))" by (auto simp: busy_refines_def)
qed

lemma busy_refines_step:
  assumes R: "busy_refines t0 a b" and ev: "in_order ev a" and t0: "t0 \<le> spec_now a"
  shows "busy_refines t0 (spec_step ev a) (tracker_step ev b) \<and> t0 \<le> spec_now (spec_step ev a)"
proof (cases ev)
  case (Op_Start s)
  with ev have "busy_refines t0 (a\<lparr>spec_now := s\<rparr>) b" by (intro busy_refines_later [OF R]) simp
  from busy_refines_start [OF this] Op_Start ev t0 show ?thesis by (cases a) simp
next
  case (Op_Finish i e)
  with ev have "busy_refines t0 (a\<lparr>spec_now := e\<rparr>) b" by (intro busy_refines_later [OF R]) simp
  from busy_refines_finish [OF this, of i] Op_Finish ev t0 show ?thesis by (cases a) simp
next
  case (Busy_Read t)
  with ev have "busy_refines t0 (a\<lparr>spec_now := t\<rparr>) b" by (intro busy_refines_later [OF R]) simp
  from busy_refines_read(2) [OF this] Busy_Read ev t0 show ?thesis by simp
qed

lemma busy_refines_run:
  "busy_refines t0 a b \<Longrightarrow> t0 \<le> spec_now a \<Longrightarrow> all_in_order evs a \<Longrightarrow>
     busy_refines t0 (fold spec_step evs a) (fold tracker_step evs b)"
  by (induction evs arbitrary: a b) (auto dest: busy_refines_step)

lemma busy_refines_init:
  assumes "0 \<le> t0"
  shows "busy_refines t0 \<lparr>op_spans = [], spec_now = t0\<rparr> (busy_reset t0 new_tracker)"
  using assms by (simp add: busy_refines_def busy_reset_def new_tracker_def open_ops_def busy_instants_def)

text \<open>
  C11. The busy time is the measure of the union of the operations' spans: when the starts, the ends
  and the readings reach the tracker in the order of their time stamps, a reading returns exactly
  the number of nanoseconds since the span began in which at least one operation was in flight,
  operations still running counted up to the instant of the reading.
\<close>

theorem busy_is_union_of_spans:
  assumes "0 \<le> t0" and "all_in_order evs \<lparr>op_spans = [], spec_now = t0\<rparr>"
    and "spec_now (fold spec_step evs \<lparr>op_spans = [], spec_now = t0\<rparr>) \<le> now"
  shows "fst (busy_read now (fold tracker_step evs (busy_reset t0 new_tracker)))
       = int (card (busy_instants ((fold spec_step evs \<lparr>op_spans = [], spec_now = t0\<rparr>)\<lparr>spec_now := now\<rparr>)))"
proof -
  have "busy_refines t0 (fold spec_step evs \<lparr>op_spans = [], spec_now = t0\<rparr>)
          (fold tracker_step evs (busy_reset t0 new_tracker))"
    using assms(2) by (intro busy_refines_run busy_refines_init [OF assms(1)]) simp
  from busy_refines_read(1) [OF busy_refines_later [OF this assms(3)]] show ?thesis by simp
qed

text \<open>Two overlapping operations, a gap, and one still running at the reading: 5 + 4 of 14 ns.\<close>

definition demo_events :: "busy_event list" where
  "demo_events = [Op_Start 2, Op_Start 4, Op_Finish 0 5, Op_Finish 1 7, Busy_Read 8, Op_Start 10]"

theorem busy_is_union_of_spans_witness:
  "fst (busy_read 14 (fold tracker_step demo_events (busy_reset 0 new_tracker))) = 9 \<and>
   card (busy_instants ((fold spec_step demo_events \<lparr>op_spans = [], spec_now = 0\<rparr>)\<lparr>spec_now := 14\<rparr>)) = 9"
proof -
  have "fst (busy_read 14 (fold tracker_step demo_events (busy_reset 0 new_tracker))) = 9"
    by (simp add: demo_events_def busy_defs new_tracker_def Let_def)
  moreover have "fst (busy_read 14 (fold tracker_step demo_events (busy_reset 0 new_tracker)))
      = int (card (busy_instants ((fold spec_step demo_events \<lparr>op_spans = [], spec_now = 0\<rparr>)\<lparr>spec_now := 14\<rparr>)))"
    by (rule busy_is_union_of_spans) (simp_all add: demo_events_def)
  ultimately show ?thesis by simp
qed

end
