(* ===== verification/Summary_Monitor.thy ===== *)
theory Summary_Monitor
  imports Summary Busy_Tracker
begin

text \<open>
  The monitor behind the statistics: \<open>SummaryMonitor\<close> of \<open>cpp/src/statistics/summary.cpp\<close>. Every
  callback and every reading runs under the monitor's mutex, so a run is a sequence of these steps;
  the clock and the process-wide counters are read by the caller of a step. Registration with the
  registry of \<open>Observation\<close> is a step of its own, since the constructor registers before it stamps
  the span and a callback can come in between.
\<close>

section \<open>State and operations\<close>

definition timepoint_max :: int where
  "timepoint_max = 2 ^ 63 - 1"

record SummaryMonitor =
  counters_at_start :: Counters
  counters_at_stop :: Counters
  totals :: Summary
  registered :: int
  stopped_end :: int
  registration :: "64 word"
  busy :: BusyTracker

definition blank_monitor :: SummaryMonitor where
  "blank_monitor =
     \<lparr>counters_at_start = zero_counters, counters_at_stop = zero_counters, totals = zero_summary,
      registered = timepoint_max, stopped_end = 0, registration = 0, busy = new_tracker\<rparr>"

text \<open>The constructor: registration, and the stamping of the span under the lock.\<close>

definition register_summary :: "ptr \<Rightarrow> ObservationKind \<Rightarrow> Registry \<Rightarrow> (Registry \<times> SummaryMonitor) res" where
  "register_summary self kind reg =
     bind_res (add_monitor self kind reg) (\<lambda>(reg1, i). Inr (reg1, blank_monitor\<lparr>registration := i\<rparr>))"

definition stamp_span :: "int \<Rightarrow> ClockAnchor \<Rightarrow> ObservationKind \<Rightarrow> Counters \<Rightarrow> SummaryMonitor \<Rightarrow> SummaryMonitor" where
  "stamp_span t an kind counters m =
     m\<lparr>totals := (totals m)\<lparr>sm_start := t, sm_anchor := an, sm_kind := kind_code kind\<rparr>,
       registered := t, counters_at_start := counters, busy := busy_reset t (busy m)\<rparr>"

definition summary_on_start :: "Observation \<Rightarrow> SummaryMonitor \<Rightarrow> SummaryMonitor" where
  "summary_on_start ob m =
     (if ob_start ob < registered m then m else m\<lparr>busy := busy_on_start (ob_start ob) (busy m)\<rparr>)"

text \<open>The part of \<open>on_finish\<close> that adds the observation to the totals of its backend, and to the totals.\<close>

definition count_backend :: "Observation \<Rightarrow> BackendTotals \<Rightarrow> BackendTotals" where
  "count_backend ob bt =
     bt\<lparr>be_num_ops := be_num_ops bt + 1,
        be_bytes_transferred := be_bytes_transferred bt + bytes_transferred ob,
        be_total_duration := be_total_duration bt + duration ob,
        be_num_errors := be_num_errors bt + (if ok ob then 0 else 1)\<rparr>"

definition count_observation :: "Observation \<Rightarrow> Summary \<Rightarrow> Summary" where
  "count_observation ob s =
     (let s1 = s\<lparr>sm_num_ops := sm_num_ops s + 1,
                 sm_bytes_requested := sm_bytes_requested s + ob_size ob,
                 sm_bytes_transferred := sm_bytes_transferred s + bytes_transferred ob,
                 sm_total_duration := sm_total_duration s + duration ob\<rparr>;
          s2 = s1\<lparr>by_backend := (by_backend s1)(backend ob := count_backend ob (by_backend s1 (backend ob)))\<rparr>;
          s3 = (case direction ob of
                  READ \<Rightarrow> s2\<lparr>sm_num_reads := sm_num_reads s2 + 1, sm_bytes_read := sm_bytes_read s2 + bytes_transferred ob\<rparr>
                | WRITE \<Rightarrow> s2\<lparr>sm_num_writes := sm_num_writes s2 + 1,
                              sm_bytes_written := sm_bytes_written s2 + bytes_transferred ob\<rparr>)
      in if ok ob then s3 else s3\<lparr>sm_num_errors := sm_num_errors s3 + 1\<rparr>)"

definition summary_on_finish :: "Observation \<Rightarrow> SummaryMonitor \<Rightarrow> SummaryMonitor" where
  "summary_on_finish ob m =
     (if ob_start ob < registered m then m
      else let m1 = m\<lparr>busy := busy_on_finish (ob_end ob) (busy m)\<rparr>
           in if ob_start ob < sm_start (totals m1) then m1
              else m1\<lparr>totals := count_observation ob (totals m1)\<rparr>)"

definition summary_get :: "int \<Rightarrow> Counters \<Rightarrow> SummaryMonitor \<Rightarrow> Summary \<times> SummaryMonitor" where
  "summary_get now current m =
     (let counted = counters_since (if stopped_end m \<noteq> 0 then counters_at_stop m else current) (counters_at_start m);
          finish = (if stopped_end m \<noteq> 0 then stopped_end m else now);
          (b, tracker) = busy_read finish (busy m)
      in ((totals m)\<lparr>sm_counters := counted, sm_end := finish, sm_busy := b\<rparr>, m\<lparr>busy := tracker\<rparr>))"

definition monitor_since :: "int \<Rightarrow> Counters \<Rightarrow> Summary \<Rightarrow> SummaryMonitor \<Rightarrow> Summary res \<times> SummaryMonitor" where
  "monitor_since now current previous m =
     (let (s, m1) = summary_get now current m in (summary_since s previous, m1))"

definition summary_reset :: "int \<Rightarrow> Counters \<Rightarrow> SummaryMonitor \<Rightarrow> SummaryMonitor" where
  "summary_reset t current m =
     m\<lparr>totals := zero_summary\<lparr>sm_start := t, sm_anchor := sm_anchor (totals m), sm_kind := sm_kind (totals m)\<rparr>,
       counters_at_start := current, busy := busy_reset t (busy m)\<rparr>"

text \<open>
  \<open>stop\<close>: the registry drops the monitor first and throws if called from a callback. The stamp is
  taken after that, when no callback is in progress any more.
\<close>

definition summary_stop :: "int \<Rightarrow> Counters \<Rightarrow> Registry \<Rightarrow> SummaryMonitor \<Rightarrow> (Registry \<times> SummaryMonitor) res" where
  "summary_stop t final reg m =
     (if registration m = 0 then Inr (reg, m)
      else bind_res (remove_monitor (registration m) reg)
             (\<lambda>reg1. Inr (reg1, m\<lparr>registration := 0, counters_at_stop := final, stopped_end := t\<rparr>)))"

text \<open>Until the span is stamped, both callbacks refuse every operation.\<close>

lemma unstamped_refuses:
  assumes "register_summary self kind reg = Inr (reg', m)" "ob_start ob < timepoint_max"
  shows "summary_on_start ob m = m" "summary_on_finish ob m = m"
  using assms
  by (auto simp: register_summary_def blank_monitor_def summary_on_start_def summary_on_finish_def
      bind_res_Inr_iff)

section \<open>Runs of a monitor\<close>

text \<open>
  The clock never goes back, and a report is delivered after the instant it is stamped with. The
  registry delivers only to monitors that are registered. The list holds the finished observations
  delivered since the span began.
\<close>

inductive monitor_run :: "SummaryMonitor \<Rightarrow> int \<Rightarrow> Observation list \<Rightarrow> bool" where
  construct: "register_summary self kind reg = Inr (reg', m) \<Longrightarrow> 0 < t \<Longrightarrow>
     monitor_run (stamp_span t an kind counters m) t []"
| start: "monitor_run m t obs \<Longrightarrow> registration m \<noteq> 0 \<Longrightarrow> t \<le> t' \<Longrightarrow> ob_start ob \<le> t' \<Longrightarrow>
     monitor_run (summary_on_start ob m) t' obs"
| finish: "monitor_run m t obs \<Longrightarrow> registration m \<noteq> 0 \<Longrightarrow> t \<le> t' \<Longrightarrow> ob_end ob \<le> t' \<Longrightarrow>
     monitor_run (summary_on_finish ob m) t' (obs @ [ob])"
| get: "monitor_run m t obs \<Longrightarrow> t \<le> t' \<Longrightarrow> monitor_run (snd (summary_get t' current m)) t' obs"
| reset: "monitor_run m t obs \<Longrightarrow> t \<le> t' \<Longrightarrow> monitor_run (summary_reset t' current m) t' []"
| stop: "monitor_run m t obs \<Longrightarrow> t \<le> t' \<Longrightarrow> summary_stop t' final reg m = Inr (reg', m') \<Longrightarrow>
     monitor_run m' t' obs"

section \<open>The totals\<close>

text \<open>The totals are those of the observations that began in the span.\<close>

definition reads_of :: "Observation list \<Rightarrow> Observation list" where
  "reads_of obs = filter (\<lambda>ob. direction ob = READ) obs"

definition writes_of :: "Observation list \<Rightarrow> Observation list" where
  "writes_of obs = filter (\<lambda>ob. direction ob = WRITE) obs"

definition backend_counts :: "BackendTotals \<Rightarrow> Observation list \<Rightarrow> bool" where
  "backend_counts bt obs \<longleftrightarrow>
     be_num_ops bt = of_nat (length obs) \<and> be_bytes_transferred bt = sum_list (map bytes_transferred obs) \<and>
     be_total_duration bt = sum_list (map duration obs) \<and>
     be_num_errors bt = of_nat (length (filter (\<lambda>ob. \<not> ok ob) obs))"

definition summary_counts :: "Summary \<Rightarrow> Observation list \<Rightarrow> bool" where
  "summary_counts s obs \<longleftrightarrow>
     sm_num_ops s = of_nat (length obs) \<and>
     sm_num_reads s = of_nat (length (reads_of obs)) \<and> sm_num_writes s = of_nat (length (writes_of obs)) \<and>
     sm_bytes_requested s = sum_list (map ob_size obs) \<and>
     sm_bytes_transferred s = sum_list (map bytes_transferred obs) \<and>
     sm_bytes_read s = sum_list (map bytes_transferred (reads_of obs)) \<and>
     sm_bytes_written s = sum_list (map bytes_transferred (writes_of obs)) \<and>
     sm_num_errors s = of_nat (length (filter (\<lambda>ob. \<not> ok ob) obs)) \<and>
     sm_total_duration s = sum_list (map duration obs) \<and>
     (\<forall>b. backend_counts (by_backend s b) (filter (\<lambda>ob. backend ob = b) obs))"

lemma summary_counts_zero: "summary_counts (zero_summary\<lparr>sm_start := t, sm_anchor := an, sm_kind := k\<rparr>) []"
  by (simp add: summary_counts_def zero_summary_def backend_counts_def zero_backend_def reads_of_def writes_of_def)

lemma summary_counts_observation:
  assumes "summary_counts s obs"
  shows "summary_counts (count_observation ob s) (obs @ [ob])"
  using assms
  by (cases "direction ob")
    (simp_all add: summary_counts_def count_observation_def count_backend_def backend_counts_def
      reads_of_def writes_of_def Let_def)

lemma count_observation_start [simp]: "sm_start (count_observation ob s) = sm_start s"
  by (simp add: count_observation_def Let_def split: TransferDirection.split)

text \<open>Reads and writes, and the backends, make up the whole.\<close>

lemma length_reads_writes: "length (reads_of obs) + length (writes_of obs) = length obs"
  by (induction obs) (auto simp: reads_of_def writes_of_def, metis TransferDirection.exhaust)

lemma sum_reads_writes:
  "sum_list (map f (reads_of obs)) + sum_list (map f (writes_of obs)) = (sum_list (map f obs) :: 'a :: comm_monoid_add)"
proof (induction obs)
  case (Cons ob obs)
  then show ?case by (cases "direction ob") (simp_all add: reads_of_def writes_of_def ac_simps)
qed (simp add: reads_of_def writes_of_def)

lemma sum_backends:
  "(\<Sum>b\<leftarrow>all_backends. sum_list (map f (filter (\<lambda>ob. backend ob = b) obs))) = (sum_list (map f obs) :: 'a :: comm_monoid_add)"
proof (induction obs)
  case (Cons ob obs)
  then show ?case by (cases "backend ob") (simp_all add: all_backends_def ac_simps)
qed (simp add: all_backends_def)

lemma of_nat_length_sum: "of_nat (length xs) = (sum_list (map (\<lambda>_. 1) xs) :: 'a :: comm_semiring_1)"
  by (induction xs) simp_all

lemma length_backends:
  "(\<Sum>b\<leftarrow>all_backends. of_nat (length (filter P (filter (\<lambda>ob. backend ob = b) obs))))
     = (of_nat (length (filter P obs)) :: 64 word)"
  using sum_backends [of "\<lambda>_. 1 :: 64 word" "filter P obs"]
  by (simp add: of_nat_length_sum conj_commute)

lemma summary_counts_parts:
  assumes "summary_counts s obs"
  shows "sm_num_ops s = sm_num_reads s + sm_num_writes s"
    and "sm_bytes_transferred s = sm_bytes_read s + sm_bytes_written s"
    and "(\<Sum>b\<leftarrow>all_backends. be_num_ops (by_backend s b)) = sm_num_ops s"
    and "(\<Sum>b\<leftarrow>all_backends. be_bytes_transferred (by_backend s b)) = sm_bytes_transferred s"
    and "(\<Sum>b\<leftarrow>all_backends. be_total_duration (by_backend s b)) = sm_total_duration s"
    and "(\<Sum>b\<leftarrow>all_backends. be_num_errors (by_backend s b)) = sm_num_errors s"
proof -
  show "sm_num_ops s = sm_num_reads s + sm_num_writes s"
    using assms length_reads_writes [of obs] by (simp add: summary_counts_def) (metis of_nat_add)
  show "sm_bytes_transferred s = sm_bytes_read s + sm_bytes_written s"
    using assms sum_reads_writes [of bytes_transferred obs] by (simp add: summary_counts_def)
  show "(\<Sum>b\<leftarrow>all_backends. be_num_ops (by_backend s b)) = sm_num_ops s"
    using assms length_backends [of "\<lambda>_. True" obs] by (simp add: summary_counts_def backend_counts_def)
  show "(\<Sum>b\<leftarrow>all_backends. be_bytes_transferred (by_backend s b)) = sm_bytes_transferred s"
    using assms sum_backends [of bytes_transferred obs] by (simp add: summary_counts_def backend_counts_def)
  show "(\<Sum>b\<leftarrow>all_backends. be_total_duration (by_backend s b)) = sm_total_duration s"
    using assms sum_backends [of duration obs] by (simp add: summary_counts_def backend_counts_def)
  show "(\<Sum>b\<leftarrow>all_backends. be_num_errors (by_backend s b)) = sm_num_errors s"
    using assms length_backends [of "\<lambda>ob. \<not> ok ob" obs] by (simp add: summary_counts_def backend_counts_def)
qed

section \<open>The invariant\<close>

text \<open>
  A stopped monitor measures up to the stop. A reset after that leaves an empty span, whose origin
  is past its end.
\<close>

definition idle_tracker :: "int \<Rightarrow> BusyTracker \<Rightarrow> bool" where
  "idle_tracker t b \<longleftrightarrow> closed_busy b = 0 \<and> emitted_busy b = 0 \<and> busy_since b = t"

definition span_inv :: "SummaryMonitor \<Rightarrow> int \<Rightarrow> bool" where
  "span_inv m t \<longleftrightarrow>
     (let t0 = sm_start (totals m); te = stopped_end m
      in if te = 0 then busy_inv t0 t (busy m)
         else registration m = 0 \<and> 0 < te \<and> te \<le> t \<and>
              (busy_inv t0 te (busy m) \<or> te \<le> t0 \<and> idle_tracker t0 (busy m)))"

definition counted_in :: "SummaryMonitor \<Rightarrow> Observation list \<Rightarrow> Observation list" where
  "counted_in m obs = filter (\<lambda>ob. sm_start (totals m) \<le> ob_start ob) obs"

definition monitor_inv :: "SummaryMonitor \<Rightarrow> int \<Rightarrow> Observation list \<Rightarrow> bool" where
  "monitor_inv m t obs \<longleftrightarrow>
     0 < t \<and> registered m \<le> sm_start (totals m) \<and> sm_start (totals m) \<le> t \<and> span_inv m t \<and>
     summary_counts (totals m) (counted_in m obs)"

lemma span_inv_later: "span_inv m t \<Longrightarrow> t \<le> t' \<Longrightarrow> span_inv m t'"
  by (auto simp: span_inv_def Let_def dest: busy_inv_later)

lemma registered_running: "span_inv m t \<Longrightarrow> registration m \<noteq> 0 \<Longrightarrow> stopped_end m = 0"
  by (auto simp: span_inv_def Let_def split: if_splits)

lemma monitor_inv_later: "monitor_inv m t obs \<Longrightarrow> t \<le> t' \<Longrightarrow> monitor_inv m t' obs"
  by (auto simp: monitor_inv_def intro: span_inv_later)

lemma monitor_inv_construct:
  assumes "register_summary self kind reg = Inr (reg', m)" "0 < t"
  shows "monitor_inv (stamp_span t an kind counters m) t []"
proof -
  obtain i where m: "m = blank_monitor\<lparr>registration := i\<rparr>"
    using assms(1) by (auto simp: register_summary_def bind_res_Inr_iff)
  have "busy_inv t t (busy_reset t new_tracker)" using assms(2) by (intro busy_inv_reset) simp
  then show ?thesis
    using assms(2) summary_counts_zero [where t = t and an = an and k = "kind_code kind"]
    by (simp add: monitor_inv_def span_inv_def counted_in_def m stamp_span_def blank_monitor_def Let_def)
qed

lemma monitor_inv_start:
  assumes "monitor_inv m t obs" "registration m \<noteq> 0"
  shows "monitor_inv (summary_on_start ob m) t obs"
proof -
  have "stopped_end m = 0" using assms registered_running by (auto simp: monitor_inv_def)
  with assms(1) show ?thesis
    by (simp add: monitor_inv_def span_inv_def counted_in_def summary_on_start_def Let_def busy_inv_start)
qed

lemma monitor_inv_finish:
  assumes inv: "monitor_inv m t obs" and reg: "registration m \<noteq> 0" and e: "ob_end ob \<le> t"
  shows "monitor_inv (summary_on_finish ob m) t (obs @ [ob])"
proof -
  have run: "stopped_end m = 0" using inv reg registered_running by (auto simp: monitor_inv_def)
  then have b: "busy_inv (sm_start (totals m)) t (busy_on_finish (ob_end ob) (busy m))"
    using inv e by (intro busy_inv_finish) (auto simp: monitor_inv_def span_inv_def Let_def)
  have counts: "summary_counts (totals m) (counted_in m obs)" using inv by (simp add: monitor_inv_def)
  show ?thesis
    using inv run b counts summary_counts_observation [OF counts, of ob]
    by (auto simp: monitor_inv_def span_inv_def counted_in_def summary_on_finish_def Let_def)
qed

lemma idle_read:
  assumes "idle_tracker t0 b" "now \<le> t0"
  shows "fst (busy_read now b) = 0" "idle_tracker t0 (snd (busy_read now b))"
  using assms by (simp_all add: idle_tracker_def busy_read_def Let_def)

lemma monitor_inv_get:
  assumes "monitor_inv m t obs"
  shows "monitor_inv (snd (summary_get t current m)) t obs"
proof -
  let ?e = "if stopped_end m \<noteq> 0 then stopped_end m else t"
  have snd: "snd (summary_get t current m) = m\<lparr>busy := snd (busy_read ?e (busy m))\<rparr>"
    by (simp add: summary_get_def Let_def split: prod.split)
  have "span_inv (m\<lparr>busy := snd (busy_read ?e (busy m))\<rparr>) t"
    using assms by (auto simp: monitor_inv_def span_inv_def Let_def busy_inv_read(1) idle_read(2) split: if_splits)
  with assms show ?thesis unfolding snd by (simp add: monitor_inv_def counted_in_def)
qed

lemma monitor_inv_reset:
  assumes "monitor_inv m t obs"
  shows "monitor_inv (summary_reset t current m) t []"
proof -
  have "busy_inv t t (busy_reset t (busy m))"
    using assms by (intro busy_inv_reset) (simp add: monitor_inv_def)
  moreover have "idle_tracker t (busy_reset t (busy m))" by (simp add: idle_tracker_def busy_reset_def)
  ultimately show ?thesis
    using assms summary_counts_zero
    by (auto simp: monitor_inv_def span_inv_def counted_in_def summary_reset_def Let_def)
qed

lemma monitor_inv_stop:
  assumes "monitor_inv m t obs" "summary_stop t final reg m = Inr (reg', m')"
  shows "monitor_inv m' t obs"
proof (cases "registration m = 0")
  case True
  with assms show ?thesis by (simp add: summary_stop_def)
next
  case False
  then have m': "m' = m\<lparr>registration := 0, counters_at_stop := final, stopped_end := t\<rparr>"
    using assms(2) by (auto simp: summary_stop_def bind_res_Inr_iff)
  have "stopped_end m = 0" using assms(1) False registered_running by (auto simp: monitor_inv_def)
  with assms(1) show ?thesis by (simp add: m' monitor_inv_def span_inv_def counted_in_def Let_def)
qed

lemma monitor_inv_run: "monitor_run m t obs \<Longrightarrow> monitor_inv m t obs"
proof (induction rule: monitor_run.induct)
  case (start m t obs t' ob)
  from monitor_inv_later [OF start.IH start.hyps(3)] start.hyps(2) show ?case by (rule monitor_inv_start)
next
  case (finish m t obs t' ob)
  from monitor_inv_later [OF finish.IH finish.hyps(3)] finish.hyps(2,4) show ?case by (rule monitor_inv_finish)
next
  case (get m t obs t' current)
  from monitor_inv_later [OF get.IH get.hyps(2)] show ?case by (rule monitor_inv_get)
next
  case (reset m t obs t' current)
  from monitor_inv_later [OF reset.IH reset.hyps(2)] show ?case by (rule monitor_inv_reset)
next
  case (stop m t obs t' final reg reg' m')
  from monitor_inv_later [OF stop.IH stop.hyps(2)] stop.hyps(3) show ?case by (rule monitor_inv_stop)
qed (rule monitor_inv_construct)

section \<open>What a reading shows\<close>

text \<open>
  C26. A reading of a summary monitor is sound, however the callbacks of several threads, readings,
  resets and the stop are interleaved and however late a report is delivered: the busy time is
  never negative and never exceeds the wall time of the span; the totals are those of the
  operations that began in the span and have reported their completion; reads and writes add up to
  the operations and to the bytes, and so do the totals of the backends.
\<close>

theorem reading_is_sound:
  assumes "monitor_run m t obs" and "t \<le> now" and "(s, m') = summary_get now current m"
  shows "0 \<le> sm_busy s \<and> sm_busy s \<le> wall s
    \<and> summary_counts s (filter (\<lambda>ob. sm_start s \<le> ob_start ob) obs)
    \<and> sm_num_ops s = sm_num_reads s + sm_num_writes s
    \<and> sm_bytes_transferred s = sm_bytes_read s + sm_bytes_written s
    \<and> (\<Sum>b\<leftarrow>all_backends. be_num_ops (by_backend s b)) = sm_num_ops s
    \<and> (\<Sum>b\<leftarrow>all_backends. be_bytes_transferred (by_backend s b)) = sm_bytes_transferred s
    \<and> (\<Sum>b\<leftarrow>all_backends. be_total_duration (by_backend s b)) = sm_total_duration s
    \<and> (\<Sum>b\<leftarrow>all_backends. be_num_errors (by_backend s b)) = sm_num_errors s"
proof -
  let ?e = "if stopped_end m \<noteq> 0 then stopped_end m else now"
  have inv: "monitor_inv m now obs" by (rule monitor_inv_later [OF monitor_inv_run [OF assms(1)] assms(2)])
  have s: "sm_busy s = fst (busy_read ?e (busy m))" "sm_end s = ?e" "sm_start s = sm_start (totals m)"
    using assms(3) by (auto simp: summary_get_def Let_def split: prod.splits)
  have "0 \<le> sm_busy s \<and> sm_busy s \<le> wall s"
  proof (cases "busy_inv (sm_start (totals m)) ?e (busy m)")
    case True
    then show ?thesis using busy_inv_read(2,3) [OF True] by (auto simp: s wall_def)
  next
    case False
    then have "?e \<le> sm_start (totals m)" "idle_tracker (sm_start (totals m)) (busy m)"
      using inv by (auto simp: monitor_inv_def span_inv_def Let_def split: if_splits)
    then show ?thesis unfolding s wall_def by (simp add: idle_read)
  qed
  moreover have counts: "summary_counts s (filter (\<lambda>ob. sm_start s \<le> ob_start ob) obs)"
    using inv assms(3)
    by (auto simp: monitor_inv_def counted_in_def summary_counts_def summary_get_def Let_def split: prod.splits)
  ultimately show ?thesis using summary_counts_parts [OF counts] by auto
qed

text \<open>A read of 100 bytes from 12 to 15, read at 20, on a monitor whose span began at 10.\<close>

definition demo_read :: Observation where
  "demo_read = blank_observation\<lparr>ob_start := 12, ob_end := 15, ob_size := 128, bytes_transferred := 100\<rparr>"

theorem reading_is_sound_witness:
  "\<exists>m. monitor_run m 15 [demo_read] \<and>
     sm_busy (fst (summary_get 20 zero_counters m)) = 3 \<and> wall (fst (summary_get 20 zero_counters m)) = 10 \<and>
     sm_busy (fst (summary_get 20 zero_counters m)) \<le> wall (fst (summary_get 20 zero_counters m)) \<and>
     sm_num_ops (fst (summary_get 20 zero_counters m)) = 1"
proof -
  let ?m0 = "blank_monitor\<lparr>registration := 1\<rparr>"
  let ?m1 = "stamp_span 10 \<lparr>an_steady = 10, an_wall = 0\<rparr> LOGICAL zero_counters ?m0"
  let ?m3 = "summary_on_finish demo_read (summary_on_start demo_read ?m1)"
  obtain reg1 where "add_monitor 5 LOGICAL empty_registry = Inr (reg1, 1)"
    by (simp add: add_monitor_def empty_registry_def res_simps Let_def)
  then have "register_summary 5 LOGICAL empty_registry = Inr (reg1, ?m0)" by (simp add: register_summary_def)
  then have "monitor_run ?m1 10 []" by (rule monitor_run.construct) simp
  then have "monitor_run (summary_on_start demo_read ?m1) 13 []"
    by (rule monitor_run.start) (simp_all add: stamp_span_def demo_read_def)
  then have "monitor_run ?m3 15 ([] @ [demo_read])"
    by (rule monitor_run.finish) (simp_all add: stamp_span_def demo_read_def summary_on_start_def)
  then have run: "monitor_run ?m3 15 [demo_read]" by simp
  have read: "sm_busy (fst (summary_get 20 zero_counters ?m3)) = 3"
    "wall (fst (summary_get 20 zero_counters ?m3)) = 10" "sm_num_ops (fst (summary_get 20 zero_counters ?m3)) = 1"
    by (simp_all add: stamp_span_def demo_read_def blank_observation_def summary_on_start_def summary_on_finish_def
        blank_monitor_def zero_summary_def busy_defs new_tracker_def summary_get_def wall_def count_observation_def Let_def)
  have "sm_busy (fst (summary_get 20 zero_counters ?m3)) \<le> wall (fst (summary_get 20 zero_counters ?m3))"
    using reading_is_sound [OF run, of 20 "fst (summary_get 20 zero_counters ?m3)"
        "snd (summary_get 20 zero_counters ?m3)" zero_counters] by simp
  with run read show ?thesis by blast
qed

end
