(* ===== verification/Url.thy ===== *)
theory Url
  imports Text_Format
begin

text \<open>
  URLs: \<open>cpp/src/detail/url.cpp\<close> and its header. Parsing is libcurl's; a record of the two calls the
  code makes stands for it, with a handle type of its own. Percent-encoding of a path and putting
  the components of a URL back together are the library's own. Characters are bytes.
\<close>

section \<open>Components\<close>

record UrlComponents =
  scheme :: "string option"
  host :: "string option"
  port :: "string option"
  path :: "string option"
  query :: "string option"
  fragment :: "string option"

datatype CURLUPart =
  CURLUPART_URL | CURLUPART_SCHEME | CURLUPART_HOST | CURLUPART_PORT | CURLUPART_PATH | CURLUPART_QUERY | CURLUPART_FRAGMENT

datatype CURLUcode =
    CURLUE_OK
  | CURLUE_NO_SCHEME
  | CURLUE_NO_HOST
  | CURLUE_NO_PORT
  | CURLUE_NO_QUERY
  | CURLUE_NO_FRAGMENT
  | CURLUE_OTHER nat

text \<open>\<open>curl_url_set\<close> on a fresh handle, and \<open>curl_url_get\<close>, with their flags.\<close>

record 'h url_api =
  url_set :: "string \<Rightarrow> nat \<Rightarrow> CURLUcode \<times> 'h"
  url_get :: "'h \<Rightarrow> CURLUPart \<Rightarrow> nat \<Rightarrow> CURLUcode \<times> string option"

definition check_curl_url_err :: "CURLUcode \<Rightarrow> unit res" where
  "check_curl_url_err code = (if code = CURLUE_OK then Inr () else Inl Runtime_Error)"

definition extract_from_handle ::
  "'h url_api \<Rightarrow> 'h \<Rightarrow> CURLUPart \<Rightarrow> nat option \<Rightarrow> CURLUcode option \<Rightarrow> string option res"
where
  "extract_from_handle api h part flags allowed =
     (case url_get api h part (case flags of None \<Rightarrow> 0 | Some f \<Rightarrow> f) of
        (code, got) \<Rightarrow>
          if code = CURLUE_OK \<and> got \<noteq> None then Inr got
          else if allowed = Some code then Inr None
          else bind_res (check_curl_url_err code) (\<lambda>_. Inr None))"

definition set_url :: "'h url_api \<Rightarrow> string \<Rightarrow> nat option \<Rightarrow> 'h res" where
  "set_url api url flags =
     (case url_set api url (case flags of None \<Rightarrow> 0 | Some f \<Rightarrow> f) of
        (code, h) \<Rightarrow> bind_res (check_curl_url_err code) (\<lambda>_. Inr h))"

definition extract_component ::
  "'h url_api \<Rightarrow> string \<Rightarrow> CURLUPart \<Rightarrow> nat option \<Rightarrow> nat option \<Rightarrow> CURLUcode option \<Rightarrow> string option res"
where
  "extract_component api url part url_flags flags allowed =
     bind_res (set_url api url url_flags) (\<lambda>h. extract_from_handle api h part flags allowed)"

definition parse_url :: "'h url_api \<Rightarrow> string \<Rightarrow> nat option \<Rightarrow> nat option \<Rightarrow> UrlComponents res" where
  "parse_url api url url_flags flags =
     bind_res (set_url api url url_flags) (\<lambda>h.
     bind_res (extract_from_handle api h CURLUPART_SCHEME flags (Some CURLUE_NO_SCHEME)) (\<lambda>s.
     bind_res (extract_from_handle api h CURLUPART_HOST flags (Some CURLUE_NO_HOST)) (\<lambda>ho.
     bind_res (extract_from_handle api h CURLUPART_PORT flags (Some CURLUE_NO_PORT)) (\<lambda>po.
     bind_res (extract_from_handle api h CURLUPART_PATH flags None) (\<lambda>pa.
     bind_res (extract_from_handle api h CURLUPART_QUERY flags (Some CURLUE_NO_QUERY)) (\<lambda>q.
     bind_res (extract_from_handle api h CURLUPART_FRAGMENT flags (Some CURLUE_NO_FRAGMENT)) (\<lambda>f.
       Inr \<lparr>scheme = s, host = ho, port = po, path = pa, query = q, fragment = f\<rparr>)))))))"

text \<open>\<open>UrlBuilder::build_manually\<close>\<close>

definition opt_text :: "string \<Rightarrow> string option \<Rightarrow> string \<Rightarrow> string" where
  "opt_text before part after = (case part of None \<Rightarrow> [] | Some t \<Rightarrow> before @ t @ after)"

definition build_manually :: "UrlComponents \<Rightarrow> string" where
  "build_manually c =
     opt_text '''' (scheme c) ''://'' @ opt_text '''' (host c) '''' @ opt_text '':'' (port c) '''' @
     opt_text '''' (path c) '''' @ opt_text ''?'' (query c) '''' @ opt_text ''#'' (fragment c) ''''"

section \<open>Percent-encoding\<close>

definition aws_special_chars :: string where
  "aws_special_chars = ''!*'' @ [char_of (39 :: nat)] @ ''()&$@=;:+ ,?'' @ map char_of [0 ..< 32 :: nat] @ [char_of (127 :: nat)]"

definition num_to_chars :: string where
  "num_to_chars = ''0123456789ABCDEF''"

text \<open>An entry of the table as the string it is read as, up to its terminating zero.\<close>

definition encoding_table :: "nat \<Rightarrow> string" where
  "encoding_table idx = (if idx < 128 then [CHR ''%'', num_to_chars ! (idx div 16), num_to_chars ! (idx mod 16)] else [])"

definition encode_path :: "string \<Rightarrow> string \<Rightarrow> string" where
  "encode_path p chars_to_encode =
     concat (map (\<lambda>c. if c \<in> set chars_to_encode then encoding_table (of_char c) else [c]) p)"

text \<open>What a server does with a path: every \<open>%XX\<close> is the byte of that number.\<close>

definition hex_val :: "char \<Rightarrow> nat" where
  "hex_val c = (if is_digit c then of_char c - 48 else of_char c - 55)"

fun percent_decode :: "string \<Rightarrow> string" where
  "percent_decode [] = []"
| "percent_decode (c # cs) =
     (if c = CHR ''%'' then
        (case cs of h # l # rest \<Rightarrow> char_of (16 * hex_val h + hex_val l) # percent_decode rest
         | _ \<Rightarrow> c # percent_decode cs)
      else c # percent_decode cs)"

lemma hex_val_num_to_chars: "d < 16 \<Longrightarrow> hex_val (num_to_chars ! d) = d"
  by (simp add: num_to_chars_def less_Suc_eq numeral_eq_Suc hex_val_def is_digit_def)
    (elim disjE; simp add: nth_Cons')

lemma decode_encoded_char:
  assumes "(of_char c :: nat) < 128"
  shows "percent_decode (encoding_table (of_char c) @ rest) = c # percent_decode rest"
proof -
  have "16 * ((of_char c :: nat) div 16) + of_char c mod 16 = of_char c" by simp
  moreover have "(of_char c :: nat) div 16 < 16" using assms by simp
  ultimately show ?thesis using assms by (simp add: encoding_table_def hex_val_num_to_chars)
qed

lemma encode_path_decodes:
  assumes "\<forall>c \<in> set chars. (of_char c :: nat) < 128" and "CHR ''%'' \<in> set chars \<or> CHR ''%'' \<notin> set p"
  shows "percent_decode (encode_path p chars) = p"
  using assms(2)
proof (induction p)
  case (Cons c p)
  then have IH: "percent_decode (encode_path p chars) = p" by auto
  show ?case
  proof (cases "c \<in> set chars")
    case True
    then show ?thesis using assms(1) IH decode_encoded_char [of c "encode_path p chars"] by (simp add: encode_path_def)
  next
    case False
    then have "c \<noteq> CHR ''%''" using Cons.prems by auto
    with False IH show ?thesis by (simp add: encode_path_def)
  qed
qed (simp add: encode_path_def)

end
