(* ===== verification/Endpoint.thy ===== *)
theory Endpoint
  imports Url
begin

text \<open>
  Remote endpoints: the endpoint classes, the recognition of URLs and the choice of an endpoint in
  \<open>cpp/src/remote_handle.cpp\<close>, and \<open>cpp/src/hdfs.cpp\<close>. An endpoint is a value of a datatype with one
  constructor for each class. \<open>setopt\<close> and \<open>setup_range_request\<close> fill a record of the libcurl
  options the code sets. The environment is a function from names to values, libcurl's URL parser a
  record of functions. The regular expressions of the code are sequences of classes, each taken once,
  optionally or repeatedly, and a matcher for these is defined here. The size probe of an endpoint,
  which goes over the network, is an argument of the functions that call it.
\<close>

section \<open>Regular expressions of the code\<close>

datatype rx_item = One "char \<Rightarrow> bool" | Opt "char \<Rightarrow> bool" | Many1 "char \<Rightarrow> bool"

fun rx_match :: "rx_item list \<Rightarrow> string \<Rightarrow> bool" where
  "rx_match [] s \<longleftrightarrow> s = []"
| "rx_match (One p # r) s \<longleftrightarrow> (case s of [] \<Rightarrow> False | c # cs \<Rightarrow> p c \<and> rx_match r cs)"
| "rx_match (Opt p # r) s \<longleftrightarrow> rx_match r s \<or> (case s of [] \<Rightarrow> False | c # cs \<Rightarrow> p c \<and> rx_match r cs)"
| "rx_match (Many1 p # r) s \<longleftrightarrow>
     (case s of [] \<Rightarrow> False | c # cs \<Rightarrow> p c \<and> (rx_match r cs \<or> rx_match (Many1 p # r) cs))"

text \<open>A literal, ignoring case; a dot matches anything but the ends of a line.\<close>

definition lit :: "string \<Rightarrow> rx_item list" where
  "lit s = map (\<lambda>c. One (\<lambda>x. ascii_lower x = ascii_lower c)) s"

definition not_char :: "char \<Rightarrow> char \<Rightarrow> bool" where
  "not_char c x \<longleftrightarrow> x \<noteq> c"

definition rx_dot :: "char \<Rightarrow> bool" where
  "rx_dot x \<longleftrightarrow> x \<noteq> CHR 0x0A \<and> x \<noteq> CHR 0x0D"

definition rx_http :: "rx_item list" where
  "rx_http = lit ''http'' @ [Opt (\<lambda>x. ascii_lower x = CHR ''s'')] @ lit ''://''"

definition s3_patterns :: "rx_item list list" where
  "s3_patterns =
    (let bucket = [Many1 (not_char (CHR ''/''))]; region = [Many1 (not_char (CHR ''.''))]; rest = [Many1 rx_dot]
     in [rx_http @ bucket @ lit ''.s3.'' @ region @ lit ''.amazonaws.com/'' @ rest,
         rx_http @ lit ''s3.'' @ region @ lit ''.amazonaws.com/'' @ bucket @ lit ''/'' @ rest,
         rx_http @ bucket @ lit ''.s3.amazonaws.com/'' @ rest,
         rx_http @ lit ''s3.amazonaws.com/'' @ bucket @ lit ''/'' @ rest,
         rx_http @ bucket @ lit ''.s3-'' @ region @ lit ''.amazonaws.com/'' @ rest,
         rx_http @ lit ''s3-'' @ region @ lit ''.amazonaws.com/'' @ bucket @ lit ''/'' @ rest])"

definition url_has_aws_s3_http_format :: "string \<Rightarrow> bool" where
  "url_has_aws_s3_http_format url = list_ex (\<lambda>pattern. rx_match pattern url) s3_patterns"

section \<open>Endpoints\<close>

datatype RemoteEndpointType = AUTO | S3 | S3_PUBLIC | S3_PRESIGNED_URL | WEBHDFS | HTTP

datatype RemoteEndpoint =
    HttpEndpoint string
  | S3Endpoint string string string "string option"
  | S3PublicEndpoint string
  | S3EndpointWithPresignedUrl string
  | WebHdfsEndpoint string "string option"

fun remote_endpoint_type :: "RemoteEndpoint \<Rightarrow> RemoteEndpointType" where
  "remote_endpoint_type (HttpEndpoint _) = HTTP"
| "remote_endpoint_type (S3Endpoint _ _ _ _) = S3"
| "remote_endpoint_type (S3PublicEndpoint _) = S3_PUBLIC"
| "remote_endpoint_type (S3EndpointWithPresignedUrl _) = S3_PRESIGNED_URL"
| "remote_endpoint_type (WebHdfsEndpoint _ _) = WEBHDFS"

fun endpoint_str :: "RemoteEndpoint \<Rightarrow> string" where
  "endpoint_str (HttpEndpoint u) = u"
| "endpoint_str (S3Endpoint u _ _ _) = u"
| "endpoint_str (S3PublicEndpoint u) = u"
| "endpoint_str (S3EndpointWithPresignedUrl u) = u"
| "endpoint_str (WebHdfsEndpoint u _) = u"

text \<open>The libcurl options of a handle that the endpoints set.\<close>

record CurlOptions =
  opt_url :: string
  opt_range :: "string option"
  opt_nobody :: bool
  opt_followlocation :: bool
  opt_aws_sigv4 :: "string option"
  opt_userpwd :: "string option"
  opt_httpheader :: "string option"

definition create_curl_handle :: CurlOptions where
  "create_curl_handle =
     \<lparr>opt_url = [], opt_range = None, opt_nobody = False, opt_followlocation = False, opt_aws_sigv4 = None,
      opt_userpwd = None, opt_httpheader = None\<rparr>"

definition encode_special_chars_in_path :: "'h url_api \<Rightarrow> string \<Rightarrow> string res" where
  "encode_special_chars_in_path api url =
     bind_res (parse_url api url None None) (\<lambda>components.
       case path components of
         None \<Rightarrow> Inl Bad_Optional_Access
       | Some p \<Rightarrow> Inr (build_manually (components\<lparr>path := Some (encode_path p aws_special_chars)\<rparr>)))"

fun endpoint_setopt :: "'h url_api \<Rightarrow> RemoteEndpoint \<Rightarrow> CurlOptions \<Rightarrow> CurlOptions res" where
  "endpoint_setopt api (HttpEndpoint u) opts = Inr (opts\<lparr>opt_url := u\<rparr>)"
| "endpoint_setopt api (S3Endpoint u sigv4 userpwd header) opts =
     bind_res (encode_special_chars_in_path api u) (\<lambda>new_url.
       let o1 = opts\<lparr>opt_url := new_url, opt_aws_sigv4 := Some sigv4, opt_userpwd := Some userpwd\<rparr>
       in Inr (case header of None \<Rightarrow> o1 | Some h \<Rightarrow> o1\<lparr>opt_httpheader := Some h\<rparr>))"
| "endpoint_setopt api (S3PublicEndpoint u) opts =
     bind_res (encode_special_chars_in_path api u) (\<lambda>new_url. Inr (opts\<lparr>opt_url := new_url\<rparr>))"
| "endpoint_setopt api (S3EndpointWithPresignedUrl u) opts = Inr (opts\<lparr>opt_url := u\<rparr>)"
| "endpoint_setopt api (WebHdfsEndpoint u _) opts = Inr (opts\<lparr>opt_url := u, opt_followlocation := True\<rparr>)"

definition setup_range_request_impl :: "size_t \<Rightarrow> size_t \<Rightarrow> CurlOptions \<Rightarrow> CurlOptions res" where
  "setup_range_request_impl file_offset sz opts =
     bind_res (kvikio_expect (sz > 0) Invalid_Argument) (\<lambda>_.
       Inr (opts\<lparr>opt_range := Some (show_nat (unat file_offset) @ ''-'' @ show_nat (unat (file_offset + sz - 1)))\<rparr>))"

definition webhdfs_query :: "string \<Rightarrow> string option \<Rightarrow> string" where
  "webhdfs_query url username =
     url @ ''?'' @ (case username of None \<Rightarrow> [] | Some u \<Rightarrow> ''user.name='' @ u @ ''&'')"

fun setup_range_request :: "RemoteEndpoint \<Rightarrow> size_t \<Rightarrow> size_t \<Rightarrow> CurlOptions \<Rightarrow> CurlOptions res" where
  "setup_range_request (WebHdfsEndpoint u username) file_offset sz opts =
     Inr (opts\<lparr>opt_url := webhdfs_query u username @ ''op=OPEN&offset='' @ show_nat (unat file_offset) @
                 ''&length='' @ show_nat (unat sz)\<rparr>)"
| "setup_range_request ep file_offset sz opts = setup_range_request_impl file_offset sz opts"

section \<open>Construction\<close>

definition unwrap_or_env :: "environment \<Rightarrow> string option \<Rightarrow> string \<Rightarrow> bool \<Rightarrow> string option res" where
  "unwrap_or_env env v env_var required =
     (case v of
        Some x \<Rightarrow> Inr (Some x)
      | None \<Rightarrow> (case env env_var of
                   Some x \<Rightarrow> Inr (Some x)
                 | None \<Rightarrow> if required then Inl Invalid_Argument else Inr None))"

definition env_value :: "environment \<Rightarrow> string option \<Rightarrow> string \<Rightarrow> string res" where
  "env_value env v env_var = bind_res (unwrap_or_env env v env_var True) (\<lambda>x. Inr (the x))"

definition url_from_bucket_and_object ::
  "environment \<Rightarrow> string \<Rightarrow> string \<Rightarrow> string option \<Rightarrow> string option \<Rightarrow> string res"
where
  "url_from_bucket_and_object env bucket object aws_region aws_endpoint_url =
     bind_res (unwrap_or_env env aws_endpoint_url ''AWS_ENDPOINT_URL'' False) (\<lambda>endpoint_url.
       case endpoint_url of
         None \<Rightarrow> bind_res (env_value env aws_region ''AWS_DEFAULT_REGION'') (\<lambda>region.
                  Inr (''https://'' @ bucket @ ''.s3.'' @ region @ ''.amazonaws.com/'' @ object))
       | Some u \<Rightarrow> Inr (u @ ''/'' @ bucket @ ''/'' @ object))"

definition parse_s3_url :: "string \<Rightarrow> (string \<times> string) res" where
  "parse_s3_url s3_url =
     (let rest = drop 5 s3_url; bucket = takeWhile (not_char (CHR ''/'')) rest;
          object = drop (Suc (length bucket)) rest
      in if rx_match (lit ''s3://'' @ [Many1 (not_char (CHR ''/''))] @ lit ''/'' @ [Many1 rx_dot]) s3_url
         then Inr (bucket, object) else Inl Invalid_Argument)"

text \<open>The constructors of \<open>S3Endpoint\<close>; keys that begin with \<open>ASIA\<close> need a session token.\<close>

definition new_s3_endpoint ::
  "environment \<Rightarrow> string \<Rightarrow> string option \<Rightarrow> string option \<Rightarrow> string option \<Rightarrow> string option \<Rightarrow> RemoteEndpoint res"
where
  "new_s3_endpoint env url aws_region aws_access_key aws_secret_access_key aws_session_token =
     bind_res (kvikio_expect (rx_match rx_http (take 7 url) \<or> rx_match rx_http (take 8 url)) Invalid_Argument) (\<lambda>_.
     bind_res (env_value env aws_region ''AWS_DEFAULT_REGION'') (\<lambda>region.
     bind_res (env_value env aws_access_key ''AWS_ACCESS_KEY_ID'') (\<lambda>access_key.
     bind_res (env_value env aws_secret_access_key ''AWS_SECRET_ACCESS_KEY'') (\<lambda>secret.
       let sigv4 = ''aws:amz:'' @ region @ '':s3''; userpwd = access_key @ '':'' @ secret
       in if take 4 access_key = ''ASIA'' then
            bind_res (env_value env aws_session_token ''AWS_SESSION_TOKEN'') (\<lambda>token.
              Inr (S3Endpoint url sigv4 userpwd (Some (''x-amz-security-token: '' @ token))))
          else Inr (S3Endpoint url sigv4 userpwd None)))))"

definition new_s3_endpoint_from_bucket ::
  "environment \<Rightarrow> string \<times> string \<Rightarrow> string option \<Rightarrow> string option \<Rightarrow> string option \<Rightarrow> string option \<Rightarrow>
   string option \<Rightarrow> RemoteEndpoint res"
where
  "new_s3_endpoint_from_bucket env names aws_region aws_access_key aws_secret_access_key aws_endpoint_url aws_session_token =
     bind_res (url_from_bucket_and_object env (fst names) (snd names) aws_region aws_endpoint_url)
       (\<lambda>url. new_s3_endpoint env url aws_region aws_access_key aws_secret_access_key aws_session_token)"

text \<open>The user name in a WebHDFS query; the dot of the pattern stands for any character.\<close>

fun search_username :: "string \<Rightarrow> string option" where
  "search_username [] = None"
| "search_username (c # cs) =
     (let name = takeWhile (not_char (CHR ''&'')) (drop 9 cs)
      in if rx_match (map (\<lambda>x. One ((=) x)) ''user'' @ [One rx_dot] @ map (\<lambda>x. One ((=) x)) ''name='') (take 10 (c # cs))
            \<and> name \<noteq> []
         then Some name else search_username cs)"

definition new_webhdfs_endpoint :: "environment \<Rightarrow> string \<Rightarrow> string option \<Rightarrow> RemoteEndpoint" where
  "new_webhdfs_endpoint env url username =
     (let before = takeWhile (not_char (CHR ''?'')) url;
          found_query = before \<noteq> [] \<and> before \<noteq> url;
          query_text = takeWhile (not_char (CHR ''#'')) (drop (Suc (length before)) url);
          username1 = (if found_query
                       then (case search_username query_text of Some u \<Rightarrow> Some u | None \<Rightarrow> username) else username);
          username2 = (case username1 of Some u \<Rightarrow> Some u | None \<Rightarrow> env ''KVIKIO_WEBHDFS_USERNAME'')
      in WebHdfsEndpoint (if found_query then before else url) username2)"

definition new_webhdfs_endpoint_from_host ::
  "environment \<Rightarrow> string \<Rightarrow> string \<Rightarrow> string \<Rightarrow> string option \<Rightarrow> RemoteEndpoint res"
where
  "new_webhdfs_endpoint_from_host env hostname portname file_path username =
     bind_res (unwrap_or_env env username ''KVIKIO_WEBHDFS_USERNAME'' False) (\<lambda>u.
       Inr (WebHdfsEndpoint (''http://'' @ hostname @ '':'' @ portname @ ''/webhdfs/v1'' @ file_path) u))"

section \<open>Recognition of URLs\<close>

definition CURLU_NON_SUPPORT_SCHEME :: nat where
  "CURLU_NON_SUPPORT_SCHEME = 8"

definition contains_text :: "string \<Rightarrow> string \<Rightarrow> bool" where
  "contains_text needle hay = list_ex (\<lambda>i. take (length needle) (drop i hay) = needle) [0..<Suc (length hay)]"

text \<open>The functions are \<open>noexcept\<close>: whatever the parser throws makes the URL invalid.\<close>

definition presigned_is_url_valid :: "'h url_api \<Rightarrow> string \<Rightarrow> bool" where
  "presigned_is_url_valid api url =
     (if \<not> url_has_aws_s3_http_format url then False
      else case parse_url api url None None of
             Inl _ \<Rightarrow> False
           | Inr u \<Rightarrow> (case query u of
                        None \<Rightarrow> False
                      | Some q \<Rightarrow> contains_text ''X-Amz-Algorithm'' q \<and> contains_text ''X-Amz-Signature'' q))"

definition s3_is_url_valid :: "'h url_api \<Rightarrow> string \<Rightarrow> bool" where
  "s3_is_url_valid api url =
     (case parse_url api url (Some CURLU_NON_SUPPORT_SCHEME) None of
        Inl _ \<Rightarrow> False
      | Inr u \<Rightarrow>
          if scheme u = Some ''s3'' then
            (case (host u, path u) of
               (Some _, Some p) \<Rightarrow> rx_match [One ((=) (CHR ''/'')), Many1 rx_dot] p
             | _ \<Rightarrow> False)
          else if scheme u = Some ''http'' \<or> scheme u = Some ''https'' then
            url_has_aws_s3_http_format url \<and> \<not> presigned_is_url_valid api url
          else False)"

definition s3_public_is_url_valid :: "'h url_api \<Rightarrow> string \<Rightarrow> bool" where
  "s3_public_is_url_valid api url = s3_is_url_valid api url"

definition http_is_url_valid :: "'h url_api \<Rightarrow> string \<Rightarrow> bool" where
  "http_is_url_valid api url =
     (case parse_url api url None None of
        Inl _ \<Rightarrow> False
      | Inr u \<Rightarrow>
          if scheme u \<noteq> Some ''http'' \<and> scheme u \<noteq> Some ''https'' then False
          else (case path u of None \<Rightarrow> False | Some p \<Rightarrow> length p > 1))"

definition webhdfs_is_url_valid :: "string \<Rightarrow> bool" where
  "webhdfs_is_url_valid url =
     rx_match (rx_http @ [Many1 (not_char (CHR ''/''))] @ lit '':'' @ [Many1 is_digit] @ lit ''/webhdfs/v1/'' @ [Many1 rx_dot]) url"

definition is_url_valid :: "'h url_api \<Rightarrow> RemoteEndpointType \<Rightarrow> string \<Rightarrow> bool" where
  "is_url_valid api ty url =
     (case ty of
        S3 \<Rightarrow> s3_is_url_valid api url
      | S3_PUBLIC \<Rightarrow> s3_public_is_url_valid api url
      | S3_PRESIGNED_URL \<Rightarrow> presigned_is_url_valid api url
      | WEBHDFS \<Rightarrow> webhdfs_is_url_valid url
      | HTTP \<Rightarrow> http_is_url_valid api url
      | AUTO \<Rightarrow> False)"

section \<open>Choice of an endpoint\<close>

definition get_default_allow_list :: "RemoteEndpointType list" where
  "get_default_allow_list = [S3, S3_PUBLIC, S3_PRESIGNED_URL, WEBHDFS, HTTP]"

definition create_endpoint_from_type ::
  "'h url_api \<Rightarrow> environment \<Rightarrow> string \<Rightarrow> string \<Rightarrow> RemoteEndpointType \<Rightarrow> RemoteEndpoint option res"
where
  "create_endpoint_from_type api env url sch ty =
     (case ty of
        S3 \<Rightarrow>
          if \<not> s3_is_url_valid api url then Inr None
          else if sch = ''s3'' then
            bind_res (parse_s3_url url) (\<lambda>names.
            bind_res (new_s3_endpoint_from_bucket env names None None None None None) (\<lambda>ep. Inr (Some ep)))
          else bind_res (new_s3_endpoint env url None None None None) (\<lambda>ep. Inr (Some ep))
      | S3_PUBLIC \<Rightarrow> Inr (if \<not> s3_public_is_url_valid api url then None else Some (S3PublicEndpoint url))
      | S3_PRESIGNED_URL \<Rightarrow>
          Inr (if \<not> presigned_is_url_valid api url then None else Some (S3EndpointWithPresignedUrl url))
      | WEBHDFS \<Rightarrow> Inr (if \<not> webhdfs_is_url_valid url then None else Some (new_webhdfs_endpoint env url None))
      | HTTP \<Rightarrow> Inr (if \<not> http_is_url_valid api url then None else Some (HttpEndpoint url))
      | AUTO \<Rightarrow> Inr None)"

text \<open>
  One round of the loop of \<open>infer_endpoint_impl\<close> for a type: \<open>Inr None\<close> is \<open>continue\<close>. \<open>probe\<close> is
  \<open>get_file_size\<close> of the endpoint on a world of type \<open>'w\<close>.
\<close>

definition try_type ::
  "'h url_api \<Rightarrow> environment \<Rightarrow> (RemoteEndpoint \<Rightarrow> 'w \<Rightarrow> size_t res \<times> 'w) \<Rightarrow> string \<Rightarrow> string \<Rightarrow> bool \<Rightarrow> RemoteEndpointType
     \<Rightarrow> 'w \<Rightarrow> (RemoteEndpoint \<times> size_t option) option res \<times> 'w"
where
  "try_type api env probe url sch probe_s3 ty w =
     (case create_endpoint_from_type api env url sch ty of
        Inl e \<Rightarrow> (Inl e, w)
      | Inr None \<Rightarrow> (Inr None, w)
      | Inr (Some ep) \<Rightarrow>
          if probe_s3 \<and> ty = S3 then
            (case probe ep w of
               (Inl e, w1) \<Rightarrow> (Inl e, w1)
             | (Inr n, w1) \<Rightarrow> (Inr (Some (ep, Some n)), w1))
          else (Inr (Some (ep, None)), w))"

fun infer_loop ::
  "'h url_api \<Rightarrow> environment \<Rightarrow> (RemoteEndpoint \<Rightarrow> 'w \<Rightarrow> size_t res \<times> 'w) \<Rightarrow> string \<Rightarrow> string \<Rightarrow> bool
     \<Rightarrow> RemoteEndpointType list \<Rightarrow> RemoteEndpointType list \<Rightarrow> 'w \<Rightarrow> (RemoteEndpoint \<times> size_t option) res \<times> 'w"
where
  "infer_loop api env probe url sch probe_s3 allow_list [] w = (Inl Runtime_Error, w)"
| "infer_loop api env probe url sch probe_s3 allow_list (ty # tys) w =
     (case try_type api env probe url sch probe_s3 ty w of
        (Inr None, w1) \<Rightarrow> infer_loop api env probe url sch probe_s3 allow_list tys w1
      | (Inr (Some r), w1) \<Rightarrow> (Inr r, w1)
      | (Inl e, w1) \<Rightarrow>
          if ty = S3 \<and> S3_PUBLIC \<in> set allow_list then (Inr (S3PublicEndpoint url, None), w1) else (Inl e, w1))"

definition infer_endpoint_impl ::
  "'h url_api \<Rightarrow> environment \<Rightarrow> (RemoteEndpoint \<Rightarrow> 'w \<Rightarrow> size_t res \<times> 'w) \<Rightarrow> string \<Rightarrow> RemoteEndpointType list \<Rightarrow> bool
     \<Rightarrow> 'w \<Rightarrow> (RemoteEndpoint \<times> size_t option) res \<times> 'w"
where
  "infer_endpoint_impl api env probe url allow_list probe_s3 w =
     (case extract_component api url CURLUPART_SCHEME (Some CURLU_NON_SUPPORT_SCHEME) None None of
        Inl e \<Rightarrow> (Inl e, w)
      | Inr None \<Rightarrow> (Inl CUfile_Exception, w)
      | Inr (Some sch) \<Rightarrow> infer_loop api env probe url sch probe_s3 allow_list allow_list w)"

definition infer_remote_endpoint_type ::
  "'h url_api \<Rightarrow> environment \<Rightarrow> (RemoteEndpoint \<Rightarrow> 'w \<Rightarrow> size_t res \<times> 'w) \<Rightarrow> string \<Rightarrow> 'w
     \<Rightarrow> RemoteEndpointType res \<times> 'w"
where
  "infer_remote_endpoint_type api env probe url w =
     (case infer_endpoint_impl api env probe url get_default_allow_list False w of
        (Inl e, w1) \<Rightarrow> (Inl e, w1)
      | (Inr (ep, _), w1) \<Rightarrow> (Inr (remote_endpoint_type ep), w1))"

record RemoteHandle =
  rh_endpoint :: RemoteEndpoint
  rh_nbytes :: size_t
  rh_source :: string

definition new_remote_handle :: "RemoteEndpoint \<Rightarrow> size_t \<Rightarrow> RemoteHandle" where
  "new_remote_handle ep n = \<lparr>rh_endpoint = ep, rh_nbytes = n, rh_source = endpoint_str ep\<rparr>"

text \<open>The constructor without a size asks the endpoint.\<close>

definition new_remote_handle_probed ::
  "(RemoteEndpoint \<Rightarrow> 'w \<Rightarrow> size_t res \<times> 'w) \<Rightarrow> RemoteEndpoint \<Rightarrow> 'w \<Rightarrow> RemoteHandle res \<times> 'w"
where
  "new_remote_handle_probed probe ep w =
     (case probe ep w of
        (Inl e, w1) \<Rightarrow> (Inl e, w1)
      | (Inr n, w1) \<Rightarrow> (Inr (new_remote_handle ep n), w1))"

definition choose_endpoint ::
  "'h url_api \<Rightarrow> environment \<Rightarrow> (RemoteEndpoint \<Rightarrow> 'w \<Rightarrow> size_t res \<times> 'w) \<Rightarrow> string \<Rightarrow> RemoteEndpointType
     \<Rightarrow> RemoteEndpointType list \<Rightarrow> 'w \<Rightarrow> (RemoteEndpoint \<times> size_t option) res \<times> 'w"
where
  "choose_endpoint api env probe url ty allow_list w =
     (if ty = AUTO then infer_endpoint_impl api env probe url allow_list True w
      else if ty \<notin> set allow_list then (Inl Runtime_Error, w)
      else case extract_component api url CURLUPART_SCHEME (Some CURLU_NON_SUPPORT_SCHEME) None None of
             Inl e \<Rightarrow> (Inl e, w)
           | Inr None \<Rightarrow> (Inl CUfile_Exception, w)
           | Inr (Some sch) \<Rightarrow>
               (case create_endpoint_from_type api env url sch ty of
                  Inl e \<Rightarrow> (Inl e, w)
                | Inr None \<Rightarrow> (Inl Runtime_Error, w)
                | Inr (Some ep) \<Rightarrow> (Inr (ep, None), w)))"

definition remote_open ::
  "'h url_api \<Rightarrow> environment \<Rightarrow> (RemoteEndpoint \<Rightarrow> 'w \<Rightarrow> size_t res \<times> 'w) \<Rightarrow> string \<Rightarrow> RemoteEndpointType
     \<Rightarrow> RemoteEndpointType list option \<Rightarrow> size_t option \<Rightarrow> 'w \<Rightarrow> RemoteHandle res \<times> 'w"
where
  "remote_open api env probe url ty allow_list nbytes w =
     (let allowed = (case allow_list of None \<Rightarrow> get_default_allow_list | Some l \<Rightarrow> l)
      in case choose_endpoint api env probe url ty allowed w of
           (Inl e, w1) \<Rightarrow> (Inl e, w1)
         | (Inr (ep, probed), w1) \<Rightarrow>
             (case (nbytes, probed) of
                (Some n, _) \<Rightarrow> (Inr (new_remote_handle ep n), w1)
              | (None, Some n) \<Rightarrow> (Inr (new_remote_handle ep n), w1)
              | (None, None) \<Rightarrow> new_remote_handle_probed probe ep w1))"

section \<open>The endpoint that is opened\<close>

lemma new_s3_endpoint_type: "new_s3_endpoint env url a b c d = Inr ep \<Longrightarrow> remote_endpoint_type ep = S3"
  by (auto simp: new_s3_endpoint_def bind_res_Inr_iff Let_def split: if_splits)

lemma create_endpoint_type:
  assumes "create_endpoint_from_type api env url sch ty = Inr (Some ep)"
  shows "remote_endpoint_type ep = ty \<and> is_url_valid api ty url"
  using assms
  by (auto simp: create_endpoint_from_type_def is_url_valid_def bind_res_Inr_iff new_s3_endpoint_type
      new_s3_endpoint_from_bucket_def new_webhdfs_endpoint_def Let_def split: RemoteEndpointType.splits if_splits)

lemma create_endpoint_throws:
  "create_endpoint_from_type api env url sch ty = Inl e \<Longrightarrow> ty = S3 \<and> s3_is_url_valid api url"
  by (auto simp: create_endpoint_from_type_def split: RemoteEndpointType.splits if_splits)

lemma try_type_Some:
  "try_type api env probe url sch probe_s3 ty w = (Inr (Some (ep, n)), w1) \<Longrightarrow>
     create_endpoint_from_type api env url sch ty = Inr (Some ep)"
  by (auto simp: try_type_def split: sum.splits option.splits if_splits prod.splits)

lemma try_type_throws:
  assumes "try_type api env probe url sch probe_s3 ty w = (Inl e, w1)"
  shows "ty = S3 \<and> s3_is_url_valid api url"
proof (cases "create_endpoint_from_type api env url sch ty")
  case (Inl x)
  then show ?thesis by (rule create_endpoint_throws)
next
  case (Inr r)
  with assms obtain ep where "r = Some ep" "ty = S3"
    by (auto simp: try_type_def split: option.splits if_splits)
  with Inr create_endpoint_type [of api env url sch S3 ep] show ?thesis by (simp add: is_url_valid_def)
qed

lemma infer_loop_type:
  assumes "infer_loop api env probe url sch probe_s3 allow tys w = (Inr (ep, n), w1)" "set tys \<subseteq> set allow"
  shows "remote_endpoint_type ep \<in> set allow \<and> is_url_valid api (remote_endpoint_type ep) url"
  using assms
proof (induction tys arbitrary: w)
  case (Cons ty tys)
  obtain r w2 where t: "try_type api env probe url sch probe_s3 ty w = (r, w2)" by (cases "try_type api env probe url sch probe_s3 ty w")
  show ?case
  proof (cases r)
    case (Inl e)
    with t Cons.prems have "ep = S3PublicEndpoint url" "S3_PUBLIC \<in> set allow" by (auto split: if_splits)
    moreover have "s3_is_url_valid api url" using try_type_throws [OF t [unfolded Inl]] by simp
    ultimately show ?thesis by (simp add: is_url_valid_def s3_public_is_url_valid_def)
  next
    case (Inr o1)
    show ?thesis
    proof (cases o1)
      case None
      with Inr t Cons show ?thesis by simp
    next
      case (Some p)
      with Inr t Cons.prems(1) have "try_type api env probe url sch probe_s3 ty w = (Inr (Some (ep, n)), w2)" by simp
      then have "remote_endpoint_type ep = ty \<and> is_url_valid api ty url"
        by (intro create_endpoint_type try_type_Some)
      with Cons.prems(2) show ?thesis by auto
    qed
  qed
qed simp

text \<open>
  C14. Opening a URL respects the caller's choice: the endpoint that is opened has the type that was
  asked for, or, in automatic mode, one of the allowed types, also when the attempt with S3
  credentials failed and the public endpoint replaces it; its URL passed the check of that type;
  and the size is the caller's if one was given.
\<close>

theorem open_respects_allow_list:
  assumes "remote_open api env probe url ty allow_list nbytes w = (Inr h, w')"
  shows "remote_endpoint_type (rh_endpoint h) \<in> set (case allow_list of None \<Rightarrow> get_default_allow_list | Some l \<Rightarrow> l)
    \<and> (if ty = AUTO then True else remote_endpoint_type (rh_endpoint h) = ty)
    \<and> is_url_valid api (remote_endpoint_type (rh_endpoint h)) url
    \<and> (case nbytes of None \<Rightarrow> True | Some n \<Rightarrow> rh_nbytes h = n)"
proof -
  let ?allowed = "case allow_list of None \<Rightarrow> get_default_allow_list | Some l \<Rightarrow> l"
  obtain ep n w1 where c: "choose_endpoint api env probe url ty ?allowed w = (Inr (ep, n), w1)"
    using assms by (auto simp: remote_open_def Let_def split: prod.splits sum.splits)
  have h: "rh_endpoint h = ep \<and> (case nbytes of None \<Rightarrow> True | Some n \<Rightarrow> rh_nbytes h = n)"
    using assms c
    by (auto simp: remote_open_def new_remote_handle_def new_remote_handle_probed_def
        split: option.splits prod.splits sum.splits)
  have "remote_endpoint_type ep \<in> set ?allowed \<and> is_url_valid api (remote_endpoint_type ep) url
      \<and> (if ty = AUTO then True else remote_endpoint_type ep = ty)"
  proof (cases "ty = AUTO")
    case True
    with c obtain sch where "infer_loop api env probe url sch True ?allowed ?allowed w = (Inr (ep, n), w1)"
      by (auto simp: choose_endpoint_def infer_endpoint_impl_def split: sum.splits option.splits)
    with True infer_loop_type show ?thesis by fastforce
  next
    case False
    with c obtain sch where "create_endpoint_from_type api env url sch ty = Inr (Some ep)" "ty \<in> set ?allowed"
      by (auto simp: choose_endpoint_def split: sum.splits option.splits if_splits)
    with False create_endpoint_type [of api env url sch ty ep] show ?thesis by auto
  qed
  with h show ?thesis by simp
qed

text \<open>A parser for one URL: the scheme and the path are fixed, the other components are absent.\<close>

definition demo_url_api :: "string \<Rightarrow> string \<Rightarrow> unit url_api" where
  "demo_url_api sch p =
     \<lparr>url_set = (\<lambda>_ _. (CURLUE_OK, ())),
      url_get = (\<lambda>_ part _. case part of
         CURLUPART_SCHEME \<Rightarrow> (CURLUE_OK, Some sch)
       | CURLUPART_HOST \<Rightarrow> (CURLUE_OK, Some ''h'')
       | CURLUPART_PORT \<Rightarrow> (CURLUE_NO_PORT, None)
       | CURLUPART_PATH \<Rightarrow> (CURLUE_OK, Some p)
       | CURLUPART_QUERY \<Rightarrow> (CURLUE_NO_QUERY, None)
       | CURLUPART_FRAGMENT \<Rightarrow> (CURLUE_NO_FRAGMENT, None))\<rparr>"

lemma demo_parse_url [simp]:
  "parse_url (demo_url_api sch p) url fl cfl =
     Inr \<lparr>scheme = Some sch, host = Some ''h'', port = None, path = Some p, query = None, fragment = None\<rparr>"
  by (simp add: parse_url_def set_url_def extract_from_handle_def demo_url_api_def check_curl_url_err_def)

lemma demo_extract_scheme [simp]:
  "extract_component (demo_url_api sch p) url CURLUPART_SCHEME fl cfl al = Inr (Some sch)"
  by (simp add: extract_component_def set_url_def extract_from_handle_def demo_url_api_def check_curl_url_err_def)

theorem open_respects_allow_list_witness:
  "remote_open (demo_url_api ''http'' ''/f'') (\<lambda>_. None) (\<lambda>_ w. (Inl Runtime_Error, w)) ''http://h/f'' AUTO
       (Some [WEBHDFS, HTTP]) (Some 7) () = (Inr (new_remote_handle (HttpEndpoint ''http://h/f'') 7), ())
   \<and> remote_endpoint_type (HttpEndpoint ''http://h/f'') \<in> set [WEBHDFS, HTTP]
   \<and> is_url_valid (demo_url_api ''http'' ''/f'') HTTP ''http://h/f''"
proof -
  have nohdfs: "\<not> webhdfs_is_url_valid ''http://h/f''" by code_simp
  have "remote_open (demo_url_api ''http'' ''/f'') (\<lambda>_. None) (\<lambda>_ w. (Inl Runtime_Error, w)) ''http://h/f'' AUTO
      (Some [WEBHDFS, HTTP]) (Some 7) () = (Inr (new_remote_handle (HttpEndpoint ''http://h/f'') 7), ())"
    using nohdfs
    by (simp add: remote_open_def choose_endpoint_def infer_endpoint_impl_def try_type_def
        create_endpoint_from_type_def http_is_url_valid_def)
  moreover from open_respects_allow_list [OF this]
  have "remote_endpoint_type (HttpEndpoint ''http://h/f'') \<in> set [WEBHDFS, HTTP]
      \<and> is_url_valid (demo_url_api ''http'' ''/f'') HTTP ''http://h/f''"
    by (simp add: new_remote_handle_def)
  ultimately show ?thesis by blast
qed

text \<open>
  The inference does return the public S3 type: with no credentials in the environment the S3
  endpoint cannot be constructed, and the handler falls back.
\<close>

lemma infer_returns_s3_public:
  "fst (infer_remote_endpoint_type (demo_url_api ''s3'' ''/object'') (\<lambda>_. None) probe ''s3://h/object'' w) = Inr S3_PUBLIC"
proof -
  have "parse_s3_url ''s3://h/object'' = Inr (''h'', ''object'')" by code_simp
  moreover have "rx_match [One ((=) (CHR ''/'')), Many1 rx_dot] ''/object''" by code_simp
  ultimately have "create_endpoint_from_type (demo_url_api ''s3'' ''/object'') (\<lambda>_. None) ''s3://h/object'' ''s3'' S3
      = Inl Invalid_Argument"
    by (simp add: create_endpoint_from_type_def s3_is_url_valid_def new_s3_endpoint_from_bucket_def
        url_from_bucket_and_object_def unwrap_or_env_def env_value_def)
  then show ?thesis
    by (simp add: infer_remote_endpoint_type_def infer_endpoint_impl_def get_default_allow_list_def try_type_def)
qed

text \<open>
  The public endpoint keeps the \<open>s3://\<close> URL it was given. A parser that refuses unknown schemes
  unless it is told to accept them, as libcurl's does, then refuses it whenever options are set.
\<close>

lemma s3_public_scheme_refused:
  assumes "set_url api url None = Inl Runtime_Error"
  shows "endpoint_setopt api (S3PublicEndpoint url) opts = Inl Runtime_Error"
  using assms by (simp add: encode_special_chars_in_path_def parse_url_def)

section \<open>The range of a request\<close>

text \<open>A \<open>Range\<close> value \<open>first-last\<close> read back, as a server does.\<close>

definition parse_range :: "string \<Rightarrow> (nat \<times> nat) option" where
  "parse_range s =
     (case scan_nat s of
        None \<Rightarrow> None
      | Some (a, rest) \<Rightarrow>
          (case scan_text ''-'' rest of
             None \<Rightarrow> None
           | Some rest1 \<Rightarrow> (case scan_nat rest1 of Some (b, []) \<Rightarrow> Some (a, b) | _ \<Rightarrow> None)))"

lemma parse_range_shown: "parse_range (show_nat a @ ''-'' @ show_nat b) = Some (a, b)"
proof -
  have "scan_nat (show_nat a @ ''-'' @ show_nat b) = Some (a, ''-'' @ show_nat b)"
    by (rule scan_nat_show_nat) (simp add: minus_not_digit)
  moreover have "scan_nat (show_nat b) = Some (b, [])" using scan_nat_show_nat [of "[]" b] by simp
  moreover have "scan_text ''-'' (''-'' @ show_nat b) = Some (show_nat b)" by (rule scan_text_append)
  ultimately show ?thesis by (simp add: parse_range_def)
qed

lemma range_request_range:
  assumes "setup_range_request_impl off sz opts = Inr opts'" "fits off sz"
  obtains r where "opt_range opts' = Some r" and "parse_range r = Some (unat off, unat off + unat sz - 1)"
    and "0 < unat sz"
proof -
  have sz: "0 < sz" and r: "opts' = opts\<lparr>opt_range := Some (show_nat (unat off) @ ''-'' @ show_nat (unat (off + sz - 1)))\<rparr>"
    using assms(1) by (auto simp: setup_range_request_impl_def res_simps split: if_splits)
  have pos: "0 < unat sz" using sz by (simp add: unat_gt_0 word_gt_0)
  have sum: "unat (off + sz) = unat off + unat sz" using assms(2) by (rule unat_plus_fits)
  then have "off + sz \<noteq> 0" using pos by (metis add_is_0 less_numeral_extra(3) unat_0)
  then have "unat (off + sz - 1) = unat off + unat sz - 1" using sum by (simp add: unat_minus_one)
  with r pos parse_range_shown [of "unat off" "unat off + unat sz - 1"] show thesis by (intro that) simp_all
qed

end
