(* ===== verification/Retry_Sink.thy ===== *)
theory Retry_Sink
  imports Http_Retry Remote_Callback
begin

text \<open>
  A blocking transfer into a buffer that may be attempted several times. The destination of the body
  is a \<^emph>\<open>sink\<close>: it is fed the chunks libcurl hands to the write callback, it is reset before a retry,
  and at the end its memory holds what was received. The locale \<open>retry_sink\<close> states what the reader
  relies on; \<open>callback_host_memory\<close> and \<open>callback_device_memory\<close> with its bounce buffer, of
  \<open>cpp/src/remote_handle.cpp\<close> and \<open>cpp/src/detail/remote_callback.cpp\<close>, are its two instances. In
  the locale it is shown once that the retries of \<open>CurlHandle::perform\<close> leave exactly the body of the
  successful attempt behind, whatever partial bodies the failed ones left.
\<close>

section \<open>Attempts\<close>

record ('s, 'e) http_world =
  hw_sink :: 's
  hw_net :: 'e

text \<open>The write callback is called with the chunks in order until one is refused.\<close>

fun feed_all :: "(byte list \<Rightarrow> 's \<Rightarrow> bool \<times> 's) \<Rightarrow> byte list list \<Rightarrow> 's \<Rightarrow> bool \<times> 's" where
  "feed_all feed [] s = (True, s)"
| "feed_all feed (c # cs) s = (case feed c s of (True, s1) \<Rightarrow> feed_all feed cs s1 | (False, s1) \<Rightarrow> (False, s1))"

text \<open>
  The libcurl interface of a handle whose write callback feeds a sink: \<open>net\<close> is the network side of
  the handle and \<open>body\<close> the chunks the last attempt received. A refused chunk ends the attempt with
  \<open>CURLE_WRITE_ERROR\<close>.
\<close>

definition sink_api ::
  "'e curl_api \<Rightarrow> ('e \<Rightarrow> byte list list) \<Rightarrow> (byte list \<Rightarrow> 's \<Rightarrow> bool \<times> 's) \<Rightarrow> ('s, 'e) http_world curl_api"
where
  "sink_api net body feed =
     \<lparr>easy_perform = (\<lambda>w.
        let (code, e) = easy_perform net (hw_net w); (accepted, s) = feed_all feed (body e) (hw_sink w)
        in (if accepted then code else CURLE_WRITE_ERROR, \<lparr>hw_sink = s, hw_net = e\<rparr>)),
      response_code = (\<lambda>w. response_code net (hw_net w)),
      num_connects = (\<lambda>w. num_connects net (hw_net w)),
      namelookup_time = (\<lambda>w. namelookup_time net (hw_net w)),
      connect_time = (\<lambda>w. connect_time net (hw_net w)),
      appconnect_time = (\<lambda>w. appconnect_time net (hw_net w)),
      errbuf = (\<lambda>w. errbuf net (hw_net w)),
      clear_errbuf = (\<lambda>w. w\<lparr>hw_net := clear_errbuf net (hw_net w)\<rparr>),
      strerror = strerror net\<rparr>"

text \<open>The callback given to \<open>perform\<close>, which rolls the sink back.\<close>

definition reset_hook :: "('s \<Rightarrow> 's) \<Rightarrow> ('s, 'e) http_world \<Rightarrow> ('s, 'e) http_world" where
  "reset_hook reset w = w\<lparr>hw_sink := reset (hw_sink w)\<rparr>"

text \<open>What an invariant of the attempts gives for the whole transfer.\<close>

lemma perform_invariant:
  assumes start: "I (world st)" and clear: "\<And>w. I w \<Longrightarrow> I (clear_errbuf api w)"
    and step: "\<And>w c w'. I w \<Longrightarrow> easy_perform api w = (c, w') \<Longrightarrow> J c w'"
    and roll: "\<And>c w. J c w \<Longrightarrow> I (run_hook h w)"
    and pos: "0 < attempts" and p: "perform api attempts codes h st = (r, st')"
  shows "\<exists>c. J c (world st') \<and> r = (if c = CURLE_OK then Inr () else Inl Runtime_Error)
    \<and> (fst (easy_perform api (clear_errbuf api (world st))) = CURLE_OK \<longrightarrow> c = CURLE_OK)"
proof -
  obtain pol where pol: "HttpRetryPolicy attempts codes = Inr pol" using pos by (simp add: HttpRetryPolicy_def)
  then have "max_attempts pol = attempts" using pos by (auto simp: HttpRetryPolicy_def)
  then have one: "Suc 0 \<le> unat (max_attempts pol)" using pos by (simp add: Suc_le_eq unat_gt_0 word_gt_0)
  obtain k r1 st1 where k: "perform_loop api pol h (of_nat (Suc 0)) st = (r1, st1)"
      "r1 = (if code_at api h (world st) k = CURLE_OK then Inr () else Inl Runtime_Error)"
      "world st1 = world_after api h (world st) k"
      "\<And>j. 0 \<le> j \<Longrightarrow> j < k \<Longrightarrow> transient api pol (code_at api h (world st) j) (world_after api h (world st) j)"
    by (rule perform_loop_spec [of st api h "world st" 0 pol]) (use one in simp_all)
  have r: "r = r1" "st' = st1" using p k(1) pol by (simp_all add: perform_def)
  have I: "I (world_before api h (world st) n)" for n
  proof (induction n)
    case (Suc n)
    then show ?case using clear step roll by (metis prod.collapse world_before.simps(2))
  qed (simp add: start)
  have "J (code_at api h (world st) k) (world_after api h (world st) k)"
    using I [of k] clear step by (metis code_at_def prod.collapse world_after_def)
  moreover have "code_at api h (world st) k = CURLE_OK"
    if "fst (easy_perform api (clear_errbuf api (world st))) = CURLE_OK"
  proof -
    have "code_at api h (world st) 0 = CURLE_OK" using that by (simp add: code_at_def)
    then show ?thesis using k(4) [of 0] by (cases k) (auto simp: transient_def)
  qed
  ultimately show ?thesis using k(2,3) r by auto
qed

section \<open>The contract of a sink\<close>

text \<open>
  \<open>holds m a n bs s\<close>: in a transfer of \<open>n\<close> bytes to address \<open>a\<close> of a memory that was \<open>m\<close> before, the
  sink has received \<open>bs\<close> in the current attempt. \<open>contents\<close> is the memory once the sink is finished,
  \<open>overflowed\<close> whether a chunk did not fit.
\<close>

locale retry_sink =
  fixes feed :: "byte list \<Rightarrow> 's \<Rightarrow> bool \<times> 's"
    and reset :: "'s \<Rightarrow> 's"
    and contents :: "'s \<Rightarrow> memory"
    and overflowed :: "'s \<Rightarrow> bool"
    and holds :: "memory \<Rightarrow> ptr \<Rightarrow> nat \<Rightarrow> byte list \<Rightarrow> 's \<Rightarrow> bool"
  assumes feed_fits: "holds m a n bs s \<Longrightarrow> length bs + length c \<le> n \<Longrightarrow>
      \<exists>s'. feed c s = (True, s') \<and> holds m a n (bs @ c) s' \<and> overflowed s' = overflowed s"
    and feed_over: "holds m a n bs s \<Longrightarrow> n < length bs + length c \<Longrightarrow> length c < 2 ^ 32 - 1 \<Longrightarrow>
      \<exists>s'. feed c s = (False, s') \<and> holds m a n bs s' \<and> overflowed s'"
    and reset_holds: "holds m a n bs s \<Longrightarrow> holds m a n [] (reset s) \<and> \<not> overflowed (reset s)"
    and within: "holds m a n bs s \<Longrightarrow> length bs \<le> n"
    and contents_full: "holds m a n bs s \<Longrightarrow> length bs = n \<Longrightarrow> contents s = write_bytes m a bs"
    and contents_outside: "holds m a n bs s \<Longrightarrow> \<not> unat (x - a) < n \<Longrightarrow> contents s x = m x"
begin

lemma feed_all_spec:
  assumes "holds m a n bs s" "\<And>c. c \<in> set cs \<Longrightarrow> length c < 2 ^ 32 - 1"
  shows "if length bs + length (concat cs) \<le> n
         then \<exists>s'. feed_all feed cs s = (True, s') \<and> holds m a n (bs @ concat cs) s' \<and> overflowed s' = overflowed s
         else \<exists>s' bs'. feed_all feed cs s = (False, s') \<and> holds m a n bs' s' \<and> overflowed s'"
  using assms
proof (induction cs arbitrary: bs s)
  case Nil
  then show ?case using within [OF Nil.prems(1)] by simp
next
  case (Cons c cs)
  show ?case
  proof (cases "length bs + length c \<le> n")
    case True
    then obtain s1 where s1: "feed c s = (True, s1)" "holds m a n (bs @ c) s1" "overflowed s1 = overflowed s"
      using feed_fits [OF Cons.prems(1)] by blast
    from Cons.IH [OF s1(2)] Cons.prems(2) s1 show ?thesis by (auto simp: add.assoc split: if_splits)
  next
    case False
    then obtain s1 where "feed c s = (False, s1)" "holds m a n bs s1" "overflowed s1"
      using feed_over [OF Cons.prems(1), of c] Cons.prems(2) by force
    with False show ?thesis by auto
  qed
qed

text \<open>Whatever the server sends, the sink stays in order.\<close>

lemma perform_keeps:
  fixes st :: "('s, 'e) http_world perform_state"
  assumes hold: "holds m a n [] (hw_sink (world st))" and pos: "0 < attempts"
    and small: "\<And>e c. c \<in> set (body e) \<Longrightarrow> length c < 2 ^ 32 - 1"
    and p: "perform (sink_api net body feed) attempts codes (Some (reset_hook reset)) st = (r, st')"
  shows "\<exists>bs. holds m a n bs (hw_sink (world st'))"
proof -
  let ?api = "sink_api net body feed"
  have "\<exists>c. (\<exists>bs. holds m a n bs (hw_sink (world st'))) \<and> r = (if c = CURLE_OK then Inr () else Inl Runtime_Error)
      \<and> (fst (easy_perform ?api (clear_errbuf ?api (world st))) = CURLE_OK \<longrightarrow> c = CURLE_OK)"
  proof (rule perform_invariant [OF _ _ _ _ pos p, of "\<lambda>w. holds m a n [] (hw_sink w)" "\<lambda>_ w. \<exists>bs. holds m a n bs (hw_sink w)"])
    show "\<exists>bs. holds m a n bs (hw_sink w')"
      if "holds m a n [] (hw_sink w)" "easy_perform ?api w = (c, w')" for w c w'
    proof -
      obtain code e where e: "easy_perform net (hw_net w) = (code, e)" by (cases "easy_perform net (hw_net w)")
      note fed = feed_all_spec [OF that(1), of "body e", OF small [of _ e]]
      then obtain ok s' bs where "feed_all feed (body e) (hw_sink w) = (ok, s')" "holds m a n bs s'"
        by (auto split: if_splits)
      with that(2) e show ?thesis by (auto simp: sink_api_def)
    qed
  qed (use hold reset_holds in \<open>auto simp: sink_api_def run_hook_def reset_hook_def\<close>)
  then show ?thesis by blast
qed

text \<open>
  The transfer. \<open>content\<close> is what the server sends in an attempt that succeeds; a failed attempt may
  have sent anything.
\<close>

lemma perform_receives:
  fixes st :: "('s, 'e) http_world perform_state"
  assumes hold: "holds m a n [] (hw_sink (world st))" and pos: "0 < attempts" and len: "length content = n"
    and small: "\<And>e c. c \<in> set (body e) \<Longrightarrow> length c < 2 ^ 32 - 1"
    and sends: "\<And>e e'. easy_perform net e = (CURLE_OK, e') \<Longrightarrow> concat (body e') = content"
    and p: "perform (sink_api net body feed) attempts codes (Some (reset_hook reset)) st = (r, st')"
  shows "(if r = Inr () then contents (hw_sink (world st')) = write_bytes m a content
          else r = Inl Runtime_Error \<and> (\<forall>x. unat (x - a) < n \<or> contents (hw_sink (world st')) x = m x))
    \<and> (fst (easy_perform net (clear_errbuf net (hw_net (world st)))) = CURLE_OK \<longrightarrow> r = Inr ())"
proof -
  let ?api = "sink_api net body feed"
  define I where "I w \<longleftrightarrow> holds m a n [] (hw_sink w)" for w :: "('s, 'e) http_world"
  define J where "J c w \<longleftrightarrow> (\<exists>bs. holds m a n bs (hw_sink w)) \<and> (c = CURLE_OK \<longrightarrow> holds m a n content (hw_sink w))"
    for c and w :: "('s, 'e) http_world"
  have attempt: "J c w' \<and> (fst (easy_perform net (hw_net w)) = CURLE_OK \<longrightarrow> c = CURLE_OK)"
    if "I w" "easy_perform ?api w = (c, w')" for c w w'
  proof -
    obtain code e where e: "easy_perform net (hw_net w) = (code, e)" by (cases "easy_perform net (hw_net w)")
    have "holds m a n [] (hw_sink w)" using that(1) by (simp add: I_def)
    note fed = feed_all_spec [OF this, of "body e", OF small [of _ e]]
    show ?thesis
    proof (cases "length (concat (body e)) \<le> n")
      case True
      then obtain s' where "feed_all feed (body e) (hw_sink w) = (True, s')" "holds m a n (concat (body e)) s'"
        using fed by auto
      with that(2) e sends show ?thesis by (auto simp: sink_api_def J_def)
    next
      case False
      then obtain s' bs' where "feed_all feed (body e) (hw_sink w) = (False, s')" "holds m a n bs' s'"
        using fed by auto
      moreover have "code \<noteq> CURLE_OK" using False sends e len by auto
      ultimately show ?thesis using that(2) e by (auto simp: sink_api_def J_def)
    qed
  qed
  have "\<exists>c. J c (world st') \<and> r = (if c = CURLE_OK then Inr () else Inl Runtime_Error)
      \<and> (fst (easy_perform ?api (clear_errbuf ?api (world st))) = CURLE_OK \<longrightarrow> c = CURLE_OK)"
  proof (rule perform_invariant [OF _ _ _ _ pos p])
    show "I (world st)" using hold by (simp add: I_def)
    show "\<And>w. I w \<Longrightarrow> I (clear_errbuf ?api w)" by (simp add: I_def sink_api_def)
    show "\<And>w c w'. I w \<Longrightarrow> easy_perform ?api w = (c, w') \<Longrightarrow> J c w'" using attempt by blast
    show "\<And>c w. J c w \<Longrightarrow> I (run_hook (Some (reset_hook reset)) w)"
      using reset_holds by (auto simp: I_def J_def run_hook_def reset_hook_def)
  qed
  then obtain c where c: "J c (world st')" "r = (if c = CURLE_OK then Inr () else Inl Runtime_Error)"
      "fst (easy_perform ?api (clear_errbuf ?api (world st))) = CURLE_OK \<longrightarrow> c = CURLE_OK"
    by blast
  have I0: "I (clear_errbuf ?api (world st))" using hold by (simp add: I_def sink_api_def)
  have first: "fst (easy_perform ?api (clear_errbuf ?api (world st))) = CURLE_OK"
    if "fst (easy_perform net (clear_errbuf net (hw_net (world st)))) = CURLE_OK"
    using attempt [OF I0] that by (metis (no_types, lifting) curl_api.select_convs(8) http_world.select_convs(2)
        http_world.surjective http_world.update_convs(2) prod.collapse sink_api_def)
  obtain bs where h: "holds m a n bs (hw_sink (world st'))" using c(1) by (auto simp: J_def)
  have frame: "unat (x - a) < n \<or> contents (hw_sink (world st')) x = m x" for x
    using contents_outside [OF h] by blast
  have full: "contents (hw_sink (world st')) = write_bytes m a content" if "c = CURLE_OK"
    using c(1) that contents_full [OF _ len] by (auto simp: J_def)
  show ?thesis using c(2,3) first frame full by auto
qed

end

section \<open>Overwriting a partial transfer\<close>

lemma write_bytes_overlay:
  "write_bytes (write_bytes m a p) a q = write_bytes m a (q @ drop (length q) p)"
  by (rule ext) (auto simp: write_bytes_def nth_append)

lemma write_bytes_covers:
  "length p \<le> length q \<Longrightarrow> write_bytes (write_bytes m a p) a q = write_bytes m a q"
  by (simp add: write_bytes_overlay)

lemma write_bytes_outside: "length p \<le> n \<Longrightarrow> \<not> unat (x - a) < n \<Longrightarrow> write_bytes m a p x = m x"
  by (simp add: write_bytes_def)

text \<open>What a failed attempt has left: some bytes from the start of the buffer.\<close>

definition partly :: "memory \<Rightarrow> ptr \<Rightarrow> nat \<Rightarrow> memory \<Rightarrow> bool" where
  "partly m a n m' \<longleftrightarrow> (\<exists>p. length p \<le> n \<and> m' = write_bytes m a p)"

lemma partly_refl: "partly m a n m"
  unfolding partly_def by (intro exI [of _ "[]"]) simp

lemma partly_write: "partly m a n m' \<Longrightarrow> length q \<le> n \<Longrightarrow> partly m a n (write_bytes m' a q)"
proof -
  assume "partly m a n m'" and q: "length q \<le> n"
  then obtain p where p: "length p \<le> n" "m' = write_bytes m a p" by (auto simp: partly_def)
  then show "partly m a n (write_bytes m' a q)"
    unfolding partly_def using q by (intro exI [of _ "q @ drop (length q) p"]) (simp add: write_bytes_overlay)
qed

lemma partly_full: "partly m a n m' \<Longrightarrow> length q = n \<Longrightarrow> write_bytes m' a q = write_bytes m a q"
  by (auto simp: partly_def write_bytes_covers)

lemma partly_outside: "partly m a n m' \<Longrightarrow> \<not> unat (x - a) < n \<Longrightarrow> m' x = m x"
  by (auto simp: partly_def write_bytes_outside)

section \<open>The host buffer as a sink\<close>

text \<open>The flag tells that the callback crashed or threw through libcurl.\<close>

type_synonym host_sink = "CallbackContext \<times> memory \<times> bool"

definition host_feed :: "copy_env \<Rightarrow> byte list \<Rightarrow> host_sink \<Rightarrow> bool \<times> host_sink" where
  "host_feed env c = (\<lambda>(ctx, m, escaped).
     case host_cb env c ctx m of
       None \<Rightarrow> (False, ctx, m, True)
     | Some (n, ctx', m') \<Rightarrow> (n = of_nat (length c), ctx', m', escaped))"

definition host_reset :: "host_sink \<Rightarrow> host_sink" where
  "host_reset = (\<lambda>(ctx, m, escaped). (reset_for_retry ctx, m, escaped))"

definition host_contents :: "host_sink \<Rightarrow> memory" where
  "host_contents = (\<lambda>(ctx, m, escaped). m)"

definition host_overflowed :: "host_sink \<Rightarrow> bool" where
  "host_overflowed = (\<lambda>(ctx, m, escaped). overflow_error ctx)"

definition ctx_holds :: "nat \<Rightarrow> byte list \<Rightarrow> CallbackContext \<Rightarrow> bool" where
  "ctx_holds n bs ctx \<longleftrightarrow>
     unat (ctx_size ctx) = n \<and> n < 2 ^ 63 \<and> unat (ctx_offset ctx) = length bs \<and> length bs \<le> n"

definition host_holds :: "memory \<Rightarrow> ptr \<Rightarrow> nat \<Rightarrow> byte list \<Rightarrow> host_sink \<Rightarrow> bool" where
  "host_holds m a n bs = (\<lambda>(ctx, mem, escaped).
     ctx_holds n bs ctx \<and> ctx_buf ctx = a \<and> \<not> escaped \<and> (\<exists>m'. partly m a n m' \<and> mem = write_bytes m' a bs))"

lemma ctx_holds_sane: "ctx_holds n bs ctx \<Longrightarrow> sane ctx"
  by (simp add: ctx_holds_def sane_def)

lemma ctx_holds_offset: "ctx_holds n bs ctx \<Longrightarrow> ctx_offset ctx = of_nat (length bs)"
  by (metis ctx_holds_def of_nat_unat ucast_id)

lemma ctx_holds_append:
  assumes "ctx_holds n bs ctx" "length bs + length c \<le> n"
  shows "ctx_holds n (bs @ c) (ctx\<lparr>ctx_offset := ctx_offset ctx + of_nat (length c)\<rparr>)"
proof -
  have "unat (of_nat (length c) :: size_t) = length c" using assms by (intro unat_chunk) (simp add: ctx_holds_def)
  moreover from this have "unat (ctx_offset ctx + of_nat (length c)) = length bs + length c"
    using assms by (subst unat_plus_no_wrap) (simp_all add: ctx_holds_def)
  ultimately show ?thesis using assms by (simp add: ctx_holds_def)
qed

lemma ctx_holds_reset: "ctx_holds n bs ctx \<Longrightarrow> ctx_holds n [] (reset_for_retry ctx)"
  by (simp add: ctx_holds_def reset_for_retry_def)

lemma ctx_holds_flag: "ctx_holds n bs ctx \<Longrightarrow> ctx_holds n bs (ctx\<lparr>overflow_error := x\<rparr>)"
  by (simp add: ctx_holds_def)

lemma refused_not_length: "length c < 2 ^ 32 - 1 \<Longrightarrow> CURL_WRITEFUNC_ERROR \<noteq> of_nat (length c)"
proof
  assume len: "length c < 2 ^ 32 - 1" and "CURL_WRITEFUNC_ERROR = of_nat (length c)"
  then have "unat CURL_WRITEFUNC_ERROR = unat (of_nat (length c) :: size_t)" by (simp only:)
  also have "\<dots> = length c" using len by (simp add: unat_of_nat_size_t)
  finally have "unat CURL_WRITEFUNC_ERROR = length c" .
  with len show False by (simp add: CURL_WRITEFUNC_ERROR_def)
qed

interpretation host_sink: retry_sink "host_feed (keeping env)" host_reset host_contents host_overflowed host_holds
  for env
proof
  fix m a n bs s and c :: "byte list"
  assume h: "host_holds m a n bs s" and le: "length bs + length c \<le> n"
  obtain ctx mem esc where s: "s = (ctx, mem, esc)" by (cases s)
  have ch: "ctx_holds n bs ctx" "ctx_buf ctx = a" "\<not> esc" using h by (auto simp: s host_holds_def)
  note off = ctx_holds_offset [OF ch(1)]
  obtain m' where m': "partly m a n m'" "mem = write_bytes m' a bs" using h by (auto simp: s host_holds_def)
  have "write_bytes (write_bytes m' a bs) (a + of_nat (length bs)) c = write_bytes m' a (bs @ c)"
    using le ch(1) by (intro write_bytes_append) (simp add: ctx_holds_def)
  moreover have "host_cb (keeping env) c ctx mem = Some (of_nat (length c),
      ctx\<lparr>ctx_offset := ctx_offset ctx + of_nat (length c)\<rparr>, write_bytes mem (ctx_buf ctx + ctx_offset ctx) c)"
    using ch le by (intro host.takes ctx_holds_sane) (auto simp: ctx_holds_def)
  ultimately show "\<exists>s'. host_feed (keeping env) c s = (True, s') \<and> host_holds m a n (bs @ c) s'
      \<and> host_overflowed s' = host_overflowed s"
    using ch m' off ctx_holds_append [OF ch(1) le]
    by (auto simp: s host_feed_def host_holds_def host_overflowed_def)
next
  fix m a n bs s and c :: "byte list"
  assume h: "host_holds m a n bs s" and gt: "n < length bs + length c" and len: "length c < 2 ^ 32 - 1"
  obtain ctx mem esc where s: "s = (ctx, mem, esc)" by (cases s)
  have ch: "ctx_holds n bs ctx" using h by (simp add: s host_holds_def)
  have "host_cb (keeping env) c ctx mem = Some (CURL_WRITEFUNC_ERROR, ctx\<lparr>overflow_error := True\<rparr>, mem)"
    using ch gt len by (intro host.refuses ctx_holds_sane) (auto simp: ctx_holds_def)
  then show "\<exists>s'. host_feed (keeping env) c s = (False, s') \<and> host_holds m a n bs s' \<and> host_overflowed s'"
    using h len refused_not_length [OF len]
    by (auto simp: s host_feed_def host_holds_def host_overflowed_def ctx_holds_flag)
next
  fix m a n bs s
  assume h: "host_holds m a n bs s"
  obtain ctx mem esc where s: "s = (ctx, mem, esc)" by (cases s)
  have "partly m a n mem" using h partly_write by (auto simp: s host_holds_def ctx_holds_def)
  then show "host_holds m a n [] (host_reset s) \<and> \<not> host_overflowed (host_reset s)"
    using h by (auto simp: s host_holds_def host_reset_def host_overflowed_def reset_for_retry_def ctx_holds_def
        intro!: exI [of _ mem])
qed (auto simp: host_holds_def host_contents_def ctx_holds_def partly_full intro: partly_outside partly_write)

section \<open>The bounce buffer to device memory as a sink\<close>

type_synonym 'c device_sink = "CallbackContext \<times> BounceBufferH2D \<times> 'c h2d_world \<times> bool"

definition device_feed ::
  "copy_env \<Rightarrow> ('c \<Rightarrow> bool \<times> 'c) \<Rightarrow> byte list \<Rightarrow> 'c device_sink \<Rightarrow> bool \<times> 'c device_sink"
where
  "device_feed env copy c = (\<lambda>(ctx, b, w, escaped).
     case callback_device_memory env copy c 1 (of_nat (length c)) ctx b w of
       None \<Rightarrow> (False, ctx, b, w, True)
     | Some (Inl x, ctx', b', w') \<Rightarrow> (False, ctx', b', w', True)
     | Some (Inr n, ctx', b', w') \<Rightarrow> (n = of_nat (length c), ctx', b', w', escaped))"

definition device_reset :: "'c device_sink \<Rightarrow> 'c device_sink" where
  "device_reset = (\<lambda>(ctx, b, w, escaped). (reset_for_retry ctx, h2d_reset_for_retry b, w, escaped))"

definition device_contents :: "('c \<Rightarrow> bool \<times> 'c) \<Rightarrow> 'c device_sink \<Rightarrow> memory" where
  "device_contents copy = (\<lambda>(ctx, b, w, escaped). h2d_device (h2d_destroy copy b w))"

definition device_overflowed :: "'c device_sink \<Rightarrow> bool" where
  "device_overflowed = (\<lambda>(ctx, b, w, escaped). overflow_error ctx)"

definition device_holds :: "memory \<Rightarrow> ptr \<Rightarrow> nat \<Rightarrow> byte list \<Rightarrow> 'c device_sink \<Rightarrow> bool" where
  "device_holds m a n bs = (\<lambda>(ctx, b, w, escaped).
     ctx_holds n bs ctx \<and> h2d_dev b = a \<and> \<not> escaped \<and> (\<exists>m'. partly m a n m' \<and> h2d_inv m' bs b w))"

text \<open>A CUDA copy that succeeds, with its effect on the rest of the device arbitrary.\<close>

definition succeeding :: "('c \<Rightarrow> 'c) \<Rightarrow> 'c \<Rightarrow> bool \<times> 'c" where
  "succeeding f e = (True, f e)"

lemma copies_succeeding: "copies_succeed (succeeding f)"
  by (simp add: copies_succeed_def succeeding_def)

lemma h2d_inv_reset:
  assumes "h2d_inv m' bs b w" "partly m (h2d_dev b) n m'" "length bs \<le> n"
  shows "\<exists>m''. partly m (h2d_dev b) n m'' \<and> h2d_inv m'' [] (h2d_reset_for_retry b) w"
proof -
  obtain fl where fl: "bs = fl @ read_bytes (h2d_mem w) (host_buffer b) (unat (host_offset b))"
      "h2d_device w = write_bytes m' (h2d_dev b) fl"
    using assms(1) by (auto simp: h2d_inv_def)
  have "length fl \<le> n" using fl(1) assms(3) by (metis length_append le_trans le_add1)
  then have "partly m (h2d_dev b) n (h2d_device w)" unfolding fl(2) by (rule partly_write [OF assms(2)])
  moreover have "h2d_inv (h2d_device w) [] (h2d_reset_for_retry b) w"
    by (simp add: h2d_inv_def h2d_reset_for_retry_def read_bytes_def)
  ultimately show ?thesis by blast
qed

lemma device_contents_eq:
  assumes "h2d_inv m' bs b w"
  shows "device_contents (succeeding f) (ctx, b, w, esc) = write_bytes m' (h2d_dev b) bs"
proof -
  obtain b' w' where "h2d_flush (succeeding f) b w = (Inr (), b', w')"
      "h2d_device w' = write_bytes m' (h2d_dev b) bs"
    by (rule h2d_flush_ok [OF copies_succeeding assms])
  then show ?thesis by (simp add: device_contents_def h2d_destroy_def)
qed

interpretation device_sink: retry_sink "device_feed env (succeeding f)" device_reset
    "device_contents (succeeding f)" device_overflowed device_holds for env f
proof
  fix m a n bs s and c :: "byte list"
  assume h: "device_holds m a n bs (s :: 'a device_sink)" and le: "length bs + length c \<le> n"
  obtain ctx b w esc where s: "s = (ctx, b, w, esc)" by (cases s) auto
  obtain m' where ch: "ctx_holds n bs ctx" "h2d_dev b = a" "\<not> esc" and m': "partly m a n m'" "h2d_inv m' bs b w"
    using h by (auto simp: s device_holds_def)
  have n: "length bs + length c < 2 ^ 63" using le ch(1) by (simp add: ctx_holds_def)
  obtain b1 w1 where w1: "h2d_write env (succeeding f) c (ctx_size ctx) b w = Some (Inr (), b1, w1)"
      "h2d_inv m' (bs @ c) b1 w1" "h2d_dev b1 = h2d_dev b"
    by (rule h2d_write_ok [OF copies_succeeding m'(2) n])
  have len: "length c < 2 ^ 63" using n by simp
  have "\<not> ctx_size ctx < ctx_offset ctx + of_nat (length c)"
    using overflow_check [OF ctx_holds_sane [OF ch(1)] len] ch(1) le by (simp add: ctx_holds_def)
  then have "callback_device_memory env (succeeding f) c 1 (of_nat (length c)) ctx b w
      = Some (Inr (of_nat (length c)), ctx\<lparr>ctx_offset := ctx_offset ctx + of_nat (length c)\<rparr>, b1, w1)"
    using w1(1) len by (simp add: callback_device_memory_def unat_chunk Let_def)
  then show "\<exists>s'. device_feed env (succeeding f) c s = (True, s') \<and> device_holds m a n (bs @ c) s'
      \<and> device_overflowed s' = device_overflowed s"
    using ch m' w1 ctx_holds_append [OF ch(1) le]
    by (auto simp: s device_feed_def device_holds_def device_overflowed_def)
next
  fix m a n bs s and c :: "byte list"
  assume h: "device_holds m a n bs (s :: 'a device_sink)" and gt: "n < length bs + length c"
    and len: "length c < 2 ^ 32 - 1"
  obtain ctx b w esc where s: "s = (ctx, b, w, esc)" by (cases s) auto
  have ch: "ctx_holds n bs ctx" using h by (simp add: s device_holds_def)
  have "length c < 2 ^ 63" using len by simp
  then have "ctx_size ctx < ctx_offset ctx + of_nat (length c)"
    using overflow_check [OF ctx_holds_sane [OF ch], of c] ch gt by (simp add: ctx_holds_def)
  then show "\<exists>s'. device_feed env (succeeding f) c s = (False, s') \<and> device_holds m a n bs s' \<and> device_overflowed s'"
    using h len refused_not_length [OF len]
    by (auto simp: s device_feed_def device_holds_def device_overflowed_def callback_device_memory_def ctx_holds_flag)
next
  fix m a n bs s
  assume h: "device_holds m a n bs (s :: 'a device_sink)"
  obtain ctx b w esc where s: "s = (ctx, b, w, esc)" by (cases s) auto
  obtain m' where m': "partly m (h2d_dev b) n m'" "h2d_inv m' bs b w" and ch: "ctx_holds n bs ctx"
    and a: "h2d_dev b = a" "\<not> esc"
    using h by (auto simp: s device_holds_def)
  then obtain m'' where "partly m a n m''" "h2d_inv m'' [] (h2d_reset_for_retry b) w"
    using h2d_inv_reset [OF m'(2,1)] by (auto simp: ctx_holds_def)
  then show "device_holds m a n [] (device_reset s) \<and> \<not> device_overflowed (device_reset s)"
    using a ctx_holds_reset [OF ch]
    by (auto simp: s device_holds_def device_reset_def device_overflowed_def reset_for_retry_def h2d_reset_for_retry_def)
next
  fix m a n bs s
  assume "device_holds m a n bs (s :: 'a device_sink)" "length bs = n"
  then show "device_contents (succeeding f) s = write_bytes m a bs"
    by (cases s) (auto simp: device_holds_def device_contents_eq partly_full)
next
  fix m a n bs s x
  assume "device_holds m a n bs (s :: 'a device_sink)" "\<not> unat (x - a) < n"
  then show "device_contents (succeeding f) s x = m x"
    by (cases s) (auto simp: device_holds_def device_contents_eq ctx_holds_def intro: partly_outside [OF partly_write])
qed (auto simp: device_holds_def ctx_holds_def)

end
