(* ===== verification/Defaults.thy ===== *)
theory Defaults
  imports Text_Format
begin

text \<open>
  The settings of the library: \<open>cpp/include/kvikio/defaults.hpp\<close>, \<open>cpp/src/defaults.cpp\<close>,
  \<open>cpp/src/compat_mode.cpp\<close>, \<open>cpp/src/http_status_codes.cpp\<close> and \<open>normalize_env_value\<close> of
  \<open>cpp/src/detail/utils.cpp\<close>. They are read from the environment once and changed by setters. The
  integer settings are read with the type of their default value, mostly \<open>int\<close>, as the template
  argument deduction of the code has it. Thread pools are their numbers of threads here.
\<close>

section \<open>Reading values\<close>

datatype CompatMode = Compat_OFF | Compat_ON | Compat_AUTO

datatype RemoteIOBackend = EASY_THREADPOOL | MULTI_POLL

text \<open>Lower case, and of that the first token.\<close>

definition normalize_env_value :: "string \<Rightarrow> string" where
  "normalize_env_value s = takeWhile (\<lambda>c. \<not> is_space c) (dropWhile is_space (map ascii_lower s))"

definition parse_compat_mode_str :: "string \<Rightarrow> CompatMode res" where
  "parse_compat_mode_str compat_mode_str =
     (let tmp = normalize_env_value compat_mode_str in
      if tmp = ''on'' \<or> tmp = ''true'' \<or> tmp = ''yes'' \<or> tmp = ''1'' then Inr Compat_ON
      else if tmp = ''off'' \<or> tmp = ''false'' \<or> tmp = ''no'' \<or> tmp = ''0'' then Inr Compat_OFF
      else if tmp = ''auto'' then Inr Compat_AUTO
      else Inl Invalid_Argument)"

text \<open>
  A number at the front of a text, after white space, with an optional sign, as \<open>operator>>\<close> and
  \<open>std::stoi\<close> read it; what follows the digits is not looked at.
\<close>

definition leading_int :: "string \<Rightarrow> int option" where
  "leading_int s =
     (case dropWhile is_space s of
        [] \<Rightarrow> None
      | c # cs \<Rightarrow>
          if c = CHR ''-'' then map_option (\<lambda>(n, _). - int n) (scan_nat cs)
          else if c = CHR ''+'' then map_option (\<lambda>(n, _). int n) (scan_nat cs)
          else map_option (\<lambda>(n, _). int n) (scan_nat (c # cs)))"

definition fits_signed :: "nat \<Rightarrow> int \<Rightarrow> bool" where
  "fits_signed bits i \<longleftrightarrow> - (2 ^ (bits - 1)) \<le> i \<and> i < 2 ^ (bits - 1)"

text \<open>\<open>getenv_or\<close> for a signed integer type of \<open>bits\<close> bits: a value out of range makes the stream fail.\<close>

definition getenv_int :: "nat \<Rightarrow> environment \<Rightarrow> string \<Rightarrow> int \<Rightarrow> int res" where
  "getenv_int bits env env_var_name default_val =
     (case env env_var_name of
        None \<Rightarrow> Inr default_val
      | Some env_val \<Rightarrow>
          (case leading_int env_val of
             None \<Rightarrow> Inl Invalid_Argument
           | Some i \<Rightarrow> bind_res (kvikio_expect (fits_signed bits i) Invalid_Argument) (\<lambda>_. Inr i)))"

text \<open>For \<open>bool\<close>: an integer by \<open>std::stoi\<close>, whose range error is not caught, or one of six words.\<close>

definition getenv_bool :: "environment \<Rightarrow> string \<Rightarrow> bool \<Rightarrow> bool res" where
  "getenv_bool env env_var_name default_val =
     (case env env_var_name of
        None \<Rightarrow> Inr default_val
      | Some env_val \<Rightarrow>
          (case leading_int env_val of
             Some i \<Rightarrow> if fits_signed 32 i then Inr (i \<noteq> 0) else Inl Out_Of_Range
           | None \<Rightarrow>
               (let normalized = normalize_env_value env_val in
                if normalized = ''true'' \<or> normalized = ''on'' \<or> normalized = ''yes'' then Inr True
                else if normalized = ''false'' \<or> normalized = ''off'' \<or> normalized = ''no'' then Inr False
                else Inl Invalid_Argument)))"

definition getenv_compat_mode :: "environment \<Rightarrow> string \<Rightarrow> CompatMode \<Rightarrow> CompatMode res" where
  "getenv_compat_mode env env_var_name default_val =
     (case env env_var_name of None \<Rightarrow> Inr default_val | Some env_val \<Rightarrow> parse_compat_mode_str env_val)"

definition getenv_backend :: "environment \<Rightarrow> string \<Rightarrow> RemoteIOBackend \<Rightarrow> RemoteIOBackend res" where
  "getenv_backend env env_var_name default_val =
     (case env env_var_name of
        None \<Rightarrow> Inr default_val
      | Some env_val \<Rightarrow>
          (let normalized = normalize_env_value env_val in
           if normalized = ''easy_threadpool'' then Inr EASY_THREADPOOL
           else if normalized = ''multi_poll'' then Inr MULTI_POLL
           else Inl Invalid_Argument))"

section \<open>HTTP status codes\<close>

text \<open>The pieces between commas.\<close>

fun split_commas :: "string \<Rightarrow> string list" where
  "split_commas [] = [[]]"
| "split_commas (c # cs) =
     (if c = CHR '','' then [] # split_commas cs
      else case split_commas cs of [] \<Rightarrow> [[c]] | p # ps \<Rightarrow> (c # p) # ps)"

definition strip_spaces :: "string \<Rightarrow> string" where
  "strip_spaces s = rev (dropWhile is_space (rev (dropWhile is_space s)))"

text \<open>The check pattern: between commas, three digits with white space around them.\<close>

definition is_code :: "string \<Rightarrow> bool" where
  "is_code p \<longleftrightarrow> length (strip_spaces p) = 3 \<and> list_all is_digit (strip_spaces p)"

text \<open>The longest runs of digits, which the second pattern finds one after another.\<close>

function digit_runs :: "string \<Rightarrow> string list" where
  "digit_runs s =
     (let s1 = dropWhile (\<lambda>c. \<not> is_digit c) s
      in if s1 = [] then [] else takeWhile is_digit s1 # digit_runs (dropWhile is_digit s1))"
  by pat_completeness auto
termination
proof (relation "measure length", goal_cases)
  case (2 s s1)
  then obtain c cs where s1: "s1 = c # cs" "is_digit c"
    by (metis (no_types, lifting) dropWhile_eq_Cons_conv list.exhaust)
  have "length (dropWhile is_digit s1) \<le> length cs"
    using s1 length_dropWhile_le [of is_digit cs] by simp
  moreover have "length s1 \<le> length s" using 2(1) length_dropWhile_le by simp
  ultimately show ?case using s1 by simp
qed simp

declare digit_runs.simps [simp del]

definition parse_http_status_codes :: "string \<Rightarrow> int list res" where
  "parse_http_status_codes status_codes =
     bind_res (kvikio_expect (list_all is_code (split_commas status_codes)) Invalid_Argument)
       (\<lambda>_. Inr (map (int \<circ> read_nat) (digit_runs status_codes)))"

definition getenv_codes :: "environment \<Rightarrow> string \<Rightarrow> int list \<Rightarrow> int list res" where
  "getenv_codes env env_var_name default_val =
     (case env env_var_name of
        None \<Rightarrow> Inr default_val
      | Some int_str \<Rightarrow> if int_str = [] then Inr default_val else parse_http_status_codes int_str)"

section \<open>Aliases\<close>

text \<open>
  The loop over a list of names: the last one that is set, with its text; two that are set to
  different texts are an error.
\<close>

fun find_alias :: "environment \<Rightarrow> string list \<Rightarrow> (string \<times> string) option \<Rightarrow> (string \<times> string) option res" where
  "find_alias env [] target = Inr target"
| "find_alias env (n # ns) target =
     (case env n of
        None \<Rightarrow> find_alias env ns target
      | Some v \<Rightarrow>
          (case target of
             Some (_, w) \<Rightarrow> if w \<noteq> v then Inl Invalid_Argument else find_alias env ns (Some (n, v))
           | None \<Rightarrow> find_alias env ns (Some (n, v))))"

definition getenv_alias :: "nat \<Rightarrow> environment \<Rightarrow> string list \<Rightarrow> int \<Rightarrow> (string \<times> int \<times> bool) res" where
  "getenv_alias bits env env_var_names default_val =
     bind_res (kvikio_expect (env_var_names \<noteq> []) Invalid_Argument) (\<lambda>_.
     bind_res (find_alias env env_var_names None) (\<lambda>target.
       case target of
         None \<Rightarrow> Inr ([], default_val, False)
       | Some (n, _) \<Rightarrow> bind_res (getenv_int bits env n default_val) (\<lambda>r. Inr (n, r, True))))"

definition get_num_threads_from_env :: "environment \<Rightarrow> 32 word res" where
  "get_num_threads_from_env env =
     bind_res (getenv_alias 32 env [''KVIKIO_NTHREADS'', ''KVIKIO_NUM_THREADS''] 1) (\<lambda>(_, num_threads, _).
     bind_res (kvikio_expect (num_threads > 0) Invalid_Argument) (\<lambda>_. Inr (of_int num_threads)))"

section \<open>The settings\<close>

record defaults =
  df_nthreads :: "32 word"
  df_compat_mode :: CompatMode
  df_task_size :: size_t
  df_gds_threshold :: size_t
  df_bounce_buffer_size :: size_t
  df_http_max_attempts :: size_t
  df_http_timeout :: int
  df_http_status_codes :: "int list"
  df_auto_direct_io_read :: bool
  df_auto_direct_io_read_overread :: bool
  df_auto_direct_io_write :: bool
  df_thread_pool_per_block_device :: bool
  df_remote_io_backend :: RemoteIOBackend
  df_remote_io_num_reactors :: "32 word"
  df_remote_io_max_concurrent_requests :: size_t

text \<open>One integer setting of the constructor: read as \<open>bits\<close> bits, checked against a lower bound.\<close>

definition int_setting :: "nat \<Rightarrow> environment \<Rightarrow> string \<Rightarrow> int \<Rightarrow> int \<Rightarrow> int res" where
  "int_setting bits env env_var_name default_val least =
     bind_res (getenv_int bits env env_var_name default_val) (\<lambda>v.
     bind_res (kvikio_expect (v \<ge> least) Invalid_Argument) (\<lambda>_. Inr v))"

definition new_defaults :: "environment \<Rightarrow> defaults res" where
  "new_defaults env =
     bind_res (get_num_threads_from_env env) (\<lambda>nthreads.
     bind_res (getenv_compat_mode env ''KVIKIO_COMPAT_MODE'' Compat_AUTO) (\<lambda>compat_mode.
     bind_res (int_setting 32 env ''KVIKIO_TASK_SIZE'' (4 * 1024 * 1024) 1) (\<lambda>task_size.
     bind_res (int_setting 32 env ''KVIKIO_GDS_THRESHOLD'' (16 * 1024) 0) (\<lambda>gds_threshold.
     bind_res (int_setting 32 env ''KVIKIO_BOUNCE_BUFFER_SIZE'' (16 * 1024 * 1024) 1) (\<lambda>bounce_buffer_size.
     bind_res (int_setting 32 env ''KVIKIO_HTTP_MAX_ATTEMPTS'' 3 1) (\<lambda>http_max_attempts.
     bind_res (int_setting 32 env ''KVIKIO_HTTP_TIMEOUT'' 60 1) (\<lambda>http_timeout.
     bind_res (getenv_codes env ''KVIKIO_HTTP_STATUS_CODES'' [429, 500, 502, 503, 504]) (\<lambda>http_status_codes.
     bind_res (getenv_bool env ''KVIKIO_AUTO_DIRECT_IO_READ'' False) (\<lambda>direct_read.
     bind_res (getenv_bool env ''KVIKIO_AUTO_DIRECT_IO_READ_OVERREAD'' False) (\<lambda>overread.
     bind_res (getenv_bool env ''KVIKIO_AUTO_DIRECT_IO_WRITE'' True) (\<lambda>direct_write.
     bind_res (getenv_bool env ''KVIKIO_THREAD_POOL_PER_BLOCK_DEVICE'' False) (\<lambda>per_block_device.
     bind_res (getenv_backend env ''KVIKIO_REMOTE_IO_BACKEND'' EASY_THREADPOOL) (\<lambda>io_backend.
     bind_res (int_setting 32 env ''KVIKIO_REMOTE_IO_NUM_REACTORS'' 1 1) (\<lambda>num_reactors.
     bind_res (int_setting 64 env ''KVIKIO_REMOTE_IO_MAX_CONCURRENT_REQUESTS'' 256 0) (\<lambda>max_requests.
     Inr \<lparr>df_nthreads = nthreads, df_compat_mode = compat_mode, df_task_size = of_int task_size,
          df_gds_threshold = of_int gds_threshold, df_bounce_buffer_size = of_int bounce_buffer_size,
          df_http_max_attempts = of_int http_max_attempts, df_http_timeout = http_timeout,
          df_http_status_codes = http_status_codes, df_auto_direct_io_read = direct_read,
          df_auto_direct_io_read_overread = overread, df_auto_direct_io_write = direct_write,
          df_thread_pool_per_block_device = per_block_device, df_remote_io_backend = io_backend,
          df_remote_io_num_reactors = of_int num_reactors,
          df_remote_io_max_concurrent_requests = of_int max_requests\<rparr>)))))))))))))))"

section \<open>Setters\<close>

text \<open>The calls that change a setting, with their arguments; \<open>started\<close> says whether the reactor pool exists.\<close>

definition set_thread_pool_nthreads :: "32 word \<Rightarrow> defaults \<Rightarrow> defaults res" where
  "set_thread_pool_nthreads n d =
     bind_res (kvikio_expect (n > 0) Invalid_Argument) (\<lambda>_. Inr (if n = df_nthreads d then d else d\<lparr>df_nthreads := n\<rparr>))"

definition set_compat_mode :: "CompatMode \<Rightarrow> defaults \<Rightarrow> defaults res" where
  "set_compat_mode m d = Inr (d\<lparr>df_compat_mode := m\<rparr>)"

definition set_task_size :: "size_t \<Rightarrow> defaults \<Rightarrow> defaults res" where
  "set_task_size n d = bind_res (kvikio_expect (n > 0) Invalid_Argument) (\<lambda>_. Inr (d\<lparr>df_task_size := n\<rparr>))"

definition set_gds_threshold :: "size_t \<Rightarrow> defaults \<Rightarrow> defaults res" where
  "set_gds_threshold n d = Inr (d\<lparr>df_gds_threshold := n\<rparr>)"

definition set_bounce_buffer_size :: "size_t \<Rightarrow> defaults \<Rightarrow> defaults res" where
  "set_bounce_buffer_size n d = bind_res (kvikio_expect (n > 0) Invalid_Argument) (\<lambda>_. Inr (d\<lparr>df_bounce_buffer_size := n\<rparr>))"

definition set_http_max_attempts :: "size_t \<Rightarrow> defaults \<Rightarrow> defaults res" where
  "set_http_max_attempts n d = bind_res (kvikio_expect (n > 0) Invalid_Argument) (\<lambda>_. Inr (d\<lparr>df_http_max_attempts := n\<rparr>))"

definition set_http_status_codes :: "int list \<Rightarrow> defaults \<Rightarrow> defaults res" where
  "set_http_status_codes cs d = Inr (d\<lparr>df_http_status_codes := cs\<rparr>)"

definition set_http_timeout :: "int \<Rightarrow> defaults \<Rightarrow> defaults res" where
  "set_http_timeout n d = bind_res (kvikio_expect (n > 0) Invalid_Argument) (\<lambda>_. Inr (d\<lparr>df_http_timeout := n\<rparr>))"

definition set_auto_direct_io_read :: "bool \<Rightarrow> defaults \<Rightarrow> defaults res" where
  "set_auto_direct_io_read b d = Inr (d\<lparr>df_auto_direct_io_read := b\<rparr>)"

definition set_auto_direct_io_read_overread :: "bool \<Rightarrow> defaults \<Rightarrow> defaults res" where
  "set_auto_direct_io_read_overread b d = Inr (d\<lparr>df_auto_direct_io_read_overread := b\<rparr>)"

definition set_auto_direct_io_write :: "bool \<Rightarrow> defaults \<Rightarrow> defaults res" where
  "set_auto_direct_io_write b d = Inr (d\<lparr>df_auto_direct_io_write := b\<rparr>)"

definition set_thread_pool_per_block_device :: "bool \<Rightarrow> defaults \<Rightarrow> defaults res" where
  "set_thread_pool_per_block_device b d = Inr (d\<lparr>df_thread_pool_per_block_device := b\<rparr>)"

definition set_remote_io_backend :: "RemoteIOBackend \<Rightarrow> defaults \<Rightarrow> defaults res" where
  "set_remote_io_backend b d = Inr (d\<lparr>df_remote_io_backend := b\<rparr>)"

definition set_remote_io_num_reactors :: "bool \<Rightarrow> 32 word \<Rightarrow> defaults \<Rightarrow> defaults res" where
  "set_remote_io_num_reactors started n d =
     bind_res (kvikio_expect (n > 0) Invalid_Argument) (\<lambda>_.
     bind_res (kvikio_expect (\<not> started) Runtime_Error) (\<lambda>_. Inr (d\<lparr>df_remote_io_num_reactors := n\<rparr>)))"

definition set_remote_io_max_concurrent_requests :: "bool \<Rightarrow> size_t \<Rightarrow> defaults \<Rightarrow> defaults res" where
  "set_remote_io_max_concurrent_requests started n d =
     bind_res (kvikio_expect (\<not> started) Runtime_Error) (\<lambda>_. Inr (d\<lparr>df_remote_io_max_concurrent_requests := n\<rparr>))"

section \<open>The compatibility mode\<close>

definition infer_compat_mode_if_auto :: "bool \<Rightarrow> CompatMode \<Rightarrow> CompatMode" where
  "infer_compat_mode_if_auto cufile_available compat_mode =
     (if compat_mode = Compat_AUTO then (if cufile_available then Compat_OFF else Compat_ON) else compat_mode)"

definition is_compat_mode_preferred :: "bool \<Rightarrow> CompatMode \<Rightarrow> bool" where
  "is_compat_mode_preferred cufile_available compat_mode \<longleftrightarrow>
     compat_mode = Compat_ON \<or>
     (compat_mode = Compat_AUTO \<and> infer_compat_mode_if_auto cufile_available compat_mode = Compat_ON)"

section \<open>Every setting stays valid\<close>

text \<open>What the users of the settings rely on: the positive ones are positive.\<close>

definition settings_valid :: "defaults \<Rightarrow> bool" where
  "settings_valid d \<longleftrightarrow>
     0 < df_nthreads d \<and> 0 < df_task_size d \<and> 0 < df_bounce_buffer_size d \<and> 0 < df_http_max_attempts d \<and>
     0 < df_http_timeout d \<and> 0 < df_remote_io_num_reactors d"

text \<open>Any number of calls of the setters, with any arguments; a call that throws changes nothing.\<close>

inductive settings_reachable :: "environment \<Rightarrow> defaults \<Rightarrow> bool" for env where
  start: "new_defaults env = Inr d \<Longrightarrow> settings_reachable env d"
| nthreads: "settings_reachable env d \<Longrightarrow> set_thread_pool_nthreads n d = Inr d' \<Longrightarrow> settings_reachable env d'"
| compat: "settings_reachable env d \<Longrightarrow> set_compat_mode m d = Inr d' \<Longrightarrow> settings_reachable env d'"
| task_size: "settings_reachable env d \<Longrightarrow> set_task_size k d = Inr d' \<Longrightarrow> settings_reachable env d'"
| threshold: "settings_reachable env d \<Longrightarrow> set_gds_threshold k d = Inr d' \<Longrightarrow> settings_reachable env d'"
| bounce: "settings_reachable env d \<Longrightarrow> set_bounce_buffer_size k d = Inr d' \<Longrightarrow> settings_reachable env d'"
| attempts: "settings_reachable env d \<Longrightarrow> set_http_max_attempts k d = Inr d' \<Longrightarrow> settings_reachable env d'"
| codes: "settings_reachable env d \<Longrightarrow> set_http_status_codes cs d = Inr d' \<Longrightarrow> settings_reachable env d'"
| timeout: "settings_reachable env d \<Longrightarrow> set_http_timeout i d = Inr d' \<Longrightarrow> settings_reachable env d'"
| direct_read: "settings_reachable env d \<Longrightarrow> set_auto_direct_io_read b d = Inr d' \<Longrightarrow> settings_reachable env d'"
| overread: "settings_reachable env d \<Longrightarrow> set_auto_direct_io_read_overread b d = Inr d' \<Longrightarrow> settings_reachable env d'"
| direct_write: "settings_reachable env d \<Longrightarrow> set_auto_direct_io_write b d = Inr d' \<Longrightarrow> settings_reachable env d'"
| per_device: "settings_reachable env d \<Longrightarrow> set_thread_pool_per_block_device b d = Inr d' \<Longrightarrow> settings_reachable env d'"
| remote: "settings_reachable env d \<Longrightarrow> set_remote_io_backend r d = Inr d' \<Longrightarrow> settings_reachable env d'"
| reactors: "settings_reachable env d \<Longrightarrow> set_remote_io_num_reactors b n d = Inr d' \<Longrightarrow> settings_reachable env d'"
| requests: "settings_reachable env d \<Longrightarrow> set_remote_io_max_concurrent_requests b k d = Inr d' \<Longrightarrow> settings_reachable env d'"

lemmas setter_defs = set_thread_pool_nthreads_def set_compat_mode_def set_task_size_def set_gds_threshold_def
  set_bounce_buffer_size_def set_http_max_attempts_def set_http_status_codes_def set_http_timeout_def
  set_auto_direct_io_read_def set_auto_direct_io_read_overread_def set_auto_direct_io_write_def
  set_thread_pool_per_block_device_def set_remote_io_backend_def set_remote_io_num_reactors_def
  set_remote_io_max_concurrent_requests_def

text \<open>An integer setting that was accepted is in the range of its type and at least its bound.\<close>

lemma int_setting_range:
  assumes "int_setting bits env v dflt least = Inr i" "fits_signed bits dflt"
  shows "least \<le> i \<and> i < 2 ^ (bits - 1)"
  using assms
  by (auto simp: int_setting_def getenv_int_def fits_signed_def bind_res_Inr_iff split: option.splits)

lemma of_int_positive:
  fixes i :: int
  assumes "0 < i" "i < 2 ^ LENGTH('a)"
  shows "0 < (of_int i :: 'a :: len word)"
proof -
  have "uint (of_int i :: 'a word) = i" using assms by (simp add: uint_word_of_int take_bit_int_eq_self)
  then show ?thesis using assms(1) by (metis less_irrefl uint_0_eq word_gt_0)
qed

lemma num_threads_positive: "get_num_threads_from_env env = Inr n \<Longrightarrow> 0 < n"
proof -
  assume "get_num_threads_from_env env = Inr n"
  then obtain a i b where i: "getenv_alias 32 env [''KVIKIO_NTHREADS'', ''KVIKIO_NUM_THREADS''] 1 = Inr (a, i, b)"
    "0 < i" "n = of_int i"
    by (auto simp: get_num_threads_from_env_def bind_res_Inr_iff)
  have "i < 2 ^ 31"
    using i(1) by (auto simp: getenv_alias_def getenv_int_def bind_res_Inr_iff fits_signed_def split: option.splits)
  then show ?thesis unfolding i(3) using i(2) by (intro of_int_positive) simp_all
qed

lemma new_defaults_valid:
  assumes "new_defaults env = Inr d"
  shows "settings_valid d"
proof -
  obtain ts bs ma ti nr where ints:
    "int_setting 32 env ''KVIKIO_TASK_SIZE'' (4 * 1024 * 1024) 1 = Inr ts" "df_task_size d = of_int ts"
    "int_setting 32 env ''KVIKIO_BOUNCE_BUFFER_SIZE'' (16 * 1024 * 1024) 1 = Inr bs" "df_bounce_buffer_size d = of_int bs"
    "int_setting 32 env ''KVIKIO_HTTP_MAX_ATTEMPTS'' 3 1 = Inr ma" "df_http_max_attempts d = of_int ma"
    "int_setting 32 env ''KVIKIO_HTTP_TIMEOUT'' 60 1 = Inr ti" "df_http_timeout d = ti"
    "int_setting 32 env ''KVIKIO_REMOTE_IO_NUM_REACTORS'' 1 1 = Inr nr" "df_remote_io_num_reactors d = of_int nr"
    and threads: "get_num_threads_from_env env = Inr (df_nthreads d)"
    using assms unfolding new_defaults_def bind_res_Inr_iff by (elim exE conjE) auto
  note range = ints(1,3,5,7,9) [THEN int_setting_range, unfolded fits_signed_def, simplified]
  have "0 < df_task_size d" "0 < df_bounce_buffer_size d" "0 < df_http_max_attempts d" "0 < df_remote_io_num_reactors d"
    unfolding ints(2,4,6,10) using range by (auto intro!: of_int_positive)
  with num_threads_positive [OF threads] range(4) ints(8) show ?thesis by (simp add: settings_valid_def)
qed

text \<open>
  C17. Whatever the environment holds and whichever setters are called with whatever arguments, once
  the settings exist the numbers of threads and of reactors, the task size, the size of the bounce
  buffers, the number of HTTP attempts and the timeout are positive; and a value that would break
  this is refused with an exception.
\<close>

theorem settings_stay_valid:
  assumes "settings_reachable env d"
  shows "settings_valid d \<and>
    set_thread_pool_nthreads 0 d = Inl Invalid_Argument \<and> set_task_size 0 d = Inl Invalid_Argument \<and>
    set_bounce_buffer_size 0 d = Inl Invalid_Argument \<and> set_http_max_attempts 0 d = Inl Invalid_Argument \<and>
    set_http_timeout 0 d = Inl Invalid_Argument \<and> set_remote_io_num_reactors started 0 d = Inl Invalid_Argument"
proof -
  have "settings_valid d" using assms
  proof induction
    case (start d)
    then show ?case by (rule new_defaults_valid)
  qed (auto simp: settings_valid_def setter_defs bind_res_Inr_iff)
  then show ?thesis by (simp add: setter_defs)
qed

definition demo_settings_env :: environment where
  "demo_settings_env = [''KVIKIO_TASK_SIZE'' \<mapsto> ''  1024k'', ''KVIKIO_COMPAT_MODE'' \<mapsto> '' On '', ''KVIKIO_HTTP_STATUS_CODES'' \<mapsto> ''429, 503'']"

definition demo_settings :: defaults where
  "demo_settings = \<lparr>df_nthreads = 1, df_compat_mode = Compat_ON, df_task_size = 1024, df_gds_threshold = 16384,
     df_bounce_buffer_size = 16777216, df_http_max_attempts = 3, df_http_timeout = 60, df_http_status_codes = [429, 503],
     df_auto_direct_io_read = False, df_auto_direct_io_read_overread = False, df_auto_direct_io_write = True,
     df_thread_pool_per_block_device = False, df_remote_io_backend = EASY_THREADPOOL, df_remote_io_num_reactors = 1,
     df_remote_io_max_concurrent_requests = 256\<rparr>"

lemma demo_settings_read: "new_defaults demo_settings_env = Inr demo_settings"
  by code_simp

theorem settings_stay_valid_witness:
  "\<exists>d. settings_reachable demo_settings_env d \<and> settings_valid d \<and> df_task_size d = 1024 \<and>
     df_compat_mode d = Compat_ON \<and> df_http_status_codes d = [429, 503] \<and> df_bounce_buffer_size d = 8"
proof -
  let ?d = "demo_settings\<lparr>df_bounce_buffer_size := 8\<rparr>"
  have "settings_reachable demo_settings_env demo_settings" by (rule settings_reachable.start) (rule demo_settings_read)
  then have "settings_reachable demo_settings_env ?d"
    by (rule settings_reachable.bounce [where k = 8]) (simp add: set_bounce_buffer_size_def)
  with settings_stay_valid [OF this] show ?thesis by (intro exI [of _ ?d]) (simp add: demo_settings_def)
qed

section \<open>Consequences of the types the settings are read with\<close>

text \<open>
  The byte sizes are read as \<open>int\<close>, the type of their default values, so two gibibytes are refused
  although the setter takes them.
\<close>

lemma two_gibibytes_refused:
  assumes "env ''KVIKIO_TASK_SIZE'' = Some ''2147483648''"
  shows "int_setting 32 env ''KVIKIO_TASK_SIZE'' (4 * 1024 * 1024) 1 = Inl Invalid_Argument \<and>
    set_task_size 2147483648 d = Inr (d\<lparr>df_task_size := 2147483648\<rparr>)"
proof -
  have "leading_int ''2147483648'' = Some 2147483648"
    by (simp add: leading_int_def scan_nat_def read_nat_def is_digit_def digit_val_def is_space_def)
  with assms show ?thesis by (simp add: int_setting_def getenv_int_def fits_signed_def set_task_size_def)
qed

text \<open>Zero is accepted for the GDS threshold, which the message calls a positive integer.\<close>

lemma zero_gds_threshold_accepted:
  assumes "env ''KVIKIO_GDS_THRESHOLD'' = Some ''0''"
  shows "int_setting 32 env ''KVIKIO_GDS_THRESHOLD'' (16 * 1024) 0 = Inr 0"
proof -
  have "leading_int ''0'' = Some 0" by code_simp
  with assms show ?thesis by (simp add: int_setting_def getenv_int_def fits_signed_def)
qed

end
