(* ===== verification/Remote_Read.thy ===== *)
theory Remote_Read
  imports Endpoint Retry_Sink Parallel_IO Reactor Defaults
begin

text \<open>
  Reading from a remote handle: \<open>RemoteHandle::read\<close>, \<open>read_impl\<close> and \<open>pread\<close> of
  \<open>cpp/src/remote_handle.cpp\<close>. A libcurl handle is the interface record that belongs to its options
  (\<open>conn\<close>), and \<open>body\<close> is what the last attempt received; the memory of the host and of the device,
  the network, the CUDA driver and the counters are one state. \<open>None\<close> is a callback that crashed or
  threw through libcurl. CUDA contexts and NVTX ranges are left out.
\<close>

section \<open>Bounds\<close>

definition is_read_out_of_bounds :: "size_t \<Rightarrow> size_t \<Rightarrow> size_t \<Rightarrow> bool" where
  "is_read_out_of_bounds file_offset sz nbytes \<longleftrightarrow> file_offset > nbytes \<or> sz > nbytes - file_offset"

definition expect_read_in_bounds :: "RemoteHandle \<Rightarrow> size_t \<Rightarrow> size_t \<Rightarrow> unit res" where
  "expect_read_in_bounds h sz file_offset =
     (if \<not> is_read_out_of_bounds file_offset sz (rh_nbytes h) then Inr () else Inl Invalid_Argument)"

text \<open>The check does not wrap: it accepts exactly the ranges inside the file.\<close>

lemma in_bounds_iff: "\<not> is_read_out_of_bounds off sz nbytes \<longleftrightarrow> unat off + unat sz \<le> unat nbytes"
proof (cases "off \<le> nbytes")
  case True
  then have "unat (nbytes - off) = unat nbytes - unat off" by (rule unat_sub)
  with True show ?thesis by (auto simp: is_read_out_of_bounds_def word_le_nat_alt word_less_nat_alt)
next
  case False
  then have "unat nbytes < unat off" by (simp add: word_le_nat_alt)
  with False show ?thesis by (simp add: is_read_out_of_bounds_def not_le)
qed

lemma in_bounds_fits: "\<not> is_read_out_of_bounds off sz nbytes \<Longrightarrow> fits off sz"
  using size_t_range [of nbytes] by (simp add: in_bounds_iff fits_def)

definition remote_io_backend_of :: "RemoteEndpoint \<Rightarrow> IoBackend" where
  "remote_io_backend_of ep = (if remote_endpoint_type ep = WEBHDFS then REMOTE_HDFS else REMOTE_HTTP)"

section \<open>One request\<close>

record ('e, 'c) read_state =
  rs_host :: memory
  rs_dev :: memory
  rs_net :: 'e
  rs_cuda :: 'c
  rs_counters :: Counters

text \<open>The settings a read depends on: the retry policy, the copy settings and the pinned bounce buffer.\<close>

record read_config =
  cf_attempts :: size_t
  cf_codes :: "32 word list"
  cf_env :: copy_env
  cf_bounce :: ptr
  cf_bounce_size :: size_t

definition read_request :: "'h url_api \<Rightarrow> RemoteEndpoint \<Rightarrow> size_t \<Rightarrow> size_t \<Rightarrow> CurlOptions res" where
  "read_request uapi ep sz file_offset =
     bind_res (endpoint_setopt uapi ep create_curl_handle) (\<lambda>opts. setup_range_request ep file_offset sz opts)"

text \<open>The \<open>catch\<close> of \<open>read_impl\<close>, which takes runtime errors.\<close>

definition read_result :: "size_t \<Rightarrow> bool \<Rightarrow> unit res \<Rightarrow> size_t res" where
  "read_result sz overflow r =
     (case r of
        Inr _ \<Rightarrow> Inr sz
      | Inl e \<Rightarrow> if (e = Runtime_Error \<or> e = Overflow_Error) \<and> overflow then Inl Overflow_Error else Inl e)"

definition read_into_host ::
  "'e curl_api \<Rightarrow> ('e \<Rightarrow> byte list list) \<Rightarrow> read_config \<Rightarrow> ptr \<Rightarrow> size_t \<Rightarrow> ('e, 'c) read_state
     \<Rightarrow> (size_t res \<times> ('e, 'c) read_state) option"
where
  "read_into_host net body cf buf sz st =
     (let w0 = \<lparr>hw_sink = (CallbackContext buf sz, rs_host st, False), hw_net = rs_net st\<rparr>;
          (r, ps) = perform (sink_api net body (host_feed (cf_env cf))) (cf_attempts cf) (cf_codes cf)
                      (Some (reset_hook host_reset)) \<lparr>world = w0, perf_counters = rs_counters st, perf_trace = []\<rparr>;
          (ctx, m, escaped) = hw_sink (world ps)
      in if escaped then None
         else Some (read_result sz (overflow_error ctx) r,
                    st\<lparr>rs_host := m, rs_net := hw_net (world ps), rs_counters := perf_counters ps\<rparr>))"

text \<open>The bounce buffer is destroyed, and so flushed, whether or not the transfer threw.\<close>

definition read_into_device ::
  "'e curl_api \<Rightarrow> ('e \<Rightarrow> byte list list) \<Rightarrow> ('c \<Rightarrow> bool \<times> 'c) \<Rightarrow> read_config \<Rightarrow> ptr \<Rightarrow> size_t \<Rightarrow> ('e, 'c) read_state
     \<Rightarrow> (size_t res \<times> ('e, 'c) read_state) option"
where
  "read_into_device net body copy cf buf sz st =
     (let w0 = \<lparr>hw_sink = (CallbackContext buf sz, BounceBufferH2D buf (cf_bounce cf) (cf_bounce_size cf),
                 \<lparr>h2d_mem = rs_host st, h2d_device = rs_dev st, h2d_ext = rs_cuda st\<rparr>, False), hw_net = rs_net st\<rparr>;
          (r, ps) = perform (sink_api net body (device_feed (cf_env cf) copy)) (cf_attempts cf) (cf_codes cf)
                      (Some (reset_hook device_reset)) \<lparr>world = w0, perf_counters = rs_counters st, perf_trace = []\<rparr>;
          (ctx, b, w, escaped) = hw_sink (world ps);
          w1 = h2d_destroy copy b w
      in if escaped then None
         else Some (read_result sz (overflow_error ctx) r,
                    st\<lparr>rs_host := h2d_mem w1, rs_dev := h2d_device w1, rs_cuda := h2d_ext w1,
                       rs_net := hw_net (world ps), rs_counters := perf_counters ps\<rparr>))"

definition read_impl ::
  "'h url_api \<Rightarrow> (CurlOptions \<Rightarrow> 'e curl_api) \<Rightarrow> ('e \<Rightarrow> byte list list) \<Rightarrow> ('c \<Rightarrow> bool \<times> 'c) \<Rightarrow> read_config
     \<Rightarrow> RemoteHandle \<Rightarrow> ptr \<Rightarrow> size_t \<Rightarrow> size_t \<Rightarrow> bool \<Rightarrow> ('e, 'c) read_state \<Rightarrow> (size_t res \<times> ('e, 'c) read_state) option"
where
  "read_impl uapi conn body copy cf h buf sz file_offset is_host_mem st =
     (if sz = 0 then Some (Inr 0, st)
      else case expect_read_in_bounds h sz file_offset of
             Inl e \<Rightarrow> Some (Inl e, st)
           | Inr _ \<Rightarrow>
               (case read_request uapi (rh_endpoint h) sz file_offset of
                  Inl e \<Rightarrow> Some (Inl e, st)
                | Inr opts \<Rightarrow>
                    if is_host_mem then read_into_host (conn opts) body cf buf sz st
                    else read_into_device (conn opts) body copy cf buf sz st))"

text \<open>
  The public \<open>read\<close> with its recorders; \<open>clock\<close> gives the successive readings of the steady clock. An
  exception destroys the recorders, the physical one first.
\<close>

definition remote_read ::
  "'h url_api \<Rightarrow> (CurlOptions \<Rightarrow> 'e curl_api) \<Rightarrow> ('e \<Rightarrow> byte list list) \<Rightarrow> ('c \<Rightarrow> bool \<times> 'c) \<Rightarrow> read_config \<Rightarrow> (nat \<Rightarrow> int)
     \<Rightarrow> RemoteHandle \<Rightarrow> ptr \<Rightarrow> size_t \<Rightarrow> size_t \<Rightarrow> bool \<Rightarrow> ('e, 'c) read_state \<Rightarrow> observer
     \<Rightarrow> (size_t res \<times> ('e, 'c) read_state \<times> observer) option"
where
  "remote_read uapi conn body copy cf clock h buf sz file_offset is_host_mem st ov =
     (if sz = 0 then Some (Inr 0, st, ov)
      else case bind_res (expect_read_in_bounds h sz file_offset) (\<lambda>_. expect_not_in_monitor (ov_registry ov)) of
             Inl e \<Rightarrow> Some (Inl e, st, ov)
           | Inr _ \<Rightarrow>
               let be = remote_io_backend_of (rh_endpoint h); mk = (if is_host_mem then HOST else DEVICE);
                   (rec, ov1) = new_logical be READ mk file_offset sz (rh_source h) (Some ''GET'') (clock 0) ov;
                   physical = \<lparr>cx_backend = be, cx_direction = READ, cx_memory_kind = mk, cx_parent_id = recorder_id rec,
                               cx_source = rh_source h, cx_http_method = Some ''GET''\<rparr>;
                   (phys, ov2) = new_physical physical file_offset sz (clock 1) ov1
               in case read_impl uapi conn body copy cf h buf sz file_offset is_host_mem st of
                    None \<Rightarrow> None
                  | Some (Inl e, st1) \<Rightarrow>
                      let (_, ov3) = physical_destroy (clock 2) phys ov2; (_, ov4) = logical_destroy (clock 3) rec ov3
                      in Some (Inl e, st1, ov4)
                  | Some (Inr n, st1) \<Rightarrow>
                      let (_, ov3) = physical_finish n (clock 2) phys ov2; (_, ov4) = logical_finish n (clock 3) rec ov3
                      in Some (Inr n, st1, ov4))"

section \<open>What a read delivers\<close>

text \<open>
  What the library relies on: an HTTP request with a \<open>Range\<close> that succeeds is answered with exactly
  the bytes of that range of the file, and libcurl never hands out a chunk of four gigabytes.
\<close>

definition honours_ranges ::
  "(CurlOptions \<Rightarrow> 'e curl_api) \<Rightarrow> ('e \<Rightarrow> byte list list) \<Rightarrow> file_content \<Rightarrow> bool"
where
  "honours_ranges conn body file \<longleftrightarrow>
     (\<forall>opts r first last e e'. opt_range opts = Some r \<longrightarrow> parse_range r = Some (first, last) \<longrightarrow>
        easy_perform (conn opts) e = (CURLE_OK, e') \<longrightarrow> concat (body e') = map file [first ..< Suc last])"

definition small_chunks :: "('e \<Rightarrow> byte list list) \<Rightarrow> bool" where
  "small_chunks body \<longleftrightarrow> (\<forall>e. \<forall>c \<in> set (body e). length c < 2 ^ 32 - 1)"

lemma read_request_range:
  assumes "read_request uapi ep sz off = Inr opts" "remote_endpoint_type ep \<noteq> WEBHDFS" "fits off sz"
  obtains r where "opt_range opts = Some r" and "parse_range r = Some (unat off, unat off + unat sz - 1)"
    and "0 < unat sz"
proof -
  obtain o1 where "setup_range_request ep off sz o1 = Inr opts"
    using assms(1) by (auto simp: read_request_def bind_res_Inr_iff)
  then have "setup_range_request_impl off sz o1 = Inr opts" using assms(2) by (cases ep) simp_all
  from range_request_range [OF this assms(3)] show thesis using that by metis
qed

lemma request_content:
  assumes "honours_ranges conn body file" "read_request uapi ep sz off = Inr opts"
    "remote_endpoint_type ep \<noteq> WEBHDFS" "fits off sz" "easy_perform (conn opts) e = (CURLE_OK, e')"
  shows "concat (body e') = map file [unat off ..< unat off + unat sz]"
proof -
  obtain r where r: "opt_range opts = Some r" "parse_range r = Some (unat off, unat off + unat sz - 1)" "0 < unat sz"
    by (rule read_request_range [OF assms(2-4)])
  have "Suc (unat off + unat sz - 1) = unat off + unat sz" using r(3) by simp
  with assms(1,5) r(1,2) show ?thesis unfolding honours_ranges_def by metis
qed

text \<open>The outcome of a transfer into one of the memories.\<close>

definition delivered ::
  "file_content \<Rightarrow> ptr \<Rightarrow> size_t \<Rightarrow> size_t \<Rightarrow> size_t res \<Rightarrow> memory \<Rightarrow> memory \<Rightarrow> bool"
where
  "delivered file buf sz off r m m' \<longleftrightarrow>
     (case r of
        Inr n \<Rightarrow> n = sz \<and> m' = write_bytes m buf (map file [unat off ..< unat off + unat sz])
      | Inl _ \<Rightarrow> (\<forall>x. unat (x - buf) < unat sz \<or> m' x = m x))"

lemma read_into_host_ok:
  assumes "\<not> discard_data_enabled (cf_env cf)" "0 < cf_attempts cf" "unat sz < 2 ^ 63" "small_chunks body"
    and "\<And>e e'. easy_perform net e = (CURLE_OK, e') \<Longrightarrow> concat (body e') = map file [unat off ..< unat off + unat sz]"
  shows "\<exists>r st'. read_into_host net body cf buf sz st = Some (r, st')
    \<and> delivered file buf sz off r (rs_host st) (rs_host st')
    \<and> (fst (easy_perform net (clear_errbuf net (rs_net st))) = CURLE_OK \<longrightarrow> r = Inr sz)"
proof -
  let ?sink = "(CallbackContext buf sz, rs_host st, False)"
  let ?st0 = "\<lparr>world = \<lparr>hw_sink = ?sink, hw_net = rs_net st\<rparr>, perf_counters = rs_counters st, perf_trace = []\<rparr>"
  let ?perform = "perform (sink_api net body (host_feed (cf_env cf))) (cf_attempts cf) (cf_codes cf) (Some (reset_hook host_reset)) ?st0"
  have keep: "keeping (cf_env cf) = cf_env cf" using assms(1) by (simp add: keeping_def)
  obtain r ps where p: "?perform = (r, ps)" by (cases ?perform)
  have h: "host_holds (rs_host st) buf (unat sz) [] (hw_sink (world ?st0))"
    using assms(3) partly_refl by (simp add: host_holds_def ctx_holds_def CallbackContext_def)
  have small: "\<And>e c. c \<in> set (body e) \<Longrightarrow> length c < 2 ^ 32 - 1" using assms(4) by (simp add: small_chunks_def)
  note rec = host_sink.perform_receives [where env = "cf_env cf", unfolded keep, OF h assms(2) _ small assms(5) p]
  obtain ctx m esc where s: "hw_sink (world ps) = (ctx, m, esc)" by (cases "hw_sink (world ps)")
  have "\<not> esc"
    using host_sink.perform_keeps [where env = "cf_env cf", unfolded keep, OF h assms(2) small p] s by (auto simp: host_holds_def)
  then have "read_into_host net body cf buf sz st = Some (read_result sz (overflow_error ctx) r,
      st\<lparr>rs_host := m, rs_net := hw_net (world ps), rs_counters := perf_counters ps\<rparr>)"
    using p s by (simp add: read_into_host_def)
  with rec s show ?thesis
    by (auto simp: delivered_def read_result_def host_contents_def split: if_splits sum.splits)
qed

lemma read_into_device_ok:
  assumes "0 < cf_attempts cf" "unat sz < 2 ^ 63" "small_chunks body"
    and "\<And>e e'. easy_perform net e = (CURLE_OK, e') \<Longrightarrow> concat (body e') = map file [unat off ..< unat off + unat sz]"
  shows "\<exists>r st'. read_into_device net body (succeeding f) cf buf sz st = Some (r, st')
    \<and> delivered file buf sz off r (rs_dev st) (rs_dev st')
    \<and> (fst (easy_perform net (clear_errbuf net (rs_net st))) = CURLE_OK \<longrightarrow> r = Inr sz)"
proof -
  let ?sink = "(CallbackContext buf sz, BounceBufferH2D buf (cf_bounce cf) (cf_bounce_size cf),
     \<lparr>h2d_mem = rs_host st, h2d_device = rs_dev st, h2d_ext = rs_cuda st\<rparr>, False)"
  let ?st0 = "\<lparr>world = \<lparr>hw_sink = ?sink, hw_net = rs_net st\<rparr>, perf_counters = rs_counters st, perf_trace = []\<rparr>"
  let ?perform = "perform (sink_api net body (device_feed (cf_env cf) (succeeding f))) (cf_attempts cf) (cf_codes cf)
     (Some (reset_hook device_reset)) ?st0"
  obtain r ps where p: "?perform = (r, ps)" by (cases ?perform)
  have "h2d_inv (rs_dev st) [] (BounceBufferH2D buf (cf_bounce cf) (cf_bounce_size cf))
      \<lparr>h2d_mem = rs_host st, h2d_device = rs_dev st, h2d_ext = rs_cuda st\<rparr>"
    by (simp add: h2d_inv_def BounceBufferH2D_def read_bytes_def)
  then have h: "device_holds (rs_dev st) buf (unat sz) [] (hw_sink (world ?st0))"
    using assms(2) partly_refl by (auto simp: device_holds_def ctx_holds_def CallbackContext_def BounceBufferH2D_def)
  have small: "\<And>e c. c \<in> set (body e) \<Longrightarrow> length c < 2 ^ 32 - 1" using assms(3) by (simp add: small_chunks_def)
  note rec = device_sink.perform_receives [OF h assms(1) _ small assms(4) p]
  obtain ctx b w esc where s: "hw_sink (world ps) = (ctx, b, w, esc)" by (cases "hw_sink (world ps)") auto
  have "\<not> esc" using device_sink.perform_keeps [OF h assms(1) small p] s by (auto simp: device_holds_def)
  then have "read_into_device net body (succeeding f) cf buf sz st = Some (read_result sz (overflow_error ctx) r,
      st\<lparr>rs_host := h2d_mem (h2d_destroy (succeeding f) b w), rs_dev := h2d_device (h2d_destroy (succeeding f) b w),
         rs_cuda := h2d_ext (h2d_destroy (succeeding f) b w), rs_net := hw_net (world ps), rs_counters := perf_counters ps\<rparr>)"
    using p s by (simp add: read_into_device_def Let_def)
  with rec s show ?thesis
    by (auto simp: delivered_def read_result_def device_contents_def split: if_splits sum.splits)
qed

definition read_target :: "bool \<Rightarrow> ('e, 'c) read_state \<Rightarrow> memory" where
  "read_target is_host_mem = (if is_host_mem then rs_host else rs_dev)"


text \<open>
  A server of a file whose byte at position \<open>p\<close> is \<open>p\<close>: a fresh connection breaks off after two wrong
  bytes, later answers are complete.
\<close>

definition demo_file :: file_content where
  "demo_file p = of_nat p"

definition demo_conn :: "CurlOptions \<Rightarrow> (nat \<times> byte list list) curl_api" where
  "demo_conn opts =
     \<lparr>easy_perform = (\<lambda>(n, _).
        case opt_range opts of
          None \<Rightarrow> (CURLE_OTHER 1, n, [])
        | Some r \<Rightarrow>
            (case parse_range r of
               None \<Rightarrow> (CURLE_OTHER 1, n, [])
             | Some (a, b) \<Rightarrow>
                 if n = 0 then (CURLE_PARTIAL_FILE, 1, [[99, 99]])
                 else (CURLE_OK, n, [map demo_file [a ..< Suc b]]))),
      response_code = (\<lambda>_. (CURLE_OK, 206)), num_connects = (\<lambda>_. (CURLE_OK, 0)),
      namelookup_time = (\<lambda>_. (CURLE_OK, 0)), connect_time = (\<lambda>_. (CURLE_OK, 0)),
      appconnect_time = (\<lambda>_. (CURLE_OK, 0)), errbuf = (\<lambda>_. []), clear_errbuf = id, strerror = (\<lambda>_. [])\<rparr>"

text \<open>libcurl cuts the body into chunks of at most sixteen kilobytes; here into single bytes.\<close>

definition demo_body :: "nat \<times> byte list list \<Rightarrow> byte list list" where
  "demo_body w = concat (map (map (\<lambda>b. [b])) (snd w))"

lemma concat_singletons: "concat (concat (map (map (\<lambda>b. [b])) xss)) = concat xss"
  by (induction xss) simp_all

lemma demo_honours: "honours_ranges demo_conn demo_body demo_file"
  by (auto simp: honours_ranges_def demo_conn_def demo_body_def concat_singletons split: if_splits)

definition demo_config :: read_config where
  "demo_config = \<lparr>cf_attempts = 3, cf_codes = [], cf_env = \<lparr>discard_data_enabled = False,
     nontemporal_copy_enabled = False, nontemporal_copy_threshold = 0, cpu_supports_avx2 = False\<rparr>,
     cf_bounce = 4096, cf_bounce_size = 2\<rparr>"


text \<open>
  The size is returned whether or not that many bytes arrived: a request that libcurl reports as
  successful with an empty body is reported as a complete read.
\<close>

lemma empty_body_reported_as_full_read:
  assumes "easy_perform net (clear_errbuf net (rs_net st)) = (CURLE_OK, e')" "body e' = []" "0 < cf_attempts cf"
  shows "\<exists>st'. read_into_host net body cf buf sz st = Some (Inr sz, st') \<and> rs_host st' = rs_host st"
  using assms
  by (simp add: read_into_host_def perform_def HttpRetryPolicy_def perform_loop.simps [where attempt = 1]
      perform_attempt_def sink_api_def evaluate_def read_result_def Let_def)

section \<open>Sub-ranges of a multi-poll read\<close>

record subrange =
  sub_size :: size_t
  sub_offset :: size_t
  sub_buf :: ptr

definition num_subranges :: "size_t \<Rightarrow> size_t \<Rightarrow> size_t" where
  "num_subranges sz task_size = (if task_size \<ge> sz then 1 else (sz + task_size - 1) div task_size)"

text \<open>The loop of \<open>pread\<close>, run \<open>n\<close> times: what is left, the offset in the file and the address move on.\<close>

fun subranges :: "size_t \<Rightarrow> nat \<Rightarrow> size_t \<Rightarrow> size_t \<Rightarrow> ptr \<Rightarrow> subrange list" where
  "subranges task_size 0 remaining cur_off cur_buf = []"
| "subranges task_size (Suc n) remaining cur_off cur_buf =
     (let k = min task_size remaining
      in \<lparr>sub_size = k, sub_offset = cur_off, sub_buf = cur_buf\<rparr> #
         subranges task_size n (remaining - k) (cur_off + k) (cur_buf + k))"

definition pread_subranges :: "size_t \<Rightarrow> size_t \<Rightarrow> size_t \<Rightarrow> ptr \<Rightarrow> subrange list" where
  "pread_subranges sz file_offset task_size buf =
     subranges task_size (unat (num_subranges sz task_size)) sz file_offset buf"

text \<open>
  One transfer for each sub-range, with the options of its handle: \<open>easy\<close> is the handle it got from the
  pool, \<open>agg_id\<close> the aggregate of the call.
\<close>

definition make_transfer ::
  "'h url_api \<Rightarrow> RemoteEndpoint \<Rightarrow> HttpRetryPolicy \<Rightarrow> bool \<Rightarrow> ptr \<Rightarrow> nat \<Rightarrow> ptr \<Rightarrow> subrange
     \<Rightarrow> (RemoteMultiTransfer \<times> CurlOptions) res"
where
  "make_transfer uapi ep policy is_host_mem cuda_ctx agg_id easy sr =
     bind_res (read_request uapi ep (sub_size sr) (sub_offset sr)) (\<lambda>opts. Inr
       (\<lparr>tr_easy = easy, tr_attached = False,
         tr_ctx = (CallbackContext (if is_host_mem then sub_buf sr else 0) (sub_size sr)),
         tr_aggregate = agg_id, tr_slot = False, is_device = \<not> is_host_mem,
         device_ctx = (if is_host_mem then 0 else cuda_ctx), device_dst = (if is_host_mem then 0 else sub_buf sr),
         tr_buffer = None, attempt = 0, tr_file_offset = sub_offset sr, physical_recorder = False, ready_at = 0,
         tr_policy = policy\<rparr>, opts))"

fun make_transfers ::
  "'h url_api \<Rightarrow> RemoteEndpoint \<Rightarrow> HttpRetryPolicy \<Rightarrow> bool \<Rightarrow> ptr \<Rightarrow> nat \<Rightarrow> ptr list \<Rightarrow> subrange list
     \<Rightarrow> (RemoteMultiTransfer \<times> CurlOptions) list res"
where
  "make_transfers uapi ep policy host_mem cuda_ctx agg_id (easy # easies) (sr # srs) =
     bind_res (make_transfer uapi ep policy host_mem cuda_ctx agg_id easy sr) (\<lambda>t.
     bind_res (make_transfers uapi ep policy host_mem cuda_ctx agg_id easies srs) (\<lambda>ts. Inr (t # ts)))"
| "make_transfers uapi ep policy host_mem cuda_ctx agg_id _ _ = Inr []"

text \<open>The checks of \<open>pread\<close> before anything is recorded, for a non-empty read.\<close>

definition pread_checks ::
  "RemoteHandle \<Rightarrow> RemoteIOBackend \<Rightarrow> bool \<Rightarrow> ptr \<Rightarrow> size_t \<Rightarrow> size_t \<Rightarrow> size_t \<Rightarrow> size_t \<Rightarrow> Registry \<Rightarrow> unit res"
where
  "pread_checks h io_backend is_host_mem thread_pool bounce_size sz file_offset task_size reg =
     bind_res (expect_read_in_bounds h sz file_offset) (\<lambda>_.
     bind_res (expect_not_in_monitor reg) (\<lambda>_.
     bind_res (kvikio_expect (task_size > 0) Invalid_Argument) (\<lambda>_.
       case io_backend of
         EASY_THREADPOOL \<Rightarrow> kvikio_expect (thread_pool \<noteq> 0) CUfile_Exception
       | MULTI_POLL \<Rightarrow>
           if \<not> is_host_mem then kvikio_expect (task_size \<le> bounce_size) Invalid_Argument else Inr ())))"

text \<open>
  The multi-poll path of \<open>pread\<close>: the aggregate is created in the pool under a fresh number, and all
  transfers are handed over in one call.
\<close>

definition pread_multi_poll ::
  "'h url_api \<Rightarrow> HttpRetryPolicy \<Rightarrow> RemoteHandle \<Rightarrow> bool \<Rightarrow> ptr \<Rightarrow> bool \<Rightarrow> ptr \<Rightarrow> size_t \<Rightarrow> size_t \<Rightarrow> size_t \<Rightarrow> nat \<Rightarrow> ptr list
     \<Rightarrow> MultiReactorPool \<Rightarrow> CurlOptions list res \<times> MultiReactorPool"
where
  "pread_multi_poll uapi policy h is_host_mem cuda_ctx recorded buf sz file_offset task_size agg_id easies p =
     (case RemoteMultiAggregateContext recorded (num_subranges sz task_size) of
        Inl e \<Rightarrow> (Inl e, p)
      | Inr a \<Rightarrow>
          (case make_transfers uapi (rh_endpoint h) policy is_host_mem cuda_ctx agg_id easies
                  (pread_subranges sz file_offset task_size buf) of
             Inl e \<Rightarrow> (Inl e, p)
           | Inr ts \<Rightarrow>
               (Inr (map snd ts), submit_pread (map fst ts) (p\<lparr>aggregates := (aggregates p)(agg_id := a)\<rparr>))))"

text \<open>
  \<open>pread\<close> on either backend, with the recorder already created when \<open>recorded\<close> says so. On the thread
  pool a task reads its own part with \<open>read_impl\<close>.
\<close>

datatype pread_future = Ready size_t | Pool_Tasks "submission option" | Multi_Transfers "CurlOptions list"

definition pread_task ::
  "'h url_api \<Rightarrow> (CurlOptions \<Rightarrow> 'e curl_api) \<Rightarrow> ('e \<Rightarrow> byte list list) \<Rightarrow> ('c \<Rightarrow> bool \<times> 'c) \<Rightarrow> read_config
     \<Rightarrow> RemoteHandle \<Rightarrow> ptr \<Rightarrow> bool \<Rightarrow> io_task \<Rightarrow> ('e, 'c) read_state \<Rightarrow> (size_t res \<times> ('e, 'c) read_state) option"
where
  "pread_task uapi conn body copy cf h buf is_host_mem t st =
     read_impl uapi conn body copy cf h (buf + tk_devPtr_offset t) (tk_size t) (tk_file_offset t) is_host_mem st"

definition remote_pread ::
  "'h url_api \<Rightarrow> HttpRetryPolicy \<Rightarrow> RemoteHandle \<Rightarrow> RemoteIOBackend \<Rightarrow> bool \<Rightarrow> ptr \<Rightarrow> ParallelIoOptions \<Rightarrow> size_t \<Rightarrow> size_t
     \<Rightarrow> ptr \<Rightarrow> size_t \<Rightarrow> size_t \<Rightarrow> size_t \<Rightarrow> Registry \<Rightarrow> nat \<Rightarrow> ptr list \<Rightarrow> MultiReactorPool
     \<Rightarrow> pread_future res \<times> MultiReactorPool"
where
  "remote_pread uapi policy h io_backend is_host_mem cuda_ctx opts page_size bounce_size buf sz file_offset task_size
     reg agg_id easies p =
     (if sz = 0 then (Inr (Ready 0), p)
      else case pread_checks h io_backend is_host_mem (pio_thread_pool opts) bounce_size sz file_offset task_size reg of
             Inl e \<Rightarrow> (Inl e, p)
           | Inr _ \<Rightarrow>
               (case io_backend of
                  EASY_THREADPOOL \<Rightarrow>
                    (bind_res (parallel_io reg page_size sz file_offset task_size 0 opts) (\<lambda>s. Inr (Pool_Tasks s)), p)
                | MULTI_POLL \<Rightarrow>
                    let (r, p') = pread_multi_poll uapi policy h is_host_mem cuda_ctx (pio_recorder opts) buf sz file_offset
                                    task_size agg_id easies p
                    in (bind_res r (\<lambda>os. Inr (Multi_Transfers os)), p')))"

subsection \<open>They tile the range\<close>

definition sub_piece :: "subrange \<Rightarrow> size_t \<times> size_t" where
  "sub_piece sr = (sub_offset sr, sub_size sr)"

lemma sub_piece_cons: "sub_piece \<lparr>sub_size = k, sub_offset = off, sub_buf = b\<rparr> = (off, k)"
  by (simp add: sub_piece_def)

text \<open>The number of rounds is the quotient rounded up, when the sum does not wrap.\<close>

lemma num_subranges_ceil:
  assumes "0 < ts" "0 < sz" "sz \<le> ts \<or> unat sz + unat ts \<le> 2 ^ 64"
  shows "unat (num_subranges sz ts) = (unat sz + unat ts - 1) div unat ts"
proof (cases "ts \<ge> sz")
  case True
  then have le: "unat sz \<le> unat ts" "0 < unat sz" "0 < unat ts" using assms by (auto simp: word_le_nat_alt unat_gt_0 word_gt_0)
  have "(unat sz + unat ts - 1) div unat ts = 1"
    using le by (intro div_nat_eqI) simp_all
  with True show ?thesis by (simp add: num_subranges_def)
next
  case False
  then have nowrap: "unat sz + unat ts \<le> 2 ^ 64" using assms(3) by simp
  have pos: "0 < unat sz" "0 < unat ts" using assms by (simp_all add: unat_gt_0 word_gt_0)
  have "1 \<le> ts" using pos by (simp add: word_le_nat_alt)
  then have minus: "unat (ts - 1) = unat ts - 1" by (simp add: unat_minus_no_wrap)
  have "unat (sz + (ts - 1)) = unat sz + (unat ts - 1)"
    using nowrap pos minus by (subst unat_plus_no_wrap) simp_all
  then have "unat (sz + ts - 1) = unat sz + unat ts - 1" using pos by (simp add: algebra_simps)
  with False show ?thesis by (simp add: num_subranges_def unat_div)
qed

lemma subranges_tile:
  assumes "0 < ts" "fits off rem" "unat rem \<le> n * unat ts"
  shows "tiles (unat off) (unat off + unat rem) (map sub_piece (subranges ts n rem off buf)) \<and>
     list_all (\<lambda>sr. sub_size sr \<le> ts \<and> sub_buf sr = buf + (sub_offset sr - off)) (subranges ts n rem off buf)"
  using assms(2,3)
proof (induction n arbitrary: rem off buf)
  case 0
  then show ?case by simp
next
  case (Suc n)
  let ?k = "min ts rem"
  have k: "unat ?k = min (unat ts) (unat rem)" by (rule unat_min_size_t)
  have rest: "unat (rem - ?k) = unat rem - unat ?k" by (intro unat_minus_no_wrap) simp
  have off: "unat (off + ?k) = unat off + unat ?k"
    using Suc.prems(1) k by (intro unat_plus_no_wrap) (simp add: fits_def)
  have "fits (off + ?k) (rem - ?k)" using Suc.prems(1) off rest k by (simp add: fits_def)
  moreover have "unat (rem - ?k) \<le> n * unat ts" 
    using Suc.prems(2) unfolding rest k by (simp add: min_def) linarith
  ultimately have IH: "tiles (unat (off + ?k)) (unat (off + ?k) + unat (rem - ?k))
        (map sub_piece (subranges ts n (rem - ?k) (off + ?k) (buf + ?k)))"
      "list_all (\<lambda>sr. sub_size sr \<le> ts \<and> sub_buf sr = buf + ?k + (sub_offset sr - (off + ?k)))
         (subranges ts n (rem - ?k) (off + ?k) (buf + ?k))"
    using Suc.IH by blast+
  have "unat (off + ?k) + unat (rem - ?k) = unat off + unat rem" using off rest k by simp
  with IH off show ?case by (simp add: sub_piece_cons Let_def list_all_iff algebra_simps)
qed

lemma length_subranges [simp]: "length (subranges ts n rem off buf) = n"
  by (induction n arbitrary: rem off buf) (simp_all add: Let_def)

lemma pread_subranges_tile:
  assumes "0 < ts" "0 < sz" "fits off sz" "sz \<le> ts \<or> unat sz + unat ts \<le> 2 ^ 64"
  shows "tiles (unat off) (unat off + unat sz) (map sub_piece (pread_subranges sz off ts buf)) \<and>
     list_all (\<lambda>sr. sub_size sr \<le> ts \<and> sub_buf sr = buf + (sub_offset sr - off)) (pread_subranges sz off ts buf)"
proof -
  have pos: "0 < unat ts" using assms(1) by (simp add: unat_gt_0 word_gt_0)
  have "unat sz \<le> (unat sz + unat ts - 1) div unat ts * unat ts"
    using pos dividend_less_times_div [of "unat ts" "unat sz + unat ts - 1"] by (simp add: mult.commute)
  then show ?thesis
    unfolding pread_subranges_def num_subranges_ceil [OF assms(1,2,4)]
    by (rule subranges_tile [OF assms(1,3)])
qed


lemma length_pread_subranges [simp]: "length (pread_subranges sz off ts buf) = unat (num_subranges sz ts)"
  by (simp add: pread_subranges_def)

section \<open>A multi-poll read as a whole\<close>

definition transfer_piece :: "RemoteMultiTransfer \<Rightarrow> size_t \<times> size_t" where
  "transfer_piece tr = (tr_file_offset tr, ctx_size (tr_ctx tr))"

text \<open>Where the bytes of a transfer go in the end.\<close>

definition transfer_target :: "RemoteMultiTransfer \<Rightarrow> ptr" where
  "transfer_target tr = (if is_device tr then device_dst tr else ctx_buf (tr_ctx tr))"

lemma make_transfer_Inr:
  assumes "make_transfer uapi ep policy host_mem cuda_ctx agg_id easy sr = Inr t"
  shows "transfer_piece (fst t) = sub_piece sr \<and> transfer_target (fst t) = sub_buf sr \<and>
    tr_aggregate (fst t) = agg_id \<and> read_request uapi ep (sub_size sr) (sub_offset sr) = Inr (snd t)"
  using assms by (auto simp: make_transfer_def bind_res_Inr_iff transfer_piece_def transfer_target_def
      sub_piece_def CallbackContext_def)

lemma make_transfers_Inr:
  assumes "make_transfers uapi ep policy host_mem cuda_ctx agg_id easies srs = Inr ts" "length easies = length srs"
  shows "list_all2 (\<lambda>t sr. transfer_piece (fst t) = sub_piece sr \<and> transfer_target (fst t) = sub_buf sr \<and>
    tr_aggregate (fst t) = agg_id \<and> read_request uapi ep (sub_size sr) (sub_offset sr) = Inr (snd t)) ts srs"
  using assms
proof (induction easies srs arbitrary: ts rule: list_induct2')
  case (4 easy easies sr srs)
  then obtain t ts' where t: "make_transfer uapi ep policy host_mem cuda_ctx agg_id easy sr = Inr t"
      "make_transfers uapi ep policy host_mem cuda_ctx agg_id easies srs = Inr ts'" "ts = t # ts'"
    by (auto simp: bind_res_Inr_iff)
  show ?case unfolding t(3) using make_transfer_Inr [OF t(1)] "4.IH" [OF t(2)] "4.prems"(2) by simp
qed simp_all

text \<open>Reports of success, in any number: the last one sets the promise with the sum.\<close>

lemma complete_all:
  assumes "length ns = unat (subranges_left a)" "ns \<noteq> []"
  shows "fold on_subrange_complete ns a =
    fulfil (a\<lparr>total_bytes := total_bytes a + sum_list ns, subranges_left := 0\<rparr>)"
  using assms
proof (induction ns arbitrary: a)
  case Nil
  then show ?case by simp
next
  case (Cons n ns)
  show ?case
  proof (cases ns)
    case Nil
    with Cons.prems have "subranges_left a = 1" by (simp add: word_unat_eq_iff)
    with Nil show ?thesis
      by (simp add: on_subrange_complete_report report_subrange_def note_report_def decrement_left_def)
  next
    case (Cons m ms)
    then have many: "1 < unat (subranges_left a)" "subranges_left a \<noteq> 1" using Cons.prems by auto
    then have left: "unat (subranges_left a - 1) = unat (subranges_left a) - 1"
      by (simp add: unat_minus_no_wrap word_le_nat_alt)
    have one: "on_subrange_complete n a = a\<lparr>total_bytes := total_bytes a + n, subranges_left := subranges_left a - 1\<rparr>"
      using many by (simp add: on_subrange_complete_report report_subrange_def note_report_def decrement_left_def)
    show ?thesis using Cons.IH [of "on_subrange_complete n a"] Cons Cons.prems left
      by (simp add: one algebra_simps)
  qed
qed


lemma list_all2_maps:
  assumes "list_all2 (\<lambda>t x. f t = g x \<and> Q t x) ts xs"
  shows "map f ts = map g xs"
  using assms by (induction rule: list_all2_induct) auto

text \<open>What a multi-poll \<open>pread\<close> that returns has done.\<close>

lemma remote_pread_multi_poll_Inr:
  assumes run: "remote_pread uapi policy h MULTI_POLL host_mem cuda_ctx opts page bounce buf sz off ts reg agg_id easies p
        = (Inr fut, p')"
    and size: "0 < sz"
    and pool: "\<not> dead p" "length easies = unat (num_subranges sz ts)"
  obtains tos a where "RemoteMultiAggregateContext (pio_recorder opts) (num_subranges sz ts) = Inr a"
    and "list_all2 (\<lambda>t sr. transfer_piece (fst t) = sub_piece sr \<and> transfer_target (fst t) = sub_buf sr \<and>
      tr_aggregate (fst t) = agg_id \<and> read_request uapi (rh_endpoint h) (sub_size sr) (sub_offset sr) = Inr (snd t))
      tos (pread_subranges sz off ts buf)"
    and "fut = Multi_Transfers (map snd tos)" and "queue p' = queue p @ map fst tos" and "aggregates p' agg_id = a"
    and "0 < ts" and "fits off sz"
proof -
  from run size have checks: "pread_checks h MULTI_POLL host_mem (pio_thread_pool opts) bounce sz off ts reg = Inr ()"
    and multi: "\<exists>os. pread_multi_poll uapi policy h host_mem cuda_ctx (pio_recorder opts) buf sz off ts agg_id easies p
        = (Inr os, p') \<and> fut = Multi_Transfers os"
    by (auto simp: remote_pread_def word_gt_0 bind_res_Inr_iff split: sum.splits prod.splits)
  from checks have adm: "0 < ts" "fits off sz"
    by (auto simp: pread_checks_def bind_res_Inr_iff expect_read_in_bounds_def kvikio_expect_def
        intro: in_bounds_fits split: if_splits)
  from multi obtain a tos where a: "RemoteMultiAggregateContext (pio_recorder opts) (num_subranges sz ts) = Inr a"
    and tos: "make_transfers uapi (rh_endpoint h) policy host_mem cuda_ctx agg_id easies (pread_subranges sz off ts buf) = Inr tos"
    and fut: "fut = Multi_Transfers (map snd tos)"
    and p': "p' = submit_pread (map fst tos) (p\<lparr>aggregates := (aggregates p)(agg_id := a)\<rparr>)"
    by (auto simp: pread_multi_poll_def split: sum.splits)
  show thesis
  proof (rule that [OF a])
    show "list_all2 (\<lambda>t sr. transfer_piece (fst t) = sub_piece sr \<and> transfer_target (fst t) = sub_buf sr \<and>
      tr_aggregate (fst t) = agg_id \<and> read_request uapi (rh_endpoint h) (sub_size sr) (sub_offset sr) = Inr (snd t))
      tos (pread_subranges sz off ts buf)" using make_transfers_Inr [OF tos] pool(2) by simp
  qed (use p' pool(1) fut adm in \<open>simp_all add: submit_pread_def\<close>)
qed

text \<open>Every sub-range completing, in any order, sets the promise to the size of the read.\<close>

lemma aggregate_completes:
  assumes "RemoteMultiAggregateContext rec n = Inr a" "length ns = unat n" "sum_list ns = sz"
  shows "agg_effects (fold on_subrange_complete ns a) = (if rec then [Recorder_Finish sz] else []) @ [Promise_Value sz]"
proof -
  from assms(1) have a: "a = \<lparr>subranges_left = n, total_bytes = 0, first_exception = None, has_recorder = rec, agg_effects = []\<rparr>"
    and n: "0 < unat n"
    by (auto simp: RemoteMultiAggregateContext_def bind_res_Inr_iff kvikio_expect_def word_gt_0 unat_gt_0 split: if_splits)
  have "ns \<noteq> []" using n assms(2) by auto
  then show ?thesis using complete_all [of ns a] assms(2,3) by (simp add: a fulfil_def)
qed

lemma any_order_sum:
  assumes "tiles lo (lo + unat (sz :: size_t)) (map transfer_piece trs)" "mset ds = mset trs"
  shows "sum_list (map (\<lambda>tr. ctx_size (tr_ctx tr)) ds) = sz"
proof -
  have "of_nat (sum_list (map (unat \<circ> snd) (map transfer_piece trs))) = sum_list (map (\<lambda>tr. ctx_size (tr_ctx tr)) trs)"
    by (induction trs) (simp_all add: transfer_piece_def)
  moreover have "sum_list (map (unat \<circ> snd) (map transfer_piece trs)) = unat sz" using tiles_sum [OF assms(1)] by simp
  ultimately have "sum_list (map (\<lambda>tr. ctx_size (tr_ctx tr)) trs) = sz" by simp
  then show ?thesis using assms(2) by (metis mset_map sum_mset_sum_list)
qed

text \<open>
  C9. A non-empty \<open>pread\<close> on the multi-poll backend that passes its checks puts on the queue one transfer
  per sub-range, as many as the aggregate waits for, and none else changes. The transfers cover the
  range exactly, none is longer than the task size, each asks for its own part and writes to its own
  place in the buffer. So in whatever order they complete, the buffer ends as after one read of the
  whole range, and the caller's promise is set once, to the size. The hypothesis on the sizes excludes
  the wrap-around of the rounding in the number of sub-ranges.
\<close>

theorem multi_poll_pread_reads_all:
  assumes run: "remote_pread uapi policy h MULTI_POLL host_mem cuda_ctx opts page bounce buf sz off ts reg agg_id easies p
        = (Inr fut, p')"
    and size: "0 < sz" "sz \<le> ts \<or> unat sz + unat ts \<le> 2 ^ 64"
    and pool: "\<not> dead p" "length easies = unat (num_subranges sz ts)"
  shows "\<exists>trs. queue p' = queue p @ trs \<and>
     length trs = unat (subranges_left (aggregates p' agg_id)) \<and>
     list_all (\<lambda>tr. tr_aggregate tr = agg_id \<and> ctx_size (tr_ctx tr) \<le> ts \<and>
        transfer_target tr = buf + (tr_file_offset tr - off)) trs \<and>
     concat (map (piece_bytes \<circ> transfer_piece) trs) = [unat off ..< unat off + unat sz] \<and>
     (\<exists>os. fut = Multi_Transfers os \<and> list_all2 (\<lambda>o' tr. read_request uapi (rh_endpoint h) (ctx_size (tr_ctx tr)) (tr_file_offset tr) = Inr o') os trs) \<and>
     (\<forall>ds. mset ds = mset trs \<longrightarrow>
        fold (copy_piece file buf off) (map transfer_piece ds) m = copy_piece file buf off (off, sz) m \<and>
        agg_effects (fold (\<lambda>tr. on_subrange_complete (ctx_size (tr_ctx tr))) ds (aggregates p' agg_id)) =
          (if pio_recorder opts then [Recorder_Finish sz] else []) @ [Promise_Value sz])"
proof -
  obtain tos a where a: "RemoteMultiAggregateContext (pio_recorder opts) (num_subranges sz ts) = Inr a"
    and all2: "list_all2 (\<lambda>t sr. transfer_piece (fst t) = sub_piece sr \<and> transfer_target (fst t) = sub_buf sr \<and>
      tr_aggregate (fst t) = agg_id \<and> read_request uapi (rh_endpoint h) (sub_size sr) (sub_offset sr) = Inr (snd t))
      tos (pread_subranges sz off ts buf)"
    and built: "fut = Multi_Transfers (map snd tos)" "queue p' = queue p @ map fst tos" "aggregates p' agg_id = a"
    and adm: "0 < ts" "fits off sz"
    by (rule remote_pread_multi_poll_Inr [OF run size(1) pool])
  let ?trs = "map fst tos" and ?srs = "pread_subranges sz off ts buf"
  have pieces: "map transfer_piece ?trs = map sub_piece ?srs"
    using list_all2_maps [of "transfer_piece \<circ> fst" sub_piece _ tos ?srs] all2 by (simp add: comp_def)
  have left: "length tos = unat (num_subranges sz ts)" "subranges_left a = num_subranges sz ts"
    using list_all2_lengthD [OF all2] a by (auto simp: RemoteMultiAggregateContext_def bind_res_Inr_iff)
  have tile: "tiles (unat off) (unat off + unat sz) (map transfer_piece ?trs)"
    and srs: "list_all (\<lambda>sr. sub_size sr \<le> ts \<and> sub_buf sr = buf + (sub_offset sr - off)) ?srs"
    using pread_subranges_tile [OF adm(1) size(1) adm(2) size(2), of buf] unfolding pieces by simp_all
  have each: "list_all (\<lambda>tr. tr_aggregate tr = agg_id \<and> ctx_size (tr_ctx tr) \<le> ts \<and>
        transfer_target tr = buf + (tr_file_offset tr - off)) ?trs"
    using all2 srs by (auto simp: list_all2_conv_all_nth list_all_length transfer_piece_def sub_piece_def)
  have requests: "list_all2 (\<lambda>o' tr. read_request uapi (rh_endpoint h) (ctx_size (tr_ctx tr)) (tr_file_offset tr) = Inr o')
      (map snd tos) ?trs"
    using all2 by (auto simp: list_all2_conv_all_nth transfer_piece_def sub_piece_def)
  have "fold (copy_piece file buf off) (map transfer_piece ds) m = copy_piece file buf off (off, sz) m \<and>
        agg_effects (fold (\<lambda>tr. on_subrange_complete (ctx_size (tr_ctx tr))) ds a) =
          (if pio_recorder opts then [Recorder_Finish sz] else []) @ [Promise_Value sz]"
    if "mset ds = mset ?trs" for ds
    using tiles_any_order_memory [OF tile adm(2), of "map transfer_piece ds" "file" buf m]
      arg_cong [OF that, of "image_mset transfer_piece"]
      aggregate_completes [OF a, of "map (\<lambda>tr. ctx_size (tr_ctx tr)) ds" sz] any_order_sum [OF tile that]
      mset_eq_length [OF that] left
    by (simp add: fold_map comp_def del: map_map)
  with built left each requests tiles_bytes [OF tile] show ?thesis
    by (intro exI [of _ ?trs]) (auto simp: comp_def)
qed


definition demo_pool :: MultiReactorPool where
  "demo_pool = \<lparr>reactor_count = 1, queue = [], queue_size_hint = 0, dead = False, death_reason = None,
     aggregates = (\<lambda>_. \<lparr>subranges_left = 0, total_bytes = 0, first_exception = None, has_recorder = False, agg_effects = []\<rparr>),
     reported = []\<rparr>"

definition demo_policy :: HttpRetryPolicy where
  "demo_policy = \<lparr>max_attempts = 3, retryable_status_codes = [], base_delay_ms = 500, max_delay_ms = 4000\<rparr>"

definition demo_pread :: "pread_future res \<times> MultiReactorPool" where
  "demo_pread = remote_pread (demo_url_api ''http'' ''/f'') demo_policy
     (new_remote_handle (HttpEndpoint ''http://h/f'') 100) MULTI_POLL True 0
     \<lparr>pio_thread_pool = 0, pio_call_idx = 0, pio_first_task_size = None, pio_recorder = True\<rparr>
     4096 65536 1000 10 3 4 empty_registry 7 [11, 12, 13] demo_pool"

text \<open>Ten bytes in tasks of four: three transfers, here completing from the last to the first.\<close>

lemma demo_subranges:
  "pread_subranges 10 3 4 1000 = [\<lparr>sub_size = 4, sub_offset = 3, sub_buf = 1000\<rparr>,
     \<lparr>sub_size = 4, sub_offset = 7, sub_buf = 1004\<rparr>, \<lparr>sub_size = 2, sub_offset = 11, sub_buf = 1008\<rparr>]"
  by code_simp

lemma demo_pread_runs: "\<exists>fut p' :: MultiReactorPool. demo_pread = (Inr fut, p') \<and> map transfer_piece (queue p') = [(3, 4), (7, 4), (11, 2)]"
  by (simp add: demo_pread_def remote_pread_def pread_checks_def pread_multi_poll_def demo_subranges make_transfer_def
      expect_read_in_bounds_def is_read_out_of_bounds_def expect_not_in_monitor_def empty_registry_def
      read_request_def setup_range_request_impl_def new_remote_handle_def RemoteMultiAggregateContext_def
      num_subranges_def submit_pread_def demo_pool_def transfer_piece_def CallbackContext_def res_simps)

theorem multi_poll_pread_reads_all_witness:
  "\<exists>fut p'. demo_pread = (Inr fut, p') \<and>
     map transfer_piece (queue p') = [(3, 4), (7, 4), (11, 2)] \<and>
     fold (copy_piece demo_file 1000 3) (map transfer_piece (rev (queue p'))) (\<lambda>_. 0) = copy_piece demo_file 1000 3 (3, 10) (\<lambda>_. 0) \<and>
     agg_effects (fold (\<lambda>tr. on_subrange_complete (ctx_size (tr_ctx tr))) (rev (queue p')) (aggregates p' 7)) =
       [Recorder_Finish 10, Promise_Value 10]"
proof -
  obtain fut p' where run: "demo_pread = (Inr fut, p')" and pieces: "map transfer_piece (queue p') = [(3, 4), (7, 4), (11, 2)]"
    using demo_pread_runs by metis
  have len: "length [11, 12, 13 :: ptr] = unat (num_subranges 10 4)" by (simp add: num_subranges_def)
  obtain trs where "queue p' = queue demo_pool @ trs"
    "\<forall>ds. mset ds = mset trs \<longrightarrow>
        fold (copy_piece demo_file 1000 3) (map transfer_piece ds) (\<lambda>_. 0) = copy_piece demo_file 1000 3 (3, 10) (\<lambda>_. 0) \<and>
        agg_effects (fold (\<lambda>tr. on_subrange_complete (ctx_size (tr_ctx tr))) ds (aggregates p' 7)) =
          [Recorder_Finish 10] @ [Promise_Value 10]"
    using multi_poll_pread_reads_all [OF run [unfolded demo_pread_def], of demo_file "\<lambda>_. 0"] len
    by (auto simp: demo_pool_def)
  then have "queue p' = trs"
    and "fold (copy_piece demo_file 1000 3) (map transfer_piece (rev trs)) (\<lambda>_. 0) = copy_piece demo_file 1000 3 (3, 10) (\<lambda>_. 0)"
    and "agg_effects (fold (\<lambda>tr. on_subrange_complete (ctx_size (tr_ctx tr))) (rev trs) (aggregates p' 7)) =
      [Recorder_Finish 10, Promise_Value 10]"
    by (simp_all add: demo_pool_def)
  with run pieces show ?thesis by metis
qed

end
