(* ===== verification/File_Utils.thy ===== *)
theory File_Utils
  imports Align
begin

text \<open>
  File descriptors and their helpers: \<open>cpp/src/file_utils.cpp\<close>. \<open>FileWrapper\<close> owns a descriptor
  (-1 is none), \<open>CUFileHandleWrapper\<close> a cuFile registration; \<open>open_fd_parse_flags\<close> translates open
  modes; \<open>get_page_cache_info\<close> counts the resident pages of a part of a file. The system calls and
  the cuFile calls are parameters: each acts on an outside state and returns an error number or a
  value. Descriptors are integers as in the code.
\<close>

section \<open>System calls\<close>

record 'o file_api =
  sys_open :: "string \<Rightarrow> 32 word \<Rightarrow> nat \<Rightarrow> 'o \<Rightarrow> (nat + int) \<times> 'o"
  sys_close :: "int \<Rightarrow> 'o \<Rightarrow> (nat + unit) \<times> 'o"
  sys_getfl :: "int \<Rightarrow> 'o \<Rightarrow> (nat + int) \<times> 'o"
  sys_fstat_size :: "int \<Rightarrow> 'o \<Rightarrow> (nat + size_t) \<times> 'o"
  sys_mmap :: "size_t \<Rightarrow> nat \<Rightarrow> int \<Rightarrow> int \<Rightarrow> size_t \<Rightarrow> 'o \<Rightarrow> (nat + ptr) \<times> 'o"
  sys_munmap :: "ptr \<Rightarrow> size_t \<Rightarrow> 'o \<Rightarrow> (nat + unit) \<times> 'o"
  sys_mincore :: "ptr \<Rightarrow> size_t \<Rightarrow> 'o \<Rightarrow> (nat + byte list) \<times> 'o"
  sys_fdatasync :: "int \<Rightarrow> 'o \<Rightarrow> (nat + unit) \<times> 'o"
  sys_fadvise_dontneed :: "int \<Rightarrow> size_t \<Rightarrow> size_t \<Rightarrow> 'o \<Rightarrow> (nat + unit) \<times> 'o"

text \<open>\<open>KVIKIO_SYSCALL_CHECK\<close>: a failed call throws \<open>GenericSystemError\<close> with its error number.\<close>

definition check_linux_call :: "(nat + 'a) \<times> 'o \<Rightarrow> 'a res \<times> 'o" where
  "check_linux_call r = (case r of (Inl errno, w) \<Rightarrow> (Inl (Generic_System_Error errno), w) | (Inr x, w) \<Rightarrow> (Inr x, w))"

lemma check_linux_call_simps [simp]:
  "check_linux_call (Inl errno, w) = (Inl (Generic_System_Error errno), w)"
  "check_linux_call (Inr x, w) = (Inr x, w)"
  by (simp_all add: check_linux_call_def)

section \<open>Open modes\<close>

text \<open>The flag values of Linux.\<close>

definition O_RDONLY :: "32 word" where "O_RDONLY = 0"

definition O_WRONLY :: "32 word" where "O_WRONLY = 1"

definition O_RDWR :: "32 word" where "O_RDWR = 2"

definition O_CREAT :: "32 word" where "O_CREAT = 0x40"

definition O_TRUNC :: "32 word" where "O_TRUNC = 0x200"

definition O_DIRECT :: "32 word" where "O_DIRECT = 0x4000"

definition O_CLOEXEC :: "32 word" where "O_CLOEXEC = 0x80000"

lemmas open_flag_defs = O_RDONLY_def O_WRONLY_def O_RDWR_def O_CREAT_def O_TRUNC_def O_DIRECT_def O_CLOEXEC_def

definition open_fd_parse_flags :: "string \<Rightarrow> bool \<Rightarrow> 32 word res" where
  "open_fd_parse_flags flags o_direct =
     bind_res (kvikio_expect (flags \<noteq> []) Invalid_Argument) (\<lambda>_.
     bind_res
       (let plus = length flags > 1 \<and> flags ! 1 = CHR ''+'' in
        if flags ! 0 = CHR ''r'' then Inr (if plus then O_RDWR else O_RDONLY)
        else if flags ! 0 = CHR ''w'' then Inr ((if plus then O_RDWR else O_WRONLY) OR (O_CREAT OR O_TRUNC))
        else Inl Invalid_Argument) (\<lambda>file_flags.
     let file_flags = file_flags OR O_CLOEXEC
     in Inr (if o_direct then file_flags OR O_DIRECT else file_flags)))"

definition open_fd :: "'o file_api \<Rightarrow> string \<Rightarrow> string \<Rightarrow> bool \<Rightarrow> nat \<Rightarrow> 'o \<Rightarrow> int res \<times> 'o" where
  "open_fd api file_path flags o_direct mode w =
     (case open_fd_parse_flags flags o_direct of
        Inl e \<Rightarrow> (Inl e, w)
      | Inr file_flags \<Rightarrow> check_linux_call (sys_open api file_path file_flags mode w))"

definition open_flags :: "'o file_api \<Rightarrow> int \<Rightarrow> 'o \<Rightarrow> int res \<times> 'o" where
  "open_flags api fd w = check_linux_call (sys_getfl api fd w)"

text \<open>A mode that reads never creates or truncates the file, and every descriptor is closed on exec.\<close>

lemma open_fd_parse_flags_cases:
  assumes "open_fd_parse_flags flags o_direct = Inr f"
  shows "f AND O_CLOEXEC = O_CLOEXEC \<and> (f AND O_DIRECT = O_DIRECT \<longleftrightarrow> o_direct) \<and>
    (if flags ! 0 = CHR ''r'' then f AND (O_CREAT OR O_TRUNC) = 0
     else flags ! 0 = CHR ''w'' \<and> f AND (O_CREAT OR O_TRUNC) = O_CREAT OR O_TRUNC)"
  using assms by (auto simp: open_fd_parse_flags_def open_flag_defs bind_res_Inr_iff Let_def split: if_splits)

section \<open>The owner of a descriptor\<close>

record FileWrapper =
  fd :: int

definition no_file :: FileWrapper where
  "no_file = \<lparr>fd = -1\<rparr>"

definition opened :: "FileWrapper \<Rightarrow> bool" where
  "opened fw \<longleftrightarrow> fd fw \<noteq> -1"

definition file_open ::
  "'o file_api \<Rightarrow> string \<Rightarrow> string \<Rightarrow> bool \<Rightarrow> nat \<Rightarrow> FileWrapper \<Rightarrow> 'o \<Rightarrow> unit res \<times> FileWrapper \<times> 'o"
where
  "file_open api file_path flags o_direct mode fw w =
     (if opened fw then (Inr (), fw, w)
      else case open_fd api file_path flags o_direct mode w of
             (Inl e, w1) \<Rightarrow> (Inl e, fw, w1)
           | (Inr d, w1) \<Rightarrow> (Inr (), fw\<lparr>fd := d\<rparr>, w1))"

text \<open>\<open>close\<close> is \<open>noexcept\<close>: a failed call is logged, and the descriptor is forgotten all the same.\<close>

definition file_close :: "'o file_api \<Rightarrow> FileWrapper \<Rightarrow> 'o \<Rightarrow> FileWrapper \<times> 'o" where
  "file_close api fw w = (if opened fw then (fw\<lparr>fd := -1\<rparr>, snd (sys_close api (fd fw) w)) else (fw, w))"

text \<open>The constructor: when \<open>open\<close> throws, there is no object and nothing to close.\<close>

definition new_file_wrapper ::
  "'o file_api \<Rightarrow> string \<Rightarrow> string \<Rightarrow> bool \<Rightarrow> nat \<Rightarrow> 'o \<Rightarrow> FileWrapper res \<times> 'o"
where
  "new_file_wrapper api file_path flags o_direct mode w =
     (case file_open api file_path flags o_direct mode no_file w of
        (Inl e, _, w1) \<Rightarrow> (Inl e, w1)
      | (Inr _, fw, w1) \<Rightarrow> (Inr fw, w1))"

text \<open>Moving: the new owner and what is left in the old one. Assignment closes the target first.\<close>

definition file_move :: "FileWrapper \<Rightarrow> FileWrapper \<times> FileWrapper" where
  "file_move other = (\<lparr>fd = fd other\<rparr>, other\<lparr>fd := -1\<rparr>)"

definition file_move_assign ::
  "'o file_api \<Rightarrow> FileWrapper \<Rightarrow> FileWrapper \<Rightarrow> 'o \<Rightarrow> (FileWrapper \<times> FileWrapper) \<times> 'o"
where
  "file_move_assign api this other w =
     (let (this1, w1) = file_close api this w in ((this1\<lparr>fd := fd other\<rparr>, other\<lparr>fd := -1\<rparr>), w1))"

section \<open>The owner of a cuFile registration\<close>

record CUFileHandleWrapper =
  cu_handle :: ptr
  cu_registered :: bool

text \<open>The cuFile calls: registration returns an error code, 0 for success, and the handle.\<close>

record 'o cufile_api =
  handle_register :: "int \<Rightarrow> 'o \<Rightarrow> (int \<times> ptr) \<times> 'o"
  handle_deregister :: "ptr \<Rightarrow> 'o \<Rightarrow> 'o"

definition no_registration :: CUFileHandleWrapper where
  "no_registration = \<lparr>cu_handle = 0, cu_registered = False\<rparr>"

definition register_handle :: "'o cufile_api \<Rightarrow> int \<Rightarrow> CUFileHandleWrapper \<Rightarrow> 'o \<Rightarrow> int option \<times> CUFileHandleWrapper \<times> 'o" where
  "register_handle api d h w =
     (if cu_registered h then (None, h, w)
      else let ((err, hd'), w1) = handle_register api d w;
               h1 = h\<lparr>cu_handle := hd'\<rparr>
           in (Some err, if err = 0 then h1\<lparr>cu_registered := True\<rparr> else h1, w1))"

definition unregister_handle :: "'o cufile_api \<Rightarrow> CUFileHandleWrapper \<Rightarrow> 'o \<Rightarrow> CUFileHandleWrapper \<times> 'o" where
  "unregister_handle api h w =
     (if cu_registered h then (h\<lparr>cu_registered := False\<rparr>, handle_deregister api (cu_handle h) w) else (h, w))"

definition handle_move :: "CUFileHandleWrapper \<Rightarrow> CUFileHandleWrapper \<times> CUFileHandleWrapper" where
  "handle_move other = (other, no_registration)"

definition handle_move_assign ::
  "'o cufile_api \<Rightarrow> CUFileHandleWrapper \<Rightarrow> CUFileHandleWrapper \<Rightarrow> 'o \<Rightarrow> (CUFileHandleWrapper \<times> CUFileHandleWrapper) \<times> 'o"
where
  "handle_move_assign api this other w = (let (_, w1) = unregister_handle api this w in ((other, no_registration), w1))"

section \<open>Sizes and the page cache\<close>

definition m644 :: nat where
  "m644 = 0x1A4"

definition get_file_size :: "'o file_api \<Rightarrow> int \<Rightarrow> 'o \<Rightarrow> size_t res \<times> 'o" where
  "get_file_size api file_descriptor w = check_linux_call (sys_fstat_size api file_descriptor w)"

text \<open>By path: when the size cannot be read, the descriptor is not closed.\<close>

definition get_file_size_of_path :: "'o file_api \<Rightarrow> string \<Rightarrow> 'o \<Rightarrow> size_t res \<times> 'o" where
  "get_file_size_of_path api file_path w =
     (case open_fd api file_path ''r'' False m644 w of
        (Inl e, w1) \<Rightarrow> (Inl e, w1)
      | (Inr d, w1) \<Rightarrow>
          (case get_file_size api d w1 of
             (Inl e, w2) \<Rightarrow> (Inl e, w2)
           | (Inr n, w2) \<Rightarrow>
               (case check_linux_call (sys_close api d w2) of
                  (Inl e, w3) \<Rightarrow> (Inl e, w3)
                | (Inr _, w3) \<Rightarrow> (Inr n, w3))))"

definition PROT_READ :: nat where "PROT_READ = 1"

definition MAP_PRIVATE :: int where "MAP_PRIVATE = 2"

text \<open>The length mapped for a query: to the end of the file, or to the end of the part asked for.\<close>

definition padded_length :: "size_t \<Rightarrow> size_t \<Rightarrow> size_t \<Rightarrow> size_t \<Rightarrow> size_t" where
  "padded_length file_size aligned_offset off len =
     (if len = 0 then file_size - aligned_offset else min file_size (len + off) - aligned_offset)"

text \<open>
  The pages in the cache and all pages of the part. The mapping is removed at the end of the scope by
  a guard, which logs and drops what its action throws.
\<close>

definition count_resident ::
  "'o file_api \<Rightarrow> size_t \<Rightarrow> ptr \<Rightarrow> size_t \<Rightarrow> 'o \<Rightarrow> (size_t \<times> size_t) res \<times> 'o"
where
  "count_resident api page_size addr padded w =
     (let num_pages = (padded + page_size - 1) div page_size
      in case check_linux_call (sys_mincore api addr padded w) of
           (Inl e, w1) \<Rightarrow> (Inl e, w1)
         | (Inr is_in_page_cache, w1) \<Rightarrow>
             (Inr (of_nat (length (filter (\<lambda>b. b AND 1 \<noteq> 0) (take (unat num_pages) is_in_page_cache))), num_pages), w1))"

definition get_page_cache_info ::
  "'o file_api \<Rightarrow> size_t \<Rightarrow> int \<Rightarrow> size_t \<Rightarrow> size_t \<Rightarrow> 'o \<Rightarrow> (size_t \<times> size_t) res \<times> 'o"
where
  "get_page_cache_info api page_size d off len w =
     (case align_down off page_size of
        Inl e \<Rightarrow> (Inl e, w)
      | Inr aligned_offset \<Rightarrow>
          (case get_file_size api d w of
             (Inl e, w1) \<Rightarrow> (Inl e, w1)
           | (Inr file_size, w1) \<Rightarrow>
               if off \<ge> file_size then (Inr (0, 0), w1)
               else let padded = padded_length file_size aligned_offset off len
                    in case check_linux_call (sys_mmap api padded PROT_READ MAP_PRIVATE d aligned_offset w1) of
                         (Inl e, w2) \<Rightarrow> (Inl e, w2)
                       | (Inr addr, w2) \<Rightarrow>
                           let (r, w3) = count_resident api page_size addr padded w2
                           in (r, snd (sys_munmap api addr padded w3))))"

definition get_page_cache_info_of_path ::
  "'o file_api \<Rightarrow> size_t \<Rightarrow> string \<Rightarrow> size_t \<Rightarrow> size_t \<Rightarrow> 'o \<Rightarrow> (size_t \<times> size_t) res \<times> 'o"
where
  "get_page_cache_info_of_path api page_size file_path off len w =
     (case open_fd api file_path ''r'' False m644 w of
        (Inl e, w1) \<Rightarrow> (Inl e, w1)
      | (Inr d, w1) \<Rightarrow>
          let (r, w2) = get_page_cache_info api page_size d off len w1 in (r, snd (sys_close api d w2)))"

definition drop_file_page_cache :: "'o file_api \<Rightarrow> int \<Rightarrow> size_t \<Rightarrow> size_t \<Rightarrow> bool \<Rightarrow> 'o \<Rightarrow> unit res \<times> 'o" where
  "drop_file_page_cache api d off len sync_first w =
     (case (if sync_first then check_linux_call (sys_fdatasync api d w) else (Inr (), w)) of
        (Inl e, w1) \<Rightarrow> (Inl e, w1)
      | (Inr _, w1) \<Rightarrow> check_linux_call (sys_fadvise_dontneed api d off len w1))"

definition drop_file_page_cache_of_path ::
  "'o file_api \<Rightarrow> string \<Rightarrow> size_t \<Rightarrow> size_t \<Rightarrow> bool \<Rightarrow> 'o \<Rightarrow> unit res \<times> 'o"
where
  "drop_file_page_cache_of_path api file_path off len sync_first w =
     (case new_file_wrapper api file_path ''r'' False m644 w of
        (Inl e, w1) \<Rightarrow> (Inl e, w1)
      | (Inr fw, w1) \<Rightarrow>
          (let (r, w2) = drop_file_page_cache api (fd fw) off len sync_first w1
           in (r, snd (file_close api fw w2))))"

text \<open>No more pages are counted as resident than there are, and the pages cover the part asked for.\<close>

lemma page_cache_info_bounded:
  assumes "get_page_cache_info api page_size d off len w = (Inr (resident, pages), w')"
  shows "resident \<le> pages"
proof -
  have "of_nat (length (filter P (take (unat n) bs))) \<le> n" for P :: "byte \<Rightarrow> bool" and n :: size_t and bs
  proof -
    have "length (filter P (take (unat n) bs)) \<le> unat n"
      using length_filter_le [of P "take (unat n) bs"] by simp
    then show ?thesis using size_t_range [of n] by (simp add: word_le_nat_alt unat_of_nat_size_t)
  qed
  with assms show ?thesis
    by (auto simp: get_page_cache_info_def count_resident_def Let_def split: sum.splits prod.splits if_splits)
qed

lemma padded_length_covers:
  assumes "align_down off page_size = Inr ao" "off < file_size" "len \<noteq> 0" "fits len off"
  shows "unat ao + unat (padded_length file_size ao off len) = min (unat file_size) (unat len + unat off)"
proof -
  have "is_power_of_2 page_size" using assms(1) by (auto simp: align_down_def bind_res_Inr_iff)
  then have "unat ao = unat off div unat page_size * unat page_size"
    using align_down_eq [of page_size off] assms(1) by (metis sum.inject(2))
  then have "unat ao \<le> unat off" by simp
  moreover have "unat (min file_size (len + off)) = min (unat file_size) (unat len + unat off)"
    using assms(4) by (simp add: unat_min_size_t unat_plus_fits)
  moreover from this calculation assms(2) have "ao \<le> min file_size (len + off)" by (simp add: word_le_nat_alt word_less_nat_alt)
  ultimately show ?thesis
    using assms(3) by (simp add: padded_length_def unat_minus_no_wrap word_le_nat_alt)
qed

text \<open>The end of the part is computed without a check: where it wraps, the length mapped is wrong.\<close>

lemma padded_length_wraps: "padded_length 8192 4096 5000 (- 1) = 903"
  by (simp add: padded_length_def)

end
