(* ===== verification/Task_Run.thy ===== *)
theory Task_Run
  imports Parallel_IO
begin

text \<open>
  Running the tasks of a parallel read. A client of \<open>parallel_io\<close> supplies the operation that a task
  performs; the locale \<open>task_reader\<close> states what the clients of the library promise about it, that a
  task inside the range moves its bytes of the file to its part of the buffer and keeps an invariant
  of the state, and derives what a caller sees: in whatever order the tasks of a call run, the buffer
  ends as after one read of the whole range. The memory-mapped file, the host path and the device
  path of a file handle are its instances.
\<close>

section \<open>Tasks one after another\<close>

text \<open>The order is the one in which the pool's threads perform the operations; \<open>None\<close> if one fails or hangs.\<close>

fun run_tasks :: "(io_task \<Rightarrow> 's \<Rightarrow> (size_t res \<times> 's) option) \<Rightarrow> io_task list \<Rightarrow> 's \<Rightarrow> 's option" where
  "run_tasks op [] w = Some w"
| "run_tasks op (t # ts) w = (case op t w of Some (Inr _, w1) \<Rightarrow> run_tasks op ts w1 | _ \<Rightarrow> None)"

text \<open>A task of the range of \<open>sz\<close> bytes from \<open>off\<close>, for the buffer offset \<open>dpo\<close>.\<close>

definition task_inside :: "size_t \<Rightarrow> size_t \<Rightarrow> size_t \<Rightarrow> io_task \<Rightarrow> bool" where
  "task_inside off sz dpo t \<longleftrightarrow>
     unat off \<le> unat (tk_file_offset t) \<and> unat (tk_file_offset t) + unat (tk_size t) \<le> unat off + unat sz \<and>
     tk_devPtr_offset t = dpo + (tk_file_offset t - off)"

lemma well_cut_inside: "well_cut off sz dpo b ts \<Longrightarrow> t \<in> set ts \<Longrightarrow> task_inside off sz dpo t"
  using tiles_mem [of "unat off" "unat off + unat sz" "map task_piece ts" "tk_file_offset t" "tk_size t"]
  by (force simp: well_cut_def task_inside_def task_piece_def)

lemma fold_read_task:
  assumes "well_cut off sz dpo b ts" "fits off sz" "mset order = mset ts"
  shows "fold (read_task file buf) order m = write_bytes m (buf + dpo) (map file [unat off ..< unat off + unat sz])"
proof -
  have tiles: "tiles (unat off) (unat off + unat sz) (map task_piece ts)" using assms(1) by (simp add: well_cut_def)
  have "fold (read_task file buf) order m = fold (copy_piece file (buf + dpo) off) (map task_piece order) m"
    unfolding fold_map by (rule fold_cong) (use read_task_copy_piece [OF assms(1)] mset_eq_setD [OF assms(3)] in simp_all)
  also have "\<dots> = copy_piece file (buf + dpo) off (off, sz) m"
    using arg_cong [OF assms(3), of "image_mset task_piece"] by (intro tiles_any_order_memory [OF tiles assms(2)]) simp
  finally show ?thesis by (simp add: copy_piece_def piece_bytes_def)
qed

text \<open>What \<open>parallel_io\<close> made, and the value of its future when every task moves all its bytes.\<close>

lemma parallel_io_sizes:
  assumes "admissible off sz ts" "ready reg opts"
  shows "\<exists>s b. parallel_io reg page sz off ts dpo opts = Inr (Some s) \<and> well_cut off sz dpo b (all_tasks s) \<and>
     complete (\<lambda>t. Inr (tk_size t)) rec s = (Inr sz, if rec then [Finish_Bytes sz] else [])"
proof -
  have adm: "0 < ts" "fits off sz" using assms(1) by (simp_all add: admissible_def)
  obtain s where s: "parallel_io reg page sz off ts dpo opts = Inr (Some s)"
    and cut: "well_cut off sz dpo (task_bound page opts ts) (all_tasks s)"
    using parallel_io_well_cut [OF adm assms(2)] by blast
  have "sum_list (map tk_size (all_tasks s)) = sz"
    using pio.sizes_add_up_word [of "(reg, page, dpo, opts)" off sz ts "map task_piece (all_tasks s)"] s assms
    by (simp add: pio_valid_def pio_pieces_def task_piece_def comp_def)
  then have "complete (\<lambda>t. Inr (tk_size t)) rec s = (Inr sz, if rec then [Finish_Bytes sz] else [])"
    by (intro complete_ok) simp_all
  with s cut show ?thesis by blast
qed

section \<open>The contract of an operation that reads\<close>

text \<open>
  \<open>cfg\<close> is what the operation was built from, \<open>ok\<close> the invariant of the state, \<open>view\<close> the memory the
  buffer lies in, \<open>content\<close>, \<open>target\<close> and \<open>range\<close> the file, the buffer and the range of the call.
\<close>

locale task_reader =
  fixes valid :: "'cfg \<Rightarrow> bool"
    and op :: "'cfg \<Rightarrow> io_task \<Rightarrow> 's \<Rightarrow> (size_t res \<times> 's) option"
    and ok :: "'cfg \<Rightarrow> 's \<Rightarrow> bool"
    and view :: "'s \<Rightarrow> memory"
    and content :: "'cfg \<Rightarrow> file_content"
    and target :: "'cfg \<Rightarrow> ptr"
    and range :: "'cfg \<Rightarrow> size_t \<times> size_t \<times> size_t"
  assumes reads:
    "valid cfg \<Longrightarrow> ok cfg w \<Longrightarrow> range cfg = (off, sz, dpo) \<Longrightarrow> task_inside off sz dpo t \<Longrightarrow>
     \<exists>w'. op cfg t w = Some (Inr (tk_size t), w') \<and> ok cfg w' \<and>
          view w' = read_task (content cfg) (target cfg) t (view w)"
begin

lemma run_reads:
  assumes "valid cfg" "range cfg = (off, sz, dpo)" "ok cfg w" "\<forall>t \<in> set ts. task_inside off sz dpo t"
  shows "\<exists>w'. run_tasks (op cfg) ts w = Some w' \<and> ok cfg w' \<and>
    view w' = fold (read_task (content cfg) (target cfg)) ts (view w)"
  using assms(3,4)
proof (induction ts arbitrary: w)
  case Nil
  then show ?case by simp
next
  case (Cons t ts)
  obtain w1 where w1: "op cfg t w = Some (Inr (tk_size t), w1)" "ok cfg w1"
    "view w1 = read_task (content cfg) (target cfg) t (view w)"
    using reads [OF assms(1) Cons.prems(1) assms(2), of t] Cons.prems(2) by auto
  with Cons.IH [OF w1(2)] Cons.prems(2) show ?case by auto
qed

lemma any_order:
  assumes "valid cfg" "range cfg = (off, sz, dpo)" "ok cfg w" "well_cut off sz dpo b ts" "fits off sz" "mset order = mset ts"
  shows "\<exists>w'. run_tasks (op cfg) order w = Some w' \<and> ok cfg w' \<and>
    view w' = write_bytes (view w) (target cfg + dpo) (map (content cfg) [unat off ..< unat off + unat sz])"
  using run_reads [OF assms(1-3), of order] well_cut_inside [OF assms(4)] mset_eq_setD [OF assms(6)]
    fold_read_task [OF assms(4-6)] by simp

text \<open>The same for the tasks that \<open>parallel_io\<close> made, with the value of its future.\<close>

lemma parallel_read:
  assumes "valid cfg" "range cfg = (off, sz, dpo)" "ok cfg w" "admissible off sz ts" "ready reg opts"
  shows "\<exists>s. parallel_io reg page sz off ts dpo opts = Inr (Some s) \<and>
     (\<forall>order. mset order = mset (all_tasks s) \<longrightarrow>
        (\<exists>w'. run_tasks (op cfg) order w = Some w' \<and> ok cfg w' \<and>
           view w' = write_bytes (view w) (target cfg + dpo) (map (content cfg) [unat off ..< unat off + unat sz]))) \<and>
     complete (\<lambda>t. Inr (tk_size t)) rec s = (Inr sz, if rec then [Finish_Bytes sz] else [])"
proof -
  obtain s b where s: "parallel_io reg page sz off ts dpo opts = Inr (Some s)" "well_cut off sz dpo b (all_tasks s)"
    "complete (\<lambda>t. Inr (tk_size t)) rec s = (Inr sz, if rec then [Finish_Bytes sz] else [])"
    using parallel_io_sizes [OF assms(4,5)] by blast
  moreover have "fits off sz" using assms(4) by (simp add: admissible_def)
  ultimately show ?thesis using any_order [OF assms(1-3) s(2)] by blast
qed

end

end
