(* ===== verification/Mmap.thy ===== *)
theory Mmap
  imports File_Utils Task_Run Posix_Read
begin

text \<open>
  File-backed memory mappings: \<open>cpp/src/mmap.cpp\<close>. An \<open>MmapHandle\<close> maps a page-aligned part of a
  file and copies from it. The mapping itself is host memory of the world of the POSIX theories, from
  which the pinned bounce buffers and the device copies are taken too; opening, mapping and
  unmapping act on the state of the operating system. \<open>ats\<close> is what \<open>is_ats_available\<close> returns or
  throws, together with the lookup of the CUDA context.
\<close>

section \<open>Touching pages\<close>

definition pointer_add :: "ptr \<Rightarrow> 64 word \<Rightarrow> ptr" where
  "pointer_add p v = p + v"

definition pointer_diff :: "ptr \<Rightarrow> ptr \<Rightarrow> 64 word" where
  "pointer_diff p1 p2 = p1 - p2"

text \<open>The loop of \<open>perform_prefault\<close> with the addresses it touches; \<open>None\<close> is a loop without end.\<close>

partial_function (option) prefault_loop ::
  "size_t \<Rightarrow> size_t \<Rightarrow> ptr \<Rightarrow> ptr list \<Rightarrow> size_t \<Rightarrow> (ptr list \<times> size_t) option" where
  "prefault_loop page_size sz aligned_addr touched touched_bytes =
     (if sz > 0 then
        (if sz \<ge> page_size
         then prefault_loop page_size (sz - page_size) (pointer_add aligned_addr page_size)
                (touched @ [aligned_addr]) (touched_bytes + page_size)
         else Some (touched @ [aligned_addr], touched_bytes + sz))
      else Some (touched, touched_bytes))"

declare prefault_loop.simps [code]

definition perform_prefault :: "size_t \<Rightarrow> ptr \<Rightarrow> size_t \<Rightarrow> (ptr list \<times> size_t) option res" where
  "perform_prefault page_size buf sz =
     bind_res (align_up_ptr buf page_size) (\<lambda>aligned_addr.
       let num_bytes = pointer_diff aligned_addr buf;
           unaligned = sint num_bytes > 0;
           touched = (if unaligned then [buf] else []);
           touched_bytes = (if unaligned then num_bytes else 0);
           sz1 = (if unaligned \<and> sz \<ge> num_bytes then sz - num_bytes else sz)
       in Inr (if num_bytes \<ge> sz1 then Some (touched, touched_bytes)
               else prefault_loop page_size sz1 aligned_addr touched touched_bytes))"

section \<open>Copying out of the mapping\<close>

definition mmap_read_impl ::
  "'e io_env \<Rightarrow> bool res \<Rightarrow> ptr \<Rightarrow> ptr \<Rightarrow> size_t \<Rightarrow> size_t \<Rightarrow> bool \<Rightarrow> 'e world \<Rightarrow> (unit res \<times> 'e world) option"
where
  "mmap_read_impl env ats dst_buf src_mapped_buf sz buf_offset is_dst_buf_host_mem w =
     (let src = pointer_add src_mapped_buf buf_offset; dst = pointer_add dst_buf buf_offset in
      if is_dst_buf_host_mem
      then Some (Inr (), w\<lparr>w_mem := write_bytes (w_mem w) dst (read_bytes (w_mem w) src (unat sz))\<rparr>)
      else case ats of
             Inl e \<Rightarrow> Some (Inl e, w)
           | Inr True \<Rightarrow>
               (case perform_prefault (env_page_size env) src sz of
                  Inl e \<Rightarrow> Some (Inl e, w)
                | Inr None \<Rightarrow> None
                | Inr (Some _) \<Rightarrow> Some (copy_to_device env dst src sz w))
           | Inr False \<Rightarrow>
               (case get_bounce env Cuda_Pinned w of
                  (Inl e, w1) \<Rightarrow> Some (Inl e, w1)
                | (Inr b, w1) \<Rightarrow>
                    let w2 = w1\<lparr>w_mem := write_bytes (w_mem w1) (bf_buffer b) (read_bytes (w_mem w1) src (unat sz))\<rparr>;
                        (r, w3) = copy_to_device env dst (bf_buffer b) sz w2
                    in Some (r, drop_bounce env Cuda_Pinned b w3)))"

section \<open>The handle\<close>

record MmapHandle =
  mm_buf :: ptr
  initial_map_size :: size_t
  initial_map_offset :: size_t
  mm_file_size :: size_t
  map_offset :: size_t
  map_size :: size_t
  map_addr :: ptr
  initialized :: bool
  map_protection :: nat
  map_flags :: int
  file_wrapper :: FileWrapper
  file_path :: string

definition no_mapping :: MmapHandle where
  "no_mapping = \<lparr>mm_buf = 0, initial_map_size = 0, initial_map_offset = 0, mm_file_size = 0, map_offset = 0, map_size = 0,
     map_addr = 0, initialized = False, map_protection = 0, map_flags = 0, file_wrapper = no_file, file_path = []\<rparr>"

text \<open>The checks of the constructor on a file that is not empty, up to the size of the region.\<close>

definition check_region :: "size_t \<Rightarrow> size_t option \<Rightarrow> size_t \<Rightarrow> size_t res" where
  "check_region file_size init_size init_off =
     bind_res (kvikio_expect (init_off < file_size) Out_Of_Range) (\<lambda>_.
       let n = (case init_size of Some n \<Rightarrow> n | None \<Rightarrow> file_size - init_off)
       in bind_res (kvikio_expect (n > 0) Invalid_Argument) (\<lambda>_.
          bind_res (kvikio_expect (init_off + n \<le> file_size) Out_Of_Range) (\<lambda>_. Inr n)))"

text \<open>
  The constructor after the file is open. An exception destroys the members built so far, so the
  caller of this part closes the file.
\<close>

definition map_region ::
  "'o file_api \<Rightarrow> size_t \<Rightarrow> size_t option \<Rightarrow> size_t \<Rightarrow> int option \<Rightarrow> MmapHandle \<Rightarrow> 'o \<Rightarrow> MmapHandle res \<times> 'o"
where
  "map_region api page_size init_size init_off flags_opt h o1 =
     (case get_file_size api (fd (file_wrapper h)) o1 of
        (Inl e, o2) \<Rightarrow> (Inl e, o2)
      | (Inr file_size, o2) \<Rightarrow>
          let h1 = h\<lparr>mm_file_size := file_size\<rparr> in
          if file_size = 0 then (Inr h1, o2)
          else case bind_res (check_region file_size init_size init_off)
                      (\<lambda>n. bind_res (align_down init_off page_size) (\<lambda>mo. Inr (n, mo))) of
                 Inl e \<Rightarrow> (Inl e, o2)
               | Inr (n, mo) \<Rightarrow>
                   let offset_delta = init_off - mo;
                       msize = n + offset_delta;
                       mflags = (case flags_opt of Some f \<Rightarrow> f | None \<Rightarrow> MAP_PRIVATE)
                   in case check_linux_call (sys_mmap api msize (map_protection h1) mflags (fd (file_wrapper h1)) mo o2) of
                        (Inl e, o3) \<Rightarrow> (Inl e, o3)
                      | (Inr addr, o3) \<Rightarrow>
                          (Inr (h1\<lparr>initial_map_size := n, map_offset := mo, map_size := msize, map_flags := mflags,
                                   map_addr := addr, mm_buf := pointer_add addr offset_delta\<rparr>), o3))"

definition new_mmap_handle ::
  "'o file_api \<Rightarrow> size_t \<Rightarrow> string \<Rightarrow> string \<Rightarrow> size_t option \<Rightarrow> size_t \<Rightarrow> nat \<Rightarrow> int option \<Rightarrow> 'o \<Rightarrow> MmapHandle res \<times> 'o"
where
  "new_mmap_handle api page_size path flags init_size init_off mode flags_opt o0 =
     (if flags = [] \<or> flags ! 0 \<noteq> CHR ''r'' then (Inl Invalid_Argument, o0)
      else case new_file_wrapper api path flags False mode o0 of
             (Inl e, o1) \<Rightarrow> (Inl e, o1)
           | (Inr fw, o1) \<Rightarrow>
               (case map_region api page_size init_size init_off flags_opt
                       (no_mapping\<lparr>initial_map_offset := init_off, initialized := True, map_protection := PROT_READ,
                                   file_path := path, file_wrapper := fw\<rparr>) o1 of
                  (Inl e, o2) \<Rightarrow> (Inl e, snd (file_close api fw o2))
                | (Inr h, o2) \<Rightarrow> (Inr h, o2)))"

definition closed :: "MmapHandle \<Rightarrow> bool" where
  "closed h \<longleftrightarrow> \<not> initialized h"

definition mmap_close :: "'o file_api \<Rightarrow> MmapHandle \<Rightarrow> 'o \<Rightarrow> MmapHandle \<times> 'o" where
  "mmap_close api h o0 =
     (if closed h \<or> map_addr h = 0 then (h, o0)
      else let o1 = snd (sys_munmap api (map_addr h) (map_size h) o0);
               o2 = snd (file_close api (file_wrapper h) o1)
           in (no_mapping\<lparr>file_path := file_path h\<rparr>, o2))"

definition mmap_move :: "MmapHandle \<Rightarrow> MmapHandle \<times> MmapHandle" where
  "mmap_move other = (other, no_mapping)"

text \<open>Assignment: the target is closed, and its file, if it still has one, by the assignment of the member.\<close>

definition mmap_move_assign :: "'o file_api \<Rightarrow> MmapHandle \<Rightarrow> MmapHandle \<Rightarrow> 'o \<Rightarrow> (MmapHandle \<times> MmapHandle) \<times> 'o" where
  "mmap_move_assign api this other o0 =
     (let (this1, o1) = mmap_close api this o0;
          o2 = snd (file_close api (file_wrapper this1) o1)
      in ((other, no_mapping), o2))"

text \<open>The destructor: \<open>close\<close>, then the members, of which the file wrapper closes its file.\<close>

definition mmap_destroy :: "'o file_api \<Rightarrow> MmapHandle \<Rightarrow> 'o \<Rightarrow> 'o" where
  "mmap_destroy api h o0 = (let (h1, o1) = mmap_close api h o0 in snd (file_close api (file_wrapper h1) o1))"

definition mmap_nbytes :: "'o file_api \<Rightarrow> MmapHandle \<Rightarrow> 'o \<Rightarrow> size_t res \<times> 'o" where
  "mmap_nbytes api h o0 = (if closed h then (Inr 0, o0) else get_file_size api (fd (file_wrapper h)) o0)"

section \<open>Reading\<close>

definition validate_and_adjust_read_args :: "MmapHandle \<Rightarrow> size_t option \<Rightarrow> size_t \<Rightarrow> size_t res" where
  "validate_and_adjust_read_args h size_opt off =
     bind_res (kvikio_expect (\<not> closed h) Runtime_Error) (\<lambda>_.
     bind_res (kvikio_expect (off \<le> mm_file_size h) Out_Of_Range) (\<lambda>_.
       let actual_size = (case size_opt of Some n \<Rightarrow> n | None \<Rightarrow> mm_file_size h - off)
       in bind_res (kvikio_expect (off \<ge> initial_map_offset h \<and>
                                   off + actual_size \<le> initial_map_offset h + initial_map_size h) Out_Of_Range)
            (\<lambda>_. Inr actual_size)))"

definition src_mapped_buf :: "MmapHandle \<Rightarrow> size_t \<Rightarrow> ptr" where
  "src_mapped_buf h off = pointer_add (mm_buf h) (off - initial_map_offset h)"

text \<open>\<open>read\<close> with its recorders; \<open>clock\<close> gives the successive readings of the steady clock.\<close>

definition mmap_read ::
  "'e io_env \<Rightarrow> bool res \<Rightarrow> (nat \<Rightarrow> int) \<Rightarrow> MmapHandle \<Rightarrow> ptr \<Rightarrow> size_t option \<Rightarrow> size_t \<Rightarrow> bool \<Rightarrow> 'e world \<Rightarrow> observer
     \<Rightarrow> (size_t res \<times> 'e world \<times> observer) option"
where
  "mmap_read env ats clock h buf size_opt off is_host_mem w ov =
     (case bind_res (expect_not_in_monitor (ov_registry ov)) (\<lambda>_. validate_and_adjust_read_args h size_opt off) of
        Inl e \<Rightarrow> Some (Inl e, w, ov)
      | Inr actual_size \<Rightarrow>
          if actual_size = 0 then Some (Inr 0, w, ov)
          else let mk = (if is_host_mem then HOST else DEVICE);
                   (rec, ov1) = new_logical MMAP READ mk off actual_size (file_path h) None (clock 0) ov;
                   physical = \<lparr>cx_backend = MMAP, cx_direction = READ, cx_memory_kind = mk, cx_parent_id = recorder_id rec,
                               cx_source = file_path h, cx_http_method = None\<rparr>;
                   (phys, ov2) = new_physical physical off actual_size (clock 1) ov1
               in case mmap_read_impl env ats buf (src_mapped_buf h off) actual_size 0 is_host_mem w of
                    None \<Rightarrow> None
                  | Some (Inl e, w1) \<Rightarrow>
                      let (_, ov3) = physical_destroy (clock 2) phys ov2; (_, ov4) = logical_destroy (clock 3) rec ov3
                      in Some (Inl e, w1, ov4)
                  | Some (Inr _, w1) \<Rightarrow>
                      let (_, ov3) = physical_finish actual_size (clock 2) phys ov2;
                          (_, ov4) = logical_finish actual_size (clock 3) rec ov3
                      in Some (Inr actual_size, w1, ov4))"

datatype mmap_future = Mmap_Ready size_t | Mmap_Tasks "submission option"

definition mmap_pread ::
  "'e io_env \<Rightarrow> Registry \<Rightarrow> ParallelIoOptions \<Rightarrow> MmapHandle \<Rightarrow> size_t option \<Rightarrow> size_t \<Rightarrow> size_t \<Rightarrow> mmap_future res"
where
  "mmap_pread env reg opts h size_opt off task_size =
     bind_res (kvikio_expect (task_size \<le> env_bounce_buffer_size env) CUfile_Exception) (\<lambda>_.
     bind_res (kvikio_expect (pio_thread_pool opts \<noteq> 0) CUfile_Exception) (\<lambda>_.
     bind_res (kvikio_expect (task_size > 0) Invalid_Argument) (\<lambda>_.
     bind_res (expect_not_in_monitor reg) (\<lambda>_.
     bind_res (validate_and_adjust_read_args h size_opt off) (\<lambda>actual_size.
       if actual_size = 0 then Inr (Mmap_Ready 0)
       else bind_res (parallel_io reg (env_page_size env) actual_size off task_size 0 opts)
              (\<lambda>s. Inr (Mmap_Tasks s)))))))"

text \<open>The operation of one task of \<open>pread\<close>.\<close>

definition mmap_task ::
  "'e io_env \<Rightarrow> bool res \<Rightarrow> MmapHandle \<Rightarrow> size_t \<Rightarrow> ptr \<Rightarrow> bool \<Rightarrow> io_task \<Rightarrow> 'e world \<Rightarrow> (size_t res \<times> 'e world) option"
where
  "mmap_task env ats h off buf is_host_mem t w =
     (case mmap_read_impl env ats buf (src_mapped_buf h off) (tk_size t) (tk_devPtr_offset t) is_host_mem w of
        None \<Rightarrow> None
      | Some (Inl e, w1) \<Rightarrow> Some (Inl e, w1)
      | Some (Inr _, w1) \<Rightarrow> Some (Inr (tk_size t), w1))"

section \<open>Prefaulting\<close>

text \<open>The loop ends and touches the first byte of every page of the range.\<close>

lemma prefault_loop_touches:
  assumes "0 < unat page_size" "unat sz + unat page_size \<le> 2 ^ 64"
  shows "prefault_loop page_size sz a touched bytes =
    Some (touched @ map (\<lambda>k. a + of_nat k * page_size) [0 ..< (unat sz + unat page_size - 1) div unat page_size], bytes + sz)"
  using assms(2)
proof (induction "unat sz" arbitrary: sz a touched bytes rule: less_induct)
  case less
  let ?p = "unat page_size" and ?n = "(unat sz + unat page_size - 1) div unat page_size"
  consider "sz = 0" | "0 < unat sz" "unat sz < ?p" | "?p \<le> unat sz" "0 < unat sz"
    by (metis linorder_not_less neq0_conv unat_eq_zero)
  then show ?case
  proof cases
    case 1
    then show ?thesis using assms(1) by (simp add: prefault_loop.simps [of _ 0])
  next
    case 2
    then have "?n = 1" by (intro div_nat_eqI) simp_all
    with 2 show ?thesis by (subst prefault_loop.simps) (simp add: word_le_nat_alt word_less_nat_alt)
  next
    case 3
    then have minus: "unat (sz - page_size) = unat sz - ?p" by (simp add: unat_minus_no_wrap word_le_nat_alt)
    have "unat sz + ?p - 1 = (unat (sz - page_size) + ?p - 1) + ?p" using 3 minus assms(1) by simp
    then have n: "?n = Suc ((unat (sz - page_size) + ?p - 1) div ?p)" using assms(1) by (simp only: div_add_self2)
    have step: "prefault_loop page_size sz a touched bytes =
        prefault_loop page_size (sz - page_size) (a + page_size) (touched @ [a]) (bytes + page_size)"
      using 3 by (subst prefault_loop.simps) (simp add: word_le_nat_alt word_less_nat_alt pointer_add_def)
    show ?thesis
      unfolding step n upt_conv_Cons [OF zero_less_Suc] map_Suc_upt [symmetric]
      using less(1) [of "sz - page_size" "a + page_size" "touched @ [a]" "bytes + page_size"] minus less(2) assms(1) 3
      by (simp add: algebra_simps)
  qed
qed

lemma perform_prefault_returns:
  assumes "is_power_of_2 page_size" "unat sz + unat page_size \<le> 2 ^ 64"
  shows "\<exists>t. perform_prefault page_size buf sz = Inr (Some t)"
proof -
  have pos: "0 < unat page_size" using assms(1) by (simp add: is_power_of_2_def unat_gt_0 word_gt_0)
  obtain a where a: "align_up_ptr buf page_size = Inr a"
    using assms(1) by (simp add: align_up_ptr_def)
  have "unat (if b \<and> sz \<ge> k then sz - k else sz) + unat page_size \<le> 2 ^ 64" for b and k :: size_t
    using assms(2) by (auto simp: unat_minus_no_wrap)
  then show ?thesis using a prefault_loop_touches [OF pos]
    by (simp add: perform_prefault_def Let_def)
qed

text \<open>
  The early return compares the bytes up to the page boundary with the size that remains after them:
  here 2000 bytes of the second page are part of the range, and that page is not touched.
\<close>

lemma perform_prefault_misses_page: "perform_prefault 4096 1096 5000 = Inr (Some ([1096], 3000))"
  by code_simp

section \<open>What the constructor establishes\<close>

definition mapping_ok :: "MmapHandle \<Rightarrow> bool" where
  "mapping_ok h \<longleftrightarrow>
     unat (initial_map_offset h) + unat (initial_map_size h) \<le> unat (mm_file_size h) \<and>
     unat (map_offset h) \<le> unat (initial_map_offset h) \<and>
     unat (map_size h) = unat (initial_map_size h) + (unat (initial_map_offset h) - unat (map_offset h)) \<and>
     mm_buf h = map_addr h + (initial_map_offset h - map_offset h)"

lemma align_down_le: "align_down v a = Inr x \<Longrightarrow> unat x \<le> unat v"
proof -
  assume x: "align_down v a = Inr x"
  then have "is_power_of_2 a" by (auto simp: align_down_def bind_res_Inr_iff)
  then have "unat x = unat v div unat a * unat a" using align_down_eq [of a v] x by (metis sum.inject(2))
  then show ?thesis by simp
qed

lemma map_region_ok:
  assumes "map_region api page_size init_size init_off mf h o1 = (Inr h', o2)" "initial_map_offset h = init_off"
    and "fits init_off (initial_map_size h')" "mm_file_size h' \<noteq> 0"
  shows "mapping_ok h' \<and> initial_map_offset h' = init_off \<and> initialized h' = initialized h \<and>
    initial_map_size h' = (case init_size of Some n \<Rightarrow> n | None \<Rightarrow> mm_file_size h' - init_off)"
proof -
  obtain fs n mo addr where n: "check_region fs init_size init_off = Inr n" and al: "align_down init_off page_size = Inr mo"
    and h': "h' = h\<lparr>mm_file_size := fs, initial_map_size := n, map_offset := mo, map_size := n + (init_off - mo),
        map_flags := (case mf of Some f \<Rightarrow> f | None \<Rightarrow> MAP_PRIVATE), map_addr := addr, mm_buf := addr + (init_off - mo)\<rparr>"
    using assms(1,4)
    by (auto simp: map_region_def bind_res_Inr_iff pointer_add_def Let_def split: sum.splits prod.splits if_splits)
  from n have fs: "init_off + n \<le> fs" "n = (case init_size of Some n \<Rightarrow> n | None \<Rightarrow> fs - init_off)"
    by (auto simp: check_region_def bind_res_Inr_iff Let_def)
  have mo: "unat mo \<le> unat init_off" by (rule align_down_le [OF al])
  have sum: "unat init_off + unat n \<le> unat fs"
    using fs(1) assms(3) h' by (simp add: word_le_nat_alt unat_plus_fits)
  have "unat (init_off - mo) = unat init_off - unat mo" using mo by (simp add: unat_minus_no_wrap word_le_nat_alt)
  then have "unat (n + (init_off - mo)) = unat n + (unat init_off - unat mo)"
    using sum size_t_range [of fs] by (subst unat_plus_no_wrap) simp_all
  moreover have "n = (case init_size of Some n \<Rightarrow> n | None \<Rightarrow> mm_file_size h' - init_off)"
    using fs(2) by (cases init_size) (simp_all add: h')
  ultimately show ?thesis using sum mo assms(2) by (simp add: mapping_ok_def h')
qed

lemma new_mmap_handle_ok:
  assumes "new_mmap_handle api page_size path flags init_size init_off mode mf o0 = (Inr h, o1)"
    and "fits init_off (initial_map_size h)" "mm_file_size h \<noteq> 0"
  shows "mapping_ok h \<and> initialized h \<and> initial_map_offset h = init_off"
proof -
  obtain fw o2 where "map_region api page_size init_size init_off mf
      (no_mapping\<lparr>initial_map_offset := init_off, initialized := True, map_protection := PROT_READ,
                  file_path := path, file_wrapper := fw\<rparr>) o2 = (Inr h, o1)"
    using assms(1) by (auto simp: new_mmap_handle_def split: if_splits sum.splits prod.splits)
  from map_region_ok [OF this _ assms(2,3)] show ?thesis by simp
qed

text \<open>An empty file leaves the constructor early, without a mapping.\<close>

lemma new_mmap_handle_empty:
  assumes "new_mmap_handle api page_size path flags init_size init_off mode mf o0 = (Inr h, o1)" "mm_file_size h = 0"
  shows "initialized h \<and> map_addr h = 0 \<and> initial_map_size h = 0 \<and> initial_map_offset h = init_off"
  using assms
  by (auto simp: new_mmap_handle_def map_region_def check_region_def no_mapping_def bind_res_Inr_iff Let_def
      split: if_splits sum.splits prod.splits)

section \<open>A read returns the bytes of the file\<close>

text \<open>What \<open>mmap\<close> promises: the mapped addresses show the part of the file that was asked for.\<close>

definition shows_file :: "file_content \<Rightarrow> MmapHandle \<Rightarrow> memory \<Rightarrow> bool" where
  "shows_file file h m \<longleftrightarrow> (\<forall>i < unat (map_size h). m (map_addr h + of_nat i) = file (unat (map_offset h) + i))"

lemma validate_in_mapping:
  assumes "validate_and_adjust_read_args h size_opt off = Inr n" "fits off n" "mapping_ok h"
  shows "unat (initial_map_offset h) \<le> unat off"
    and "unat off + unat n \<le> unat (initial_map_offset h) + unat (initial_map_size h)"
proof -
  from assms(1) have v: "initial_map_offset h \<le> off" "off + n \<le> initial_map_offset h + initial_map_size h"
    by (auto simp: validate_and_adjust_read_args_def bind_res_Inr_iff Let_def)
  then show "unat (initial_map_offset h) \<le> unat off" by (simp add: word_le_nat_alt)
  have "unat (initial_map_offset h) + unat (initial_map_size h) < 2 ^ 64"
    using assms(3) size_t_range [of "mm_file_size h"] by (simp add: mapping_ok_def)
  then show "unat off + unat n \<le> unat (initial_map_offset h) + unat (initial_map_size h)"
    using v(2) assms(2) by (simp add: word_le_nat_alt unat_plus_fits unat_plus_no_wrap)
qed

lemma word_of_nat_unat_id: "of_nat (unat (x :: size_t)) = x"
  by simp

lemma mapped_bytes:
  assumes "mapping_ok h" "shows_file file h m" "unat (initial_map_offset h) \<le> unat off"
    "unat off + unat n \<le> unat (initial_map_offset h) + unat (initial_map_size h)"
  shows "read_bytes m (src_mapped_buf h off) (unat n) = map file [unat off ..< unat off + unat n]"
proof (rule nth_equalityI)
  fix i assume "i < length (read_bytes m (src_mapped_buf h off) (unat n))"
  then have i: "i < unat n" by simp
  let ?k = "unat off - unat (map_offset h) + i"
  have le: "map_offset h \<le> off" "unat (map_offset h) \<le> unat off"
    using assms(1,3) by (simp_all add: mapping_ok_def word_le_nat_alt)
  have "src_mapped_buf h off + of_nat i = map_addr h + (off - map_offset h) + of_nat i"
    using assms(1) by (simp add: src_mapped_buf_def pointer_add_def mapping_ok_def)
  also have "off - map_offset h = of_nat (unat off - unat (map_offset h))"
    using unat_minus_no_wrap [OF le(1)] word_of_nat_unat_id [of "off - map_offset h"] by simp
  finally have addr: "src_mapped_buf h off + of_nat i = map_addr h + of_nat ?k" by (simp add: add.assoc)
  have k: "?k < unat (map_size h)" using assms(1,3,4) i unfolding mapping_ok_def by linarith
  have "read_bytes m (src_mapped_buf h off) (unat n) ! i = m (src_mapped_buf h off + of_nat i)" using i by simp
  also have "\<dots> = file (unat (map_offset h) + ?k)" unfolding addr using assms(2) k by (simp only: shows_file_def)
  also have "unat (map_offset h) + ?k = unat off + i" using le(2) by simp
  also have "file (unat off + i) = map file [unat off ..< unat off + unat n] ! i" using i by simp
  finally show "read_bytes m (src_mapped_buf h off) (unat n) ! i = map file [unat off ..< unat off + unat n] ! i" .
qed simp

text \<open>One copy, with a bounce buffer that is large enough if one is used.\<close>

lemma mmap_read_impl_copies:
  assumes "memory_available env K" "copies_succeed env K" "world_ok env K w" "is_power_of_2 (env_page_size env)"
    and "unat sz + unat (env_page_size env) \<le> 2 ^ 64"
    and "is_host \<or> ats = Inr True \<or> ats = Inr False \<and> sz \<le> env_bounce_buffer_size env"
    and "read_bytes (w_mem w) (src + boff) (unat sz) = bs"
  shows "\<exists>w'. mmap_read_impl env ats dst src sz boff is_host w = Some (Inr (), w') \<and>
    (if is_host then w_mem w' = write_bytes (w_mem w) (dst + boff) bs \<and> w_dev w' = w_dev w
     else w_dev w' = write_bytes (w_dev w) (dst + boff) bs)"
proof (cases "is_host \<or> ats = Inr True")
  case True
  obtain w' where "copy_to_device env (dst + boff) (src + boff) sz w = (Inr (), w')"
      "w_dev w' = write_bytes (w_dev w) (dst + boff) (read_bytes (w_mem w) (src + boff) (unat sz))"
    using copy_to_device_ok [OF assms(2,3)] by metis
  with True assms(7) perform_prefault_returns [OF assms(4,5), of "src + boff"] show ?thesis
    by (cases is_host) (auto simp: mmap_read_impl_def pointer_add_def)
next
  case False
  obtain b w1 where b: "get_bounce env Cuda_Pinned w = (Inr b, w1)" "good_buffer env Cuda_Pinned b" "world_ok env K w1"
      "w_mem w1 = w_mem w" "w_dev w1 = w_dev w"
    by (rule get_bounce_ok [OF assms(1,3)])
  let ?w2 = "w1\<lparr>w_mem := write_bytes (w_mem w1) (bf_buffer b) bs\<rparr>"
  have len: "length bs = unat sz" using assms(7) by auto
  have ok: "world_ok env K ?w2" using b(3) by (simp add: world_ok_def)
  obtain w3 where w3: "copy_to_device env (dst + boff) (bf_buffer b) sz ?w2 = (Inr (), w3)" "world_ok env K w3"
      "w_dev w3 = write_bytes (w_dev ?w2) (dst + boff) (read_bytes (w_mem ?w2) (bf_buffer b) (unat sz))"
    using copy_to_device_ok [OF assms(2) ok] by metis
  have "read_bytes (w_mem ?w2) (bf_buffer b) (unat sz) = bs"
    using read_write_bytes [of bs "w_mem w1" "bf_buffer b"] len size_t_range [of sz] by simp
  with False assms(6,7) b w3 drop_bounce_ok(3) [OF assms(1) w3(2) b(2)] show ?thesis
    by (simp add: mmap_read_impl_def pointer_add_def Let_def)
qed


text \<open>A file of ten bytes, of which the eight from offset 2 are mapped at address 8192; three bytes from offset 4 are read.\<close>

definition demo_file_api :: "unit file_api" where
  "demo_file_api = \<lparr>sys_open = (\<lambda>_ _ _ s. (Inr 3, s)), sys_close = (\<lambda>_ s. (Inr (), s)), sys_getfl = (\<lambda>_ s. (Inr 0, s)),
     sys_fstat_size = (\<lambda>_ s. (Inr 10, s)), sys_mmap = (\<lambda>_ _ _ _ _ s. (Inr 8192, s)), sys_munmap = (\<lambda>_ _ s. (Inr (), s)),
     sys_mincore = (\<lambda>_ _ s. (Inr [], s)), sys_fdatasync = (\<lambda>_ s. (Inr (), s)), sys_fadvise_dontneed = (\<lambda>_ _ _ s. (Inr (), s))\<rparr>"

definition demo_mapping :: MmapHandle where
  "demo_mapping = no_mapping\<lparr>initial_map_offset := 2, initialized := True, map_protection := PROT_READ, file_path := ''f'',
     file_wrapper := \<lparr>fd = 3\<rparr>, mm_file_size := 10, initial_map_size := 8, map_offset := 0, map_size := 10,
     map_flags := MAP_PRIVATE, map_addr := 8192, mm_buf := 8194\<rparr>"

definition demo_mapped_world :: "unit world" where
  "demo_mapped_world = example_world\<lparr>w_mem := (\<lambda>x. example_file (unat (x - 8192)))\<rparr>"

lemma demo_mapping_built:
  "new_mmap_handle demo_file_api 4 ''f'' ''r'' None 2 0 None () = (Inr demo_mapping, ())"
  by (simp add: new_mmap_handle_def new_file_wrapper_def file_open_def open_fd_def open_fd_parse_flags_def opened_def
      no_file_def map_region_def get_file_size_def check_region_def align_down_def is_power_of_2_def demo_file_api_def
      demo_mapping_def pointer_add_def Let_def res_simps)


section \<open>Where the checks do not reach\<close>

text \<open>The sum of offset and size is formed without a check for wrap-around, so the largest size passes.\<close>

lemma validate_accepts_wrapping_size:
  "validate_and_adjust_read_args demo_mapping (Some (- 1)) 3 = Inr (- 1)"
  by (simp add: validate_and_adjust_read_args_def closed_def demo_mapping_def res_simps)

text \<open>
  \<open>read\<close> hands the whole request to one bounce buffer, whose size it does not compare: a longer
  request overwrites the host memory behind the buffer.
\<close>

lemma device_read_overruns_bounce_buffer:
  assumes "get_bounce env Cuda_Pinned w = (Inr b, w1)" "bf_size b < sz" "env_copy env (w_ext w1) = (True, e)"
  shows "\<exists>w'. mmap_read_impl env (Inr False) dst src sz 0 False w = Some (Inr (), w') \<and>
    w_mem w' (bf_buffer b + bf_size b) = w_mem w1 (src + bf_size b)"
proof -
  let ?bs = "read_bytes (w_mem w1) src (unat sz)"
  have "write_bytes (w_mem w1) (bf_buffer b) ?bs (bf_buffer b + of_nat (unat (bf_size b))) = ?bs ! unat (bf_size b)"
    using assms(2) size_t_range [of sz] by (intro write_bytes_inside) (simp_all add: word_less_nat_alt)
  moreover have "w_mem (drop_bounce env Cuda_Pinned b w3) = w_mem w3" for w3
    by (simp add: drop_bounce_def split: prod.splits)
  ultimately show ?thesis using assms
    by (simp add: mmap_read_impl_def copy_to_device_def pointer_add_def Let_def word_less_nat_alt)
qed

text \<open>The handle of an empty file has no mapping, and \<open>close\<close> leaves it open with its descriptor.\<close>

lemma close_keeps_empty_file_open:
  assumes "new_mmap_handle api page path flags init_size init_off mode mf o0 = (Inr h, o1)" "mm_file_size h = 0"
  shows "mmap_close api h o1 = (h, o1) \<and> \<not> closed (fst (mmap_close api h o1))"
  using new_mmap_handle_empty [OF assms] by (simp add: mmap_close_def closed_def)

text \<open>Otherwise \<open>close\<close> forgets everything, and a second one does nothing.\<close>

lemma mmap_close_idempotent:
  assumes "mmap_close api h o1 = (h1, o2)" "map_addr h \<noteq> 0 \<or> closed h"
  shows "closed h1 \<and> mmap_close api h1 o2 = (h1, o2)"
  using assms by (auto simp: mmap_close_def closed_def no_mapping_def Let_def split: if_splits)

section \<open>Parallel reads into host memory\<close>

text \<open>The destination does not overlap the mapping, as \<open>memcpy\<close> requires.\<close>

definition apart_from_mapping :: "ptr \<Rightarrow> nat \<Rightarrow> MmapHandle \<Rightarrow> bool" where
  "apart_from_mapping buf n h \<longleftrightarrow>
     (\<forall>i < unat (map_size h). n \<le> unat (map_addr h + of_nat i - buf))"

lemma write_keeps_mapping:
  assumes "shows_file file h m" "apart_from_mapping buf n h" "unat d + length bs \<le> n" "n < 2 ^ 64"
  shows "shows_file file h (write_bytes m (buf + d) bs)"
proof -
  have "\<not> unat (map_addr h + of_nat i - (buf + d)) < length bs" if "i < unat (map_size h)" for i
  proof -
    let ?x = "map_addr h + of_nat i - buf"
    have "n \<le> unat ?x" using assms(2) that by (simp add: apart_from_mapping_def)
    moreover from this assms(3) have "unat (?x - d) = unat ?x - unat d"
      by (intro unat_minus_no_wrap) (simp add: word_le_nat_alt)
    moreover have eq: "map_addr h + of_nat i - (buf + d) = ?x - d" by (simp add: algebra_simps)
    ultimately show ?thesis unfolding eq using assms(3) by simp
  qed
  with assms(1) show ?thesis by (simp add: shows_file_def write_bytes_def)
qed

lemma mmap_task_reads:
  fixes off n :: size_t
  assumes ok: "mapping_ok h" and shown: "shows_file file h (w_mem w)"
    and inside: "unat (initial_map_offset h) \<le> unat off"
      "unat off + unat n \<le> unat (initial_map_offset h) + unat (initial_map_size h)"
    and t: "unat off \<le> unat (tk_file_offset t)" "unat (tk_file_offset t) + unat (tk_size t) \<le> unat off + unat n"
      "tk_devPtr_offset t = tk_file_offset t - off"
  shows "mmap_task env ats h off buf True t w = Some (Inr (tk_size t), w\<lparr>w_mem := read_task file buf t (w_mem w)\<rparr>)"
proof -
  have "src_mapped_buf h off + tk_devPtr_offset t = src_mapped_buf h (tk_file_offset t)"
    by (simp add: src_mapped_buf_def pointer_add_def t(3))
  moreover have "read_bytes (w_mem w) (src_mapped_buf h (tk_file_offset t)) (unat (tk_size t)) =
      map file [unat (tk_file_offset t) ..< unat (tk_file_offset t) + unat (tk_size t)]"
    using inside t by (intro mapped_bytes [OF ok shown]) simp_all
  ultimately show ?thesis
    by (simp add: mmap_task_def mmap_read_impl_def pointer_add_def read_task_def piece_bytes_def task_piece_def)
qed

text \<open>
  The tasks of a \<open>pread\<close> into host memory meet the contract of a reader. The configuration is the
  environment, what ATS lookup returns, the handle, the range and the buffer with the file's bytes.
\<close>

type_synonym 'e mmap_config = "'e io_env \<times> bool res \<times> MmapHandle \<times> size_t \<times> size_t \<times> ptr \<times> file_content"

definition mmap_valid :: "'e mmap_config \<Rightarrow> bool" where
  "mmap_valid = (\<lambda>(env, ats, h, off, n, buf, content). mapping_ok h \<and>
     unat (initial_map_offset h) \<le> unat off \<and>
     unat off + unat n \<le> unat (initial_map_offset h) + unat (initial_map_size h) \<and>
     apart_from_mapping buf (unat n) h)"

definition mmap_op :: "'e mmap_config \<Rightarrow> io_task \<Rightarrow> 'e world \<Rightarrow> (size_t res \<times> 'e world) option" where
  "mmap_op = (\<lambda>(env, ats, h, off, n, buf, content). mmap_task env ats h off buf True)"

definition mmap_ok :: "'e mmap_config \<Rightarrow> 'e world \<Rightarrow> bool" where
  "mmap_ok = (\<lambda>(env, ats, h, off, n, buf, content) w. shows_file content h (w_mem w))"

interpretation mmap_tasks: task_reader mmap_valid mmap_op mmap_ok w_mem
  "\<lambda>(env, ats, h, off, n, buf, content). content" "\<lambda>(env, ats, h, off, n, buf, content). buf"
  "\<lambda>(env, ats, h, off, n, buf, content). (off, n, 0)"
proof
  fix cfg :: "'e mmap_config" and w :: "'e world" and o' s' d' t
  obtain env ats h off n buf content where cfg: "cfg = (env, ats, h, off, n, buf, content)" by (cases cfg) auto
  assume "mmap_valid cfg" "mmap_ok cfg w" and r: "(case cfg of (env, ats, h, off, n, buf, content) \<Rightarrow> (off, n, 0)) = (o', s', d')"
    and "task_inside o' s' d' t"
  then have inside: "mapping_ok h" "unat (initial_map_offset h) \<le> unat off"
      "unat off + unat n \<le> unat (initial_map_offset h) + unat (initial_map_size h)"
      "apart_from_mapping buf (unat n) h" "shows_file content h (w_mem w)"
    and t: "unat off \<le> unat (tk_file_offset t)" "unat (tk_file_offset t) + unat (tk_size t) \<le> unat off + unat n"
      "tk_devPtr_offset t = tk_file_offset t - off"
    by (auto simp: cfg mmap_valid_def mmap_ok_def task_inside_def)
  have "unat (tk_devPtr_offset t) = unat (tk_file_offset t) - unat off"
    using t by (simp add: unat_minus_no_wrap word_le_nat_alt)
  then have "unat (tk_devPtr_offset t) + unat (tk_size t) \<le> unat n" using t(1,2) by simp
  then have "shows_file content h (read_task content buf t (w_mem w))"
    unfolding read_task_def using size_t_range [of n]
    by (intro write_keeps_mapping [OF inside(5,4)]) (simp_all add: piece_bytes_def task_piece_def)
  with mmap_task_reads [OF inside(1,5,2,3) t, of env ats buf]
  show "\<exists>w'. mmap_op cfg t w = Some (Inr (tk_size t), w') \<and> mmap_ok cfg w' \<and>
      w_mem w' = read_task (case cfg of (env, ats, h, off, n, buf, content) \<Rightarrow> content)
        (case cfg of (env, ats, h, off, n, buf, content) \<Rightarrow> buf) t (w_mem w)"
    by (simp add: cfg mmap_op_def mmap_ok_def)
qed

text \<open>
  \<open>pread\<close> into host memory, with the tasks run in any order, leaves the memory that \<open>read\<close> leaves, and
  its future yields the size.
\<close>

lemma mmap_pread_any_order:
  assumes "mapping_ok h" "shows_file content h (w_mem w)" "validate_and_adjust_read_args h size_opt off = Inr n"
    and "0 < n" "fits off n" "apart_from_mapping buf (unat n) h"
    and "0 < task_size" "task_size \<le> env_bounce_buffer_size env" "ready reg opts"
  shows "\<exists>s. mmap_pread env reg opts h size_opt off task_size = Inr (Mmap_Tasks (Some s)) \<and>
     (\<forall>order. mset order = mset (all_tasks s) \<longrightarrow>
        (\<exists>w'. run_tasks (mmap_task env ats h off buf True) order w = Some w' \<and>
           w_mem w' = write_bytes (w_mem w) buf (map content [unat off ..< unat off + unat n]))) \<and>
     complete (\<lambda>t. Inr (tk_size t)) rec s = (Inr n, if rec then [Finish_Bytes n] else [])"
proof -
  let ?cfg = "(env, ats, h, off, n, buf, content)"
  have "mmap_valid ?cfg" "mmap_ok ?cfg w" "admissible off n task_size"
    using validate_in_mapping [OF assms(3,5,1)] assms by (simp_all add: mmap_valid_def mmap_ok_def admissible_def)
  then obtain s where s: "parallel_io reg (env_page_size env) n off task_size 0 opts = Inr (Some s)"
      "\<forall>order. mset order = mset (all_tasks s) \<longrightarrow>
        (\<exists>w'. run_tasks (mmap_task env ats h off buf True) order w = Some w' \<and>
           w_mem w' = write_bytes (w_mem w) buf (map content [unat off ..< unat off + unat n]))"
      "complete (\<lambda>t. Inr (tk_size t)) rec s = (Inr n, if rec then [Finish_Bytes n] else [])"
    using mmap_tasks.parallel_read [of ?cfg off n 0 w task_size reg opts "env_page_size env" rec] assms(9)
    by (simp add: mmap_op_def) blast
  moreover have "mmap_pread env reg opts h size_opt off task_size = Inr (Mmap_Tasks (Some s))"
    using s(1) assms(3,4,7-9) by (simp add: mmap_pread_def res_simps ready_def expect_not_in_monitor_def word_gt_0)
  ultimately show ?thesis by blast
qed

end
