(* ===== verification/File_Handle.thy ===== *)
theory File_Handle
  imports File_Utils Defaults
begin

text \<open>
  The life of a file handle: \<open>cpp/src/compat_mode_manager.cpp\<close> and the constructor, moves and
  \<open>close\<close> of \<open>cpp/src/file_handle.cpp\<close>. A handle owns up to two descriptors of its file, one without
  and one with \<open>O_DIRECT\<close>, and a cuFile registration of the latter; the compatibility mode decides
  which of them it opens. The theorem is about ownership: a constructor that throws leaves nothing
  open, and closing or destroying a handle returns what it opened.
\<close>

section \<open>The compatibility mode of a handle\<close>

record CompatModeManager =
  compat_mode_requested :: CompatMode
  cm_preferred :: bool
  cm_preferred_for_async :: bool

record FileHandle =
  file_direct_on :: FileWrapper
  file_direct_off :: FileWrapper
  fh_initialized :: bool
  fh_nbytes :: size_t
  cufile_handle :: CUFileHandleWrapper
  compat_mode_manager :: CompatModeManager
  fh_path :: string
  fh_thread_pool :: ptr

definition no_manager :: CompatModeManager where
  "no_manager = \<lparr>compat_mode_requested = Compat_AUTO, cm_preferred = True, cm_preferred_for_async = True\<rparr>"

definition no_handle :: FileHandle where
  "no_handle = \<lparr>file_direct_on = no_file, file_direct_off = no_file, fh_initialized = False, fh_nbytes = 0,
     cufile_handle = no_registration, compat_mode_manager = no_manager, fh_path = [], fh_thread_pool = 0\<rparr>"

text \<open>
  The surroundings of a constructor call: the system calls, the cuFile calls, whether cuFile can be
  loaded, whether its configuration file is missing, and the settings.
\<close>

record 'o open_env =
  oe_files :: "'o file_api"
  oe_cufile :: "'o cufile_api"
  oe_cufile_available :: bool
  oe_config_path_empty :: bool
  oe_settings :: defaults

text \<open>The second half of the constructor: cuFile registration, and what it means for asynchronous I/O.\<close>

definition register_with_cufile :: "'o open_env \<Rightarrow> CompatMode \<Rightarrow> FileHandle \<Rightarrow> 'o \<Rightarrow> unit res \<times> FileHandle \<times> 'o" where
  "register_with_cufile oe requested fh o1 =
     (case register_handle (oe_cufile oe) (fd (file_direct_on fh)) (cufile_handle fh) o1 of
        (error_code, cu, o2) \<Rightarrow>
          let fh1 = fh\<lparr>cufile_handle := cu\<rparr>; err = the error_code in
          if requested \<noteq> Compat_AUTO \<and> err \<noteq> 0 then (Inl CUfile_Exception, fh1, o2)
          else let preferred = (requested = Compat_AUTO \<and> err \<noteq> 0)
               in (Inr (), fh1\<lparr>compat_mode_manager := (compat_mode_manager fh1)\<lparr>cm_preferred := preferred,
                     cm_preferred_for_async := preferred \<or> oe_config_path_empty oe\<rparr>\<rparr>, o2))"

text \<open>The middle of the constructor: the descriptor with \<open>O_DIRECT\<close>, and what its absence means.\<close>

definition open_with_direct_io ::
  "'o open_env \<Rightarrow> string \<Rightarrow> string \<Rightarrow> nat \<Rightarrow> CompatMode \<Rightarrow> FileHandle \<Rightarrow> 'o \<Rightarrow> unit res \<times> FileHandle \<times> 'o"
where
  "open_with_direct_io oe path flags mode requested fh o1 =
     (case file_open (oe_files oe) path flags True mode (file_direct_on fh) o1 of
        (Inl e, on, o2) \<Rightarrow>
          let fh2 = fh\<lparr>file_direct_on := on\<rparr> in
          if requested = Compat_ON then (Inr (), fh2, o2)
          else if requested = Compat_AUTO
          then (Inr (), fh2\<lparr>compat_mode_manager := (compat_mode_manager fh2)\<lparr>cm_preferred := True\<rparr>\<rparr>, o2)
          else (Inl e, fh2, o2)
      | (Inr _, on, o2) \<Rightarrow>
          let fh2 = fh\<lparr>file_direct_on := on\<rparr> in
          if cm_preferred (compat_mode_manager fh2) then (Inr (), fh2, o2) else register_with_cufile oe requested fh2 o2)"

definition new_compat_mode_manager ::
  "'o open_env \<Rightarrow> string \<Rightarrow> string \<Rightarrow> nat \<Rightarrow> CompatMode \<Rightarrow> FileHandle \<Rightarrow> 'o \<Rightarrow> unit res \<times> FileHandle \<times> 'o"
where
  "new_compat_mode_manager oe path flags mode requested fh o0 =
     (case file_open (oe_files oe) path flags False mode (file_direct_off fh) o0 of
        (Inl e, off, o1) \<Rightarrow> (Inl e, fh\<lparr>file_direct_off := off\<rparr>, o1)
      | (Inr _, off, o1) \<Rightarrow>
          let preferred = is_compat_mode_preferred (oe_cufile_available oe) requested;
              fh1 = fh\<lparr>file_direct_off := off,
                       compat_mode_manager := no_manager\<lparr>compat_mode_requested := requested, cm_preferred := preferred\<rparr>\<rparr>
          in if preferred \<and> \<not> df_auto_direct_io_read (oe_settings oe) \<and> \<not> df_auto_direct_io_write (oe_settings oe)
             then (Inr (), fh1, o1)
             else open_with_direct_io oe path flags mode requested fh1 o1)"

definition validate_compat_mode_for_async :: "bool \<Rightarrow> CompatModeManager \<Rightarrow> unit res" where
  "validate_compat_mode_for_async config_path_empty cm =
     kvikio_expect (\<not> (cm_preferred_for_async cm \<and> compat_mode_requested cm = Compat_OFF \<and> config_path_empty)) Runtime_Error"

section \<open>Thread pools by block device\<close>

record pool_cache =
  default_pool :: ptr
  pool_by_path :: "string \<rightharpoonup> ptr"
  pool_by_device :: "nat \<rightharpoonup> ptr"

definition emplace :: "'k \<Rightarrow> 'v \<Rightarrow> ('k \<rightharpoonup> 'v) \<Rightarrow> ('k \<rightharpoonup> 'v)" where
  "emplace k v m = (case m k of None \<Rightarrow> m(k \<mapsto> v) | Some _ \<Rightarrow> m)"

text \<open>\<open>device_of\<close> is \<open>get_block_device_info\<close> and \<open>fresh\<close> the pool that is created if one is needed.\<close>

definition get_thread_pool_per_block_device ::
  "bool \<Rightarrow> (string \<Rightarrow> nat res) \<Rightarrow> ptr \<Rightarrow> string \<Rightarrow> pool_cache \<Rightarrow> ptr \<times> pool_cache"
where
  "get_thread_pool_per_block_device per_block_device device_of fresh path pc =
     (if \<not> per_block_device then (default_pool pc, pc)
      else case pool_by_path pc path of
             Some p \<Rightarrow> (p, pc)
           | None \<Rightarrow>
               (case device_of path of
                  Inl _ \<Rightarrow> (default_pool pc, pc)
                | Inr dev \<Rightarrow>
                    (case pool_by_device pc dev of
                       Some p \<Rightarrow> (p, pc\<lparr>pool_by_path := emplace path p (pool_by_path pc)\<rparr>)
                     | None \<Rightarrow> (fresh, pc\<lparr>pool_by_device := emplace dev fresh (pool_by_device pc),
                                         pool_by_path := emplace path fresh (pool_by_path pc)\<rparr>))))"

text \<open>Files on one device share a pool, as long as the device of a path does not change.\<close>

definition pools_by_device :: "(string \<Rightarrow> nat res) \<Rightarrow> pool_cache \<Rightarrow> bool" where
  "pools_by_device device_of pc \<longleftrightarrow>
     (\<forall>path p. pool_by_path pc path = Some p \<longrightarrow> (\<exists>dev. device_of path = Inr dev \<and> pool_by_device pc dev = Some p))"

lemma same_device_same_pool:
  assumes "pools_by_device device_of pc" "device_of p1 = Inr dev" "device_of p2 = Inr dev"
    and "get_thread_pool_per_block_device True device_of f1 p1 pc = (q1, pc1)"
    and "get_thread_pool_per_block_device True device_of f2 p2 pc1 = (q2, pc2)"
  shows "q1 = q2 \<and> pools_by_device device_of pc2"
proof -
  have step: "pools_by_device device_of pc' \<and> pool_by_device pc' dev = Some q"
    if "pools_by_device device_of pc0" "device_of p = Inr dev"
      "get_thread_pool_per_block_device True device_of f p pc0 = (q, pc')" for pc0 pc' f p q
    using that
    by (auto simp: get_thread_pool_per_block_device_def pools_by_device_def emplace_def split: option.splits if_splits) fastforce+
  note s1 = step [OF assms(1,2,4)]
  note s2 = step [OF conjunct1 [OF s1] assms(3,5)]
  have "pool_by_device pc2 dev = Some q1"
    using s1 assms(3,5)
    by (auto simp: get_thread_pool_per_block_device_def emplace_def pools_by_device_def split: option.splits if_splits)
  with s2 show ?thesis by simp
qed

section \<open>The handle\<close>

text \<open>Destroying the members, in reverse order: the registration, then the two files.\<close>

definition release_members :: "'o open_env \<Rightarrow> FileHandle \<Rightarrow> 'o \<Rightarrow> FileHandle \<times> 'o" where
  "release_members oe fh o0 =
     (let (cu, o1) = unregister_handle (oe_cufile oe) (cufile_handle fh) o0;
          (off, o2) = file_close (oe_files oe) (file_direct_off fh) o1;
          (on, o3) = file_close (oe_files oe) (file_direct_on fh) o2
      in (fh\<lparr>cufile_handle := cu, file_direct_off := off, file_direct_on := on\<rparr>, o3))"

definition new_file_handle ::
  "'o open_env \<Rightarrow> (string \<Rightarrow> nat res) \<Rightarrow> ptr \<Rightarrow> string \<Rightarrow> string \<Rightarrow> nat \<Rightarrow> CompatMode \<Rightarrow> pool_cache \<Rightarrow> 'o
     \<Rightarrow> FileHandle res \<times> pool_cache \<times> 'o"
where
  "new_file_handle oe device_of fresh path flags mode requested pc o0 =
     (case new_compat_mode_manager oe path flags mode requested (no_handle\<lparr>fh_initialized := True\<rparr>) o0 of
        (Inl e, fh, o1) \<Rightarrow> (Inl e, pc, snd (release_members oe fh o1))
      | (Inr _, fh, o1) \<Rightarrow>
          let (p, pc1) = get_thread_pool_per_block_device (df_thread_pool_per_block_device (oe_settings oe)) device_of fresh path pc
          in (Inr (fh\<lparr>fh_path := path, fh_thread_pool := p\<rparr>), pc1, o1))"

definition file_handle_closed :: "FileHandle \<Rightarrow> bool" where
  "file_handle_closed fh \<longleftrightarrow> \<not> fh_initialized fh"

definition file_handle_close :: "'o open_env \<Rightarrow> FileHandle \<Rightarrow> 'o \<Rightarrow> FileHandle \<times> 'o" where
  "file_handle_close oe fh o0 =
     (if file_handle_closed fh then (fh, o0)
      else let (fh1, o1) = release_members oe fh o0
           in (fh1\<lparr>fh_nbytes := 0, fh_initialized := False, fh_thread_pool := 0\<rparr>, o1))"

text \<open>The destructor: \<open>close\<close>, then the members.\<close>

definition file_handle_destroy :: "'o open_env \<Rightarrow> FileHandle \<Rightarrow> 'o \<Rightarrow> 'o" where
  "file_handle_destroy oe fh o0 = (let (fh1, o1) = file_handle_close oe fh o0 in snd (release_members oe fh1 o1))"

text \<open>A move takes everything; the mode manager, which has no moved-from state, is copied.\<close>

definition file_handle_move :: "FileHandle \<Rightarrow> FileHandle \<times> FileHandle" where
  "file_handle_move other = (other, no_handle\<lparr>compat_mode_manager := compat_mode_manager other\<rparr>)"

definition file_handle_move_assign ::
  "'o open_env \<Rightarrow> FileHandle \<Rightarrow> FileHandle \<Rightarrow> 'o \<Rightarrow> (FileHandle \<times> FileHandle) \<times> 'o"
where
  "file_handle_move_assign oe this other o0 =
     (let (this1, o1) = file_handle_close oe this o0;
          (_, o2) = file_close (oe_files oe) (file_direct_on this1) o1;
          (_, o3) = file_close (oe_files oe) (file_direct_off this1) o2;
          (_, o4) = unregister_handle (oe_cufile oe) (cufile_handle this1) o3
      in (file_handle_move other, o4))"

definition file_handle_cufile :: "FileHandle \<Rightarrow> ptr res" where
  "file_handle_cufile fh =
     bind_res (kvikio_expect (\<not> file_handle_closed fh) CUfile_Exception) (\<lambda>_.
     bind_res (kvikio_expect (\<not> cm_preferred (compat_mode_manager fh)) CUfile_Exception) (\<lambda>_.
     Inr (cu_handle (cufile_handle fh))))"

definition file_handle_fd :: "bool \<Rightarrow> FileHandle \<Rightarrow> int" where
  "file_handle_fd o_direct fh = (if o_direct then fd (file_direct_on fh) else fd (file_direct_off fh))"

definition is_direct_io_supported :: "FileHandle \<Rightarrow> bool" where
  "is_direct_io_supported fh \<longleftrightarrow> fd (file_direct_on fh) \<noteq> -1"

text \<open>The size, cached until a write resets it to zero.\<close>

definition file_handle_nbytes :: "'o file_api \<Rightarrow> FileHandle \<Rightarrow> 'o \<Rightarrow> size_t res \<times> FileHandle \<times> 'o" where
  "file_handle_nbytes api fh o0 =
     (if file_handle_closed fh then (Inr 0, fh, o0)
      else if fh_nbytes fh \<noteq> 0 then (Inr (fh_nbytes fh), fh, o0)
      else case get_file_size api (fd (file_direct_off fh)) o0 of
             (Inl e, o1) \<Rightarrow> (Inl e, fh, o1)
           | (Inr n, o1) \<Rightarrow> (Inr n, fh\<lparr>fh_nbytes := n\<rparr>, o1))"

section \<open>Ownership\<close>

text \<open>
  What the system calls do to the set \<open>L\<close> of open descriptors and to the set \<open>R\<close> of registered cuFile
  handles: opening returns a descriptor that was not open, closing takes it away even if it reports an
  error, and likewise for registrations.
\<close>

definition keeps_ledger :: "'o open_env \<Rightarrow> ('o \<Rightarrow> int set) \<Rightarrow> ('o \<Rightarrow> ptr set) \<Rightarrow> bool" where
  "keeps_ledger oe L R \<longleftrightarrow>
     (\<forall>path fl mode w. R (snd (sys_open (oe_files oe) path fl mode w)) = R w \<and>
        (case sys_open (oe_files oe) path fl mode w of
           (Inl _, w') \<Rightarrow> L w' = L w
         | (Inr d, w') \<Rightarrow> d \<notin> L w \<and> d \<noteq> -1 \<and> L w' = insert d (L w))) \<and>
     (\<forall>d w. L (snd (sys_close (oe_files oe) d w)) = L w - {d} \<and> R (snd (sys_close (oe_files oe) d w)) = R w) \<and>
     (\<forall>d w. L (snd (handle_register (oe_cufile oe) d w)) = L w \<and>
        (case handle_register (oe_cufile oe) d w of
           ((err, h), w') \<Rightarrow> if err = 0 then h \<notin> R w \<and> R w' = insert h (R w) else R w' = R w)) \<and>
     (\<forall>h w. L (handle_deregister (oe_cufile oe) h w) = L w \<and> R (handle_deregister (oe_cufile oe) h w) = R w - {h})"

definition fds_of :: "FileHandle \<Rightarrow> int set" where
  "fds_of fh = {fd (file_direct_on fh), fd (file_direct_off fh)} - {-1}"

definition regs_of :: "FileHandle \<Rightarrow> ptr set" where
  "regs_of fh = (if cu_registered (cufile_handle fh) then {cu_handle (cufile_handle fh)} else {})"

text \<open>The handle holds resources that were not held before, and distinct ones.\<close>

definition owns :: "int set \<Rightarrow> ptr set \<Rightarrow> ('o \<Rightarrow> int set) \<Rightarrow> ('o \<Rightarrow> ptr set) \<Rightarrow> FileHandle \<Rightarrow> 'o \<Rightarrow> bool" where
  "owns L0 R0 L R fh w \<longleftrightarrow>
     L w = L0 \<union> fds_of fh \<and> fds_of fh \<inter> L0 = {} \<and> R w = R0 \<union> regs_of fh \<and> regs_of fh \<inter> R0 = {}"

lemma keeps_ledger_open:
  assumes "keeps_ledger oe L R"
  shows "R (snd (sys_open (oe_files oe) path fl mode w)) = R w \<and>
    (case sys_open (oe_files oe) path fl mode w of
       (Inl _, w') \<Rightarrow> L w' = L w
     | (Inr d, w') \<Rightarrow> d \<notin> L w \<and> d \<noteq> -1 \<and> L w' = insert d (L w))"
  using assms [unfolded keeps_ledger_def, THEN conjunct1] by (elim allE)

lemma keeps_ledger_close:
  assumes "keeps_ledger oe L R"
  shows "L (snd (sys_close (oe_files oe) d w)) = L w - {d}" "R (snd (sys_close (oe_files oe) d w)) = R w"
  using assms [unfolded keeps_ledger_def, THEN conjunct2, THEN conjunct1, rule_format, of d w] by simp_all

lemma keeps_ledger_register:
  assumes "keeps_ledger oe L R" "handle_register (oe_cufile oe) d w = ((err, h), w')"
  shows "L w' = L w" "if err = 0 then h \<notin> R w \<and> R w' = insert h (R w) else R w' = R w"
  using assms(1) [unfolded keeps_ledger_def, THEN conjunct2, THEN conjunct2, THEN conjunct1, rule_format, of d w] assms(2)
  by simp_all

lemma keeps_ledger_deregister:
  assumes "keeps_ledger oe L R"
  shows "L (handle_deregister (oe_cufile oe) h w) = L w" "R (handle_deregister (oe_cufile oe) h w) = R w - {h}"
  using assms [unfolded keeps_ledger_def, THEN conjunct2, THEN conjunct2, THEN conjunct2, rule_format, of h w] by simp_all

lemma file_close_ledger:
  assumes "keeps_ledger oe L R"
  shows "L (snd (file_close (oe_files oe) fw w)) = L w - ({fd fw} - {-1})"
    and "R (snd (file_close (oe_files oe) fw w)) = R w"
    and "fd (fst (file_close (oe_files oe) fw w)) = -1"
proof -
  note sys = keeps_ledger_close [OF assms]
  show "L (snd (file_close (oe_files oe) fw w)) = L w - ({fd fw} - {-1})"
    and "R (snd (file_close (oe_files oe) fw w)) = R w"
    and "fd (fst (file_close (oe_files oe) fw w)) = -1"
    by (simp_all add: file_close_def opened_def sys)
qed

lemma unregister_ledger:
  assumes "keeps_ledger oe L R"
  shows "L (snd (unregister_handle (oe_cufile oe) h w)) = L w"
    and "R (snd (unregister_handle (oe_cufile oe) h w)) = R w - (if cu_registered h then {cu_handle h} else {})"
    and "\<not> cu_registered (fst (unregister_handle (oe_cufile oe) h w))"
proof -
  note cu = keeps_ledger_deregister [OF assms]
  show "L (snd (unregister_handle (oe_cufile oe) h w)) = L w"
    and "R (snd (unregister_handle (oe_cufile oe) h w)) = R w - (if cu_registered h then {cu_handle h} else {})"
    and "\<not> cu_registered (fst (unregister_handle (oe_cufile oe) h w))"
    by (simp_all add: unregister_handle_def cu)
qed

lemmas ledger_steps = file_close_ledger unregister_ledger

lemma release_members_returns:
  assumes "keeps_ledger oe L R" "owns L0 R0 L R fh w"
  shows "L (snd (release_members oe fh w)) = L0 \<and> R (snd (release_members oe fh w)) = R0 \<and>
    fds_of (fst (release_members oe fh w)) = {} \<and> regs_of (fst (release_members oe fh w)) = {}"
proof -
  have "L (snd (release_members oe fh w)) = L w - fds_of fh" "R (snd (release_members oe fh w)) = R w - regs_of fh"
    by (auto simp: release_members_def case_prod_beta Let_def ledger_steps [OF assms(1)] fds_of_def regs_of_def)
  moreover have "fds_of (fst (release_members oe fh w)) = {}" "regs_of (fst (release_members oe fh w)) = {}"
    by (simp_all add: release_members_def case_prod_beta Let_def ledger_steps [OF assms(1)] fds_of_def regs_of_def)
  ultimately show ?thesis using assms(2) unfolding owns_def by blast
qed

lemma file_open_ledger:
  assumes "keeps_ledger oe L R" "file_open (oe_files oe) path flags od mode no_file w = (r, fw, w')"
  shows "R w' = R w \<and> (case r of Inl _ \<Rightarrow> fw = no_file \<and> L w' = L w
    | Inr _ \<Rightarrow> fd fw \<noteq> -1 \<and> fd fw \<notin> L w \<and> L w' = insert (fd fw) (L w))"
proof (cases "open_fd_parse_flags flags od")
  case (Inl e)
  with assms(2) show ?thesis by (auto simp: file_open_def open_fd_def opened_def no_file_def)
next
  case (Inr fl)
  note s = keeps_ledger_open [OF assms(1), of path fl mode w]
  obtain rr w1 where o': "sys_open (oe_files oe) path fl mode w = (rr, w1)" by (cases "sys_open (oe_files oe) path fl mode w")
  show ?thesis using s assms(2) Inr o' by (cases rr) (auto simp: file_open_def open_fd_def opened_def no_file_def)
qed

text \<open>
  Which resources a handle has in which mode: the descriptor without \<open>O_DIRECT\<close> always; outside the
  compatibility mode also the one with it, registered with cuFile.
\<close>

definition mode_consistent :: "CompatMode \<Rightarrow> FileHandle \<Rightarrow> bool" where
  "mode_consistent requested fh \<longleftrightarrow>
     (let cm = compat_mode_manager fh in
      compat_mode_requested cm = requested \<and> opened (file_direct_off fh) \<and>
      cm_preferred cm = (\<not> cu_registered (cufile_handle fh)) \<and>
      (\<not> cm_preferred cm \<longrightarrow> opened (file_direct_on fh)) \<and>
      (cm_preferred cm \<longrightarrow> cm_preferred_for_async cm) \<and>
      (requested = Compat_ON \<longrightarrow> cm_preferred cm) \<and> (requested = Compat_OFF \<longrightarrow> \<not> cm_preferred cm))"

lemma register_with_cufile_owns:
  assumes "keeps_ledger oe L R" "owns L0 R0 L R fh w" "\<not> cu_registered (cufile_handle fh)" "requested \<noteq> Compat_ON"
    and "opened (file_direct_off fh)" "opened (file_direct_on fh)" "compat_mode_requested (compat_mode_manager fh) = requested"
    and "register_with_cufile oe requested fh w = (r, fh', w')"
  shows "owns L0 R0 L R fh' w' \<and> (isl r \<or> mode_consistent requested fh')"
proof -
  obtain err h w1 where reg: "handle_register (oe_cufile oe) (fd (file_direct_on fh)) w = ((err, h), w1)"
    by (metis prod.exhaust)
  note led = keeps_ledger_register [OF assms(1) reg]
  have w: "w' = w1" using assms(3,8) reg
    by (auto simp: register_with_cufile_def register_handle_def Let_def split: if_splits)
  have files: "fds_of fh' = fds_of fh" using assms(3,8) reg
    by (auto simp: register_with_cufile_def register_handle_def Let_def fds_of_def split: if_splits)
  have regs: "regs_of fh' = (if err = 0 then {h} else {})" using assms(3,8) reg
    by (auto simp: register_with_cufile_def register_handle_def Let_def regs_of_def split: if_splits)
  have "owns L0 R0 L R fh' w'"
    using assms(2,3) led by (auto simp: owns_def w files regs) (auto simp: regs_of_def split: if_splits)
  moreover have "isl r \<or> mode_consistent requested fh'"
    using assms(3-8) reg
    by (cases requested) (auto simp: register_with_cufile_def register_handle_def Let_def mode_consistent_def opened_def split: if_splits)
  ultimately show ?thesis by blast
qed

lemma no_handle_simps [simp]:
  "file_direct_on no_handle = no_file" "file_direct_off no_handle = no_file" "\<not> cu_registered (cufile_handle no_handle)"
  "fd no_file = -1" "cm_preferred_for_async no_manager"
  by (simp_all add: no_handle_def no_registration_def no_file_def no_manager_def)

lemma owns_unregistered:
  assumes "\<not> cu_registered (cufile_handle fh)"
  shows "owns L0 R0 L R fh w \<longleftrightarrow> L w = L0 \<union> fds_of fh \<and> fds_of fh \<inter> L0 = {} \<and> R w = R0"
  using assms by (auto simp: owns_def regs_of_def)

lemma open_with_direct_io_owns:
  assumes "keeps_ledger oe L R" "owns L0 R0 L R fh w" "file_direct_on fh = no_file" "opened (file_direct_off fh)"
    and "\<not> cu_registered (cufile_handle fh)" "compat_mode_requested (compat_mode_manager fh) = requested"
    and "cm_preferred (compat_mode_manager fh) = is_compat_mode_preferred av requested"
    and "cm_preferred_for_async (compat_mode_manager fh)"
    and "open_with_direct_io oe path flags mode requested fh w = (r, fh', w')"
  shows "owns L0 R0 L R fh' w' \<and> (isl r \<or> mode_consistent requested fh')"
proof -
  obtain r2 on w2 where o2: "file_open (oe_files oe) path flags True mode no_file w = (r2, on, w2)" by (metis prod.exhaust)
  note l2 = file_open_ledger [OF assms(1) o2]
  note own = assms(2) [unfolded owns_unregistered [OF assms(5)]]
  show ?thesis
  proof (cases r2)
    case (Inl e)
    then have "w' = w2" "fds_of fh' = fds_of fh" "\<not> cu_registered (cufile_handle fh')"
      using assms(3,5,9) l2 by (auto simp: open_with_direct_io_def o2 fds_of_def Let_def split: if_splits)
    moreover have "isl r \<or> mode_consistent requested fh'"
      using assms(3-9) Inl
      by (auto simp: open_with_direct_io_def o2 Let_def mode_consistent_def is_compat_mode_preferred_def split: if_splits)
    ultimately show ?thesis using own l2 Inl by (simp add: owns_unregistered)
  next
    case (Inr u)
    let ?fh2 = "fh\<lparr>file_direct_on := on\<rparr>"
    have on: "fd on \<noteq> -1" "fd on \<notin> L w" "L w2 = insert (fd on) (L w)" "R w2 = R w" using l2 Inr by auto
    have owns2: "owns L0 R0 L R ?fh2 w2" using own on assms(3,5) by (auto simp: owns_unregistered fds_of_def)
    show ?thesis
    proof (cases "cm_preferred (compat_mode_manager fh)")
      case True
      then have "fh' = ?fh2" "w' = w2" using assms(3,9) Inr by (auto simp: open_with_direct_io_def o2)
      moreover have "mode_consistent requested ?fh2"
        using True assms(4-8) on(1) by (auto simp: mode_consistent_def opened_def is_compat_mode_preferred_def)
      ultimately show ?thesis using owns2 by blast
    next
      case False
      then have "requested \<noteq> Compat_ON" using assms(7) by (simp add: is_compat_mode_preferred_def)
      moreover have "register_with_cufile oe requested ?fh2 w2 = (r, fh', w')"
        using False assms(3,9) Inr by (simp add: open_with_direct_io_def o2)
      ultimately show ?thesis
        using register_with_cufile_owns [OF assms(1) owns2, of requested r fh' w'] assms(4-6) on(1) by (simp add: opened_def)
    qed
  qed
qed

lemma new_compat_mode_manager_owns:
  assumes "keeps_ledger oe L R"
    and "new_compat_mode_manager oe path flags mode requested (no_handle\<lparr>fh_initialized := True\<rparr>) w = (r, fh, w')"
  shows "owns (L w) (R w) L R fh w' \<and> (isl r \<or> mode_consistent requested fh)"
proof -
  let ?pref = "is_compat_mode_preferred (oe_cufile_available oe) requested"
  obtain r1 off w1 where o1: "file_open (oe_files oe) path flags False mode no_file w = (r1, off, w1)" by (metis prod.exhaust)
  note l1 = file_open_ledger [OF assms(1) o1]
  let ?fh1 = "no_handle\<lparr>fh_initialized := True, file_direct_off := off,
    compat_mode_manager := no_manager\<lparr>compat_mode_requested := requested, cm_preferred := ?pref\<rparr>\<rparr>"
  show ?thesis
  proof (cases r1)
    case (Inl e)
    then show ?thesis using assms(2) l1 by (auto simp: new_compat_mode_manager_def o1 owns_unregistered fds_of_def)
  next
    case (Inr u)
    then have own1: "owns (L w) (R w) L R ?fh1 w1" and "opened off"
      using l1 by (auto simp: owns_unregistered fds_of_def opened_def)
    show ?thesis
    proof (cases "?pref \<and> \<not> df_auto_direct_io_read (oe_settings oe) \<and> \<not> df_auto_direct_io_write (oe_settings oe)")
      case True
      then have "r = Inr ()" "fh = ?fh1" "w' = w1" using assms(2) Inr by (auto simp: new_compat_mode_manager_def o1)
      moreover have "mode_consistent requested ?fh1"
        using True \<open>opened off\<close> by (auto simp: mode_consistent_def is_compat_mode_preferred_def)
      ultimately show ?thesis using own1 by simp
    next
      case False
      then have "open_with_direct_io oe path flags mode requested ?fh1 w1 = (r, fh, w')"
        using assms(2) Inr unfolding new_compat_mode_manager_def Let_def by (auto simp: o1 split: if_splits)
      then show ?thesis using open_with_direct_io_owns [OF assms(1) own1] \<open>opened off\<close> by simp
    qed
  qed
qed

lemma new_compat_mode_manager_keeps:
  assumes "new_compat_mode_manager oe path flags mode requested fh w = (r, fh', w')"
  shows "fh_initialized fh' = fh_initialized fh"
  using assms
  by (auto simp: new_compat_mode_manager_def open_with_direct_io_def register_with_cufile_def Let_def
      split: sum.splits prod.splits if_splits)

lemma closed_handle_stays_closed:
  "file_handle_close oe (fst (file_handle_close oe fh w)) w' = (fst (file_handle_close oe fh w), w')"
  by (simp add: file_handle_close_def file_handle_closed_def case_prod_beta Let_def)

lemma owns_cong:
  assumes "file_direct_on fh' = file_direct_on fh" "file_direct_off fh' = file_direct_off fh" "cufile_handle fh' = cufile_handle fh"
  shows "owns L0 R0 L R fh' w = owns L0 R0 L R fh w"
  using assms by (simp add: owns_def fds_of_def regs_of_def)

lemma close_returns:
  assumes "keeps_ledger oe L R" "owns L0 R0 L R fh w" "fh_initialized fh" "file_handle_close oe fh w = (fh', w')"
  shows "owns L0 R0 L R fh' w'" "L w' = L0" "R w' = R0" "file_handle_closed fh'"
proof -
  obtain fh1 w1 where rel: "release_members oe fh w = (fh1, w1)" by (cases "release_members oe fh w")
  have eq: "fh' = fh1\<lparr>fh_nbytes := 0, fh_initialized := False, fh_thread_pool := 0\<rparr>" "w' = w1"
    using assms(3,4) rel by (auto simp: file_handle_close_def file_handle_closed_def)
  with release_members_returns [OF assms(1,2)] rel show "L w' = L0" "R w' = R0" "file_handle_closed fh'"
    by (simp_all add: file_handle_closed_def)
  with release_members_returns [OF assms(1,2)] rel eq have "owns L0 R0 L R fh1 w'" by (simp add: owns_def)
  then show "owns L0 R0 L R fh' w'" using owns_cong [of fh' fh1 L0 R0 L R w'] eq(1) by simp
qed

text \<open>
  C10. A file handle owns exactly what its constructor opened, in every compatibility mode and whatever
  fails on the way. A constructor that throws leaves no descriptor open and no cuFile registration
  behind. One that returns holds a descriptor without \<open>O_DIRECT\<close>; it is registered with cuFile exactly
  if it is not in compatibility mode, and then has the descriptor with \<open>O_DIRECT\<close> too; the mode asked
  for is kept: ON never uses cuFile, OFF always. Closing it returns what it opened and nothing else, a
  second close does nothing, and so the destructor after a close returns nothing twice.
\<close>

theorem file_handle_owns_what_it_opens:
  assumes "keeps_ledger oe L R"
    and "new_file_handle oe device_of fresh path flags mode requested pc w = (r, pc', w1)"
  shows "case r of
      Inl _ \<Rightarrow> L w1 = L w \<and> R w1 = R w
    | Inr fh \<Rightarrow> owns (L w) (R w) L R fh w1 \<and> mode_consistent requested fh \<and>
        (let (fh2, w2) = file_handle_close oe fh w1 in
           L w2 = L w \<and> R w2 = R w \<and> file_handle_closed fh2 \<and> file_handle_close oe fh2 w2 = (fh2, w2)) \<and>
        L (file_handle_destroy oe fh w1) = L w \<and> R (file_handle_destroy oe fh w1) = R w"
proof -
  obtain rm fh0 wm where nm: "new_compat_mode_manager oe path flags mode requested (no_handle\<lparr>fh_initialized := True\<rparr>) w = (rm, fh0, wm)"
    by (metis prod.exhaust)
  note own = new_compat_mode_manager_owns [OF assms(1) nm]
  show ?thesis
  proof (cases rm)
    case (Inl e)
    then show ?thesis
      using assms(2) release_members_returns [OF assms(1) conjunct1 [OF own]] by (auto simp: new_file_handle_def nm)
  next
    case (Inr u)
    obtain q fresh_pc where pool: "get_thread_pool_per_block_device (df_thread_pool_per_block_device (oe_settings oe)) device_of fresh path pc = (q, fresh_pc)"
      by (metis prod.exhaust)
    define fh where "fh = fh0\<lparr>fh_path := path, fh_thread_pool := q\<rparr>"
    have res: "r = Inr fh" "w1 = wm" using assms(2) Inr pool by (auto simp: new_file_handle_def nm fh_def)
    have init: "fh_initialized fh" using new_compat_mode_manager_keeps [OF nm] by (simp add: fh_def)
    have owned: "owns (L w) (R w) L R fh w1" using own res owns_cong [of fh fh0 "L w" "R w" L R w1] by (simp add: fh_def)
    have "mode_consistent requested fh" using own Inr by (simp add: mode_consistent_def fh_def)
    moreover obtain fh2 w2 where cl: "file_handle_close oe fh w1 = (fh2, w2)" by (cases "file_handle_close oe fh w1")
    moreover note ret = close_returns [OF assms(1) owned init cl]
    moreover have "file_handle_close oe fh2 w2 = (fh2, w2)" using closed_handle_stays_closed [of oe fh w1 w2] cl by simp
    moreover have "L (file_handle_destroy oe fh w1) = L w \<and> R (file_handle_destroy oe fh w1) = R w"
      using release_members_returns [OF assms(1) ret(1)] by (simp add: file_handle_destroy_def cl)
    ultimately show ?thesis using owned cl by (simp add: res)
  qed
qed

text \<open>
  A small system: the descriptors in use and the registrations in use. The next descriptor is the largest
  plus one, a registration is the number of its descriptor. A file under \<open>/dev\<close> cannot be opened with
  \<open>O_DIRECT\<close>.
\<close>

type_synonym toy_os = "int list \<times> ptr list"

definition toy_files :: "toy_os file_api" where
  "toy_files = \<lparr>
     sys_open = \<lambda>path fl mode w.
       (if take 4 path = ''/dev'' \<and> fl AND O_DIRECT \<noteq> 0 then (Inl 22, w)
        else let d = foldr max (fst w) 2 + 1 in (Inr d, (d # fst w, snd w))),
     sys_close = \<lambda>d w. (Inr (), (filter (\<lambda>x. x \<noteq> d) (fst w), snd w)),
     sys_getfl = \<lambda>d w. (Inr 0, w),
     sys_fstat_size = \<lambda>d w. (Inr 0, w),
     sys_mmap = \<lambda>len prot fl d off w. (Inl 12, w),
     sys_munmap = \<lambda>a n w. (Inr (), w),
     sys_mincore = \<lambda>a n w. (Inl 12, w),
     sys_fdatasync = \<lambda>d w. (Inr (), w),
     sys_fadvise_dontneed = \<lambda>d off len w. (Inr (), w)\<rparr>"

definition toy_cufile :: "toy_os cufile_api" where
  "toy_cufile = \<lparr>
     handle_register = \<lambda>d w. (if word_of_int d \<in> set (snd w) then ((5027, 0), w) else ((0, word_of_int d), (fst w, word_of_int d # snd w))),
     handle_deregister = \<lambda>h w. (fst w, filter (\<lambda>x. x \<noteq> h) (snd w))\<rparr>"

definition toy_env :: "toy_os open_env" where
  "toy_env = \<lparr>oe_files = toy_files, oe_cufile = toy_cufile, oe_cufile_available = True, oe_config_path_empty = False,
     oe_settings = demo_settings\<rparr>"

lemma foldr_max_upper: "x \<in> set xs \<Longrightarrow> x \<le> foldr max xs (b :: 'a :: linorder)"
  by (induction xs) (auto simp: le_max_iff_disj)

lemma foldr_max_base: "b \<le> foldr max xs (b :: 'a :: linorder)"
  by (induction xs) (auto simp: le_max_iff_disj)

lemma toy_keeps_ledger: "keeps_ledger toy_env (\<lambda>w. set (fst w)) (\<lambda>w. set (snd w))"
proof -
  have "foldr max xs 2 + 1 \<notin> set xs \<and> foldr max xs 2 + 1 \<noteq> (-1 :: int)" for xs
    using foldr_max_upper [of "foldr max xs 2 + 1" xs 2] foldr_max_base [of 2 xs] by auto
  then show ?thesis
    by (auto simp: keeps_ledger_def toy_env_def toy_files_def toy_cufile_def Let_def)
qed

definition toy_pools :: pool_cache where
  "toy_pools = \<lparr>default_pool = 1, pool_by_path = Map.empty, pool_by_device = Map.empty\<rparr>"

text \<open>Opened with cuFile, in compatibility mode because \<open>O_DIRECT\<close> is not supported, and refused for the same reason.\<close>

theorem file_handle_owns_what_it_opens_witness:
  "(\<exists>fh w1. new_file_handle toy_env (\<lambda>_. Inr 8) 9 ''/a'' ''r'' 420 Compat_AUTO toy_pools ([0, 1, 2], []) = (Inr fh, toy_pools, w1) \<and>
      set (fst w1) = {0, 1, 2, 3, 4} \<and> set (snd w1) = {4} \<and> \<not> cm_preferred (compat_mode_manager fh) \<and>
      set (fst (file_handle_destroy toy_env fh w1)) = {0, 1, 2} \<and> snd (file_handle_destroy toy_env fh w1) = []) \<and>
   new_file_handle toy_env (\<lambda>_. Inr 8) 9 ''/dev/a'' ''r'' 420 Compat_OFF toy_pools ([0, 1, 2], []) =
     (Inl (Generic_System_Error 22), toy_pools, ([0, 1, 2], []))"
proof -
  define fh where "fh = \<lparr>file_direct_on = \<lparr>fd = 4\<rparr>, file_direct_off = \<lparr>fd = 3\<rparr>, fh_initialized = True, fh_nbytes = 0,
    cufile_handle = \<lparr>cu_handle = 4, cu_registered = True\<rparr>, compat_mode_manager = \<lparr>compat_mode_requested = Compat_AUTO,
    cm_preferred = False, cm_preferred_for_async = False\<rparr>, fh_path = ''/a'', fh_thread_pool = 1\<rparr>"
  let ?h = "no_handle\<lparr>fh_initialized := True\<rparr>"
  have "new_compat_mode_manager toy_env ''/a'' ''r'' 420 Compat_AUTO ?h ([0, 1, 2], []) =
      (Inr (), fh\<lparr>fh_path := [], fh_thread_pool := 0\<rparr>, ([4, 3, 0, 1, 2], [4]))"
    unfolding fh_def by code_simp
  then have a: "new_file_handle toy_env (\<lambda>_. Inr 8) 9 ''/a'' ''r'' 420 Compat_AUTO toy_pools ([0, 1, 2], []) =
      (Inr fh, toy_pools, ([4, 3, 0, 1, 2], [4]))"
    by (simp add: new_file_handle_def get_thread_pool_per_block_device_def toy_env_def demo_settings_def toy_pools_def fh_def)
  have "new_compat_mode_manager toy_env ''/dev/a'' ''r'' 420 Compat_OFF ?h ([0, 1, 2], []) =
      (Inl (Generic_System_Error 22), ?h\<lparr>file_direct_off := \<lparr>fd = 3\<rparr>,
       compat_mode_manager := no_manager\<lparr>compat_mode_requested := Compat_OFF, cm_preferred := False\<rparr>\<rparr>, ([3, 0, 1, 2], []))"
    by code_simp
  then have b: "new_file_handle toy_env (\<lambda>_. Inr 8) 9 ''/dev/a'' ''r'' 420 Compat_OFF toy_pools ([0, 1, 2], []) =
      (Inl (Generic_System_Error 22), toy_pools, ([0, 1, 2], []))"
    by (simp add: new_file_handle_def release_members_def file_close_def opened_def unregister_handle_def toy_env_def toy_files_def)
  show ?thesis
    using file_handle_owns_what_it_opens [OF toy_keeps_ledger a] a b
    by (intro conjI exI [of _ fh] exI [of _ "([4, 3, 0, 1, 2], [4])"]) (auto simp: fh_def)
qed

end
