(* ===== verification/Device_Memory.thy ===== *)
theory Device_Memory
  imports Posix_IO
begin

text \<open>
  Pointers and contexts: the CUDA helpers of \<open>cpp/src/utils.cpp\<close>. The driver's calls are parameters:
  each acts on the outside state and returns an error code or a value. \<open>is_host_memory\<close> decides where
  a buffer lies, \<open>get_context_from_pointer\<close> under which context it can be accessed, \<open>get_alloc_info\<close>
  finds the allocation around it, and \<open>with_context\<close> is the scope of a \<open>PushAndPopContext\<close>.
\<close>

section \<open>The driver\<close>

type_synonym ('e, 'a) driver_call = "'e \<Rightarrow> (int + 'a) \<times> 'e"

record 'e cuda_api =
  pointer_memory_type :: "ptr \<Rightarrow> ('e, nat) driver_call"
  pointer_context :: "ptr \<Rightarrow> ('e, ptr) driver_call"
  pointer_device_pointer :: "ptr \<Rightarrow> ('e, ptr) driver_call"
  pointer_device_ordinal :: "ptr \<Rightarrow> ('e, int) driver_call"
  ctx_get_current :: "('e, ptr) driver_call"
  ctx_push_current :: "ptr \<Rightarrow> ('e, unit) driver_call"
  ctx_pop_current :: "('e, unit) driver_call"
  device_get :: "int \<Rightarrow> ('e, int) driver_call"
  device_primary_ctx_retain :: "int \<Rightarrow> ('e, ptr) driver_call"
  mem_get_address_range :: "ptr \<Rightarrow> ('e, ptr \<times> size_t) driver_call"
  stream_synchronize :: "ptr \<Rightarrow> ('e, unit) driver_call"

definition CUDA_ERROR_INVALID_VALUE :: int where "CUDA_ERROR_INVALID_VALUE = 1"

definition CUDA_ERROR_NOT_INITIALIZED :: int where "CUDA_ERROR_NOT_INITIALIZED = 3"

definition CU_MEMORYTYPE_HOST :: nat where "CU_MEMORYTYPE_HOST = 1"

text \<open>\<open>KVIKIO_CUDA_DRIVER_TRY\<close>: any error code throws.\<close>

definition cuda_driver_try :: "(int + 'a) \<times> 'e \<Rightarrow> 'a res \<times> 'e" where
  "cuda_driver_try r = (case r of (Inl _, e) \<Rightarrow> (Inl CUfile_Exception, e) | (Inr x, e) \<Rightarrow> (Inr x, e))"

lemma cuda_driver_try_simps [simp]:
  "cuda_driver_try (Inl c, e) = (Inl CUfile_Exception, e)" "cuda_driver_try (Inr x, e) = (Inr x, e)"
  by (simp_all add: cuda_driver_try_def)

section \<open>Where a pointer points\<close>

definition is_host_memory :: "'e cuda_api \<Rightarrow> ptr \<Rightarrow> 'e \<Rightarrow> bool res \<times> 'e" where
  "is_host_memory api p e =
     (case pointer_memory_type api p e of
        (Inl err, e1) \<Rightarrow> if err = CUDA_ERROR_NOT_INITIALIZED then (Inr True, e1) else (Inl CUfile_Exception, e1)
      | (Inr memtype, e1) \<Rightarrow> (Inr (memtype = 0 \<or> memtype = CU_MEMORYTYPE_HOST), e1))"

definition get_device_ordinal_from_pointer :: "'e cuda_api \<Rightarrow> ptr \<Rightarrow> 'e \<Rightarrow> int res \<times> 'e" where
  "get_device_ordinal_from_pointer api dev_ptr e = cuda_driver_try (pointer_device_ordinal api dev_ptr e)"

section \<open>Contexts\<close>

text \<open>The cache of primary contexts, which lives as long as the process.\<close>

type_synonym context_cache = "int \<rightharpoonup> ptr"

definition get_primary_cuda_context ::
  "'e cuda_api \<Rightarrow> int \<Rightarrow> context_cache \<Rightarrow> 'e \<Rightarrow> ptr res \<times> context_cache \<times> 'e"
where
  "get_primary_cuda_context api ordinal cache e =
     (case cache ordinal of
        Some ctx \<Rightarrow> (Inr ctx, cache, e)
      | None \<Rightarrow>
          (case cuda_driver_try (device_get api ordinal e) of
             (Inl x, e1) \<Rightarrow> (Inl x, cache, e1)
           | (Inr dev, e1) \<Rightarrow>
               (case cuda_driver_try (device_primary_ctx_retain api dev e1) of
                  (Inl x, e2) \<Rightarrow> (Inl x, cache, e2)
                | (Inr ctx, e2) \<Rightarrow> (Inr ctx, cache(ordinal \<mapsto> ctx), e2))))"

definition get_context_associated_pointer :: "'e cuda_api \<Rightarrow> ptr \<Rightarrow> 'e \<Rightarrow> ptr option res \<times> 'e" where
  "get_context_associated_pointer api dev_ptr e =
     (case pointer_context api dev_ptr e of
        (Inr ctx, e1) \<Rightarrow> (Inr (if ctx \<noteq> 0 then Some ctx else None), e1)
      | (Inl err, e1) \<Rightarrow> if err \<noteq> CUDA_ERROR_INVALID_VALUE then (Inl CUfile_Exception, e1) else (Inr None, e1))"

definition current_context_can_access_pointer :: "'e cuda_api \<Rightarrow> ptr \<Rightarrow> 'e \<Rightarrow> bool res \<times> 'e" where
  "current_context_can_access_pointer api dev_ptr e =
     (case pointer_device_pointer api dev_ptr e of
        (Inr p, e1) \<Rightarrow> (Inr (p = dev_ptr), e1)
      | (Inl err, e1) \<Rightarrow> if err \<noteq> CUDA_ERROR_INVALID_VALUE then (Inl CUfile_Exception, e1) else (Inr False, e1))"

text \<open>The context of the pointer, else the current one if it can access the pointer, else the primary one of its device.\<close>

definition primary_context_of_pointer ::
  "'e cuda_api \<Rightarrow> ptr \<Rightarrow> context_cache \<Rightarrow> 'e \<Rightarrow> ptr res \<times> context_cache \<times> 'e"
where
  "primary_context_of_pointer api dev_ptr cache e =
     (case get_device_ordinal_from_pointer api dev_ptr e of
        (Inl x, e1) \<Rightarrow> (Inl x, cache, e1)
      | (Inr ordinal, e1) \<Rightarrow> get_primary_cuda_context api ordinal cache e1)"

definition get_context_from_pointer ::
  "'e cuda_api \<Rightarrow> ptr \<Rightarrow> context_cache \<Rightarrow> 'e \<Rightarrow> ptr res \<times> context_cache \<times> 'e"
where
  "get_context_from_pointer api dev_ptr cache e =
     (case get_context_associated_pointer api dev_ptr e of
        (Inl x, e1) \<Rightarrow> (Inl x, cache, e1)
      | (Inr (Some ctx), e1) \<Rightarrow> (Inr ctx, cache, e1)
      | (Inr None, e1) \<Rightarrow>
          (case cuda_driver_try (ctx_get_current api e1) of
             (Inl x, e2) \<Rightarrow> (Inl x, cache, e2)
           | (Inr ctx, e2) \<Rightarrow>
               if ctx = 0 then primary_context_of_pointer api dev_ptr cache e2
               else case current_context_can_access_pointer api dev_ptr e2 of
                      (Inl x, e3) \<Rightarrow> (Inl x, cache, e3)
                    | (Inr True, e3) \<Rightarrow> (Inr ctx, cache, e3)
                    | (Inr False, e3) \<Rightarrow> primary_context_of_pointer api dev_ptr cache e3))"

text \<open>
  A scope with a context pushed. The destructor pops it, also when the body throws, and only prints
  an error of its own.
\<close>

definition with_context_call :: "'e cuda_api \<Rightarrow> ptr \<Rightarrow> ('e \<Rightarrow> 'a res \<times> 'e) \<Rightarrow> 'e \<Rightarrow> 'a res \<times> 'e" where
  "with_context_call api ctx body e =
     (case cuda_driver_try (ctx_push_current api ctx e) of
        (Inl x, e1) \<Rightarrow> (Inl x, e1)
      | (Inr _, e1) \<Rightarrow> let (r, e2) = body e1 in (r, snd (ctx_pop_current api e2)))"

text \<open>The same for a body that works on the world and on something more, and that may not return.\<close>

definition with_context ::
  "'e cuda_api \<Rightarrow> ptr \<Rightarrow> ('e world \<Rightarrow> 'x \<Rightarrow> ('a res \<times> 'e world \<times> 'x) option) \<Rightarrow> 'e world \<Rightarrow> 'x \<Rightarrow> ('a res \<times> 'e world \<times> 'x) option"
where
  "with_context api ctx body w x =
     (case cuda_driver_try (ctx_push_current api ctx (w_ext w)) of
        (Inl ex, e1) \<Rightarrow> Some (Inl ex, w\<lparr>w_ext := e1\<rparr>, x)
      | (Inr _, e1) \<Rightarrow>
          map_option (\<lambda>(r, w2, x2). (r, w2\<lparr>w_ext := snd (ctx_pop_current api (w_ext w2))\<rparr>, x2)) (body (w\<lparr>w_ext := e1\<rparr>) x))"

definition get_alloc_info ::
  "'e cuda_api \<Rightarrow> ptr \<Rightarrow> ptr option \<Rightarrow> context_cache \<Rightarrow> 'e \<Rightarrow> (ptr \<times> size_t \<times> size_t) res \<times> context_cache \<times> 'e"
where
  "get_alloc_info api devPtr ctx cache e =
     (case (case ctx of Some c \<Rightarrow> (Inr c, cache, e) | None \<Rightarrow> get_context_from_pointer api devPtr cache e) of
        (Inl x, cache1, e1) \<Rightarrow> (Inl x, cache1, e1)
      | (Inr c, cache1, e1) \<Rightarrow>
          (case with_context_call api c (\<lambda>e. cuda_driver_try (mem_get_address_range api devPtr e)) e1 of
             (Inl x, e2) \<Rightarrow> (Inl x, cache1, e2)
           | (Inr (base_ptr, base_size), e2) \<Rightarrow> (Inr (base_ptr, base_size, devPtr - base_ptr), cache1, e2)))"

section \<open>Contexts are balanced\<close>

text \<open>
  What a driver does to the stack of contexts \<open>st\<close>: a push that succeeds adds one, a pop removes one
  (also when it reports an earlier error), and nothing else touches it. Then every helper leaves the
  stack as it found it, whatever fails.
\<close>

definition keeps_stack :: "'e cuda_api \<Rightarrow> ('e \<Rightarrow> ptr list) \<Rightarrow> bool" where
  "keeps_stack api st \<longleftrightarrow>
     (\<forall>c e. (case ctx_push_current api c e of (Inl _, e') \<Rightarrow> st e' = st e | (Inr _, e') \<Rightarrow> st e' = c # st e)) \<and>
     (\<forall>e. st (snd (ctx_pop_current api e)) = tl (st e)) \<and>
     (\<forall>p e. st (snd (pointer_context api p e)) = st e \<and> st (snd (pointer_device_pointer api p e)) = st e \<and>
            st (snd (pointer_device_ordinal api p e)) = st e \<and> st (snd (mem_get_address_range api p e)) = st e) \<and>
     (\<forall>e. st (snd (ctx_get_current api e)) = st e) \<and>
     (\<forall>d e. st (snd (device_get api d e)) = st e \<and> st (snd (device_primary_ctx_retain api d e)) = st e)"

lemma cuda_driver_try_state [simp]: "snd (cuda_driver_try r) = snd r"
  by (auto simp: cuda_driver_try_def split: prod.splits sum.splits)

lemma with_context_call_balanced:
  assumes "keeps_stack api st" "\<And>e. st (snd (body e)) = st e"
  shows "st (snd (with_context_call api ctx body e)) = st e"
proof (cases "ctx_push_current api ctx e")
  case (Pair r e1)
  have "case ctx_push_current api ctx e of (Inl _, e') \<Rightarrow> st e' = st e | (Inr _, e') \<Rightarrow> st e' = ctx # st e"
    using assms(1) [unfolded keeps_stack_def, THEN conjunct1] by (elim allE)
  moreover have "st (snd (ctx_pop_current api e')) = tl (st e')" for e' using assms(1) by (simp add: keeps_stack_def)
  ultimately show ?thesis
    using assms(2) [of e1] Pair by (cases r) (simp_all add: with_context_call_def case_prod_beta)
qed

lemma keeps_stackD:
  assumes "keeps_stack api st"
  shows "pointer_context api p e = (r1, e') \<Longrightarrow> st e' = st e" "pointer_device_pointer api p e = (r1, e') \<Longrightarrow> st e' = st e"
    "pointer_device_ordinal api p e = (r2, e') \<Longrightarrow> st e' = st e" "ctx_get_current api e = (r1, e') \<Longrightarrow> st e' = st e"
    "device_get api d e = (r2, e') \<Longrightarrow> st e' = st e" "device_primary_ctx_retain api d e = (r1, e') \<Longrightarrow> st e' = st e"
    "st (snd (mem_get_address_range api p e)) = st e"
  using assms unfolding keeps_stack_def by (metis snd_conv)+

lemma get_context_from_pointer_balanced:
  assumes "keeps_stack api st" "get_context_from_pointer api devPtr cache e = (r, cache', e')"
  shows "st e' = st e"
proof -
  note keep = keeps_stackD(1-6) [OF assms(1)]
  have prim: "st e2 = st e1" if "get_primary_cuda_context api ordinal cache e1 = (r, cache', e2)" for ordinal e1 e2
    using that
    by (auto simp: get_primary_cuda_context_def cuda_driver_try_def dest!: keep split: option.splits prod.splits sum.splits)
  have prim': "st e2 = st e1" if "primary_context_of_pointer api devPtr cache e1 = (r, cache', e2)" for e1 e2
    using that
    by (auto simp: primary_context_of_pointer_def get_device_ordinal_from_pointer_def cuda_driver_try_def
        dest!: keep prim split: prod.splits sum.splits)
  show ?thesis
    using assms(2)
    by (auto simp: get_context_from_pointer_def get_context_associated_pointer_def current_context_can_access_pointer_def
        cuda_driver_try_def dest!: keep prim' split: prod.splits sum.splits option.splits if_splits bool.splits)
qed

lemma get_alloc_info_balanced:
  assumes "keeps_stack api st" "get_alloc_info api devPtr ctx cache e = (r, cache', e')"
  shows "st e' = st e"
proof -
  let ?body = "\<lambda>e. cuda_driver_try (mem_get_address_range api devPtr e)"
  have push: "st e2 = st e1" if "with_context_call api c ?body e1 = (q, e2)" for c q e1 e2
    using with_context_call_balanced [OF assms(1), of ?body c e1] keeps_stackD(7) [OF assms(1)] that by simp
  show ?thesis
    using assms(2)
    by (auto simp: get_alloc_info_def dest!: get_context_from_pointer_balanced [OF assms(1)] push
        split: prod.splits sum.splits option.splits)
qed

section \<open>Address translation\<close>

text \<open>
  \<open>is_ats_available\<close> of \<open>cpp/src/mmap.cpp\<close>: whether the CPU and the current device share a page table. All
  devices are asked once; the record lives as long as the process.
\<close>

record 'e ats_api = "'e cuda_api" +
  device_get_count :: "('e, nat) driver_call"
  device_get_attribute :: "int \<Rightarrow> ('e, int) driver_call"
  ctx_get_device :: "('e, int) driver_call"

fun ask_devices :: "('e, 'z) ats_api_scheme \<Rightarrow> nat list \<Rightarrow> (int \<rightharpoonup> int) \<Rightarrow> 'e \<Rightarrow> (int \<rightharpoonup> int) res \<times> 'e" where
  "ask_devices api [] result e = (Inr result, e)"
| "ask_devices api (device_ordinal # rest) result e =
     (case cuda_driver_try (device_get api (int device_ordinal) e) of
        (Inl x, e1) \<Rightarrow> (Inl x, e1)
      | (Inr device_handle, e1) \<Rightarrow>
          (case cuda_driver_try (device_get_attribute api device_handle e1) of
             (Inl x, e2) \<Rightarrow> (Inl x, e2)
           | (Inr attr, e2) \<Rightarrow> ask_devices api rest (result(device_handle \<mapsto> attr)) e2))"

definition ats_record :: "('e, 'z) ats_api_scheme \<Rightarrow> 'e \<Rightarrow> (int \<rightharpoonup> int) res \<times> 'e" where
  "ats_record api e =
     (case cuda_driver_try (device_get_count api e) of
        (Inl x, e1) \<Rightarrow> (Inl x, e1)
      | (Inr num_devices, e1) \<Rightarrow> ask_devices api [0..<num_devices] Map.empty e1)"

definition is_ats_available ::
  "('e, 'z) ats_api_scheme \<Rightarrow> (int \<rightharpoonup> int) option \<Rightarrow> 'e \<Rightarrow> bool res \<times> (int \<rightharpoonup> int) option \<times> 'e"
where
  "is_ats_available api memo e =
     (case (case memo of Some m \<Rightarrow> (Inr m, e) | None \<Rightarrow> ats_record api e) of
        (Inl x, e1) \<Rightarrow> (Inl x, memo, e1)
      | (Inr m, e1) \<Rightarrow>
          (case cuda_driver_try (ctx_get_device api e1) of
             (Inl x, e2) \<Rightarrow> (Inl x, Some m, e2)
           | (Inr d, e2) \<Rightarrow> (case m d of None \<Rightarrow> (Inl Out_Of_Range, Some m, e2) | Some attr \<Rightarrow> (Inr (attr \<noteq> 0), Some m, e2))))"

text \<open>Once the devices have been asked, only the current device is asked for.\<close>

lemma ats_asked_once:
  assumes "is_ats_available api memo e = (Inr b, memo', e1)" "ctx_get_device api e2 = (Inr d, e3)" "memo' = Some m" "m d = Some attr"
  shows "is_ats_available api memo' e2 = (Inr (attr \<noteq> 0), memo', e3)"
  using assms(2-4) by (simp add: is_ats_available_def)

end
