(* ===== verification/File_IO.thy ===== *)
theory File_IO
  imports File_Handle Device_Memory Task_Run
begin

text \<open>
  Reading and writing through a file handle: \<open>read\<close>, \<open>write\<close>, \<open>pread\<close> and \<open>pwrite\<close> of
  \<open>cpp/src/file_handle.cpp\<close>. A call goes to POSIX I/O in compatibility mode, for host memory and for
  device transfers below the GDS threshold, and to cuFile otherwise; \<open>pread\<close> and \<open>pwrite\<close> cut it into
  tasks of a thread pool. The CUDA driver and cuFile are parameters. The monitors see one logical
  observation of each call and one physical observation of each transfer; \<open>clock\<close> gives the times of
  the successive calls of \<open>now()\<close>.
\<close>

section \<open>The surroundings\<close>

text \<open>
  cuFile's transfers, with the handle, the base of the device buffer, the size, the offset in the file
  and the offset in the buffer. They return a number of bytes or a negative error, and \<open>errno\<close>.
\<close>

record 'e cufile_io =
  cufile_read :: "ptr \<Rightarrow> ptr \<Rightarrow> size_t \<Rightarrow> size_t \<Rightarrow> size_t \<Rightarrow> 'e world \<Rightarrow> (int \<times> nat) \<times> 'e world"
  cufile_write :: "ptr \<Rightarrow> ptr \<Rightarrow> size_t \<Rightarrow> size_t \<Rightarrow> size_t \<Rightarrow> 'e world \<Rightarrow> (int \<times> nat) \<times> 'e world"

record 'e file_env =
  fe_io :: "'e io_env"
  fe_cuda :: "'e cuda_api"
  fe_cufile :: "'e cufile_io"

section \<open>One transfer\<close>

text \<open>\<open>KVIKIO_CUFILE_CHECK_BYTES_DONE\<close>\<close>

definition cufile_check_bytes_done :: "int \<Rightarrow> size_t res" where
  "cufile_check_bytes_done nbytes_done = (if nbytes_done < 0 then Inl CUfile_Exception else Inr (word_of_int nbytes_done))"

text \<open>The check of \<open>write_impl\<close>, which tells -1 from other errors.\<close>

definition check_written :: "int \<times> nat \<Rightarrow> size_t res" where
  "check_written r =
     (case r of (ret, errno) \<Rightarrow>
        bind_res (kvikio_expect (ret \<noteq> -1) (Generic_System_Error errno)) (\<lambda>_.
        bind_res (kvikio_expect (ret \<ge> 0) CUfile_Exception) (\<lambda>_. Inr (word_of_int ret))))"

definition in_compat :: "FileHandle \<Rightarrow> bool" where
  "in_compat fh \<longleftrightarrow> cm_preferred (compat_mode_manager fh)"

text \<open>Waiting for the default stream, when asked to.\<close>

definition sync_stream :: "'e file_env \<Rightarrow> bool \<Rightarrow> 'e world \<Rightarrow> unit res \<times> 'e world" where
  "sync_stream fe sync w =
     (if sync then let (r, e) = cuda_driver_try (stream_synchronize (fe_cuda fe) 0 (w_ext w)) in (r, w\<lparr>w_ext := e\<rparr>)
      else (Inr (), w))"

definition read_impl ::
  "'e file_env \<Rightarrow> FileHandle \<Rightarrow> ptr \<Rightarrow> size_t \<Rightarrow> size_t \<Rightarrow> size_t \<Rightarrow> bool \<Rightarrow> 'e world \<Rightarrow> (size_t res \<times> 'e world) option"
where
  "read_impl fe fh devPtr_base sz file_offset devPtr_offset sync_default_stream w =
     (if in_compat fh then
        posix_device_read (fe_io fe) (fd (file_direct_off fh)) devPtr_base sz file_offset devPtr_offset (fd (file_direct_on fh)) w
      else case sync_stream fe sync_default_stream w of
             (Inl x, w1) \<Rightarrow> Some (Inl x, w1)
           | (Inr _, w1) \<Rightarrow>
               (case bind_res (convert_size2off file_offset) (\<lambda>fo. bind_res (convert_size2off devPtr_offset) (\<lambda>d. Inr (fo, d))) of
                  Inl x \<Rightarrow> Some (Inl x, w1)
                | Inr (fo, d) \<Rightarrow>
                    let ((ret, _), w2) = cufile_read (fe_cufile fe) (cu_handle (cufile_handle fh)) devPtr_base sz fo d w1
                    in Some (cufile_check_bytes_done ret, w2)))"

definition write_impl ::
  "'e file_env \<Rightarrow> FileHandle \<Rightarrow> ptr \<Rightarrow> size_t \<Rightarrow> size_t \<Rightarrow> size_t \<Rightarrow> bool \<Rightarrow> 'e world \<Rightarrow> (size_t res \<times> 'e world) option"
where
  "write_impl fe fh devPtr_base sz file_offset devPtr_offset sync_default_stream w =
     (if in_compat fh then
        posix_device_write (fe_io fe) (fd (file_direct_off fh)) devPtr_base sz file_offset devPtr_offset (fd (file_direct_on fh)) w
      else case sync_stream fe sync_default_stream w of
             (Inl x, w1) \<Rightarrow> Some (Inl x, w1)
           | (Inr _, w1) \<Rightarrow>
               (case bind_res (convert_size2off file_offset) (\<lambda>fo. bind_res (convert_size2off devPtr_offset) (\<lambda>d. Inr (fo, d))) of
                  Inl x \<Rightarrow> Some (Inl x, w1)
                | Inr (fo, d) \<Rightarrow>
                    let (r, w2) = cufile_write (fe_cufile fe) (cu_handle (cufile_handle fh)) devPtr_base sz fo d w1
                    in Some (check_written r, w2)))"

section \<open>Observed transfers\<close>

text \<open>
  A transfer in the scope of a physical recorder: it is finished with the number of bytes, or by its
  destructor when the transfer throws. A destructor after \<open>finish\<close> does nothing.
\<close>

definition observe_physical ::
  "PhysicalObservationContext \<Rightarrow> size_t \<Rightarrow> size_t \<Rightarrow> (nat \<Rightarrow> int) \<Rightarrow> ('w \<Rightarrow> (size_t res \<times> 'w) option) \<Rightarrow> 'w \<Rightarrow> observer
     \<Rightarrow> (size_t res \<times> 'w \<times> observer) option"
where
  "observe_physical physical file_offset sz clock body w ov =
     (let (rec, ov1) = new_physical physical file_offset sz (clock 0) ov
      in case body w of
           None \<Rightarrow> None
         | Some (Inl x, w1) \<Rightarrow> Some (Inl x, w1, snd (physical_destroy (clock 1) rec ov1))
         | Some (Inr n, w1) \<Rightarrow> Some (Inr n, w1, snd (physical_finish n (clock 1) rec ov1)))"

definition backend_of :: "bool \<Rightarrow> IoBackend" where
  "backend_of uses_posix = (if uses_posix then POSIX else GDS)"

definition physical_context :: "bool \<Rightarrow> TransferDirection \<Rightarrow> bool \<Rightarrow> FileHandle \<Rightarrow> 64 word option \<Rightarrow> PhysicalObservationContext" where
  "physical_context uses_posix dir is_host fh parent =
     \<lparr>cx_backend = backend_of uses_posix, cx_direction = dir, cx_memory_kind = (if is_host then HOST else DEVICE),
      cx_parent_id = parent, cx_source = fh_path fh, cx_http_method = None\<rparr>"

text \<open>\<open>read\<close> and \<open>write\<close> share what they wrap around the transfer.\<close>

definition observe_call ::
  "TransferDirection \<Rightarrow> FileHandle \<Rightarrow> size_t \<Rightarrow> size_t \<Rightarrow> (nat \<Rightarrow> int) \<Rightarrow> ('w \<Rightarrow> (size_t res \<times> 'w) option) \<Rightarrow> 'w \<Rightarrow> observer
     \<Rightarrow> (size_t res \<times> 'w \<times> observer) option"
where
  "observe_call dir fh file_offset sz clock body w ov =
     (let (rec, ov1) = new_logical (backend_of (in_compat fh)) dir DEVICE file_offset sz (fh_path fh) None (clock 0) ov
      in case observe_physical (physical_context (in_compat fh) dir False fh (recorder_id rec)) file_offset sz (clock \<circ> Suc) body w ov1 of
           None \<Rightarrow> None
         | Some (Inl x, w1, ov2) \<Rightarrow> Some (Inl x, w1, snd (logical_destroy (clock 3) rec ov2))
         | Some (Inr n, w1, ov2) \<Rightarrow> Some (Inr n, w1, snd (logical_finish n (clock 3) rec ov2)))"

definition file_read ::
  "'e file_env \<Rightarrow> (nat \<Rightarrow> int) \<Rightarrow> FileHandle \<Rightarrow> ptr \<Rightarrow> size_t \<Rightarrow> size_t \<Rightarrow> size_t \<Rightarrow> bool \<Rightarrow> 'e world \<Rightarrow> observer
     \<Rightarrow> (size_t res \<times> 'e world \<times> observer) option"
where
  "file_read fe clock fh devPtr_base sz file_offset devPtr_offset sync_default_stream w ov =
     (case expect_not_in_monitor (ov_registry ov) of
        Inl x \<Rightarrow> Some (Inl x, w, ov)
      | Inr _ \<Rightarrow> observe_call READ fh file_offset sz clock
                  (read_impl fe fh devPtr_base sz file_offset devPtr_offset sync_default_stream) w ov)"

text \<open>A write forgets the size of the file before it starts.\<close>

definition file_write ::
  "'e file_env \<Rightarrow> (nat \<Rightarrow> int) \<Rightarrow> FileHandle \<Rightarrow> ptr \<Rightarrow> size_t \<Rightarrow> size_t \<Rightarrow> size_t \<Rightarrow> bool \<Rightarrow> 'e world \<Rightarrow> observer
     \<Rightarrow> (size_t res \<times> FileHandle \<times> 'e world \<times> observer) option"
where
  "file_write fe clock fh devPtr_base sz file_offset devPtr_offset sync_default_stream w ov =
     (case expect_not_in_monitor (ov_registry ov) of
        Inl x \<Rightarrow> Some (Inl x, fh, w, ov)
      | Inr _ \<Rightarrow>
          map_option (\<lambda>(r, w1, ov1). (r, fh\<lparr>fh_nbytes := 0\<rparr>, w1, ov1))
            (observe_call WRITE fh file_offset sz clock
               (write_impl fe fh devPtr_base sz file_offset devPtr_offset sync_default_stream) w ov))"

section \<open>Parallel transfers\<close>

text \<open>What the tasks of a call work on: a host buffer, or a context and the base of a device allocation.\<close>

datatype task_target = Host_Target ptr | Device_Target ptr ptr

text \<open>
  What \<open>pread\<close> and \<open>pwrite\<close> return: a result at once, or tasks with the recorders they report to. \<open>None\<close>
  in place of a submission is a cutting that does not end.
\<close>

datatype file_future =
    File_Ready size_t
  | File_Tasks task_target PhysicalObservationContext "Recorder option" "submission option"

definition choose_pool :: "FileHandle \<Rightarrow> ptr \<Rightarrow> ptr \<Rightarrow> ptr" where
  "choose_pool fh default_thread_pool thread_pool =
     (if fh_thread_pool fh \<noteq> 0 \<and> thread_pool = default_thread_pool then fh_thread_pool fh else thread_pool)"

text \<open>The logical recorder, made only if somebody listens, and what its destructor does when a call throws.\<close>

definition make_recorder ::
  "bool \<Rightarrow> TransferDirection \<Rightarrow> bool \<Rightarrow> FileHandle \<Rightarrow> size_t \<Rightarrow> size_t \<Rightarrow> int \<Rightarrow> observer \<Rightarrow> Recorder option \<times> observer"
where
  "make_recorder uses_posix dir is_host fh file_offset sz now ov =
     (if monitoring_enabled LOGICAL (ov_registry ov) then
        let (rec, ov1) = new_logical (backend_of uses_posix) dir (if is_host then HOST else DEVICE) file_offset sz (fh_path fh) None now ov
        in (Some rec, ov1)
      else (None, ov))"

definition abandon :: "Recorder option \<Rightarrow> int \<Rightarrow> observer \<Rightarrow> observer" where
  "abandon rec now ov = (case rec of None \<Rightarrow> ov | Some r \<Rightarrow> snd (logical_destroy now r ov))"

definition parent_of :: "Recorder option \<Rightarrow> 64 word option" where
  "parent_of rec = (case rec of None \<Rightarrow> None | Some r \<Rightarrow> recorder_id r)"

text \<open>The size of the first task, so that the later ones start at a page boundary.\<close>

definition aligned_first_task :: "'e file_env \<Rightarrow> FileHandle \<Rightarrow> size_t \<Rightarrow> size_t \<Rightarrow> size_t option res" where
  "aligned_first_task fe fh file_offset task_size =
     (if in_compat fh \<and> fd (file_direct_on fh) \<noteq> -1 \<and> auto_direct_io_read (fe_io fe) then
        bind_res (align_down file_offset (env_page_size (fe_io fe))) (\<lambda>down.
          let misalignment = file_offset - down
          in Inr (if misalignment > 0 \<and> misalignment < task_size then Some (task_size - misalignment) else None))
      else Inr None)"

text \<open>
  The shortcut below the GDS threshold: in the caller's thread, under the buffer's context, through
  POSIX. It closes the logical observation itself.
\<close>

definition posix_shortcut ::
  "'e file_env \<Rightarrow> (nat \<Rightarrow> int) \<Rightarrow> PhysicalObservationContext \<Rightarrow> Recorder option \<Rightarrow> ptr \<Rightarrow> size_t \<Rightarrow> size_t
     \<Rightarrow> ('e world \<Rightarrow> (size_t res \<times> 'e world) option) \<Rightarrow> 'e world \<Rightarrow> observer \<Rightarrow> (file_future res \<times> 'e world \<times> observer) option"
where
  "posix_shortcut fe clock physical rec ctx file_offset sz transfer w ov =
     (case with_context (fe_cuda fe) ctx (observe_physical physical file_offset sz clock transfer) w ov of
        None \<Rightarrow> None
      | Some (Inl x, w1, ov1) \<Rightarrow> Some (Inl x, w1, abandon rec (clock 2) ov1)
      | Some (Inr n, w1, ov1) \<Rightarrow>
          Some (Inr (File_Ready n), w1, (case rec of None \<Rightarrow> ov1 | Some r \<Rightarrow> snd (logical_finish n (clock 2) r ov1))))"

text \<open>Waiting for the default stream once, under the buffer's context, if cuFile will do the transfers.\<close>

definition sync_once :: "'e file_env \<Rightarrow> FileHandle \<Rightarrow> ptr \<Rightarrow> bool \<Rightarrow> 'e world \<Rightarrow> unit res \<times> 'e world" where
  "sync_once fe fh ctx sync_default_stream w =
     (if sync_default_stream \<and> \<not> in_compat fh then
        let (r, e) = with_context_call (fe_cuda fe) ctx (\<lambda>e. cuda_driver_try (stream_synchronize (fe_cuda fe) 0 e)) (w_ext w)
        in (r, w\<lparr>w_ext := e\<rparr>)
      else (Inr (), w))"

text \<open>
  The device branch after the context is known and the threshold is passed: the allocation around the
  buffer, the size of the first task (\<open>first_task\<close>), the tasks.
\<close>

definition device_tasks ::
  "'e file_env \<Rightarrow> PhysicalObservationContext \<Rightarrow> Recorder option \<Rightarrow> ParallelIoOptions \<Rightarrow> size_t option res \<Rightarrow> ptr \<Rightarrow> ptr \<Rightarrow> size_t
     \<Rightarrow> size_t \<Rightarrow> size_t \<Rightarrow> Registry \<Rightarrow> context_cache \<Rightarrow> 'e world \<Rightarrow> file_future res \<times> context_cache \<times> 'e world"
where
  "device_tasks fe physical rec opts first_task ctx buf sz file_offset task_size reg cache w =
     (case get_alloc_info (fe_cuda fe) buf (Some ctx) cache (w_ext w) of
        (Inl x, cache1, e1) \<Rightarrow> (Inl x, cache1, w\<lparr>w_ext := e1\<rparr>)
      | (Inr (devPtr_base, _, devPtr_offset), cache1, e1) \<Rightarrow>
          (bind_res first_task (\<lambda>first_task_size.
             bind_res (parallel_io reg (env_page_size (fe_io fe)) sz file_offset task_size devPtr_offset
                         (opts\<lparr>pio_first_task_size := first_task_size\<rparr>))
               (\<lambda>s. Inr (File_Tasks (Device_Target ctx devPtr_base) physical rec s))),
           cache1, w\<lparr>w_ext := e1\<rparr>))"

definition pio_device ::
  "'e file_env \<Rightarrow> (nat \<Rightarrow> int) \<Rightarrow> FileHandle \<Rightarrow> PhysicalObservationContext \<Rightarrow> Recorder option \<Rightarrow> ParallelIoOptions \<Rightarrow> size_t option res
     \<Rightarrow> ('e world \<Rightarrow> (size_t res \<times> 'e world) option) \<Rightarrow> ptr \<Rightarrow> size_t \<Rightarrow> size_t \<Rightarrow> size_t \<Rightarrow> size_t \<Rightarrow> bool \<Rightarrow> context_cache
     \<Rightarrow> 'e world \<Rightarrow> observer \<Rightarrow> (file_future res \<times> context_cache \<times> 'e world \<times> observer) option"
where
  "pio_device fe clock fh physical rec opts first_task transfer buf sz file_offset task_size gds_threshold sync_default_stream cache w ov =
     (case get_context_from_pointer (fe_cuda fe) buf cache (w_ext w) of
        (Inl x, cache1, e1) \<Rightarrow> Some (Inl x, cache1, w\<lparr>w_ext := e1\<rparr>, abandon rec (clock 0) ov)
      | (Inr ctx, cache1, e1) \<Rightarrow>
          if sz < gds_threshold then
            map_option (\<lambda>(r, w2, ov2). (r, cache1, w2, ov2))
              (posix_shortcut fe clock physical rec ctx file_offset sz transfer (w\<lparr>w_ext := e1\<rparr>) ov)
          else case sync_once fe fh ctx sync_default_stream (w\<lparr>w_ext := e1\<rparr>) of
                 (Inl x, w2) \<Rightarrow> Some (Inl x, cache1, w2, abandon rec (clock 0) ov)
               | (Inr _, w2) \<Rightarrow>
                   (case device_tasks fe physical rec opts first_task ctx buf sz file_offset task_size (ov_registry ov) cache1 w2 of
                      (Inl x, cache2, w3) \<Rightarrow> Some (Inl x, cache2, w3, abandon rec (clock 0) ov)
                    | (Inr f, cache2, w3) \<Rightarrow> Some (Inr f, cache2, w3, ov)))"

text \<open>
  What \<open>pread\<close> and \<open>pwrite\<close> have in common, in the order of the code: the checks, where the buffer lies,
  the recorder, and the two branches. \<open>touch\<close> is what happens to the handle before the first transfer.
\<close>

definition pio_call ::
  "'e file_env \<Rightarrow> (nat \<Rightarrow> int) \<Rightarrow> FileHandle \<Rightarrow> TransferDirection \<Rightarrow> (FileHandle \<Rightarrow> FileHandle) \<Rightarrow> size_t option res
     \<Rightarrow> ('e world \<Rightarrow> (size_t res \<times> 'e world) option) \<Rightarrow> ptr \<Rightarrow> ptr \<Rightarrow> 64 word \<Rightarrow> ptr \<Rightarrow> size_t \<Rightarrow> size_t \<Rightarrow> size_t \<Rightarrow> size_t \<Rightarrow> bool
     \<Rightarrow> context_cache \<Rightarrow> 'e world \<Rightarrow> observer \<Rightarrow> (file_future res \<times> FileHandle \<times> context_cache \<times> 'e world \<times> observer) option"
where
  "pio_call fe clock fh dir touch first_task transfer dpool thread_pool call_idx buf sz file_offset task_size gds_threshold
     sync_default_stream cache w ov =
     (case bind_res (kvikio_expect (thread_pool \<noteq> 0) CUfile_Exception) (\<lambda>_.
           bind_res (kvikio_expect (task_size > 0) Invalid_Argument) (\<lambda>_. expect_not_in_monitor (ov_registry ov))) of
        Inl x \<Rightarrow> Some (Inl x, fh, cache, w, ov)
      | Inr _ \<Rightarrow>
          (case is_host_memory (fe_cuda fe) buf (w_ext w) of
             (Inl x, e1) \<Rightarrow> Some (Inl x, fh, cache, w\<lparr>w_ext := e1\<rparr>, ov)
           | (Inr is_host, e1) \<Rightarrow>
               let uses_posix = is_host \<or> sz < gds_threshold \<or> in_compat fh;
                   (rec, ov1) = make_recorder uses_posix dir is_host fh file_offset sz (clock 0) ov;
                   physical = physical_context uses_posix dir is_host fh (parent_of rec);
                   opts = \<lparr>pio_thread_pool = choose_pool fh dpool thread_pool, pio_call_idx = call_idx,
                           pio_first_task_size = None, pio_recorder = rec \<noteq> None\<rparr>;
                   w1 = w\<lparr>w_ext := e1\<rparr>
               in if is_host then
                    (case parallel_io (ov_registry ov1) (env_page_size (fe_io fe)) sz file_offset task_size 0 opts of
                       Inl x \<Rightarrow> Some (Inl x, touch fh, cache, w1, abandon rec (clock 1) ov1)
                     | Inr s \<Rightarrow> Some (Inr (File_Tasks (Host_Target buf) physical rec s), touch fh, cache, w1, ov1))
                  else map_option (\<lambda>(r, cache2, w2, ov2). (r, touch fh, cache2, w2, ov2))
                         (pio_device fe (clock \<circ> Suc) fh physical rec opts first_task transfer buf sz file_offset task_size
                            gds_threshold sync_default_stream cache w1 ov1)))"

definition file_pread ::
  "'e file_env \<Rightarrow> (nat \<Rightarrow> int) \<Rightarrow> FileHandle \<Rightarrow> ptr \<Rightarrow> ptr \<Rightarrow> 64 word \<Rightarrow> ptr \<Rightarrow> size_t \<Rightarrow> size_t \<Rightarrow> size_t \<Rightarrow> size_t \<Rightarrow> bool
     \<Rightarrow> context_cache \<Rightarrow> 'e world \<Rightarrow> observer \<Rightarrow> (file_future res \<times> FileHandle \<times> context_cache \<times> 'e world \<times> observer) option"
where
  "file_pread fe clock fh dpool thread_pool call_idx buf sz file_offset task_size gds_threshold =
     pio_call fe clock fh READ (\<lambda>h. h) (aligned_first_task fe fh file_offset task_size)
       (posix_device_read (fe_io fe) (fd (file_direct_off fh)) buf sz file_offset 0 (fd (file_direct_on fh)))
       dpool thread_pool call_idx buf sz file_offset task_size gds_threshold"

text \<open>\<open>pwrite\<close> resets the size before it starts; its tasks cut without a special first task.\<close>

definition forget_size :: "FileHandle \<Rightarrow> FileHandle" where
  "forget_size fh = fh\<lparr>fh_nbytes := 0\<rparr>"

definition file_pwrite ::
  "'e file_env \<Rightarrow> (nat \<Rightarrow> int) \<Rightarrow> FileHandle \<Rightarrow> ptr \<Rightarrow> ptr \<Rightarrow> 64 word \<Rightarrow> ptr \<Rightarrow> size_t \<Rightarrow> size_t \<Rightarrow> size_t \<Rightarrow> size_t \<Rightarrow> bool
     \<Rightarrow> context_cache \<Rightarrow> 'e world \<Rightarrow> observer \<Rightarrow> (file_future res \<times> FileHandle \<times> context_cache \<times> 'e world \<times> observer) option"
where
  "file_pwrite fe clock fh dpool thread_pool call_idx buf sz file_offset task_size gds_threshold =
     pio_call fe clock fh WRITE forget_size (Inr None)
       (posix_device_write (fe_io fe) (fd (file_direct_off fh)) buf sz file_offset 0 (fd (file_direct_on fh)))
       dpool thread_pool call_idx buf sz file_offset task_size gds_threshold"

section \<open>The tasks\<close>

text \<open>A task of \<open>pread\<close>: the transfer, observed, and for device memory under the buffer's context.\<close>

definition read_task_op ::
  "'e file_env \<Rightarrow> (nat \<Rightarrow> int) \<Rightarrow> FileHandle \<Rightarrow> PhysicalObservationContext \<Rightarrow> task_target \<Rightarrow> io_task \<Rightarrow> 'e world \<Rightarrow> observer
     \<Rightarrow> (size_t res \<times> 'e world \<times> observer) option"
where
  "read_task_op fe clock fh physical target t w ov =
     (case target of
        Host_Target buf \<Rightarrow>
          observe_physical physical (tk_file_offset t) (tk_size t) clock
            (posix_host_read (fe_io fe) NO (fd (file_direct_off fh)) (buf + tk_devPtr_offset t) (tk_size t) (tk_file_offset t)
               (fd (file_direct_on fh))) w ov
      | Device_Target ctx devPtr_base \<Rightarrow>
          with_context (fe_cuda fe) ctx
            (observe_physical physical (tk_file_offset t) (tk_size t) clock
               (read_impl fe fh devPtr_base (tk_size t) (tk_file_offset t) (tk_devPtr_offset t) False)) w ov)"

text \<open>
  A task of \<open>pwrite\<close> forgets the size again when its bytes are written. The size is an atomic of the
  handle, so it is part of the state here.
\<close>

definition write_task_op ::
  "'e file_env \<Rightarrow> (nat \<Rightarrow> int) \<Rightarrow> PhysicalObservationContext \<Rightarrow> task_target \<Rightarrow> io_task \<Rightarrow> FileHandle \<Rightarrow> 'e world \<Rightarrow> observer
     \<Rightarrow> (size_t res \<times> FileHandle \<times> 'e world \<times> observer) option"
where
  "write_task_op fe clock physical target t fh w ov =
     (let transfer = (case target of
              Host_Target buf \<Rightarrow>
                observe_physical physical (tk_file_offset t) (tk_size t) clock
                  (posix_host_write (fe_io fe) NO (fd (file_direct_off fh)) (buf + tk_devPtr_offset t) (tk_size t) (tk_file_offset t)
                     (fd (file_direct_on fh)))
            | Device_Target ctx devPtr_base \<Rightarrow>
                with_context (fe_cuda fe) ctx
                  (observe_physical physical (tk_file_offset t) (tk_size t) clock
                     (write_impl fe fh devPtr_base (tk_size t) (tk_file_offset t) (tk_devPtr_offset t) False)))
      in case transfer w ov of
           None \<Rightarrow> None
         | Some (Inl x, w1, ov1) \<Rightarrow> Some (Inl x, fh, w1, ov1)
         | Some (Inr n, w1, ov1) \<Rightarrow> Some (Inr n, forget_size fh, w1, ov1))"

end
