(* ===== verification/File_Call.thy ===== *)
theory File_Call
  imports File_IO Posix_Read
begin

text \<open>
  The stages that \<open>pread\<close> and \<open>pwrite\<close> share, when the CUDA driver's calls succeed: where the buffer
  lies, its context and allocation, a transfer observed under the context, the shortcut below the GDS
  threshold and the way to the tasks. Reads and writes are proved correct on top of these lemmas.
\<close>

section \<open>What is assumed of the driver\<close>

text \<open>The calls succeed and keep the invariant \<open>K\<close>; \<open>memtype\<close> and \<open>base\<close> say where pointers point.\<close>

definition driver_ok :: "'e cuda_api \<Rightarrow> ('e \<Rightarrow> bool) \<Rightarrow> (ptr \<Rightarrow> nat) \<Rightarrow> (ptr \<Rightarrow> ptr) \<Rightarrow> bool" where
  "driver_ok api K memtype base \<longleftrightarrow>
     (\<forall>p e. K e \<longrightarrow>
        (\<exists>e'. pointer_memory_type api p e = (Inr (memtype p), e') \<and> K e') \<and>
        (\<exists>c e'. pointer_context api p e = (Inr c, e') \<and> c \<noteq> 0 \<and> K e') \<and>
        (\<exists>n e'. mem_get_address_range api p e = (Inr (base p, n), e') \<and> K e') \<and>
        (\<exists>e'. ctx_push_current api p e = (Inr (), e') \<and> K e') \<and>
        (\<exists>e'. stream_synchronize api p e = (Inr (), e') \<and> K e') \<and>
        (\<exists>r e'. ctx_pop_current api e = (r, e') \<and> K e'))"

section \<open>Driver calls\<close>

lemma world_ok_ext: "world_ok env K w \<Longrightarrow> K e \<Longrightarrow> world_ok env K (w\<lparr>w_ext := e\<rparr>)"
  by (simp add: world_ok_def)

lemma world_ok_K: "world_ok env K w \<Longrightarrow> K (w_ext w)"
  by (simp add: world_ok_def)

lemma driver_ok_push:
  assumes "driver_ok api K memtype base" "K e"
  obtains e' where "ctx_push_current api p e = (Inr (), e')" "K e'"
  using assms unfolding driver_ok_def by blast

lemma driver_ok_pop:
  assumes "driver_ok api K memtype base" "K e"
  shows "K (snd (ctx_pop_current api e))"
  using assms unfolding driver_ok_def by (metis snd_conv)

lemma driver_ok_sync:
  assumes "driver_ok api K memtype base" "K e"
  obtains e' where "stream_synchronize api p e = (Inr (), e')" "K e'"
  using assms unfolding driver_ok_def by blast

lemma sync_stream_ok:
  assumes "driver_ok (fe_cuda fe) K memtype base" "world_ok (fe_io fe) K w"
  obtains w' where "sync_stream fe sync w = (Inr (), w')" "world_ok (fe_io fe) K w'" "w_mem w' = w_mem w" "w_dev w' = w_dev w"
proof (cases sync)
  case True
  obtain e' where "stream_synchronize (fe_cuda fe) 0 (w_ext w) = (Inr (), e')" "K e'"
    using driver_ok_sync [OF assms(1) world_ok_K [OF assms(2)]] by blast
  with True assms(2) that [of "w\<lparr>w_ext := e'\<rparr>"] show thesis by (simp add: sync_stream_def world_ok_ext)
next
  case False
  with assms(2) that [of w] show thesis by (simp add: sync_stream_def)
qed

lemma observe_physical_ok:
  assumes "body w = Some (Inr n, w1)"
  shows "\<exists>ov1. observe_physical physical off sz clock body w ov = Some (Inr n, w1, ov1)"
  using assms by (simp add: observe_physical_def case_prod_beta)

text \<open>An observed transfer under a context; the invariant may become another one on the way.\<close>

lemma observed_in_context:
  assumes drv: "driver_ok api K memtype base" "driver_ok api K' memtype base" and w: "world_ok env K w"
    and moves: "\<And>w1. world_ok env K w1 \<Longrightarrow> w_mem w1 = w_mem w \<Longrightarrow> w_dev w1 = w_dev w \<Longrightarrow>
           \<exists>w2. transfer w1 = Some (Inr n, w2) \<and> world_ok env K' w2 \<and> P (w_mem w2) (w_dev w2)"
  shows "\<exists>w' ov'. with_context api ctx (observe_physical physical off sz clock transfer) w ov = Some (Inr n, w', ov') \<and>
    world_ok env K' w' \<and> P (w_mem w') (w_dev w')"
proof -
  obtain e1 where p: "ctx_push_current api ctx (w_ext w) = (Inr (), e1)" "K e1"
    using driver_ok_push [OF drv(1) world_ok_K [OF w]] by blast
  let ?w1 = "w\<lparr>w_ext := e1\<rparr>"
  obtain w2 where t: "transfer ?w1 = Some (Inr n, w2)" "world_ok env K' w2" "P (w_mem w2) (w_dev w2)"
    using moves [of ?w1] world_ok_ext [OF w p(2)] by auto
  obtain ov2 where b: "observe_physical physical off sz clock transfer ?w1 ov = Some (Inr n, w2, ov2)"
    using observe_physical_ok [of transfer ?w1 n w2 physical off sz clock ov] t(1) by blast
  let ?w' = "w2\<lparr>w_ext := snd (ctx_pop_current api (w_ext w2))\<rparr>"
  have "world_ok env K' ?w'" using t(2) driver_ok_pop [OF drv(2) world_ok_K [OF t(2)]] by (rule world_ok_ext)
  with p b t(3) show ?thesis by (auto simp: with_context_def)
qed

text \<open>The buffer offset of a task fits a file offset if the end of the range does.\<close>

lemma task_buffer_offset_small:
  assumes "task_inside off sz dpo t" "unat dpo + unat sz < unat int64_max"
  shows "tk_devPtr_offset t < int64_max"
proof -
  have "unat (tk_file_offset t - off) \<le> unat sz"
    using assms(1) by (subst unat_minus_no_wrap) (auto simp: task_inside_def word_le_nat_alt)
  with assms show ?thesis
    using unat_plus_no_wrap [of dpo "tk_file_offset t - off"] by (simp add: task_inside_def int64_max_def word_less_nat_alt)
qed

section \<open>The stages of a call\<close>

lemma notify_flag [simp]: "t_in_monitor (notify phase ob reg) = t_in_monitor reg"
  by (simp add: notify_def Let_def)

lemma make_recorder_flag:
  "make_recorder posix dir host fh off sz now ov = (rec, ov1) \<Longrightarrow> t_in_monitor (ov_registry ov1) = t_in_monitor (ov_registry ov)"
  by (auto simp: make_recorder_def new_logical_def logical_begin_def next_observation_id_def notify_started_def Let_def
      split: if_splits)

lemma get_context_ok:
  assumes "driver_ok api K memtype base" "K e"
  obtains ctx e' where "get_context_from_pointer api p cache e = (Inr ctx, cache, e')" "K e'"
proof -
  obtain c e' where "pointer_context api p e = (Inr c, e')" "c \<noteq> 0" "K e'"
    using assms unfolding driver_ok_def by blast
  then show thesis
    using that [of c e'] by (simp add: get_context_from_pointer_def get_context_associated_pointer_def)
qed

lemma get_alloc_info_ok:
  assumes "driver_ok api K memtype base" "K e"
  obtains n e' where "get_alloc_info api p (Some ctx) cache e = (Inr (base p, n, p - base p), cache, e')" "K e'"
proof -
  obtain e1 where p: "ctx_push_current api ctx e = (Inr (), e1)" "K e1" using driver_ok_push [OF assms] by blast
  obtain n e2 where a: "mem_get_address_range api p e1 = (Inr (base p, n), e2)" "K e2"
    using assms(1) p(2) unfolding driver_ok_def by blast
  show thesis
    using that [of n "snd (ctx_pop_current api e2)"] p a driver_ok_pop [OF assms(1) a(2)]
    by (simp add: get_alloc_info_def with_context_call_def)
qed

lemma sync_once_ok:
  assumes "driver_ok (fe_cuda fe) K memtype base" "world_ok (fe_io fe) K w"
  obtains w' where "sync_once fe fh ctx sync w = (Inr (), w')" "world_ok (fe_io fe) K w'" "w_mem w' = w_mem w" "w_dev w' = w_dev w"
proof (cases "sync \<and> \<not> in_compat fh")
  case True
  obtain e1 where p: "ctx_push_current (fe_cuda fe) ctx (w_ext w) = (Inr (), e1)" "K e1"
    using driver_ok_push [OF assms(1) world_ok_K [OF assms(2)]] by blast
  obtain e2 where y: "stream_synchronize (fe_cuda fe) 0 e1 = (Inr (), e2)" "K e2" using driver_ok_sync [OF assms(1) p(2)] by blast
  show thesis
    using that [of "w\<lparr>w_ext := snd (ctx_pop_current (fe_cuda fe) e2)\<rparr>"] True p y driver_ok_pop [OF assms(1) y(2)] assms(2)
    by (simp add: sync_once_def with_context_call_def world_ok_ext)
next
  case False
  with that [of w] assms(2) show thesis by (auto simp: sync_once_def)
qed

lemma posix_shortcut_ok:
  assumes "driver_ok (fe_cuda fe) K memtype base" "driver_ok (fe_cuda fe) K' memtype base" "world_ok env K w"
    and "\<And>w1. world_ok env K w1 \<Longrightarrow> w_mem w1 = w_mem w \<Longrightarrow> w_dev w1 = w_dev w \<Longrightarrow>
           \<exists>w2. transfer w1 = Some (Inr n, w2) \<and> world_ok env K' w2 \<and> P (w_mem w2) (w_dev w2)"
  shows "\<exists>w' ov'. posix_shortcut fe clock physical rec ctx off sz transfer w ov = Some (Inr (File_Ready n), w', ov') \<and>
    world_ok env K' w' \<and> P (w_mem w') (w_dev w')"
proof -
  obtain w' ov' where "with_context (fe_cuda fe) ctx (observe_physical physical off sz clock transfer) w ov = Some (Inr n, w', ov')"
    "world_ok env K' w'" "P (w_mem w') (w_dev w')"
    using observed_in_context [OF assms(1-3), of transfer n P ctx physical off sz clock ov] assms(4) by blast
  then show ?thesis by (auto simp: posix_shortcut_def)
qed

text \<open>The device branch takes the shortcut, or it comes to the tasks.\<close>

lemma pio_device_cases:
  assumes drv: "driver_ok (fe_cuda fe) K memtype base" and w: "world_ok (fe_io fe) K w" and ft: "first_task = Inr ft"
  obtains (shortcut) ctx w1 where "world_ok (fe_io fe) K w1" "w_mem w1 = w_mem w" "w_dev w1 = w_dev w"
      "pio_device fe clock fh physical rec opts first_task transfer buf sz off task_size gds sync cache w ov =
       map_option (\<lambda>(r, w2, ov2). (r, cache, w2, ov2)) (posix_shortcut fe clock physical rec ctx off sz transfer w1 ov)"
    | (tasks) ctx w1 where "world_ok (fe_io fe) K w1" "w_mem w1 = w_mem w" "w_dev w1 = w_dev w"
      "\<And>s. parallel_io (ov_registry ov) (env_page_size (fe_io fe)) sz off task_size (buf - base buf) (opts\<lparr>pio_first_task_size := ft\<rparr>) = Inr s \<Longrightarrow>
       pio_device fe clock fh physical rec opts first_task transfer buf sz off task_size gds sync cache w ov =
       Some (Inr (File_Tasks (Device_Target ctx (base buf)) physical rec s), cache, w1, ov)"
proof -
  obtain ctx e1 where ctx: "get_context_from_pointer (fe_cuda fe) buf cache (w_ext w) = (Inr ctx, cache, e1)" "K e1"
    using get_context_ok [OF drv world_ok_K [OF w]] by blast
  note w1 = world_ok_ext [OF w ctx(2)]
  show thesis
  proof (cases "sz < gds")
    case True
    with ctx(1) w1 show thesis by (intro shortcut [of "w\<lparr>w_ext := e1\<rparr>" ctx]) (simp_all add: pio_device_def)
  next
    case False
    obtain w2 where w2: "sync_once fe fh ctx sync (w\<lparr>w_ext := e1\<rparr>) = (Inr (), w2)" "world_ok (fe_io fe) K w2"
        "w_mem w2 = w_mem w" "w_dev w2 = w_dev w"
      by (rule sync_once_ok [OF drv w1, of fh ctx sync]) auto
    obtain n e3 where al: "get_alloc_info (fe_cuda fe) buf (Some ctx) cache (w_ext w2) = (Inr (base buf, n, buf - base buf), cache, e3)" "K e3"
      using get_alloc_info_ok [OF drv world_ok_K [OF w2(2)]] by blast
    from False ctx(1) w2 al world_ok_ext [OF w2(2) al(2)] ft show thesis
      by (intro tasks [of "w2\<lparr>w_ext := e3\<rparr>" ctx]) (simp_all add: pio_device_def device_tasks_def)
  qed
qed

text \<open>The common part of the two calls: which branch is taken, with which recorder and options.\<close>

definition buffer_view :: "bool \<Rightarrow> 'e world \<Rightarrow> memory" where
  "buffer_view is_host w = (if is_host then w_mem w else w_dev w)"

definition on_host :: "(ptr \<Rightarrow> nat) \<Rightarrow> ptr \<Rightarrow> bool" where
  "on_host memtype p \<longleftrightarrow> memtype p = 0 \<or> memtype p = CU_MEMORYTYPE_HOST"

lemma pio_call_cases:
  assumes drv: "driver_ok (fe_cuda fe) K memtype base" and w: "world_ok (fe_io fe) K w"
    and "0 < task_size" "thread_pool \<noteq> 0" "\<not> t_in_monitor (ov_registry ov)"
  obtains (host) rec physical opts w1 ov1 where "on_host memtype buf" "world_ok (fe_io fe) K w1" "w_mem w1 = w_mem w" "w_dev w1 = w_dev w"
      "ready (ov_registry ov1) opts"
      "\<And>s. parallel_io (ov_registry ov1) (env_page_size (fe_io fe)) sz off task_size 0 opts = Inr s \<Longrightarrow>
       pio_call fe clock fh dir touch first_task transfer dpool thread_pool call_idx buf sz off task_size gds sync cache w ov =
       Some (Inr (File_Tasks (Host_Target buf) physical rec s), touch fh, cache, w1, ov1)"
    | (device) rec physical opts w1 ov1 where "\<not> on_host memtype buf" "world_ok (fe_io fe) K w1" "w_mem w1 = w_mem w" "w_dev w1 = w_dev w"
      "ready (ov_registry ov1) opts"
      "pio_call fe clock fh dir touch first_task transfer dpool thread_pool call_idx buf sz off task_size gds sync cache w ov =
       map_option (\<lambda>(r, cache2, w2, ov2). (r, touch fh, cache2, w2, ov2))
         (pio_device fe (clock \<circ> Suc) fh physical rec opts first_task transfer buf sz off task_size gds sync cache w1 ov1)"
proof -
  let ?host = "on_host memtype buf"
  let ?posix = "?host \<or> sz < gds \<or> in_compat fh"
  obtain e1 where e1: "pointer_memory_type (fe_cuda fe) buf (w_ext w) = (Inr (memtype buf), e1)" "K e1"
    using drv world_ok_K [OF w] unfolding driver_ok_def by blast
  have mem: "is_host_memory (fe_cuda fe) buf (w_ext w) = (Inr ?host, e1)" by (simp add: is_host_memory_def e1(1) on_host_def)
  obtain rec ov1 where rec: "make_recorder ?posix dir ?host fh off sz (clock 0) ov = (rec, ov1)" by (metis prod.exhaust)
  let ?phys = "physical_context ?posix dir ?host fh (parent_of rec)"
  let ?opts = "\<lparr>pio_thread_pool = choose_pool fh dpool thread_pool, pio_call_idx = call_idx, pio_first_task_size = None,
    pio_recorder = rec \<noteq> None\<rparr>"
  have rdy: "ready (ov_registry ov1) ?opts"
    using make_recorder_flag [OF rec] assms(4,5) by (simp add: ready_def choose_pool_def)
  note w1 = world_ok_ext [OF w e1(2)]
  show thesis
  proof (cases ?host)
    case True
    with w1 rdy mem rec assms(3-5) show thesis
      by (intro host [of "w\<lparr>w_ext := e1\<rparr>" ov1 ?opts ?phys rec])
        (simp_all add: pio_call_def res_simps expect_not_in_monitor_def)
  next
    case False
    with w1 rdy mem rec assms(3-5) show thesis
      by (intro device [of "w\<lparr>w_ext := e1\<rparr>" ov1 ?opts ?phys rec])
        (simp_all add: pio_call_def res_simps expect_not_in_monitor_def)
  qed
qed

section \<open>A concrete driver\<close>

text \<open>It knows device memory at every address, in one allocation from 7000, and one context.\<close>

definition example_cuda :: "'e cuda_api" where
  "example_cuda = \<lparr>pointer_memory_type = \<lambda>p e. (Inr 2, e), pointer_context = \<lambda>p e. (Inr 77, e),
     pointer_device_pointer = \<lambda>p e. (Inr p, e), pointer_device_ordinal = \<lambda>p e. (Inr 0, e), ctx_get_current = \<lambda>e. (Inr 77, e),
     ctx_push_current = \<lambda>c e. (Inr (), e), ctx_pop_current = \<lambda>e. (Inr (), e), device_get = \<lambda>n e. (Inr n, e),
     device_primary_ctx_retain = \<lambda>d e. (Inr 77, e), mem_get_address_range = \<lambda>p e. (Inr (7000, 4096), e),
     stream_synchronize = \<lambda>s e. (Inr (), e)\<rparr>"

lemma example_cuda_ok: "driver_ok example_cuda K (\<lambda>_. 2) (\<lambda>_. 7000)"
  by (simp add: driver_ok_def example_cuda_def)

end
