(* ===== verification/File_Read.thy ===== *)
theory File_Read
  imports File_Call
begin

text \<open>
  A parallel read through a file handle is correct: whichever path serves it (host memory, the POSIX
  shortcut for small transfers, POSIX on the thread pool, cuFile), and in whatever order the pool runs
  the tasks, the buffer ends with the bytes of the file and the future yields their number. This
  composes the file handle, the device helpers, \<open>parallel_io\<close>, POSIX I/O with its bounce buffers and the
  recorders. What is assumed of the kernel, the driver and cuFile is stated by predicates.
\<close>

section \<open>What is assumed of the driver and of cuFile\<close>

text \<open>cuFile reads a range inside the file as a whole.\<close>

definition cufile_reads :: "'e file_env \<Rightarrow> ptr \<Rightarrow> ('e \<Rightarrow> bool) \<Rightarrow> (nat \<Rightarrow> byte) \<Rightarrow> nat \<Rightarrow> bool" where
  "cufile_reads fe h K content fsize \<longleftrightarrow>
     (\<forall>devPtr_base sz off d w. world_ok (fe_io fe) K w \<and> unat off + unat sz \<le> fsize \<longrightarrow>
        (\<exists>errno w'. cufile_read (fe_cufile fe) h devPtr_base sz off d w = ((int (unat sz), errno), w') \<and>
           world_ok (fe_io fe) K w' \<and> dev_moved w (devPtr_base + d) content off sz w'))"

definition can_read :: "'e file_env \<Rightarrow> FileHandle \<Rightarrow> ('e \<Rightarrow> bool) \<Rightarrow> (nat \<Rightarrow> byte) \<Rightarrow> nat \<Rightarrow> (ptr \<Rightarrow> nat) \<Rightarrow> (ptr \<Rightarrow> ptr) \<Rightarrow> bool" where
  "can_read fe fh K content fsize memtype base \<longleftrightarrow>
     file_readable (fe_io fe) (fd (file_direct_off fh)) (fd (file_direct_on fh)) K content fsize \<and>
     memory_available (fe_io fe) K \<and> env_sane (fe_io fe) \<and> copies_succeed (fe_io fe) K \<and>
     direct_reads_pages (fe_io fe) (fd (file_direct_on fh)) K fsize \<and> driver_ok (fe_cuda fe) K memtype base \<and>
     (in_compat fh \<or> cufile_reads fe (cu_handle (cufile_handle fh)) K content fsize) \<and> fsize < unat int64_max"

section \<open>One transfer\<close>

lemma read_impl_reads:
  assumes "can_read fe fh K content fsize memtype base" "world_ok (fe_io fe) K w" "unat off + unat sz \<le> fsize"
    and "in_compat fh \<or> d < int64_max"
  shows "\<exists>w'. read_impl fe fh devPtr_base sz off d sync w = Some (Inr sz, w') \<and>
     dev_moved w (devPtr_base + d) content off sz w' \<and> world_ok (fe_io fe) K w'"
proof (cases "in_compat fh")
  case True
  then show ?thesis
    using posix_device_read_moves [of "fe_io fe" "fd (file_direct_off fh)" "fd (file_direct_on fh)" K content fsize w off sz devPtr_base d]
      assms by (simp add: read_impl_def can_read_def)
next
  case False
  obtain w1 where s: "sync_stream fe sync w = (Inr (), w1)" "world_ok (fe_io fe) K w1" "w_dev w1 = w_dev w"
    using sync_stream_ok [of fe K memtype base w] assms(1,2) by (metis can_read_def)
  obtain errno w2 where c: "cufile_read (fe_cufile fe) (cu_handle (cufile_handle fh)) devPtr_base sz off d w1 = ((int (unat sz), errno), w2)"
    "world_ok (fe_io fe) K w2" "dev_moved w1 (devPtr_base + d) content off sz w2"
    using assms(1,3) s(2) False unfolding can_read_def cufile_reads_def by blast
  have "off < int64_max" using assms(1,3) by (simp add: can_read_def word_less_nat_alt)
  with False assms(4) have conv: "convert_size2off off = Inr off" "convert_size2off d = Inr d"
    by (simp_all add: convert_size2off_def)
  have "read_impl fe fh devPtr_base sz off d sync w = Some (Inr sz, w2)"
    using False s(1) c(1) by (simp add: read_impl_def conv cufile_check_bytes_done_def)
  with c s(3) show ?thesis by (auto simp: dev_moved_def)
qed

section \<open>The tasks meet the contract of a reader\<close>

text \<open>What a call of \<open>pread\<close> is about, for the two contracts below.\<close>

record 'e read_call =
  rd_env :: "'e file_env"
  rd_clock :: "nat \<Rightarrow> int"
  rd_handle :: FileHandle
  rd_physical :: PhysicalObservationContext
  rd_inv :: "'e \<Rightarrow> bool"
  rd_file :: "nat \<Rightarrow> byte"
  rd_fsize :: nat
  rd_memtype :: "ptr \<Rightarrow> nat"
  rd_base :: "ptr \<Rightarrow> ptr"
  rd_context :: ptr
  rd_buffer :: ptr
  rd_range :: "size_t \<times> size_t \<times> size_t"

definition rd_valid :: "bool \<Rightarrow> 'e read_call \<Rightarrow> bool" where
  "rd_valid is_host c \<longleftrightarrow>
     can_read (rd_env c) (rd_handle c) (rd_inv c) (rd_file c) (rd_fsize c) (rd_memtype c) (rd_base c) \<and>
     (case rd_range c of (off, sz, dpo) \<Rightarrow>
        unat off + unat sz \<le> rd_fsize c \<and>
        (is_host \<or> in_compat (rd_handle c) \<or> unat dpo + unat sz < unat int64_max))"

definition rd_target :: "bool \<Rightarrow> 'e read_call \<Rightarrow> task_target" where
  "rd_target is_host c = (if is_host then Host_Target (rd_buffer c) else Device_Target (rd_context c) (rd_buffer c))"

text \<open>A task on the pair of world and observer.\<close>

definition rd_task ::
  "'e file_env \<Rightarrow> (nat \<Rightarrow> int) \<Rightarrow> FileHandle \<Rightarrow> PhysicalObservationContext \<Rightarrow> task_target \<Rightarrow> io_task \<Rightarrow> 'e world \<times> observer
     \<Rightarrow> (size_t res \<times> 'e world \<times> observer) option"
where
  "rd_task fe clock fh physical target t s = read_task_op fe clock fh physical target t (fst s) (snd s)"

definition rd_op :: "bool \<Rightarrow> 'e read_call \<Rightarrow> io_task \<Rightarrow> 'e world \<times> observer \<Rightarrow> (size_t res \<times> 'e world \<times> observer) option" where
  "rd_op is_host c = rd_task (rd_env c) (rd_clock c) (rd_handle c) (rd_physical c) (rd_target is_host c)"

definition rd_ok :: "'e read_call \<Rightarrow> 'e world \<times> observer \<Rightarrow> bool" where
  "rd_ok c s \<longleftrightarrow> world_ok (fe_io (rd_env c)) (rd_inv c) (fst s)"

interpretation host_tasks: task_reader "rd_valid True" "rd_op True" rd_ok "\<lambda>s. w_mem (fst s)" rd_file rd_buffer rd_range
proof
  fix c :: "'e read_call" and s :: "'e world \<times> observer" and off sz dpo t
  assume v: "rd_valid True c" and ok: "rd_ok c s" and r: "rd_range c = (off, sz, dpo)" and t: "task_inside off sz dpo t"
  obtain w ov where s: "s = (w, ov)" by (cases s)
  let ?fe = "rd_env c" and ?fh = "rd_handle c"
  have can: "can_read ?fe ?fh (rd_inv c) (rd_file c) (rd_fsize c) (rd_memtype c) (rd_base c)"
    and inside: "unat (tk_file_offset t) + unat (tk_size t) \<le> rd_fsize c"
    using v r t by (auto simp: rd_valid_def task_inside_def)
  have small: "tk_size t < int64_max" using can inside by (simp add: can_read_def word_less_nat_alt)
  let ?rd = "posix_host_read (fe_io ?fe) NO (fd (file_direct_off ?fh)) (rd_buffer c + tk_devPtr_offset t) (tk_size t)
      (tk_file_offset t) (fd (file_direct_on ?fh))"
  obtain w1 where h: "?rd w = Some (Inr (tk_size t), w1)"
    and m: "moved w (rd_buffer c + tk_devPtr_offset t) (rd_file c) (tk_file_offset t) (tk_size t) w1" "world_ok (fe_io ?fe) (rd_inv c) w1"
    using posix_host_read_moves [of "fe_io ?fe" "fd (file_direct_off ?fh)" "fd (file_direct_on ?fh)" "rd_inv c" "rd_file c" "rd_fsize c" w
        "tk_file_offset t" "tk_size t" "rd_buffer c + tk_devPtr_offset t"] can inside ok s small
    by (auto simp: can_read_def rd_ok_def)
  obtain ov1 where "rd_op True c t s = Some (Inr (tk_size t), w1, ov1)"
    using observe_physical_ok [of ?rd w "tk_size t" w1 "rd_physical c" "tk_file_offset t" "tk_size t" "rd_clock c" ov, OF h]
    by (auto simp: rd_op_def rd_task_def rd_target_def read_task_op_def s)
  with m show "\<exists>s'. rd_op True c t s = Some (Inr (tk_size t), s') \<and> rd_ok c s' \<and>
      w_mem (fst s') = read_task (rd_file c) (rd_buffer c) t (w_mem (fst s))"
    by (auto simp: rd_ok_def s moved_def read_task_def piece_bytes_def task_piece_def)
qed

interpretation device_reads: task_reader "rd_valid False" "rd_op False" rd_ok "\<lambda>s. w_dev (fst s)" rd_file rd_buffer rd_range
proof
  fix c :: "'e read_call" and s :: "'e world \<times> observer" and off sz dpo t
  assume v: "rd_valid False c" and ok: "rd_ok c s" and r: "rd_range c = (off, sz, dpo)" and t: "task_inside off sz dpo t"
  obtain w ov where s: "s = (w, ov)" by (cases s)
  let ?fe = "rd_env c" and ?fh = "rd_handle c" and ?p = "rd_buffer c + tk_devPtr_offset t"
  let ?rd = "read_impl ?fe ?fh (rd_buffer c) (tk_size t) (tk_file_offset t) (tk_devPtr_offset t) False"
  let ?body = "observe_physical (rd_physical c) (tk_file_offset t) (tk_size t) (rd_clock c) ?rd"
  let ?P = "\<lambda>_ dev. dev = write_bytes (w_dev w) ?p (map (rd_file c) [unat (tk_file_offset t) ..< unat (tk_file_offset t) + unat (tk_size t)])"
  have can: "can_read ?fe ?fh (rd_inv c) (rd_file c) (rd_fsize c) (rd_memtype c) (rd_base c)"
    and inside: "unat (tk_file_offset t) + unat (tk_size t) \<le> rd_fsize c"
    and ok': "world_ok (fe_io ?fe) (rd_inv c) w"
    using v r t ok s by (auto simp: rd_valid_def task_inside_def rd_ok_def)
  have drv: "driver_ok (fe_cuda ?fe) (rd_inv c) (rd_memtype c) (rd_base c)" using can by (simp add: can_read_def)
  have d: "in_compat ?fh \<or> tk_devPtr_offset t < int64_max" using v r task_buffer_offset_small [OF t] by (auto simp: rd_valid_def)
  have "\<exists>w2. ?rd w1 = Some (Inr (tk_size t), w2) \<and> world_ok (fe_io ?fe) (rd_inv c) w2 \<and> ?P (w_mem w2) (w_dev w2)"
    if "world_ok (fe_io ?fe) (rd_inv c) w1" "w_dev w1 = w_dev w" for w1
    using read_impl_reads [OF can that(1) inside d, of "rd_buffer c" False] that(2) by (auto simp: dev_moved_def)
  then obtain w' ov' where "with_context (fe_cuda ?fe) (rd_context c) ?body w ov = Some (Inr (tk_size t), w', ov')"
    "world_ok (fe_io ?fe) (rd_inv c) w'" "?P (w_mem w') (w_dev w')"
    using observed_in_context [OF drv drv ok', of ?rd "tk_size t" ?P "rd_context c"] by blast
  then show "\<exists>s'. rd_op False c t s = Some (Inr (tk_size t), s') \<and> rd_ok c s' \<and>
      w_dev (fst s') = read_task (rd_file c) (rd_buffer c) t (w_dev (fst s))"
    by (auto simp: rd_op_def rd_task_def rd_target_def read_task_op_def s rd_ok_def read_task_def piece_bytes_def task_piece_def)
qed

section \<open>Parallel reads\<close>

lemma aligned_first_task_ok:
  assumes "env_sane (fe_io fe)"
  obtains f where "aligned_first_task fe fh off task_size = Inr f"
proof -
  have "is_power_of_2 (env_page_size (fe_io fe))" using assms by (simp add: env_sane_def)
  then obtain d where "align_down off (env_page_size (fe_io fe)) = Inr d" by (rule align_down_eq)
  then have "\<exists>f. aligned_first_task fe fh off task_size = Inr f" by (simp add: aligned_first_task_def Let_def)
  with that show thesis by blast
qed

text \<open>
  What the caller of \<open>pread\<close> may rely on when it gets the future \<open>f\<close> in the state \<open>w\<close>: the value is the
  size, and when the tasks have run, in any order, the memory \<open>final\<close> is in place.
\<close>

definition future_yields ::
  "'e file_env \<Rightarrow> (nat \<Rightarrow> int) \<Rightarrow> FileHandle \<Rightarrow> bool \<Rightarrow> size_t \<Rightarrow> memory \<Rightarrow> file_future \<Rightarrow> 'e world \<Rightarrow> observer \<Rightarrow> bool"
where
  "future_yields fe clock fh is_host sz final f w ov \<longleftrightarrow>
     (case f of
        File_Ready n \<Rightarrow> n = sz \<and> buffer_view is_host w = final
      | File_Tasks target physical rec s \<Rightarrow>
          (\<exists>sub. s = Some sub \<and>
             (\<forall>order. mset order = mset (all_tasks sub) \<longrightarrow>
                (\<exists>w' ov'. run_tasks (rd_task fe clock fh physical target) order (w, ov) = Some (w', ov') \<and>
                          buffer_view is_host w' = final)) \<and>
             complete (\<lambda>t. Inr (tk_size t)) (rec \<noteq> None) sub = (Inr sz, if rec \<noteq> None then [Finish_Bytes sz] else [])))"

lemma host_tasks_yield:
  assumes can: "can_read fe fh K content fsize memtype base" and w: "world_ok (fe_io fe) K w" and inside: "unat off + unat sz \<le> fsize"
    and sz: "0 < sz" "0 < task_size" and rdy: "ready reg opts"
  shows "\<exists>s. parallel_io reg (env_page_size (fe_io fe)) sz off task_size 0 opts = Inr s \<and>
     future_yields fe clock fh True sz (write_bytes (w_mem w) buf (map content [unat off ..< unat off + unat sz]))
       (File_Tasks (Host_Target buf) physical rec s) w ov"
proof -
  let ?c = "\<lparr>rd_env = fe, rd_clock = clock, rd_handle = fh, rd_physical = physical, rd_inv = K, rd_file = content, rd_fsize = fsize,
    rd_memtype = memtype, rd_base = base, rd_context = 0, rd_buffer = buf, rd_range = (off, sz, 0)\<rparr>"
  have "rd_valid True ?c" "rd_ok ?c (w, ov)" "rd_range ?c = (off, sz, 0)" using can inside w by (simp_all add: rd_valid_def rd_ok_def)
  moreover have "admissible off sz task_size"
    using can inside sz by (simp add: admissible_def fits_def can_read_def int64_max_def)
  ultimately show ?thesis
    using host_tasks.parallel_read [of ?c off sz 0 "(w, ov)" task_size reg opts "env_page_size (fe_io fe)" "rec \<noteq> None"] rdy
    by (fastforce simp: future_yields_def buffer_view_def rd_op_def rd_target_def)
qed

lemma device_tasks_yield:
  assumes can: "can_read fe fh K content fsize memtype base" and w: "world_ok (fe_io fe) K w" and inside: "unat off + unat sz \<le> fsize"
    and sz: "0 < sz" "0 < task_size" and rdy: "ready reg opts"
    and dpo: "in_compat fh \<or> unat (buf - devPtr_base) + unat sz < unat int64_max"
  shows "\<exists>s. parallel_io reg (env_page_size (fe_io fe)) sz off task_size (buf - devPtr_base) opts = Inr s \<and>
     future_yields fe clock fh False sz (write_bytes (w_dev w) buf (map content [unat off ..< unat off + unat sz]))
       (File_Tasks (Device_Target ctx devPtr_base) physical rec s) w ov"
proof -
  let ?c = "\<lparr>rd_env = fe, rd_clock = clock, rd_handle = fh, rd_physical = physical, rd_inv = K, rd_file = content, rd_fsize = fsize,
    rd_memtype = memtype, rd_base = base, rd_context = ctx, rd_buffer = devPtr_base, rd_range = (off, sz, buf - devPtr_base)\<rparr>"
  have "rd_valid False ?c" "rd_ok ?c (w, ov)" "rd_range ?c = (off, sz, buf - devPtr_base)"
    using can inside w dpo by (simp_all add: rd_valid_def rd_ok_def)
  moreover have "admissible off sz task_size"
    using can inside sz by (simp add: admissible_def fits_def can_read_def int64_max_def)
  ultimately show ?thesis
    using device_reads.parallel_read [of ?c off sz "buf - devPtr_base" "(w, ov)" task_size reg opts "env_page_size (fe_io fe)" "rec \<noteq> None"] rdy
    by (fastforce simp: future_yields_def buffer_view_def rd_op_def rd_target_def)
qed

lemma pio_device_reads:
  assumes can: "can_read fe fh K content fsize memtype base" and w: "world_ok (fe_io fe) K w" and inside: "unat off + unat sz \<le> fsize"
    and sz: "0 < sz" "0 < task_size" and rdy: "ready (ov_registry ov) opts"
    and dpo: "in_compat fh \<or> unat (buf - base buf) + unat sz < unat int64_max"
  shows "\<exists>f cache' w' ov'. pio_device fe clock' fh physical rec opts (aligned_first_task fe fh off task_size)
      (posix_device_read (fe_io fe) (fd (file_direct_off fh)) buf sz off 0 (fd (file_direct_on fh)))
      buf sz off task_size gds sync cache w ov = Some (Inr f, cache', w', ov') \<and> world_ok (fe_io fe) K w' \<and>
    future_yields fe clock fh False sz (write_bytes (w_dev w) buf (map content [unat off ..< unat off + unat sz])) f w' ov'"
proof -
  have drv: "driver_ok (fe_cuda fe) K memtype base" using can by (simp add: can_read_def)
  obtain ft where ft: "aligned_first_task fe fh off task_size = Inr ft"
    using aligned_first_task_ok can by (metis can_read_def)
  let ?rd = "posix_device_read (fe_io fe) (fd (file_direct_off fh)) buf sz off 0 (fd (file_direct_on fh))"
  let ?bytes = "map content [unat off ..< unat off + unat sz]"
  show ?thesis
  proof (rule pio_device_cases [OF drv w ft, of clock' fh physical rec opts ?rd buf sz off task_size gds sync cache ov], goal_cases)
    case (1 ctx w1)
    have "\<exists>w3. ?rd w2 = Some (Inr sz, w3) \<and> world_ok (fe_io fe) K w3 \<and> w_dev w3 = write_bytes (w_dev w) buf ?bytes"
      if "world_ok (fe_io fe) K w2" "w_dev w2 = w_dev w1" for w2
      using posix_device_read_moves [of "fe_io fe" "fd (file_direct_off fh)" "fd (file_direct_on fh)" K content fsize w2 off sz buf 0]
        can inside that 1(3) by (auto simp: can_read_def dev_moved_def)
    then have "\<exists>w' ov'. posix_shortcut fe clock' physical rec ctx off sz ?rd w1 ov = Some (Inr (File_Ready sz), w', ov') \<and>
        world_ok (fe_io fe) K w' \<and> w_dev w' = write_bytes (w_dev w) buf ?bytes"
      using posix_shortcut_ok [OF drv drv 1(1), of ?rd sz "\<lambda>_ dev. dev = write_bytes (w_dev w) buf ?bytes"] by blast
    with 1(4) show ?case by (auto simp: future_yields_def buffer_view_def)
  next
    case (2 ctx w1)
    let ?opts = "opts\<lparr>pio_first_task_size := ft\<rparr>"
    have "ready (ov_registry ov) ?opts" using rdy by (simp add: ready_def)
    from device_tasks_yield [OF can 2(1) inside sz this dpo, of clock ctx physical rec ov] 2(3)
    obtain s where "parallel_io (ov_registry ov) (env_page_size (fe_io fe)) sz off task_size (buf - base buf) ?opts = Inr s"
      "future_yields fe clock fh False sz (write_bytes (w_dev w) buf ?bytes) (File_Tasks (Device_Target ctx (base buf)) physical rec s) w1 ov"
      by auto
    with 2(1) 2(4) show ?case by blast
  qed
qed


text \<open>
  The environment of the POSIX example with a cuFile that reads the file. The handle is not in
  compatibility mode.
\<close>

definition example_cufile :: "unit cufile_io" where
  "example_cufile = \<lparr>cufile_read = \<lambda>h b sz off d w. ((int (unat sz), 0),
       w\<lparr>w_dev := write_bytes (w_dev w) (b + d) (map example_file [unat off ..< unat off + unat sz])\<rparr>),
     cufile_write = \<lambda>h b sz off d w. ((-1, 5), w)\<rparr>"

definition example_file_env :: "unit file_env" where
  "example_file_env = \<lparr>fe_io = example_env 100 8, fe_cuda = example_cuda, fe_cufile = example_cufile\<rparr>"

definition example_handle :: FileHandle where
  "example_handle = no_handle\<lparr>file_direct_on := \<lparr>fd = 4\<rparr>, file_direct_off := \<lparr>fd = 3\<rparr>, fh_initialized := True,
     cufile_handle := \<lparr>cu_handle = 9, cu_registered = True\<rparr>,
     compat_mode_manager := \<lparr>compat_mode_requested = Compat_AUTO, cm_preferred = False, cm_preferred_for_async = False\<rparr>\<rparr>"

lemma example_can_read: "can_read example_file_env example_handle (\<lambda>_. True) example_file 32 (\<lambda>_. 2) (\<lambda>_. 7000)"
proof -
  have "cufile_reads example_file_env 9 (\<lambda>_. True) example_file 32"
    by (simp add: cufile_reads_def example_file_env_def example_cufile_def dev_moved_def world_ok_def)
  then show ?thesis
    using example_readable example_memory example_env_sane example_copies example_pages example_cuda_ok
    by (simp add: can_read_def example_file_env_def example_handle_def int64_max_def)
qed


end
