(* ===== verification/Task_Write.thy ===== *)
theory Task_Write
  imports Task_Run Posix_Write
begin

text \<open>
  Running the tasks of a parallel write, the counterpart of the contract of a reader: a task inside the
  range replaces its part of the file by its part of the buffer, and the buffer stays as it is. Then
  in whatever order the tasks run, the file ends as after one write of the whole range.
\<close>

section \<open>Tasks on the content of a file\<close>

definition write_task :: "memory \<Rightarrow> ptr \<Rightarrow> io_task \<Rightarrow> file_content \<Rightarrow> file_content" where
  "write_task m buf t f = overwrite f (unat (tk_file_offset t)) (read_bytes m (buf + tk_devPtr_offset t) (unat (tk_size t)))"

text \<open>At every position a task writes the byte that the whole range has there.\<close>

lemma write_task_at:
  assumes "task_inside off sz dpo t"
  shows "write_task m buf t f p =
    (if unat (tk_file_offset t) \<le> p \<and> p < unat (tk_file_offset t) + unat (tk_size t) then m (buf + dpo + of_nat (p - unat off)) else f p)"
proof -
  have "tk_devPtr_offset t + of_nat (p - unat (tk_file_offset t)) = dpo + of_nat (p - unat off)"
    if "unat (tk_file_offset t) \<le> p"
  proof -
    have le: "unat off \<le> unat (tk_file_offset t)" and d: "tk_devPtr_offset t = dpo + (tk_file_offset t - off)"
      using assms by (simp_all add: task_inside_def)
    have "(of_nat (p - unat (tk_file_offset t)) :: size_t) = of_nat p - tk_file_offset t"
      "(of_nat (p - unat off) :: size_t) = of_nat p - off"
      using that le by (simp_all add: of_nat_diff)
    then show ?thesis by (simp add: d)
  qed
  then show ?thesis by (auto simp: write_task_def overwrite_def add.assoc)
qed

lemma fold_write_task_at:
  assumes "\<forall>t \<in> set ts. task_inside off sz dpo t"
  shows "fold (write_task m buf) ts f p =
    (if p \<in> set (concat (map (piece_bytes \<circ> task_piece) ts)) then m (buf + dpo + of_nat (p - unat off)) else f p)"
  using assms
proof (induction ts arbitrary: f)
  case Nil
  then show ?case by simp
next
  case (Cons t ts)
  then have "task_inside off sz dpo t" by simp
  with Cons show ?case by (auto simp: write_task_at piece_bytes_def task_piece_def)
qed

lemma fold_write_task:
  assumes "well_cut off sz dpo b ts" "mset order = mset ts"
  shows "fold (write_task m buf) order f = overwrite f (unat off) (read_bytes m (buf + dpo) (unat sz))"
proof
  fix p
  have "set (concat (map (piece_bytes \<circ> task_piece) order)) = set (concat (map piece_bytes (map task_piece ts)))"
    using mset_eq_setD [OF assms(2)] by simp
  also have "\<dots> = {unat off ..< unat off + unat sz}"
    using tiles_bytes [of "unat off" "unat off + unat sz" "map task_piece ts"] assms(1) by (simp add: well_cut_def)
  finally show "fold (write_task m buf) order f p = overwrite f (unat off) (read_bytes m (buf + dpo) (unat sz)) p"
    using fold_write_task_at [of order off sz dpo m buf f p] well_cut_inside [OF assms(1)] mset_eq_setD [OF assms(2)]
    by (auto simp: overwrite_def)
qed

section \<open>The contract of an operation that writes\<close>

text \<open>\<open>ok cfg f s\<close>: in the state \<open>s\<close> the file has the content \<open>f\<close>, and the buffer is in place.\<close>

locale task_writer =
  fixes valid :: "'cfg \<Rightarrow> bool"
    and op :: "'cfg \<Rightarrow> io_task \<Rightarrow> 's \<Rightarrow> (size_t res \<times> 's) option"
    and ok :: "'cfg \<Rightarrow> file_content \<Rightarrow> 's \<Rightarrow> bool"
    and source :: "'cfg \<Rightarrow> memory"
    and buffer :: "'cfg \<Rightarrow> ptr"
    and range :: "'cfg \<Rightarrow> size_t \<times> size_t \<times> size_t"
  assumes writes:
    "valid cfg \<Longrightarrow> ok cfg f s \<Longrightarrow> range cfg = (off, sz, dpo) \<Longrightarrow> task_inside off sz dpo t \<Longrightarrow>
     \<exists>s'. op cfg t s = Some (Inr (tk_size t), s') \<and> ok cfg (write_task (source cfg) (buffer cfg) t f) s'"
begin

lemma run_writes:
  assumes "valid cfg" "range cfg = (off, sz, dpo)" "ok cfg f s" "\<forall>t \<in> set ts. task_inside off sz dpo t"
  shows "\<exists>s'. run_tasks (op cfg) ts s = Some s' \<and> ok cfg (fold (write_task (source cfg) (buffer cfg)) ts f) s'"
  using assms(3,4)
proof (induction ts arbitrary: f s)
  case Nil
  then show ?case by simp
next
  case (Cons t ts)
  obtain s1 where s1: "op cfg t s = Some (Inr (tk_size t), s1)" "ok cfg (write_task (source cfg) (buffer cfg) t f) s1"
    using writes [OF assms(1) Cons.prems(1) assms(2), of t] Cons.prems(2) by auto
  with Cons.IH [OF s1(2)] Cons.prems(2) show ?case by auto
qed

lemma any_order:
  assumes "valid cfg" "range cfg = (off, sz, dpo)" "ok cfg f s" "well_cut off sz dpo b ts" "mset order = mset ts"
  shows "\<exists>s'. run_tasks (op cfg) order s = Some s' \<and>
    ok cfg (overwrite f (unat off) (read_bytes (source cfg) (buffer cfg + dpo) (unat sz))) s'"
  using run_writes [OF assms(1-3), of order] well_cut_inside [OF assms(4)] mset_eq_setD [OF assms(5)] fold_write_task [OF assms(4,5)]
  by simp

lemma parallel_write:
  assumes "valid cfg" "range cfg = (off, sz, dpo)" "ok cfg f s" "admissible off sz ts" "ready reg opts"
  shows "\<exists>sub. parallel_io reg page sz off ts dpo opts = Inr (Some sub) \<and>
     (\<forall>order. mset order = mset (all_tasks sub) \<longrightarrow>
        (\<exists>s'. run_tasks (op cfg) order s = Some s' \<and>
           ok cfg (overwrite f (unat off) (read_bytes (source cfg) (buffer cfg + dpo) (unat sz))) s')) \<and>
     complete (\<lambda>t. Inr (tk_size t)) rec sub = (Inr sz, if rec then [Finish_Bytes sz] else [])"
proof -
  obtain sub b where sub: "parallel_io reg page sz off ts dpo opts = Inr (Some sub)" "well_cut off sz dpo b (all_tasks sub)"
    "complete (\<lambda>t. Inr (tk_size t)) rec sub = (Inr sz, if rec then [Finish_Bytes sz] else [])"
    using parallel_io_sizes [OF assms(4,5)] by blast
  with any_order [OF assms(1-3) sub(2)] show ?thesis by blast
qed

end

end
