(* ===== verification/File_Write.thy ===== *)
theory File_Write
  imports File_Call Task_Write
begin

text \<open>
  A parallel write through a file handle is correct: whichever path serves it, and in whatever order the
  pool runs the tasks, the file ends with the bytes of the buffer in the range written and is unchanged
  elsewhere, the future yields the size, and the handle no longer remembers a size of the file.
\<close>

section \<open>What is assumed\<close>

text \<open>cuFile writes a range as a whole.\<close>

definition cufile_writes :: "'e file_env \<Rightarrow> ptr \<Rightarrow> (file_content \<Rightarrow> 'e \<Rightarrow> bool) \<Rightarrow> bool" where
  "cufile_writes fe h K \<longleftrightarrow>
     (\<forall>devPtr_base sz off d f w. world_ok (fe_io fe) (K f) w \<longrightarrow>
        (\<exists>errno w'. cufile_write (fe_cufile fe) h devPtr_base sz off d w = ((int (unat sz), errno), w') \<and> w_dev w' = w_dev w \<and>
           world_ok (fe_io fe) (K (overwrite f (unat off) (read_bytes (w_dev w) (devPtr_base + d) (unat sz)))) w'))"

definition can_write ::
  "'e file_env \<Rightarrow> FileHandle \<Rightarrow> (file_content \<Rightarrow> 'e \<Rightarrow> bool) \<Rightarrow> (ptr \<Rightarrow> nat) \<Rightarrow> (ptr \<Rightarrow> ptr) \<Rightarrow> bool"
where
  "can_write fe fh K memtype base \<longleftrightarrow>
     file_writable (fe_io fe) (fd (file_direct_off fh)) (fd (file_direct_on fh)) K \<and>
     (\<forall>f. memory_available (fe_io fe) (K f) \<and> copies_succeed (fe_io fe) (K f) \<and> driver_ok (fe_cuda fe) (K f) memtype base) \<and>
     env_sane (fe_io fe) \<and> env_bounce_buffer_size (fe_io fe) < int64_max \<and>
     (in_compat fh \<or> cufile_writes fe (cu_handle (cufile_handle fh)) K)"

section \<open>One transfer\<close>

lemma can_write_driver: "can_write fe fh K memtype base \<Longrightarrow> driver_ok (fe_cuda fe) (K f) memtype base"
  by (simp add: can_write_def)

lemma posix_write_moves:
  assumes "can_write fe fh K memtype base" "world_ok (fe_io fe) (K f) w" "unat off + unat sz < unat int64_max"
  shows "\<exists>w'. posix_host_write (fe_io fe) NO (fd (file_direct_off fh)) buf sz off (fd (file_direct_on fh)) w = Some (Inr sz, w') \<and>
      w_mem w' = w_mem w \<and> world_ok (fe_io fe) (K (overwrite f (unat off) (read_bytes (w_mem w) buf (unat sz)))) w'"
    and "\<exists>w'. posix_device_write (fe_io fe) (fd (file_direct_off fh)) b sz off d (fd (file_direct_on fh)) w = Some (Inr sz, w') \<and>
      w_dev w' = w_dev w \<and> world_ok (fe_io fe) (K (overwrite f (unat off) (read_bytes (w_dev w) (b + d) (unat sz)))) w'"
proof -
  have "sz < int64_max" using assms(3) by (simp add: word_less_nat_alt)
  then show "\<exists>w'. posix_host_write (fe_io fe) NO (fd (file_direct_off fh)) buf sz off (fd (file_direct_on fh)) w = Some (Inr sz, w') \<and>
      w_mem w' = w_mem w \<and> world_ok (fe_io fe) (K (overwrite f (unat off) (read_bytes (w_mem w) buf (unat sz)))) w'"
    using posix_host_write_moves [of "fe_io fe" "fd (file_direct_off fh)" "fd (file_direct_on fh)" K f w off sz buf] assms
    by (auto simp: can_write_def)
  show "\<exists>w'. posix_device_write (fe_io fe) (fd (file_direct_off fh)) b sz off d (fd (file_direct_on fh)) w = Some (Inr sz, w') \<and>
      w_dev w' = w_dev w \<and> world_ok (fe_io fe) (K (overwrite f (unat off) (read_bytes (w_dev w) (b + d) (unat sz)))) w'"
    using posix_device_write_moves [of "fe_io fe" "fd (file_direct_off fh)" "fd (file_direct_on fh)" K f w off sz b d] assms
    by (auto simp: can_write_def)
qed

lemma write_impl_writes:
  assumes "can_write fe fh K memtype base" "world_ok (fe_io fe) (K f) w" "unat off + unat sz < unat int64_max"
    and "in_compat fh \<or> d < int64_max"
  shows "\<exists>w'. write_impl fe fh b sz off d sync w = Some (Inr sz, w') \<and> w_dev w' = w_dev w \<and>
     world_ok (fe_io fe) (K (overwrite f (unat off) (read_bytes (w_dev w) (b + d) (unat sz)))) w'"
proof (cases "in_compat fh")
  case True
  with posix_write_moves(2) [OF assms(1-3)] show ?thesis by (simp add: write_impl_def)
next
  case False
  obtain w1 where s: "sync_stream fe sync w = (Inr (), w1)" "world_ok (fe_io fe) (K f) w1" "w_dev w1 = w_dev w"
    by (rule sync_stream_ok [OF can_write_driver [OF assms(1)] assms(2)])
  obtain errno w2 where c: "cufile_write (fe_cufile fe) (cu_handle (cufile_handle fh)) b sz off d w1 = ((int (unat sz), errno), w2)"
    "w_dev w2 = w_dev w1" "world_ok (fe_io fe) (K (overwrite f (unat off) (read_bytes (w_dev w1) (b + d) (unat sz)))) w2"
    using assms(1) s(2) False unfolding can_write_def cufile_writes_def by blast
  have "off < int64_max" using assms(3) by (simp add: word_less_nat_alt)
  with False assms(4) have conv: "convert_size2off off = Inr off" "convert_size2off d = Inr d"
    by (simp_all add: convert_size2off_def)
  have "0 \<le> uint sz" by simp
  then have "uint sz \<noteq> -1" by linarith
  then have "write_impl fe fh b sz off d sync w = Some (Inr sz, w2)"
    using False s(1) c(1) by (simp add: write_impl_def conv check_written_def res_simps)
  with c s(3) show ?thesis by simp
qed

section \<open>The tasks meet the contract of a writer\<close>

record 'e write_call =
  wr_env :: "'e file_env"
  wr_clock :: "nat \<Rightarrow> int"
  wr_handle :: FileHandle
  wr_physical :: PhysicalObservationContext
  wr_inv :: "file_content \<Rightarrow> 'e \<Rightarrow> bool"
  wr_memtype :: "ptr \<Rightarrow> nat"
  wr_base :: "ptr \<Rightarrow> ptr"
  wr_context :: ptr
  wr_buffer :: ptr
  wr_source :: memory
  wr_range :: "size_t \<times> size_t \<times> size_t"

definition wr_valid :: "bool \<Rightarrow> 'e write_call \<Rightarrow> bool" where
  "wr_valid is_host c \<longleftrightarrow>
     can_write (wr_env c) (wr_handle c) (wr_inv c) (wr_memtype c) (wr_base c) \<and>
     (case wr_range c of (off, sz, dpo) \<Rightarrow>
        unat off + unat sz < unat int64_max \<and>
        (is_host \<or> in_compat (wr_handle c) \<or> unat dpo + unat sz < unat int64_max))"

definition wr_target :: "bool \<Rightarrow> 'e write_call \<Rightarrow> task_target" where
  "wr_target is_host c = (if is_host then Host_Target (wr_buffer c) else Device_Target (wr_context c) (wr_buffer c))"

definition wr_task ::
  "'e file_env \<Rightarrow> (nat \<Rightarrow> int) \<Rightarrow> PhysicalObservationContext \<Rightarrow> task_target \<Rightarrow> io_task \<Rightarrow> FileHandle \<times> 'e world \<times> observer
     \<Rightarrow> (size_t res \<times> FileHandle \<times> 'e world \<times> observer) option"
where
  "wr_task fe clock physical target t s = (case s of (fh, w, ov) \<Rightarrow> write_task_op fe clock physical target t fh w ov)"

definition wr_op ::
  "bool \<Rightarrow> 'e write_call \<Rightarrow> io_task \<Rightarrow> FileHandle \<times> 'e world \<times> observer \<Rightarrow> (size_t res \<times> FileHandle \<times> 'e world \<times> observer) option"
where
  "wr_op is_host c = wr_task (wr_env c) (wr_clock c) (wr_physical c) (wr_target is_host c)"

definition wr_ok :: "bool \<Rightarrow> 'e write_call \<Rightarrow> file_content \<Rightarrow> FileHandle \<times> 'e world \<times> observer \<Rightarrow> bool" where
  "wr_ok is_host c f s \<longleftrightarrow>
     (case s of (fh, w, ov) \<Rightarrow>
        fh = forget_size (wr_handle c) \<and> buffer_view is_host w = wr_source c \<and> world_ok (fe_io (wr_env c)) (wr_inv c f) w)"

lemma forget_size_simps [simp]:
  "file_direct_on (forget_size fh) = file_direct_on fh" "file_direct_off (forget_size fh) = file_direct_off fh"
  "cufile_handle (forget_size fh) = cufile_handle fh" "in_compat (forget_size fh) = in_compat fh" "fh_nbytes (forget_size fh) = 0"
  "forget_size (forget_size fh) = forget_size fh"
  by (simp_all add: forget_size_def in_compat_def)

lemma can_write_forget [simp]: "can_write fe (forget_size fh) K memtype base = can_write fe fh K memtype base"
  by (simp add: can_write_def)

interpretation host_writes: task_writer "wr_valid True" "wr_op True" "wr_ok True" wr_source wr_buffer wr_range
proof
  fix c :: "'e write_call" and f and s :: "FileHandle \<times> 'e world \<times> observer" and off sz dpo t
  assume v: "wr_valid True c" and ok: "wr_ok True c f s" and r: "wr_range c = (off, sz, dpo)" and t: "task_inside off sz dpo t"
  obtain fh w ov where s: "s = (fh, w, ov)" by (cases s)
  let ?fe = "wr_env c" and ?p = "wr_buffer c + tk_devPtr_offset t"
  have can: "can_write ?fe fh (wr_inv c) (wr_memtype c) (wr_base c)" and fh: "fh = forget_size (wr_handle c)"
    and mem: "w_mem w = wr_source c" and w: "world_ok (fe_io ?fe) (wr_inv c f) w"
    and small: "unat (tk_file_offset t) + unat (tk_size t) < unat int64_max"
    using v r t ok by (auto simp: wr_valid_def wr_ok_def s task_inside_def buffer_view_def)
  let ?wr = "posix_host_write (fe_io ?fe) NO (fd (file_direct_off fh)) ?p (tk_size t) (tk_file_offset t) (fd (file_direct_on fh))"
  obtain w1 where h: "?wr w = Some (Inr (tk_size t), w1)" "w_mem w1 = w_mem w"
    "world_ok (fe_io ?fe) (wr_inv c (overwrite f (unat (tk_file_offset t)) (read_bytes (w_mem w) ?p (unat (tk_size t))))) w1"
    using posix_write_moves(1) [OF can w small, of ?p] by blast
  obtain ov1 where "observe_physical (wr_physical c) (tk_file_offset t) (tk_size t) (wr_clock c) ?wr w ov = Some (Inr (tk_size t), w1, ov1)"
    using observe_physical_ok [of ?wr w "tk_size t" w1 "wr_physical c" "tk_file_offset t" "tk_size t" "wr_clock c" ov] h(1) by blast
  then have "wr_op True c t s = Some (Inr (tk_size t), fh, w1, ov1)"
    by (simp add: wr_op_def wr_task_def s write_task_op_def wr_target_def fh)
  with h(2,3) mem fh show "\<exists>s'. wr_op True c t s = Some (Inr (tk_size t), s') \<and> wr_ok True c (write_task (wr_source c) (wr_buffer c) t f) s'"
    by (auto simp: wr_ok_def buffer_view_def write_task_def)
qed

interpretation device_writes: task_writer "wr_valid False" "wr_op False" "wr_ok False" wr_source wr_buffer wr_range
proof
  fix c :: "'e write_call" and f and s :: "FileHandle \<times> 'e world \<times> observer" and off sz dpo t
  assume v: "wr_valid False c" and ok: "wr_ok False c f s" and r: "wr_range c = (off, sz, dpo)" and t: "task_inside off sz dpo t"
  obtain fh w ov where s: "s = (fh, w, ov)" by (cases s)
  let ?fe = "wr_env c" and ?p = "wr_buffer c + tk_devPtr_offset t"
  let ?f' = "overwrite f (unat (tk_file_offset t)) (read_bytes (w_dev w) ?p (unat (tk_size t)))"
  have can: "can_write ?fe fh (wr_inv c) (wr_memtype c) (wr_base c)" and fh: "fh = forget_size (wr_handle c)"
    and mem: "w_dev w = wr_source c" and w: "world_ok (fe_io ?fe) (wr_inv c f) w"
    and small: "unat (tk_file_offset t) + unat (tk_size t) < unat int64_max"
    using v r t ok by (auto simp: wr_valid_def wr_ok_def s task_inside_def buffer_view_def)
  have d: "in_compat fh \<or> tk_devPtr_offset t < int64_max"
    using v r fh task_buffer_offset_small [OF t] by (auto simp: wr_valid_def)
  let ?wr = "write_impl ?fe fh (wr_buffer c) (tk_size t) (tk_file_offset t) (tk_devPtr_offset t) False"
  have "\<exists>w2. ?wr w1 = Some (Inr (tk_size t), w2) \<and> world_ok (fe_io ?fe) (wr_inv c ?f') w2 \<and> w_dev w2 = w_dev w"
    if "world_ok (fe_io ?fe) (wr_inv c f) w1" "w_dev w1 = w_dev w" for w1
    using write_impl_writes [OF can that(1) small d, of "wr_buffer c" False] that(2) by auto
  then obtain w1 ov1 where h: "with_context (fe_cuda ?fe) (wr_context c)
      (observe_physical (wr_physical c) (tk_file_offset t) (tk_size t) (wr_clock c) ?wr) w ov = Some (Inr (tk_size t), w1, ov1)"
    "world_ok (fe_io ?fe) (wr_inv c ?f') w1" "w_dev w1 = w_dev w"
    using observed_in_context [OF can_write_driver [OF can] can_write_driver [OF can] w, of ?wr "tk_size t" ?f' "\<lambda>_ dev. dev = w_dev w"]
    by blast
  then have "wr_op False c t s = Some (Inr (tk_size t), fh, w1, ov1)"
    by (simp add: wr_op_def wr_task_def s write_task_op_def wr_target_def fh)
  with h(2,3) mem fh show "\<exists>s'. wr_op False c t s = Some (Inr (tk_size t), s') \<and> wr_ok False c (write_task (wr_source c) (wr_buffer c) t f) s'"
    by (auto simp: wr_ok_def buffer_view_def write_task_def)
qed

section \<open>Parallel writes\<close>

text \<open>
  What the caller of \<open>pwrite\<close> may rely on: the value of the future is the size; when the tasks have run,
  in any order, the file has the content \<open>final\<close>, the buffer still holds \<open>source\<close>, and the handle holds no
  size of the file.
\<close>

definition future_writes ::
  "'e file_env \<Rightarrow> (nat \<Rightarrow> int) \<Rightarrow> FileHandle \<Rightarrow> (file_content \<Rightarrow> 'e \<Rightarrow> bool) \<Rightarrow> bool \<Rightarrow> size_t \<Rightarrow> memory \<Rightarrow> file_content \<Rightarrow> file_future
     \<Rightarrow> 'e world \<Rightarrow> observer \<Rightarrow> bool"
where
  "future_writes fe clock fh K is_host sz source final fut w ov \<longleftrightarrow>
     (case fut of
        File_Ready n \<Rightarrow> n = sz \<and> buffer_view is_host w = source \<and> K final (w_ext w)
      | File_Tasks target physical rec s \<Rightarrow>
          (\<exists>sub. s = Some sub \<and>
             (\<forall>order. mset order = mset (all_tasks sub) \<longrightarrow>
                (\<exists>w' ov'. run_tasks (wr_task fe clock physical target) order (fh, w, ov) = Some (fh, w', ov') \<and>
                          buffer_view is_host w' = source \<and> K final (w_ext w'))) \<and>
             complete (\<lambda>t. Inr (tk_size t)) (rec \<noteq> None) sub = (Inr sz, if rec \<noteq> None then [Finish_Bytes sz] else [])))"

lemma host_writes_yield:
  assumes can: "can_write fe fh K memtype base" and w: "world_ok (fe_io fe) (K f) w" and inside: "unat off + unat sz < unat int64_max"
    and sz: "0 < sz" "0 < task_size" and rdy: "ready reg opts"
  shows "\<exists>s. parallel_io reg (env_page_size (fe_io fe)) sz off task_size 0 opts = Inr s \<and>
     future_writes fe clock (forget_size fh) K True sz (w_mem w) (overwrite f (unat off) (read_bytes (w_mem w) buf (unat sz)))
       (File_Tasks (Host_Target buf) physical rec s) w ov"
proof -
  let ?c = "\<lparr>wr_env = fe, wr_clock = clock, wr_handle = fh, wr_physical = physical, wr_inv = K, wr_memtype = memtype, wr_base = base,
    wr_context = 0, wr_buffer = buf, wr_source = w_mem w, wr_range = (off, sz, 0)\<rparr>"
  have "wr_valid True ?c" "wr_ok True ?c f (forget_size fh, w, ov)" "wr_range ?c = (off, sz, 0)"
    using can inside w by (simp_all add: wr_valid_def wr_ok_def buffer_view_def)
  moreover have "admissible off sz task_size" using inside sz by (simp add: admissible_def fits_def int64_max_def)
  ultimately show ?thesis
    using host_writes.parallel_write [of ?c off sz 0 f "(forget_size fh, w, ov)" task_size reg opts "env_page_size (fe_io fe)" "rec \<noteq> None"] rdy
    by (fastforce simp: future_writes_def wr_op_def wr_target_def wr_ok_def world_ok_def)
qed

lemma device_writes_yield:
  assumes can: "can_write fe fh K memtype base" and w: "world_ok (fe_io fe) (K f) w" and inside: "unat off + unat sz < unat int64_max"
    and sz: "0 < sz" "0 < task_size" and rdy: "ready reg opts"
    and dpo: "in_compat fh \<or> unat (buf - devPtr_base) + unat sz < unat int64_max"
  shows "\<exists>s. parallel_io reg (env_page_size (fe_io fe)) sz off task_size (buf - devPtr_base) opts = Inr s \<and>
     future_writes fe clock (forget_size fh) K False sz (w_dev w) (overwrite f (unat off) (read_bytes (w_dev w) buf (unat sz)))
       (File_Tasks (Device_Target ctx devPtr_base) physical rec s) w ov"
proof -
  let ?c = "\<lparr>wr_env = fe, wr_clock = clock, wr_handle = fh, wr_physical = physical, wr_inv = K, wr_memtype = memtype, wr_base = base,
    wr_context = ctx, wr_buffer = devPtr_base, wr_source = w_dev w, wr_range = (off, sz, buf - devPtr_base)\<rparr>"
  have "wr_valid False ?c" "wr_ok False ?c f (forget_size fh, w, ov)" "wr_range ?c = (off, sz, buf - devPtr_base)"
    using can inside w dpo by (simp_all add: wr_valid_def wr_ok_def buffer_view_def)
  moreover have "admissible off sz task_size" using inside sz by (simp add: admissible_def fits_def int64_max_def)
  ultimately show ?thesis
    using device_writes.parallel_write [of ?c off sz "buf - devPtr_base" f "(forget_size fh, w, ov)" task_size reg opts
        "env_page_size (fe_io fe)" "rec \<noteq> None"] rdy
    by (fastforce simp: future_writes_def wr_op_def wr_target_def wr_ok_def world_ok_def)
qed

lemma pio_device_writes:
  assumes can: "can_write fe fh K memtype base" and w: "world_ok (fe_io fe) (K f) w" and inside: "unat off + unat sz < unat int64_max"
    and sz: "0 < sz" "0 < task_size" and rdy: "ready (ov_registry ov) opts"
    and dpo: "in_compat fh \<or> unat (buf - base buf) + unat sz < unat int64_max"
  shows "\<exists>fut cache' w' ov'. pio_device fe clock' fh physical rec opts (Inr None)
      (posix_device_write (fe_io fe) (fd (file_direct_off fh)) buf sz off 0 (fd (file_direct_on fh)))
      buf sz off task_size gds sync cache w ov = Some (Inr fut, cache', w', ov') \<and>
    future_writes fe clock (forget_size fh) K False sz (w_dev w) (overwrite f (unat off) (read_bytes (w_dev w) buf (unat sz))) fut w' ov'"
proof -
  note drv = can_write_driver [OF can]
  let ?wr = "posix_device_write (fe_io fe) (fd (file_direct_off fh)) buf sz off 0 (fd (file_direct_on fh))"
  let ?f' = "overwrite f (unat off) (read_bytes (w_dev w) buf (unat sz))"
  show ?thesis
  proof (rule pio_device_cases [OF drv w refl, of clock' fh physical rec opts None ?wr buf sz off task_size gds sync cache ov], goal_cases)
    case (1 ctx w1)
    have "\<exists>w3. ?wr w2 = Some (Inr sz, w3) \<and> world_ok (fe_io fe) (K ?f') w3 \<and> w_dev w3 = w_dev w"
      if "world_ok (fe_io fe) (K f) w2" "w_dev w2 = w_dev w1" for w2
      using posix_write_moves(2) [OF can that(1) inside, of buf 0] that(2) 1(3) by auto
    then have "\<exists>w' ov'. posix_shortcut fe clock' physical rec ctx off sz ?wr w1 ov = Some (Inr (File_Ready sz), w', ov') \<and>
        world_ok (fe_io fe) (K ?f') w' \<and> w_dev w' = w_dev w"
      using posix_shortcut_ok [OF drv drv 1(1), of ?wr sz ?f' "\<lambda>_ dev. dev = w_dev w"] by blast
    with 1(4) show ?case by (auto simp: future_writes_def buffer_view_def world_ok_def)
  next
    case (2 ctx w1)
    let ?opts = "opts\<lparr>pio_first_task_size := None\<rparr>"
    have "ready (ov_registry ov) ?opts" using rdy by (simp add: ready_def)
    from device_writes_yield [OF can 2(1) inside sz this dpo, of clock ctx physical rec ov] 2(3)
    obtain s where "parallel_io (ov_registry ov) (env_page_size (fe_io fe)) sz off task_size (buf - base buf) ?opts = Inr s"
      "future_writes fe clock (forget_size fh) K False sz (w_dev w) ?f' (File_Tasks (Device_Target ctx (base buf)) physical rec s) w1 ov"
      by auto
    with 2(4) show ?case by blast
  qed
qed


text \<open>A handle in compatibility mode, in the environment of the POSIX example; cuFile is not used.\<close>

definition example_write_file_env :: "(nat \<Rightarrow> byte) file_env" where
  "example_write_file_env = \<lparr>fe_io = example_write_env, fe_cuda = example_cuda,
     fe_cufile = \<lparr>cufile_read = \<lambda>h b sz off d w. ((-1, 5), w), cufile_write = \<lambda>h b sz off d w. ((-1, 5), w)\<rparr>\<rparr>"

definition example_write_handle :: FileHandle where
  "example_write_handle = no_handle\<lparr>file_direct_on := \<lparr>fd = 4\<rparr>, file_direct_off := \<lparr>fd = 3\<rparr>, fh_initialized := True, fh_nbytes := 10\<rparr>"

lemma example_can_write: "can_write example_write_file_env example_write_handle (\<lambda>f e. e = f) (\<lambda>_. 2) (\<lambda>_. 7000)"
proof -
  have "env_bounce_buffer_size example_write_env = 8" by (simp add: example_write_env_def)
  with example_write_ok show ?thesis
    by (simp add: can_write_def example_write_file_env_def example_write_handle_def in_compat_def no_handle_def no_manager_def
        int64_max_def example_cuda_ok)
qed


end
