(* ===== verification/Size_Cache.thy ===== *)
theory Size_Cache
  imports File_Write
begin

text \<open>
  The size that a file handle caches, under concurrent use. \<open>nbytes\<close> loads the cached value, asks the
  kernel for the size if it is zero, and stores the answer: three steps, between which a task of \<open>pwrite\<close>
  may write to the file and reset the cache. The steps are those of \<open>nbytes\<close> and of the tasks of \<open>pwrite\<close> in
  \<open>cpp/src/file_handle.cpp\<close>, and a state keeps what each call in flight has done.
\<close>

section \<open>Steps\<close>

record size_state =
  sc_file :: size_t
  sc_cached :: size_t
  sc_asked :: "size_t list"
  sc_written :: nat

text \<open>
  \<open>sc_asked\<close> holds the answers that calls of \<open>nbytes\<close> have got and not stored yet, \<open>sc_written\<close> the
  number of tasks that have written and not reset the cache yet. With \<open>separate\<close>, no task writes
  between the question and the store of an \<open>nbytes\<close>.
\<close>

inductive size_step :: "bool \<Rightarrow> size_state \<Rightarrow> size_state \<Rightarrow> bool" for separate where
  ask: "sc_cached s = 0 \<Longrightarrow> size_step separate s (s\<lparr>sc_asked := sc_file s # sc_asked s\<rparr>)"
| store: "v \<in> set (sc_asked s) \<Longrightarrow> size_step separate s (s\<lparr>sc_cached := v, sc_asked := remove1 v (sc_asked s)\<rparr>)"
| extend: "separate \<longrightarrow> sc_asked s = [] \<Longrightarrow> size_step separate s (s\<lparr>sc_file := n, sc_written := Suc (sc_written s)\<rparr>)"
| reset: "sc_written s = Suc k \<Longrightarrow> size_step separate s (s\<lparr>sc_cached := 0, sc_written := k\<rparr>)"

definition fresh_size :: "size_t \<Rightarrow> size_state" where
  "fresh_size n = \<lparr>sc_file = n, sc_cached = 0, sc_asked = [], sc_written = 0\<rparr>"

inductive_cases size_stepE: "size_step separate s s'"

section \<open>The cache is right when the calls do not overlap\<close>

definition size_inv :: "size_state \<Rightarrow> bool" where
  "size_inv s \<longleftrightarrow> set (sc_asked s) \<subseteq> {sc_file s} \<and> (sc_written s = 0 \<longrightarrow> sc_cached s = 0 \<or> sc_cached s = sc_file s)"

lemma size_step_inv: "size_step True s s' \<Longrightarrow> size_inv s \<Longrightarrow> size_inv s'"
proof (erule size_stepE, goal_cases)
  case (2 v)
  have "set (remove1 v (sc_asked s)) \<subseteq> {sc_file s}" "v = sc_file s"
    using 2(1,3) set_remove1_subset [of v "sc_asked s"] unfolding size_inv_def by blast+
  then show ?case unfolding 2(2) size_inv_def by simp
qed (auto simp: size_inv_def)

lemma cached_size_is_right:
  assumes "(size_step True)\<^sup>*\<^sup>* (fresh_size n) s" "sc_written s = 0" "sc_cached s \<noteq> 0"
  shows "sc_cached s = sc_file s"
proof -
  from assms(1) have "size_inv s"
  proof induction
    case base
    show ?case by (simp add: size_inv_def fresh_size_def)
  qed (rule size_step_inv)
  with assms(2,3) show ?thesis by (simp add: size_inv_def)
qed

section \<open>Overlapping calls leave a stale size\<close>

text \<open>
  One \<open>nbytes\<close> asks for the size of a file of 10 bytes; a task of \<open>pwrite\<close> extends the file to 20 bytes and
  resets the cache; then \<open>nbytes\<close> stores its answer. All calls are done, and from now on \<open>nbytes\<close> returns
  10, until the next write.
\<close>

lemma stale_size_after_race:
  "(size_step False)\<^sup>*\<^sup>* (fresh_size 10) \<lparr>sc_file = 20, sc_cached = 10, sc_asked = [], sc_written = 0\<rparr>"
proof -
  let ?s = "\<lambda>f c a w. \<lparr>sc_file = f, sc_cached = c, sc_asked = a, sc_written = w\<rparr>"
  have "size_step False (fresh_size 10) (?s 10 0 [10] 0)" using size_step.ask [of "fresh_size 10" False] by (simp add: fresh_size_def)
  moreover have "size_step False (?s 10 0 [10] 0) (?s 20 0 [10] 1)" using size_step.extend [of False "?s 10 0 [10] 0" 20] by simp
  moreover have "size_step False (?s 20 0 [10] 1) (?s 20 0 [10] 0)" using size_step.reset [of "?s 20 0 [10] 1" 0 False] by simp
  moreover have "size_step False (?s 20 0 [10] 0) (?s 20 10 [] 0)" using size_step.store [of 10 "?s 20 0 [10] 0" False] by simp
  ultimately show ?thesis by (meson converse_rtranclp_into_rtranclp rtranclp.rtrancl_refl)
qed

end
