(* ===== verification/Async_IO.thy ===== *)
theory Async_IO
  imports File_IO
begin

text \<open>
  Asynchronous and batched I/O: \<open>StreamFuture\<close> of \<open>cpp/src/stream.cpp\<close>, \<open>read_async\<close> and \<open>write_async\<close> of
  \<open>cpp/src/file_handle.cpp\<close>, \<open>BatchHandle\<close> of \<open>cpp/src/batch.cpp\<close> and the registration of buffers of
  \<open>cpp/src/buffer.cpp\<close>. cuFile is a parameter. The arguments of an asynchronous call lie in a block of
  the C heap that the future owns, so that cuFile can read and write them until the stream has run;
  the heap is a map from addresses to blocks.
\<close>

section \<open>Stream futures\<close>

record ArgByVal =
  ab_size :: size_t
  ab_file_offset :: int
  ab_devPtr_offset :: int
  ab_bytes_done :: int

type_synonym arg_heap = "ptr \<rightharpoonup> ArgByVal"

record StreamFuture =
  sf_devPtr_base :: ptr
  sf_stream :: ptr
  sf_val :: ptr
  sf_stream_synchronized :: bool

definition no_future :: StreamFuture where
  "no_future = \<lparr>sf_devPtr_base = 0, sf_stream = 0, sf_val = 0, sf_stream_synchronized = False\<rparr>"

text \<open>The address that \<open>malloc\<close> returns is a parameter; zero is a failure.\<close>

definition new_stream_future ::
  "ptr \<Rightarrow> ptr \<Rightarrow> size_t \<Rightarrow> int \<Rightarrow> int \<Rightarrow> ptr \<Rightarrow> arg_heap \<Rightarrow> StreamFuture res \<times> arg_heap"
where
  "new_stream_future block devPtr_base sz file_offset devPtr_offset stream h =
     (if block = 0 then (Inl Runtime_Error, h)
      else (Inr \<lparr>sf_devPtr_base = devPtr_base, sf_stream = stream, sf_val = block, sf_stream_synchronized = False\<rparr>,
            h(block \<mapsto> \<lparr>ab_size = sz, ab_file_offset = file_offset, ab_devPtr_offset = devPtr_offset, ab_bytes_done = 0\<rparr>)))"

definition stream_future_move :: "StreamFuture \<Rightarrow> StreamFuture \<times> StreamFuture" where
  "stream_future_move other = (other, other\<lparr>sf_devPtr_base := 0, sf_stream := 0, sf_val := 0\<rparr>)"

text \<open>Assignment overwrites the members of the target; what they owned is forgotten.\<close>

definition stream_future_move_assign :: "StreamFuture \<Rightarrow> StreamFuture \<Rightarrow> StreamFuture \<times> StreamFuture" where
  "stream_future_move_assign this other = (other, other\<lparr>sf_devPtr_base := 0, sf_stream := 0, sf_val := 0\<rparr>)"

definition stream_future_args :: "StreamFuture \<Rightarrow> (ptr \<times> ptr \<times> ptr) res" where
  "stream_future_args sf =
     bind_res (kvikio_expect (sf_val sf \<noteq> 0) CUfile_Exception) (\<lambda>_. Inr (sf_devPtr_base sf, sf_val sf, sf_stream sf))"

text \<open>The stream is waited for once; what the block says afterwards is the result.\<close>

definition check_bytes_done :: "'e cuda_api \<Rightarrow> arg_heap \<Rightarrow> StreamFuture \<Rightarrow> 'e \<Rightarrow> size_t res \<times> StreamFuture \<times> 'e" where
  "check_bytes_done api h sf e =
     (if sf_val sf = 0 then (Inl CUfile_Exception, sf, e)
      else let (r, sf1, e1) =
                 (if sf_stream_synchronized sf then (Inr (), sf, e)
                  else let (r, e1) = cuda_driver_try (stream_synchronize api (sf_stream sf) e)
                       in (r, sf\<lparr>sf_stream_synchronized := True\<rparr>, e1))
           in case r of
                Inl x \<Rightarrow> (Inl x, sf1, e1)
              | Inr _ \<Rightarrow> (cufile_check_bytes_done (ab_bytes_done (the (h (sf_val sf)))), sf1, e1))"

text \<open>The destructor waits for the stream, drops its error, and only then frees the block.\<close>

definition stream_future_destroy :: "'e cuda_api \<Rightarrow> StreamFuture \<Rightarrow> arg_heap \<Rightarrow> 'e \<Rightarrow> arg_heap \<times> 'e" where
  "stream_future_destroy api sf h e =
     (if sf_val sf = 0 then (h, e)
      else let (_, _, e1) = check_bytes_done api h sf e in (h(sf_val sf := None), e1))"

text \<open>
  A future made, moved and destroyed gives its block back, and neither a moved-from future nor a second
  check waits for the stream again.
\<close>

lemma stream_future_returns_block:
  assumes "new_stream_future block b n fo d stream h = (Inr sf, h1)" "h block = None"
    and "stream_future_move sf = (sf2, sf1)"
  shows "fst (stream_future_destroy api sf2 h1 e) = h" "stream_future_destroy api sf1 h1 e = (h1, e)"
proof -
  have "h1 = h(block \<mapsto> \<lparr>ab_size = n, ab_file_offset = fo, ab_devPtr_offset = d, ab_bytes_done = 0\<rparr>)" "sf_val sf2 = block"
    "sf_val sf1 = 0" "block \<noteq> 0"
    using assms(1,3) by (auto simp: new_stream_future_def stream_future_move_def split: if_splits)
  then show "fst (stream_future_destroy api sf2 h1 e) = h" "stream_future_destroy api sf1 h1 e = (h1, e)"
    using assms(2) by (auto simp: stream_future_destroy_def case_prod_beta fun_upd_idem)
qed

lemma check_bytes_done_waits_once:
  assumes "check_bytes_done api h sf e = (r, sf1, e1)" "sf_val sf \<noteq> 0"
  shows "snd (snd (check_bytes_done api h' sf1 e2)) = e2"
  using assms by (auto simp: check_bytes_done_def case_prod_beta Let_def split: if_splits sum.splits)

text \<open>Assigning to a future that owns a block loses the block: it is never freed.\<close>

lemma assignment_leaks_block:
  assumes "h p = Some a" "p \<noteq> 0" "p \<noteq> q" "sf_val this = p" "sf_val other = q" "stream_future_move_assign this other = (x, y)"
  shows "fst (stream_future_destroy api x (fst (stream_future_destroy api y h e)) e') p = Some a"
  using assms by (auto simp: stream_future_move_assign_def stream_future_destroy_def case_prod_beta)

section \<open>Asynchronous transfers\<close>

text \<open>cuFile's asynchronous calls: the handle, the base, the block with the arguments and the stream.\<close>

record 'e cufile_async =
  cufile_read_async :: "ptr \<Rightarrow> ptr \<Rightarrow> ptr \<Rightarrow> ptr \<Rightarrow> 'e world \<Rightarrow> int \<times> 'e world"
  cufile_write_async :: "ptr \<Rightarrow> ptr \<Rightarrow> ptr \<Rightarrow> ptr \<Rightarrow> 'e world \<Rightarrow> int \<times> 'e world"

definition cufile_try :: "int \<times> 'w \<Rightarrow> unit res \<times> 'w" where
  "cufile_try r = (case r of (err, w) \<Rightarrow> (kvikio_expect (err = 0) CUfile_Exception, w))"

text \<open>
  Without asynchronous cuFile, the stream is waited for and the transfer is done at once. \<open>blk\<close> is the
  block of the arguments; the result is written to it, as \<open>ssize_t\<close>.
\<close>

definition file_read_async ::
  "'e file_env \<Rightarrow> 'e cufile_async \<Rightarrow> bool \<Rightarrow> (nat \<Rightarrow> int) \<Rightarrow> FileHandle \<Rightarrow> ptr \<Rightarrow> ptr \<Rightarrow> ptr \<Rightarrow> arg_heap \<Rightarrow> 'e world \<Rightarrow> observer
     \<Rightarrow> (unit res \<times> arg_heap \<times> 'e world \<times> observer) option"
where
  "file_read_async fe asy config_path_empty clock fh devPtr_base blk stream h w ov =
     (case validate_compat_mode_for_async config_path_empty (compat_mode_manager fh) of
        Inl x \<Rightarrow> Some (Inl x, h, w, ov)
      | Inr _ \<Rightarrow>
          if cm_preferred_for_async (compat_mode_manager fh) then
            (case cuda_driver_try (stream_synchronize (fe_cuda fe) stream (w_ext w)) of
               (Inl x, e1) \<Rightarrow> Some (Inl x, h, w\<lparr>w_ext := e1\<rparr>, ov)
             | (Inr _, e1) \<Rightarrow>
                 let a = the (h blk) in
                 (case file_read fe clock fh devPtr_base (ab_size a) (word_of_int (ab_file_offset a)) (word_of_int (ab_devPtr_offset a))
                         True (w\<lparr>w_ext := e1\<rparr>) ov of
                    None \<Rightarrow> None
                  | Some (Inl x, w1, ov1) \<Rightarrow> Some (Inl x, h, w1, ov1)
                  | Some (Inr n, w1, ov1) \<Rightarrow> Some (Inr (), h(blk \<mapsto> a\<lparr>ab_bytes_done := sint n\<rparr>), w1, ov1)))
          else let (r, w1) = cufile_try (cufile_read_async asy (cu_handle (cufile_handle fh)) devPtr_base blk stream w)
               in Some (r, h, w1, ov))"

definition file_write_async ::
  "'e file_env \<Rightarrow> 'e cufile_async \<Rightarrow> bool \<Rightarrow> (nat \<Rightarrow> int) \<Rightarrow> FileHandle \<Rightarrow> ptr \<Rightarrow> ptr \<Rightarrow> ptr \<Rightarrow> arg_heap \<Rightarrow> 'e world \<Rightarrow> observer
     \<Rightarrow> (unit res \<times> FileHandle \<times> arg_heap \<times> 'e world \<times> observer) option"
where
  "file_write_async fe asy config_path_empty clock fh devPtr_base blk stream h w ov =
     (case validate_compat_mode_for_async config_path_empty (compat_mode_manager fh) of
        Inl x \<Rightarrow> Some (Inl x, fh, h, w, ov)
      | Inr _ \<Rightarrow>
          if cm_preferred_for_async (compat_mode_manager fh) then
            (case cuda_driver_try (stream_synchronize (fe_cuda fe) stream (w_ext w)) of
               (Inl x, e1) \<Rightarrow> Some (Inl x, fh, h, w\<lparr>w_ext := e1\<rparr>, ov)
             | (Inr _, e1) \<Rightarrow>
                 let a = the (h blk) in
                 (case file_write fe clock fh devPtr_base (ab_size a) (word_of_int (ab_file_offset a)) (word_of_int (ab_devPtr_offset a))
                         True (w\<lparr>w_ext := e1\<rparr>) ov of
                    None \<Rightarrow> None
                  | Some (Inl x, fh1, w1, ov1) \<Rightarrow> Some (Inl x, fh1, h, w1, ov1)
                  | Some (Inr n, fh1, w1, ov1) \<Rightarrow> Some (Inr (), fh1, h(blk \<mapsto> a\<lparr>ab_bytes_done := sint n\<rparr>), w1, ov1)))
          else let (r, w1) = cufile_try (cufile_write_async asy (cu_handle (cufile_handle fh)) devPtr_base blk stream w)
               in Some (r, fh, h, w1, ov))"

text \<open>The overloads that return a future: when the call throws, the destructor of the future runs.\<close>

definition file_read_async_future ::
  "'e file_env \<Rightarrow> 'e cufile_async \<Rightarrow> bool \<Rightarrow> (nat \<Rightarrow> int) \<Rightarrow> FileHandle \<Rightarrow> ptr \<Rightarrow> ptr \<Rightarrow> size_t \<Rightarrow> int \<Rightarrow> int \<Rightarrow> ptr \<Rightarrow> arg_heap
     \<Rightarrow> 'e world \<Rightarrow> observer \<Rightarrow> (StreamFuture res \<times> arg_heap \<times> 'e world \<times> observer) option"
where
  "file_read_async_future fe asy config_path_empty clock fh block devPtr_base sz file_offset devPtr_offset stream h w ov =
     (case new_stream_future block devPtr_base sz file_offset devPtr_offset stream h of
        (Inl x, h1) \<Rightarrow> Some (Inl x, h1, w, ov)
      | (Inr sf, h1) \<Rightarrow>
          (case file_read_async fe asy config_path_empty clock fh devPtr_base (sf_val sf) stream h1 w ov of
             None \<Rightarrow> None
           | Some (Inl x, h2, w2, ov2) \<Rightarrow>
               let (h3, e3) = stream_future_destroy (fe_cuda fe) sf h2 (w_ext w2) in Some (Inl x, h3, w2\<lparr>w_ext := e3\<rparr>, ov2)
           | Some (Inr _, h2, w2, ov2) \<Rightarrow> Some (Inr sf, h2, w2, ov2)))"

definition file_write_async_future ::
  "'e file_env \<Rightarrow> 'e cufile_async \<Rightarrow> bool \<Rightarrow> (nat \<Rightarrow> int) \<Rightarrow> FileHandle \<Rightarrow> ptr \<Rightarrow> ptr \<Rightarrow> size_t \<Rightarrow> int \<Rightarrow> int \<Rightarrow> ptr \<Rightarrow> arg_heap
     \<Rightarrow> 'e world \<Rightarrow> observer \<Rightarrow> (StreamFuture res \<times> FileHandle \<times> arg_heap \<times> 'e world \<times> observer) option"
where
  "file_write_async_future fe asy config_path_empty clock fh block devPtr_base sz file_offset devPtr_offset stream h w ov =
     (case new_stream_future block devPtr_base sz file_offset devPtr_offset stream h of
        (Inl x, h1) \<Rightarrow> Some (Inl x, fh, h1, w, ov)
      | (Inr sf, h1) \<Rightarrow>
          (case file_write_async fe asy config_path_empty clock fh devPtr_base (sf_val sf) stream h1 w ov of
             None \<Rightarrow> None
           | Some (Inl x, fh2, h2, w2, ov2) \<Rightarrow>
               let (h3, e3) = stream_future_destroy (fe_cuda fe) sf h2 (w_ext w2) in Some (Inl x, fh2, h3, w2\<lparr>w_ext := e3\<rparr>, ov2)
           | Some (Inr _, fh2, h2, w2, ov2) \<Rightarrow> Some (Inr sf, fh2, h2, w2, ov2)))"

section \<open>Batches\<close>

datatype CUfileOpcode = CUFILE_READ | CUFILE_WRITE

record BatchOp =
  bo_file_handle :: FileHandle
  bo_devPtr_base :: ptr
  bo_file_offset :: int
  bo_devPtr_offset :: int
  bo_size :: size_t
  bo_opcode :: CUfileOpcode

text \<open>What is submitted for one operation (the mode is always batch, the cookie always null).\<close>

record CUfileIOParams =
  ip_devPtr_base :: ptr
  ip_file_offset :: int
  ip_devPtr_offset :: int
  ip_size :: size_t
  ip_fh :: ptr
  ip_opcode :: CUfileOpcode

text \<open>An event is what cuFile reports about an operation, of any type.\<close>

record ('e, 'ev) batch_api =
  batch_io_set_up :: "int \<Rightarrow> 'e \<Rightarrow> (int \<times> ptr) \<times> 'e"
  batch_io_submit :: "ptr \<Rightarrow> CUfileIOParams list \<Rightarrow> 'e \<Rightarrow> int \<times> 'e"
  batch_io_get_status :: "ptr \<Rightarrow> 32 word \<Rightarrow> 32 word \<Rightarrow> 'e \<Rightarrow> (int \<times> 'ev list) \<times> 'e"
  batch_io_cancel :: "ptr \<Rightarrow> 'e \<Rightarrow> int \<times> 'e"
  batch_io_destroy :: "ptr \<Rightarrow> 'e \<Rightarrow> 'e"

record BatchHandle =
  bh_initialized :: bool
  bh_max_num_events :: int
  bh_handle :: ptr

definition no_batch :: BatchHandle where
  "no_batch = \<lparr>bh_initialized = False, bh_max_num_events = 0, bh_handle = 0\<rparr>"

definition new_batch_handle :: "('e, 'ev) batch_api \<Rightarrow> int \<Rightarrow> 'e \<Rightarrow> BatchHandle res \<times> 'e" where
  "new_batch_handle api max_num_events e =
     (case batch_io_set_up api max_num_events e of
        ((err, handle), e1) \<Rightarrow>
          (bind_res (kvikio_expect (err = 0) CUfile_Exception)
             (\<lambda>_. Inr \<lparr>bh_initialized = True, bh_max_num_events = max_num_events, bh_handle = handle\<rparr>), e1))"

definition batch_move :: "BatchHandle \<Rightarrow> BatchHandle \<times> BatchHandle" where
  "batch_move other = (other, no_batch)"

definition batch_closed :: "BatchHandle \<Rightarrow> bool" where
  "batch_closed b \<longleftrightarrow> \<not> bh_initialized b"

text \<open>\<open>close\<close>, which is also the destructor.\<close>

definition batch_close :: "('e, 'ev) batch_api \<Rightarrow> BatchHandle \<Rightarrow> 'e \<Rightarrow> BatchHandle \<times> 'e" where
  "batch_close api b e =
     (if batch_closed b then (b, e) else (b\<lparr>bh_initialized := False\<rparr>, batch_io_destroy api (bh_handle b) e))"

text \<open>The loop over the operations: each handle has to be out of compatibility mode and open.\<close>

fun batch_params :: "BatchOp list \<Rightarrow> CUfileIOParams list res" where
  "batch_params [] = Inr []"
| "batch_params (op # ops) =
     bind_res (kvikio_expect (\<not> in_compat (bo_file_handle op)) CUfile_Exception) (\<lambda>_.
     bind_res (file_handle_cufile (bo_file_handle op)) (\<lambda>fh.
     bind_res (batch_params ops) (\<lambda>ps.
       Inr (\<lparr>ip_devPtr_base = bo_devPtr_base op, ip_file_offset = bo_file_offset op, ip_devPtr_offset = bo_devPtr_offset op,
             ip_size = bo_size op, ip_fh = fh, ip_opcode = bo_opcode op\<rparr> # ps))))"

definition batch_submit :: "('e, 'ev) batch_api \<Rightarrow> BatchHandle \<Rightarrow> BatchOp list \<Rightarrow> 'e \<Rightarrow> unit res \<times> 'e" where
  "batch_submit api b operations e =
     (case bind_res (convert_size2ssize (of_nat (length operations))) (\<lambda>n.
           bind_res (kvikio_expect (uint n \<le> bh_max_num_events b) CUfile_Exception) (\<lambda>_. batch_params operations)) of
        Inl x \<Rightarrow> (Inl x, e)
      | Inr ps \<Rightarrow> cufile_try (batch_io_submit api (bh_handle b) ps e))"

text \<open>\<open>cuFileBatchIOGetStatus\<close> fills a vector of \<open>_max_num_events\<close> entries; \<open>None\<close> if it writes past its end.\<close>

definition batch_status :: "('e, 'ev) batch_api \<Rightarrow> BatchHandle \<Rightarrow> 32 word \<Rightarrow> 32 word \<Rightarrow> 'e \<Rightarrow> ('ev list res \<times> 'e) option" where
  "batch_status api b min_nr max_nr e =
     (case batch_io_get_status api (bh_handle b) min_nr max_nr e of
        ((err, events), e1) \<Rightarrow>
          if err \<noteq> 0 then Some (Inl CUfile_Exception, e1)
          else if int (length events) \<le> bh_max_num_events b then Some (Inr events, e1) else None)"

definition batch_cancel :: "('e, 'ev) batch_api \<Rightarrow> BatchHandle \<Rightarrow> 'e \<Rightarrow> unit res \<times> 'e" where
  "batch_cancel api b e = cufile_try (batch_io_cancel api (bh_handle b) e)"

text \<open>
  A batch is submitted as a whole, in order and with the handles of its files, or not at all: with one
  closed handle, one handle in compatibility mode or too many operations, cuFile sees none of them.
\<close>

lemma batch_params_all_or_none:
  "(\<exists>ps. batch_params ops = Inr ps) \<longleftrightarrow> (\<forall>op \<in> set ops. \<not> in_compat (bo_file_handle op) \<and> \<not> file_handle_closed (bo_file_handle op))"
  by (induction ops) (auto simp: res_simps bind_res_Inr_iff file_handle_cufile_def in_compat_def split: sum.splits)

lemma batch_params_in_order:
  "batch_params ops = Inr ps \<Longrightarrow>
   map (\<lambda>p. (ip_devPtr_base p, ip_file_offset p, ip_devPtr_offset p, ip_size p, ip_fh p, ip_opcode p)) ps =
   map (\<lambda>op. (bo_devPtr_base op, bo_file_offset op, bo_devPtr_offset op, bo_size op, cu_handle (cufile_handle (bo_file_handle op)), bo_opcode op)) ops"
  by (induction ops arbitrary: ps) (auto simp: bind_res_Inr_iff file_handle_cufile_def)

text \<open>A second close does not destroy the batch again.\<close>

lemma batch_close_once: "batch_close api (fst (batch_close api b e)) e' = (fst (batch_close api b e), e')"
  by (simp add: batch_close_def batch_closed_def)

section \<open>Registered buffers\<close>

record 'e buffer_api =
  buf_register :: "ptr \<Rightarrow> size_t \<Rightarrow> int \<Rightarrow> 'e \<Rightarrow> int \<times> 'e"
  buf_deregister :: "ptr \<Rightarrow> 'e \<Rightarrow> int \<times> 'e"

definition buffer_register :: "'e buffer_api \<Rightarrow> bool \<Rightarrow> ptr \<Rightarrow> size_t \<Rightarrow> int \<Rightarrow> int list \<Rightarrow> 'e \<Rightarrow> unit res \<times> 'e" where
  "buffer_register api compat_preferred devPtr_base sz flags errors_to_ignore e =
     (if compat_preferred then (Inr (), e)
      else let (err, e1) = buf_register api devPtr_base sz flags e
           in (kvikio_expect (err = 0 \<or> err \<in> set errors_to_ignore) CUfile_Exception, e1))"

definition buffer_deregister :: "'e buffer_api \<Rightarrow> bool \<Rightarrow> ptr \<Rightarrow> 'e \<Rightarrow> unit res \<times> 'e" where
  "buffer_deregister api compat_preferred devPtr_base e =
     (if compat_preferred then (Inr (), e) else cufile_try (buf_deregister api devPtr_base e))"

text \<open>For a pointer anywhere in an allocation.\<close>

definition memory_register ::
  "'e cuda_api \<Rightarrow> 'e buffer_api \<Rightarrow> bool \<Rightarrow> ptr \<Rightarrow> int \<Rightarrow> int list \<Rightarrow> context_cache \<Rightarrow> 'e \<Rightarrow> unit res \<times> context_cache \<times> 'e"
where
  "memory_register cuda api compat_preferred devPtr flags errors_to_ignore cache e =
     (case get_alloc_info cuda devPtr None cache e of
        (Inl x, cache1, e1) \<Rightarrow> (Inl x, cache1, e1)
      | (Inr (base, nbytes, _), cache1, e1) \<Rightarrow>
          let (r, e2) = buffer_register api compat_preferred base nbytes flags errors_to_ignore e1 in (r, cache1, e2))"

definition memory_deregister ::
  "'e cuda_api \<Rightarrow> 'e buffer_api \<Rightarrow> bool \<Rightarrow> ptr \<Rightarrow> context_cache \<Rightarrow> 'e \<Rightarrow> unit res \<times> context_cache \<times> 'e"
where
  "memory_deregister cuda api compat_preferred devPtr cache e =
     (case get_alloc_info cuda devPtr None cache e of
        (Inl x, cache1, e1) \<Rightarrow> (Inl x, cache1, e1)
      | (Inr (base, _, _), cache1, e1) \<Rightarrow> let (r, e2) = buffer_deregister api compat_preferred base e1 in (r, cache1, e2))"

end
