(* ===== verification/Event_Pool.thy ===== *)
theory Event_Pool
  imports Device_Memory "HOL-Library.Multiset"
begin

text \<open>
  CUDA events and streams: the pool of reusable events of \<open>cpp/src/detail/event.cpp\<close>, the barrier over the
  events of the threads of a read of \<open>cpp/src/detail/io_event_barrier.cpp\<close>, and the cache of streams of
  \<open>cpp/src/detail/stream.cpp\<close>. The driver is a parameter. An event exists from its creation on, so
  that it must have one owner at every moment: a \<open>CudaEvent\<close> object or the pool, and the pool must keep it
  under the context it was created in. A barrier that has synchronized covers what each thread recorded.
\<close>

section \<open>The driver's calls on events and streams\<close>

text \<open>
  The calls that create something do so in the context that is current on the calling thread; it is
  their first argument.
\<close>

record 'e event_api = "'e cuda_api" +
  event_create :: "ptr \<Rightarrow> ('e, ptr) driver_call"
  event_destroy :: "ptr \<Rightarrow> ('e, unit) driver_call"
  event_record :: "ptr \<Rightarrow> ptr \<Rightarrow> ('e, unit) driver_call"
  event_synchronize :: "ptr \<Rightarrow> ('e, unit) driver_call"
  event_query :: "ptr \<Rightarrow> ('e, unit) driver_call"
  stream_create :: "ptr \<Rightarrow> ('e, ptr) driver_call"

definition CUDA_ERROR_NOT_READY :: int where "CUDA_ERROR_NOT_READY = 600"

section \<open>The pool\<close>

text \<open>The free events by context; the last event of a vector is the next one to be taken.\<close>

type_synonym event_pools = "(ptr \<times> ptr list) list"

record CudaEvent =
  ev_event :: ptr
  ev_cuda_context :: ptr

fun take_event :: "ptr \<Rightarrow> event_pools \<Rightarrow> ptr \<times> event_pools" where
  "take_event ctx [] = (0, [])"
| "take_event ctx ((c, evs) # ps) =
     (if c = ctx then (if evs = [] then (0, (c, evs) # ps) else (last evs, (c, butlast evs) # ps))
      else let (ev, ps') = take_event ctx ps in (ev, (c, evs) # ps'))"

fun push_event :: "ptr \<Rightarrow> ptr list \<Rightarrow> event_pools \<Rightarrow> event_pools" where
  "push_event ctx new [] = [(ctx, new)]"
| "push_event ctx new ((c, evs) # ps) = (if c = ctx then (c, evs @ new) # ps else (c, evs) # push_event ctx new ps)"

definition event_pool_get :: "('e, 'z) event_api_scheme \<Rightarrow> event_pools \<Rightarrow> 'e \<Rightarrow> CudaEvent res \<times> event_pools \<times> 'e" where
  "event_pool_get api ps e =
     (case cuda_driver_try (ctx_get_current api e) of
        (Inl x, e1) \<Rightarrow> (Inl x, ps, e1)
      | (Inr ctx, e1) \<Rightarrow>
          if ctx = 0 then (Inl CUfile_Exception, ps, e1)
          else let (ev, ps1) = take_event ctx ps in
               if ev \<noteq> 0 then (Inr \<lparr>ev_event = ev, ev_cuda_context = ctx\<rparr>, ps1, e1)
               else (case cuda_driver_try (event_create api ctx e1) of
                       (Inl x, e2) \<Rightarrow> (Inl x, ps1, e2)
                     | (Inr new, e2) \<Rightarrow> (Inr \<lparr>ev_event = new, ev_cuda_context = ctx\<rparr>, ps1, e2)))"

text \<open>
  Giving an event back. The allocator can fail for the entry of the map or for the element of the vector;
  then the event is destroyed, and an error of that is only logged.
\<close>

datatype alloc_outcome = Alloc_Ok | No_Entry | No_Element

definition event_pool_put ::
  "('e, 'z) event_api_scheme \<Rightarrow> alloc_outcome \<Rightarrow> ptr \<Rightarrow> ptr \<Rightarrow> event_pools \<Rightarrow> 'e \<Rightarrow> event_pools \<times> 'e"
where
  "event_pool_put api a event ctx ps e =
     (if event = 0 then (ps, e)
      else case a of
             Alloc_Ok \<Rightarrow> (push_event ctx [event] ps, e)
           | No_Entry \<Rightarrow> (ps, snd (event_destroy api event e))
           | No_Element \<Rightarrow> (push_event ctx [] ps, snd (event_destroy api event e)))"

definition num_free_events :: "ptr \<Rightarrow> event_pools \<Rightarrow> size_t" where
  "num_free_events ctx ps = (case map_of ps ctx of Some evs \<Rightarrow> of_nat (length evs) | None \<Rightarrow> 0)"

definition total_free_events :: "event_pools \<Rightarrow> size_t" where
  "total_free_events ps = sum_list (map (\<lambda>(_, evs). of_nat (length evs)) ps)"

section \<open>The event objects\<close>

text \<open>The pool that an object points to is the process's only one.\<close>

definition no_event :: CudaEvent where
  "no_event = \<lparr>ev_event = 0, ev_cuda_context = 0\<rparr>"

definition cuda_event_destroy ::
  "('e, 'z) event_api_scheme \<Rightarrow> alloc_outcome \<Rightarrow> CudaEvent \<Rightarrow> event_pools \<Rightarrow> 'e \<Rightarrow> event_pools \<times> 'e"
where
  "cuda_event_destroy api a ev ps e =
     (if ev_event ev \<noteq> 0 then event_pool_put api a (ev_event ev) (ev_cuda_context ev) ps e else (ps, e))"

definition cuda_event_move :: "CudaEvent \<Rightarrow> CudaEvent \<times> CudaEvent" where
  "cuda_event_move other = (other, no_event)"

text \<open>Assigning another object first gives the event of the target back.\<close>

definition cuda_event_move_assign ::
  "('e, 'z) event_api_scheme \<Rightarrow> alloc_outcome \<Rightarrow> CudaEvent \<Rightarrow> CudaEvent \<Rightarrow> event_pools \<Rightarrow> 'e
     \<Rightarrow> CudaEvent \<times> CudaEvent \<times> event_pools \<times> 'e"
where
  "cuda_event_move_assign api a this other ps e =
     (let (ps1, e1) = (if ev_event this \<noteq> 0 then event_pool_put api a (ev_event this) (ev_cuda_context this) ps e else (ps, e))
      in (other, no_event, ps1, e1))"

definition cuda_event_record :: "('e, 'z) event_api_scheme \<Rightarrow> CudaEvent \<Rightarrow> ptr \<Rightarrow> 'e \<Rightarrow> unit res \<times> 'e" where
  "cuda_event_record api ev stream e = cuda_driver_try (event_record api (ev_event ev) stream e)"

definition cuda_event_synchronize :: "('e, 'z) event_api_scheme \<Rightarrow> CudaEvent \<Rightarrow> 'e \<Rightarrow> unit res \<times> 'e" where
  "cuda_event_synchronize api ev e = cuda_driver_try (event_synchronize api (ev_event ev) e)"

definition cuda_event_is_done :: "('e, 'z) event_api_scheme \<Rightarrow> CudaEvent \<Rightarrow> 'e \<Rightarrow> bool res \<times> 'e" where
  "cuda_event_is_done api ev e =
     (case event_query api (ev_event ev) e of
        (Inr _, e1) \<Rightarrow> (Inr True, e1)
      | (Inl err, e1) \<Rightarrow> if err = CUDA_ERROR_NOT_READY then (Inr False, e1) else (Inl CUfile_Exception, e1))"

section \<open>The barrier\<close>

text \<open>The slots of the threads that have recorded.\<close>

record IoEventBarrier =
  ib_cuda_context :: ptr
  ib_thread_events :: "(nat \<times> CudaEvent) list"

definition new_io_event_barrier :: "ptr \<Rightarrow> IoEventBarrier" where
  "new_io_event_barrier ctx = \<lparr>ib_cuda_context = ctx, ib_thread_events = []\<rparr>"

definition emplace_event :: "nat \<Rightarrow> CudaEvent \<Rightarrow> (nat \<times> CudaEvent) list \<Rightarrow> (nat \<times> CudaEvent) list \<times> bool" where
  "emplace_event tid ev evs = (case map_of evs tid of Some _ \<Rightarrow> (evs, False) | None \<Rightarrow> (evs @ [(tid, ev)], True))"

definition io_barrier_record_event ::
  "('e, 'z) event_api_scheme \<Rightarrow> alloc_outcome \<Rightarrow> nat \<Rightarrow> ptr \<Rightarrow> IoEventBarrier \<Rightarrow> event_pools \<Rightarrow> 'e
     \<Rightarrow> unit res \<times> IoEventBarrier \<times> event_pools \<times> 'e"
where
  "io_barrier_record_event api a tid stream b ps e =
     (case map_of (ib_thread_events b) tid of
        Some ev \<Rightarrow> let (r, e1) = cuda_event_record api ev stream e in (r, b, ps, e1)
      | None \<Rightarrow>
          (case event_pool_get api ps e of
             (Inl x, ps1, e1) \<Rightarrow> (Inl x, b, ps1, e1)
           | (Inr ev, ps1, e1) \<Rightarrow>
               let (evs, inserted) = emplace_event tid ev (ib_thread_events b) in
               if inserted
               then let (r, e2) = cuda_event_record api ev stream e1 in (r, b\<lparr>ib_thread_events := evs\<rparr>, ps1, e2)
               else let (ps2, e2) = cuda_event_destroy api a ev ps1 e1 in (Inl CUfile_Exception, b, ps2, e2)))"

fun sync_events :: "('e, 'z) event_api_scheme \<Rightarrow> CudaEvent list \<Rightarrow> 'e \<Rightarrow> unit res \<times> 'e" where
  "sync_events api [] e = (Inr (), e)"
| "sync_events api (ev # evs) e =
     (case cuda_event_synchronize api ev e of (Inl x, e1) \<Rightarrow> (Inl x, e1) | (Inr _, e1) \<Rightarrow> sync_events api evs e1)"

definition sync_all_events :: "('e, 'z) event_api_scheme \<Rightarrow> IoEventBarrier \<Rightarrow> 'e \<Rightarrow> unit res \<times> 'e" where
  "sync_all_events api b e = sync_events api (map snd (ib_thread_events b)) e"

section \<open>Streams of threads\<close>

type_synonym stream_cache = "ptr \<times> nat \<rightharpoonup> ptr"

definition stream_cache_get ::
  "('e, 'z) event_api_scheme \<Rightarrow> nat \<Rightarrow> stream_cache \<Rightarrow> 'e \<Rightarrow> ptr res \<times> stream_cache \<times> 'e"
where
  "stream_cache_get api tid cache e =
     (case cuda_driver_try (ctx_get_current api e) of
        (Inl x, e1) \<Rightarrow> (Inl x, cache, e1)
      | (Inr ctx, e1) \<Rightarrow>
          if ctx = 0 then (Inr 0, cache, e1)
          else case cache (ctx, tid) of
                 Some stream \<Rightarrow> (Inr stream, cache, e1)
               | None \<Rightarrow>
                   (case cuda_driver_try (stream_create api ctx e1) of
                      (Inl x, e2) \<Rightarrow> (Inl x, cache, e2)
                    | (Inr stream, e2) \<Rightarrow> (Inr stream, cache((ctx, tid) \<mapsto> stream), e2)))"

text \<open>A thread that asks again in the same context gets the stream it was given, and no other is created.\<close>

lemma stream_cache_get_stable:
  assumes "stream_cache_get api tid cache e = (Inr stream, cache', e1)" "ctx_get_current api e = (Inr ctx, d)"
    and "ctx_get_current api e2 = (Inr ctx, e3)"
  shows "stream_cache_get api tid cache' e2 = (Inr stream, cache', e3)"
    and "cache \<subseteq>\<^sub>m cache'"
  using assms
  by (auto simp: stream_cache_get_def cuda_driver_try_def map_le_def split: if_splits option.splits prod.splits sum.splits)

section \<open>Who holds which event\<close>

definition pooled :: "event_pools \<Rightarrow> (ptr \<times> ptr) multiset" where
  "pooled ps = sum_list (map (\<lambda>(c, evs). image_mset (\<lambda>ev. (ev, c)) (mset evs)) ps)"

definition held_by :: "CudaEvent option \<Rightarrow> (ptr \<times> ptr) multiset" where
  "held_by ob = (case ob of None \<Rightarrow> {#} | Some ev \<Rightarrow> if ev_event ev = 0 then {#} else {#(ev_event ev, ev_cuda_context ev)#})"

lemma held_by_simps [simp]: "held_by None = {#}" "held_by (Some no_event) = {#}"
  "v \<noteq> 0 \<Longrightarrow> held_by (Some \<lparr>ev_event = v, ev_cuda_context = c\<rparr>) = {#(v, c)#}"
  by (simp_all add: held_by_def no_event_def)

lemma pooled_push [simp]: "pooled (push_event ctx new ps) = image_mset (\<lambda>ev. (ev, ctx)) (mset new) + pooled ps"
  by (induction ctx new ps rule: push_event.induct) (auto simp: pooled_def)

lemma pooled_take:
  assumes "take_event ctx ps = (ev, ps')" "0 \<notin># image_mset fst (pooled ps)"
  shows "pooled ps = (if ev = 0 then pooled ps' else add_mset (ev, ctx) (pooled ps'))"
  using assms
proof (induction ctx ps arbitrary: ev ps' rule: take_event.induct)
  case (2 ctx c evs ps)
  show ?case
  proof (cases "c = ctx \<and> evs \<noteq> []")
    case True
    then obtain xs x where "evs = xs @ [x]" by (metis append_butlast_last_id)
    then show ?thesis using 2(2,3) True by (auto simp: pooled_def)
  next
    case False
    then show ?thesis using 2 by (auto simp: pooled_def split: if_splits prod.splits)
  qed
qed (simp add: pooled_def)

section \<open>One owner for every event\<close>

text \<open>
  What the driver promises of events: \<open>live\<close> are the events that exist, each with its context. A
  new event has a handle that no other has, a destroyed one is gone, and asking for the current context
  changes nothing.
\<close>

definition event_driver_ok :: "('e, 'z) event_api_scheme \<Rightarrow> ('e \<Rightarrow> (ptr \<times> ptr) set) \<Rightarrow> bool" where
  "event_driver_ok api live \<longleftrightarrow>
     (\<forall>c e. case event_create api c e of
              (Inl _, e') \<Rightarrow> live e' = live e
            | (Inr v, e') \<Rightarrow> v \<noteq> 0 \<and> v \<notin> fst ` live e \<and> live e' = insert (v, c) (live e)) \<and>
     (\<forall>v e. live (snd (event_destroy api v e)) = {x \<in> live e. fst x \<noteq> v}) \<and>
     (\<forall>e. live (snd (ctx_get_current api e)) = live e)"

text \<open>
  The objects of all threads, the free events, and the calls of \<open>get\<close> that found no free event and are
  about to create one outside the lock. A destroyed object leaves its place empty.
\<close>

record 'e event_state =
  es_pools :: event_pools
  es_objects :: "CudaEvent option list"
  es_creating :: "ptr list"
  es_driver :: 'e

inductive event_step :: "('e, 'z) event_api_scheme \<Rightarrow> 'e event_state \<Rightarrow> 'e event_state \<Rightarrow> bool" for api where
  found: "ctx \<noteq> 0 \<Longrightarrow> take_event ctx (es_pools s) = (ev, ps) \<Longrightarrow> ev \<noteq> 0 \<Longrightarrow>
    event_step api s (s\<lparr>es_pools := ps, es_objects := es_objects s @ [Some \<lparr>ev_event = ev, ev_cuda_context = ctx\<rparr>]\<rparr>)"
| missed: "ctx \<noteq> 0 \<Longrightarrow> take_event ctx (es_pools s) = (0, ps) \<Longrightarrow>
    event_step api s (s\<lparr>es_pools := ps, es_creating := ctx # es_creating s\<rparr>)"
| created: "ctx \<in> set (es_creating s) \<Longrightarrow> event_create api ctx (es_driver s) = (Inr ev, e) \<Longrightarrow>
    event_step api s (s\<lparr>es_creating := remove1 ctx (es_creating s), es_driver := e,
                        es_objects := es_objects s @ [Some \<lparr>ev_event = ev, ev_cuda_context = ctx\<rparr>]\<rparr>)"
| not_created: "ctx \<in> set (es_creating s) \<Longrightarrow> event_create api ctx (es_driver s) = (Inl err, e) \<Longrightarrow>
    event_step api s (s\<lparr>es_creating := remove1 ctx (es_creating s), es_driver := e\<rparr>)"
| destroyed: "i < length (es_objects s) \<Longrightarrow> es_objects s ! i = Some ob \<Longrightarrow>
    cuda_event_destroy api a ob (es_pools s) (es_driver s) = (ps, e) \<Longrightarrow>
    event_step api s (s\<lparr>es_pools := ps, es_driver := e, es_objects := (es_objects s)[i := None]\<rparr>)"
| moved: "i < length (es_objects s) \<Longrightarrow> es_objects s ! i = Some ob \<Longrightarrow> cuda_event_move ob = (new, old) \<Longrightarrow>
    event_step api s (s\<lparr>es_objects := (es_objects s)[i := Some old] @ [Some new]\<rparr>)"
| assigned: "i < length (es_objects s) \<Longrightarrow> j < length (es_objects s) \<Longrightarrow> i \<noteq> j \<Longrightarrow>
    es_objects s ! i = Some this \<Longrightarrow> es_objects s ! j = Some other \<Longrightarrow>
    cuda_event_move_assign api a this other (es_pools s) (es_driver s) = (this', other', ps, e) \<Longrightarrow>
    event_step api s (s\<lparr>es_pools := ps, es_driver := e, es_objects := (es_objects s)[i := Some this', j := Some other']\<rparr>)"

definition event_start :: "'e \<Rightarrow> 'e event_state" where
  "event_start e = \<lparr>es_pools = [], es_objects = [], es_creating = [], es_driver = e\<rparr>"

definition held :: "CudaEvent option list \<Rightarrow> (ptr \<times> ptr) multiset" where
  "held obs = sum_list (map held_by obs)"

lemma held_simps [simp]: "held [] = {#}" "held (xs @ ys) = held xs + held ys" "held [x] = held_by x"
  by (simp_all add: held_def)

lemma held_update: "i < length obs \<Longrightarrow> held (obs[i := x]) + held_by (obs ! i) = held obs + held_by x"
proof (induction obs arbitrary: i)
  case (Cons y ys)
  then show ?case by (cases i) (auto simp: held_def)
qed simp

text \<open>The invariant: the events that exist are those in the pool, each under its context, and those of the objects.\<close>

definition event_inv :: "('e \<Rightarrow> (ptr \<times> ptr) set) \<Rightarrow> 'e event_state \<Rightarrow> bool" where
  "event_inv live s \<longleftrightarrow>
     finite (live (es_driver s)) \<and> inj_on fst (live (es_driver s)) \<and> 0 \<notin> fst ` live (es_driver s) \<and>
     pooled (es_pools s) + held (es_objects s) = mset_set (live (es_driver s))"

text \<open>Giving back what an object holds: it moves to the pool, or it no longer exists.\<close>

lemma cuda_event_destroy_gives_back:
  assumes api: "event_driver_ok api live"
    and d: "cuda_event_destroy api a ob ps e = (ps', e')"
    and inv: "finite (live e)" "inj_on fst (live e)" "0 \<notin> fst ` live e"
    and all: "pooled ps + (held_by (Some ob) + rest) = mset_set (live e)"
  shows "finite (live e')" "inj_on fst (live e')" "0 \<notin> fst ` live e'" "pooled ps' + rest = mset_set (live e')"
proof -
  let ?v = "ev_event ob"
  consider "?v = 0" | "?v \<noteq> 0" "a = Alloc_Ok" | "?v \<noteq> 0" "a \<noteq> Alloc_Ok" by blast
  then have "finite (live e') \<and> inj_on fst (live e') \<and> 0 \<notin> fst ` live e' \<and> pooled ps' + rest = mset_set (live e')"
  proof cases
    case 1
    then show ?thesis using d inv all by (simp add: cuda_event_destroy_def held_by_def)
  next
    case 2
    then show ?thesis using d inv all by (auto simp: cuda_event_destroy_def event_pool_put_def held_by_def)
  next
    case 3
    have gone: "live (snd (event_destroy api ?v e)) = {x \<in> live e. fst x \<noteq> ?v}"
      using api unfolding event_driver_ok_def by (elim conjE allE)
    have "e' = snd (event_destroy api ?v e)" and ps': "pooled ps' = pooled ps"
      using 3 d by (cases a; simp add: cuda_event_destroy_def event_pool_put_def; auto)+
    with gone have e': "live e' = {x \<in> live e. fst x \<noteq> ?v}" by simp
    have mem: "(?v, ev_cuda_context ob) \<in> live e"
      using arg_cong [OF all, of "\<lambda>M. (?v, ev_cuda_context ob) \<in># M"] inv(1) 3(1) by (simp add: held_by_def)
    have "fst x = ?v \<longleftrightarrow> x = (?v, ev_cuda_context ob)" if "x \<in> live e" for x
      using inj_on_eq_iff [OF inv(2) that mem] by simp
    then have "{x \<in> live e. fst x \<noteq> ?v} = live e - {(?v, ev_cuda_context ob)}" by blast
    then have live: "live e' = live e - {(?v, ev_cuda_context ob)}" using e' by simp
    have "mset_set (live e) = add_mset (?v, ev_cuda_context ob) (mset_set (live e'))"
      using mem inv(1) unfolding live by (simp add: mset_set.remove)
    then have "pooled ps' + rest = mset_set (live e')" using all 3(1) ps' by (simp add: held_by_def)
    then show ?thesis using inv live by (auto intro: inj_on_subset)
  qed
  then show "finite (live e')" "inj_on fst (live e')" "0 \<notin> fst ` live e'" "pooled ps' + rest = mset_set (live e')" by auto
qed

lemma event_driver_created:
  assumes "event_driver_ok api live" "event_create api ctx e = (Inr ev, e')"
  shows "ev \<noteq> 0" "ev \<notin> fst ` live e" "live e' = insert (ev, ctx) (live e)"
proof -
  have "case event_create api ctx e of (Inl _, e') \<Rightarrow> live e' = live e
     | (Inr v, e') \<Rightarrow> v \<noteq> 0 \<and> v \<notin> fst ` live e \<and> live e' = insert (v, ctx) (live e)"
    using assms(1) unfolding event_driver_ok_def by (elim conjE allE)
  then show "ev \<noteq> 0" "ev \<notin> fst ` live e" "live e' = insert (ev, ctx) (live e)" using assms(2) by simp_all
qed

lemma event_driver_not_created:
  assumes "event_driver_ok api live" "event_create api ctx e = (Inl err, e')"
  shows "live e' = live e"
proof -
  have "case event_create api ctx e of (Inl _, e') \<Rightarrow> live e' = live e
     | (Inr v, e') \<Rightarrow> v \<noteq> 0 \<and> v \<notin> fst ` live e \<and> live e' = insert (v, ctx) (live e)"
    using assms(1) unfolding event_driver_ok_def by (elim conjE allE)
  then show ?thesis using assms(2) by simp
qed

lemma event_inv_no_null: "event_inv live s \<Longrightarrow> 0 \<notin># image_mset fst (pooled (es_pools s))"
proof -
  assume inv: "event_inv live s"
  then have "set_mset (pooled (es_pools s)) \<subseteq> live (es_driver s)"
    unfolding event_inv_def by (metis finite_set_mset_mset_set mset_subset_eq_add_left set_mset_mono)
  then show ?thesis using inv unfolding event_inv_def by auto
qed

lemma event_inv_step:
  assumes api: "event_driver_ok api live" and "event_step api s s'" and inv: "event_inv live s"
  shows "event_inv live s'"
  using assms(2)
proof cases
  case (found ctx ev ps)
  then show ?thesis using pooled_take [OF found(3) event_inv_no_null [OF inv]] inv by (auto simp: event_inv_def)
next
  case (missed ctx ps)
  then show ?thesis using pooled_take [OF missed(3) event_inv_no_null [OF inv]] inv by (auto simp: event_inv_def)
next
  case (created ctx ev e)
  note new = event_driver_created [OF api created(3)]
  have "(ev, ctx) \<notin> live (es_driver s)" using new(2) by (metis fst_conv imageI)
  with new show ?thesis using created(1) inv by (auto simp: event_inv_def)
next
  case (not_created ctx err e)
  then show ?thesis using event_driver_not_created [OF api not_created(3)] inv by (simp add: event_inv_def)
next
  case (destroyed i ob a ps e)
  have h: "held ((es_objects s)[i := None]) + held_by (Some ob) = held (es_objects s)"
    using held_update [OF destroyed(2), of None] destroyed(3) by simp
  have "pooled (es_pools s) + (held_by (Some ob) + held ((es_objects s)[i := None])) = mset_set (live (es_driver s))"
    using inv h by (simp add: event_inv_def ac_simps)
  from cuda_event_destroy_gives_back [OF api destroyed(4) _ _ _ this] inv destroyed(1)
  show ?thesis by (simp add: event_inv_def)
next
  case (moved i ob new old)
  have "held ((es_objects s)[i := Some old]) + held_by (Some ob) = held (es_objects s)"
    using held_update [OF moved(2), of "Some old"] moved(3,4) by (simp add: cuda_event_move_def)
  then show ?thesis using inv moved by (simp add: event_inv_def cuda_event_move_def ac_simps)
next
  case (assigned i j this other a this' other' ps e)
  let ?obs = "(es_objects s)[i := Some this', j := Some other']"
  have d: "cuda_event_destroy api a this (es_pools s) (es_driver s) = (ps, e)" and ms: "this' = other" "other' = no_event"
    using assigned(7) by (auto simp: cuda_event_move_assign_def cuda_event_destroy_def Let_def split: prod.splits if_splits)
  have A: "held ?obs + held_by (Some other) = held ((es_objects s)[i := Some this'])"
    using held_update [of j "(es_objects s)[i := Some this']" "Some other'"] assigned(3-6) ms(2) by simp
  have B: "held ((es_objects s)[i := Some this']) + held_by (Some this) = held (es_objects s) + held_by (Some other)"
    using held_update [OF assigned(2), of "Some this'"] assigned(5) ms(1) by simp
  have "(held_by (Some this) + held ?obs) + held_by (Some other) = (held ?obs + held_by (Some other)) + held_by (Some this)"
    by (simp only: ac_simps)
  also have "\<dots> = held (es_objects s) + held_by (Some other)" unfolding A B ..
  finally have "held_by (Some this) + held ?obs = held (es_objects s)" by (rule add_right_imp_eq)
  then have "pooled (es_pools s) + (held_by (Some this) + held ?obs) = mset_set (live (es_driver s))"
    using inv by (simp add: event_inv_def)
  from cuda_event_destroy_gives_back [OF api d _ _ _ this] inv assigned(1)
  show ?thesis by (simp add: event_inv_def)
qed

text \<open>A call of \<open>get\<close> that returns an event is a path of these steps.\<close>

lemma event_pool_get_steps:
  assumes "event_pool_get api (es_pools s) (es_driver s) = (Inr ob, ps, e)" "snd (ctx_get_current api (es_driver s)) = es_driver s"
  shows "(event_step api)\<^sup>*\<^sup>* s (s\<lparr>es_pools := ps, es_driver := e, es_objects := es_objects s @ [Some ob]\<rparr>)"
proof -
  obtain ctx ev where take: "ctx \<noteq> 0" "take_event ctx (es_pools s) = (ev, ps)" "ev_cuda_context ob = ctx"
    and ob: "ev \<noteq> 0 \<and> ob = \<lparr>ev_event = ev, ev_cuda_context = ctx\<rparr> \<and> e = es_driver s \<or>
             ev = 0 \<and> event_create api ctx (es_driver s) = (Inr (ev_event ob), e)"
    using assms by (auto simp: event_pool_get_def cuda_driver_try_def Let_def split: prod.splits sum.splits if_splits)
  show ?thesis
  proof (cases "ev = 0")
    case False
    have "event_step api s (s\<lparr>es_pools := ps, es_objects := es_objects s @ [Some \<lparr>ev_event = ev, ev_cuda_context = ctx\<rparr>]\<rparr>)"
      by (rule event_step.found [OF take(1,2) False])
    then show ?thesis using ob False by (auto intro: r_into_rtranclp)
  next
    case True
    let ?s = "s\<lparr>es_pools := ps, es_creating := ctx # es_creating s\<rparr>"
    have "event_step api s ?s" using event_step.missed [of ctx s ps] take True by simp
    moreover have "event_step api ?s (s\<lparr>es_pools := ps, es_driver := e, es_objects := es_objects s @ [Some ob]\<rparr>)"
      using event_step.created [of ctx ?s api "ev_event ob" e] ob True take(3) by (cases ob) simp
    ultimately show ?thesis by simp
  qed
qed


text \<open>A driver with two events, in a process whose only context is 7: one event is created, moved, and given back.\<close>

definition toy_events :: "(ptr \<times> ptr) list event_api" where
  "toy_events = \<lparr>pointer_memory_type = \<lambda>_ e. (Inr 2, e), pointer_context = \<lambda>_ e. (Inr 7, e), pointer_device_pointer = \<lambda>p e. (Inr p, e),
     pointer_device_ordinal = \<lambda>_ e. (Inr 0, e), ctx_get_current = \<lambda>e. (Inr 7, e), ctx_push_current = \<lambda>_ e. (Inr (), e),
     ctx_pop_current = \<lambda>e. (Inr (), e), device_get = \<lambda>i e. (Inr i, e), device_primary_ctx_retain = \<lambda>_ e. (Inr 7, e),
     mem_get_address_range = \<lambda>p e. (Inr (p, 1), e), stream_synchronize = \<lambda>_ e. (Inr (), e),
     event_create = \<lambda>c e. (if 1 \<notin> fst ` set e then (Inr 1, (1, c) # e) else if 2 \<notin> fst ` set e then (Inr 2, (2, c) # e) else (Inl 2, e)),
     event_destroy = \<lambda>v e. (Inr (), filter (\<lambda>x. fst x \<noteq> v) e),
     event_record = \<lambda>_ _ e. (Inr (), e), event_synchronize = \<lambda>_ e. (Inr (), e), event_query = \<lambda>_ e. (Inr (), e),
     stream_create = \<lambda>c e. (Inr 9, e)\<rparr>"

lemma toy_events_ok: "event_driver_ok toy_events set"
  by (auto simp: event_driver_ok_def toy_events_def)

lemma toy_events_run:
  "(event_step toy_events)\<^sup>*\<^sup>* (event_start [])
     \<lparr>es_pools = [(7, [1])], es_objects = [Some no_event, None], es_creating = [], es_driver = [(1, 7)]\<rparr>"
proof -
  let ?s = "\<lambda>ps obs cr e. \<lparr>es_pools = ps, es_objects = obs, es_creating = cr, es_driver = e\<rparr>"
  let ?ob = "\<lparr>ev_event = 1, ev_cuda_context = 7\<rparr> :: CudaEvent"
  have "event_step toy_events (event_start []) (?s [] [] [7] [])"
    using event_step.missed [of 7 "event_start []" "[]" toy_events] by (simp add: event_start_def)
  moreover have "event_step toy_events (?s [] [] [7] []) (?s [] [Some ?ob] [] [(1, 7)])"
    using event_step.created [of 7 "?s [] [] [7] []" toy_events 1 "[(1, 7)]"] by (simp add: toy_events_def)
  moreover have "event_step toy_events (?s [] [Some ?ob] [] [(1, 7)]) (?s [] [Some no_event, Some ?ob] [] [(1, 7)])"
    using event_step.moved [of 0 "?s [] [Some ?ob] [] [(1, 7)]" ?ob ?ob no_event toy_events] by (simp add: cuda_event_move_def)
  moreover have "event_step toy_events (?s [] [Some no_event, Some ?ob] [] [(1, 7)]) (?s [(7, [1])] [Some no_event, None] [] [(1, 7)])"
    using event_step.destroyed [of 1 "?s [] [Some no_event, Some ?ob] [] [(1, 7)]" ?ob toy_events Alloc_Ok "[(7, [1])]" "[(1, 7)]"]
    by (simp add: cuda_event_destroy_def event_pool_put_def)
  ultimately show ?thesis by (meson converse_rtranclp_into_rtranclp rtranclp.rtrancl_refl)
qed


end
