(* ===== verification/Event_Barrier.thy ===== *)
theory Event_Barrier
  imports Event_Pool
begin

text \<open>
  What a barrier of \<open>cpp/src/detail/io_event_barrier.cpp\<close> guarantees. The reactors enqueue copies on their
  streams and record after each one, all into one event per thread; the caller synchronizes the events
  once. Recording again forgets what an event captured before, so that the guarantee needs that a thread
  keeps to one stream and that no two threads share an event.
\<close>

section \<open>Work on streams\<close>

text \<open>
  What the driver promises of work: \<open>queued e s\<close> and \<open>completed e s\<close> count what was put on the stream \<open>s\<close>
  and what is done of it, in order; an event captures a stream and how much was queued on it; waiting
  for the event waits until that is done. Creating an event leaves the others alone.
\<close>

definition event_work_ok ::
  "('e, 'z) event_api_scheme \<Rightarrow> ('e \<Rightarrow> (ptr \<times> ptr) set) \<Rightarrow> ('e \<Rightarrow> ptr \<rightharpoonup> ptr \<times> nat) \<Rightarrow> ('e \<Rightarrow> ptr \<Rightarrow> nat) \<Rightarrow> ('e \<Rightarrow> ptr \<Rightarrow> nat) \<Rightarrow> bool"
where
  "event_work_ok api live captured queued completed \<longleftrightarrow>
     (\<forall>v s e. case event_record api v s e of (r, e') \<Rightarrow>
        live e' = live e \<and> queued e' = queued e \<and>
        captured e' = (case r of Inl _ \<Rightarrow> captured e | Inr _ \<Rightarrow> (captured e)(v \<mapsto> (s, queued e s)))) \<and>
     (\<forall>v e. case event_synchronize api v e of (r, e') \<Rightarrow>
        captured e' = captured e \<and> completed e \<le> completed e' \<and>
        (\<forall>s n. r = Inr () \<longrightarrow> captured e v = Some (s, n) \<longrightarrow> n \<le> completed e' s)) \<and>
     (\<forall>c e. case event_create api c e of (r, e') \<Rightarrow>
        queued e \<le> queued e' \<and> (\<forall>v \<in> fst ` live e. captured e' v = captured e v)) \<and>
     (\<forall>e. case ctx_get_current api e of (r, e') \<Rightarrow> queued e \<le> queued e' \<and> captured e' = captured e)"

lemma event_work_okD:
  assumes "event_work_ok api live captured queued completed"
  shows "event_record api v s e = (r, e') \<Longrightarrow> live e' = live e \<and> queued e' = queued e \<and>
        captured e' = (case r of Inl _ \<Rightarrow> captured e | Inr _ \<Rightarrow> (captured e)(v \<mapsto> (s, queued e s)))"
    and "event_synchronize api v e = (q, e') \<Longrightarrow> captured e' = captured e \<and> completed e \<le> completed e' \<and>
        (\<forall>s n. q = Inr () \<longrightarrow> captured e v = Some (s, n) \<longrightarrow> n \<le> completed e' s)"
    and "event_create api c e = (r', e') \<Longrightarrow> queued e \<le> queued e' \<and> (\<forall>v \<in> fst ` live e. captured e' v = captured e v)"
    and "ctx_get_current api e = (r', e') \<Longrightarrow> queued e \<le> queued e' \<and> captured e' = captured e"
proof -
  have "case event_record api v s e of (r, e') \<Rightarrow> live e' = live e \<and> queued e' = queued e \<and>
        captured e' = (case r of Inl _ \<Rightarrow> captured e | Inr _ \<Rightarrow> (captured e)(v \<mapsto> (s, queued e s)))"
    using assms [unfolded event_work_ok_def, THEN conjunct1] by (elim allE)
  then show "event_record api v s e = (r, e') \<Longrightarrow> live e' = live e \<and> queued e' = queued e \<and>
        captured e' = (case r of Inl _ \<Rightarrow> captured e | Inr _ \<Rightarrow> (captured e)(v \<mapsto> (s, queued e s)))" by simp
  have "case event_synchronize api v e of (r, e') \<Rightarrow> captured e' = captured e \<and> completed e \<le> completed e' \<and>
        (\<forall>s n. r = Inr () \<longrightarrow> captured e v = Some (s, n) \<longrightarrow> n \<le> completed e' s)"
    using assms [unfolded event_work_ok_def, THEN conjunct2, THEN conjunct1] by (elim allE)
  then show "event_synchronize api v e = (q, e') \<Longrightarrow> captured e' = captured e \<and> completed e \<le> completed e' \<and>
        (\<forall>s n. q = Inr () \<longrightarrow> captured e v = Some (s, n) \<longrightarrow> n \<le> completed e' s)" by simp
  have "case event_create api c e of (r, e') \<Rightarrow> queued e \<le> queued e' \<and> (\<forall>v \<in> fst ` live e. captured e' v = captured e v)"
    using assms [unfolded event_work_ok_def, THEN conjunct2, THEN conjunct2, THEN conjunct1] by (elim allE)
  then show "event_create api c e = (r', e') \<Longrightarrow> queued e \<le> queued e' \<and> (\<forall>v \<in> fst ` live e. captured e' v = captured e v)" by simp
  have "case ctx_get_current api e of (r, e') \<Rightarrow> queued e \<le> queued e' \<and> captured e' = captured e"
    using assms [unfolded event_work_ok_def, THEN conjunct2, THEN conjunct2, THEN conjunct2] by (elim allE)
  then show "ctx_get_current api e = (r', e') \<Longrightarrow> queued e \<le> queued e' \<and> captured e' = captured e" by simp
qed

section \<open>Events of a barrier\<close>

definition barrier_events :: "(nat \<times> CudaEvent) list \<Rightarrow> (ptr \<times> ptr) list" where
  "barrier_events evs = map (\<lambda>(_, ev). (ev_event ev, ev_cuda_context ev)) evs"

text \<open>The events of a barrier are its own: they exist, each once, and none is in the pool.\<close>

definition barrier_owns :: "('e \<Rightarrow> (ptr \<times> ptr) set) \<Rightarrow> (nat \<times> CudaEvent) list \<Rightarrow> event_pools \<Rightarrow> 'e \<Rightarrow> bool" where
  "barrier_owns live evs ps e \<longleftrightarrow>
     finite (live e) \<and> inj_on fst (live e) \<and> 0 \<notin> fst ` live e \<and> pooled ps + mset (barrier_events evs) \<subseteq># mset_set (live e)"

lemma barrier_owns_events:
  assumes "barrier_owns live evs ps e"
  shows "set (barrier_events evs) \<subseteq> live e" "set_mset (pooled ps) \<subseteq> live e" "distinct (map fst (barrier_events evs))"
    "(v, c) \<in># pooled ps \<Longrightarrow> v \<notin> set (map fst (barrier_events evs))"
proof -
  have fin: "finite (live e)" and inj: "inj_on fst (live e)"
    and sub: "pooled ps + mset (barrier_events evs) \<subseteq># mset_set (live e)"
    using assms by (simp_all add: barrier_owns_def)
  have "set_mset (pooled ps + mset (barrier_events evs)) \<subseteq> live e" using set_mset_mono [OF sub] fin by simp
  then show ev: "set (barrier_events evs) \<subseteq> live e" and po: "set_mset (pooled ps) \<subseteq> live e" by simp_all
  have le1: "count (pooled ps) x + count (mset (barrier_events evs)) x \<le> 1" for x
  proof -
    have "count (mset_set (live e)) x \<le> 1" by (simp add: count_mset_set')
    then show ?thesis using mset_subset_eq_count [OF sub, of x] unfolding count_union by linarith
  qed
  have "distinct (barrier_events evs)"
    using le1 by (metis (no_types, lifting) add_leD2 distinct_count_atmost_1 le_antisym One_nat_def not_less_eq_eq count_greater_eq_one_iff count_eq_zero_iff set_mset_mset)
  then show "distinct (map fst (barrier_events evs))" using ev inj by (simp add: distinct_map inj_on_subset)
  assume v: "(v, c) \<in># pooled ps"
  show "v \<notin> set (map fst (barrier_events evs))"
  proof
    assume "v \<in> set (map fst (barrier_events evs))"
    then obtain d where d: "(v, d) \<in> set (barrier_events evs)" by auto
    then have "c = d" using inj_onD [OF inj, of "(v, c)" "(v, d)"] v ev po by auto
    then have "count (mset (barrier_events evs)) (v, c) \<ge> 1" "count (pooled ps) (v, c) \<ge> 1" using d v by simp_all
    then show False using le1 [of "(v, c)"] by linarith
  qed
qed

lemma barrier_owns_gets:
  assumes api: "event_driver_ok api live" "event_work_ok api live captured queued completed"
    and own: "barrier_owns live evs ps e" and get: "event_pool_get api ps e = (r, ps', e')"
  shows "queued e \<le> queued e'" "\<And>v. v \<in> fst ` set (barrier_events evs) \<Longrightarrow> captured e' v = captured e v"
    "r = Inl x \<Longrightarrow> barrier_owns live evs ps' e'"
    "r = Inr ev \<Longrightarrow> barrier_owns live (evs @ [(tid, ev)]) ps' e' \<and> ev_event ev \<notin> set (map fst (barrier_events evs))"
proof -
  obtain q e1 where q: "ctx_get_current api e = (q, e1)" by (cases "ctx_get_current api e")
  note w1 = event_work_okD(4) [OF api(2) q]
  have live1: "live e1 = live e" using api(1) q unfolding event_driver_ok_def by (metis snd_conv)
  then have own1: "barrier_owns live evs ps e1" using own by (simp add: barrier_owns_def)
  note ev = barrier_owns_events [OF own1]
  have null: "0 \<notin># image_mset fst (pooled ps)" using ev(2) own1 by (auto simp: barrier_owns_def)
  consider (err) y where "r = Inl y" "ps' = ps" "e' = e1"
    | (free) ctx v where "take_event ctx ps = (v, ps')" "v \<noteq> 0" "r = Inr \<lparr>ev_event = v, ev_cuda_context = ctx\<rparr>" "e' = e1"
    | (new) ctx v where "take_event ctx ps = (0, ps')" "event_create api ctx e1 = (Inr v, e')" "r = Inr \<lparr>ev_event = v, ev_cuda_context = ctx\<rparr>"
    | (refused) ctx c y where "take_event ctx ps = (0, ps')" "event_create api ctx e1 = (Inl c, e')" "r = Inl y"
    using get q by (auto simp: event_pool_get_def cuda_driver_try_def Let_def split: prod.splits sum.splits if_splits)
  then have "queued e \<le> queued e' \<and> (\<forall>v \<in> fst ` set (barrier_events evs). captured e' v = captured e v) \<and>
     (case r of Inl _ \<Rightarrow> barrier_owns live evs ps' e'
      | Inr ob \<Rightarrow> barrier_owns live (evs @ [(tid, ob)]) ps' e' \<and> ev_event ob \<notin> set (map fst (barrier_events evs)))"
  proof cases
    case err
    then show ?thesis using own1 w1 by simp
  next
    case free
    have "pooled ps = add_mset (v, ctx) (pooled ps')" using pooled_take [OF free(1) null] free(2) by simp
    then have "barrier_owns live (evs @ [(tid, \<lparr>ev_event = v, ev_cuda_context = ctx\<rparr>)]) ps' e1" "(v, ctx) \<in># pooled ps"
      using own1 by (simp_all add: barrier_owns_def barrier_events_def)
    then show ?thesis using ev(4) free(3,4) w1 by simp
  next
    case new
    note made = event_driver_created [OF api(1) new(2)] and keeps = event_work_okD(3) [OF api(2) new(2)]
    have fresh: "(v, ctx) \<notin> live e1" "v \<notin> set (map fst (barrier_events evs))" using made(2) ev(1) by force+
    have "barrier_owns live (evs @ [(tid, \<lparr>ev_event = v, ev_cuda_context = ctx\<rparr>)]) ps' e'"
      using own1 made fresh pooled_take [OF new(1) null] by (auto simp: barrier_owns_def barrier_events_def)
    moreover have "\<forall>v \<in> fst ` set (barrier_events evs). captured e' v = captured e v" using keeps w1 ev(1) by auto
    ultimately show ?thesis using fresh(2) new(3) keeps w1 by (auto intro: order_trans)
  next
    case refused
    note keeps = event_work_okD(3) [OF api(2) refused(2)]
    have "barrier_owns live evs ps' e'"
      using own1 event_driver_not_created [OF api(1) refused(2)] pooled_take [OF refused(1) null] by (simp add: barrier_owns_def)
    moreover have "\<forall>v \<in> fst ` set (barrier_events evs). captured e' v = captured e v" using keeps w1 ev(1) by auto
    ultimately show ?thesis using refused(3) keeps w1 by (auto intro: order_trans)
  qed
  then show "queued e \<le> queued e'" "\<And>v. v \<in> fst ` set (barrier_events evs) \<Longrightarrow> captured e' v = captured e v"
    "r = Inl x \<Longrightarrow> barrier_owns live evs ps' e'"
    "r = Inr ev \<Longrightarrow> barrier_owns live (evs @ [(tid, ev)]) ps' e' \<and> ev_event ev \<notin> set (map fst (barrier_events evs))" by auto
qed

section \<open>Recording and waiting\<close>

text \<open>
  Threads record after their copies, the others of the process go on (they queue and complete work,
  take and give back events, but not those of this barrier). \<open>strm\<close> is the stream of each thread. The log
  holds, for each recording that succeeded, the stream and how much was queued on it.
\<close>

type_synonym 'e barrier_state = "IoEventBarrier \<times> event_pools \<times> 'e \<times> (ptr \<times> nat) list"

inductive barrier_step ::
  "('e, 'z) event_api_scheme \<Rightarrow> ('e \<Rightarrow> (ptr \<times> ptr) set) \<Rightarrow> ('e \<Rightarrow> ptr \<rightharpoonup> ptr \<times> nat) \<Rightarrow> ('e \<Rightarrow> ptr \<Rightarrow> nat) \<Rightarrow> (nat \<Rightarrow> ptr)
     \<Rightarrow> 'e barrier_state \<Rightarrow> 'e barrier_state \<Rightarrow> bool"
for api live captured queued strm where
  recorded: "io_barrier_record_event api a tid (strm tid) b ps e = (Inr (), b', ps', e') \<Longrightarrow>
    barrier_step api live captured queued strm (b, ps, e, log) (b', ps', e', (strm tid, queued e' (strm tid)) # log)"
| not_recorded: "io_barrier_record_event api a tid (strm tid) b ps e = (Inl x, b', ps', e') \<Longrightarrow>
    barrier_step api live captured queued strm (b, ps, e, log) (b', ps', e', log)"
| elsewhere: "barrier_owns live (ib_thread_events b) ps' e' \<Longrightarrow> queued e \<le> queued e' \<Longrightarrow>
    \<forall>v \<in> fst ` set (barrier_events (ib_thread_events b)). captured e' v = captured e v \<Longrightarrow>
    barrier_step api live captured queued strm (b, ps, e, log) (b, ps', e', log)"

text \<open>Every entry of the log is covered by the event of a thread that keeps to the stream.\<close>

definition covered :: "('e \<Rightarrow> ptr \<rightharpoonup> ptr \<times> nat) \<Rightarrow> ('e \<Rightarrow> ptr \<Rightarrow> nat) \<Rightarrow> (nat \<Rightarrow> ptr) \<Rightarrow> (nat \<times> CudaEvent) list \<Rightarrow> 'e \<Rightarrow> ptr \<times> nat \<Rightarrow> bool" where
  "covered captured queued strm evs e x \<longleftrightarrow>
     (\<exists>tid ob m. (tid, ob) \<in> set evs \<and> strm tid = fst x \<and> captured e (ev_event ob) = Some (fst x, m) \<and> snd x \<le> m \<and> m \<le> queued e (fst x))"

definition barrier_inv ::
  "('e \<Rightarrow> (ptr \<times> ptr) set) \<Rightarrow> ('e \<Rightarrow> ptr \<rightharpoonup> ptr \<times> nat) \<Rightarrow> ('e \<Rightarrow> ptr \<Rightarrow> nat) \<Rightarrow> (nat \<Rightarrow> ptr) \<Rightarrow> 'e barrier_state \<Rightarrow> bool"
where
  "barrier_inv live captured queued strm st =
     (case st of (b, ps, e, log) \<Rightarrow>
        distinct (map fst (ib_thread_events b)) \<and> barrier_owns live (ib_thread_events b) ps e \<and>
        (\<forall>x \<in> set log. covered captured queued strm (ib_thread_events b) e x))"

lemma covered_keeps:
  assumes "covered captured queued strm evs e x" "queued e \<le> queued e'" "set evs \<subseteq> set evs'"
    and "\<And>v. v \<in> fst ` set (barrier_events evs) \<Longrightarrow> captured e' v = captured e v"
  shows "covered captured queued strm evs' e' x"
proof -
  obtain tid ob m where ob: "(tid, ob) \<in> set evs" "strm tid = fst x" "captured e (ev_event ob) = Some (fst x, m)"
    "snd x \<le> m" "m \<le> queued e (fst x)" using assms(1) unfolding covered_def by blast
  have "ev_event ob \<in> fst ` set (barrier_events evs)" using ob(1) by (force simp: barrier_events_def)
  then have "captured e' (ev_event ob) = Some (fst x, m)" using assms(4) ob(3) by simp
  moreover have "m \<le> queued e' (fst x)" using ob(5) assms(2) by (meson le_funD order_trans)
  ultimately show ?thesis using ob(1,2,4) assms(3) unfolding covered_def by blast
qed

lemma slots_have_own_events:
  assumes "barrier_owns live evs ps e" "(t1, ob1) \<in> set evs" "(t2, ob2) \<in> set evs" "ev_event ob1 = ev_event ob2"
  shows "t1 = t2"
proof -
  have "map fst (barrier_events evs) = map (\<lambda>(_, ob). ev_event ob) evs" by (simp add: barrier_events_def case_prod_beta)
  then have "inj_on (\<lambda>(_, ob). ev_event ob) (set evs)"
    using barrier_owns_events(3) [OF assms(1)] by (metis distinct_map)
  from inj_onD [OF this, of "(t1, ob1)" "(t2, ob2)"] show ?thesis using assms(2-4) by simp
qed

lemma record_in_slot:
  assumes work: "event_work_ok api live captured queued completed"
    and own: "barrier_owns live evs ps e" and dist: "distinct (map fst evs)" and slot: "(tid, ob) \<in> set evs"
    and rec: "cuda_event_record api ob (strm tid) e = (r, e')"
  shows "barrier_owns live evs ps e'"
    "covered captured queued strm evs e x \<Longrightarrow> covered captured queued strm evs e' x"
    "r = Inr () \<Longrightarrow> covered captured queued strm evs e' (strm tid, queued e' (strm tid))"
proof -
  let ?s = "strm tid"
  obtain q where q: "event_record api (ev_event ob) ?s e = (q, e')" and rq: "r = Inr () \<Longrightarrow> \<exists>u. q = Inr u"
    using rec by (auto simp: cuda_event_record_def cuda_driver_try_def split: prod.splits sum.splits)
  note rec' = event_work_okD(1) [OF work q]
  show "barrier_owns live evs ps e'" using own rec' by (simp add: barrier_owns_def)
  show "covered captured queued strm evs e' (?s, queued e' ?s)" if "r = Inr ()"
    using rec' rq [OF that] slot unfolding covered_def by auto
  show "covered captured queued strm evs e' x" if cov: "covered captured queued strm evs e x"
  proof (cases "isl q")
    case True
    then have "captured e' = captured e" "queued e' = queued e" using rec' by (auto simp: isl_def)
    then show ?thesis using cov by (simp add: covered_def)
  next
    case False
    then have cap: "captured e' = (captured e)(ev_event ob \<mapsto> (?s, queued e ?s))" using rec' by (cases q) simp_all
    obtain t ob2 m where c: "(t, ob2) \<in> set evs" "strm t = fst x" "captured e (ev_event ob2) = Some (fst x, m)"
      "snd x \<le> m" "m \<le> queued e (fst x)" using cov unfolding covered_def by blast
    show ?thesis
    proof (cases "ev_event ob2 = ev_event ob")
      case True
      then have "t = tid" using slots_have_own_events [OF own c(1) slot] by simp
      then show ?thesis using c cap rec' slot unfolding covered_def by (auto intro!: exI [of _ tid])
    next
      case False
      then have "captured e' (ev_event ob2) = Some (fst x, m)" "m \<le> queued e' (fst x)" using c(3,5) cap rec' by simp_all
      then show ?thesis using c(1,2,4) unfolding covered_def by blast
    qed
  qed
qed

lemma barrier_inv_record:
  assumes api: "event_driver_ok api live" and work: "event_work_ok api live captured queued completed"
    and inv: "barrier_inv live captured queued strm (b, ps, e, log)"
    and rec: "io_barrier_record_event api a tid (strm tid) b ps e = (r, b', ps', e')"
  shows "barrier_inv live captured queued strm (b', ps', e', log)"
    "r = Inr () \<Longrightarrow> covered captured queued strm (ib_thread_events b') e' (strm tid, queued e' (strm tid))"
proof -
  let ?evs = "ib_thread_events b" and ?cov = "covered captured queued strm"
  have own: "barrier_owns live ?evs ps e" and dist: "distinct (map fst ?evs)" and cov: "\<forall>x \<in> set log. ?cov ?evs e x"
    using inv by (simp_all add: barrier_inv_def)
  have "barrier_inv live captured queued strm (b', ps', e', log) \<and>
      (r = Inr () \<longrightarrow> ?cov (ib_thread_events b') e' (strm tid, queued e' (strm tid)))"
  proof (cases "map_of ?evs tid")
    case (Some ob)
    have r: "cuda_event_record api ob (strm tid) e = (r, e')" "b' = b" "ps' = ps"
      using rec Some by (auto simp: io_barrier_record_event_def split: prod.splits)
    note s = record_in_slot [where strm = strm, OF work own dist map_of_SomeD [OF Some] r(1)]
    show ?thesis using s cov dist r(2,3) by (simp add: barrier_inv_def)
  next
    case None
    obtain g ps1 e1 where g: "event_pool_get api ps e = (g, ps1, e1)" by (metis prod_cases3)
    note got = barrier_owns_gets [OF api work own g]
    have cov1: "?cov evs' e1 x" if "x \<in> set log" "set ?evs \<subseteq> set evs'" for evs' x
      by (rule covered_keeps [OF bspec [OF cov that(1)] got(1) that(2) got(2)])
    show ?thesis
    proof (cases g)
      case (Inl x)
      then show ?thesis using rec None g got(3) dist cov1 by (auto simp: io_barrier_record_event_def barrier_inv_def)
    next
      case (Inr ob)
      let ?evs' = "?evs @ [(tid, ob)]"
      have r: "cuda_event_record api ob (strm tid) e1 = (r, e')" "b' = b\<lparr>ib_thread_events := ?evs'\<rparr>" "ps' = ps1"
        using rec None g Inr by (auto simp: io_barrier_record_event_def emplace_event_def split: prod.splits)
      have dist': "distinct (map fst ?evs')" using dist None by (simp add: map_of_eq_None_iff)
      have own': "barrier_owns live ?evs' ps1 e1" using got(4) [OF Inr] by simp
      have "(tid, ob) \<in> set ?evs'" by simp
      note s = record_in_slot [where strm = strm, OF work own' dist' this r(1)]
      have "\<forall>x \<in> set log. ?cov ?evs' e' x" using s(2) cov1 [of _ ?evs'] by auto
      then show ?thesis using s(1,3) dist' r(2,3) by (simp add: barrier_inv_def)
    qed
  qed
  then show "barrier_inv live captured queued strm (b', ps', e', log)"
    "r = Inr () \<Longrightarrow> ?cov (ib_thread_events b') e' (strm tid, queued e' (strm tid))" by simp_all
qed

lemma barrier_inv_step:
  assumes "event_driver_ok api live" "event_work_ok api live captured queued completed"
    and "barrier_step api live captured queued strm st st'" "barrier_inv live captured queued strm st"
  shows "barrier_inv live captured queued strm st'"
  using assms(3)
proof cases
  case (recorded a tid b ps e b' ps' e' log)
  have "barrier_inv live captured queued strm (b, ps, e, log)" using assms(4) recorded(1) by simp
  from barrier_inv_record [OF assms(1,2) this recorded(3)] show ?thesis using recorded(2) by (simp add: barrier_inv_def)
next
  case (not_recorded a tid b ps e x b' ps' e' log)
  have "barrier_inv live captured queued strm (b, ps, e, log)" using assms(4) not_recorded(1) by simp
  from barrier_inv_record(1) [OF assms(1,2) this not_recorded(3)] show ?thesis using not_recorded(2) by simp
next
  case (elsewhere b ps' e' e ps log)
  have "covered captured queued strm (ib_thread_events b) e' x" if "x \<in> set log" for x
    by (rule covered_keeps [where e = e]) (use assms(4) elsewhere that in \<open>auto simp: barrier_inv_def\<close>)
  then show ?thesis using assms(4) elsewhere by (simp add: barrier_inv_def)
qed

lemma sync_events_waits:
  assumes work: "event_work_ok api live captured queued completed" and "sync_events api obs e = (Inr (), e')"
  shows "captured e' = captured e" "completed e \<le> completed e'"
    "ob \<in> set obs \<Longrightarrow> captured e (ev_event ob) = Some (s, n) \<Longrightarrow> n \<le> completed e' s"
proof -
  have "captured e' = captured e \<and> completed e \<le> completed e' \<and>
    (ob \<in> set obs \<longrightarrow> captured e (ev_event ob) = Some (s, n) \<longrightarrow> n \<le> completed e' s)"
    using assms(2)
  proof (induction obs arbitrary: e)
    case (Cons o1 obs)
    obtain u e1 where one: "event_synchronize api (ev_event o1) e = (Inr u, e1)" and rest: "sync_events api obs e1 = (Inr (), e')"
      using Cons.prems by (auto simp: cuda_event_synchronize_def cuda_driver_try_def split: prod.splits sum.splits)
    note w = event_work_okD(2) [OF work one]
    from Cons.IH [OF rest] w show ?case by (auto simp: le_fun_def intro: order_trans)
  qed simp
  then show "captured e' = captured e" "completed e \<le> completed e'"
    "ob \<in> set obs \<Longrightarrow> captured e (ev_event ob) = Some (s, n) \<Longrightarrow> n \<le> completed e' s" by blast+
qed

text \<open>
  C22. A caller that has waited on the barrier of a read has waited for all its copies: however the reactors
  record into their events, each on its own stream, while others use the pool and the streams, once
  \<open>sync_all_events\<close> returns, all that was queued on the stream of a reactor when it recorded is done, for
  every recording and not only the last one of a thread.
\<close>

theorem barrier_covers_every_record:
  assumes "event_driver_ok api live" "event_work_ok api live captured queued completed"
    and "barrier_owns live [] ps0 e0"
    and "(barrier_step api live captured queued strm)\<^sup>*\<^sup>* (new_io_event_barrier ctx, ps0, e0, []) (b, ps, e, log)"
    and "sync_all_events api b e = (Inr (), e')" and "(stream, n) \<in> set log"
  shows "n \<le> completed e' stream"
proof -
  have "barrier_inv live captured queued strm (b, ps, e, log)"
    using assms(4)
  proof (induction rule: rtranclp_induct)
    case base
    show ?case using assms(3) by (simp add: barrier_inv_def new_io_event_barrier_def)
  qed (rule barrier_inv_step [OF assms(1,2)])
  then obtain tid ob m where c: "(tid, ob) \<in> set (ib_thread_events b)" "captured e (ev_event ob) = Some (stream, m)" "n \<le> m"
    using assms(6) by (fastforce simp: barrier_inv_def covered_def)
  have "ob \<in> set (map snd (ib_thread_events b))" using c(1) by force
  from sync_events_waits(3) [OF assms(2) assms(5) [unfolded sync_all_events_def] this c(2)] c(3) show ?thesis by simp
qed

text \<open>
  A device with two events, on which waiting for an event completes what it captured. Two copies are queued
  on the stream 9 when thread 3 records.
\<close>

record toy_gpu =
  gpu_live :: "(ptr \<times> ptr) list"
  gpu_captured :: "ptr \<rightharpoonup> ptr \<times> nat"
  gpu_queued :: "ptr \<Rightarrow> nat"
  gpu_completed :: "ptr \<Rightarrow> nat"

definition toy_wait :: "ptr \<Rightarrow> toy_gpu \<Rightarrow> toy_gpu" where
  "toy_wait v e = (case gpu_captured e v of
     None \<Rightarrow> e | Some (s, n) \<Rightarrow> e\<lparr>gpu_completed := (gpu_completed e)(s := max n (gpu_completed e s))\<rparr>)"

definition toy_create :: "ptr \<Rightarrow> toy_gpu \<Rightarrow> (int + ptr) \<times> toy_gpu" where
  "toy_create c e =
     (if 1 \<notin> fst ` set (gpu_live e) then (Inr 1, e\<lparr>gpu_live := (1, c) # gpu_live e\<rparr>)
      else if 2 \<notin> fst ` set (gpu_live e) then (Inr 2, e\<lparr>gpu_live := (2, c) # gpu_live e\<rparr>)
      else (Inl 2, e))"

definition toy_work :: "toy_gpu event_api" where
  "toy_work = \<lparr>pointer_memory_type = \<lambda>_ e. (Inr 2, e), pointer_context = \<lambda>_ e. (Inr 7, e), pointer_device_pointer = \<lambda>p e. (Inr p, e),
     pointer_device_ordinal = \<lambda>_ e. (Inr 0, e), ctx_get_current = \<lambda>e. (Inr 7, e), ctx_push_current = \<lambda>_ e. (Inr (), e),
     ctx_pop_current = \<lambda>e. (Inr (), e), device_get = \<lambda>i e. (Inr i, e), device_primary_ctx_retain = \<lambda>_ e. (Inr 7, e),
     mem_get_address_range = \<lambda>p e. (Inr (p, 1), e), stream_synchronize = \<lambda>_ e. (Inr (), e), event_create = toy_create,
     event_destroy = \<lambda>v e. (Inr (), e\<lparr>gpu_live := filter (\<lambda>x. fst x \<noteq> v) (gpu_live e)\<rparr>),
     event_record = \<lambda>v s e. (Inr (), e\<lparr>gpu_captured := (gpu_captured e)(v \<mapsto> (s, gpu_queued e s))\<rparr>),
     event_synchronize = \<lambda>v e. (Inr (), toy_wait v e), event_query = \<lambda>_ e. (Inr (), e), stream_create = \<lambda>c e. (Inr 9, e)\<rparr>"

definition toy_gpu0 :: toy_gpu where
  "toy_gpu0 = \<lparr>gpu_live = [], gpu_captured = Map.empty, gpu_queued = (\<lambda>_. 0)(9 := 2), gpu_completed = \<lambda>_. 0\<rparr>"

definition toy_recorded :: "unit res \<times> IoEventBarrier \<times> event_pools \<times> toy_gpu" where
  "toy_recorded = io_barrier_record_event toy_work Alloc_Ok 3 9 (new_io_event_barrier 7) [] toy_gpu0"

definition toy_captured :: toy_gpu where
  "toy_captured = toy_gpu0\<lparr>gpu_live := [(1, 7)], gpu_captured := [1 \<mapsto> (9, 2)]\<rparr>"

lemma toy_work_ok: "event_driver_ok toy_work (set \<circ> gpu_live)"
  by (auto simp: event_driver_ok_def toy_work_def toy_create_def)

lemma toy_work_captures: "event_work_ok toy_work (set \<circ> gpu_live) gpu_captured gpu_queued gpu_completed"
  by (auto simp: event_work_ok_def toy_work_def toy_create_def toy_wait_def le_fun_def split: option.splits)

lemma toy_recorded_eq:
  "toy_recorded = (Inr (), \<lparr>ib_cuda_context = 7, ib_thread_events = [(3, \<lparr>ev_event = 1, ev_cuda_context = 7\<rparr>)]\<rparr>, [], toy_captured)"
  by (simp add: toy_recorded_def io_barrier_record_event_def new_io_event_barrier_def event_pool_get_def toy_work_def toy_create_def
      toy_gpu0_def toy_captured_def emplace_event_def cuda_event_record_def)

theorem barrier_covers_every_record_witness:
  "event_driver_ok toy_work (set \<circ> gpu_live) \<and> event_work_ok toy_work (set \<circ> gpu_live) gpu_captured gpu_queued gpu_completed \<and>
   2 \<le> gpu_completed (snd (sync_all_events toy_work (fst (snd toy_recorded)) toy_captured)) 9"
proof -
  let ?b = "fst (snd toy_recorded)"
  have "barrier_step toy_work (set \<circ> gpu_live) gpu_captured gpu_queued (\<lambda>_. 9) (new_io_event_barrier 7, [], toy_gpu0, [])
      (?b, [], toy_captured, [(9, gpu_queued toy_captured 9)])"
    by (rule barrier_step.recorded [where tid = 3 and a = Alloc_Ok]) (simp add: toy_recorded_def [symmetric] toy_recorded_eq)
  then have run: "(barrier_step toy_work (set \<circ> gpu_live) gpu_captured gpu_queued (\<lambda>_. 9))\<^sup>*\<^sup>*
      (new_io_event_barrier 7, [], toy_gpu0, []) (?b, [], toy_captured, [(9, gpu_queued toy_captured 9)])" by (rule r_into_rtranclp)
  have own: "barrier_owns (set \<circ> gpu_live) [] [] toy_gpu0" by (simp add: barrier_owns_def toy_gpu0_def pooled_def barrier_events_def)
  have sync: "sync_all_events toy_work ?b toy_captured = (Inr (), snd (sync_all_events toy_work ?b toy_captured))"
    by (simp add: sync_all_events_def toy_recorded_eq cuda_event_synchronize_def toy_work_def)
  from barrier_covers_every_record [OF toy_work_ok toy_work_captures own run sync, of 9 "gpu_queued toy_captured 9"]
  show ?thesis using toy_work_ok toy_work_captures by (simp add: toy_captured_def toy_gpu0_def)
qed

end
