(* ===== verification/Curl_Setup.thy ===== *)
theory Curl_Setup
  imports Defaults
begin

text \<open>
  How a curl handle is set up: the DNS caches that threads share (\<open>cpp/src/detail/curl_share.cpp\<close>), the
  search for CA certificates (\<open>cpp/src/detail/tls.cpp\<close>) and the constructor of \<open>CurlHandle\<close> in
  \<open>cpp/src/shim/libcurl.cpp\<close>. libcurl's calls are parameters that act on an outside state. The environment
  does not change while the process runs, so that a value read once is the value read each time.
\<close>

section \<open>Share handles\<close>

datatype share_option = CURLSHOPT_LOCKFUNC | CURLSHOPT_UNLOCKFUNC | CURLSHOPT_USERDATA | CURLSHOPT_SHARE_DNS

record 'e share_api =
  curl_share_init :: "'e \<Rightarrow> ptr \<times> 'e"
  curl_share_setopt :: "ptr \<Rightarrow> share_option \<Rightarrow> 'e \<Rightarrow> int \<times> 'e"

fun share_set_options :: "'e share_api \<Rightarrow> ptr \<Rightarrow> share_option list \<Rightarrow> 'e \<Rightarrow> unit res \<times> 'e" where
  "share_set_options api sh [] e = (Inr (), e)"
| "share_set_options api sh (opt # opts) e =
     (let (sc, e1) = curl_share_setopt api sh opt e
      in if sc = 0 then share_set_options api sh opts e1 else (Inl Runtime_Error, e1))"

text \<open>The constructor of \<open>CurlShareHandle\<close>; the result is the libcurl handle.\<close>

definition new_curl_share_handle :: "'e share_api \<Rightarrow> 'e \<Rightarrow> ptr res \<times> 'e" where
  "new_curl_share_handle api e =
     (let (sh, e1) = curl_share_init api e in
      if sh = 0 then (Inl Runtime_Error, e1)
      else case share_set_options api sh [CURLSHOPT_LOCKFUNC, CURLSHOPT_UNLOCKFUNC, CURLSHOPT_USERDATA, CURLSHOPT_SHARE_DNS] e1 of
             (Inl x, e2) \<Rightarrow> (Inl x, e2)
           | (Inr _, e2) \<Rightarrow> (Inr sh, e2))"

text \<open>The mutexes of a share handle, one for each kind of data. A callback on a locked mutex waits.\<close>

definition lock_callback :: "nat \<Rightarrow> (nat \<Rightarrow> bool) \<Rightarrow> (nat \<Rightarrow> bool) option" where
  "lock_callback data mutexes = (if mutexes data then None else Some (mutexes(data := True)))"

definition unlock_callback :: "nat \<Rightarrow> (nat \<Rightarrow> bool) \<Rightarrow> (nat \<Rightarrow> bool)" where
  "unlock_callback data mutexes = mutexes(data := False)"

section \<open>The registry\<close>

record share_cache =
  sc_handle :: ptr
  sc_num_threads :: size_t

record CurlShareRegistry =
  sr_max_threads_per_cache :: size_t
  sr_caches :: "share_cache list"

definition new_share_registry :: "size_t \<Rightarrow> CurlShareRegistry res" where
  "new_share_registry n =
     bind_res (kvikio_expect (n > 0) Invalid_Argument) (\<lambda>_. Inr \<lparr>sr_max_threads_per_cache = n, sr_caches = []\<rparr>)"

fun take_slot :: "size_t \<Rightarrow> share_cache list \<Rightarrow> (ptr \<times> share_cache list) option" where
  "take_slot n [] = None"
| "take_slot n (c # cs) =
     (if sc_num_threads c < n then Some (sc_handle c, c\<lparr>sc_num_threads := sc_num_threads c + 1\<rparr> # cs)
      else map_option (\<lambda>(h, cs'). (h, c # cs')) (take_slot n cs))"

text \<open>\<open>addr\<close> is the address at which a new \<open>CurlShareHandle\<close> is allocated.\<close>

definition share_acquire :: "'e share_api \<Rightarrow> ptr \<Rightarrow> CurlShareRegistry \<Rightarrow> 'e \<Rightarrow> ptr res \<times> CurlShareRegistry \<times> 'e" where
  "share_acquire api addr sr e =
     (case take_slot (sr_max_threads_per_cache sr) (sr_caches sr) of
        Some (h, cs) \<Rightarrow> (Inr h, sr\<lparr>sr_caches := cs\<rparr>, e)
      | None \<Rightarrow>
          (case new_curl_share_handle api e of
             (Inl x, e1) \<Rightarrow> (Inl x, sr, e1)
           | (Inr _, e1) \<Rightarrow> (Inr addr, sr\<lparr>sr_caches := sr_caches sr @ [\<lparr>sc_handle = addr, sc_num_threads = 1\<rparr>]\<rparr>, e1)))"

fun give_slot :: "ptr \<Rightarrow> share_cache list \<Rightarrow> share_cache list" where
  "give_slot h [] = []"
| "give_slot h (c # cs) =
     (if sc_handle c = h then c\<lparr>sc_num_threads := sc_num_threads c - 1\<rparr> # cs else c # give_slot h cs)"

definition share_release :: "ptr \<Rightarrow> CurlShareRegistry \<Rightarrow> CurlShareRegistry" where
  "share_release h sr = sr\<lparr>sr_caches := give_slot h (sr_caches sr)\<rparr>"

definition num_caches :: "CurlShareRegistry \<Rightarrow> size_t" where
  "num_caches sr = of_nat (length (sr_caches sr))"

definition max_threads_per_cache :: "environment \<Rightarrow> size_t res" where
  "max_threads_per_cache env =
     bind_res (getenv_int 64 env ''KVIKIO_REMOTE_MAX_THREADS_PER_DNS_CACHE'' 16) (\<lambda>n.
     bind_res (kvikio_expect (n \<ge> 0) Invalid_Argument) (\<lambda>_. Inr (max (of_int n) 1)))"

text \<open>
  The threads of a process and the caches they are assigned to. The registry exists from the first use on.
  A thread asks for its share handle on its first use and keeps it; its assignment is given back when it
  exits.
\<close>

record 'e share_state =
  ss_registry :: "CurlShareRegistry option"
  ss_assigned :: "nat \<rightharpoonup> ptr"
  ss_driver :: 'e

definition share_handle_for_current_thread ::
  "'e share_api \<Rightarrow> environment \<Rightarrow> nat \<Rightarrow> ptr \<Rightarrow> 'e share_state \<Rightarrow> ptr res \<times> 'e share_state"
where
  "share_handle_for_current_thread api env tid addr s =
     (case (case ss_registry s of Some sr \<Rightarrow> Inr sr | None \<Rightarrow> bind_res (max_threads_per_cache env) new_share_registry) of
        Inl x \<Rightarrow> (Inl x, s)
      | Inr sr \<Rightarrow>
          (case ss_assigned s tid of
             Some h \<Rightarrow> (Inr h, s\<lparr>ss_registry := Some sr\<rparr>)
           | None \<Rightarrow>
               (case share_acquire api addr sr (ss_driver s) of
                  (Inl x, sr1, e1) \<Rightarrow> (Inl x, s\<lparr>ss_registry := Some sr1, ss_driver := e1\<rparr>)
                | (Inr h, sr1, e1) \<Rightarrow>
                    (Inr h, s\<lparr>ss_registry := Some sr1, ss_assigned := (ss_assigned s)(tid \<mapsto> h), ss_driver := e1\<rparr>))))"

definition thread_exits :: "nat \<Rightarrow> 'e share_state \<Rightarrow> 'e share_state" where
  "thread_exits tid s =
     (case ss_assigned s tid of
        None \<Rightarrow> s
      | Some h \<Rightarrow> s\<lparr>ss_registry := map_option (share_release h) (ss_registry s), ss_assigned := (ss_assigned s)(tid := None)\<rparr>)"

section \<open>Certificates\<close>

fun find_ca_path_from_env_var :: "environment \<Rightarrow> string list \<Rightarrow> string option" where
  "find_ca_path_from_env_var env [] = None"
| "find_ca_path_from_env_var env (v # vs) = (case env v of Some p \<Rightarrow> Some p | None \<Rightarrow> find_ca_path_from_env_var env vs)"

fun find_ca_path_in_system_locations :: "(string \<Rightarrow> bool) \<Rightarrow> string list \<Rightarrow> string option" where
  "find_ca_path_in_system_locations readable [] = None"
| "find_ca_path_in_system_locations readable (p # ps) =
     (if readable p then Some p else find_ca_path_in_system_locations readable ps)"

definition get_ca_path_from_curl_defaults :: "(string \<Rightarrow> bool) \<Rightarrow> string option \<Rightarrow> string option" where
  "get_ca_path_from_curl_defaults readable default_path =
     (case default_path of Some p \<Rightarrow> if readable p then Some p else None | None \<Rightarrow> None)"

definition system_bundles :: "string list" where
  "system_bundles =
     [''/etc/ssl/certs/ca-certificates.crt'', ''/etc/pki/tls/certs/ca-bundle.crt'', ''/etc/ssl/ca-bundle.pem'',
      ''/etc/pki/tls/cert.pem'', ''/etc/pki/ca-trust/extracted/pem/tls-ca-bundle.pem'',
      ''/usr/share/ssl/certs/ca-bundle.crt'', ''/usr/local/share/certs/ca-root-nss.crt'', ''/etc/ssl/cert.pem'']"

definition system_directories :: "string list" where
  "system_directories = [''/etc/ssl/certs'', ''/etc/pki/tls/certs'']"

text \<open>
  \<open>version_info\<close> holds the paths libcurl was built with; nothing if libcurl does not tell. The result
  is a bundle file and a directory, of which one is found.
\<close>

definition get_ca_paths ::
  "environment \<Rightarrow> (string \<Rightarrow> bool) \<Rightarrow> (string option \<times> string option) option \<Rightarrow> (string option \<times> string option) res"
where
  "get_ca_paths env readable version_info =
     (case version_info of
        None \<Rightarrow> Inl Runtime_Error
      | Some (cainfo, capath) \<Rightarrow>
          (case find_ca_path_from_env_var env [''CURL_CA_BUNDLE'', ''SSL_CERT_FILE''] of
             Some p \<Rightarrow> Inr (Some p, None)
           | None \<Rightarrow>
          (case find_ca_path_from_env_var env [''SSL_CERT_DIR''] of
             Some p \<Rightarrow> Inr (None, Some p)
           | None \<Rightarrow>
          (case find_ca_path_in_system_locations readable system_bundles of
             Some p \<Rightarrow> Inr (Some p, None)
           | None \<Rightarrow>
          (case find_ca_path_in_system_locations readable system_directories of
             Some p \<Rightarrow> Inr (None, Some p)
           | None \<Rightarrow>
          (case get_ca_path_from_curl_defaults readable cainfo of
             Some p \<Rightarrow> Inr (Some p, None)
           | None \<Rightarrow>
          (case get_ca_path_from_curl_defaults readable capath of
             Some p \<Rightarrow> Inr (None, Some p)
           | None \<Rightarrow> Inl Runtime_Error)))))))"

section \<open>The constructor of a curl handle\<close>

datatype curl_option =
    CURLOPT_NOSIGNAL int
  | CURLOPT_ERRORBUFFER
  | CURLOPT_FAILONERROR int
  | CURLOPT_TIMEOUT int
  | CURLOPT_SHARE ptr
  | CURLOPT_VERBOSE int
  | CURLOPT_BUFFERSIZE int
  | CURLOPT_INTERFACE string
  | CURLOPT_CAINFO "string option"
  | CURLOPT_CAPATH "string option"

definition ca_options :: "string option \<times> string option \<Rightarrow> curl_option list" where
  "ca_options paths =
     (case paths of
        (Some p, _) \<Rightarrow> [CURLOPT_CAINFO (Some p), CURLOPT_CAPATH None]
      | (None, Some d) \<Rightarrow> [CURLOPT_CAINFO None, CURLOPT_CAPATH (Some d)]
      | (None, None) \<Rightarrow> [])"

fun curl_setopts :: "(curl_option \<Rightarrow> 'e \<Rightarrow> int \<times> 'e) \<Rightarrow> curl_option list \<Rightarrow> 'e \<Rightarrow> unit res \<times> 'e" where
  "curl_setopts setopt [] e = (Inr (), e)"
| "curl_setopts setopt (opt # opts) e =
     (let (err, e1) = setopt opt e in if err = 0 then curl_setopts setopt opts e1 else (Inl Runtime_Error, e1))"

definition set_up_ca_paths ::
  "(curl_option \<Rightarrow> 'e \<Rightarrow> int \<times> 'e) \<Rightarrow> (string option \<times> string option) res \<Rightarrow> 'e \<Rightarrow> unit res \<times> 'e"
where
  "set_up_ca_paths setopt paths e = (case paths of Inl x \<Rightarrow> (Inl x, e) | Inr p \<Rightarrow> curl_setopts setopt (ca_options p) e)"

definition CURL_MAX_WRITE_SIZE :: int where "CURL_MAX_WRITE_SIZE = 16384"

definition buffer_size_setting :: "int \<Rightarrow> environment \<Rightarrow> int res" where
  "buffer_size_setting max_read_size env =
     bind_res (getenv_int 64 env ''KVIKIO_REMOTE_IO_BUFFER_SIZE'' CURL_MAX_WRITE_SIZE) (\<lambda>n.
     bind_res (kvikio_expect (1024 \<le> n \<and> n \<le> max_read_size) Invalid_Argument) (\<lambda>_. Inr n))"

text \<open>
  The options in the order of the constructor. \<open>shared\<close> is the share handle of the thread, asked for only
  when the caches are shared; \<open>max_read_size\<close> is libcurl's largest receive buffer.
\<close>

definition curl_handle_stages ::
  "environment \<Rightarrow> int \<Rightarrow> int \<Rightarrow> bool \<Rightarrow> ptr res \<Rightarrow> (string option \<times> string option) res \<Rightarrow> curl_option list res list"
where
  "curl_handle_stages env http_timeout max_read_size use_shared_dns_cache shared paths =
     [Inr [CURLOPT_NOSIGNAL 1, CURLOPT_ERRORBUFFER, CURLOPT_FAILONERROR 1, CURLOPT_TIMEOUT http_timeout],
      bind_res (if use_shared_dns_cache then getenv_bool env ''KVIKIO_REMOTE_SHARE_DNS_CACHE'' True else Inr False)
        (\<lambda>share_dns_cache. if share_dns_cache then bind_res shared (\<lambda>sh. Inr [CURLOPT_SHARE sh]) else Inr [CURLOPT_SHARE 0]),
      bind_res (getenv_bool env ''KVIKIO_REMOTE_VERBOSE'' False) (\<lambda>verbose. Inr (if verbose then [CURLOPT_VERBOSE 1] else [])),
      bind_res (buffer_size_setting max_read_size env) (\<lambda>n. Inr [CURLOPT_BUFFERSIZE n]),
      Inr (case env ''KVIKIO_REMOTE_IO_INTERFACE'' of Some v \<Rightarrow> if v = [] then [] else [CURLOPT_INTERFACE v] | None \<Rightarrow> []),
      bind_res paths (\<lambda>p. Inr (ca_options p))]"

fun run_stages :: "(curl_option \<Rightarrow> 'e \<Rightarrow> int \<times> 'e) \<Rightarrow> curl_option list res list \<Rightarrow> 'e \<Rightarrow> unit res \<times> 'e" where
  "run_stages setopt [] e = (Inr (), e)"
| "run_stages setopt (Inl x # stages) e = (Inl x, e)"
| "run_stages setopt (Inr opts # stages) e =
     (case curl_setopts setopt opts e of (Inl x, e1) \<Rightarrow> (Inl x, e1) | (Inr _, e1) \<Rightarrow> run_stages setopt stages e1)"

definition new_curl_handle ::
  "(curl_option \<Rightarrow> 'e \<Rightarrow> int \<times> 'e) \<Rightarrow> environment \<Rightarrow> int \<Rightarrow> int \<Rightarrow> bool \<Rightarrow> ptr res \<Rightarrow> (string option \<times> string option) res \<Rightarrow> 'e
     \<Rightarrow> unit res \<times> 'e"
where
  "new_curl_handle setopt env http_timeout max_read_size use_shared_dns_cache shared paths e =
     run_stages setopt (curl_handle_stages env http_timeout max_read_size use_shared_dns_cache shared paths) e"

section \<open>What is found and set\<close>

text \<open>
  One kind of path is found, or the search fails; a path that does not come from the environment can be
  read. The handle then verifies against that path alone.
\<close>

lemma find_env_Some: "find_ca_path_from_env_var env vs = Some p \<Longrightarrow> \<exists>v \<in> set vs. env v = Some p"
  by (induction vs) (auto split: option.splits)

lemma find_system_Some: "find_ca_path_in_system_locations readable ps = Some p \<Longrightarrow> p \<in> set ps \<and> readable p"
  by (induction ps) (auto split: if_splits)

lemma get_ca_paths_one:
  assumes "get_ca_paths env readable vi = Inr (b, d)"
  shows "(b = None) \<noteq> (d = None)" "b = Some p \<or> d = Some p \<Longrightarrow> readable p \<or> (\<exists>v. env v = Some p)"
proof -
  have "((b = None) \<noteq> (d = None)) \<and> (b = Some p \<or> d = Some p \<longrightarrow> readable p \<or> (\<exists>v. env v = Some p))"
    using assms
    by (auto simp: get_ca_paths_def get_ca_path_from_curl_defaults_def simp del: find_ca_path_from_env_var.simps find_ca_path_in_system_locations.simps
        dest!: find_env_Some find_system_Some split: option.splits prod.splits if_splits) metis+
  then show "(b = None) \<noteq> (d = None)" "b = Some p \<or> d = Some p \<Longrightarrow> readable p \<or> (\<exists>v. env v = Some p)" by blast+
qed

section \<open>Threads and caches\<close>

text \<open>
  Threads use their share handle and exit, in any order; a cache that is created lies at an address of its
  own. The number beside the state is the largest number of threads that were assigned at a time.
\<close>

definition live_threads :: "'e share_state \<Rightarrow> nat" where
  "live_threads s = card (dom (ss_assigned s))"

inductive share_step :: "'e share_api \<Rightarrow> environment \<Rightarrow> 'e share_state \<times> nat \<Rightarrow> 'e share_state \<times> nat \<Rightarrow> bool" for api env where
  use: "share_handle_for_current_thread api env tid addr s = (r, s') \<Longrightarrow>
    (\<forall>sr c. ss_registry s = Some sr \<longrightarrow> c \<in> set (sr_caches sr) \<longrightarrow> sc_handle c \<noteq> addr) \<Longrightarrow>
    share_step api env (s, peak) (s', max peak (live_threads s'))"
| exit: "share_step api env (s, peak) (thread_exits tid s, peak)"

definition share_start :: "'e \<Rightarrow> 'e share_state" where
  "share_start e = \<lparr>ss_registry = None, ss_assigned = Map.empty, ss_driver = e\<rparr>"

definition users :: "(nat \<rightharpoonup> ptr) \<Rightarrow> ptr \<Rightarrow> nat" where
  "users a h = card {t. a t = Some h}"

lemma finite_users: "finite (dom a) \<Longrightarrow> finite {t. a t = Some h}"
  by (rule finite_subset [of _ "dom a"]) auto

lemma users_assign:
  assumes "finite (dom a)" "a t = None"
  shows "users (a(t \<mapsto> h)) h' = users a h' + (if h = h' then 1 else 0)"
proof (cases "h = h'")
  case True
  have "{x. (a(t \<mapsto> h)) x = Some h'} = insert t {x. a x = Some h'}" using True by auto
  then show ?thesis using assms finite_users [OF assms(1), of h'] True by (simp add: users_def)
next
  case False
  then have "{x. (a(t \<mapsto> h)) x = Some h'} = {x. a x = Some h'}" using assms(2) by auto
  then show ?thesis using False by (simp add: users_def)
qed

lemma users_leave:
  assumes "finite (dom a)" "a t = Some h"
  shows "users a h' = users (a(t := None)) h' + (if h = h' then 1 else 0)"
proof -
  have "a = (a(t := None))(t \<mapsto> h)" using assms(2) by auto
  then show ?thesis using users_assign [of "a(t := None)" t h h'] assms(1) by simp
qed

definition registry_inv :: "environment \<Rightarrow> (nat \<rightharpoonup> ptr) \<Rightarrow> nat \<Rightarrow> CurlShareRegistry \<Rightarrow> bool" where
  "registry_inv env a peak sr \<longleftrightarrow>
     max_threads_per_cache env = Inr (sr_max_threads_per_cache sr) \<and> 0 < sr_max_threads_per_cache sr \<and>
     distinct (map sc_handle (sr_caches sr)) \<and> ran a \<subseteq> sc_handle ` set (sr_caches sr) \<and>
     (\<forall>c \<in> set (sr_caches sr). unat (sc_num_threads c) = users a (sc_handle c) \<and> sc_num_threads c \<le> sr_max_threads_per_cache sr) \<and>
     length (sr_caches sr) * unat (sr_max_threads_per_cache sr) < peak + unat (sr_max_threads_per_cache sr)"

definition share_inv :: "environment \<Rightarrow> 'e share_state \<times> nat \<Rightarrow> bool" where
  "share_inv env st = (case st of (s, peak) \<Rightarrow>
     finite (dom (ss_assigned s)) \<and> live_threads s \<le> peak \<and>
     (case ss_registry s of None \<Rightarrow> ss_assigned s = Map.empty | Some sr \<Rightarrow> registry_inv env (ss_assigned s) peak sr))"

lemma take_slot_Some:
  "take_slot n cs = Some (h, cs') \<Longrightarrow>
     \<exists>xs c ys. cs = xs @ c # ys \<and> sc_num_threads c < n \<and> h = sc_handle c \<and> cs' = xs @ c\<lparr>sc_num_threads := sc_num_threads c + 1\<rparr> # ys"
proof (induction cs arbitrary: cs')
  case (Cons c cs)
  show ?case
  proof (cases "sc_num_threads c < n")
    case True
    then show ?thesis using Cons.prems by (intro exI [of _ "[]"]) auto
  next
    case False
    then obtain cs1 where cs1: "take_slot n cs = Some (h, cs1)" "cs' = c # cs1" using Cons.prems by auto
    from Cons.IH [OF cs1(1)] obtain xs d ys where "cs = xs @ d # ys" "sc_num_threads d < n" "h = sc_handle d"
      "cs1 = xs @ d\<lparr>sc_num_threads := sc_num_threads d + 1\<rparr> # ys" by blast
    then show ?thesis using cs1(2) by (intro exI [of _ "c # xs"]) auto
  qed
qed simp

lemma take_slot_None: "take_slot n cs = None \<Longrightarrow> c \<in> set cs \<Longrightarrow> n \<le> sc_num_threads c"
  by (induction cs) (auto split: if_splits)

lemma give_slot_split:
  "h \<in> sc_handle ` set cs \<Longrightarrow>
     \<exists>xs c ys. cs = xs @ c # ys \<and> sc_handle c = h \<and> give_slot h cs = xs @ c\<lparr>sc_num_threads := sc_num_threads c - 1\<rparr> # ys"
proof (induction cs)
  case (Cons c cs)
  show ?case
  proof (cases "sc_handle c = h")
    case True
    then show ?thesis by (intro exI [of _ "[]"]) auto
  next
    case False
    then have "h \<in> sc_handle ` set cs" using Cons.prems by auto
    from Cons.IH [OF this] obtain xs d ys where "cs = xs @ d # ys" "sc_handle d = h"
      "give_slot h cs = xs @ d\<lparr>sc_num_threads := sc_num_threads d - 1\<rparr> # ys" by blast
    then show ?thesis using False by (intro exI [of _ "c # xs"]) auto
  qed
qed simp

text \<open>The live threads are the users of the caches, so that threads outnumber full caches.\<close>

lemma all_users:
  assumes "finite (dom a)" "ran a \<subseteq> sc_handle ` set cs" "distinct (map sc_handle cs)"
  shows "card (dom a) = (\<Sum>c\<leftarrow>cs. users a (sc_handle c))"
proof -
  have "dom a = (\<Union>h \<in> set (map sc_handle cs). {t. a t = Some h})"
    using assms(2) by (auto simp: ran_def dom_def)
  then have "card (dom a) = (\<Sum>h \<in> set (map sc_handle cs). users a h)"
    unfolding users_def by (simp only:) (rule card_UN_disjoint, auto intro: finite_users [OF assms(1)])
  then show ?thesis using sum_list_distinct_conv_sum_set [OF assms(3), of "users a"] by (simp add: comp_def)
qed

lemma registry_inv_peak: "registry_inv env a peak sr \<Longrightarrow> peak \<le> peak' \<Longrightarrow> registry_inv env a peak' sr"
  by (auto simp: registry_inv_def)

lemma other_cache: "distinct (map sc_handle (xs @ c # ys)) \<Longrightarrow> d \<in> set xs \<union> set ys \<Longrightarrow> sc_handle d \<noteq> sc_handle c"
  by (auto simp: image_iff)

lemma registry_inv_slot:
  assumes inv: "registry_inv env a peak sr" and a: "finite (dom a)" "a tid = None"
    and slot: "take_slot (sr_max_threads_per_cache sr) (sr_caches sr) = Some (h, cs)"
  shows "registry_inv env (a(tid \<mapsto> h)) peak (sr\<lparr>sr_caches := cs\<rparr>)"
proof -
  obtain xs c ys where split: "sr_caches sr = xs @ c # ys" "sc_num_threads c < sr_max_threads_per_cache sr" "h = sc_handle c"
    "cs = xs @ c\<lparr>sc_num_threads := sc_num_threads c + 1\<rparr> # ys" using take_slot_Some [OF slot] by blast
  have num: "unat (sc_num_threads c + 1) = Suc (unat (sc_num_threads c))" "sc_num_threads c + 1 \<le> sr_max_threads_per_cache sr"
    using split(2) size_t_range [of "sr_max_threads_per_cache sr"] unat_plus_no_wrap [of "sc_num_threads c" 1]
    by (simp_all add: word_less_nat_alt word_le_nat_alt)
  have "sc_handle d \<noteq> h" if "d \<in> set xs \<union> set ys" for d
    using other_cache [of xs c ys d] inv that split(1,3) by (simp add: registry_inv_def)
  then have "\<forall>d \<in> set cs. unat (sc_num_threads d) = users (a(tid \<mapsto> h)) (sc_handle d) \<and> sc_num_threads d \<le> sr_max_threads_per_cache sr"
    using inv split num by (auto simp: registry_inv_def users_assign [OF a])
  then show ?thesis using inv split a(2) by (auto simp: registry_inv_def)
qed

lemma registry_inv_new_cache:
  assumes inv: "registry_inv env a peak sr" and a: "finite (dom a)" "a tid = None"
    and full: "take_slot (sr_max_threads_per_cache sr) (sr_caches sr) = None" and new: "addr \<notin> sc_handle ` set (sr_caches sr)"
  shows "registry_inv env (a(tid \<mapsto> addr)) (max peak (Suc (card (dom a))))
           (sr\<lparr>sr_caches := sr_caches sr @ [\<lparr>sc_handle = addr, sc_num_threads = 1\<rparr>]\<rparr>)"
proof -
  let ?n = "sr_max_threads_per_cache sr" and ?cs = "sr_caches sr"
  have ran: "ran a \<subseteq> sc_handle ` set ?cs" and pos: "0 < ?n" using inv by (simp_all add: registry_inv_def)
  have "users a (sc_handle c) = unat ?n" if "c \<in> set ?cs" for c
    using inv that take_slot_None [OF full that] by (auto simp: registry_inv_def dest: order_antisym)
  then have "map (\<lambda>c. users a (sc_handle c)) ?cs = replicate (length ?cs) (unat ?n)"
    by (simp add: map_replicate_const [symmetric])
  then have all: "card (dom a) = length ?cs * unat ?n"
    using all_users [OF a(1) ran] inv by (simp add: registry_inv_def sum_list_replicate)
  have "{t. a t = Some addr} = {}" using ran new by (auto simp: ran_def)
  then have "users a addr = 0" by (simp add: users_def)
  then have one: "users (a(tid \<mapsto> addr)) addr = 1" by (simp add: users_assign [OF a])
  have "users (a(tid \<mapsto> addr)) (sc_handle c) = users a (sc_handle c)" if "c \<in> set ?cs" for c
    using new that by (auto simp: users_assign [OF a])
  moreover have "1 \<le> ?n" using pos by (simp add: word_less_nat_alt word_le_nat_alt)
  ultimately show ?thesis using inv one all new ran a(2) by (auto simp: registry_inv_def)
qed

lemma registry_inv_release:
  assumes inv: "registry_inv env a peak sr" and a: "finite (dom a)" "a tid = Some h"
  shows "registry_inv env (a(tid := None)) peak (share_release h sr)"
proof -
  have "h \<in> sc_handle ` set (sr_caches sr)" using inv a(2) by (auto simp: registry_inv_def ran_def)
  from give_slot_split [OF this] obtain xs c ys where split: "sr_caches sr = xs @ c # ys" "sc_handle c = h"
    "give_slot h (sr_caches sr) = xs @ c\<lparr>sc_num_threads := sc_num_threads c - 1\<rparr> # ys" by blast
  have "unat (sc_num_threads c) = users a h" using inv split(1,2) by (auto simp: registry_inv_def)
  then have "unat (sc_num_threads c) = Suc (users (a(tid := None)) h)" using users_leave [OF a, of h] by simp
  then have num: "unat (sc_num_threads c - 1) = users (a(tid := None)) h" "sc_num_threads c - 1 \<le> sc_num_threads c"
    using unat_minus_no_wrap [of 1 "sc_num_threads c"] by (simp_all add: word_le_nat_alt)
  have "sc_handle d \<noteq> h" if "d \<in> set xs \<union> set ys" for d
    using other_cache [of xs c ys d] inv that split(1,2) by (simp add: registry_inv_def)
  then have "unat (sc_num_threads d) = users (a(tid := None)) (sc_handle d)" if "d \<in> set xs \<union> set ys" for d
    using inv that split(1) users_leave [OF a, of "sc_handle d"] by (auto simp: registry_inv_def)
  moreover have "sc_num_threads c \<le> sr_max_threads_per_cache sr" using inv split(1) by (simp add: registry_inv_def)
  moreover have "ran (a(tid := None)) \<subseteq> ran a" by (auto simp: ran_def)
  ultimately show ?thesis
    using inv split num unfolding share_release_def registry_inv_def by (auto intro: order_trans)
qed

lemma share_inv_use:
  assumes inv: "share_inv env (s, peak)"
    and use: "share_handle_for_current_thread api env tid addr s = (r, s')"
    and new: "\<And>sr c. ss_registry s = Some sr \<Longrightarrow> c \<in> set (sr_caches sr) \<Longrightarrow> sc_handle c \<noteq> addr"
  shows "share_inv env (s', max peak (live_threads s'))"
proof -
  let ?a = "ss_assigned s"
  have fin: "finite (dom ?a)" and live: "live_threads s \<le> peak" using inv by (simp_all add: share_inv_def)
  show ?thesis
  proof (cases "case ss_registry s of Some sr \<Rightarrow> Inr sr | None \<Rightarrow> bind_res (max_threads_per_cache env) new_share_registry")
    case (Inl x)
    then have "s' = s" using use by (simp add: share_handle_for_current_thread_def)
    then show ?thesis using inv live by (simp add: max_absorb1)
  next
    case have_sr: (Inr sr)
    have reg: "registry_inv env ?a peak sr"
    proof (cases "ss_registry s")
      case None
      then have "?a = Map.empty" "max_threads_per_cache env = Inr (sr_max_threads_per_cache sr)" "0 < sr_max_threads_per_cache sr"
        "sr_caches sr = []"
        using inv have_sr by (auto simp: share_inv_def new_share_registry_def bind_res_Inr_iff)
      then show ?thesis by (simp add: registry_inv_def word_less_nat_alt)
    qed (use inv have_sr in \<open>simp add: share_inv_def\<close>)
    have fresh: "addr \<notin> sc_handle ` set (sr_caches sr)"
      using new have_sr by (auto simp: new_share_registry_def bind_res_Inr_iff split: option.splits)
    show ?thesis
    proof (cases "?a tid")
      case (Some h)
      then have "s' = s\<lparr>ss_registry := Some sr\<rparr>" using use have_sr by (simp add: share_handle_for_current_thread_def)
      then show ?thesis using fin live reg by (simp add: share_inv_def live_threads_def max_absorb1)
    next
      case None
      have card: "card (dom (?a(tid \<mapsto> h))) = Suc (card (dom ?a))" for h using None fin by (simp add: domIff)
      show ?thesis
      proof (cases "take_slot (sr_max_threads_per_cache sr) (sr_caches sr)")
        case (Some y)
        obtain h cs where y: "y = (h, cs)" by (cases y)
        have "s' = s\<lparr>ss_registry := Some (sr\<lparr>sr_caches := cs\<rparr>), ss_assigned := ?a(tid \<mapsto> h)\<rparr>"
          using use have_sr None Some y by (simp add: share_handle_for_current_thread_def share_acquire_def)
        then show ?thesis using registry_inv_peak [OF registry_inv_slot [OF reg fin None Some [unfolded y]]] fin card
          by (simp add: share_inv_def live_threads_def)
      next
        case slot: None
        obtain q e1 where q: "new_curl_share_handle api (ss_driver s) = (q, e1)" by (cases "new_curl_share_handle api (ss_driver s)")
        show ?thesis
        proof (cases q)
          case (Inl x)
          then have "s' = s\<lparr>ss_registry := Some sr, ss_driver := e1\<rparr>"
            using use have_sr None slot q by (simp add: share_handle_for_current_thread_def share_acquire_def)
          then show ?thesis using fin live reg by (simp add: share_inv_def live_threads_def max_absorb1)
        next
          case (Inr sh)
          then have "s' = s\<lparr>ss_registry := Some (sr\<lparr>sr_caches := sr_caches sr @ [\<lparr>sc_handle = addr, sc_num_threads = 1\<rparr>]\<rparr>),
              ss_assigned := ?a(tid \<mapsto> addr), ss_driver := e1\<rparr>"
            using use have_sr None slot q
            by (simp add: share_handle_for_current_thread_def share_acquire_def)
          then show ?thesis using registry_inv_new_cache [OF reg fin None slot fresh] fin card
            by (simp add: share_inv_def live_threads_def)
        qed
      qed
    qed
  qed
qed

lemma share_inv_exit: "share_inv env (s, peak) \<Longrightarrow> share_inv env (thread_exits tid s, peak)"
proof (cases "ss_assigned s tid")
  case (Some h)
  assume inv: "share_inv env (s, peak)"
  then have fin: "finite (dom (ss_assigned s))" by (simp add: share_inv_def)
  then have "card (dom ((ss_assigned s)(tid := None))) \<le> card (dom (ss_assigned s))" by (intro card_mono) auto
  moreover obtain sr where "ss_registry s = Some sr" "registry_inv env (ss_assigned s) peak sr"
    using inv Some by (auto simp: share_inv_def split: option.splits)
  ultimately show ?thesis
    using inv fin Some registry_inv_release [of env "ss_assigned s" peak sr tid h]
    by (simp add: thread_exits_def share_inv_def live_threads_def)
qed (simp add: thread_exits_def)

lemma dns_cache_facts:
  assumes "(share_step api env)\<^sup>*\<^sup>* (share_start e, 0) (s, peak)" "ss_registry s = Some sr"
  shows "max_threads_per_cache env = Inr (sr_max_threads_per_cache sr)"
    and "c \<in> set (sr_caches sr) \<Longrightarrow> unat (sc_num_threads c) = card {t. ss_assigned s t = Some (sc_handle c)}"
    and "c \<in> set (sr_caches sr) \<Longrightarrow> sc_num_threads c \<le> sr_max_threads_per_cache sr"
    and "ss_assigned s t = Some h \<Longrightarrow> h \<in> sc_handle ` set (sr_caches sr)"
    and "length (sr_caches sr) \<le> (peak + unat (sr_max_threads_per_cache sr) - 1) div unat (sr_max_threads_per_cache sr)"
proof -
  have "share_inv env (s, peak)"
    using assms(1)
  proof (induction rule: rtranclp_induct)
    case base
    show ?case by (simp add: share_inv_def share_start_def live_threads_def)
  next
    case (step st st')
    from step.hyps(2) step.IH show ?case by cases (auto intro: share_inv_use share_inv_exit)
  qed
  then have inv: "registry_inv env (ss_assigned s) peak sr" using assms(2) by (simp add: share_inv_def)
  then show "max_threads_per_cache env = Inr (sr_max_threads_per_cache sr)"
    "c \<in> set (sr_caches sr) \<Longrightarrow> unat (sc_num_threads c) = card {t. ss_assigned s t = Some (sc_handle c)}"
    "c \<in> set (sr_caches sr) \<Longrightarrow> sc_num_threads c \<le> sr_max_threads_per_cache sr"
    "ss_assigned s t = Some h \<Longrightarrow> h \<in> sc_handle ` set (sr_caches sr)"
    by (auto simp: registry_inv_def users_def ran_def)
  have "length (sr_caches sr) * unat (sr_max_threads_per_cache sr) \<le> peak + unat (sr_max_threads_per_cache sr) - 1"
    and "0 < unat (sr_max_threads_per_cache sr)" using inv by (auto simp: registry_inv_def word_less_nat_alt)
  then show "length (sr_caches sr) \<le> (peak + unat (sr_max_threads_per_cache sr) - 1) div unat (sr_max_threads_per_cache sr)"
    by (metis div_le_mono nonzero_mult_div_cancel_right not_gr_zero)
qed

text \<open>
  C30. However threads come and go, a DNS cache never serves more than the configured number of threads, its
  counter is the number of threads assigned to it, and the number of caches stays below the largest number
  of threads alive at a time divided by that number, rounded up.
\<close>

theorem dns_caches_bounded:
  assumes "(share_step api env)\<^sup>*\<^sup>* (share_start e, 0) (s, peak)" "ss_registry s = Some sr"
  shows "max_threads_per_cache env = Inr (sr_max_threads_per_cache sr)
    \<and> (\<forall>c\<in>set (sr_caches sr). unat (sc_num_threads c) = card {t. ss_assigned s t = Some (sc_handle c)}
         \<and> sc_num_threads c \<le> sr_max_threads_per_cache sr)
    \<and> (\<forall>t h. ss_assigned s t = Some h \<longrightarrow> h \<in> sc_handle ` set (sr_caches sr))
    \<and> length (sr_caches sr) \<le> (peak + unat (sr_max_threads_per_cache sr) - 1) div unat (sr_max_threads_per_cache sr)"
  using dns_cache_facts [OF assms] by blast

text \<open>With one thread for each cache, two threads take two caches, and the first one exits.\<close>

definition demo_share :: "unit share_api" where
  "demo_share = \<lparr>curl_share_init = \<lambda>e. (5, e), curl_share_setopt = \<lambda>_ _ e. (0, e)\<rparr>"

definition demo_share_env :: environment where
  "demo_share_env = (\<lambda>v. if v = ''KVIKIO_REMOTE_MAX_THREADS_PER_DNS_CACHE'' then Some ''1'' else None)"

definition demo_share_state :: "share_cache list \<Rightarrow> (nat \<rightharpoonup> ptr) \<Rightarrow> unit share_state" where
  "demo_share_state cs a = \<lparr>ss_registry = Some \<lparr>sr_max_threads_per_cache = 1, sr_caches = cs\<rparr>, ss_assigned = a, ss_driver = ()\<rparr>"

lemma demo_share_limit: "max_threads_per_cache demo_share_env = Inr 1"
  by code_simp

lemma demo_share_run:
  "(share_step demo_share demo_share_env)\<^sup>*\<^sup>* (share_start (), 0)
     (demo_share_state [\<lparr>sc_handle = 100, sc_num_threads = 0\<rparr>, \<lparr>sc_handle = 200, sc_num_threads = 1\<rparr>] [4 \<mapsto> 200], 2)"
proof -
  let ?one = "\<lparr>sc_handle = 100, sc_num_threads = 1\<rparr> :: share_cache" and ?two = "\<lparr>sc_handle = 200, sc_num_threads = 1\<rparr> :: share_cache"
  let ?s1 = "demo_share_state [?one] [3 \<mapsto> 100]" and ?s2 = "demo_share_state [?one, ?two] [3 \<mapsto> 100, 4 \<mapsto> 200]"
  have sh: "new_curl_share_handle demo_share () = (Inr 5, ())" by (simp add: new_curl_share_handle_def demo_share_def)
  have "share_handle_for_current_thread demo_share demo_share_env 3 100 (share_start ()) = (Inr 100, ?s1)"
    by (simp add: share_handle_for_current_thread_def share_start_def demo_share_limit new_share_registry_def share_acquire_def sh
        demo_share_state_def)
  from share_step.use [OF this, of 0]
  have first: "share_step demo_share demo_share_env (share_start (), 0) (?s1, 1)"
    by (simp add: share_start_def live_threads_def demo_share_state_def)
  have "share_handle_for_current_thread demo_share demo_share_env 4 200 ?s1 = (Inr 200, ?s2)"
    by (simp add: share_handle_for_current_thread_def share_acquire_def sh demo_share_state_def)
  from share_step.use [OF this, of 1]
  have "share_step demo_share demo_share_env (?s1, 1) (?s2, max 1 (live_threads ?s2))" by (simp add: demo_share_state_def)
  moreover have "max 1 (live_threads ?s2) = 2" by (simp add: live_threads_def demo_share_state_def)
  ultimately have "share_step demo_share demo_share_env (?s1, 1) (?s2, 2)" by (simp only:)
  moreover have "thread_exits 3 ?s2 = demo_share_state [\<lparr>sc_handle = 100, sc_num_threads = 0\<rparr>, ?two] [4 \<mapsto> 200]"
    by (auto simp: thread_exits_def demo_share_state_def share_release_def)
  then have "share_step demo_share demo_share_env (?s2, 2)
      (demo_share_state [\<lparr>sc_handle = 100, sc_num_threads = 0\<rparr>, ?two] [4 \<mapsto> 200], 2)"
    using share_step.exit [of demo_share demo_share_env ?s2 2 3] by simp
  ultimately show ?thesis using first by (meson converse_rtranclp_into_rtranclp rtranclp.rtrancl_refl)
qed

theorem dns_caches_bounded_witness:
  "unat (1 :: size_t) = card {t. [4 \<mapsto> 200] t = Some (200 :: ptr)} \<and> (2 :: nat) \<le> (2 + unat (1 :: size_t) - 1) div unat (1 :: size_t)"
proof -
  let ?cs = "[\<lparr>sc_handle = 100, sc_num_threads = 0\<rparr>, \<lparr>sc_handle = 200, sc_num_threads = 1\<rparr>] :: share_cache list"
  have reg: "ss_registry (demo_share_state ?cs [4 \<mapsto> 200]) = Some \<lparr>sr_max_threads_per_cache = 1, sr_caches = ?cs\<rparr>"
    by (simp add: demo_share_state_def)
  have "unat (sc_num_threads (?cs ! 1)) = card {t. ss_assigned (demo_share_state ?cs [4 \<mapsto> 200]) t = Some (sc_handle (?cs ! 1))}"
    using dns_caches_bounded [OF demo_share_run reg] by simp
  moreover have "length ?cs \<le> (2 + unat (1 :: size_t) - 1) div unat (1 :: size_t)"
    using dns_caches_bounded [OF demo_share_run reg] by (simp only: CurlShareRegistry.select_convs)
  ultimately show ?thesis by (simp add: demo_share_state_def)
qed

end
