(* ===== verification/Cufile_Driver.thy ===== *)
theory Cufile_Driver
  imports Async_IO Defaults
begin

text \<open>
  The cuFile driver: its properties and their setters (\<open>cpp/src/cufile/driver.cpp\<close>), its configuration file
  (\<open>cpp/src/cufile/config.cpp\<close>), and whether cuFile can be used at all (\<open>cpp/src/shim/cufile.cpp\<close> and
  \<open>cpp/src/shim/utils.cpp\<close>), for a build that has cuFile. The library's calls are parameters.
\<close>

section \<open>Flags\<close>

definition get_driver_flag :: "32 word \<Rightarrow> nat \<Rightarrow> bool" where
  "get_driver_flag prop flag \<longleftrightarrow> prop AND push_bit flag 1 \<noteq> 0"

definition set_driver_flag :: "32 word \<Rightarrow> nat \<Rightarrow> bool \<Rightarrow> 32 word" where
  "set_driver_flag prop flag val = (if val then prop OR push_bit flag 1 else prop AND NOT (push_bit flag 1))"

definition CU_FILE_USE_POLL_MODE :: nat where "CU_FILE_USE_POLL_MODE = 0"

definition CU_FILE_ALLOW_COMPAT_MODE :: nat where "CU_FILE_ALLOW_COMPAT_MODE = 1"

lemma and_flag_iff: "w AND push_bit n 1 \<noteq> 0 \<longleftrightarrow> bit (w :: 32 word) n"
proof -
  have "w AND push_bit n 1 = (if bit w n then push_bit n 1 else 0)"
    by (rule bit_word_eqI) (auto simp: bit_simps)
  moreover have "bit w n \<Longrightarrow> push_bit n (1 :: 32 word) \<noteq> 0"
    by (metis bit_and_iff bit_0_eq bit_push_bit_iff bit_1_iff bot_apply bot_bool_def diff_self_eq_0 impossible_bit le_refl not_le)
  ultimately show ?thesis by simp
qed

lemma get_set_driver_flag:
  assumes "flag < 32" "flag' < 32"
  shows "get_driver_flag (set_driver_flag prop flag val) flag' = (if flag' = flag then val else get_driver_flag prop flag')"
proof -
  have "get_driver_flag w n = bit w n" for w n unfolding get_driver_flag_def by (rule and_flag_iff)
  then show ?thesis using assms by (auto simp: set_driver_flag_def bit_simps)
qed

section \<open>Driver properties\<close>

record CUfileDrvProps =
  nvfs_major_version :: "32 word"
  nvfs_minor_version :: "32 word"
  nvfs_poll_thresh_size :: size_t
  nvfs_dcontrolflags :: "32 word"
  max_device_cache_size :: size_t
  per_buffer_cache_size :: size_t
  max_device_pinned_mem_size :: size_t
  max_batch_io_size :: size_t

definition no_props :: CUfileDrvProps where
  "no_props = \<lparr>nvfs_major_version = 0, nvfs_minor_version = 0, nvfs_poll_thresh_size = 0, nvfs_dcontrolflags = 0,
     max_device_cache_size = 0, per_buffer_cache_size = 0, max_device_pinned_mem_size = 0, max_batch_io_size = 0\<rparr>"

record 'e driver_api =
  driver_get_properties :: "'e \<Rightarrow> (int + CUfileDrvProps) \<times> 'e"
  driver_set_poll_mode :: "bool \<Rightarrow> size_t \<Rightarrow> 'e \<Rightarrow> int \<times> 'e"
  driver_set_max_cache_size :: "size_t \<Rightarrow> 'e \<Rightarrow> int \<times> 'e"
  driver_set_max_pinned_mem_size :: "size_t \<Rightarrow> 'e \<Rightarrow> int \<times> 'e"
  driver_open :: "'e \<Rightarrow> int \<times> 'e"
  driver_close :: "'e \<Rightarrow> int \<times> 'e"

record DriverProperties =
  dp_props :: CUfileDrvProps
  dp_initialized :: bool

definition new_driver_properties :: DriverProperties where
  "new_driver_properties = \<lparr>dp_props = no_props, dp_initialized = False\<rparr>"

text \<open>The flag is set before the call: what the call throws is thrown once.\<close>

definition lazy_init :: "'e driver_api \<Rightarrow> DriverProperties \<Rightarrow> 'e \<Rightarrow> unit res \<times> DriverProperties \<times> 'e" where
  "lazy_init api dp e =
     (if dp_initialized dp then (Inr (), dp, e)
      else case driver_get_properties api e of
             (Inl _, e1) \<Rightarrow> (Inl CUfile_Exception, dp\<lparr>dp_initialized := True\<rparr>, e1)
           | (Inr p, e1) \<Rightarrow> (Inr (), dp\<lparr>dp_initialized := True, dp_props := p\<rparr>, e1))"

text \<open>A getter reads one field after \<open>lazy_init\<close>; a setter calls the driver, and remembers the value only if that succeeds.\<close>

definition get_property ::
  "(CUfileDrvProps \<Rightarrow> 'a) \<Rightarrow> 'e driver_api \<Rightarrow> DriverProperties \<Rightarrow> 'e \<Rightarrow> 'a res \<times> DriverProperties \<times> 'e"
where
  "get_property field api dp e =
     (case lazy_init api dp e of
        (Inl x, dp1, e1) \<Rightarrow> (Inl x, dp1, e1)
      | (Inr _, dp1, e1) \<Rightarrow> (Inr (field (dp_props dp1)), dp1, e1))"

definition set_property ::
  "(CUfileDrvProps \<Rightarrow> 'e \<Rightarrow> int \<times> 'e) \<Rightarrow> (CUfileDrvProps \<Rightarrow> CUfileDrvProps) \<Rightarrow> 'e driver_api \<Rightarrow> DriverProperties \<Rightarrow> 'e
     \<Rightarrow> unit res \<times> DriverProperties \<times> 'e"
where
  "set_property call upd api dp e =
     (case lazy_init api dp e of
        (Inl x, dp1, e1) \<Rightarrow> (Inl x, dp1, e1)
      | (Inr _, dp1, e1) \<Rightarrow>
          (case cufile_try (call (dp_props dp1) e1) of
             (Inl x, e2) \<Rightarrow> (Inl x, dp1, e2)
           | (Inr _, e2) \<Rightarrow> (Inr (), dp1\<lparr>dp_props := upd (dp_props dp1)\<rparr>, e2)))"

definition get_nvfs_major_version :: "'e driver_api \<Rightarrow> DriverProperties \<Rightarrow> 'e \<Rightarrow> 32 word res \<times> DriverProperties \<times> 'e" where
  "get_nvfs_major_version = get_property nvfs_major_version"

definition get_nvfs_minor_version :: "'e driver_api \<Rightarrow> DriverProperties \<Rightarrow> 'e \<Rightarrow> 32 word res \<times> DriverProperties \<times> 'e" where
  "get_nvfs_minor_version = get_property nvfs_minor_version"

text \<open>The minor version is asked for only if the major version is zero.\<close>

definition is_gds_available :: "'e driver_api \<Rightarrow> DriverProperties \<Rightarrow> 'e \<Rightarrow> bool res \<times> DriverProperties \<times> 'e" where
  "is_gds_available api dp e =
     (case get_nvfs_major_version api dp e of
        (Inl x, dp1, e1) \<Rightarrow> (Inl x, dp1, e1)
      | (Inr major, dp1, e1) \<Rightarrow>
          if major \<noteq> 0 then (Inr True, dp1, e1)
          else case get_nvfs_minor_version api dp1 e1 of
                 (Inl x, dp2, e2) \<Rightarrow> (Inl x, dp2, e2)
               | (Inr minor, dp2, e2) \<Rightarrow> (Inr (minor \<noteq> 0), dp2, e2))"

definition get_nvfs_allow_compat_mode :: "'e driver_api \<Rightarrow> DriverProperties \<Rightarrow> 'e \<Rightarrow> bool res \<times> DriverProperties \<times> 'e" where
  "get_nvfs_allow_compat_mode = get_property (\<lambda>p. get_driver_flag (nvfs_dcontrolflags p) CU_FILE_ALLOW_COMPAT_MODE)"

definition get_nvfs_poll_mode :: "'e driver_api \<Rightarrow> DriverProperties \<Rightarrow> 'e \<Rightarrow> bool res \<times> DriverProperties \<times> 'e" where
  "get_nvfs_poll_mode = get_property (\<lambda>p. get_driver_flag (nvfs_dcontrolflags p) CU_FILE_USE_POLL_MODE)"

definition get_nvfs_poll_thresh_size :: "'e driver_api \<Rightarrow> DriverProperties \<Rightarrow> 'e \<Rightarrow> size_t res \<times> DriverProperties \<times> 'e" where
  "get_nvfs_poll_thresh_size = get_property nvfs_poll_thresh_size"

definition set_nvfs_poll_mode :: "bool \<Rightarrow> 'e driver_api \<Rightarrow> DriverProperties \<Rightarrow> 'e \<Rightarrow> unit res \<times> DriverProperties \<times> 'e" where
  "set_nvfs_poll_mode enable api =
     set_property (\<lambda>p. driver_set_poll_mode api enable (nvfs_poll_thresh_size p))
       (\<lambda>p. p\<lparr>nvfs_dcontrolflags := set_driver_flag (nvfs_dcontrolflags p) CU_FILE_USE_POLL_MODE enable\<rparr>) api"

definition set_nvfs_poll_thresh_size :: "size_t \<Rightarrow> 'e driver_api \<Rightarrow> DriverProperties \<Rightarrow> 'e \<Rightarrow> unit res \<times> DriverProperties \<times> 'e" where
  "set_nvfs_poll_thresh_size size_in_kb api =
     set_property (\<lambda>p. driver_set_poll_mode api (get_driver_flag (nvfs_dcontrolflags p) CU_FILE_USE_POLL_MODE) size_in_kb)
       (\<lambda>p. p\<lparr>nvfs_poll_thresh_size := size_in_kb\<rparr>) api"

definition get_nvfs_statusflags :: "'e driver_api \<Rightarrow> DriverProperties \<Rightarrow> 'e \<Rightarrow> nat list res \<times> DriverProperties \<times> 'e" where
  "get_nvfs_statusflags =
     get_property (\<lambda>p. filter (get_driver_flag (nvfs_dcontrolflags p)) [CU_FILE_USE_POLL_MODE, CU_FILE_ALLOW_COMPAT_MODE])"

definition get_max_device_cache_size :: "'e driver_api \<Rightarrow> DriverProperties \<Rightarrow> 'e \<Rightarrow> size_t res \<times> DriverProperties \<times> 'e" where
  "get_max_device_cache_size = get_property max_device_cache_size"

definition set_max_device_cache_size :: "size_t \<Rightarrow> 'e driver_api \<Rightarrow> DriverProperties \<Rightarrow> 'e \<Rightarrow> unit res \<times> DriverProperties \<times> 'e" where
  "set_max_device_cache_size size_in_kb api =
     set_property (\<lambda>_. driver_set_max_cache_size api size_in_kb) (\<lambda>p. p\<lparr>max_device_cache_size := size_in_kb\<rparr>) api"

definition get_per_buffer_cache_size :: "'e driver_api \<Rightarrow> DriverProperties \<Rightarrow> 'e \<Rightarrow> size_t res \<times> DriverProperties \<times> 'e" where
  "get_per_buffer_cache_size = get_property per_buffer_cache_size"

definition get_max_pinned_memory_size :: "'e driver_api \<Rightarrow> DriverProperties \<Rightarrow> 'e \<Rightarrow> size_t res \<times> DriverProperties \<times> 'e" where
  "get_max_pinned_memory_size = get_property max_device_pinned_mem_size"

definition set_max_pinned_memory_size :: "size_t \<Rightarrow> 'e driver_api \<Rightarrow> DriverProperties \<Rightarrow> 'e \<Rightarrow> unit res \<times> DriverProperties \<times> 'e" where
  "set_max_pinned_memory_size size_in_kb api =
     set_property (\<lambda>_. driver_set_max_pinned_mem_size api size_in_kb) (\<lambda>p. p\<lparr>max_device_pinned_mem_size := size_in_kb\<rparr>) api"

definition get_max_batch_io_size :: "'e driver_api \<Rightarrow> DriverProperties \<Rightarrow> 'e \<Rightarrow> size_t res \<times> DriverProperties \<times> 'e" where
  "get_max_batch_io_size = get_property max_batch_io_size"

text \<open>
  What a setter stores is what the getter returns; the other flag stays, and a refused setter changes
  nothing that is read.
\<close>

lemma set_property_Inr:
  assumes "set_property call upd api dp e = (Inr (), dp', e')"
  shows "\<exists>p. dp' = \<lparr>dp_props = upd p, dp_initialized = True\<rparr> \<and> (dp_initialized dp \<longrightarrow> p = dp_props dp)"
  using assms
  by (cases dp) (auto simp: set_property_def lazy_init_def split: prod.splits sum.splits if_splits)

lemma get_property_initialized: "get_property field api \<lparr>dp_props = p, dp_initialized = True\<rparr> e = (Inr (field p), \<lparr>dp_props = p, dp_initialized = True\<rparr>, e)"
  by (simp add: get_property_def lazy_init_def)

lemma set_poll_mode_get:
  assumes "set_nvfs_poll_mode enable api dp e = (Inr (), dp', e')"
  shows "get_nvfs_poll_mode api dp' e2 = (Inr enable, dp', e2)"
    and "dp_initialized dp \<Longrightarrow> fst (get_nvfs_allow_compat_mode api dp' e2) = fst (get_nvfs_allow_compat_mode api dp e2)"
    and "dp_initialized dp \<Longrightarrow> fst (get_nvfs_poll_thresh_size api dp' e2) = fst (get_nvfs_poll_thresh_size api dp e2)"
proof -
  obtain p where p: "dp' = \<lparr>dp_props = p\<lparr>nvfs_dcontrolflags := set_driver_flag (nvfs_dcontrolflags p) CU_FILE_USE_POLL_MODE enable\<rparr>,
      dp_initialized = True\<rparr>" "dp_initialized dp \<longrightarrow> p = dp_props dp"
    using set_property_Inr [OF assms [unfolded set_nvfs_poll_mode_def]] by blast
  show "get_nvfs_poll_mode api dp' e2 = (Inr enable, dp', e2)"
    unfolding p(1) get_nvfs_poll_mode_def get_property_initialized by (simp add: get_set_driver_flag CU_FILE_USE_POLL_MODE_def)
  show "fst (get_nvfs_allow_compat_mode api dp' e2) = fst (get_nvfs_allow_compat_mode api dp e2)"
    "fst (get_nvfs_poll_thresh_size api dp' e2) = fst (get_nvfs_poll_thresh_size api dp e2)" if "dp_initialized dp"
    using p that
    by (simp_all add: get_nvfs_allow_compat_mode_def get_nvfs_poll_thresh_size_def get_property_def lazy_init_def get_set_driver_flag
        CU_FILE_USE_POLL_MODE_def CU_FILE_ALLOW_COMPAT_MODE_def)
qed

text \<open>
  A driver that cannot be asked: the first getter throws, every later one returns zero, and
  \<open>is_gds_available\<close> is false without an error.
\<close>

lemma failed_init_reads_zero:
  assumes "driver_get_properties api e = (Inl err, e1)" "get_property field api new_driver_properties e = (r, dp, e2)"
  shows "r = Inl CUfile_Exception" "get_property field api dp e3 = (Inr (field no_props), dp, e3)"
    "is_gds_available api dp e3 = (Inr False, dp, e3)"
  using assms
  by (auto simp: get_property_def lazy_init_def new_driver_properties_def is_gds_available_def get_nvfs_major_version_def
      get_nvfs_minor_version_def no_props_def)

section \<open>Opening and closing the driver\<close>

definition cufile_driver_open :: "'e driver_api \<Rightarrow> 'e \<Rightarrow> unit res \<times> 'e" where
  "cufile_driver_open api e = (case driver_open api e of (err, e1) \<Rightarrow> (kvikio_expect (err = 0) Runtime_Error, e1))"

definition cufile_driver_close :: "'e driver_api \<Rightarrow> 'e \<Rightarrow> unit res \<times> 'e" where
  "cufile_driver_close api e = (case driver_close api e of (err, e1) \<Rightarrow> (kvikio_expect (err = 0) Runtime_Error, e1))"

definition new_driver_initializer :: "'e driver_api \<Rightarrow> 'e \<Rightarrow> unit res \<times> 'e" where
  "new_driver_initializer api e = cufile_driver_open api e"

text \<open>
  The destructor catches \<open>CUfileException\<close>; any other exception leaves a function declared \<open>noexcept\<close>, and the
  process is terminated: no result.
\<close>

definition driver_initializer_destroy :: "'e driver_api \<Rightarrow> 'e \<Rightarrow> 'e option" where
  "driver_initializer_destroy api e =
     (case cufile_driver_close api e of
        (Inr _, e1) \<Rightarrow> Some e1
      | (Inl CUfile_Exception, e1) \<Rightarrow> Some e1
      | (Inl _, e1) \<Rightarrow> None)"

lemma failed_close_terminates:
  "driver_close api e = (err, e1) \<Longrightarrow> err \<noteq> 0 \<Longrightarrow> driver_initializer_destroy api e = None"
  by (simp add: driver_initializer_destroy_def cufile_driver_close_def)

section \<open>Whether cuFile can be used\<close>

definition lookup_config_path :: "environment \<Rightarrow> (string \<Rightarrow> bool) \<Rightarrow> string" where
  "lookup_config_path env file_exists =
     (case env ''CUFILE_ENV_PATH_JSON'' of
        Some p \<Rightarrow> if file_exists p then p else if file_exists ''/etc/cufile.json'' then ''/etc/cufile.json'' else []
      | None \<Rightarrow> if file_exists ''/etc/cufile.json'' then ''/etc/cufile.json'' else [])"

fun has_infix :: "string \<Rightarrow> string \<Rightarrow> bool" where
  "has_infix pat [] \<longleftrightarrow> pat = []"
| "has_infix pat (c # cs) \<longleftrightarrow> take (length pat) (c # cs) = pat \<or> has_infix pat cs"

text \<open>The release that \<open>uname\<close> reports, nothing if it fails.\<close>

definition is_running_in_wsl :: "string option \<Rightarrow> bool" where
  "is_running_in_wsl release = (case release of Some name \<Rightarrow> has_infix ''icrosoft'' name | None \<Rightarrow> False)"

text \<open>Loading the library: the handle and then each symbol, by its name; a missing one is an error.\<close>

definition cufile_symbols :: "string list" where
  "cufile_symbols =
     [''cuFileHandleRegister'', ''cuFileHandleDeregister'', ''cuFileRead'', ''cuFileWrite'', ''cuFileBufRegister'', ''cuFileBufDeregister'',
      ''cuFileDriverOpen'', ''cuFileDriverClose'', ''cuFileDriverGetProperties'', ''cuFileDriverSetPollMode'',
      ''cuFileDriverSetMaxCacheSize'', ''cuFileDriverSetMaxPinnedMemSize'']"

definition cufile_async_symbols :: "string list" where
  "cufile_async_symbols =
     [''cuFileBatchIOSetUp'', ''cuFileBatchIOSubmit'', ''cuFileBatchIOGetStatus'', ''cuFileBatchIOCancel'', ''cuFileBatchIODestroy'',
      ''cuFileReadAsync'', ''cuFileWriteAsync'', ''cuFileStreamRegister'', ''cuFileStreamDeregister'']"

text \<open>
  \<open>symbols\<close> are the symbols of the library, nothing if it cannot be loaded; \<open>get_version\<close> is what
  \<open>cuFileGetVersion\<close> answers. The result is the version, zero when the call fails.
\<close>

definition new_cufile_api :: "string set option \<Rightarrow> int option \<Rightarrow> int res" where
  "new_cufile_api symbols get_version =
     (case symbols of
        None \<Rightarrow> Inl Runtime_Error
      | Some syms \<Rightarrow>
          bind_res (kvikio_expect (list_all (\<lambda>s. s \<in> syms) cufile_symbols) Runtime_Error) (\<lambda>_.
            let version = (if ''cuFileGetVersion'' \<in> syms then (case get_version of Some v \<Rightarrow> v | None \<Rightarrow> 0) else 1070) in
            bind_res (kvikio_expect (list_all (\<lambda>s. s \<in> syms) cufile_async_symbols) Runtime_Error) (\<lambda>_. Inr version)))"

definition is_cufile_library_available :: "string set option \<Rightarrow> int option \<Rightarrow> bool" where
  "is_cufile_library_available symbols get_version = (case new_cufile_api symbols get_version of Inl _ \<Rightarrow> False | Inr _ \<Rightarrow> True)"

definition is_cufile_available :: "string set option \<Rightarrow> int option \<Rightarrow> bool \<Rightarrow> string option \<Rightarrow> bool" where
  "is_cufile_available symbols get_version run_udev_readable release \<longleftrightarrow>
     is_cufile_library_available symbols get_version \<and> run_udev_readable \<and> \<not> is_running_in_wsl release"

definition cufile_version :: "string set option \<Rightarrow> int option \<Rightarrow> int" where
  "cufile_version symbols get_version = (case new_cufile_api symbols get_version of Inl _ \<Rightarrow> 0 | Inr v \<Rightarrow> v)"

lemma no_library_no_version: "\<not> is_cufile_library_available symbols get_version \<Longrightarrow> cufile_version symbols get_version = 0"
  by (auto simp: is_cufile_library_available_def cufile_version_def split: sum.splits)

text \<open>A library older than the version query reports version 1.7.\<close>

lemma old_library_reports_1070:
  "new_cufile_api (Some (set (cufile_symbols @ cufile_async_symbols))) v = Inr 1070"
  by (simp add: new_cufile_api_def cufile_symbols_def cufile_async_symbols_def)

end
