(* ===== verification/Size_Probe.thy ===== *)
theory Size_Probe
  imports Endpoint Retry_Sink Defaults
begin

text \<open>
  How the size of a remote file is found: \<open>get_file_size\<close> of the endpoints, in \<open>cpp/src/remote_handle.cpp\<close> and
  \<open>cpp/src/hdfs.cpp\<close>. An HTTP or S3 endpoint sends a \<open>HEAD\<close> request; a presigned URL, which allows no
  \<open>HEAD\<close>, is asked for one byte, and the size is read from the \<open>Content-Range\<close> header; WebHDFS returns
  the file status as JSON. The regular expressions are written out as scanners. libcurl is a parameter:
  \<open>pe_headers\<close> and \<open>pe_body\<close> are the header lines and the body of the last attempt.
\<close>

section \<open>Scanning the answers\<close>

definition bytes_string :: "byte list \<Rightarrow> string" where
  "bytes_string bs = map (\<lambda>b. char_of (unat b)) bs"

definition char_byte :: "char \<Rightarrow> byte" where
  "char_byte c = of_nat (of_char c)"

lemma bytes_string_char_byte [simp]: "bytes_string (map char_byte s) = s"
proof -
  have "char_of (unat (char_byte c)) = c" for c
    unfolding char_byte_def by (simp add: unat_of_nat)
  then show ?thesis by (induction s) (simp_all add: bytes_string_def)
qed

lemma bytes_string_append [simp]: "bytes_string (xs @ ys) = bytes_string xs @ bytes_string ys"
  by (simp add: bytes_string_def)

text \<open>\<open>Content-Range:[^/]+/(.*)\<close>, in any case, at the front of a text; the capture ends at a line terminator.\<close>

definition content_range_here :: "string \<Rightarrow> string option" where
  "content_range_here s =
     (case scan_text ''content-range:'' (map ascii_lower s) of
        None \<Rightarrow> None
      | Some _ \<Rightarrow>
          let rest = drop (length ''content-range:'') s; after = dropWhile (\<lambda>c. c \<noteq> CHR ''/'') rest in
          if takeWhile (\<lambda>c. c \<noteq> CHR ''/'') rest = [] \<or> after = [] then None
          else Some (takeWhile (\<lambda>c. of_char c \<notin> {10, 13 :: nat}) (tl after)))"

fun search_content_range :: "string \<Rightarrow> string option" where
  "search_content_range [] = content_range_here []"
| "search_content_range (c # cs) = (case content_range_here (c # cs) of Some r \<Rightarrow> Some r | None \<Rightarrow> search_content_range cs)"

text \<open>\<open>"length"\s*:\s*(\d+)[^\d]\<close>.\<close>

definition length_here :: "string \<Rightarrow> string option" where
  "length_here s =
     (case scan_text ''\"length\"'' s of
        None \<Rightarrow> None
      | Some rest \<Rightarrow>
          (case dropWhile is_space rest of
             c # cs \<Rightarrow>
               if c \<noteq> CHR '':'' then None
               else let v = dropWhile is_space cs; ds = takeWhile is_digit v
                    in if ds = [] \<or> dropWhile is_digit v = [] then None else Some ds
           | [] \<Rightarrow> None))"

fun search_length :: "string \<Rightarrow> string option" where
  "search_length [] = length_here []"
| "search_length (c # cs) = (case length_here (c # cs) of Some r \<Rightarrow> Some r | None \<Rightarrow> search_length cs)"

section \<open>The probes\<close>

record 'e probe_env =
  pe_conn :: "CurlOptions \<Rightarrow> 'e curl_api"
  pe_headers :: "'e \<Rightarrow> byte list list"
  pe_body :: "'e \<Rightarrow> byte list list"
  pe_content_length :: "'e \<Rightarrow> CURLcode \<times> int"
  pe_attempts :: size_t
  pe_codes :: "32 word list"

text \<open>
  What a probe changes: the network, the counters, and the standard output, where libcurl puts a body for
  which no callback was set. \<open>pb_unwound\<close> tells that an exception was thrown through libcurl.
\<close>

record 'e probe_state =
  pb_net :: 'e
  pb_counters :: Counters
  pb_stdout :: "byte list"
  pb_unwound :: bool

text \<open>A transfer in the scope of the timer that counts probes; \<open>elapsed\<close> is what the timer measures.\<close>

definition timed_perform ::
  "'w curl_api \<Rightarrow> size_t \<Rightarrow> 32 word list \<Rightarrow> ('w \<Rightarrow> 'w) option \<Rightarrow> int \<Rightarrow> 'w \<Rightarrow> Counters \<Rightarrow> unit res \<times> 'w \<times> Counters"
where
  "timed_perform api attempts codes on_retry elapsed w c =
     (let (r, ps) = perform api attempts codes on_retry \<lparr>world = w, perf_counters = c, perf_trace = []\<rparr>
      in (r, world ps, count_remote_size_probe elapsed (perf_counters ps)))"

text \<open>The options of the handle with which an endpoint is asked.\<close>

fun probe_options :: "'h url_api \<Rightarrow> RemoteEndpoint \<Rightarrow> CurlOptions res" where
  "probe_options uapi (S3EndpointWithPresignedUrl u) = Inr (create_curl_handle\<lparr>opt_url := u, opt_range := Some ''0-0''\<rparr>)"
| "probe_options uapi (WebHdfsEndpoint u username) =
     Inr (create_curl_handle\<lparr>opt_url := webhdfs_query u username @ ''op=GETFILESTATUS'', opt_followlocation := True\<rparr>)"
| "probe_options uapi ep =
     bind_res (endpoint_setopt uapi ep create_curl_handle) (\<lambda>opts. Inr (opts\<lparr>opt_nobody := True, opt_followlocation := True\<rparr>))"

definition get_file_size_using_head_impl ::
  "'e probe_env \<Rightarrow> int \<Rightarrow> CurlOptions \<Rightarrow> 'e probe_state \<Rightarrow> size_t res \<times> 'e probe_state"
where
  "get_file_size_using_head_impl pe elapsed opts st =
     (let (r, e, c) = timed_perform (pe_conn pe opts) (pe_attempts pe) (pe_codes pe) None elapsed (pb_net st) (pb_counters st);
          st1 = st\<lparr>pb_net := e, pb_counters := c\<rparr>
      in (bind_res r (\<lambda>_.
          case pe_content_length pe e of (code, cl) \<Rightarrow>
            bind_res (kvikio_expect (code = CURLE_OK) Runtime_Error) (\<lambda>_.
            bind_res (kvikio_expect (cl \<ge> 0) Runtime_Error) (\<lambda>_. Inr (word_of_int cl)))), st1))"

text \<open>The header callback: the size read so far, the output, and whether it threw.\<close>

type_synonym header_sink = "int \<times> byte list \<times> bool"

definition callback_header :: "byte list \<Rightarrow> header_sink \<Rightarrow> bool \<times> header_sink" where
  "callback_header line s =
     (case s of (file_size, out, thrown) \<Rightarrow>
        (case search_content_range (bytes_string line) of
           None \<Rightarrow> (True, s)
         | Some txt \<Rightarrow>
             (case leading_int txt of
                Some i \<Rightarrow> if fits_signed 64 i then (True, (i, out, thrown)) else (False, (file_size, out, True))
              | None \<Rightarrow> (False, (file_size, out, True)))))"

definition presigned_api ::
  "'e curl_api \<Rightarrow> ('e \<Rightarrow> byte list list) \<Rightarrow> ('e \<Rightarrow> byte list list) \<Rightarrow> (header_sink, 'e) http_world curl_api"
where
  "presigned_api net headers body =
     (sink_api net headers callback_header)\<lparr>easy_perform := (\<lambda>w.
        let (code, w1) = easy_perform (sink_api net headers callback_header) w; (n, out, thrown) = hw_sink w1
        in (code, w1\<lparr>hw_sink := (n, out @ concat (body (hw_net w1)), thrown)\<rparr>))\<rparr>"

definition presigned_get_file_size ::
  "'e probe_env \<Rightarrow> int \<Rightarrow> CurlOptions \<Rightarrow> 'e probe_state \<Rightarrow> size_t res \<times> 'e probe_state"
where
  "presigned_get_file_size pe elapsed opts st =
     (let (r, w, c) = timed_perform (presigned_api (pe_conn pe opts) (pe_headers pe) (pe_body pe)) (pe_attempts pe) (pe_codes pe)
                        None elapsed \<lparr>hw_sink = (0, pb_stdout st, False), hw_net = pb_net st\<rparr> (pb_counters st);
          (file_size, out, thrown) = hw_sink w;
          st1 = st\<lparr>pb_net := hw_net w, pb_counters := c, pb_stdout := out, pb_unwound := pb_unwound st \<or> thrown\<rparr>
      in (if thrown then Inl Invalid_Argument else case r of Inl x \<Rightarrow> Inl x | Inr _ \<Rightarrow> Inr (word_of_int file_size), st1))"

definition string_feed :: "byte list \<Rightarrow> byte list \<Rightarrow> bool \<times> byte list" where
  "string_feed c s =
     (let (n, s') = callback_get_string_response c 1 (of_nat (length c)) s in (n = of_nat (length c), s'))"

definition webhdfs_get_file_size ::
  "'e probe_env \<Rightarrow> int \<Rightarrow> CurlOptions \<Rightarrow> 'e probe_state \<Rightarrow> size_t res \<times> 'e probe_state"
where
  "webhdfs_get_file_size pe elapsed opts st =
     (let net = pe_conn pe opts;
          (r, w, c) = timed_perform (sink_api net (pe_body pe) string_feed) (pe_attempts pe) (pe_codes pe)
                        (Some (reset_hook (\<lambda>_. []))) elapsed \<lparr>hw_sink = [], hw_net = pb_net st\<rparr> (pb_counters st);
          st1 = st\<lparr>pb_net := hw_net w, pb_counters := c\<rparr>
      in (bind_res r (\<lambda>_.
          case response_code net (hw_net w) of (code, status) \<Rightarrow>
            bind_res (kvikio_expect (code = CURLE_OK) Runtime_Error) (\<lambda>_.
            bind_res (kvikio_expect (status = 200) CUfile_Exception) (\<lambda>_.
            (case search_length (bytes_string (hw_sink w)) of
               None \<Rightarrow> Inl CUfile_Exception
             | Some ds \<Rightarrow> bind_res (kvikio_expect (read_nat ds < 2 ^ 64) Out_Of_Range) (\<lambda>_. Inr (of_nat (read_nat ds))))))), st1))"

definition get_file_size :: "'h url_api \<Rightarrow> 'e probe_env \<Rightarrow> int \<Rightarrow> RemoteEndpoint \<Rightarrow> 'e probe_state \<Rightarrow> size_t res \<times> 'e probe_state" where
  "get_file_size uapi pe elapsed ep st =
     (case probe_options uapi ep of
        Inl x \<Rightarrow> (Inl x, st)
      | Inr opts \<Rightarrow>
          (case ep of
             S3EndpointWithPresignedUrl _ \<Rightarrow> presigned_get_file_size pe elapsed opts st
           | WebHdfsEndpoint _ _ \<Rightarrow> webhdfs_get_file_size pe elapsed opts st
           | _ \<Rightarrow> get_file_size_using_head_impl pe elapsed opts st))"

section \<open>Reading back what a server writes\<close>

lemma scan_text_drop: "scan_text p s = Some r \<Longrightarrow> s = p @ r"
  by (induction p s rule: scan_text.induct) (auto split: if_splits)

lemma leading_int_show_nat: "rest = [] \<or> \<not> is_digit (hd rest) \<Longrightarrow> leading_int (show_nat n @ rest) = Some (int n)"
proof -
  assume r: "rest = [] \<or> \<not> is_digit (hd rest)"
  obtain c cs where s: "show_nat n = c # cs" "is_digit c" using show_nat_not_Nil [of n] hd_show_nat_digit [of n] by (cases "show_nat n") auto
  have "\<not> is_space c" "c \<noteq> CHR ''-''" "c \<noteq> CHR ''+''" using s(2) by (auto simp: is_digit_def is_space_def)
  then have "leading_int (show_nat n @ rest) = map_option (\<lambda>(n, _). int n) (scan_nat (show_nat n @ rest))"
    using s(1) by (simp add: leading_int_def)
  then show ?thesis using scan_nat_show_nat r by simp
qed

text \<open>The header line and the JSON text of servers that know the size.\<close>

definition content_range_line :: "nat \<Rightarrow> string" where
  "content_range_line n = ''Content-Range: bytes 0-0/'' @ show_nat n @ [char_of (13 :: nat), char_of (10 :: nat)]"

lemma search_content_range_line: "search_content_range (content_range_line n) = Some (show_nat n)"
proof -
  let ?ok = "\<lambda>c :: char. of_char c \<notin> {10, 13 :: nat}"
  have digits: "?ok c" if "c \<in> set (show_nat n)" for c using show_nat_digits [OF that] by (auto simp: is_digit_def)
  have cap: "takeWhile ?ok (show_nat n @ [char_of (13 :: nat), char_of (10 :: nat)]) = show_nat n"
    using digits by (subst takeWhile_append2) auto
  have lower: "map ascii_lower ''Content-Range: bytes 0-0/'' = ''content-range: bytes 0-0/''" by code_simp
  have "scan_text ''content-range:'' (map ascii_lower (content_range_line n)) \<noteq> None"
    unfolding content_range_line_def map_append lower by simp
  then obtain r where r: "scan_text ''content-range:'' (map ascii_lower (content_range_line n)) = Some r" by blast
  have "content_range_here (content_range_line n) = Some (show_nat n)"
    unfolding content_range_here_def r option.case using cap by (simp add: content_range_line_def Let_def)
  moreover obtain c cs where "content_range_line n = c # cs" by (simp add: content_range_line_def)
  ultimately show ?thesis by simp
qed

definition file_status :: "string \<Rightarrow> nat \<Rightarrow> string \<Rightarrow> string" where
  "file_status pre n post = pre @ ''\"length\":'' @ show_nat n @ '','' @ post"

lemma length_here_status: "length_here (''\"length\":'' @ show_nat n @ '','' @ post) = Some (show_nat n)"
proof -
  have "\<not> is_space (hd (show_nat n))" using hd_show_nat_digit [of n] by (auto simp: is_digit_def is_space_def)
  then have d: "dropWhile is_space (show_nat n @ CHR '','' # post) = show_nat n @ CHR '','' # post"
    using show_nat_not_Nil [of n] by (cases "show_nat n") simp_all
  have c: "(CHR '','' # post = [] \<or> \<not> is_digit (hd (CHR '','' # post)))" by (simp add: is_digit_def)
  have "\<not> is_digit (CHR '','')" by (simp add: is_digit_def)
  then show ?thesis
    using d takeWhile_show_nat [OF c, of n] dropWhile_show_nat [OF c, of n] show_nat_not_Nil [of n]
    by (simp add: length_here_def is_space_def Let_def)
qed

text \<open>The key is found where it first stands, if it does not stand in the text before.\<close>

lemma length_here_key: "length_here s = Some r \<Longrightarrow> take 8 s = ''\"length\"''"
proof -
  assume "length_here s = Some r"
  then obtain rest where "scan_text ''\"length\"'' s = Some rest" by (auto simp: length_here_def split: option.splits)
  then have "s = ''\"length\"'' @ rest" by (rule scan_text_drop)
  then show ?thesis by simp
qed

fun key_stands :: "string \<Rightarrow> bool" where
  "key_stands [] = False"
| "key_stands (c # cs) \<longleftrightarrow> take 8 (c # cs) = ''\"length\"'' \<or> key_stands cs"

lemma search_length_status:
  "\<not> key_stands (pre @ ''\"length'') \<Longrightarrow> search_length (file_status pre n post) = Some (show_nat n)"
proof (induction pre)
  case Nil
  have "file_status [] n post = CHR ''\"'' # tl (''\"length\":'' @ show_nat n @ '','' @ post)" by (simp add: file_status_def)
  moreover have "length_here (file_status [] n post) = Some (show_nat n)" using length_here_status [of n post] by (simp add: file_status_def)
  ultimately show ?case by simp
next
  case (Cons c cs)
  have "file_status (c # cs) n post = ((c # cs) @ ''\"length'') @ (''\":'' @ show_nat n @ '','' @ post)" by (simp add: file_status_def)
  then have "take 8 (file_status (c # cs) n post) = take 8 ((c # cs) @ ''\"length'')" by (simp only: take_append) simp
  moreover have "take 8 ((c # cs) @ ''\"length'') \<noteq> ''\"length\"''" using Cons.prems by simp
  ultimately have "length_here (file_status (c # cs) n post) = None" using length_here_key by (metis option.exhaust)
  then show ?case using Cons by (simp add: file_status_def)
qed

section \<open>The probes find the size\<close>

text \<open>
  Servers that know that the file has \<open>n\<close> bytes, for each kind of endpoint: an answer to \<open>HEAD\<close> carries the
  length; an answer to a request for the first byte has the \<open>Content-Range\<close> line, and no answer has
  another one; a file status carries the length, and its key does not occur before. Failing attempts
  may answer anything else.
\<close>

definition head_reports :: "'e probe_env \<Rightarrow> nat \<Rightarrow> bool" where
  "head_reports pe n \<longleftrightarrow>
     (\<forall>opts e e'. opt_nobody opts \<longrightarrow> easy_perform (pe_conn pe opts) e = (CURLE_OK, e') \<longrightarrow> pe_content_length pe e' = (CURLE_OK, int n))"

definition range_reports :: "'e probe_env \<Rightarrow> nat \<Rightarrow> bool" where
  "range_reports pe n \<longleftrightarrow>
     (\<forall>e line. line \<in> set (pe_headers pe e) \<longrightarrow>
        line = map char_byte (content_range_line n) \<or> search_content_range (bytes_string line) = None) \<and>
     (\<forall>opts e e'. opt_range opts = Some ''0-0'' \<longrightarrow> easy_perform (pe_conn pe opts) e = (CURLE_OK, e') \<longrightarrow>
        map char_byte (content_range_line n) \<in> set (pe_headers pe e'))"

definition status_reports :: "'e probe_env \<Rightarrow> string \<Rightarrow> nat \<Rightarrow> bool" where
  "status_reports pe url n \<longleftrightarrow>
     (\<forall>e c. c \<in> set (pe_body pe e) \<longrightarrow> length c < 2 ^ 64) \<and>
     (\<forall>opts e e'. opt_url opts = url @ ''op=GETFILESTATUS'' \<longrightarrow> easy_perform (pe_conn pe opts) e = (CURLE_OK, e') \<longrightarrow>
        response_code (pe_conn pe opts) e' = (CURLE_OK, 200) \<and>
        (\<exists>pre post. concat (pe_body pe e') = map char_byte (file_status pre n post) \<and> \<not> key_stands (pre @ ''\"length'')))"

definition reports_size :: "'e probe_env \<Rightarrow> RemoteEndpoint \<Rightarrow> nat \<Rightarrow> bool" where
  "reports_size pe ep n =
     (case ep of
        S3EndpointWithPresignedUrl _ \<Rightarrow> range_reports pe n
      | WebHdfsEndpoint u username \<Rightarrow> status_reports pe (webhdfs_query u username) n
      | _ \<Rightarrow> head_reports pe n)"

definition first_attempt_ok :: "'e probe_env \<Rightarrow> CurlOptions \<Rightarrow> 'e probe_state \<Rightarrow> bool" where
  "first_attempt_ok pe opts st \<longleftrightarrow>
     fst (easy_perform (pe_conn pe opts) (clear_errbuf (pe_conn pe opts) (pb_net st))) = CURLE_OK"

lemma timed_perform_invariant:
  assumes "I w" "\<And>w. I w \<Longrightarrow> I (clear_errbuf api w)" "\<And>w c w'. I w \<Longrightarrow> easy_perform api w = (c, w') \<Longrightarrow> J c w'"
    and "\<And>c w. J c w \<Longrightarrow> I (run_hook h w)" and "0 < attempts" and "timed_perform api attempts codes h elapsed w cs = (r, w', cs')"
  shows "\<exists>c. J c w' \<and> r = (if c = CURLE_OK then Inr () else Inl Runtime_Error)
    \<and> (fst (easy_perform api (clear_errbuf api w)) = CURLE_OK \<longrightarrow> c = CURLE_OK)"
proof -
  obtain st' where "perform api attempts codes h \<lparr>world = w, perf_counters = cs, perf_trace = []\<rparr> = (r, st')" "w' = world st'"
    using assms(6) by (auto simp: timed_perform_def split: prod.splits)
  from perform_invariant [OF _ _ _ _ assms(5) this(1), of I J] this(2) show ?thesis using assms(1-4) by auto
qed

lemma head_finds_size:
  assumes "head_reports pe n" "n < 2 ^ 63" "0 < pe_attempts pe" "opt_nobody opts"
    and "get_file_size_using_head_impl pe elapsed opts st = (r, st')"
  shows "(r = Inr (of_nat n) \<or> r = Inl Runtime_Error) \<and> (first_attempt_ok pe opts st \<longrightarrow> r = Inr (of_nat n))"
proof -
  let ?api = "pe_conn pe opts"
  obtain q e c where t: "timed_perform ?api (pe_attempts pe) (pe_codes pe) None elapsed (pb_net st) (pb_counters st) = (q, e, c)"
    by (metis prod_cases3)
  have "\<exists>c. (c = CURLE_OK \<longrightarrow> pe_content_length pe e = (CURLE_OK, int n)) \<and> q = (if c = CURLE_OK then Inr () else Inl Runtime_Error)
      \<and> (fst (easy_perform ?api (clear_errbuf ?api (pb_net st))) = CURLE_OK \<longrightarrow> c = CURLE_OK)"
    by (rule timed_perform_invariant [OF _ _ _ _ assms(3) t, where I = "\<lambda>_. True"])
      (use assms(1,4) in \<open>auto simp: head_reports_def\<close>)
  moreover have "word_of_int (int n) = (of_nat n :: size_t)" by simp
  ultimately show ?thesis
    using assms(5) t by (auto simp: get_file_size_using_head_impl_def first_attempt_ok_def res_simps split: if_splits)
qed

lemma callback_header_line:
  "n < 2 ^ 63 \<Longrightarrow> callback_header (map char_byte (content_range_line n)) (k, out, t) = (True, (int n, out, t))"
  using leading_int_show_nat [of "[]" n] by (simp add: callback_header_def search_content_range_line fits_signed_def)

lemma feed_headers:
  assumes "n < 2 ^ 63" "\<And>line. line \<in> set hs \<Longrightarrow> line = map char_byte (content_range_line n) \<or> search_content_range (bytes_string line) = None"
  shows "\<exists>k'. feed_all callback_header hs (k, out, False) = (True, (k', out, False)) \<and>
    (map char_byte (content_range_line n) \<in> set hs \<or> k = int n \<longrightarrow> k' = int n)"
  using assms(2)
proof (induction hs arbitrary: k)
  case (Cons line hs)
  consider "line = map char_byte (content_range_line n)" | "line \<noteq> map char_byte (content_range_line n)" "search_content_range (bytes_string line) = None"
    using Cons.prems [of line] by auto
  then show ?case
  proof cases
    case 1
    have "callback_header line (k, out, False) = (True, (int n, out, False))" unfolding 1 by (rule callback_header_line [OF assms(1)])
    then show ?thesis using Cons.IH [of "int n"] Cons.prems by auto
  next
    case 2
    then have "callback_header line (k, out, False) = (True, (k, out, False))" by (simp add: callback_header_def)
    then show ?thesis using Cons.IH [of k] Cons.prems 2(1) by auto
  qed
qed simp

lemma presigned_attempt:
  assumes rep: "range_reports pe n" and n: "n < 2 ^ 63" and opts: "opt_range opts = Some ''0-0''"
    and w: "hw_sink w = (k, out, False)"
    and p: "easy_perform (presigned_api (pe_conn pe opts) (pe_headers pe) (pe_body pe)) w = (c, w')"
  shows "c = fst (easy_perform (pe_conn pe opts) (hw_net w)) \<and>
    (\<exists>k' out'. hw_sink w' = (k', out', False) \<and> (c = CURLE_OK \<longrightarrow> k' = int n))"
proof -
  obtain code e where e: "easy_perform (pe_conn pe opts) (hw_net w) = (code, e)" by (cases "easy_perform (pe_conn pe opts) (hw_net w)")
  have lines: "line = map char_byte (content_range_line n) \<or> search_content_range (bytes_string line) = None" if "line \<in> set (pe_headers pe e)" for line
    by (rule rep [unfolded range_reports_def, THEN conjunct1, rule_format, OF that])
  have sends: "map char_byte (content_range_line n) \<in> set (pe_headers pe e)" if "code = CURLE_OK"
    by (rule rep [unfolded range_reports_def, THEN conjunct2, rule_format, OF opts e [unfolded that]])
  obtain k' where "feed_all callback_header (pe_headers pe e) (k, out, False) = (True, (k', out, False))"
      "map char_byte (content_range_line n) \<in> set (pe_headers pe e) \<longrightarrow> k' = int n"
    using feed_headers [OF n lines] by blast
  then show ?thesis using p w e sends by (auto simp: presigned_api_def sink_api_def Let_def)
qed

lemma presigned_finds_size:
  assumes "range_reports pe n" "n < 2 ^ 63" "0 < pe_attempts pe" "opt_range opts = Some ''0-0''"
    and "presigned_get_file_size pe elapsed opts st = (r, st')"
  shows "(r = Inr (of_nat n) \<or> r = Inl Runtime_Error) \<and> (first_attempt_ok pe opts st \<longrightarrow> r = Inr (of_nat n))"
proof -
  let ?api = "presigned_api (pe_conn pe opts) (pe_headers pe) (pe_body pe)"
  let ?w = "\<lparr>hw_sink = (0, pb_stdout st, False), hw_net = pb_net st\<rparr>"
  obtain q w c where t: "timed_perform ?api (pe_attempts pe) (pe_codes pe) None elapsed ?w (pb_counters st) = (q, w, c)"
    by (metis prod_cases3)
  note attempt = presigned_attempt [OF assms(1,2,4)]
  have clear: "clear_errbuf ?api w = w\<lparr>hw_net := clear_errbuf (pe_conn pe opts) (hw_net w)\<rparr>" for w
    by (simp add: presigned_api_def sink_api_def)
  have "\<exists>c. (\<exists>k out. hw_sink w = (k, out, False) \<and> (c = CURLE_OK \<longrightarrow> k = int n)) \<and> q = (if c = CURLE_OK then Inr () else Inl Runtime_Error)
      \<and> (fst (easy_perform ?api (clear_errbuf ?api ?w)) = CURLE_OK \<longrightarrow> c = CURLE_OK)"
  proof (rule timed_perform_invariant [OF _ _ _ _ assms(3) t, where I = "\<lambda>w. \<exists>k out. hw_sink w = (k, out, False)"])
    show "\<exists>k out. hw_sink w' = (k, out, False) \<and> (c = CURLE_OK \<longrightarrow> k = int n)"
      if "\<exists>k out. hw_sink w = (k, out, False)" "easy_perform ?api w = (c, w')" for w c w'
      using attempt [OF _ that(2)] that(1) by blast
  qed (auto simp: clear run_hook_def)
  moreover have "fst (easy_perform ?api (clear_errbuf ?api ?w)) = CURLE_OK" if "first_attempt_ok pe opts st"
    using attempt [of "clear_errbuf ?api ?w" 0 "pb_stdout st"] that
    by (cases "easy_perform ?api (clear_errbuf ?api ?w)") (auto simp: clear first_attempt_ok_def)
  moreover have "word_of_int (int n) = (of_nat n :: size_t)" by simp
  ultimately show ?thesis
    using assms(5) t by (auto simp: presigned_get_file_size_def Let_def split: if_splits)
qed

lemma feed_string:
  assumes "\<And>c. c \<in> set cs \<Longrightarrow> length c < 2 ^ 64"
  shows "feed_all string_feed cs s = (True, s @ concat cs)"
  using assms
proof (induction cs arbitrary: s)
  case (Cons c cs)
  have "string_feed c s = (True, s @ c)"
    using Cons.prems [of c] by (simp add: string_feed_def callback_get_string_response_def unat_of_nat_size_t)
  then show ?case using Cons by simp
qed simp

lemma webhdfs_finds_size:
  assumes rep: "status_reports pe url n" and n: "n < 2 ^ 63" and pos: "0 < pe_attempts pe"
    and opts: "opt_url opts = url @ ''op=GETFILESTATUS''" and get: "webhdfs_get_file_size pe elapsed opts st = (r, st')"
  shows "(r = Inr (of_nat n) \<or> r = Inl Runtime_Error) \<and> (first_attempt_ok pe opts st \<longrightarrow> r = Inr (of_nat n))"
proof -
  let ?net = "pe_conn pe opts"
  let ?api = "sink_api ?net (pe_body pe) string_feed" and ?w = "\<lparr>hw_sink = [], hw_net = pb_net st\<rparr>"
  let ?good = "\<lambda>w. response_code ?net (hw_net w) = (CURLE_OK, 200) \<and> search_length (bytes_string (hw_sink w)) = Some (show_nat n)"
  note small = rep [unfolded status_reports_def, THEN conjunct1, rule_format]
  note sends = rep [unfolded status_reports_def, THEN conjunct2, rule_format, OF opts]
  have attempt: "c = fst (easy_perform ?net (hw_net w)) \<and> (c = CURLE_OK \<longrightarrow> ?good w')"
    if "hw_sink w = []" "easy_perform ?api w = (c, w')" for w c w'
  proof -
    obtain code e where e: "easy_perform ?net (hw_net w) = (code, e)" by (cases "easy_perform ?net (hw_net w)")
    have fed: "feed_all string_feed (pe_body pe e) [] = (True, concat (pe_body pe e))"
      using feed_string [of "pe_body pe e" "[]"] small by simp
    have w': "c = code" "w' = \<lparr>hw_sink = concat (pe_body pe e), hw_net = e\<rparr>" using that e fed by (simp_all add: sink_api_def)
    have "?good w'" if "code = CURLE_OK"
      using sends [OF e [unfolded that]] search_length_status w'(2) by auto
    then show ?thesis using w' e by simp
  qed
  obtain q w c where t: "timed_perform ?api (pe_attempts pe) (pe_codes pe) (Some (reset_hook (\<lambda>_. []))) elapsed ?w (pb_counters st) = (q, w, c)"
    by (metis prod_cases3)
  have clear: "clear_errbuf ?api w = w\<lparr>hw_net := clear_errbuf ?net (hw_net w)\<rparr>" for w by (simp add: sink_api_def)
  have "\<exists>c. (c = CURLE_OK \<longrightarrow> ?good w) \<and> q = (if c = CURLE_OK then Inr () else Inl Runtime_Error)
      \<and> (fst (easy_perform ?api (clear_errbuf ?api ?w)) = CURLE_OK \<longrightarrow> c = CURLE_OK)"
  proof (rule timed_perform_invariant [OF _ _ _ _ pos t, where I = "\<lambda>w. hw_sink w = []"])
    show "c = CURLE_OK \<longrightarrow> ?good w'" if "hw_sink w = []" "easy_perform ?api w = (c, w')" for w c w'
      using attempt [OF that] by blast
  qed (simp_all add: clear run_hook_def reset_hook_def)
  moreover have "fst (easy_perform ?api (clear_errbuf ?api ?w)) = CURLE_OK" if "first_attempt_ok pe opts st"
    using attempt [of "clear_errbuf ?api ?w"] that
    by (cases "easy_perform ?api (clear_errbuf ?api ?w)") (auto simp: clear first_attempt_ok_def)
  ultimately show ?thesis
    using get t n by (auto simp: webhdfs_get_file_size_def Let_def res_simps split: if_splits)
qed

lemma probe_size:
  assumes "probe_options uapi ep = Inr opts" "reports_size pe ep n" "n < 2 ^ 63" "0 < pe_attempts pe"
    and "get_file_size uapi pe elapsed ep st = (r, st')"
  shows "r = Inr (of_nat n) \<or> r = Inl Runtime_Error" "first_attempt_ok pe opts st \<Longrightarrow> r = Inr (of_nat n)"
proof -
  have "(r = Inr (of_nat n) \<or> r = Inl Runtime_Error) \<and> (first_attempt_ok pe opts st \<longrightarrow> r = Inr (of_nat n))"
  proof (cases "\<exists>u. ep = S3EndpointWithPresignedUrl u")
    case True
    then show ?thesis using assms presigned_finds_size [of pe n opts elapsed st r st'] by (auto simp: get_file_size_def reports_size_def)
  next
    case pre: False
    show ?thesis
    proof (cases "\<exists>u user. ep = WebHdfsEndpoint u user")
      case True
      then obtain u user where ep: "ep = WebHdfsEndpoint u user" by blast
      then show ?thesis
        using assms webhdfs_finds_size [of pe "webhdfs_query u user" n opts elapsed st r st'] by (auto simp: get_file_size_def reports_size_def)
    next
      case False
      then have ep: "get_file_size_using_head_impl pe elapsed opts st = (r, st')" "head_reports pe n" "opt_nobody opts"
        using assms pre by (cases ep; auto simp: get_file_size_def reports_size_def bind_res_Inr_iff)+
      then show ?thesis using head_finds_size [OF ep(2) assms(3,4) ep(3,1)] by simp
    qed
  qed
  then show "r = Inr (of_nat n) \<or> r = Inl Runtime_Error" "first_attempt_ok pe opts st \<Longrightarrow> r = Inr (of_nat n)" by simp_all
qed

text \<open>Opening a URL without a given size asks the endpoint that is chosen, or has asked it while choosing.\<close>

lemma open_knows_size:
  assumes "\<And>ep. reports_size pe ep n" "n < 2 ^ 63" "0 < pe_attempts pe"
    and "remote_open uapi env (get_file_size uapi pe elapsed) url ty allow None st = (Inr h, st')"
  shows "rh_nbytes h = of_nat n"
proof -
  let ?probe = "get_file_size uapi pe elapsed"
  have known: "k = of_nat n" if p: "?probe ep s = (Inr k, s')" for ep k s s'
  proof -
    obtain opts where "probe_options uapi ep = Inr opts" using p by (cases "probe_options uapi ep") (auto simp: get_file_size_def)
    from probe_size(1) [OF this assms(1-3) p] show ?thesis by simp
  qed
  have tried: "k = of_nat n" if "try_type uapi env ?probe url sch b t s = (Inr (Some (ep, Some k)), s')" for sch b t s ep k s'
    using that by (auto simp: try_type_def split: sum.splits option.splits if_splits prod.splits dest: known)
  have loop: "k = of_nat n" if "infer_loop uapi env ?probe url sch b al tys s = (Inr (ep, Some k), s')" for sch b al tys s ep k s'
    using that
  proof (induction tys arbitrary: s)
    case (Cons t tys)
    then show ?case by (auto split: prod.splits sum.splits option.splits if_splits dest: tried)
  qed simp
  have chosen: "k = of_nat n" if "choose_endpoint uapi env ?probe url ty al st = (Inr (ep, Some k), s')" for al ep k s'
    using that by (auto simp: choose_endpoint_def infer_endpoint_impl_def split: if_splits sum.splits option.splits dest: loop)
  show ?thesis
    using assms(4)
    by (auto simp: remote_open_def new_remote_handle_probed_def new_remote_handle_def Let_def
        split: prod.splits sum.splits option.splits dest: known chosen)
qed

text \<open>
  The probe of a presigned URL sets no callback for the body: the byte it asks for goes to the standard
  output of the process.
\<close>

definition demo_probe_net :: "nat curl_api" where
  "demo_probe_net = \<lparr>easy_perform = \<lambda>e. (CURLE_OK, Suc e), response_code = \<lambda>_. (CURLE_OK, 206), num_connects = \<lambda>_. (CURLE_OK, 0),
     namelookup_time = \<lambda>_. (CURLE_OK, 0), connect_time = \<lambda>_. (CURLE_OK, 0), appconnect_time = \<lambda>_. (CURLE_OK, 0),
     errbuf = \<lambda>_. [], clear_errbuf = \<lambda>e. e, strerror = \<lambda>_. []\<rparr>"

definition demo_probe :: "nat probe_env" where
  "demo_probe = \<lparr>pe_conn = \<lambda>_. demo_probe_net, pe_headers = \<lambda>_. [map char_byte (content_range_line 70000)], pe_body = \<lambda>_. [[0x50]],
     pe_content_length = \<lambda>_. (CURLE_OK, 1), pe_attempts = 3, pe_codes = []\<rparr>"

definition demo_probe_state :: "nat probe_state" where
  "demo_probe_state = \<lparr>pb_net = 0, pb_counters = zero_counters, pb_stdout = [], pb_unwound = False\<rparr>"

lemma presigned_probe_prints:
  "pb_stdout (snd (presigned_get_file_size demo_probe 0 (create_curl_handle\<lparr>opt_range := Some ''0-0''\<rparr>) demo_probe_state)) = [0x50]"
  by (simp add: presigned_get_file_size_def timed_perform_def perform_def HttpRetryPolicy_def perform_loop.simps perform_attempt_def
      evaluate_def presigned_api_def sink_api_def demo_probe_def demo_probe_net_def demo_probe_state_def callback_header_line Let_def)

text \<open>
  C13. The size of a remote file is found for every kind of endpoint. From a server that knows it, the probe
  returns the size or gives up with a runtime error after its retries, and it returns the size if the first
  attempt succeeds; whatever the failing attempts answered does not show.
\<close>

theorem probe_finds_size:
  assumes "probe_options uapi ep = Inr opts" "reports_size pe ep n" "n < 2 ^ 63" "0 < pe_attempts pe"
    and "get_file_size uapi pe elapsed ep st = (r, st')"
  shows "(r = Inr (of_nat n) \<or> r = Inl Runtime_Error) \<and> (first_attempt_ok pe opts st \<longrightarrow> r = Inr (of_nat n))"
  using probe_size [OF assms] by blast

theorem probe_finds_size_witness:
  "fst (get_file_size (demo_url_api [] []) demo_probe 0 (S3EndpointWithPresignedUrl ''https://h/f?X-Amz-Signature=1'') demo_probe_state)
     = Inr 70000"
proof -
  let ?ep = "S3EndpointWithPresignedUrl ''https://h/f?X-Amz-Signature=1''" and ?uapi = "demo_url_api [] []"
  have "reports_size demo_probe ?ep 70000" by (simp add: reports_size_def range_reports_def demo_probe_def)
  moreover have "probe_options ?uapi ?ep = Inr (create_curl_handle\<lparr>opt_url := ''https://h/f?X-Amz-Signature=1'', opt_range := Some ''0-0''\<rparr>)"
    by simp
  moreover have "first_attempt_ok demo_probe opts demo_probe_state" for opts
    by (simp add: first_attempt_ok_def demo_probe_def demo_probe_net_def)
  moreover have "0 < pe_attempts demo_probe" by (simp add: demo_probe_def)
  ultimately show ?thesis
    using probe_finds_size [of ?uapi ?ep _ demo_probe 70000 0 demo_probe_state
        "fst (get_file_size ?uapi demo_probe 0 ?ep demo_probe_state)" "snd (get_file_size ?uapi demo_probe 0 ?ep demo_probe_state)"]
    by simp
qed

end
