(* ===== verification/Block_Device.thy ===== *)
theory Block_Device
  imports File_Utils Text_Format
begin

text \<open>
  The block device of a file and the page cache of the system: \<open>get_block_device_info\<close> and
  \<open>drop_system_page_cache\<close> of \<open>cpp/src/file_utils.cpp\<close>. The file system is a parameter: what \<open>stat\<close>,
  \<open>access\<close> and \<open>realpath\<close> return, which paths exist and what a file of sysfs holds. The number of a device
  is built as the C library does it.
\<close>

section \<open>Paths and numbers\<close>

text \<open>Paths as \<open>realpath\<close> returns them: absolute, without a slash at the end.\<close>

definition path_filename :: "string \<Rightarrow> string" where
  "path_filename p = rev (takeWhile (\<lambda>c. c \<noteq> CHR ''/'') (rev p))"

definition parent_path :: "string \<Rightarrow> string" where
  "parent_path p = (let q = rev (tl (dropWhile (\<lambda>c. c \<noteq> CHR ''/'') (rev p))) in if q = [] then ''/'' else q)"

definition path_join :: "string \<Rightarrow> string \<Rightarrow> string" where
  "path_join p x = (if p \<noteq> [] \<and> last p = CHR ''/'' then p @ x else p @ ''/'' @ x)"

definition makedev :: "32 word \<Rightarrow> 32 word \<Rightarrow> 64 word" where
  "makedev ma mi =
     push_bit 32 (ucast (ma AND 0xfffff000)) OR push_bit 8 (ucast (ma AND 0xfff)) OR
     push_bit 12 (ucast (mi AND 0xffffff00)) OR ucast (mi AND 0xff)"

text \<open>
  \<open>operator>>\<close> into an \<open>unsigned\<close>: white space, a sign, digits. The value, whether the stream is still good,
  and the rest. Too large a number leaves the largest one, no number leaves zero.
\<close>

definition read_unsigned :: "string \<Rightarrow> 32 word \<times> bool \<times> string" where
  "read_unsigned s =
     (let t = dropWhile is_space s;
          neg = (t \<noteq> [] \<and> hd t = CHR ''-'');
          u = (if t \<noteq> [] \<and> (hd t = CHR ''-'' \<or> hd t = CHR ''+'') then tl t else t)
      in case scan_nat u of
           None \<Rightarrow> (0, False, u)
         | Some (n, rest) \<Rightarrow>
             if n \<ge> 2 ^ 32 then (- 1, False, rest) else (if neg then - of_nat n else of_nat n, True, rest))"

definition read_char :: "string \<Rightarrow> char option \<times> string" where
  "read_char s = (case dropWhile is_space s of [] \<Rightarrow> (None, []) | c # cs \<Rightarrow> (Some c, cs))"

text \<open>\<open>ifs >> major >> colon >> minor\<close>, and then only the colon is looked at.\<close>

definition parse_dev :: "string \<Rightarrow> (32 word \<times> 32 word) res" where
  "parse_dev s =
     (let (ma, good, s1) = read_unsigned s in
      if \<not> good then Inl CUfile_Exception
      else let (colon, s2) = read_char s1 in
           if colon \<noteq> Some (CHR '':'') then Inl CUfile_Exception
           else let (mi, _, _) = read_unsigned s2 in Inr (ma, mi))"

text \<open>\<open>^nvme\d+n\d+$\<close>.\<close>

definition is_nvme_name :: "string \<Rightarrow> bool" where
  "is_nvme_name s =
     (case scan_text ''nvme'' s of
        None \<Rightarrow> False
      | Some t \<Rightarrow>
          takeWhile is_digit t \<noteq> [] \<and>
          (case dropWhile is_digit t of
             c # u \<Rightarrow> c = CHR ''n'' \<and> u \<noteq> [] \<and> list_all is_digit u
           | [] \<Rightarrow> False))"

section \<open>The block device of a file\<close>

record BlockDeviceInfo =
  bd_id :: "64 word"
  bd_name :: string
  bd_major :: "32 word"
  bd_minor :: "32 word"

record sysfs =
  fs_stat_dev :: "string \<Rightarrow> nat + (32 word \<times> 32 word)"
  fs_access :: "string \<Rightarrow> nat option"
  fs_realpath :: "string \<Rightarrow> nat + string"
  fs_exists :: "string \<Rightarrow> bool"
  fs_read :: "string \<Rightarrow> string option"

definition sysfs_path :: "32 word \<Rightarrow> 32 word \<Rightarrow> string" where
  "sysfs_path ma mi = ''/sys/dev/block/'' @ show_nat (unat ma) @ '':'' @ show_nat (unat mi)"

text \<open>The directory of the whole device, and the file with its number.\<close>

definition base_device :: "sysfs \<Rightarrow> string \<Rightarrow> string" where
  "base_device fs p = (if fs_exists fs (path_join p ''partition'') then parent_path p else p)"

definition device_file :: "string \<Rightarrow> string \<times> string" where
  "device_file p =
     (if is_nvme_name (path_filename p) then (path_join (parent_path p) ''dev'', path_filename (parent_path p))
      else (p @ ''/dev'', path_filename p))"

definition look_up_block_device :: "sysfs \<Rightarrow> string \<Rightarrow> BlockDeviceInfo res" where
  "look_up_block_device fs file_path =
     (case fs_stat_dev fs file_path of
        Inl errno \<Rightarrow> Inl (Generic_System_Error errno)
      | Inr (ma, mi) \<Rightarrow>
          (case fs_access fs (sysfs_path ma mi) of
             Some errno \<Rightarrow> Inl (Generic_System_Error errno)
           | None \<Rightarrow>
               (case fs_realpath fs (sysfs_path ma mi) of
                  Inl errno \<Rightarrow> Inl (Generic_System_Error errno)
                | Inr resolved \<Rightarrow>
                    let (dev_file, name) = device_file (base_device fs resolved) in
                    (case fs_read fs dev_file of
                       None \<Rightarrow> Inl CUfile_Exception
                     | Some txt \<Rightarrow>
                         bind_res (parse_dev txt) (\<lambda>(dma, dmi).
                           Inr \<lparr>bd_id = makedev dma dmi, bd_name = name, bd_major = dma, bd_minor = dmi\<rparr>)))))"

text \<open>The cache by path: an entry is never overwritten.\<close>

type_synonym device_cache = "string \<rightharpoonup> BlockDeviceInfo"

definition try_emplace :: "string \<Rightarrow> BlockDeviceInfo \<Rightarrow> device_cache \<Rightarrow> device_cache" where
  "try_emplace p info cache = (case cache p of None \<Rightarrow> cache(p \<mapsto> info) | Some _ \<Rightarrow> cache)"

definition get_block_device_info :: "sysfs \<Rightarrow> string \<Rightarrow> device_cache \<Rightarrow> BlockDeviceInfo res \<times> device_cache" where
  "get_block_device_info fs file_path cache =
     (case cache file_path of
        Some info \<Rightarrow> (Inr info, cache)
      | None \<Rightarrow>
          (case look_up_block_device fs file_path of
             Inl x \<Rightarrow> (Inl x, cache)
           | Inr info \<Rightarrow> (Inr info, try_emplace file_path info cache)))"

section \<open>The page cache of the system\<close>

text \<open>\<open>exec\<close> runs a command and returns what it wrote to its error output, or the error of \<open>popen\<close>.\<close>

definition drop_cache_commands :: "bool \<Rightarrow> string list" where
  "drop_cache_commands reclaim_dentries_and_inodes =
     (let param = (if reclaim_dentries_and_inodes then ''3'' else ''1'')
      in [''/sbin/sysctl vm.drop_caches='' @ param, ''sudo /sbin/sysctl vm.drop_caches='' @ param])"

definition redirected_command :: "string \<Rightarrow> string" where
  "redirected_command cmd = ''( '' @ cmd @ '' 3>&2 2>&1 1>&3) 2>/dev/null''"

fun try_commands :: "(string \<Rightarrow> 'o \<Rightarrow> (nat + string) \<times> 'o) \<Rightarrow> string list \<Rightarrow> 'o \<Rightarrow> bool res \<times> 'o" where
  "try_commands exec [] w = (Inr False, w)"
| "try_commands exec (cmd # cmds) w =
     (case exec (redirected_command cmd) w of
        (Inl errno, w1) \<Rightarrow> (Inl (Generic_System_Error errno), w1)
      | (Inr error_out, w1) \<Rightarrow> if error_out = [] then (Inr True, w1) else try_commands exec cmds w1)"

definition drop_system_page_cache ::
  "(string \<Rightarrow> 'o \<Rightarrow> (nat + string) \<times> 'o) \<Rightarrow> ('o \<Rightarrow> 'o) \<Rightarrow> bool \<Rightarrow> bool \<Rightarrow> 'o \<Rightarrow> bool res \<times> 'o"
where
  "drop_system_page_cache exec sync reclaim_dentries_and_inodes sync_first w =
     try_commands exec (drop_cache_commands reclaim_dentries_and_inodes) (if sync_first then sync w else w)"

section \<open>What is found\<close>

text \<open>The number of a device tells its major and minor number.\<close>

lemma bit_hi: "bit (0xfffff000 :: 32 word) i = (12 \<le> i \<and> i < 32)"
  and bit_lo: "bit (0xfff :: 32 word) i = (i < 12)"
  and bit_hi8: "bit (0xffffff00 :: 32 word) i = (8 \<le> i \<and> i < 32)"
  and bit_lo8: "bit (0xff :: 32 word) i = (i < 8)"
proof -
  have m: "(0xfff :: 32 word) = mask 12" "(0xff :: 32 word) = mask 8" "(0xfffff000 :: 32 word) = push_bit 12 (mask 20)" "(0xffffff00 :: 32 word) = push_bit 8 (mask 24)"
    by (simp_all add: mask_eq_exp_minus_1 push_bit_eq_mult)
  show "bit (0xfffff000 :: 32 word) i = (12 \<le> i \<and> i < 32)" "bit (0xfff :: 32 word) i = (i < 12)"
   "bit (0xffffff00 :: 32 word) i = (8 \<le> i \<and> i < 32)" "bit (0xff :: 32 word) i = (i < 8)"
    unfolding m by (auto simp: bit_push_bit_iff bit_mask_iff)
qed

lemma makedev_bits:
  "i < 8 \<Longrightarrow> bit (makedev ma mi) i = bit mi i"
  "8 \<le> i \<Longrightarrow> i < 20 \<Longrightarrow> bit (makedev ma mi) i = bit ma (i - 8)"
  "20 \<le> i \<Longrightarrow> i < 44 \<Longrightarrow> bit (makedev ma mi) i = bit mi (i - 12)"
  "44 \<le> i \<Longrightarrow> i < 64 \<Longrightarrow> bit (makedev ma mi) i = bit ma (i - 32)"
  unfolding makedev_def bit_or_iff bit_push_bit_iff bit_and_iff bit_ucast_iff bit_hi bit_lo bit_hi8 bit_lo8
  by (simp, simp, auto)
lemma makedev_inj:
  assumes "makedev ma mi = makedev ma' mi'"
  shows "ma = ma' \<and> mi = mi'"
proof
  have b: "bit (makedev ma mi) i = bit (makedev ma' mi') i" for i using assms by simp
  show "ma = ma'"
  proof (rule bit_word_eqI)
    fix j assume "j < LENGTH(32)"
    then show "bit ma j = bit ma' j"
      using b [of "j + 8"] b [of "j + 32"] makedev_bits(2) [of "j + 8"] makedev_bits(4) [of "j + 32"] by (cases "j < 12") simp_all
  qed
  show "mi = mi'"
  proof (rule bit_word_eqI)
    fix j assume "j < LENGTH(32)"
    then show "bit mi j = bit mi' j"
      using b [of j] b [of "j + 12"] makedev_bits(1) [of j] makedev_bits(3) [of "j + 12"] by (cases "j < 8") simp_all
  qed
qed

text \<open>The namespaces of one NVMe controller are one device, so that they share a thread pool.\<close>

lemma path_parts:
  assumes "CHR ''/'' \<notin> set x" "p \<noteq> []"
  shows "path_filename (p @ ''/'' @ x) = x" "parent_path (p @ ''/'' @ x) = p"
proof -
  have no: "c \<noteq> CHR ''/''" if "c \<in> set (rev x)" for c using assms(1) that by auto
  have "takeWhile (\<lambda>c. c \<noteq> CHR ''/'') (rev x @ CHR ''/'' # rev p) = rev x"
    by (subst takeWhile_append2) (use no in simp_all)
  moreover have "dropWhile (\<lambda>c. c \<noteq> CHR ''/'') (rev x @ CHR ''/'' # rev p) = CHR ''/'' # rev p"
    by (subst dropWhile_append2) (use no in simp_all)
  ultimately show "path_filename (p @ ''/'' @ x) = x" "parent_path (p @ ''/'' @ x) = p"
    using assms(2) by (simp_all add: path_filename_def parent_path_def)
qed

lemma nvme_no_slash:
  assumes "is_nvme_name x"
  shows "CHR ''/'' \<notin> set x"
proof -
  obtain t where t: "scan_text ''nvme'' x = Some t" using assms by (auto simp: is_nvme_name_def split: option.splits)
  have digit: "\<not> is_digit (CHR ''/'')" by (simp add: is_digit_def)
  have st: "scan_text p s = Some r \<Longrightarrow> s = p @ r" for p s r
    by (induction p s rule: scan_text.induct) (auto split: if_splits)
  obtain u where "dropWhile is_digit t = CHR ''n'' # u" "list_all is_digit u"
    using assms t by (auto simp: is_nvme_name_def split: list.splits)
  then have "t = takeWhile is_digit t @ CHR ''n'' # u" by (metis takeWhile_dropWhile_id)
  then have "set t = set (takeWhile is_digit t @ CHR ''n'' # u)" by (rule arg_cong)
  also have "\<dots> = set (takeWhile is_digit t) \<union> insert (CHR ''n'') (set u)" by simp
  finally have "set t = set (takeWhile is_digit t) \<union> insert (CHR ''n'') (set u)" .
  moreover have "CHR ''/'' \<notin> set (takeWhile is_digit t)" using digit by (auto dest: set_takeWhileD)
  moreover have "CHR ''/'' \<notin> set u" using \<open>list_all is_digit u\<close> digit by (auto simp: list_all_iff)
  ultimately have "CHR ''/'' \<notin> set t" by simp
  then show ?thesis using st [OF t] by auto
qed

lemma namespaces_share_controller:
  assumes "is_nvme_name a" "is_nvme_name b" "ctrl \<noteq> []"
  shows "device_file (ctrl @ ''/'' @ a) = device_file (ctrl @ ''/'' @ b)"
  using assms path_parts [OF nvme_no_slash [OF assms(1)] assms(3)] path_parts [OF nvme_no_slash [OF assms(2)] assms(3)]
  by (simp add: device_file_def)

text \<open>What was found for a path stays.\<close>

lemma block_device_cached:
  assumes "get_block_device_info fs p cache = (Inr info, cache')"
  shows "get_block_device_info fs' p cache' = (Inr info, cache')" "cache \<subseteq>\<^sub>m cache'"
  using assms by (auto simp: get_block_device_info_def try_emplace_def map_le_def split: option.splits sum.splits)

text \<open>A device file that ends after the colon is taken for minor number zero.\<close>

lemma missing_minor_accepted: "parse_dev ''8:'' = Inr (8, 0)"
  by (simp add: parse_dev_def read_unsigned_def read_char_def scan_nat_def read_nat_def is_digit_def is_space_def digit_val_def)

end
