(* ===== verification/Url_Builder.thy ===== *)
theory Url_Builder
  imports Url
begin

text \<open>
  \<open>CurlUrlHandle\<close> and \<open>UrlBuilder\<close> of \<open>cpp/src/detail/url.cpp\<close>: the owner of a libcurl URL handle, and a builder
  that sets the components of such a handle one by one. libcurl's calls on handles are parameters; a
  handle is an address in a heap of libcurl, zero is none.
\<close>

section \<open>The owner of a handle\<close>

text \<open>\<open>curl_url\<close> returns an address, \<open>curl_url_cleanup\<close> frees one.\<close>

record 'e url_heap_api =
  curl_url :: "'e \<Rightarrow> ptr \<times> 'e"
  curl_url_cleanup :: "ptr \<Rightarrow> 'e \<Rightarrow> 'e"
  curl_url_set :: "ptr \<Rightarrow> CURLUPart \<Rightarrow> string option \<Rightarrow> nat \<Rightarrow> 'e \<Rightarrow> CURLUcode \<times> 'e"
  curl_url_get :: "ptr \<Rightarrow> CURLUPart \<Rightarrow> nat \<Rightarrow> 'e \<Rightarrow> CURLUcode \<times> string option"

definition new_url_handle :: "'e url_heap_api \<Rightarrow> 'e \<Rightarrow> ptr res \<times> 'e" where
  "new_url_handle api e = (let (h, e1) = curl_url api e in (bind_res (kvikio_expect (h \<noteq> 0) CUfile_Exception) (\<lambda>_. Inr h), e1))"

definition url_handle_destroy :: "'e url_heap_api \<Rightarrow> ptr \<Rightarrow> 'e \<Rightarrow> 'e" where
  "url_handle_destroy api h e = (if h \<noteq> 0 then curl_url_cleanup api h e else e)"

definition url_handle_move :: "ptr \<Rightarrow> ptr \<times> ptr" where
  "url_handle_move other = (other, 0)"

definition url_handle_move_assign :: "'e url_heap_api \<Rightarrow> ptr \<Rightarrow> ptr \<Rightarrow> 'e \<Rightarrow> (ptr \<times> ptr) \<times> 'e" where
  "url_handle_move_assign api this other e = ((other, 0), if this \<noteq> 0 then curl_url_cleanup api this e else e)"

section \<open>The builder\<close>

definition set_component :: "'e url_heap_api \<Rightarrow> ptr \<Rightarrow> CURLUPart \<Rightarrow> string option \<Rightarrow> nat option \<Rightarrow> 'e \<Rightarrow> unit res \<times> 'e" where
  "set_component api h part v flags e =
     (let (code, e1) = curl_url_set api h part v (case flags of None \<Rightarrow> 0 | Some f \<Rightarrow> f) e in (check_curl_url_err code, e1))"

definition set_scheme :: "'e url_heap_api \<Rightarrow> ptr \<Rightarrow> string option \<Rightarrow> 'e \<Rightarrow> unit res \<times> 'e" where
  "set_scheme api h v = set_component api h CURLUPART_SCHEME v None"

definition set_host :: "'e url_heap_api \<Rightarrow> ptr \<Rightarrow> string option \<Rightarrow> 'e \<Rightarrow> unit res \<times> 'e" where
  "set_host api h v = set_component api h CURLUPART_HOST v None"

definition set_port :: "'e url_heap_api \<Rightarrow> ptr \<Rightarrow> string option \<Rightarrow> 'e \<Rightarrow> unit res \<times> 'e" where
  "set_port api h v = set_component api h CURLUPART_PORT v None"

definition set_path :: "'e url_heap_api \<Rightarrow> ptr \<Rightarrow> string option \<Rightarrow> 'e \<Rightarrow> unit res \<times> 'e" where
  "set_path api h v = set_component api h CURLUPART_PATH v None"

definition set_query :: "'e url_heap_api \<Rightarrow> ptr \<Rightarrow> string option \<Rightarrow> 'e \<Rightarrow> unit res \<times> 'e" where
  "set_query api h v = set_component api h CURLUPART_QUERY v None"

definition set_fragment :: "'e url_heap_api \<Rightarrow> ptr \<Rightarrow> string option \<Rightarrow> 'e \<Rightarrow> unit res \<times> 'e" where
  "set_fragment api h v = set_component api h CURLUPART_FRAGMENT v None"

lemmas url_setter_defs = set_scheme_def set_host_def set_port_def set_path_def set_query_def set_fragment_def

text \<open>Setting in sequence; an absent component is left alone. When a step throws, the handle is freed.\<close>

fun set_present :: "((string option \<Rightarrow> 'e \<Rightarrow> unit res \<times> 'e) \<times> string option) list \<Rightarrow> 'e \<Rightarrow> unit res \<times> 'e" where
  "set_present [] e = (Inr (), e)"
| "set_present ((setter, v) # rest) e =
     (case v of
        None \<Rightarrow> set_present rest e
      | Some _ \<Rightarrow> (case setter v e of (Inl x, e1) \<Rightarrow> (Inl x, e1) | (Inr _, e1) \<Rightarrow> set_present rest e1))"

definition or_destroy :: "'e url_heap_api \<Rightarrow> ptr \<Rightarrow> unit res \<times> 'e \<Rightarrow> ptr res \<times> 'e" where
  "or_destroy api h r = (case r of (Inl x, e) \<Rightarrow> (Inl x, url_handle_destroy api h e) | (Inr _, e) \<Rightarrow> (Inr h, e))"

definition new_url_builder_from_url :: "'e url_heap_api \<Rightarrow> string \<Rightarrow> nat option \<Rightarrow> 'e \<Rightarrow> ptr res \<times> 'e" where
  "new_url_builder_from_url api url bitmask_url_flags e =
     (case new_url_handle api e of
        (Inl x, e1) \<Rightarrow> (Inl x, e1)
      | (Inr h, e1) \<Rightarrow> or_destroy api h (set_component api h CURLUPART_URL (Some url) bitmask_url_flags e1))"

definition new_url_builder_from_components :: "'e url_heap_api \<Rightarrow> UrlComponents \<Rightarrow> nat option \<Rightarrow> 'e \<Rightarrow> ptr res \<times> 'e" where
  "new_url_builder_from_components api components bitmask_url_flags e =
     (case new_url_handle api e of
        (Inl x, e1) \<Rightarrow> (Inl x, e1)
      | (Inr h, e1) \<Rightarrow>
          or_destroy api h
            (set_present [(set_scheme api h, scheme components), (set_host api h, host components), (set_port api h, port components),
                          (set_path api h, path components), (set_query api h, query components), (set_fragment api h, fragment components)] e1))"

definition url_build :: "'e url_heap_api \<Rightarrow> ptr \<Rightarrow> nat option \<Rightarrow> 'e \<Rightarrow> string res" where
  "url_build api h bitmask_component_flags e =
     (case curl_url_get api h CURLUPART_URL (case bitmask_component_flags of None \<Rightarrow> 0 | Some f \<Rightarrow> f) e of
        (code, url) \<Rightarrow>
          bind_res (check_curl_url_err code) (\<lambda>_. case url of Some u \<Rightarrow> Inr u | None \<Rightarrow> Inl Runtime_Error))"

section \<open>What the builder holds\<close>

text \<open>The flags given together with components are not used.\<close>

lemma component_flags_ignored: "new_url_builder_from_components api c f e = new_url_builder_from_components api c g e"
  by (simp add: new_url_builder_from_components_def)

text \<open>
  For a libcurl that stores the parts of a handle and accepts them all, the builder holds exactly the
  components that are present. \<open>part e h\<close> is what the handle holds.
\<close>

definition stores_parts :: "'e url_heap_api \<Rightarrow> ('e \<Rightarrow> ptr \<Rightarrow> CURLUPart \<rightharpoonup> string) \<Rightarrow> bool" where
  "stores_parts api part \<longleftrightarrow>
     (\<forall>e. case curl_url api e of (h, e') \<Rightarrow> h \<noteq> 0 \<and> part e' h = Map.empty) \<and>
     (\<forall>h p v f e. case curl_url_set api h p v f e of (code, e') \<Rightarrow> code = CURLUE_OK \<and> part e' h = (part e h)(p := v))"

lemma set_component_stores:
  assumes "stores_parts api part"
  shows "\<exists>e'. set_component api h p v f e = (Inr (), e') \<and> part e' h = (part e h)(p := v)"
proof -
  have "case curl_url_set api h p v (case f of None \<Rightarrow> 0 | Some f \<Rightarrow> f) e of (code, e') \<Rightarrow> code = CURLUE_OK \<and> part e' h = (part e h)(p := v)"
    using assms unfolding stores_parts_def by (elim conjE allE)
  then show ?thesis by (auto simp: set_component_def check_curl_url_err_def split: prod.splits)
qed

lemma set_present_stores:
  assumes "stores_parts api part"
  shows "\<exists>e'. set_present (map (\<lambda>(p, v). (\<lambda>v. set_component api h p v None, v)) pvs) e = (Inr (), e') \<and>
    part e' h = fold (\<lambda>(p, v) m. if v = None then m else m(p := v)) pvs (part e h)"
proof (induction pvs arbitrary: e)
  case (Cons pv pvs)
  obtain p v where pv: "pv = (p, v)" by (cases pv)
  show ?case
  proof (cases v)
    case None
    then show ?thesis using Cons.IH [of e] pv by simp
  next
    case (Some x)
    obtain e1 where "set_component api h p (Some x) None e = (Inr (), e1)" "part e1 h = (part e h)(p := Some x)"
      using set_component_stores [OF assms] by blast
    moreover obtain e2 where
      "set_present (map (\<lambda>(p, v). (\<lambda>v. set_component api h p v None, v)) pvs) e1 = (Inr (), e2)"
      "part e2 h = fold (\<lambda>(p, v) m. if v = None then m else m(p := v)) pvs (part e1 h)" using Cons.IH [of e1] by blast
    ultimately show ?thesis using pv Some by (intro exI [of _ e2]) simp
  qed
qed simp

lemma builder_holds_components:
  assumes "stores_parts api part"
  shows "\<exists>h e'. new_url_builder_from_components api c f e = (Inr h, e') \<and>
    part e' h CURLUPART_SCHEME = scheme c \<and> part e' h CURLUPART_HOST = host c \<and> part e' h CURLUPART_PORT = port c \<and>
    part e' h CURLUPART_PATH = path c \<and> part e' h CURLUPART_QUERY = query c \<and> part e' h CURLUPART_FRAGMENT = fragment c"
proof -
  obtain h e1 where n: "curl_url api e = (h, e1)" by (cases "curl_url api e")
  have "case curl_url api e of (h, e') \<Rightarrow> h \<noteq> 0 \<and> part e' h = Map.empty"
    using assms [unfolded stores_parts_def, THEN conjunct1] by (elim allE)
  then have new: "h \<noteq> 0" "part e1 h = Map.empty" using n by simp_all
  let ?pvs = "[(CURLUPART_SCHEME, scheme c), (CURLUPART_HOST, host c), (CURLUPART_PORT, port c),
      (CURLUPART_PATH, path c), (CURLUPART_QUERY, query c), (CURLUPART_FRAGMENT, fragment c)]"
  let ?setters = "[(set_scheme api h, scheme c), (set_host api h, host c), (set_port api h, port c),
      (set_path api h, path c), (set_query api h, query c), (set_fragment api h, fragment c)]"
  obtain e2 where e2: "set_present (map (\<lambda>(p, v). (\<lambda>v. set_component api h p v None, v)) ?pvs) e1 = (Inr (), e2)"
      "part e2 h = fold (\<lambda>(p, v) m. if v = None then m else m(p := v)) ?pvs (part e1 h)"
    using set_present_stores [OF assms] by blast
  have "map (\<lambda>(p, v). (\<lambda>v. set_component api h p v None, v)) ?pvs = ?setters" by (simp add: url_setter_defs fun_eq_iff)
  then have built: "set_present ?setters e1 = (Inr (), e2)" using e2(1) by (simp only:)
  have "new_url_builder_from_components api c f e = (Inr h, e2)"
    unfolding new_url_builder_from_components_def new_url_handle_def n Let_def prod.case
    using new(1) by (simp del: set_present.simps add: built or_destroy_def)
  moreover have "part e2 h CURLUPART_SCHEME = scheme c \<and> part e2 h CURLUPART_HOST = host c \<and> part e2 h CURLUPART_PORT = port c \<and>
    part e2 h CURLUPART_PATH = path c \<and> part e2 h CURLUPART_QUERY = query c \<and> part e2 h CURLUPART_FRAGMENT = fragment c"
    unfolding e2(2) new(2) by simp
  ultimately show ?thesis by blast
qed

end
