(* ===== verification/Number_Text.thy ===== *)
theory Number_Text
  imports Text_Format
begin

text \<open>
  Quantities as text: \<open>cpp/src/detail/string_utils.cpp\<close>. The arithmetic of \<open>double\<close> and its output by a
  stream are a record of operations, because nothing in the library depends on how a \<open>double\<close> rounds; the
  definitions fix which operations are applied to what, and which unit is chosen. A number of
  decimals is a natural number; the streams are in the classic locale.
\<close>

section \<open>Floating point\<close>

text \<open>
  \<open>flt_ratio a b\<close> is the literal with the value \<open>a / b\<close>, \<open>flt_seconds\<close> converts a count of nanoseconds to
  seconds, \<open>flt_fixed\<close> prints with \<open>std::fixed\<close> and the precision given, \<open>flt_show\<close> with the defaults of a
  stream.
\<close>

record 'd doubles =
  flt_of_u64 :: "64 word \<Rightarrow> 'd"
  flt_of_int :: "int \<Rightarrow> 'd"
  flt_ratio :: "nat \<Rightarrow> nat \<Rightarrow> 'd"
  flt_add :: "'d \<Rightarrow> 'd \<Rightarrow> 'd"
  flt_mult :: "'d \<Rightarrow> 'd \<Rightarrow> 'd"
  flt_div :: "'d \<Rightarrow> 'd \<Rightarrow> 'd"
  flt_abs :: "'d \<Rightarrow> 'd"
  flt_le :: "'d \<Rightarrow> 'd \<Rightarrow> bool"
  flt_less :: "'d \<Rightarrow> 'd \<Rightarrow> bool"
  flt_finite :: "'d \<Rightarrow> bool"
  flt_seconds :: "int \<Rightarrow> 'd"
  flt_fixed :: "nat \<Rightarrow> 'd \<Rightarrow> string"
  flt_show :: "'d \<Rightarrow> string"

section \<open>Numbers with a unit\<close>

definition trim_zero_fraction :: "string \<Rightarrow> string" where
  "trim_zero_fraction v =
     (let point = takeWhile (\<lambda>c. c \<noteq> CHR ''.'') v; fraction = drop (length point + 1) v
      in if CHR ''.'' \<notin> set v then v
         else if \<exists>c\<in>set fraction. c \<noteq> CHR ''0'' then v
         else point)"

text \<open>\<open>format\<close>: the sign is taken from the value, the digits from its magnitude.\<close>

definition format_magnitude :: "'d doubles \<Rightarrow> 'd \<Rightarrow> 'd \<Rightarrow> string \<Rightarrow> nat \<Rightarrow> bool \<Rightarrow> string" where
  "format_magnitude F v magnitude unit num_decimals trim =
     (let ret = (if flt_less F v (flt_of_int F 0) then ''-'' else []) @ flt_fixed F num_decimals magnitude
      in (if trim \<and> 0 < num_decimals then trim_zero_fraction ret else ret) @ '' '' @ unit)"

text \<open>The loop that divides by the base until the magnitude is below it or the units are used up.\<close>

fun scale_units :: "'d doubles \<Rightarrow> 'd \<Rightarrow> string list \<Rightarrow> 'd \<Rightarrow> 'd \<times> string" where
  "scale_units F base [] magnitude = (magnitude, [])"
| "scale_units F base [u] magnitude = (magnitude, u)"
| "scale_units F base (u # v # us) magnitude =
     (if flt_le F base magnitude then scale_units F base (v # us) (flt_div F magnitude base) else (magnitude, u))"

definition byte_units :: "string list" where
  "byte_units = [''B'', ''KiB'', ''MiB'', ''GiB'', ''TiB'', ''PiB'', ''EiB'', ''ZiB'', ''YiB'']"

definition rate_units :: "string list" where
  "rate_units = [''B/s'', ''kB/s'', ''MB/s'', ''GB/s'', ''TB/s'', ''PB/s'']"

definition format_nbytes :: "'d doubles \<Rightarrow> 64 word \<Rightarrow> nat \<Rightarrow> bool \<Rightarrow> string" where
  "format_nbytes F nbytes num_decimals trim =
     (let (magnitude, unit) = scale_units F (flt_of_int F 1024) byte_units (flt_of_u64 F nbytes)
      in format_magnitude F (flt_of_u64 F nbytes) magnitude unit num_decimals trim)"

definition format_rate :: "'d doubles \<Rightarrow> 'd \<Rightarrow> nat \<Rightarrow> bool \<Rightarrow> string" where
  "format_rate F bytes_per_sec num_decimals trim =
     (let m = flt_abs F bytes_per_sec;
          (magnitude, unit) = (if flt_finite F m then scale_units F (flt_of_int F 1000) rate_units m else (m, ''B/s''))
      in format_magnitude F bytes_per_sec magnitude unit num_decimals trim)"

text \<open>The first candidate, from the largest unit, that the magnitude reaches; nothing when it reaches none.\<close>

fun reached_unit :: "'d doubles \<Rightarrow> (string \<times> 'd) list \<Rightarrow> 'd \<times> string \<Rightarrow> 'd \<times> string" where
  "reached_unit F [] (magnitude, unit) = (magnitude, unit)"
| "reached_unit F ((name, scale) # candidates) (magnitude, unit) =
     (if flt_le F scale magnitude then (flt_div F magnitude scale, name)
      else reached_unit F candidates (magnitude, unit))"

definition large_units :: "'d doubles \<Rightarrow> (string \<times> 'd) list" where
  "large_units F = [(''d'', flt_of_int F 86400), (''h'', flt_of_int F 3600), (''min'', flt_of_int F 60)]"

definition small_units :: "'d doubles \<Rightarrow> (string \<times> 'd) list" where
  "small_units F = [(''s'', flt_of_int F 1), (''ms'', flt_ratio F 1 1000), (''us'', flt_ratio F 1 1000000),
     (''ns'', flt_ratio F 1 1000000000)]"

definition duration_unit :: "'d doubles \<Rightarrow> 'd \<Rightarrow> 'd \<times> string" where
  "duration_unit F magnitude =
     (if flt_finite F magnitude
      then let (m, unit) = reached_unit F (large_units F) (magnitude, ''s'')
           in if flt_less F m (flt_of_int F 1) then reached_unit F (small_units F) (m, unit) else (m, unit)
      else (magnitude, ''s''))"

definition format_duration :: "'d doubles \<Rightarrow> int \<Rightarrow> nat \<Rightarrow> bool \<Rightarrow> string" where
  "format_duration F duration num_decimals trim =
     (let seconds = flt_seconds F duration; (magnitude, unit) = duration_unit F (flt_abs F seconds)
      in format_magnitude F seconds magnitude unit num_decimals trim)"

section \<open>Facts\<close>

text \<open>Trimming removes nothing but a point and zeros after it.\<close>

lemma trim_zero_fraction_only_zeros:
  "trim_zero_fraction v = v
   \<or> (\<exists>zs. v = trim_zero_fraction v @ CHR ''.'' # zs \<and> set zs \<subseteq> {CHR ''0''})"
proof (cases "CHR ''.'' \<in> set v \<and> (\<forall>c\<in>set (drop (length (takeWhile (\<lambda>c. c \<noteq> CHR ''.'') v) + 1) v). c = CHR ''0'')")
  case True
  let ?p = "takeWhile (\<lambda>c. c \<noteq> CHR ''.'') v"
  from True obtain a b where v: "v = a @ CHR ''.'' # b" "CHR ''.'' \<notin> set a" by (meson split_list_first)
  then have p: "?p = a" by (auto simp: takeWhile_append)
  have "trim_zero_fraction v = a" using True p by (auto simp: trim_zero_fraction_def Let_def)
  moreover have "set b \<subseteq> {CHR ''0''}" using True unfolding p by (auto simp: v(1))
  ultimately show ?thesis using v(1) by auto
next
  case False
  then show ?thesis by (auto simp: trim_zero_fraction_def Let_def)
qed

lemma trim_zero_fraction_idem:
  "trim_zero_fraction (trim_zero_fraction v) = trim_zero_fraction v"
proof -
  have "CHR ''.'' \<notin> set (takeWhile (\<lambda>c. c \<noteq> CHR ''.'') v)" by (auto dest: set_takeWhileD)
  then show ?thesis by (auto simp: trim_zero_fraction_def Let_def)
qed

text \<open>
  The unit chosen: the magnitude has been divided by the base once for every unit passed over, it reached
  the base each time, and it is below the base unless the last unit has been reached.
\<close>

fun divided :: "'d doubles \<Rightarrow> 'd \<Rightarrow> nat \<Rightarrow> 'd \<Rightarrow> 'd" where
  "divided F base 0 x = x"
| "divided F base (Suc k) x = divided F base k (flt_div F x base)"

lemma scale_units_chooses:
  assumes "us \<noteq> []"
  shows "\<exists>k<length us. scale_units F base us x = (divided F base k x, us ! k)
    \<and> (\<forall>j<k. flt_le F base (divided F base j x))
    \<and> (k + 1 = length us \<or> \<not> flt_le F base (divided F base k x))"
  using assms
proof (induction F base us x rule: scale_units.induct)
  case (3 F base u v us x)
  show ?case
  proof (cases "flt_le F base x")
    case True
    with 3 obtain k where k: "k < length (v # us)"
      "scale_units F base (v # us) (flt_div F x base) = (divided F base (Suc k) x, (v # us) ! k)"
      "\<forall>j<k. flt_le F base (divided F base (Suc j) x)"
      "k + 1 = length (v # us) \<or> \<not> flt_le F base (divided F base (Suc k) x)"
      by auto
    have "\<forall>j<Suc k. flt_le F base (divided F base j x)"
      using True k(3) by (auto simp: less_Suc_eq_0_disj)
    with True k show ?thesis by (intro exI [of _ "Suc k"]) simp
  next
    case False
    then show ?thesis by (intro exI [of _ 0]) simp
  qed
qed auto

lemma duration_unit_known:
  "snd (duration_unit F m) \<in> {''d'', ''h'', ''min'', ''s'', ''ms'', ''us'', ''ns''}"
  by (auto simp: duration_unit_def large_units_def small_units_def Let_def split_beta)

end
