(* ===== verification/Nic_Monitor.thy ===== *)
theory Nic_Monitor
  imports Number_Text "HOL-Library.List_Lexorder" "HOL-Library.Char_ord"
begin

text \<open>
  The counters of network interfaces that the Nsight Systems plugin samples:
  \<open>cpp/nsys_plugins/nic/nic_monitor.cpp\<close> and its header. The kernel's calls on the files of
  \<open>/sys/class/net\<close> are a record of functions on an outside state, so that a counter may have another
  value at every read. The lemmas on rates hold for every choice of the operations on \<open>double\<close>.
\<close>

section \<open>The outside\<close>

text \<open>
  \<open>open\<close> (no descriptor when it fails), \<open>read\<close> (no bytes at the end of the file, nothing when it fails),
  \<open>close\<close>, and a \<open>directory_iterator\<close>: nothing when it cannot be opened, otherwise the names it yields and
  whether advancing it failed after them.
\<close>

record 'w net_fs =
  fs_open :: "string \<Rightarrow> 'w \<Rightarrow> int \<times> 'w"
  fs_read :: "int \<Rightarrow> nat \<Rightarrow> 'w \<Rightarrow> string option \<times> 'w"
  fs_close :: "int \<Rightarrow> 'w \<Rightarrow> 'w"
  fs_dir :: "string \<Rightarrow> 'w \<Rightarrow> (string list \<times> bool) option \<times> 'w"

section \<open>Pseudo-files\<close>

definition read_pseudo_file :: "'w net_fs \<Rightarrow> string \<Rightarrow> nat \<Rightarrow> 'w \<Rightarrow> string option \<times> 'w" where
  "read_pseudo_file fs path len w =
     (let (fd, w1) = fs_open fs path w
      in if fd < 0 then (None, w1)
         else let (n, w2) = fs_read fs fd len w1; w3 = fs_close fs fd w2
              in (case n of None \<Rightarrow> (None, w3)
                  | Some bytes \<Rightarrow> (if bytes = [] then None else Some bytes, w3)))"

text \<open>
  \<open>std::from_chars\<close> in base 10, with what follows the number: no space and no sign is skipped, except a
  minus for a signed type, and a value out of the range of the type is an error.
\<close>

definition from_chars_u64 :: "string \<Rightarrow> (64 word \<times> string) option" where
  "from_chars_u64 s = (case scan_nat s of None \<Rightarrow> None
     | Some (n, rest) \<Rightarrow> if n < 2 ^ 64 then Some (of_nat n, rest) else None)"

definition from_chars_ll :: "string \<Rightarrow> (int \<times> string) option" where
  "from_chars_ll s = (case scan_int s of None \<Rightarrow> None
     | Some (i, rest) \<Rightarrow> if - (2 ^ 63) \<le> i \<and> i < 2 ^ 63 then Some (i, rest) else None)"

definition read_u64_file :: "'w net_fs \<Rightarrow> string \<Rightarrow> 'w \<Rightarrow> 64 word option \<times> 'w" where
  "read_u64_file fs path w =
     (let (content, w1) = read_pseudo_file fs path 32 w
      in (Option.bind content (\<lambda>s. map_option fst (from_chars_u64 s)), w1))"

section \<open>Interfaces\<close>

definition sysfs_net :: string where
  "sysfs_net = ''/sys/class/net''"

definition strip_trailing :: "string \<Rightarrow> string" where
  "strip_trailing s = rev (dropWhile (\<lambda>c. c = CHR 0x0A \<or> c = CHR '' '') (rev s))"

definition iface_is_up :: "'w net_fs \<Rightarrow> string \<Rightarrow> 'w \<Rightarrow> bool \<times> 'w" where
  "iface_is_up fs name w =
     (let path = sysfs_net @ ''/'' @ name @ ''/operstate'';
          (content, w1) = read_pseudo_file fs path 16 w
      in case content of None \<Rightarrow> (False, w1)
         | Some s \<Rightarrow> (let state = strip_trailing s in state = ''up'' \<or> state = ''unknown'', w1))"

text \<open>The loop over the entries of the directory, in the order the iterator yields them.\<close>

fun keep_up :: "'w net_fs \<Rightarrow> string list \<Rightarrow> 'w \<Rightarrow> string list \<times> 'w" where
  "keep_up fs [] w = ([], w)"
| "keep_up fs (name # names) w =
     (if name = ''lo'' then keep_up fs names w
      else let (up, w1) = iface_is_up fs name w; (rest, w2) = keep_up fs names w1
           in (if up then name # rest else rest, w2))"

text \<open>
  Advancing a \<open>directory_iterator\<close> throws when it fails, unlike its constructor, which is given an error
  code; the error number of the exception is not used.
\<close>

definition default_interfaces :: "'w net_fs \<Rightarrow> 'w \<Rightarrow> string list res \<times> 'w" where
  "default_interfaces fs w =
     (let (dir, w1) = fs_dir fs sysfs_net w
      in case dir of None \<Rightarrow> (Inr [], w1)
         | Some (names, failed) \<Rightarrow>
             let (result, w2) = keep_up fs names w1
             in (if failed then Inl (Generic_System_Error 0) else Inr (sort result), w2))"

section \<open>Counters and rates\<close>

record NicCounters =
  rx_bytes :: "64 word"
  tx_bytes :: "64 word"

record 'd NicRates =
  rx :: 'd
  tx :: 'd

record NicCounterReader =
  interfaces :: "string list"
  rx_paths :: "string list"
  tx_paths :: "string list"

definition stats_path :: "string \<Rightarrow> string" where
  "stats_path name = sysfs_net @ ''/'' @ name @ ''/statistics/''"

definition new_nic_counter_reader :: "string list \<Rightarrow> NicCounterReader" where
  "new_nic_counter_reader names =
     \<lparr>interfaces = names, rx_paths = map (\<lambda>n. stats_path n @ ''rx_bytes'') names,
      tx_paths = map (\<lambda>n. stats_path n @ ''tx_bytes'') names\<rparr>"

definition read_interface :: "'w net_fs \<Rightarrow> string \<Rightarrow> string \<Rightarrow> 'w \<Rightarrow> NicCounters option \<times> 'w" where
  "read_interface fs rx_path tx_path w =
     (let (r, w1) = read_u64_file fs rx_path w; (t, w2) = read_u64_file fs tx_path w1
      in (case (r, t) of (Some a, Some b) \<Rightarrow> Some \<lparr>rx_bytes = a, tx_bytes = b\<rparr> | _ \<Rightarrow> None, w2))"

text \<open>The loop over the indices \<open>i ..< n\<close>.\<close>

function read_from :: "'w net_fs \<Rightarrow> NicCounterReader \<Rightarrow> nat \<Rightarrow> 'w \<Rightarrow> NicCounters option list \<times> 'w" where
  "read_from fs reader i w =
     (if i < length (interfaces reader)
      then let (c, w1) = read_interface fs (rx_paths reader ! i) (tx_paths reader ! i) w;
               (cs, w2) = read_from fs reader (i + 1) w1
           in (c # cs, w2)
      else ([], w))"
  by pat_completeness auto

termination
  by (relation "measure (\<lambda>(fs, reader, i, w). length (interfaces reader) - i)") auto

declare read_from.simps [simp del]

definition reader_read :: "'w net_fs \<Rightarrow> NicCounterReader \<Rightarrow> 'w \<Rightarrow> NicCounters option list \<times> 'w" where
  "reader_read fs reader w = read_from fs reader 0 w"

definition bytes_per_mib :: "'d doubles \<Rightarrow> 'd" where
  "bytes_per_mib F = flt_of_u64 F (1024 * 1024)"

definition zero_rates :: "'d doubles \<Rightarrow> 'd NicRates" where
  "zero_rates F = \<lparr>rx = flt_of_u64 F 0, tx = flt_of_u64 F 0\<rparr>"

definition direction_rate :: "'d doubles \<Rightarrow> 64 word \<Rightarrow> 64 word \<Rightarrow> 'd \<Rightarrow> 'd" where
  "direction_rate F prev cur dt =
     (if prev \<le> cur then flt_div F (flt_div F (flt_of_u64 F (cur - prev)) dt) (bytes_per_mib F)
      else flt_of_u64 F 0)"

definition compute_rates :: "'d doubles \<Rightarrow> NicCounters \<Rightarrow> NicCounters \<Rightarrow> 'd \<Rightarrow> 'd NicRates" where
  "compute_rates F prev cur dt =
     (if flt_le F dt (flt_of_u64 F 0) then zero_rates F
      else \<lparr>rx = direction_rate F (rx_bytes prev) (rx_bytes cur) dt,
            tx = direction_rate F (tx_bytes prev) (tx_bytes cur) dt\<rparr>)"

section \<open>What the reads return\<close>

text \<open>
  Documented behaviour of a pseudo-file: opening it succeeds exactly when it is there, and one \<open>read\<close>
  into a buffer that is large enough returns the whole text.
\<close>

definition serves_text :: "'w net_fs \<Rightarrow> ('w \<Rightarrow> string \<Rightarrow> string option) \<Rightarrow> bool" where
  "serves_text fs shown \<longleftrightarrow>
     (\<forall>path w len. let (fd, w1) = fs_open fs path w; (n, w2) = fs_read fs fd len w1; w3 = fs_close fs fd w2
        in (fd < 0 \<longleftrightarrow> shown w path = None)
           \<and> (\<forall>s. shown w path = Some s \<longrightarrow> n = Some (take len s))
           \<and> shown w1 = shown w \<and> shown w3 = shown w)
     \<and> (\<forall>path w. shown (snd (fs_dir fs path w)) = shown w)"

lemma read_pseudo_file_text:
  assumes "serves_text fs shown" and "read_pseudo_file fs path len w = (r, w')"
  shows "r = (case shown w path of None \<Rightarrow> None | Some s \<Rightarrow> if take len s = [] then None else Some (take len s))"
    and "shown w' = shown w"
proof -
  obtain fd w1 where o: "fs_open fs path w = (fd, w1)" by force
  obtain n w2 where n: "fs_read fs fd len w1 = (n, w2)" by force
  have "let (fd, w1) = fs_open fs path w; (n, w2) = fs_read fs fd len w1; w3 = fs_close fs fd w2
      in (fd < 0 \<longleftrightarrow> shown w path = None) \<and> (\<forall>s. shown w path = Some s \<longrightarrow> n = Some (take len s))
         \<and> shown w1 = shown w \<and> shown w3 = shown w"
    using assms(1) unfolding serves_text_def by blast
  with o n have c: "fd < 0 \<longleftrightarrow> shown w path = None"
    "\<And>s. shown w path = Some s \<Longrightarrow> n = Some (take len s)" "shown w1 = shown w" "shown (fs_close fs fd w2) = shown w"
    by (simp_all add: Let_def)
  show "r = (case shown w path of None \<Rightarrow> None | Some s \<Rightarrow> if take len s = [] then None else Some (take len s))"
    using assms(2) o n c by (auto simp: read_pseudo_file_def Let_def split: option.splits if_splits)
  show "shown w' = shown w"
    using assms(2) o n c by (auto simp: read_pseudo_file_def Let_def split: option.splits if_splits)
qed

text \<open>A 64-bit counter has at most twenty digits, so the buffer of 32 bytes holds it with its newline.\<close>

lemma length_show_nat: "n < 10 ^ Suc k \<Longrightarrow> length (show_nat n) \<le> Suc k"
proof (induction k arbitrary: n)
  case 0
  then show ?case by (simp add: show_nat.simps [of n])
next
  case (Suc k)
  show ?case
  proof (cases "n < 10")
    case True
    then show ?thesis by (simp add: show_nat.simps [of n])
  next
    case False
    from Suc.prems have "n div 10 < 10 ^ Suc k" by (simp add: less_mult_imp_div_less mult.commute)
    then have "length (show_nat (n div 10)) \<le> Suc k" by (rule Suc.IH)
    with False show ?thesis by (simp add: show_nat.simps [of n])
  qed
qed

lemma length_show_u64: "length (show_nat (unat (x :: 64 word))) \<le> 20"
  using length_show_nat [of "unat x" 19] size_t_range [of x] by simp

lemma newline_not_digit: "\<not> is_digit (CHR 0x0A)"
  by (simp add: is_digit_def)

lemma from_chars_show_u64:
  "rest = [] \<or> \<not> is_digit (hd rest) \<Longrightarrow> from_chars_u64 (show_nat (unat x) @ rest) = Some (x, rest)"
  using size_t_range [of x] by (simp add: from_chars_u64_def)

lemma from_chars_show_ll:
  "- (2 ^ 63) \<le> i \<Longrightarrow> i < 2 ^ 63 \<Longrightarrow> from_chars_ll (show_int i) = Some (i, [])"
  using scan_int_show_int [of "[]" i] by (simp add: from_chars_ll_def)

lemma read_u64_file_text:
  assumes "serves_text fs shown" and "shown w path = Some (show_nat (unat x) @ [CHR 0x0A])"
  shows "fst (read_u64_file fs path w) = Some x" and "shown (snd (read_u64_file fs path w)) = shown w"
proof -
  let ?s = "show_nat (unat x) @ [CHR 0x0A]"
  obtain r w' where r: "read_pseudo_file fs path 32 w = (r, w')" by force
  have "take 32 ?s = ?s" using length_show_u64 [of x] by simp
  with read_pseudo_file_text [OF assms(1) r] assms(2) have "r = Some ?s" "shown w' = shown w" by simp_all
  then show "fst (read_u64_file fs path w) = Some x" "shown (snd (read_u64_file fs path w)) = shown w"
    by (simp_all add: read_u64_file_def r from_chars_show_u64 newline_not_digit)
qed

lemma read_u64_file_missing:
  assumes "serves_text fs shown" and "shown w path = None"
  shows "fst (read_u64_file fs path w) = None" and "shown (snd (read_u64_file fs path w)) = shown w"
proof -
  obtain r w' where r: "read_pseudo_file fs path 32 w = (r, w')" by force
  from read_pseudo_file_text [OF assms(1) r] assms(2) have "r = None" "shown w' = shown w" by simp_all
  then show "fst (read_u64_file fs path w) = None" "shown (snd (read_u64_file fs path w)) = shown w"
    by (simp_all add: read_u64_file_def r)
qed

text \<open>The interfaces that are up, in terms of the texts of their files.\<close>

definition operstate_path :: "string \<Rightarrow> string" where
  "operstate_path name = sysfs_net @ ''/'' @ name @ ''/operstate''"

definition up_text :: "string option \<Rightarrow> bool" where
  "up_text t \<longleftrightarrow> (\<exists>s. t = Some s \<and> strip_trailing (take 16 s) \<in> {''up'', ''unknown''})"

lemma strip_trailing_Nil [simp]: "strip_trailing [] = []"
  by (simp add: strip_trailing_def)

lemma iface_is_up_text:
  assumes "serves_text fs shown"
  shows "fst (iface_is_up fs name w) \<longleftrightarrow> up_text (shown w (operstate_path name))"
    and "shown (snd (iface_is_up fs name w)) = shown w"
proof -
  obtain r w' where r: "read_pseudo_file fs (operstate_path name) 16 w = (r, w')" by force
  note t = read_pseudo_file_text [OF assms r]
  have i: "iface_is_up fs name w = (case r of None \<Rightarrow> (False, w')
      | Some s \<Rightarrow> (strip_trailing s = ''up'' \<or> strip_trailing s = ''unknown'', w'))"
    using r by (cases r) (simp_all add: iface_is_up_def operstate_path_def Let_def)
  show "fst (iface_is_up fs name w) \<longleftrightarrow> up_text (shown w (operstate_path name))"
    using t(1) by (cases "shown w (operstate_path name)") (auto simp: i up_text_def)
  show "shown (snd (iface_is_up fs name w)) = shown w"
    using t(2) by (simp add: i split: option.splits)
qed

text \<open>Of the states the kernel reports, all of which fit the buffer, exactly two count as up.\<close>

lemma operstates:
  "state \<in> {''unknown'', ''notpresent'', ''down'', ''lowerlayerdown'', ''testing'', ''dormant'', ''up''}
     \<Longrightarrow> up_text (Some (state @ [CHR 0x0A])) \<longleftrightarrow> state \<in> {''up'', ''unknown''}"
  by (elim insertE emptyE; hypsubst; simp add: up_text_def strip_trailing_def)

lemma keep_up_text:
  assumes "serves_text fs shown"
  shows "fst (keep_up fs names w) = filter (\<lambda>n. n \<noteq> ''lo'' \<and> up_text (shown w (operstate_path n))) names
    \<and> shown (snd (keep_up fs names w)) = shown w"
proof (induction names arbitrary: w)
  case Nil
  then show ?case by simp
next
  case (Cons n names)
  obtain up w1 where u: "iface_is_up fs n w = (up, w1)" by force
  with iface_is_up_text [OF assms, of n w]
  have "up \<longleftrightarrow> up_text (shown w (operstate_path n))" "shown w1 = shown w" by simp_all
  with Cons.IH [of w] Cons.IH [of w1] u show ?case by (auto simp: split_beta)
qed

lemma default_interfaces_text:
  assumes "serves_text fs shown" and "fst (fs_dir fs sysfs_net w) = Some (names, False)"
  shows "fst (default_interfaces fs w)
    = Inr (sort (filter (\<lambda>n. n \<noteq> ''lo'' \<and> up_text (shown w (operstate_path n))) names))"
proof -
  obtain w1 where d: "fs_dir fs sysfs_net w = (Some (names, False), w1)"
    using assms(2) by (cases "fs_dir fs sysfs_net w") simp
  then have "shown w1 = shown w" using assms(1) unfolding serves_text_def by (metis snd_conv)
  with keep_up_text [OF assms(1), of names w1] d show ?thesis
    by (simp add: default_interfaces_def split_beta)
qed

text \<open>A read of the counters has one entry for each interface, in order.\<close>

lemma length_read_from:
  "length (fst (read_from fs rd i w)) = length (interfaces rd) - i"
proof (induction fs rd i w rule: read_from.induct)
  case (1 fs rd i w)
  then show ?case
    by (subst read_from.simps) (auto simp: split_beta Let_def prod_eq_iff)
qed

lemma length_reader_read: "length (fst (reader_read fs rd w)) = length (interfaces rd)"
  by (simp add: reader_read_def length_read_from)

text \<open>The counters that the files of an interface show, if both are there.\<close>

definition counters_shown :: "(string \<Rightarrow> string option) \<Rightarrow> string \<Rightarrow> NicCounters option \<Rightarrow> bool" where
  "counters_shown shown name c \<longleftrightarrow>
     (let file = \<lambda>x. map_option (\<lambda>v. show_nat (unat v) @ [CHR 0x0A]) x
      in case c of None \<Rightarrow> shown (stats_path name @ ''rx_bytes'') = None \<and> shown (stats_path name @ ''tx_bytes'') = None
         | Some k \<Rightarrow> shown (stats_path name @ ''rx_bytes'') = file (Some (rx_bytes k))
             \<and> shown (stats_path name @ ''tx_bytes'') = file (Some (tx_bytes k)))"

lemma read_interface_text:
  assumes "serves_text fs shown" and "counters_shown (shown w) name c"
  shows "fst (read_interface fs (stats_path name @ ''rx_bytes'') (stats_path name @ ''tx_bytes'') w) = c"
    and "shown (snd (read_interface fs (stats_path name @ ''rx_bytes'') (stats_path name @ ''tx_bytes'') w)) = shown w"
proof -
  let ?r = "stats_path name @ ''rx_bytes''" and ?t = "stats_path name @ ''tx_bytes''"
  obtain r w1 where r: "read_u64_file fs ?r w = (r, w1)" by force
  obtain t w2 where t: "read_u64_file fs ?t w1 = (t, w2)" by force
  have "r = map_option rx_bytes c \<and> t = map_option tx_bytes c \<and> shown w2 = shown w"
  proof (cases c)
    case None
    with assms(2) have n: "shown w ?r = None" "shown w ?t = None" by (simp_all add: counters_shown_def)
    from read_u64_file_missing [OF assms(1), of w ?r] n(1) r have "r = None" "shown w1 = shown w" by simp_all
    moreover from this n(2) read_u64_file_missing [OF assms(1), of w1 ?t] t
    have "t = None" "shown w2 = shown w" by simp_all
    ultimately show ?thesis using None by simp
  next
    case (Some k)
    with assms(2) have n: "shown w ?r = Some (show_nat (unat (rx_bytes k)) @ [CHR 0x0A])"
      "shown w ?t = Some (show_nat (unat (tx_bytes k)) @ [CHR 0x0A])"
      by (simp_all add: counters_shown_def)
    from read_u64_file_text [OF assms(1), of w ?r "rx_bytes k"] n(1) r have "r = Some (rx_bytes k)" "shown w1 = shown w" by simp_all
    moreover from this n(2) read_u64_file_text [OF assms(1), of w1 ?t "tx_bytes k"] t
    have "t = Some (tx_bytes k)" "shown w2 = shown w" by simp_all
    ultimately show ?thesis using Some by simp
  qed
  then show "fst (read_interface fs ?r ?t w) = c" "shown (snd (read_interface fs ?r ?t w)) = shown w"
    by (auto simp: read_interface_def r t split: option.splits)
qed

lemma read_from_text:
  assumes "serves_text fs shown" and "\<forall>n\<in>set names. counters_shown (shown w) n (c n)"
  shows "fst (read_from fs (new_nic_counter_reader names) i w) = map c (drop i names)
    \<and> shown (snd (read_from fs (new_nic_counter_reader names) i w)) = shown w"
  using assms(2)
proof (induction "length names - i" arbitrary: i w)
  case 0
  then show ?case by (subst (1 2) read_from.simps) (simp add: new_nic_counter_reader_def)
next
  case (Suc k)
  then have i: "i < length names" by simp
  let ?rd = "new_nic_counter_reader names"
  obtain x w1 where x: "read_interface fs (rx_paths ?rd ! i) (tx_paths ?rd ! i) w = (x, w1)" by force
  with read_interface_text [OF assms(1), of w "names ! i" "c (names ! i)"] Suc.prems i
  have "x = c (names ! i)" "shown w1 = shown w" by (simp_all add: new_nic_counter_reader_def)
  moreover from Suc.hyps(1) [of "i + 1" w1] Suc.hyps(2) Suc.prems \<open>shown w1 = shown w\<close>
  have "fst (read_from fs ?rd (i + 1) w1) = map c (drop (i + 1) names)
    \<and> shown (snd (read_from fs ?rd (i + 1) w1)) = shown w" by simp
  moreover have "read_from fs ?rd i w = (let (cs, w2) = read_from fs ?rd (i + 1) w1 in (x # cs, w2))"
    using i x by (subst read_from.simps) (simp add: new_nic_counter_reader_def)
  ultimately show ?case using i by (simp add: split_beta Let_def Cons_nth_drop_Suc [symmetric])
qed

lemma reader_read_text:
  "serves_text fs shown \<Longrightarrow> \<forall>n\<in>set names. counters_shown (shown w) n (c n)
     \<Longrightarrow> fst (reader_read fs (new_nic_counter_reader names) w) = map c names"
  using read_from_text [of fs shown names w c 0] by (simp add: reader_read_def)

section \<open>Rates\<close>

text \<open>A direction whose counter went backwards, or no time between the samples, counts as no traffic.\<close>

lemma compute_rates_reset:
  "rx_bytes cur < rx_bytes prev \<Longrightarrow> rx (compute_rates F prev cur dt) = flt_of_u64 F 0"
  "tx_bytes cur < tx_bytes prev \<Longrightarrow> tx (compute_rates F prev cur dt) = flt_of_u64 F 0"
  "flt_le F dt (flt_of_u64 F 0) \<Longrightarrow> compute_rates F prev cur dt = zero_rates F"
  by (auto simp: compute_rates_def zero_rates_def direction_rate_def)

end
