(* ===== verification/Nic_Plugin.thy ===== *)
theory Nic_Plugin
  imports Nic_Monitor
begin

text \<open>
  The Nsight Systems plugin \<open>cpp/nsys_plugins/nic/kvikio_nic_nsys_plugin.cpp\<close>: its command line, the choice
  of the interfaces and the collector that samples them until a signal arrives. The calls of NVTX, the
  clock, the sleep and the stop flag are functions on the outside state, like the files of
  \<open>/sys/class/net\<close>; the samples handed to NVTX are collected in a list, in order. A regular expression
  given on the command line is compiled and matched by two functions that stand for \<open>std::regex\<close>.
  Exits of the process are values; the texts printed are not modelled.
\<close>

section \<open>The command line\<close>

record ('r) DeviceFilter =
  regex :: 'r
  pattern :: string

record ('r) Config =
  interval :: int
  device_filter :: "'r DeviceFilter option"

definition new_config :: "'r Config" where
  "new_config = \<lparr>interval = 20000, device_filter = None\<rparr>"

datatype 'a or_exit = Goes_On 'a | Exits nat

definition exit_success :: nat where "exit_success = 0"
definition exit_no_interfaces :: nat where "exit_no_interfaces = 1"
definition exit_usage_error :: nat where "exit_usage_error = 2"

text \<open>The name of an option and the value given with it, if the argument is an option.\<close>

definition split_argument :: "string \<Rightarrow> (string \<times> string option) option" where
  "split_argument arg =
     (if take 2 arg = ''--''
      then (let name = takeWhile (\<lambda>c. c \<noteq> CHR ''='') arg
            in Some (name, if CHR ''='' \<in> set arg then Some (drop (length name + 1) arg) else None))
      else if 2 \<le> length arg \<and> hd arg = CHR ''-''
      then Some (take 2 arg, if 2 < length arg then Some (drop 2 arg) else None)
      else None)"

text \<open>\<open>take_value\<close>: the value given with the option, or the next argument, and the arguments left.\<close>

definition take_value :: "string option \<Rightarrow> string list \<Rightarrow> (string \<times> string list) option" where
  "take_value inline_value args =
     (case inline_value of Some v \<Rightarrow> Some (v, args)
      | None \<Rightarrow> (case args of [] \<Rightarrow> None | v # rest \<Rightarrow> Some (v, rest)))"

lemma take_value_length: "take_value iv args = Some (v, rest) \<Longrightarrow> length rest \<le> length args"
  by (auto simp: take_value_def split: option.splits list.splits)

text \<open>An interval is all of a decimal number, and positive.\<close>

definition parse_interval :: "string \<Rightarrow> int option" where
  "parse_interval v = (case from_chars_ll v of None \<Rightarrow> None
     | Some (p, rest) \<Rightarrow> if rest \<noteq> [] \<or> p \<le> 0 then None else Some p)"

datatype option_name = Help | Interval | Device

definition option_of :: "string \<Rightarrow> option_name option" where
  "option_of name =
     (if name = ''-h'' \<or> name = ''--help'' then Some Help
      else if name = ''-i'' \<or> name = ''--interval'' then Some Interval
      else if name = ''-d'' \<or> name = ''--device'' then Some Device
      else None)"

definition option_given :: "string \<Rightarrow> (option_name \<times> string option) option" where
  "option_given arg = Option.bind (split_argument arg)
     (\<lambda>(name, inline_value). map_option (\<lambda>opt. (opt, inline_value)) (option_of name))"

text \<open>The loop over the arguments; every \<open>print_help_and_exit\<close> ends it.\<close>

function parse_loop :: "(string \<Rightarrow> 'r option) \<Rightarrow> string list \<Rightarrow> 'r Config \<Rightarrow> 'r Config or_exit" where
  "parse_loop compile [] config = Goes_On config"
| "parse_loop compile (arg # args) config =
     (case option_given arg of None \<Rightarrow> Exits exit_usage_error
      | Some (Help, inline_value) \<Rightarrow> Exits exit_success
      | Some (Interval, inline_value) \<Rightarrow>
          (case take_value inline_value args of None \<Rightarrow> Exits exit_usage_error
           | Some (v, rest) \<Rightarrow>
               (case parse_interval v of None \<Rightarrow> Exits exit_usage_error
                | Some p \<Rightarrow> parse_loop compile rest (config\<lparr>interval := p\<rparr>)))
      | Some (Device, inline_value) \<Rightarrow>
          (case take_value inline_value args of None \<Rightarrow> Exits exit_usage_error
           | Some (v, rest) \<Rightarrow>
               (case compile v of None \<Rightarrow> Exits exit_usage_error
                | Some r \<Rightarrow>
                    parse_loop compile rest (config\<lparr>device_filter := Some \<lparr>regex = r, pattern = v\<rparr>\<rparr>))))"
  by pat_completeness auto

termination
  by (relation "measure (\<lambda>(compile, args, config). length args)") (auto dest!: take_value_length)

definition parse_args :: "(string \<Rightarrow> 'r option) \<Rightarrow> string list \<Rightarrow> 'r Config or_exit" where
  "parse_args compile args = parse_loop compile args new_config"

section \<open>The interfaces\<close>

definition all_interface_names :: "'w net_fs \<Rightarrow> 'w \<Rightarrow> string list res \<times> 'w" where
  "all_interface_names fs w =
     (let (dir, w1) = fs_dir fs sysfs_net w
      in (case dir of None \<Rightarrow> Inr []
          | Some (names, failed) \<Rightarrow> if failed then Inl (Generic_System_Error 0) else Inr (sort names), w1))"

definition select_interfaces ::
  "('r \<Rightarrow> string \<Rightarrow> bool) \<Rightarrow> 'w net_fs \<Rightarrow> 'r Config \<Rightarrow> 'w \<Rightarrow> string list res \<times> 'w" where
  "select_interfaces matches fs config w =
     (case device_filter config of None \<Rightarrow> default_interfaces fs w
      | Some f \<Rightarrow> let (names, w1) = all_interface_names fs w
                  in (bind_res names (\<lambda>ns. Inr (filter (matches (regex f)) ns)), w1))"

section \<open>The collector\<close>

text \<open>The attributes with which the payload schema and the counter groups are registered.\<close>

record schema_entry =
  entry_name :: string
  entry_description :: string
  entry_offset :: nat

record schema_attr =
  schema_name :: string
  schema_entries :: "schema_entry list"
  payload_static_size :: nat

record counter_attr =
  attr_schema_id :: "64 word"
  attr_name :: string

record 'w nic_env =
  env_fs :: "'w net_fs"
  schema_register :: "schema_attr \<Rightarrow> 'w \<Rightarrow> 64 word \<times> 'w"
  counter_register :: "counter_attr \<Rightarrow> 'w \<Rightarrow> 64 word \<times> 'w"
  stop_test :: "'w \<Rightarrow> bool \<times> 'w"
  sleep_until :: "int \<Rightarrow> 'w \<Rightarrow> 'w"
  clock_now :: "'w \<Rightarrow> int \<times> 'w"

definition make_entry :: "string \<Rightarrow> string \<Rightarrow> nat \<Rightarrow> schema_entry" where
  "make_entry name description offset =
     \<lparr>entry_name = name, entry_description = description, entry_offset = offset\<rparr>"

text \<open>\<open>NicRates\<close> is a struct of two doubles of eight bytes.\<close>

definition register_rate_schema :: "'w nic_env \<Rightarrow> 'w \<Rightarrow> 64 word \<times> 'w" where
  "register_rate_schema E w =
     schema_register E
       \<lparr>schema_name = ''NIC bandwidth'',
        schema_entries = [make_entry ''rx'' ''Receive rate'' 0, make_entry ''tx'' ''Transmit rate'' 8],
        payload_static_size = 16\<rparr> w"

definition register_counter :: "'w nic_env \<Rightarrow> string \<Rightarrow> 64 word \<Rightarrow> 'w \<Rightarrow> 64 word \<times> 'w" where
  "register_counter E name schema_id w =
     counter_register E \<lparr>attr_schema_id = schema_id, attr_name = name\<rparr> w"

fun register_counters :: "'w nic_env \<Rightarrow> string list \<Rightarrow> 64 word \<Rightarrow> 'w \<Rightarrow> 64 word list \<times> 'w" where
  "register_counters E [] schema_id w = ([], w)"
| "register_counters E (name # names) schema_id w =
     (let (i, w1) = register_counter E name schema_id w; (ids, w2) = register_counters E names schema_id w1
      in (i # ids, w2))"

record BandwidthCollector =
  collector_interval :: int
  reader :: NicCounterReader
  counter_ids :: "64 word list"
  total_counter_id :: "64 word"

definition new_bandwidth_collector ::
  "'w nic_env \<Rightarrow> string list \<Rightarrow> int \<Rightarrow> 'w \<Rightarrow> BandwidthCollector \<times> 'w" where
  "new_bandwidth_collector E names us w =
     (let rd = new_nic_counter_reader names;
          (schema_id, w1) = register_rate_schema E w;
          (ids, w2) = register_counters E (interfaces rd) schema_id w1;
          (total, w3) = register_counter E ''total'' schema_id w2
      in (\<lparr>collector_interval = us, reader = rd, counter_ids = ids, total_counter_id = total\<rparr>, w3))"

text \<open>The local variables of \<open>run\<close>, the outside state and the samples handed to NVTX.\<close>

record ('w, 'd) run_state =
  world :: 'w
  prev_counters :: "NicCounters option list"
  prev_time :: int
  next_deadline :: int
  samples :: "(64 word \<times> 'd NicRates) list"

definition add_rates :: "'d doubles \<Rightarrow> 'd NicRates \<Rightarrow> 'd NicRates \<Rightarrow> 'd NicRates" where
  "add_rates F a b = \<lparr>rx = flt_add F (rx a) (rx b), tx = flt_add F (tx a) (tx b)\<rparr>"

definition interface_rates ::
  "'d doubles \<Rightarrow> NicCounters option \<Rightarrow> NicCounters option \<Rightarrow> 'd \<Rightarrow> 'd NicRates" where
  "interface_rates F prev cur dt =
     (case (prev, cur) of (Some p, Some c) \<Rightarrow> compute_rates F p c dt | _ \<Rightarrow> zero_rates F)"

text \<open>The rates of a tick, one per interface; an index outside a vector would be undefined.\<close>

definition tick_rates ::
  "'d doubles \<Rightarrow> BandwidthCollector \<Rightarrow> NicCounters option list \<Rightarrow> NicCounters option list \<Rightarrow> 'd \<Rightarrow> 'd NicRates list"
  where
  "tick_rates F C prev cur dt =
     map (\<lambda>i. interface_rates F (prev ! i) (cur ! i) dt) [0..<length (interfaces (reader C))]"

definition tick_samples :: "'d doubles \<Rightarrow> BandwidthCollector \<Rightarrow> 'd NicRates list \<Rightarrow> (64 word \<times> 'd NicRates) list" where
  "tick_samples F C rates =
     map (\<lambda>i. (counter_ids C ! i, rates ! i)) [0..<length (interfaces (reader C))]
     @ [(total_counter_id C, foldl (add_rates F) (zero_rates F) rates)]"

text \<open>The body of the loop. The interval is in microseconds, the clock counts nanoseconds.\<close>

definition tick :: "'d doubles \<Rightarrow> 'w nic_env \<Rightarrow> BandwidthCollector \<Rightarrow> ('w, 'd) run_state \<Rightarrow> ('w, 'd) run_state" where
  "tick F E C s =
     (let deadline = next_deadline s + 1000 * collector_interval C;
          w1 = sleep_until E deadline (world s);
          (now, w2) = clock_now E w1;
          (cur, w3) = reader_read (env_fs E) (reader C) w2;
          dt = flt_seconds F (now - prev_time s);
          rates = tick_rates F C (prev_counters s) cur dt
      in \<lparr>world = w3, prev_counters = cur, prev_time = now, next_deadline = deadline,
          samples = samples s @ tick_samples F C rates\<rparr>)"

definition test_stop :: "'w nic_env \<Rightarrow> ('w, 'd) run_state \<Rightarrow> ('w, 'd) run_state" where
  "test_stop E s = s\<lparr>world := snd (stop_test E (world s))\<rparr>"

partial_function (option) run_loop ::
  "'d doubles \<Rightarrow> 'w nic_env \<Rightarrow> BandwidthCollector \<Rightarrow> ('w, 'd) run_state \<Rightarrow> ('w, 'd) run_state option" where
  "run_loop F E C s =
     (if fst (stop_test E (world s)) then Some (test_stop E s)
      else run_loop F E C (tick F E C (test_stop E s)))"

definition start_run :: "'w nic_env \<Rightarrow> BandwidthCollector \<Rightarrow> 'w \<Rightarrow> ('w, 'd) run_state" where
  "start_run E C w =
     (let (counters, w1) = reader_read (env_fs E) (reader C) w; (t, w2) = clock_now E w1
      in \<lparr>world = w2, prev_counters = counters, prev_time = t, next_deadline = t, samples = []\<rparr>)"

definition collector_run ::
  "'d doubles \<Rightarrow> 'w nic_env \<Rightarrow> BandwidthCollector \<Rightarrow> 'w \<Rightarrow> ('w, 'd) run_state option" where
  "collector_run F E C w = run_loop F E C (start_run E C w)"

section \<open>The process\<close>

datatype ('w, 'd) process_end =
    Ended nat "(64 word \<times> 'd NicRates) list"
  | Terminated

text \<open>
  \<open>main\<close>: nothing when it never ends, \<open>Terminated\<close> when an exception leaves it. Without a match it lists the
  interfaces once more, for the message.
\<close>

definition nic_main ::
  "'d doubles \<Rightarrow> 'w nic_env \<Rightarrow> (string \<Rightarrow> 'r option) \<Rightarrow> ('r \<Rightarrow> string \<Rightarrow> bool) \<Rightarrow> string list \<Rightarrow> 'w
     \<Rightarrow> ('w, 'd) process_end option" where
  "nic_main F E compile matches args w =
     (case parse_args compile args of Exits code \<Rightarrow> Some (Ended code [])
      | Goes_On config \<Rightarrow>
          (case select_interfaces matches (env_fs E) config w of
             (Inl e, w1) \<Rightarrow> Some Terminated
           | (Inr names, w1) \<Rightarrow>
               if names = []
               then (if device_filter config = None then Some (Ended exit_no_interfaces [])
                     else (case fst (all_interface_names (env_fs E) w1) of
                             Inl e \<Rightarrow> Some Terminated
                           | Inr available \<Rightarrow> Some (Ended exit_no_interfaces [])))
               else (let (C, w2) = new_bandwidth_collector E names (interval config) w1
                     in map_option (\<lambda>s. Ended exit_success (samples s)) (collector_run F E C w2))))"

section \<open>Facts on the command line\<close>

text \<open>Every way of writing an option is understood the same.\<close>

lemma split_argument_long_inline:
  "\<forall>c\<in>set name. c \<noteq> CHR ''='' \<Longrightarrow> take 2 name = ''--'' \<Longrightarrow>
     split_argument (name @ CHR ''='' # v) = Some (name, Some v)"
  by (cases name rule: list.exhaust; cases "tl name")
    (auto simp: split_argument_def takeWhile_append2)

lemma split_argument_long:
  "\<forall>c\<in>set name. c \<noteq> CHR ''='' \<Longrightarrow> take 2 name = ''--'' \<Longrightarrow> split_argument name = Some (name, None)"
  by (auto simp: split_argument_def Let_def takeWhile_eq_all_conv)

lemma split_argument_short:
  "c \<noteq> CHR ''-'' \<Longrightarrow> split_argument (CHR ''-'' # c # v) = Some ([CHR ''-'', c], if v = [] then None else Some v)"
  by (cases v) (simp_all add: split_argument_def)

lemma take_value_simps [simp]:
  "take_value (Some v) args = Some (v, args)"
  "take_value None (v # args) = Some (v, args)"
  "take_value None [] = None"
  by (simp_all add: take_value_def)

lemma parse_interval_show_int: "0 < n \<Longrightarrow> n < 2 ^ 63 \<Longrightarrow> parse_interval (show_int n) = Some n"
  by (simp add: parse_interval_def from_chars_show_ll)

lemma show_int_not_Nil [simp]: "show_int i \<noteq> []"
  by (simp add: show_int_def)

lemma option_given_interval [simp]:
  "option_given (''--interval='' @ v) = Some (Interval, Some v)"
  "option_given ''--interval'' = Some (Interval, None)"
  "option_given (''-i'' @ v) = Some (Interval, if v = [] then None else Some v)"
  using split_argument_long_inline [of "''--interval''" v] split_argument_long [of "''--interval''"]
    split_argument_short [of "CHR ''i''" v]
  by (simp_all add: option_given_def option_of_def)

lemma option_given_device [simp]:
  "option_given (''--device='' @ v) = Some (Device, Some v)"
  "option_given ''--device'' = Some (Device, None)"
  "option_given (''-d'' @ v) = Some (Device, if v = [] then None else Some v)"
  using split_argument_long_inline [of "''--device''" v] split_argument_long [of "''--device''"]
    split_argument_short [of "CHR ''d''" v]
  by (simp_all add: option_given_def option_of_def)

lemma parse_interval_forms:
  assumes "parse_interval v = Some n" and "v \<noteq> []"
    and "form \<in> {[''-i'', v], [''--interval'', v], [''--interval='' @ v], [''-i'' @ v]}"
  shows "parse_loop compile (form @ args) config = parse_loop compile args (config\<lparr>interval := n\<rparr>)"
  using assms option_given_interval(1,3) [of v] option_given_interval(3) [of "[]"] by auto

lemma parse_device_forms:
  assumes "compile v = Some r" and "v \<noteq> []"
    and "form \<in> {[''-d'', v], [''--device'', v], [''--device='' @ v], [''-d'' @ v]}"
  shows "parse_loop compile (form @ args) config
    = parse_loop compile args (config\<lparr>device_filter := Some \<lparr>regex = r, pattern = v\<rparr>\<rparr>)"
  using assms option_given_device(1,3) [of v] option_given_device(3) [of "[]"] by auto

text \<open>An interval that the code works with is positive and fits its type.\<close>

lemma parse_interval_range: "parse_interval v = Some n \<Longrightarrow> 0 < n \<and> n < 2 ^ 63"
  by (auto simp: parse_interval_def from_chars_ll_def split: option.splits if_splits)

lemma parse_loop_interval:
  "parse_loop compile args config = Goes_On config' \<Longrightarrow> 0 < interval config \<and> interval config < 2 ^ 63
     \<Longrightarrow> 0 < interval config' \<and> interval config' < 2 ^ 63"
proof (induction compile args config rule: parse_loop.induct)
  case (1 compile config)
  then show ?case by simp
next
  case (2 compile arg args config)
  then show ?case
    by (fastforce split: option.splits option_name.splits dest: parse_interval_range)
qed

lemma parse_args_interval:
  "parse_args compile args = Goes_On config \<Longrightarrow> 0 < interval config \<and> interval config < 2 ^ 63"
  unfolding parse_args_def by (erule parse_loop_interval) (simp add: new_config_def)

text \<open>
  The largest interval of the type is accepted, although a deadline that many microseconds ahead is
  beyond the range of a clock that counts nanoseconds in 64 bits.
\<close>

lemma huge_interval_accepted:
  "\<exists>config. parse_args compile [''-i'', show_int (2 ^ 63 - 1)] = Goes_On config
     \<and> 2 ^ 63 \<le> 1000 * interval config"
  using parse_interval_forms [of "show_int (2 ^ 63 - 1)" "2 ^ 63 - 1" "[''-i'', show_int (2 ^ 63 - 1)]" compile "[]" new_config]
  by (simp add: parse_interval_show_int parse_args_def)

section \<open>Facts on the choice of interfaces\<close>

text \<open>The choice is sorted, and with a filter it holds exactly the matching names.\<close>

lemma select_interfaces_sorted:
  assumes "fst (select_interfaces matches fs config w) = Inr names"
  shows "sorted names"
  using assms
  by (auto simp: select_interfaces_def default_interfaces_def all_interface_names_def Let_def split_beta
      sorted_filter [where f = id, simplified] split: option.splits if_splits)

lemma select_interfaces_filter:
  assumes "device_filter config = Some f" and "fst (fs_dir fs sysfs_net w) = Some (names, False)"
  shows "fst (select_interfaces matches fs config w) = Inr (sort (filter (matches (regex f)) names))"
  using assms by (simp add: select_interfaces_def all_interface_names_def split_beta filter_sort)

section \<open>Facts on the collector\<close>

fun ticks :: "'d doubles \<Rightarrow> 'w nic_env \<Rightarrow> BandwidthCollector \<Rightarrow> nat \<Rightarrow> ('w, 'd) run_state \<Rightarrow> ('w, 'd) run_state" where
  "ticks F E C 0 s = s"
| "ticks F E C (Suc k) s = tick F E C (test_stop E (ticks F E C k s))"

definition stopped :: "'w nic_env \<Rightarrow> ('w, 'd) run_state \<Rightarrow> bool" where
  "stopped E s \<longleftrightarrow> fst (stop_test E (world s))"

lemma ticks_shift: "ticks F E C k (tick F E C (test_stop E s)) = ticks F E C (Suc k) s"
  by (induction k) simp_all

lemma run_loop_ticks:
  assumes "\<forall>j<k. \<not> stopped E (ticks F E C j s)" and "stopped E (ticks F E C k s)"
  shows "run_loop F E C s = Some (test_stop E (ticks F E C k s))"
  using assms
proof (induction k arbitrary: s)
  case 0
  then show ?case by (subst run_loop.simps) (simp add: stopped_def)
next
  case (Suc k)
  from Suc.prems(1) have first: "\<not> fst (stop_test E (world s))" by (auto simp: stopped_def)
  have "run_loop F E C (tick F E C (test_stop E s)) = Some (test_stop E (ticks F E C (Suc k) s))"
    using Suc.prems Suc.IH [of "tick F E C (test_stop E s)"] unfolding ticks_shift
    by (metis Suc_less_eq)
  with first show ?case by (subst run_loop.simps) simp
qed

lemma register_counters_length:
  "length (fst (register_counters E names schema_id w)) = length names"
  by (induction names arbitrary: w) (simp_all add: split_beta)

lemma tick_next:
  "next_deadline (tick F E C s) = next_deadline s + 1000 * collector_interval C"
  "length (prev_counters (tick F E C s)) = length (interfaces (reader C))"
  by (simp_all add: tick_def Let_def split_beta length_reader_read)

lemma tick_emits:
  "samples (tick F E C s) = samples s @ tick_samples F C (tick_rates F C (prev_counters s)
     (prev_counters (tick F E C s)) (flt_seconds F (prev_time (tick F E C s) - prev_time s)))"
  by (simp add: tick_def Let_def split_beta)

lemma test_stop_keeps [simp]:
  "prev_counters (test_stop E s) = prev_counters s" "prev_time (test_stop E s) = prev_time s"
  "next_deadline (test_stop E s) = next_deadline s" "samples (test_stop E s) = samples s"
  by (simp_all add: test_stop_def)

text \<open>
  What a tick has to send: the rate of every interface under its counter, and under the counter for the
  total the sum of these rates, computed from two successive readings and their times.
\<close>

definition rates_between :: "'d doubles \<Rightarrow> ('w, 'd) run_state \<Rightarrow> ('w, 'd) run_state \<Rightarrow> 'd NicRates list" where
  "rates_between F s t =
     map2 (\<lambda>p c. interface_rates F p c (flt_seconds F (prev_time t - prev_time s))) (prev_counters s) (prev_counters t)"

definition samples_between ::
  "'d doubles \<Rightarrow> BandwidthCollector \<Rightarrow> ('w, 'd) run_state \<Rightarrow> ('w, 'd) run_state \<Rightarrow> (64 word \<times> 'd NicRates) list" where
  "samples_between F C s t = zip (counter_ids C) (rates_between F s t)
     @ [(total_counter_id C, fold (\<lambda>r total. add_rates F total r) (rates_between F s t) (zero_rates F))]"

lemma tick_samples_between:
  assumes "length (counter_ids C) = length (interfaces (reader C))"
    and "length (prev_counters s) = length (interfaces (reader C))"
  shows "samples (tick F E C s) = samples s @ samples_between F C s (tick F E C s)"
proof -
  let ?t = "tick F E C s"
  let ?dt = "flt_seconds F (prev_time ?t - prev_time s)"
  have r: "tick_rates F C (prev_counters s) (prev_counters ?t) ?dt = rates_between F s ?t"
    using assms(2) tick_next(2) [of F E C s]
    by (intro nth_equalityI) (simp_all add: tick_rates_def rates_between_def)
  have "map (\<lambda>i. (counter_ids C ! i, rs ! i)) [0..<length (interfaces (reader C))] = zip (counter_ids C) rs"
    if "length rs = length (interfaces (reader C))" for rs :: "'b NicRates list"
    using that assms(1) by (intro nth_equalityI) simp_all
  moreover have "length (rates_between F s ?t) = length (interfaces (reader C))"
    using assms(2) tick_next(2) [of F E C s] by (simp add: rates_between_def)
  ultimately show ?thesis
    unfolding tick_emits r by (simp add: tick_samples_def samples_between_def foldl_conv_fold)
qed

lemma ticks_facts:
  assumes "length (counter_ids C) = length (interfaces (reader C))"
    and "length (prev_counters s) = length (interfaces (reader C))"
  shows "length (prev_counters (ticks F E C k s)) = length (interfaces (reader C))
    \<and> next_deadline (ticks F E C k s) = next_deadline s + int k * (1000 * collector_interval C)
    \<and> samples (ticks F E C k s)
        = samples s @ concat (map (\<lambda>j. samples_between F C (ticks F E C j s) (ticks F E C (Suc j) s)) [0..<k])"
proof (induction k)
  case 0
  from assms(2) show ?case by simp
next
  case (Suc k)
  let ?s = "test_stop E (ticks F E C k s)"
  from Suc.IH assms(1) have "samples (tick F E C ?s) = samples ?s @ samples_between F C ?s (tick F E C ?s)"
    by (intro tick_samples_between) simp_all
  moreover have "samples_between F C ?s t = samples_between F C (ticks F E C k s) t" for t :: "('a, 'b) run_state"
    by (simp add: samples_between_def rates_between_def)
  ultimately show ?case
    using Suc.IH tick_next [of F E C ?s] by (simp add: algebra_simps)
qed

lemma new_collector_facts:
  assumes "new_bandwidth_collector E names us w = (C, w')"
  shows "length (counter_ids C) = length (interfaces (reader C))" and "interfaces (reader C) = names"
    and "collector_interval C = us"
  using assms register_counters_length [of E names]
  by (auto simp: new_bandwidth_collector_def new_nic_counter_reader_def Let_def split: prod.splits)
    (metis fst_conv)

lemma start_run_facts:
  "length (prev_counters (start_run E C w)) = length (interfaces (reader C))"
  "samples (start_run E C w) = []" "next_deadline (start_run E C w) = prev_time (start_run E C w)"
  by (simp_all add: start_run_def split_beta length_reader_read)


text \<open>Two ticks on one interface that matches, whose counters grow by two and by one mebibyte in a second.\<close>

definition demo_doubles :: "int doubles" where
  "demo_doubles =
     \<lparr>flt_of_u64 = uint, flt_of_int = id, flt_ratio = (\<lambda>a b. int a div int b), flt_add = (+), flt_mult = (*),
      flt_div = (div), flt_abs = abs, flt_le = (\<le>), flt_less = (<), flt_finite = (\<lambda>x. True),
      flt_seconds = (\<lambda>ns. ns div 1000000000), flt_fixed = (\<lambda>n. show_int), flt_show = show_int\<rparr>"

definition demo_net_fs :: "(string \<times> nat) net_fs" where
  "demo_net_fs =
     \<lparr>fs_open = (\<lambda>path (p, n). (3, (path, n))),
      fs_read = (\<lambda>fd len (p, n). (Some (if n = 0 then ''0'' else if n = 2 then ''2097152'' else ''3145728''), (p, n))),
      fs_close = (\<lambda>fd w. w),
      fs_dir = (\<lambda>path w. (Some ([''lo'', ''eth0''], False), w))\<rparr>"

definition demo_nic_env :: "(string \<times> nat) nic_env" where
  "demo_nic_env =
     \<lparr>env_fs = demo_net_fs, schema_register = (\<lambda>a w. (1, w)),
      counter_register = (\<lambda>a w. (if attr_name a = ''total'' then 9 else 5, w)),
      stop_test = (\<lambda>(p, n). (2 < n, (p, n))), sleep_until = (\<lambda>t w. w),
      clock_now = (\<lambda>(p, n). (1000000000 * int n, (p, n + 1)))\<rparr>"

definition demo_collector :: BandwidthCollector where
  "demo_collector = fst (new_bandwidth_collector demo_nic_env [''eth0''] 1000000 ([], 0))"

lemmas demo_nic_defs = demo_doubles_def demo_net_fs_def demo_nic_env_def demo_collector_def
  new_bandwidth_collector_def register_rate_schema_def register_counter_def new_nic_counter_reader_def

lemma demo_nic_parse:
  "parse_args Some [''-i1000000'', ''--device=eth0'']
     = Goes_On \<lparr>interval = 1000000, device_filter = Some \<lparr>regex = ''eth0'', pattern = ''eth0''\<rparr>\<rparr>"
  using parse_interval_forms [of "''1000000''" 1000000 "[''-i1000000'']" Some "[''--device=eth0'']" new_config]
    parse_device_forms [of Some "''eth0''" "''eth0''" "[''--device=eth0'']" "[]" "new_config\<lparr>interval := 1000000\<rparr>"]
  by (simp add: parse_args_def parse_interval_def from_chars_ll_def scan_int_def scan_nat_def read_nat_def is_digit_def
      digit_val_def new_config_def)

lemma demo_nic_choice:
  "select_interfaces (=) demo_net_fs
     \<lparr>interval = 1000000, device_filter = Some \<lparr>regex = ''eth0'', pattern = ''eth0''\<rparr>\<rparr> ([], 0) = (Inr [''eth0''], ([], 0))"
  by (simp add: select_interfaces_def all_interface_names_def demo_net_fs_def sort_key_def)

lemma demo_collector_eq:
  "new_bandwidth_collector demo_nic_env [''eth0''] 1000000 ([], 0) = (demo_collector, ([], 0))"
  "demo_collector = \<lparr>collector_interval = 1000000, reader = new_nic_counter_reader [''eth0''],
     counter_ids = [5], total_counter_id = 9\<rparr>"
  by (simp_all add: demo_nic_defs)

lemma demo_reader_read:
  "reader_read demo_net_fs (new_nic_counter_reader [''eth0'']) (p, n)
     = (let b = if n = 0 then 0 else if n = 2 then 2097152 else 3145728
        in [Some \<lparr>rx_bytes = b, tx_bytes = b\<rparr>], (stats_path ''eth0'' @ ''tx_bytes'', n))"
  by (simp add: reader_read_def read_from.simps new_nic_counter_reader_def read_interface_def read_u64_file_def
      read_pseudo_file_def demo_net_fs_def from_chars_u64_def scan_nat_def read_nat_def is_digit_def digit_val_def)

definition demo_run :: "nat \<Rightarrow> (string \<times> nat, int) run_state" where
  "demo_run k = ticks demo_doubles demo_nic_env demo_collector k (start_run demo_nic_env demo_collector ([], 0))"

lemma demo_nic_start:
  "start_run demo_nic_env demo_collector ([], 0)
     = \<lparr>world = (stats_path ''eth0'' @ ''tx_bytes'', 1), prev_counters = [Some \<lparr>rx_bytes = 0, tx_bytes = 0\<rparr>],
        prev_time = 0, next_deadline = 0, samples = []\<rparr>"
  by (simp add: start_run_def demo_collector_eq(2) demo_reader_read demo_nic_env_def)

lemma demo_nic_tick:
  "tick demo_doubles demo_nic_env demo_collector (test_stop demo_nic_env s) =
     (let n = snd (world s); b = if n = 1 then 2097152 else 3145728;
          c = [Some \<lparr>rx_bytes = b, tx_bytes = b\<rparr>]; t = 1000000000 * int n
      in \<lparr>world = (stats_path ''eth0'' @ ''tx_bytes'', n + 1), prev_counters = c, prev_time = t,
          next_deadline = next_deadline s + 1000000000,
          samples = samples s @ tick_samples demo_doubles demo_collector
            (tick_rates demo_doubles demo_collector (prev_counters s) c ((t - prev_time s) div 1000000000))\<rparr>)"
  by (cases "world s") (simp add: tick_def test_stop_def demo_collector_eq(2) demo_reader_read demo_nic_env_def demo_doubles_def Let_def)

lemma demo_nic_states:
  "world (demo_run 0) = (stats_path ''eth0'' @ ''tx_bytes'', 1)"
  "world (demo_run 1) = (stats_path ''eth0'' @ ''tx_bytes'', 2)"
  "world (demo_run 2) = (stats_path ''eth0'' @ ''tx_bytes'', 3)"
  by (simp_all add: demo_run_def numeral_2_eq_2 demo_nic_tick demo_nic_start Let_def)


end
