(* ===== verification/Report.thy ===== *)
theory Report
  imports Summary Number_Text
begin

text \<open>
  The statistics as text: \<open>Summary::to_json\<close> and \<open>Summary::report\<close> of \<open>cpp/src/statistics/summary.cpp\<close> with
  the two derived rates, and \<open>Counters::report\<close> of \<open>cpp/src/statistics/counters.cpp\<close>. The lemmas show that the
  integers of the JSON object can be read back from it and which rows a report has.
\<close>

section \<open>Rates\<close>

definition busy_bytes_per_sec :: "'d doubles \<Rightarrow> Summary \<Rightarrow> 'd" where
  "busy_bytes_per_sec F s =
     (let seconds = flt_seconds F (sm_busy s)
      in if flt_less F (flt_of_int F 0) seconds then flt_div F (flt_of_u64 F (sm_bytes_transferred s)) seconds
         else flt_of_int F 0)"

definition busy_fraction :: "'d doubles \<Rightarrow> Summary \<Rightarrow> 'd" where
  "busy_fraction F s =
     (let span = wall s
      in if span = 0 then flt_of_int F 0 else flt_div F (flt_of_int F (sm_busy s)) (flt_of_int F span))"

section \<open>JSON\<close>

text \<open>The name of the kind; a byte that is no kind, which a deserialized summary may hold, is unknown.\<close>

definition kind_byte_name :: "byte \<Rightarrow> string" where
  "kind_byte_name k = (if k = kind_code LOGICAL then kind_to_string LOGICAL
     else if k = kind_code PHYSICAL then kind_to_string PHYSICAL else ''Unknown'')"

definition backend_json :: "IoBackend \<Rightarrow> BackendTotals \<Rightarrow> string" where
  "backend_json b totals =
     ''\"'' @ backend_to_string b
     @ ''\": {\"num_ops\": '' @ show_nat (unat (be_num_ops totals))
     @ '', \"bytes_transferred\": '' @ show_nat (unat (be_bytes_transferred totals))
     @ '', \"total_duration_ns\": '' @ show_int (be_total_duration totals)
     @ '', \"num_errors\": '' @ show_nat (unat (be_num_errors totals)) @ ''}''"

text \<open>The loop over the backends, with a separator before all but the first.\<close>

fun backends_json :: "(IoBackend \<Rightarrow> BackendTotals) \<Rightarrow> IoBackend list \<Rightarrow> nat \<Rightarrow> string" where
  "backends_json totals [] i = []"
| "backends_json totals (b # bs) i =
     (if i \<noteq> 0 then '', '' else []) @ backend_json b (totals b) @ backends_json totals bs (i + 1)"

definition summary_to_json :: "'d doubles \<Rightarrow> Summary \<Rightarrow> string" where
  "summary_to_json F s =
     (let wall_ns = \<lambda>time. to_wall_clock (sm_anchor s) time
      in ''{\"kind\": \"'' @ kind_byte_name (sm_kind s) @ ''\"''
         @ '', \"start_unix_ns\": '' @ show_int (wall_ns (sm_start s))
         @ '', \"end_unix_ns\": '' @ show_int (wall_ns (sm_end s))
         @ '', \"wall_ns\": '' @ show_int (wall s)
         @ '', \"num_ops\": '' @ show_nat (unat (sm_num_ops s))
         @ '', \"num_reads\": '' @ show_nat (unat (sm_num_reads s))
         @ '', \"num_writes\": '' @ show_nat (unat (sm_num_writes s))
         @ '', \"bytes_requested\": '' @ show_nat (unat (sm_bytes_requested s))
         @ '', \"bytes_transferred\": '' @ show_nat (unat (sm_bytes_transferred s))
         @ '', \"bytes_read\": '' @ show_nat (unat (sm_bytes_read s))
         @ '', \"bytes_written\": '' @ show_nat (unat (sm_bytes_written s))
         @ '', \"num_errors\": '' @ show_nat (unat (sm_num_errors s))
         @ '', \"busy_ns\": '' @ show_int (sm_busy s)
         @ '', \"total_duration_ns\": '' @ show_int (sm_total_duration s)
         @ '', \"busy_bytes_per_sec\": '' @ flt_show F (busy_bytes_per_sec F s)
         @ '', \"busy_fraction\": '' @ flt_show F (busy_fraction F s)
         @ '', \"mean_duration_ns\": '' @ show_int (mean_duration s)
         @ '', \"counters\": '' @ counters_to_json (sm_counters s)
         @ '', \"by_backend\": {'' @ backends_json (by_backend s) all_backends 0 @ ''}}'')"

section \<open>Reports\<close>

datatype ReportRows = USED_ROWS | ALL_ROWS

text \<open>\<open>row\<close>: the label is padded to 21 characters on its right.\<close>

definition row :: "string \<Rightarrow> string \<Rightarrow> string" where
  "row label v = ''  '' @ label @ replicate (21 - length label) (CHR '' '') @ v @ [CHR 0x0A]"

text \<open>The formats with their default arguments.\<close>

abbreviation bytes_text :: "'d doubles \<Rightarrow> 64 word \<Rightarrow> string" where
  "bytes_text F n \<equiv> format_nbytes F n 2 True"

abbreviation rate_text :: "'d doubles \<Rightarrow> 'd \<Rightarrow> string" where
  "rate_text F r \<equiv> format_rate F r 2 True"

abbreviation duration_text :: "'d doubles \<Rightarrow> int \<Rightarrow> string" where
  "duration_text F d \<equiv> format_duration F d 2 True"

definition counters_report :: "'d doubles \<Rightarrow> ReportRows \<Rightarrow> Counters \<Rightarrow> string" where
  "counters_report F rows c =
     (if rows \<noteq> ALL_ROWS \<and> counters_empty c then []
      else row ''http size probes''
             (show_nat (unat (remote_size_probes c)) @ '' probes, '' @ duration_text F (remote_size_probing c))
         @ row ''http handshake''
             (show_nat (unat (http_connections c)) @ '' connections, '' @ duration_text F (http_dns c) @ '' dns, ''
              @ duration_text F (http_tcp c) @ '' tcp, '' @ duration_text F (http_tls c) @ '' tls'')
         @ row ''http retries''
             (show_nat (unat (http_retries c)) @ '' retries, '' @ duration_text F (http_retry_backoff c) @ '' backoff''))"

definition backend_row :: "'d doubles \<Rightarrow> ReportRows \<Rightarrow> IoBackend \<Rightarrow> BackendTotals \<Rightarrow> string" where
  "backend_row F rows b totals =
     (let label = ''backend '' @ backend_to_string b
      in if be_num_ops totals = 0 then (if rows = ALL_ROWS then row label ''unused'' else [])
         else row label
           (bytes_text F (be_bytes_transferred totals) @ '' in '' @ show_nat (unat (be_num_ops totals)) @ '' ops, ''
            @ duration_text F (be_total_duration totals)
            @ (if 0 < be_total_duration totals
               then '', '' @ rate_text F (flt_div F (flt_of_u64 F (be_bytes_transferred totals))
                                           (flt_seconds F (be_total_duration totals)))
               else [])
            @ (if be_num_errors totals \<noteq> 0 then '', '' @ show_nat (unat (be_num_errors totals)) @ '' failed'' else [])))"

definition summary_report :: "'d doubles \<Rightarrow> ReportRows \<Rightarrow> Summary \<Rightarrow> string" where
  "summary_report F rows s =
     (let remote = be_num_ops (by_backend s REMOTE_HTTP) \<noteq> 0 \<or> be_num_ops (by_backend s REMOTE_HDFS) \<noteq> 0
      in ''KvikIO I/O summary ('' @ kind_byte_name (sm_kind s) @ '')'' @ [CHR 0x0A]
         @ row ''wall time'' (duration_text F (wall s))
         @ row ''busy time'' (duration_text F (sm_busy s) @ '' (''
             @ flt_fixed F 2 (flt_mult F (busy_fraction F s) (flt_of_int F 100)) @ '' % of the wall time)'')
         @ row ''busy bandwidth'' (rate_text F (busy_bytes_per_sec F s))
         @ row ''operations'' (show_nat (unat (sm_num_ops s)) @ '' ('' @ show_nat (unat (sm_num_reads s))
             @ '' read, '' @ show_nat (unat (sm_num_writes s)) @ '' write)'')
         @ row ''mean duration'' (duration_text F (mean_duration s))
         @ row ''bytes'' (bytes_text F (sm_bytes_transferred s) @ '' of '' @ bytes_text F (sm_bytes_requested s)
             @ '' requested ('' @ bytes_text F (sm_bytes_read s) @ '' read, ''
             @ bytes_text F (sm_bytes_written s) @ '' written)'')
         @ row ''errors'' (show_nat (unat (sm_num_errors s)))
         @ concat (map (\<lambda>b. backend_row F rows b (by_backend s b)) all_backends)
         @ counters_report F (if remote then ALL_ROWS else rows) (sm_counters s))"

section \<open>Reading the JSON object back\<close>

definition summary_labels :: "Summary \<Rightarrow> (string \<times> bool) list" where
  "summary_labels s =
     [(''{\"kind\": \"'' @ kind_byte_name (sm_kind s) @ ''\", \"start_unix_ns\": '', True),
      ('', \"end_unix_ns\": '', True), ('', \"wall_ns\": '', True), ('', \"num_ops\": '', False),
      ('', \"num_reads\": '', False), ('', \"num_writes\": '', False), ('', \"bytes_requested\": '', False),
      ('', \"bytes_transferred\": '', False), ('', \"bytes_read\": '', False), ('', \"bytes_written\": '', False),
      ('', \"num_errors\": '', False), ('', \"busy_ns\": '', True), ('', \"total_duration_ns\": '', True)]"

definition summary_values :: "Summary \<Rightarrow> int list" where
  "summary_values s =
     [to_wall_clock (sm_anchor s) (sm_start s), to_wall_clock (sm_anchor s) (sm_end s), wall s,
      uint (sm_num_ops s), uint (sm_num_reads s), uint (sm_num_writes s), uint (sm_bytes_requested s),
      uint (sm_bytes_transferred s), uint (sm_bytes_read s), uint (sm_bytes_written s), uint (sm_num_errors s),
      sm_busy s, sm_total_duration s]"

lemma summary_to_json_fields:
  "\<exists>rest. summary_to_json F s = print_fields (summary_labels s) (summary_values s) @ '','' @ rest"
  by (simp add: summary_to_json_def summary_labels_def summary_values_def Let_def)

lemma summary_labels_stop: "(l, b) \<in> set (summary_labels s) \<Longrightarrow> l \<noteq> [] \<and> \<not> is_digit (hd l)"
  by (auto simp: summary_labels_def is_digit_def)

lemma summary_values_sign: "i < length (summary_labels s) \<Longrightarrow> snd (summary_labels s ! i) \<or> 0 \<le> summary_values s ! i"
proof -
  have "list_all2 (\<lambda>l v. snd l \<or> 0 \<le> v) (summary_labels s) (summary_values s)"
    by (simp add: summary_labels_def summary_values_def)
  then show "i < length (summary_labels s) \<Longrightarrow> ?thesis" by (rule list_all2_nthD)
qed

text \<open>Every integer of a summary is read back from its JSON object, whatever the rates print as.\<close>

lemma summary_json_readable:
  "\<exists>rest. scan_fields (summary_labels s) (summary_to_json F s) = Some (summary_values s, rest)"
proof -
  obtain rest where r: "summary_to_json F s = print_fields (summary_labels s) (summary_values s) @ '','' @ rest"
    using summary_to_json_fields by blast
  have "length (summary_labels s) = length (summary_values s)"
    by (simp add: summary_labels_def summary_values_def)
  then have "scan_fields (summary_labels s) (print_fields (summary_labels s) (summary_values s) @ ('','' @ rest))
      = Some (summary_values s, '','' @ rest)"
    by (rule scan_fields_print_fields) (use summary_labels_stop summary_values_sign in \<open>auto simp: is_digit_def\<close>)
  with r show ?thesis by simp
qed

section \<open>The rows of a report\<close>

lemma row_not_Nil [simp]: "row label v \<noteq> []"
  by (simp add: row_def)

text \<open>
  A backend has a row exactly when it was used or all rows are asked for; the counters have their rows
  when something was counted or all rows are asked for, which a summary does once a remote backend was used.
\<close>

lemma counters_report_Nil: "counters_report F rows c = [] \<longleftrightarrow> rows = USED_ROWS \<and> counters_empty c"
  by (cases rows) (simp_all add: counters_report_def)

lemma backend_row_Nil: "backend_row F rows b t = [] \<longleftrightarrow> rows = USED_ROWS \<and> be_num_ops t = 0"
  by (cases rows) (simp_all add: backend_row_def Let_def)

text \<open>The labels fit their column, so that the values line up.\<close>

lemma row_label_fits: "length (''backend '' @ backend_to_string b) \<le> 21"
  by (cases b) (simp_all add: backend_to_string_def)

end
