(* ===== verification/Cuda_Shim.thy ===== *)
theory Cuda_Shim
  imports Prelude
begin

text \<open>
  The loading of the CUDA driver and its batched copies: \<open>cpp/src/shim/cuda.cpp\<close> and its header, with
  \<open>get_symbol\<close> and \<open>load_library\<close> of \<open>cpp/src/shim/utils.cpp\<close> as it uses them. The dynamic linker and the
  driver's functions are parameters. The lemmas show which drivers are accepted, and that a batch of
  separate copies has the same effect whether it is handed to the driver as a batch, which may order its
  copies freely, or copied entry by entry.
\<close>

section \<open>Loading the driver\<close>

text \<open>
  \<open>dlopen\<close>, \<open>dlsym\<close> (whether it finds the symbol) and \<open>cuDriverGetVersion\<close> (its result code and the version).
\<close>

record 'l linker =
  dlopen :: "string \<Rightarrow> 'l option"
  dlsym :: "'l \<Rightarrow> string \<Rightarrow> bool"
  driver_get_version :: "'l \<Rightarrow> int \<times> int"

text \<open>
  What construction ends with: an exception, or the singleton asking for itself while it is being
  constructed, which the language leaves undefined.
\<close>

datatype 'a construction = Constructed 'a | Throws exn | Reenters

record cudaAPI =
  driver_version :: int
  symbols :: "string list"
  memcpy_batch_set :: bool

text \<open>The symbols, in the order of loading, without the version suffix that \<open>cuda.h\<close> adds to some of them.\<close>

definition cuda_symbols :: "string list" where
  "cuda_symbols =
     [''cuMemHostAlloc'', ''cuMemFreeHost'', ''cuMemHostRegister'', ''cuMemHostUnregister'',
      ''cuMemcpyHtoDAsync'', ''cuMemcpyDtoHAsync'', ''cuMemcpyAsync'', ''cuPointerGetAttribute'',
      ''cuPointerGetAttributes'', ''cuCtxCreate'', ''cuCtxDestroy'', ''cuCtxPushCurrent'', ''cuCtxPopCurrent'',
      ''cuCtxGetCurrent'', ''cuCtxGetDevice'', ''cuMemGetAddressRange'', ''cuGetErrorName'',
      ''cuGetErrorString'', ''cuDeviceGet'', ''cuDeviceGetCount'', ''cuDeviceGetAttribute'',
      ''cuDevicePrimaryCtxRetain'', ''cuDevicePrimaryCtxRelease'', ''cuStreamSynchronize'', ''cuStreamCreate'',
      ''cuStreamDestroy'', ''cuDriverGetVersion'', ''cuEventSynchronize'', ''cuEventCreate'',
      ''cuEventDestroy'', ''cuEventRecord'', ''cuEventQuery'', ''cuLaunchHostFunc'']"

definition CUDA_SUCCESS :: int where "CUDA_SUCCESS = 0"

definition CUDA_ERROR_STUB_LIBRARY :: int where "CUDA_ERROR_STUB_LIBRARY = 34"

definition load_library :: "'l linker \<Rightarrow> string \<Rightarrow> 'l res" where
  "load_library L name = (case dlopen L name of None \<Rightarrow> Inl Runtime_Error | Some lib \<Rightarrow> Inr lib)"

definition get_symbol :: "'l linker \<Rightarrow> 'l \<Rightarrow> string \<Rightarrow> string res" where
  "get_symbol L lib name = (if dlsym L lib name then Inr name else Inl Runtime_Error)"

fun get_symbols :: "'l linker \<Rightarrow> 'l \<Rightarrow> string list \<Rightarrow> string list res" where
  "get_symbols L lib [] = Inr []"
| "get_symbols L lib (n # ns) =
     bind_res (get_symbol L lib n) (\<lambda>s. bind_res (get_symbols L lib ns) (\<lambda>ss. Inr (s # ss)))"

text \<open>
  \<open>KVIKIO_CUDA_DRIVER_TRY\<close> inside the constructor: to name an error other than that of a stub library it
  calls \<open>cudaAPI::instance()\<close>.
\<close>

definition driver_try_in_constructor :: "int \<Rightarrow> 'a construction \<Rightarrow> 'a construction" where
  "driver_try_in_constructor code k =
     (if code = CUDA_ERROR_STUB_LIBRARY then Throws CUfile_Exception
      else if code \<noteq> CUDA_SUCCESS then Reenters
      else k)"

text \<open>The batched copy, in a build against CUDA \<open>cuda_version\<close>.\<close>

definition load_batch :: "nat \<Rightarrow> 'l linker \<Rightarrow> 'l \<Rightarrow> cudaAPI \<Rightarrow> cudaAPI construction" where
  "load_batch cuda_version L lib api =
     (if cuda_version < 12080 then Constructed api
      else case get_symbol L lib ''cuMemcpyBatchAsync'' of
             Inr s \<Rightarrow> Constructed (api\<lparr>memcpy_batch_set := True\<rparr>)
           | Inl e \<Rightarrow> if 12080 \<le> driver_version api then Throws e
                     else Constructed (api\<lparr>memcpy_batch_set := False\<rparr>))"

definition new_cuda_api :: "nat \<Rightarrow> 'l linker \<Rightarrow> cudaAPI construction" where
  "new_cuda_api cuda_version L =
     (case load_library L ''libcuda.so.1'' of Inl e \<Rightarrow> Throws e
      | Inr lib \<Rightarrow>
          (case get_symbols L lib cuda_symbols of Inl e \<Rightarrow> Throws e
           | Inr syms \<Rightarrow>
               let (code, version) = driver_get_version L lib
               in driver_try_in_constructor code
                    (load_batch cuda_version L lib
                       \<lparr>driver_version = version, symbols = syms, memcpy_batch_set = False\<rparr>)))"

text \<open>
  \<open>instance\<close>: the object is kept once it has been constructed; an exception leaves the static variable
  uninitialized, and the next call tries again.
\<close>

definition cuda_instance ::
  "nat \<Rightarrow> 'l linker \<Rightarrow> cudaAPI option \<Rightarrow> cudaAPI construction \<times> cudaAPI option" where
  "cuda_instance cuda_version L kept =
     (case kept of Some api \<Rightarrow> (Constructed api, kept)
      | None \<Rightarrow> (case new_cuda_api cuda_version L of
                   Constructed api \<Rightarrow> (Constructed api, Some api)
                 | c \<Rightarrow> (c, None)))"

text \<open>\<open>CUfileException\<close> is a runtime error too, so both are caught.\<close>

definition is_cuda_available ::
  "nat \<Rightarrow> 'l linker \<Rightarrow> cudaAPI option \<Rightarrow> bool construction \<times> cudaAPI option" where
  "is_cuda_available cuda_version L kept =
     (case cuda_instance cuda_version L kept of
        (Constructed api, k) \<Rightarrow> (Constructed True, k)
      | (Throws e, k) \<Rightarrow> (if e = Runtime_Error \<or> e = CUfile_Exception then Constructed False else Throws e, k)
      | (Reenters, k) \<Rightarrow> (Reenters, k))"

section \<open>Copies\<close>

type_synonym copy = "ptr \<times> ptr \<times> size_t"

text \<open>The two functions of the driver, on its state; stream \<open>None\<close> is the null stream.\<close>

record ('st, 'e) copy_calls =
  call_memcpy :: "ptr \<Rightarrow> ptr \<Rightarrow> size_t \<Rightarrow> 'st option \<Rightarrow> 'e \<Rightarrow> int \<times> 'e"
  call_batch :: "ptr list \<Rightarrow> ptr list \<Rightarrow> size_t list \<Rightarrow> 'st \<Rightarrow> 'e \<Rightarrow> int \<times> 'e"

fun copy_each :: "('st, 'e) copy_calls \<Rightarrow> copy list \<Rightarrow> 'st option \<Rightarrow> 'e \<Rightarrow> int \<times> 'e" where
  "copy_each calls [] stream e = (CUDA_SUCCESS, e)"
| "copy_each calls ((dst, src, n) # rest) stream e =
     (let (result, e1) = call_memcpy calls dst src n stream e
      in if result \<noteq> CUDA_SUCCESS then (result, e1) else copy_each calls rest stream e1)"

definition cuda_memcpy_batch_async ::
  "nat \<Rightarrow> cudaAPI \<Rightarrow> ('st, 'e) copy_calls \<Rightarrow> ptr list \<Rightarrow> ptr list \<Rightarrow> size_t list \<Rightarrow> 'st option \<Rightarrow> 'e \<Rightarrow> int res \<times> 'e" where
  "cuda_memcpy_batch_async cuda_version api calls dsts srcs sizes stream e =
     (if \<not> (length dsts = length srcs \<and> length dsts = length sizes) then (Inl Invalid_Argument, e)
      else if dsts = [] then (Inr CUDA_SUCCESS, e)
      else let (result, e1) =
             (case stream of
                Some st \<Rightarrow> if 12080 \<le> cuda_version \<and> memcpy_batch_set api
                           then call_batch calls dsts srcs sizes st e
                           else copy_each calls (zip dsts (zip srcs sizes)) stream e
              | None \<Rightarrow> copy_each calls (zip dsts (zip srcs sizes)) stream e)
           in (Inr result, e1))"

definition cuda_memcpy_async ::
  "nat \<Rightarrow> cudaAPI \<Rightarrow> ('st, 'e) copy_calls \<Rightarrow> ptr \<Rightarrow> ptr \<Rightarrow> size_t \<Rightarrow> 'st option \<Rightarrow> 'e \<Rightarrow> int res \<times> 'e" where
  "cuda_memcpy_async cuda_version api calls dst src n stream e =
     cuda_memcpy_batch_async cuda_version api calls [dst] [src] [n] stream e"

section \<open>Which drivers are accepted\<close>

lemma get_symbols_Inr: "get_symbols L lib ns = Inr ss \<longleftrightarrow> ss = ns \<and> (\<forall>n\<in>set ns. dlsym L lib n)"
  by (induction ns arbitrary: ss) (auto simp: get_symbol_def bind_res_Inr_iff)

text \<open>
  A constructed object has all the symbols, and the batched copy whenever the build and the driver
  are at least 12.8.
\<close>

lemma new_cuda_api_constructed:
  assumes "new_cuda_api cuda_version L = Constructed api"
  shows "symbols api = cuda_symbols"
    and "12080 \<le> cuda_version \<Longrightarrow> 12080 \<le> driver_version api \<Longrightarrow> memcpy_batch_set api"
    and "cuda_version < 12080 \<Longrightarrow> \<not> memcpy_batch_set api"
  using assms
  by (auto simp: new_cuda_api_def load_batch_def driver_try_in_constructor_def get_symbols_Inr
      split: sum.splits prod.splits if_splits)

text \<open>
  When the driver is there but does not report its version, for another reason than being a stub,
  the check whether CUDA is available does not return false: the constructor enters itself.
\<close>

lemma version_error_reenters:
  assumes "dlopen L ''libcuda.so.1'' = Some lib" and "\<forall>n\<in>set cuda_symbols. dlsym L lib n"
    and "driver_get_version L lib = (code, v)" and "code \<noteq> CUDA_SUCCESS" and "code \<noteq> CUDA_ERROR_STUB_LIBRARY"
  shows "is_cuda_available cuda_version L None = (Reenters, None)"
proof -
  have "get_symbols L lib cuda_symbols = Inr cuda_symbols" using assms(2) by (simp add: get_symbols_Inr)
  with assms show ?thesis
    by (simp add: is_cuda_available_def cuda_instance_def new_cuda_api_def load_library_def
        driver_try_in_constructor_def)
qed

lemma missing_driver_unavailable:
  "dlopen L ''libcuda.so.1'' = None \<Longrightarrow> is_cuda_available cuda_version L None = (Constructed False, None)"
  by (simp add: is_cuda_available_def cuda_instance_def new_cuda_api_def load_library_def)

section \<open>What a batch copies\<close>

definition copy_bytes :: "copy \<Rightarrow> memory \<Rightarrow> memory" where
  "copy_bytes c m = (case c of (dst, src, n) \<Rightarrow> write_bytes m dst (read_bytes m src (unat n)))"

definition in_dst :: "copy \<Rightarrow> ptr \<Rightarrow> bool" where
  "in_dst c x = (case c of (dst, src, n) \<Rightarrow> unat (x - dst) < unat n)"

definition in_src :: "copy \<Rightarrow> ptr \<Rightarrow> bool" where
  "in_src c x = (case c of (dst, src, n) \<Rightarrow> unat (x - src) < unat n)"

text \<open>The address from which a copy fills an address of its destination.\<close>

definition origin :: "copy \<Rightarrow> ptr \<Rightarrow> ptr" where
  "origin c x = (case c of (dst, src, n) \<Rightarrow> src + (x - dst))"

text \<open>No address is written twice, and none that is read is written.\<close>

definition separate :: "copy list \<Rightarrow> bool" where
  "separate cs \<longleftrightarrow> distinct cs
     \<and> (\<forall>c\<in>set cs. \<forall>d\<in>set cs. \<forall>x. in_dst c x \<longrightarrow> \<not> in_src d x \<and> (in_dst d x \<longrightarrow> c = d))"

lemma copy_bytes_apply: "copy_bytes c m x = (if in_dst c x then m (origin c x) else m x)"
proof -
  obtain dst src n where c: "c = (dst, src, n)" by (cases c)
  show ?thesis
    by (simp add: c copy_bytes_def in_dst_def origin_def write_bytes_def)
qed

lemma origin_in_src: "in_dst c x \<Longrightarrow> in_src c (origin c x)"
  by (auto simp: in_dst_def in_src_def origin_def split: prod.splits)

lemma separate_tail: "separate (c # cs) \<Longrightarrow> separate cs"
  by (simp add: separate_def)

lemma fold_copies_outside: "\<forall>c\<in>set cs. \<not> in_dst c x \<Longrightarrow> fold copy_bytes cs m x = m x"
  by (induction cs arbitrary: m) (simp_all add: copy_bytes_apply)

lemma fold_copies_inside:
  "separate cs \<Longrightarrow> c \<in> set cs \<Longrightarrow> in_dst c x \<Longrightarrow> fold copy_bytes cs m x = m (origin c x)"
proof (induction cs arbitrary: m)
  case Nil
  then show ?case by simp
next
  case (Cons d ds)
  show ?case
  proof (cases "c = d")
    case True
    with Cons.prems have "\<forall>e\<in>set ds. \<not> in_dst e x" by (auto simp: separate_def)
    then have "fold copy_bytes ds (copy_bytes d m) x = copy_bytes d m x" by (rule fold_copies_outside)
    with True Cons.prems(3) show ?thesis by (simp add: copy_bytes_apply [of d m x])
  next
    case False
    have "\<not> in_dst d (origin c x)"
      using Cons.prems origin_in_src [OF Cons.prems(3)] unfolding separate_def by (meson list.set_intros(1))
    moreover have "fold copy_bytes ds (copy_bytes d m) x = copy_bytes d m (origin c x)"
      using False Cons.prems by (intro Cons.IH) (auto intro: separate_tail)
    ultimately show ?thesis by (simp add: copy_bytes_apply [of d m "origin c x"])
  qed
qed

lemma fold_copies_mset:
  assumes "separate cs" and "mset ds = mset cs"
  shows "fold copy_bytes ds m = fold copy_bytes cs m"
proof
  fix x
  have s: "set ds = set cs" using assms(2) by (metis mset_eq_setD)
  then have "separate ds" using assms mset_eq_imp_distinct_iff [OF assms(2)] by (simp add: separate_def)
  then show "fold copy_bytes ds m x = fold copy_bytes cs m x"
    using assms(1) s fold_copies_outside [of ds x m] fold_copies_outside [of cs x m]
      fold_copies_inside [of ds _ x m] fold_copies_inside [of cs _ x m]
    by (cases "\<exists>c\<in>set cs. in_dst c x") auto
qed

text \<open>
  Documented behaviour of the driver, in a state whose memory is \<open>mem e\<close>: a copy moves its bytes, and
  a batch makes its copies in some order.
\<close>

definition copies_work :: "('st, 'e) copy_calls \<Rightarrow> ('e \<Rightarrow> memory) \<Rightarrow> bool" where
  "copies_work calls mem \<longleftrightarrow>
     (\<forall>dst src n stream e. fst (call_memcpy calls dst src n stream e) = CUDA_SUCCESS
        \<and> mem (snd (call_memcpy calls dst src n stream e)) = copy_bytes (dst, src, n) (mem e))
   \<and> (\<forall>dsts srcs ns stream e. fst (call_batch calls dsts srcs ns stream e) = CUDA_SUCCESS
        \<and> (\<exists>cs. mset cs = mset (zip dsts (zip srcs ns))
             \<and> mem (snd (call_batch calls dsts srcs ns stream e)) = fold copy_bytes cs (mem e)))"

lemma copy_each_works:
  assumes "copies_work calls mem"
  shows "fst (copy_each calls cs stream e) = CUDA_SUCCESS
    \<and> mem (snd (copy_each calls cs stream e)) = fold copy_bytes cs (mem e)"
proof (induction cs arbitrary: e)
  case Nil
  then show ?case by simp
next
  case (Cons c cs)
  obtain dst src n where c: "c = (dst, src, n)" by (cases c)
  obtain r e1 where r: "call_memcpy calls dst src n stream e = (r, e1)" by force
  have "fst (call_memcpy calls dst src n stream e) = CUDA_SUCCESS
      \<and> mem (snd (call_memcpy calls dst src n stream e)) = copy_bytes (dst, src, n) (mem e)"
    using assms unfolding copies_work_def by blast
  with r have "r = CUDA_SUCCESS" "mem e1 = copy_bytes c (mem e)" by (simp_all add: c)
  with Cons.IH [of e1] r show ?case by (simp add: c)
qed

text \<open>
  Whichever way a batch of separate copies takes, it succeeds, every destination ends with the bytes
  that its source had, and no other byte changes.
\<close>

lemma batch_copies_move_bytes:
  assumes "copies_work calls mem" and "length srcs = length dsts" and "length ns = length dsts"
    and "separate (zip dsts (zip srcs ns))"
  shows "fst (cuda_memcpy_batch_async v api calls dsts srcs ns stream e) = Inr CUDA_SUCCESS
    \<and> mem (snd (cuda_memcpy_batch_async v api calls dsts srcs ns stream e))
        = fold copy_bytes (zip dsts (zip srcs ns)) (mem e)"
proof -
  let ?cs = "zip dsts (zip srcs ns)"
  note each = copy_each_works [OF assms(1), of ?cs stream e]
  have batch: "fst (call_batch calls dsts srcs ns st e) = CUDA_SUCCESS
      \<and> mem (snd (call_batch calls dsts srcs ns st e)) = fold copy_bytes ?cs (mem e)" for st
    using assms(1) fold_copies_mset [OF assms(4)] unfolding copies_work_def by metis
  show ?thesis
    using assms(2,3) each batch
    by (cases stream) (simp_all add: cuda_memcpy_batch_async_def Let_def split_beta)
qed

lemma single_copy_moves_bytes:
  assumes "copies_work calls mem" and "\<forall>x. in_dst (dst, src, n) x \<longrightarrow> \<not> in_src (dst, src, n) x"
  shows "fst (cuda_memcpy_async v api calls dst src n stream e) = Inr CUDA_SUCCESS
    \<and> mem (snd (cuda_memcpy_async v api calls dst src n stream e))
        = write_bytes (mem e) dst (read_bytes (mem e) src (unat n))"
  using batch_copies_move_bytes [OF assms(1), of "[src]" "[dst]" "[n]" v api stream e] assms(2)
  by (simp add: cuda_memcpy_async_def separate_def copy_bytes_def)

end
