(* ===== verification/Spec2Isabelle.thy ===== *)
theory Spec2Isabelle
  imports Transfer_Plan Parallel_IO Bounce_Buffer_Cache Posix_Write Counters Reactor_Safety Summary_Monitor Remote_Read Mmap File_Read Size_Cache Async_IO Event_Barrier Curl_Setup Cufile_Driver Size_Probe Block_Device Url_Builder Nic_Plugin Report Cuda_Shim
begin

text \<open>
  A verification development for KvikIO, a C++ library for file I/O between storage, remote servers and
  host or GPU memory. The sources are under \<open>cpp/src\<close>, \<open>cpp/include/kvikio\<close> and \<open>cpp/nsys_plugins\<close>; the
  file names below are relative to \<open>cpp\<close>.

  \<^bold>\<open>The program.\<close> A user opens a \<open>FileHandle\<close>, an \<open>MmapHandle\<close> or a \<open>RemoteHandle\<close> and calls
  \<open>read\<close>, \<open>write\<close>, \<open>pread\<close> or \<open>pwrite\<close> with an address that may be host or device memory. A parallel call
  is cut into tasks for a thread pool (\<open>parallel_io\<close>). A task of a file ends in cuFile or in the POSIX
  layer, which loops over short transfers, chooses Direct I/O for the aligned middle of a range and moves
  device data through pinned bounce buffers taken from pools and per-thread caches. A remote task is an
  HTTP request through libcurl with retries, whose body reaches the destination through write callbacks; in
  the multi-poll backend the sub-ranges of a call go to reactors that drive many requests at once under a
  budget and report to an aggregate, and device copies are awaited through an event barrier. Observers are
  told about every operation; a summary monitor turns this into statistics. A transfer planner groups many
  small requests into few large transfers. Settings come from the environment.

  \<^bold>\<open>Conventions.\<close> Machine integers are words of their width, so wrap-around is visible; a duration or a
  point in time is a signed count of nanoseconds. Exceptions are values of a sum type, and every throwing
  branch of the code is a branch of the model; message texts are dropped. State is passed explicitly, as a
  record of the members of a class or of the outside world; threads are \<open>inductive\<close> step relations whose
  steps are the critical sections and atomic operations of the code. What is not in the repository (the
  kernel, the CUDA driver, cuFile, libcurl, NVTX, the file system, the environment) is an argument, and a
  theorem that relies on its documented behaviour has that behaviour as a named hypothesis and a witness
  with a concrete instance. The arithmetic of \<open>double\<close>, on which no control flow of the I/O paths depends,
  and \<open>std::regex\<close> on a pattern from the command line are arguments as well.

  \<^bold>\<open>Loops.\<close> No loop has a fuel bound. Loops over data are structural recursions or have a \<open>termination\<close> proof:
  the loop of blocking attempts in \<open>Http_Retry\<close> by the attempts left, the scanners of \<open>Defaults\<close> and of the
  command line in \<open>Nic_Plugin\<close> by the text left. Loops that need not end on every input are
  \<open>partial_function (option)\<close>, and the theorems say that they return: the splitting loops of the planner and of
  \<open>parallel_io\<close> for a positive piece size, the POSIX loops when the kernel makes progress, the prefault loop
  of a mapping, the sampling loop of the network plugin once the stop flag is seen.

  \<^bold>\<open>Theories and sources.\<close>
  \<^item> \<open>Prelude\<close>: machine types, exceptions, byte-addressed memory, lemmas on words and lists. \<open>Text_Format\<close>: integers
    as text. \<open>Number_Text\<close>: quantities with units (\<open>src/detail/string_utils.cpp\<close>).
  \<^item> \<open>Range_Tiling\<close>: pieces that tile a range, and the locale \<open>range_splitter\<close> for code that cuts ranges.
  \<^item> \<open>Transfer_Plan\<close>: the planner (\<open>src/detail/transfer_plan.cpp\<close>): the plan delivers every requested byte once, is
    well formed and total, and its accounting is exact.
  \<^item> \<open>Align\<close> (\<open>src/detail/utils.cpp\<close>), \<open>Parallel_IO\<close> (\<open>detail/parallel_operation.hpp\<close>), \<open>Task_Run\<close>, \<open>Task_Write\<close>:
    a call cut into tasks has the effect of one call, in every order of the tasks, also when tasks fail.
  \<^item> \<open>Bounce_Buffer\<close> (\<open>src/bounce_buffer.cpp\<close>), \<open>Bounce_Buffer_Cache\<close> (\<open>src/detail/bounce_buffer_cache.cpp\<close>): no
    buffer is lost or handed out twice, and the caches keep their cap under every interleaving.
  \<^item> \<open>Posix_IO\<close>, \<open>Posix_Read\<close>, \<open>Posix_Write\<close> (\<open>detail/posix_io.hpp\<close>, \<open>src/detail/posix_io.cpp\<close>): reads and writes
    move exactly the bytes of the range through every combination of short transfers, Direct I/O, bounce
    buffers and over-reading.
  \<^item> \<open>File_Utils\<close>, \<open>Block_Device\<close> (\<open>src/file_utils.cpp\<close>), \<open>File_Handle\<close>, \<open>File_IO\<close>, \<open>File_Call\<close>, \<open>File_Read\<close>, \<open>File_Write\<close>
    (\<open>src/file_handle.cpp\<close>, \<open>src/compat_mode_manager.cpp\<close>): a handle owns what it opened, whatever fails; \<open>pread\<close>
    and \<open>pwrite\<close> transfer the range on every path. \<open>Size_Cache\<close>: the cached size under concurrent use.
  \<^item> \<open>Async_IO\<close> (\<open>src/stream.cpp\<close>, \<open>src/batch.cpp\<close>, \<open>src/buffer.cpp\<close>): stream-ordered and batched I/O.
    \<open>Device_Memory\<close> (\<open>src/utils.cpp\<close>): pointers and contexts. \<open>Cufile_Driver\<close> (\<open>src/cufile\<close>, \<open>src/shim/cufile.cpp\<close>),
    \<open>Cuda_Shim\<close> (\<open>src/shim/cuda.cpp\<close>): which drivers are accepted, and copies in batches.
  \<^item> \<open>Mmap\<close> (\<open>src/mmap.cpp\<close>): reads of a mapping return the bytes of the file.
  \<^item> \<open>Url\<close>, \<open>Url_Builder\<close> (\<open>src/detail/url.cpp\<close>), \<open>Endpoint\<close>, \<open>Size_Probe\<close> (\<open>src/remote_handle.cpp\<close>, \<open>src/hdfs.cpp\<close>):
    encoding and its inverse, the choice of an endpoint, the size of a remote file.
  \<^item> \<open>Http_Retry\<close> (\<open>src/detail/http_retry.cpp\<close>, \<open>src/shim/libcurl.cpp\<close>), \<open>Curl_Setup\<close> (\<open>src/detail/curl_share.cpp\<close>,
    \<open>src/detail/tls.cpp\<close>), \<open>Remote_Callback\<close> (\<open>src/detail/remote_callback.cpp\<close>), \<open>Retry_Sink\<close>, \<open>Remote_Read\<close>
    (\<open>src/remote_handle.cpp\<close>): attempts, delays, handles and DNS caches; a successful read has put the requested
    bytes into the buffer whatever happened in earlier attempts.
  \<^item> \<open>Aggregate\<close>, \<open>Limiter\<close>, \<open>Reactor\<close>, \<open>Reactor_Safety\<close> (\<open>src/detail/multi_poll_reactor.cpp\<close>,
    \<open>src/detail/concurrent_request_limiter.cpp\<close>): every sub-range reports exactly once, also when the pool dies,
    and the budget is a hard cap. \<open>Event_Pool\<close>, \<open>Event_Barrier\<close> (\<open>src/detail/event.cpp\<close>,
    \<open>src/detail/io_event_barrier.cpp\<close>, \<open>src/detail/stream.cpp\<close>): ownership of events, and what the barrier waits for.
  \<^item> \<open>Observation\<close> (\<open>src/observation.cpp\<close>, \<open>src/detail/observation_recorder.cpp\<close>), \<open>Counters\<close>
    (\<open>src/statistics/counters.cpp\<close>), \<open>Busy_Tracker\<close>, \<open>Summary\<close>, \<open>Summary_Monitor\<close>, \<open>Report\<close>
    (\<open>src/statistics/summary.cpp\<close>): one finish for each start; busy time refines the measure of a union of
    intervals; readings are sound; the serialized form is exact; JSON can be read back.
  \<^item> \<open>Defaults\<close> (\<open>src/defaults.cpp\<close>): settings stay valid.
  \<^item> \<open>Nic_Monitor\<close>, \<open>Nic_Plugin\<close> (\<open>nsys_plugins/nic\<close>): the network plugin for Nsight Systems.

  \<^bold>\<open>Interfaces.\<close> Each locale states what a client relies on and is interpreted on the code's own operations:
  \<open>range_splitter\<close> (\<open>Range_Tiling\<close>) as \<open>planner\<close> in \<open>Transfer_Plan\<close> and \<open>pio\<close> in \<open>Parallel_IO\<close>; \<open>task_reader\<close> (\<open>Task_Run\<close>)
  as \<open>mmap_tasks\<close> in \<open>Mmap\<close> and as \<open>host_tasks\<close> and \<open>device_reads\<close> in \<open>File_Read\<close>; \<open>task_writer\<close> (\<open>Task_Write\<close>) as
  \<open>host_writes\<close> and \<open>device_writes\<close> in \<open>File_Write\<close>; \<open>write_callback\<close> (\<open>Remote_Callback\<close>) as \<open>host\<close> and \<open>pinned\<close>;
  \<open>retry_sink\<close> (\<open>Retry_Sink\<close>) as \<open>host_sink\<close> and \<open>device_sink\<close>, on which \<open>Remote_Read\<close> rests; \<open>slot_limiter\<close>
  (\<open>Limiter\<close>) as \<open>reactor_limiter\<close>; \<open>once_recorder\<close> (\<open>Observation\<close>) as \<open>logical_recorder\<close> and \<open>physical_recorder\<close>.

  \<^bold>\<open>Not modelled.\<close> Message texts of exceptions and the logger, which nothing reads back; the NVTX annotations
  of the library, which have no effect on its results; the branches of a build without cuFile, which only
  throw; the scheduling inside the third-party thread pool, whose order of tasks is a parameter; weak
  memory effects: atomic operations and critical sections are single steps in one total order. The
  bindings for Python and Java, tests, examples and benchmarks are not part of the library.
\<close>

end
